(* ===== verification/Prelude.thy ===== *)
theory Prelude
  imports Main "HOL-Library.Char_ord" "HOL-Library.List_Lexorder" "HOL-Library.Product_Lexorder"
begin

text \<open>
  Shared vocabulary of the development: Python's string methods on HOL strings, the
  fallible results of the model, insertion-ordered dictionaries and a few generic list lemmas.

  A Python \<open>str\<close> is a HOL \<open>string\<close>, one \<open>char\<close> per character; the
  character classes below are those of ASCII text, which is what identifiers, host names, version
  numbers and enum values of the platform consist of.  A raised exception is \<open>Inl\<close> of an
  error value, a returned value is \<open>Inr\<close>.
\<close>

named_theorems py_defs \<open>definitions of the Python string methods\<close>
named_theorems step_simps \<open>equations that unfold one operation of a component\<close>

subsection \<open>Results\<close>

text \<open>The next statement runs on the value of the one before it; an exception leaves the function.\<close>

definition bind_r :: "'e + 'a \<Rightarrow> ('a \<Rightarrow> 'e + 'b) \<Rightarrow> 'e + 'b" where
  "bind_r m f = (case m of Inl e \<Rightarrow> Inl e | Inr x \<Rightarrow> f x)"

lemma bind_r_simps [simp]: "bind_r (Inl e) f = Inl e" "bind_r (Inr x) f = f x"
  by (simp_all add: bind_r_def)

lemma bind_r_Inr [simp]: "bind_r m f = Inr y \<longleftrightarrow> (\<exists>x. m = Inr x \<and> f x = Inr y)"
  by (cases m) auto

lemma bind_r_Inl: "bind_r m f = Inl e \<longleftrightarrow> m = Inl e \<or> (\<exists>x. m = Inr x \<and> f x = Inl e)"
  by (cases m) auto

subsection \<open>Characters and strings\<close>

definition ordc :: "char \<Rightarrow> nat" where
  "ordc c = of_char c"

definition is_digit :: "char \<Rightarrow> bool" where
  "is_digit c \<longleftrightarrow> 48 \<le> ordc c \<and> ordc c \<le> 57"

definition is_lower :: "char \<Rightarrow> bool" where
  "is_lower c \<longleftrightarrow> 97 \<le> ordc c \<and> ordc c \<le> 122"

definition is_upper :: "char \<Rightarrow> bool" where
  "is_upper c \<longleftrightarrow> 65 \<le> ordc c \<and> ordc c \<le> 90"

definition is_alpha :: "char \<Rightarrow> bool" where
  "is_alpha c \<longleftrightarrow> is_lower c \<or> is_upper c"

definition is_alnum :: "char \<Rightarrow> bool" where
  "is_alnum c \<longleftrightarrow> is_alpha c \<or> is_digit c"

definition is_space :: "char \<Rightarrow> bool" where
  "is_space c \<longleftrightarrow> (9 \<le> ordc c \<and> ordc c \<le> 13) \<or> (28 \<le> ordc c \<and> ordc c \<le> 32)"

definition to_lower :: "char \<Rightarrow> char" where
  "to_lower c = (if is_upper c then char_of (ordc c + 32) else c)"

definition to_upper :: "char \<Rightarrow> char" where
  "to_upper c = (if is_lower c then char_of (ordc c - 32) else c)"

definition py_lower :: "string \<Rightarrow> string" where
  "py_lower = map to_lower"

definition py_upper :: "string \<Rightarrow> string" where
  "py_upper = map to_upper"

definition lstrip_by :: "('a \<Rightarrow> bool) \<Rightarrow> 'a list \<Rightarrow> 'a list" where
  "lstrip_by P = dropWhile P"

definition rstrip_by :: "('a \<Rightarrow> bool) \<Rightarrow> 'a list \<Rightarrow> 'a list" where
  "rstrip_by P s = rev (dropWhile P (rev s))"

definition strip_by :: "('a \<Rightarrow> bool) \<Rightarrow> 'a list \<Rightarrow> 'a list" where
  "strip_by P s = rstrip_by P (lstrip_by P s)"

definition py_strip :: "string \<Rightarrow> string" where
  "py_strip = strip_by is_space"

definition str_isdigit :: "string \<Rightarrow> bool" where
  "str_isdigit s \<longleftrightarrow> s \<noteq> [] \<and> list_all is_digit s"

definition startswith :: "'a list \<Rightarrow> 'a list \<Rightarrow> bool" where
  "startswith s p \<longleftrightarrow> take (length p) s = p"

definition endswith :: "'a list \<Rightarrow> 'a list \<Rightarrow> bool" where
  "endswith s p \<longleftrightarrow> length p \<le> length s \<and> drop (length s - length p) s = p"

fun contains_sub :: "'a list \<Rightarrow> 'a list \<Rightarrow> bool" where
  "contains_sub p [] = (p = [])"
| "contains_sub p (c # s) = (startswith (c # s) p \<or> contains_sub p s)"

text \<open>\<open>s.split(c)\<close> with a one-character separator: never the empty list.\<close>

fun split_on :: "'a \<Rightarrow> 'a list \<Rightarrow> 'a list list" where
  "split_on c [] = [[]]"
| "split_on c (x # xs) =
     (if x = c then [] # split_on c xs
      else (case split_on c xs of [] \<Rightarrow> [[x]] | p # ps \<Rightarrow> (x # p) # ps))"

fun join_with :: "'a list \<Rightarrow> 'a list list \<Rightarrow> 'a list" where
  "join_with sep [] = []"
| "join_with sep [p] = p"
| "join_with sep (p # q # ps) = p @ sep @ join_with sep (q # ps)"

text \<open>\<open>s.partition(c)\<close> and \<open>s.rpartition(c)\<close>: head, whether found, tail.\<close>

definition partition_on :: "'a \<Rightarrow> 'a list \<Rightarrow> 'a list \<times> bool \<times> 'a list" where
  "partition_on c s =
     (let h = takeWhile (\<lambda>x. x \<noteq> c) s; r = dropWhile (\<lambda>x. x \<noteq> c) s
      in (h, r \<noteq> [], tl r))"

definition rpartition_on :: "'a \<Rightarrow> 'a list \<Rightarrow> 'a list \<times> bool \<times> 'a list" where
  "rpartition_on c s =
     (case partition_on c (rev s) of (t, found, h) \<Rightarrow>
        if found then (rev h, True, rev t) else ([], False, s))"

definition int_of_digits :: "string \<Rightarrow> int" where
  "int_of_digits s = foldl (\<lambda>n c. 10 * n + (int (ordc c) - 48)) 0 s"

definition digit_char :: "nat \<Rightarrow> char" where
  "digit_char n = char_of (48 + n)"

fun str_digits :: "int \<Rightarrow> string" where
  "str_digits n =
     (if n < 10 then [digit_char (nat n)]
      else str_digits (n div 10) @ [digit_char (nat (n mod 10))])"

declare str_digits.simps [simp del]

definition str_nat :: "nat \<Rightarrow> string" where
  "str_nat n = str_digits (int n)"

definition str_int :: "int \<Rightarrow> string" where
  "str_int i = (if i < 0 then CHR ''-'' # str_digits (- i) else str_digits i)"

text \<open>
  \<open>int(s)\<close> on a string: surrounding white space, an optional sign, digits with single
  underscores between them; \<open>None\<close> is the \<open>ValueError\<close>.
\<close>

definition underscore_ok :: "string \<Rightarrow> bool" where
  "underscore_ok s \<longleftrightarrow> list_all str_isdigit (split_on (CHR ''_'') s)"

definition py_int_unsigned :: "string \<Rightarrow> int option" where
  "py_int_unsigned s =
     (if underscore_ok s then Some (int_of_digits (filter is_digit s)) else None)"

definition py_int :: "string \<Rightarrow> int option" where
  "py_int s = (case py_strip s of
       [] \<Rightarrow> None
     | c # cs \<Rightarrow>
         if c = CHR ''-'' then map_option uminus (py_int_unsigned cs)
         else if c = CHR ''+'' then py_int_unsigned cs
         else py_int_unsigned (c # cs))"

declare py_lower_def [py_defs] py_strip_def [py_defs] strip_by_def [py_defs]
  lstrip_by_def [py_defs] rstrip_by_def [py_defs] startswith_def [py_defs] endswith_def [py_defs]
  is_digit_def [py_defs] is_space_def [py_defs] is_alpha_def [py_defs] is_alnum_def [py_defs]
  is_lower_def [py_defs] is_upper_def [py_defs] ordc_def [py_defs] to_lower_def [py_defs]
  partition_on_def [py_defs] rpartition_on_def [py_defs]

subsection \<open>Facts about the string methods\<close>

lemma ordc_bound: "ordc c < 256"
  by (simp add: ordc_def)

lemma ordc_char_of [simp]: "n < 256 \<Longrightarrow> ordc (char_of n) = n"
  by (simp add: ordc_def)

lemma ordc_eq_iff: "ordc c = ordc d \<longleftrightarrow> c = d"
  by (simp add: ordc_def)

lemma to_lower_idem [simp]: "to_lower (to_lower c) = to_lower c"
  by (auto simp: to_lower_def is_upper_def)

lemma py_lower_idem [simp]: "py_lower (py_lower s) = py_lower s"
  by (simp add: py_lower_def)

lemma py_lower_Nil [simp]: "py_lower [] = []" and
  py_lower_Cons: "py_lower (c # s) = to_lower c # py_lower s" and
  py_lower_append: "py_lower (s @ t) = py_lower s @ py_lower t" and
  py_lower_eq_Nil [simp]: "py_lower s = [] \<longleftrightarrow> s = []" and
  length_py_lower [simp]: "length (py_lower s) = length s"
  by (simp_all add: py_lower_def)

lemma to_lower_not_upper [simp]: "\<not> is_upper (to_lower c)"
  by (auto simp: to_lower_def is_upper_def)

lemma rstrip_by_idem [simp]: "rstrip_by P (rstrip_by P s) = rstrip_by P s"
  by (simp add: rstrip_by_def)

lemma dropWhile_rstrip: "dropWhile P s = s \<Longrightarrow> dropWhile P (rstrip_by P s) = rstrip_by P s"
proof (cases s)
  case (Cons a t)
  assume h: "dropWhile P s = s"
  have na: "\<not> P a"
  proof
    assume "P a"
    with h Cons have "dropWhile P t = a # t" by simp
    then have "length (a # t) \<le> length t" by (metis length_dropWhile_le)
    then show False by simp
  qed
  have "rstrip_by P (a # t) = a # rstrip_by P t"
    using na by (simp add: rstrip_by_def dropWhile_append)
  with Cons na show ?thesis by simp
qed (simp add: rstrip_by_def)

lemma strip_by_idem [simp]: "strip_by P (strip_by P s) = strip_by P s"
  by (simp add: strip_by_def lstrip_by_def dropWhile_rstrip)

lemma py_strip_idem [simp]: "py_strip (py_strip s) = py_strip s"
  by (simp add: py_strip_def)

lemma rstrip_by_Nil [simp]: "rstrip_by P [] = []"
  by (simp add: rstrip_by_def)

lemma rstrip_by_snoc: "rstrip_by P (s @ [c]) = (if P c then rstrip_by P s else s @ [c])"
  by (simp add: rstrip_by_def)

lemma set_rstrip_by: "set (rstrip_by P s) \<subseteq> set s"
  by (auto simp: rstrip_by_def dest: set_dropWhileD)

lemma set_strip_by: "set (strip_by P s) \<subseteq> set s"
  using set_rstrip_by [of P "dropWhile P s"]
  by (auto simp: strip_by_def lstrip_by_def dest: set_dropWhileD)

lemma length_strip_by: "length (strip_by P s) \<le> length s"
  by (metis (no_types, lifting) strip_by_def lstrip_by_def rstrip_by_def length_dropWhile_le
      length_rev order_trans)

lemma startswith_iff: "startswith s p \<longleftrightarrow> (\<exists>t. s = p @ t)"
  by (metis append_eq_conv_conj startswith_def append_take_drop_id)

lemma endswith_iff: "endswith s p \<longleftrightarrow> (\<exists>t. s = t @ p)"
proof
  assume "endswith s p"
  then show "\<exists>t. s = t @ p"
    by (metis endswith_def append_take_drop_id)
next
  assume "\<exists>t. s = t @ p"
  then show "endswith s p" by (auto simp: endswith_def)
qed

lemma endswith_refl [simp]: "endswith s s"
  by (auto simp: endswith_iff)

lemma endswith_trans: "endswith a b \<Longrightarrow> endswith b c \<Longrightarrow> endswith a c"
  by (auto simp: endswith_iff)

lemma split_on_neq_Nil [simp]: "split_on c s \<noteq> []"
  by (induction s) (auto split: list.splits)

lemma join_with_Cons: "ps \<noteq> [] \<Longrightarrow> join_with sep (p # ps) = p @ sep @ join_with sep ps"
  by (cases ps) auto

lemma join_split [simp]: "join_with [c] (split_on c s) = s"
proof (induction s)
  case (Cons x s)
  show ?case
  proof (cases "split_on c s")
    case (Cons p ps)
    then show ?thesis
      using Cons.IH by (cases ps) (auto simp: join_with_Cons)
  qed simp
qed simp

lemma split_on_no_sep: "c \<notin> set s \<Longrightarrow> split_on c s = [s]"
  by (induction s) auto

lemma split_on_append: "c \<notin> set p \<Longrightarrow> split_on c (p @ c # s) = p # split_on c s"
  by (induction p) auto

lemma split_on_parts: "p \<in> set (split_on c s) \<Longrightarrow> c \<notin> set p"
  by (induction s arbitrary: p) (auto split: if_splits list.splits)

lemma is_digit_digit_char [simp]: "n < 10 \<Longrightarrow> is_digit (digit_char n)"
  by (simp add: is_digit_def digit_char_def)

lemma ordc_digit_char [simp]: "n < 10 \<Longrightarrow> ordc (digit_char n) = 48 + n"
  by (simp add: digit_char_def)

lemma str_digits_isdigit: "0 \<le> n \<Longrightarrow> str_isdigit (str_digits n)"
proof (induction n rule: str_digits.induct)
  case (1 n)
  then show ?case
    by (subst str_digits.simps) (auto simp: str_isdigit_def nat_less_iff)
qed

lemma int_of_digits_snoc: "int_of_digits (s @ [c]) = 10 * int_of_digits s + (int (ordc c) - 48)"
  by (simp add: int_of_digits_def)

lemma int_of_digits_str [simp]: "0 \<le> n \<Longrightarrow> int_of_digits (str_digits n) = n"
proof (induction n rule: str_digits.induct)
  case (1 n)
  show ?case
  proof (cases "n < 10")
    case True
    with 1 show ?thesis by (subst str_digits.simps) (simp add: int_of_digits_def nat_less_iff)
  next
    case False
    with 1 show ?thesis
      by (subst str_digits.simps) (simp add: int_of_digits_snoc nat_less_iff)
  qed
qed

lemma str_nat_inject [simp]: "str_nat m = str_nat n \<longleftrightarrow> m = n"
  by (metis str_nat_def int_of_digits_str of_nat_0_le_iff of_nat_eq_iff)

subsection \<open>Dictionaries that keep insertion order\<close>

text \<open>
  A Python \<open>dict\<close> whose iteration order matters is an association list with distinct keys:
  storing under an existing key keeps its place, a new key goes to the end.
\<close>

type_synonym ('k, 'v) odict = "('k \<times> 'v) list"

fun dict_set :: "'k \<Rightarrow> 'v \<Rightarrow> ('k, 'v) odict \<Rightarrow> ('k, 'v) odict" where
  "dict_set k v [] = [(k, v)]"
| "dict_set k v ((k', v') # d) = (if k' = k then (k, v) # d else (k', v') # dict_set k v d)"

abbreviation dict_get :: "('k, 'v) odict \<Rightarrow> 'k \<Rightarrow> 'v option" where
  "dict_get \<equiv> map_of"

definition dict_getdef :: "('k, 'v) odict \<Rightarrow> 'k \<Rightarrow> 'v \<Rightarrow> 'v" where
  "dict_getdef d k v = (case dict_get d k of Some w \<Rightarrow> w | None \<Rightarrow> v)"

text \<open>\<open>d[k].append(v)\<close> on a \<open>defaultdict(list)\<close>.\<close>

definition dict_append :: "'k \<Rightarrow> 'v \<Rightarrow> ('k, 'v list) odict \<Rightarrow> ('k, 'v list) odict" where
  "dict_append k v d = dict_set k (dict_getdef d k [] @ [v]) d"

lemma dict_get_set [simp]: "dict_get (dict_set k v d) = (dict_get d)(k \<mapsto> v)"
  by (induction d) auto

lemma dict_keys_set: "fst ` set (dict_set k v d) = insert k (fst ` set d)"
proof (induction d)
  case (Cons p d)
  then show ?case by (cases p) (auto split: if_splits)
qed simp

lemma distinct_dict_set: "distinct (map fst d) \<Longrightarrow> distinct (map fst (dict_set k v d))"
proof (induction d)
  case (Cons p d)
  have "fst p \<in> fst ` set (dict_set k v d) \<longleftrightarrow> fst p = k \<or> fst p \<in> fst ` set d"
    by (simp add: dict_keys_set)
  with Cons show ?case by (cases p) auto
qed simp

lemma dict_getdef_append:
  "dict_getdef (dict_append k v d) k' [] =
     (if k' = k then dict_getdef d k [] @ [v] else dict_getdef d k' [])"
  by (simp add: dict_append_def dict_getdef_def)

lemma distinct_dict_append:
  "distinct (map fst d) \<Longrightarrow> distinct (map fst (dict_append k v d))"
  by (simp add: dict_append_def distinct_dict_set)

lemma dict_get_mem: "(k, v) \<in> set d \<Longrightarrow> distinct (map fst d) \<Longrightarrow> dict_get d k = Some v"
  by simp

subsection \<open>Lists\<close>

text \<open>A bounded prefix, \<open>xs[:n]\<close> for \<open>n \<ge> 0\<close>, keeps order and elements.\<close>

lemma set_take_sub: "x \<in> set (take n xs) \<Longrightarrow> x \<in> set xs"
  by (rule in_set_takeD)

lemma find_SomeD: "find P xs = Some x \<Longrightarrow> x \<in> set xs \<and> P x"
  by (auto simp: find_Some_iff)

lemma sorted_take_prefix: "sorted_wrt P xs \<Longrightarrow> sorted_wrt P (take n xs)"
  by (metis append_take_drop_id sorted_wrt_append)

lemma sorted_dropped_after_kept:
  "sorted_wrt P xs \<Longrightarrow> x \<in> set (take n xs) \<Longrightarrow> y \<in> set (drop n xs) \<Longrightarrow> P x y"
  by (metis append_take_drop_id sorted_wrt_append)

lemma distinct_map_sort_key [simp]: "distinct (map f (sort_key k xs)) = distinct (map f xs)"
  by (simp add: distinct_map)

end
