(* ===== verification/Binary64.thy ===== *)
theory Binary64
  imports Prelude Complex_Main
begin

text \<open>
  Python's \<open>float\<close> is IEEE 754 binary64 and every elementary operation rounds its exact
  result to nearest, ties to even.  A finite float is the rational number it denotes; \<open>fl\<close>
  rounds an exact rational to the nearest float, so \<open>a / b\<close> of the source is
  \<open>fl (a / b)\<close> here, and a decimal literal is \<open>fl\<close> of the decimal.  Overflow to
  infinity is not modelled: every quantity of the program that goes through \<open>fl\<close> is far
  below \<open>2 ^ 1023\<close>.  \<open>rhe\<close> is Python's built-in \<open>round(x)\<close> to an integer.
\<close>

subsection \<open>Rounding to integers, ties to even\<close>

definition rhe :: "rat \<Rightarrow> int" where
  "rhe x = (let f = \<lfloor>x\<rfloor>; d = x - of_int f in
     if d < 1/2 then f else if 1/2 < d then f + 1 else if even f then f else f + 1)"

lemma rhe_of_int [simp]: "rhe (of_int n) = n"
  by (simp add: rhe_def)

lemma rhe_0 [simp]: "rhe 0 = 0" and rhe_1 [simp]: "rhe 1 = 1"
  by (simp_all add: rhe_def)

lemma rhe_floor: "rhe x = \<lfloor>x\<rfloor> \<or> rhe x = \<lfloor>x\<rfloor> + 1"
  by (simp add: rhe_def Let_def)

lemma rhe_near: "\<bar>of_int (rhe x) - x\<bar> \<le> 1/2"
proof -
  have "of_int \<lfloor>x\<rfloor> \<le> x" and "x < of_int \<lfloor>x\<rfloor> + 1" by linarith+
  then show ?thesis by (simp add: rhe_def Let_def abs_le_iff)
qed

lemma rhe_mono: "x \<le> y \<Longrightarrow> rhe x \<le> rhe y"
proof -
  assume xy: "x \<le> y"
  show ?thesis
  proof (cases "\<lfloor>x\<rfloor> = \<lfloor>y\<rfloor>")
    case True
    with xy show ?thesis by (auto simp: rhe_def Let_def)
  next
    case False
    with xy have "\<lfloor>x\<rfloor> + 1 \<le> \<lfloor>y\<rfloor>"
      by (metis floor_mono order_le_less zless_imp_add1_zle)
    then show ?thesis using rhe_floor [of x] rhe_floor [of y] by linarith
  qed
qed

lemma rhe_nonneg: "0 \<le> x \<Longrightarrow> 0 \<le> rhe x"
  using rhe_mono [of 0 x] by simp

lemma rhe_le: "x \<le> of_int n \<Longrightarrow> rhe x \<le> n"
  using rhe_mono [of x "of_int n"] by simp

lemma rhe_ge: "of_int n \<le> x \<Longrightarrow> n \<le> rhe x"
  using rhe_mono [of "of_int n" x] by simp

subsection \<open>The exponent of a positive rational\<close>

definition pow2 :: "int \<Rightarrow> rat" where
  "pow2 e = (if 0 \<le> e then of_int (2 ^ nat e) else 1 / of_int (2 ^ nat (- e)))"

fun ilog2 :: "int \<Rightarrow> nat" where
  "ilog2 n = (if n < 2 then 0 else Suc (ilog2 (n div 2)))"

declare ilog2.simps [simp del]

text \<open>\<open>expo x\<close> is the \<open>e\<close> with \<open>2 ^ e \<le> x < 2 ^ (e + 1)\<close>.\<close>

definition expo :: "rat \<Rightarrow> int" where
  "expo x = (case quotient_of x of (p, q) \<Rightarrow>
     let e = int (ilog2 p) - int (ilog2 q) in if pow2 e \<le> x then e else e - 1)"

lemma pow2_powi: "pow2 e = 2 powi e"
proof (cases "0 \<le> e")
  case False
  have "(1::rat) / 2 ^ k = inverse 2 ^ k" for k
    by (simp add: power_one_over)
  with False show ?thesis by (simp add: pow2_def power_int_def)
qed (simp add: pow2_def power_int_def)

lemma pow2_pos [simp]: "0 < pow2 e"
  by (simp add: pow2_def)

lemma pow2_nonneg [simp]: "0 \<le> pow2 e"
  by (simp add: less_imp_le)

lemma pow2_neq_0 [simp]: "pow2 e \<noteq> 0"
  using pow2_pos [of e] by linarith

lemma pow2_add: "pow2 (a + b) = pow2 a * pow2 b"
  by (simp add: pow2_powi power_int_add)

lemma pow2_mono: "a \<le> b \<Longrightarrow> pow2 a \<le> pow2 b"
  by (simp add: pow2_powi power_int_increasing)

lemma pow2_less_cancel: "pow2 a < pow2 b \<Longrightarrow> a < b"
  using pow2_mono [of b a] by (cases "b \<le> a") auto

lemma pow2_nat: "pow2 (int n) = of_int (2 ^ n)"
  by (simp add: pow2_def)

lemma ilog2_bounds: "0 < n \<Longrightarrow> 2 ^ ilog2 n \<le> n \<and> n < 2 ^ Suc (ilog2 n)"
proof (induction n rule: ilog2.induct)
  case (1 n)
  show ?case
  proof (cases "n < 2")
    case True
    with 1 have "n = 1" by simp
    then show ?thesis by (simp add: ilog2.simps [of 1])
  next
    case False
    then have e: "ilog2 n = Suc (ilog2 (n div 2))" by (subst ilog2.simps) simp
    from False 1 have lo: "2 ^ ilog2 (n div 2) \<le> n div 2"
      and hi: "n div 2 < 2 ^ Suc (ilog2 (n div 2))"
      by auto
    from lo have "2 * 2 ^ ilog2 (n div 2) \<le> n" by linarith
    moreover from hi have "n < 2 * 2 ^ Suc (ilog2 (n div 2))" by linarith
    ultimately show ?thesis by (simp add: e)
  qed
qed

lemma expo_bounds:
  assumes "0 < x"
  shows "pow2 (expo x) \<le> x \<and> x < pow2 (expo x + 1)"
proof -
  obtain p q where pq: "quotient_of x = (p, q)" by (cases "quotient_of x")
  from quotient_of_denom_pos [OF pq] have q: "0 < q" .
  from quotient_of_div [OF pq] have x: "x = of_int p / of_int q" .
  with assms q have p: "0 < p" by (simp add: zero_less_divide_iff)
  define a b where "a = ilog2 p" and "b = ilog2 q"
  define e where "e = int a - int b"
  have I: "2 ^ a \<le> p" "p < 2 ^ Suc a" "2 ^ b \<le> q" "q < 2 ^ Suc b"
    using ilog2_bounds [OF p] ilog2_bounds [OF q] by (auto simp: a_def b_def)
  have B: "pow2 (int a) \<le> of_int p" "of_int p < pow2 (int (Suc a))"
    "pow2 (int b) \<le> of_int q" "of_int q < pow2 (int (Suc b))"
    unfolding pow2_nat of_int_le_iff of_int_less_iff by (fact I)+
  have q': "(0::rat) < of_int q" using q by simp
  have "x * of_int q = of_int p" using q' x by simp
  have lo: "pow2 (e - 1) \<le> x"
  proof -
    have "pow2 (e - 1) * of_int q \<le> pow2 (e - 1) * pow2 (int (Suc b))"
      using B by (intro mult_left_mono) auto
    also have "\<dots> = pow2 (int a)" by (simp add: pow2_add [symmetric] e_def)
    also have "\<dots> \<le> of_int p" by (rule B)
    finally show ?thesis using q' by (simp add: x pos_le_divide_eq)
  qed
  have hi: "x < pow2 (e + 1)"
  proof -
    have "of_int p < pow2 (int (Suc a))" by (rule B)
    also have "\<dots> = pow2 (e + 1) * pow2 (int b)"
      by (simp add: pow2_add [symmetric] e_def add.commute)
    also have "\<dots> \<le> pow2 (e + 1) * of_int q" using B by (intro mult_left_mono) (auto intro: less_imp_le)
    finally show ?thesis using q' by (simp add: x pos_divide_less_eq)
  qed
  have "expo x = (if pow2 e \<le> x then e else e - 1)"
    by (simp add: expo_def pq e_def a_def b_def)
  with lo hi show ?thesis by auto
qed

lemma expo_mono: "0 < x \<Longrightarrow> x \<le> y \<Longrightarrow> expo x \<le> expo y"
proof -
  assume x: "0 < x" and xy: "x \<le> y"
  then have "pow2 (expo x) < pow2 (expo y + 1)"
    using expo_bounds [of x] expo_bounds [of y] by linarith
  then show ?thesis using pow2_less_cancel by fastforce
qed

subsection \<open>Rounding to binary64\<close>

definition ulp_exp :: "rat \<Rightarrow> int" where
  "ulp_exp x = max (expo x) (- 1022) - 52"

definition fl_pos :: "rat \<Rightarrow> rat" where
  "fl_pos x = of_int (rhe (x / pow2 (ulp_exp x))) * pow2 (ulp_exp x)"

definition fl :: "rat \<Rightarrow> rat" where
  "fl x = (if x = 0 then 0 else if x < 0 then - fl_pos (- x) else fl_pos x)"

lemma fl_0 [simp]: "fl 0 = 0"
  by (simp add: fl_def)

lemma fl_pos_nonneg: "0 < x \<Longrightarrow> 0 \<le> fl_pos x"
proof -
  assume "0 < x"
  then have "0 \<le> rhe (x / pow2 (ulp_exp x))" by (intro rhe_nonneg divide_nonneg_pos) auto
  then show ?thesis by (simp add: fl_pos_def less_imp_le)
qed

lemma fl_pos_upper:
  assumes "0 < x" and "ulp_exp x \<le> k" and "x \<le> of_int n * pow2 k"
  shows "fl_pos x \<le> of_int n * pow2 k"
proof -
  define u where "u = ulp_exp x"
  obtain d where d: "k = u + int d" using assms(2) zle_iff_zadd u_def by blast
  have "x / pow2 u \<le> of_int (n * 2 ^ d)"
    using assms(3) by (simp add: d pow2_add pow2_nat pos_divide_le_eq mult_ac)
  then have "rhe (x / pow2 u) \<le> n * 2 ^ d" by (rule rhe_le)
  then have "of_int (rhe (x / pow2 u)) \<le> (of_int (n * 2 ^ d) :: rat)" by (simp only: of_int_le_iff)
  then have "of_int (rhe (x / pow2 u)) * pow2 u \<le> of_int (n * 2 ^ d) * pow2 u"
    by (intro mult_right_mono) (auto intro: less_imp_le)
  also have "\<dots> = of_int n * pow2 k"
    by (simp add: d pow2_add pow2_nat mult_ac)
  finally show ?thesis by (simp add: fl_pos_def u_def)
qed

lemma fl_pos_lower:
  assumes "0 < x" and "ulp_exp x \<le> k" and "of_int n * pow2 k \<le> x"
  shows "of_int n * pow2 k \<le> fl_pos x"
proof -
  define u where "u = ulp_exp x"
  obtain d where d: "k = u + int d" using assms(2) zle_iff_zadd u_def by blast
  have "of_int (n * 2 ^ d) \<le> x / pow2 u"
    using assms(3) by (simp add: d pow2_add pow2_nat pos_le_divide_eq mult_ac)
  then have "n * 2 ^ d \<le> rhe (x / pow2 u)" by (rule rhe_ge)
  then have "(of_int (n * 2 ^ d) :: rat) \<le> of_int (rhe (x / pow2 u))" by (simp only: of_int_le_iff)
  then have "of_int (n * 2 ^ d) * pow2 u \<le> of_int (rhe (x / pow2 u)) * pow2 u"
    by (intro mult_right_mono) (auto intro: less_imp_le)
  then show ?thesis
    by (simp add: fl_pos_def u_def [symmetric] d pow2_add pow2_nat mult_ac)
qed

text \<open>Rounding is monotone, within a binade and across binades.\<close>

lemma fl_pos_mono:
  assumes "0 < x" and "x \<le> y"
  shows "fl_pos x \<le> fl_pos y"
proof (cases "ulp_exp x = ulp_exp y")
  case True
  have "x / pow2 (ulp_exp y) \<le> y / pow2 (ulp_exp y)"
    using assms by (simp add: divide_right_mono less_imp_le)
  then have "of_int (rhe (x / pow2 (ulp_exp y))) \<le> (of_int (rhe (y / pow2 (ulp_exp y))) :: rat)"
    by (simp add: rhe_mono)
  with True show ?thesis by (simp add: fl_pos_def mult_right_mono less_imp_le)
next
  case False
  with expo_mono [OF assms] have lt: "expo x < expo y" "ulp_exp x < ulp_exp y"
    by (auto simp: ulp_exp_def)
  have ey: "ulp_exp y = expo y - 52" using False lt by (auto simp: ulp_exp_def)
  have y0: "0 < y" using assms by linarith
  have p: "of_int (2 ^ 52) * pow2 (ulp_exp y) = pow2 (expo y)"
    unfolding ey using pow2_add [of 52 "expo y - 52"] pow2_nat [of 52] by simp
  have "x \<le> pow2 (expo y)"
    using expo_bounds [OF assms(1)] pow2_mono [of "expo x + 1" "expo y"] lt by linarith
  then have "fl_pos x \<le> of_int (2 ^ 52) * pow2 (ulp_exp y)"
    using assms(1) lt unfolding p [symmetric] by (intro fl_pos_upper) auto
  also have "\<dots> \<le> fl_pos y"
    using y0 expo_bounds [OF y0] unfolding p [symmetric] by (intro fl_pos_lower) auto
  finally show ?thesis .
qed

lemma fl_mono:
  assumes "x \<le> y"
  shows "fl x \<le> fl y"
proof (cases "x < 0")
  case True
  then have a: "0 \<le> fl_pos (- x)" by (simp add: fl_pos_nonneg)
  show ?thesis
  proof (cases "y < 0")
    case True
    with assms \<open>x < 0\<close> show ?thesis by (simp add: fl_def fl_pos_mono)
  next
    case False
    then have "0 \<le> fl y" by (auto simp: fl_def intro: fl_pos_nonneg)
    with a \<open>x < 0\<close> show ?thesis by (simp add: fl_def)
  qed
next
  case False
  with assms show ?thesis by (auto simp: fl_def fl_pos_mono fl_pos_nonneg)
qed

text \<open>Integers up to \<open>2 ^ 53\<close> are floats: rounding leaves them alone.\<close>

lemma fl_pos_of_int:
  assumes "0 < n" and "n < 2 ^ 53"
  shows "fl_pos (of_int n) = of_int n"
proof -
  have "pow2 (expo (of_int n)) \<le> (of_int n :: rat)" using assms expo_bounds [of "of_int n"] by simp
  also have "\<dots> < pow2 53"
    using assms(2) unfolding pow2_nat [of 53, simplified of_nat_numeral] of_int_less_iff .
  finally have "expo (of_int n) < 53" by (rule pow2_less_cancel)
  then have "ulp_exp (of_int n) \<le> 0" by (simp add: ulp_exp_def)
  moreover have "(0::rat) < of_int n" "pow2 0 = 1" using assms(1) by (simp_all add: pow2_def)
  ultimately show ?thesis
    using fl_pos_upper [of "of_int n" 0 n] fl_pos_lower [of "of_int n" 0 n] by (simp add: order_antisym)
qed

lemma fl_of_int:
  assumes "\<bar>n\<bar> < 2 ^ 53"
  shows "fl (of_int n) = of_int n"
proof (cases "n < 0")
  case True
  then have "fl_pos (of_int (- n)) = of_int (- n)" using assms by (intro fl_pos_of_int) auto
  with True show ?thesis by (simp add: fl_def)
next
  case False
  with assms show ?thesis by (auto simp: fl_def intro: fl_pos_of_int)
qed

lemma fl_1 [simp]: "fl 1 = 1"
  using fl_of_int [of 1] by simp

lemma fl_nonneg: "0 \<le> x \<Longrightarrow> 0 \<le> fl x"
  using fl_mono [of 0 x] by simp

lemma fl_le_int: "x \<le> of_int n \<Longrightarrow> \<bar>n\<bar> < 2 ^ 53 \<Longrightarrow> fl x \<le> of_int n"
  using fl_mono [of x "of_int n"] fl_of_int [of n] by simp

lemma fl_ge_int: "of_int n \<le> x \<Longrightarrow> \<bar>n\<bar> < 2 ^ 53 \<Longrightarrow> of_int n \<le> fl x"
  using fl_mono [of "of_int n" x] fl_of_int [of n] by simp

lemma fl_le_1: "x \<le> 1 \<Longrightarrow> fl x \<le> 1"
  using fl_mono [of x 1] by simp

subsection \<open>Rounding a small quotient twice\<close>

text \<open>
  \<open>round(a / b)\<close> on integers rounds the exact quotient to a float first.  For quotients that
  stay further from a tie than the float error, the result is the exact rounding \<open>rhe_div\<close>.
\<close>

definition rhe_div :: "int \<Rightarrow> int \<Rightarrow> int" where
  "rhe_div n q = (let f = n div q; r = 2 * (n mod q) in
     if r < q then f else if q < r then f + 1 else if even f then f else f + 1)"

lemma rhe_unique: "\<bar>y - of_int n\<bar> < 1/2 \<Longrightarrow> rhe y = n"
proof -
  assume h: "\<bar>y - of_int n\<bar> < 1/2"
  then have "\<bar>of_int (rhe y) - (of_int n :: rat)\<bar> < 1"
    using rhe_near [of y] by linarith
  then have "of_int \<bar>rhe y - n\<bar> < (of_int 1 :: rat)" by (simp del: of_int_less_1_iff)
  then have "\<bar>rhe y - n\<bar> < 1" by (simp only: of_int_less_iff)
  then show ?thesis by linarith
qed

lemma rhe_div_eq: "0 < q \<Longrightarrow> rhe (of_int n / of_int q) = rhe_div n q"
proof -
  assume q: "0 < q"
  define f r where "f = n div q" and "r = n mod q"
  have n: "n = f * q + r" by (simp add: f_def r_def)
  have x: "(of_int n / of_int q :: rat) = of_int f + of_int r / of_int q"
    using q by (simp add: n add_divide_distrib)
  have fl: "\<lfloor>of_int n / of_int q :: rat\<rfloor> = f" by (simp add: f_def floor_divide_of_int_eq)
  have d: "(of_int n / of_int q :: rat) - of_int f = of_int r / of_int q" using x by simp
  have l: "(of_int r / of_int q < (1/2::rat)) \<longleftrightarrow> 2 * r < q"
    and g: "((1/2::rat) < of_int r / of_int q) \<longleftrightarrow> q < 2 * r"
  proof -
    have "(of_int r / of_int q < (1/2::rat)) \<longleftrightarrow> of_int (2 * r) < (of_int q :: rat)"
      "((1/2::rat) < of_int r / of_int q) \<longleftrightarrow> (of_int q :: rat) < of_int (2 * r)"
      using q by (simp_all add: field_simps)
    then show "(of_int r / of_int q < (1/2::rat)) \<longleftrightarrow> 2 * r < q"
      "((1/2::rat) < of_int r / of_int q) \<longleftrightarrow> q < 2 * r"
      by (simp_all only: of_int_less_iff)
  qed
  show ?thesis
    unfolding rhe_def rhe_div_def Let_def fl d l g f_def [symmetric] r_def [symmetric] ..
qed

lemma fl_error:
  assumes "0 \<le> x" "x < pow2 k" "- 1022 < k"
  shows "\<bar>fl x - x\<bar> \<le> pow2 (k - 53)"
proof (cases "x = 0")
  case False
  with assms have x: "0 < x" by simp
  define u where "u = ulp_exp x"
  have "pow2 (expo x) < pow2 k" using expo_bounds [OF x] assms(2) by linarith
  then have "u \<le> k - 53" using pow2_less_cancel assms(3) by (fastforce simp: u_def ulp_exp_def)
  then have u: "pow2 u \<le> pow2 (k - 53)" by (rule pow2_mono)
  have "\<bar>of_int (rhe (x / pow2 u)) - x / pow2 u\<bar> \<le> 1/2" by (rule rhe_near)
  then have "\<bar>of_int (rhe (x / pow2 u)) - x / pow2 u\<bar> * pow2 u \<le> 1/2 * pow2 u"
    by (rule mult_right_mono) simp
  moreover have "\<bar>of_int (rhe (x / pow2 u)) - x / pow2 u\<bar> * pow2 u = \<bar>fl x - x\<bar>"
  proof -
    have "fl x - x = (of_int (rhe (x / pow2 u)) - x / pow2 u) * pow2 u"
      using x by (simp add: fl_def fl_pos_def u_def left_diff_distrib)
    then show ?thesis by (simp add: abs_mult)
  qed
  ultimately have "\<bar>fl x - x\<bar> \<le> pow2 u" using pow2_nonneg [of u] by linarith
  with u show ?thesis by simp
qed simp

lemma fl_half_int:
  assumes "0 \<le> n" "n < 2 ^ 52"
  shows "fl (of_int n + 1/2) = of_int n + 1/2"
proof -
  define x :: rat where "x = of_int n + 1/2"
  have x: "0 < x" using assms by (simp add: x_def add_nonneg_pos)
  have e: "x = of_int (2 * n + 1) * pow2 (- 1)" by (simp add: x_def pow2_def field_simps)
  have "of_int (2 * n + 1) \<le> (of_int (2 ^ 53 - 1) :: rat)"
    using assms(2) unfolding of_int_le_iff by simp
  then have "x < pow2 52" by (simp add: e pow2_def)
  then have "pow2 (expo x) < pow2 52" using expo_bounds [OF x] by linarith
  then have "expo x < 52" by (rule pow2_less_cancel)
  then have "ulp_exp x \<le> - 1" by (simp add: ulp_exp_def)
  then have "fl_pos x = x"
    using fl_pos_upper [OF x, of "- 1" "2 * n + 1"] fl_pos_lower [OF x, of "- 1" "2 * n + 1"]
    by (simp add: e)
  with x show ?thesis by (simp add: fl_def x_def)
qed

lemma rhe_fl_div:
  assumes q: "0 < q" "q \<le> 1000" and n: "0 \<le> n" "n < 1000 * q"
  shows "rhe (fl (of_int n / of_int q)) = rhe_div n q"
proof -
  define x :: rat where "x = of_int n / of_int q"
  have "(of_int n :: rat) < of_int (1000 * q)" using n by (simp only: of_int_less_iff)
  then have x: "0 \<le> x" "x < 1000"
    using n q by (simp_all add: x_def pos_divide_less_eq)
  then have err: "\<bar>fl x - x\<bar> \<le> pow2 (- 43)"
    using fl_error [of x 10] by (simp add: pow2_def)
  define m where "m = \<lfloor>x\<rfloor>"
  have m: "of_int m \<le> x" "x < of_int m + 1" unfolding m_def by linarith+
  have "0 \<le> m" using x(1) by (simp add: m_def)
  moreover have "m < 2 ^ 52" using m(1) x(2) by (simp add: m_def)
  ultimately have half: "fl (of_int m + 1/2) = of_int m + 1/2" by (rule fl_half_int)
  show ?thesis
  proof (cases "x = of_int m + 1/2")
    case True
    then show ?thesis using half rhe_div_eq [OF q(1), of n] by (simp add: x_def)
  next
    case False
    define d where "d = 2 * n - (2 * m + 1) * q"
    have qr: "(0::rat) < of_int q" using q by simp
    have dd: "of_int d = (x - (of_int m + 1/2)) * (2 * of_int q)"
      using qr by (simp add: d_def x_def field_simps)
    with False qr have "d \<noteq> 0" by auto
    then have "1 \<le> \<bar>d\<bar>" by linarith
    then have "(of_int 1 :: rat) \<le> of_int \<bar>d\<bar>" unfolding of_int_le_iff .
    then have "1 \<le> \<bar>x - (of_int m + 1/2)\<bar> * (2 * of_int q)"
      using qr dd by (simp add: abs_mult)
    also have "\<dots> \<le> \<bar>x - (of_int m + 1/2)\<bar> * 2000"
      using q by (intro mult_left_mono) auto
    finally have far: "1/2000 \<le> \<bar>x - (of_int m + 1/2)\<bar>" by simp
    have tiny: "pow2 (- 43) < (1/2000::rat)" by (simp add: pow2_def)
    have "rhe x = (if x < of_int m + 1/2 then m else m + 1)"
      using False m by (auto simp: rhe_def Let_def m_def)
    then have "\<bar>x - of_int (rhe x)\<bar> \<le> 1/2 - 1/2000" using far m by (auto simp: abs_if split: if_splits)
    then have "\<bar>fl x - of_int (rhe x)\<bar> < 1/2" using err tiny by linarith
    then have "rhe (fl x) = rhe x" by (rule rhe_unique)
    then show ?thesis using rhe_div_eq [OF q(1), of n] by (simp add: x_def)
  qed
qed

subsection \<open>Floats are left alone\<close>

lemma fl_pos_exact: "0 < x \<Longrightarrow> ulp_exp x \<le> k \<Longrightarrow> x = of_int n * pow2 k \<Longrightarrow> fl_pos x = x"
  using fl_pos_upper [of x k n] fl_pos_lower [of x k n] by simp

lemma fl_pos_idem:
  assumes x: "0 < x" and y0: "0 < fl_pos x"
  shows "fl_pos (fl_pos x) = fl_pos x"
proof -
  define y where "y = fl_pos x"
  define u where "u = ulp_exp x"
  have y: "y = of_int (rhe (x / pow2 u)) * pow2 u" by (simp add: y_def fl_pos_def u_def)
  have yp: "0 < y" using y0 by (simp add: y_def)
  have ub: "u \<le> expo x + 1"
  proof (rule ccontr)
    assume neg: "\<not> u \<le> expo x + 1"
    then have "x < pow2 (u - 1)"
      using expo_bounds [OF x] pow2_mono [of "expo x + 1" "u - 1"] by linarith
    then have "2 * x < pow2 u" using pow2_add [of 1 "u - 1"] by (simp add: pow2_def [of 1])
    then have "x / pow2 u < 1/2" "0 \<le> x / pow2 u" using x by (simp_all add: pos_divide_less_eq)
    then have "rhe (x / pow2 u) = 0" using x by (intro rhe_unique) simp
    with y yp show False by simp
  qed
  obtain m where m: "expo x + 1 = u + int m" using ub zle_iff_zadd by blast
  have top: "pow2 (expo x + 1) = of_int (2 ^ m) * pow2 u"
    by (simp add: m pow2_add pow2_nat mult.commute)
  have "x \<le> pow2 (expo x + 1)" using expo_bounds [OF x] by simp
  then have "x \<le> of_int (2 ^ m) * pow2 (ulp_exp x)" unfolding top u_def .
  then have le: "y \<le> pow2 (expo x + 1)"
    unfolding y_def top unfolding u_def by (rule fl_pos_upper [OF x order_refl])
  show ?thesis
  proof (cases "y < pow2 (expo x + 1)")
    case True
    then have "pow2 (expo y) < pow2 (expo x + 1)" using expo_bounds [OF yp] by linarith
    then have "expo y \<le> expo x" using pow2_less_cancel by fastforce
    then have "ulp_exp y \<le> u" by (simp add: ulp_exp_def u_def)
    from fl_pos_exact [OF yp this y] show ?thesis by (simp add: y_def)
  next
    case False
    with le have eq: "y = pow2 (expo x + 1)" by simp
    have two: "pow2 (expo x + 2) = 2 * pow2 (expo x + 1)"
      using pow2_add [of 1 "expo x + 1"] by (simp add: pow2_def [of 1] add.commute)
    have "pow2 (expo y) \<le> y" using expo_bounds [OF yp] by simp
    also have "y < pow2 (expo x + 2)" using yp unfolding two eq by linarith
    finally have "pow2 (expo y) < pow2 (expo x + 2)" .
    then have ey: "expo y \<le> expo x + 1" using pow2_less_cancel by fastforce
    define k where "k = max (expo x + 1) (- 1022) - 52"
    have "ulp_exp y \<le> k" using ey by (simp add: ulp_exp_def k_def)
    moreover obtain j where j: "expo x + 1 = k + int j"
    proof -
      have "k \<le> expo x + 1" using ub by (auto simp: k_def u_def ulp_exp_def max_def split: if_splits)
      then show ?thesis using that zle_iff_zadd by blast
    qed
    moreover have "y = of_int (2 ^ j) * pow2 k" by (simp add: eq j pow2_add pow2_nat mult.commute)
    ultimately have "fl_pos y = y" using fl_pos_exact [OF yp] by blast
    then show ?thesis by (simp add: y_def)
  qed
qed

lemma fl_idem [simp]: "fl (fl x) = fl x"
  using fl_pos_idem [of x] fl_pos_idem [of "- x"] fl_pos_nonneg [of x] fl_pos_nonneg [of "- x"]
  by (auto simp: fl_def order_less_le)

text \<open>Scaling a float by at most one and rounding never goes up.\<close>

lemma fl_mult_le:
  assumes "fl x = x" "0 \<le> x" "y \<le> 1"
  shows "fl (x * y) \<le> x"
proof -
  have "x * y \<le> x" using assms by (simp add: mult_left_le)
  then show ?thesis using fl_mono [of "x * y" x] assms(1) by simp
qed

end
