(* ===== verification/Enums.thy ===== *)
theory Enums
  imports Prelude
begin

text \<open>
  \<open>guardian_core/enums.py\<close>: the closed vocabularies of the platform.  Each Python
  \<open>class X(str, Enum)\<close> is a datatype with one constructor per member, a function from the
  member to its string (\<open>.value\<close>) and the list of members; \<open>X(s)\<close>, which raises
  \<open>ValueError\<close> on an unknown string, is \<open>enum_of\<close> at that list, with \<open>None\<close> for the
  exception.  The locale \<open>str_enum\<close> is the contract the rest of the program relies on
  when it stores \<open>.value\<close> and reads the member back; every vocabulary is an instance.
\<close>

subsection \<open>The contract of a string enumeration\<close>

definition enum_of :: "('e \<Rightarrow> string) \<Rightarrow> 'e list \<Rightarrow> string \<Rightarrow> 'e option" where
  "enum_of val members s = find (\<lambda>e. val e = s) members"

locale str_enum =
  fixes val :: "'e \<Rightarrow> string"
    and members :: "'e list"
  assumes value_inj: "val a = val b \<Longrightarrow> a = b"
    and exhaustive: "e \<in> set members"
    and members_distinct: "distinct members"
begin

lemma of_value: "enum_of val members (val e) = Some e"
proof (cases "find (\<lambda>x. val x = val e) members")
  case None
  then show ?thesis using exhaustive [of e] by (auto simp: find_None_iff)
next
  case (Some e')
  then have "val e' = val e" by (auto simp: find_Some_iff)
  with Some show ?thesis by (simp add: enum_of_def value_inj)
qed

lemma of_value_iff: "enum_of val members s = Some e \<longleftrightarrow> val e = s"
proof
  assume "enum_of val members s = Some e"
  then show "val e = s" by (auto simp: enum_of_def find_Some_iff)
qed (use of_value in blast)

lemma of_value_None: "enum_of val members s = None \<longleftrightarrow> (\<forall>e. val e \<noteq> s)"
  using exhaustive by (auto simp: enum_of_def find_None_iff)

end

subsection \<open>Severity\<close>

datatype severity =
    SevCritical | SevHigh | SevMedium | SevLow | SevInfo

primrec severity_value :: "severity \<Rightarrow> string" where
  "severity_value SevCritical = ''critical''"
| "severity_value SevHigh = ''high''"
| "severity_value SevMedium = ''medium''"
| "severity_value SevLow = ''low''"
| "severity_value SevInfo = ''info''"

definition severity_members :: "severity list" where
  "severity_members =
     [SevCritical, SevHigh, SevMedium, SevLow, SevInfo]"

interpretation severity_enum: str_enum severity_value severity_members
proof unfold_locales
  show "severity_value a = severity_value b \<Longrightarrow> a = b" for a b by (cases a; cases b) simp_all
  show "e \<in> set severity_members" for e by (cases e) (simp_all add: severity_members_def)
qed (simp add: severity_members_def)

text \<open>\<open>Severity.rank\<close>; the order of the datatype is the order of the ranks.\<close>

primrec severity_rank :: "severity \<Rightarrow> nat" where
  "severity_rank SevCritical = 4"
| "severity_rank SevHigh = 3"
| "severity_rank SevMedium = 2"
| "severity_rank SevLow = 1"
| "severity_rank SevInfo = 0"

lemma severity_rank_inject [simp]: "severity_rank a = severity_rank b \<longleftrightarrow> a = b"
  by (cases a; cases b) simp_all

instantiation severity :: linorder
begin

definition less_eq_severity :: "severity \<Rightarrow> severity \<Rightarrow> bool" where
  "a \<le> b \<longleftrightarrow> severity_rank a \<le> severity_rank b"

definition less_severity :: "severity \<Rightarrow> severity \<Rightarrow> bool" where
  "a < b \<longleftrightarrow> severity_rank a < severity_rank b"

instance
  by standard (auto simp: less_eq_severity_def less_severity_def)

end

lemma severity_rank_le4: "severity_rank s \<le> 4"
  by (cases s) simp_all

subsection \<open>EngineKey\<close>

datatype engine_key =
    EngSast | EngSecrets | EngSca | EngDast | EngApi
  | EngCspm | EngContainer | EngK8s | EngIac | EngWebTls
  | EngPcapMeta | EngDnsPosture | EngNmap | EngWebChecks | EngMlModel
  | EngCicd | EngAiDiscovery | EngMobile | EngIos | EngHostPosture

primrec engine_key_value :: "engine_key \<Rightarrow> string" where
  "engine_key_value EngSast = ''sast''"
| "engine_key_value EngSecrets = ''secrets''"
| "engine_key_value EngSca = ''sca''"
| "engine_key_value EngDast = ''dast''"
| "engine_key_value EngApi = ''api''"
| "engine_key_value EngCspm = ''cspm''"
| "engine_key_value EngContainer = ''container''"
| "engine_key_value EngK8s = ''k8s''"
| "engine_key_value EngIac = ''iac''"
| "engine_key_value EngWebTls = ''web_tls''"
| "engine_key_value EngPcapMeta = ''pcap_meta''"
| "engine_key_value EngDnsPosture = ''dns_posture''"
| "engine_key_value EngNmap = ''nmap''"
| "engine_key_value EngWebChecks = ''web_checks''"
| "engine_key_value EngMlModel = ''ml_model''"
| "engine_key_value EngCicd = ''cicd''"
| "engine_key_value EngAiDiscovery = ''ai_discovery''"
| "engine_key_value EngMobile = ''mobile''"
| "engine_key_value EngIos = ''ios''"
| "engine_key_value EngHostPosture = ''host_posture''"

definition engine_key_members :: "engine_key list" where
  "engine_key_members =
     [EngSast, EngSecrets, EngSca, EngDast, EngApi,
      EngCspm, EngContainer, EngK8s, EngIac, EngWebTls,
      EngPcapMeta, EngDnsPosture, EngNmap, EngWebChecks, EngMlModel,
      EngCicd, EngAiDiscovery, EngMobile, EngIos, EngHostPosture]"

interpretation engine_key_enum: str_enum engine_key_value engine_key_members
proof unfold_locales
  show "engine_key_value a = engine_key_value b \<Longrightarrow> a = b" for a b by (cases a; cases b) simp_all
  show "e \<in> set engine_key_members" for e by (cases e) (simp_all add: engine_key_members_def)
qed (simp add: engine_key_members_def)

text \<open>The engines that probe a live target and need an authorization record.\<close>

definition ACTIVE_ENGINES :: "engine_key set" where
  "ACTIVE_ENGINES = {EngDast, EngApi, EngCspm}"

subsection \<open>AssetKind\<close>

datatype asset_kind =
    KindRepo | KindWeb | KindApi | KindCloudAccount | KindContainerImage
  | KindK8sManifest | KindDomain | KindSubdomain | KindIpAddress | KindNetblock
  | KindService | KindCloudResource | KindMobileApp | KindIosApp | KindNetworkHost
  | KindServerHost

primrec asset_kind_value :: "asset_kind \<Rightarrow> string" where
  "asset_kind_value KindRepo = ''repo''"
| "asset_kind_value KindWeb = ''web''"
| "asset_kind_value KindApi = ''api''"
| "asset_kind_value KindCloudAccount = ''cloud_account''"
| "asset_kind_value KindContainerImage = ''container_image''"
| "asset_kind_value KindK8sManifest = ''k8s_manifest''"
| "asset_kind_value KindDomain = ''domain''"
| "asset_kind_value KindSubdomain = ''subdomain''"
| "asset_kind_value KindIpAddress = ''ip_address''"
| "asset_kind_value KindNetblock = ''netblock''"
| "asset_kind_value KindService = ''service''"
| "asset_kind_value KindCloudResource = ''cloud_resource''"
| "asset_kind_value KindMobileApp = ''mobile_app''"
| "asset_kind_value KindIosApp = ''ios_app''"
| "asset_kind_value KindNetworkHost = ''network_host''"
| "asset_kind_value KindServerHost = ''server_host''"

definition asset_kind_members :: "asset_kind list" where
  "asset_kind_members =
     [KindRepo, KindWeb, KindApi, KindCloudAccount, KindContainerImage,
      KindK8sManifest, KindDomain, KindSubdomain, KindIpAddress, KindNetblock,
      KindService, KindCloudResource, KindMobileApp, KindIosApp, KindNetworkHost,
      KindServerHost]"

interpretation asset_kind_enum: str_enum asset_kind_value asset_kind_members
proof unfold_locales
  show "asset_kind_value a = asset_kind_value b \<Longrightarrow> a = b" for a b by (cases a; cases b) simp_all
  show "e \<in> set asset_kind_members" for e by (cases e) (simp_all add: asset_kind_members_def)
qed (simp add: asset_kind_members_def)

subsection \<open>NodeType\<close>

datatype node_type =
    NodeDomain | NodeSubdomain | NodeIpAddress | NodeNetblock | NodeService
  | NodeCloudResource | NodeAsset | NodeFinding

primrec node_type_value :: "node_type \<Rightarrow> string" where
  "node_type_value NodeDomain = ''domain''"
| "node_type_value NodeSubdomain = ''subdomain''"
| "node_type_value NodeIpAddress = ''ip_address''"
| "node_type_value NodeNetblock = ''netblock''"
| "node_type_value NodeService = ''service''"
| "node_type_value NodeCloudResource = ''cloud_resource''"
| "node_type_value NodeAsset = ''asset''"
| "node_type_value NodeFinding = ''finding''"

definition node_type_members :: "node_type list" where
  "node_type_members =
     [NodeDomain, NodeSubdomain, NodeIpAddress, NodeNetblock, NodeService,
      NodeCloudResource, NodeAsset, NodeFinding]"

interpretation node_type_enum: str_enum node_type_value node_type_members
proof unfold_locales
  show "node_type_value a = node_type_value b \<Longrightarrow> a = b" for a b by (cases a; cases b) simp_all
  show "e \<in> set node_type_members" for e by (cases e) (simp_all add: node_type_members_def)
qed (simp add: node_type_members_def)

subsection \<open>EdgeRelation\<close>

datatype edge_relation =
    RelSubdomainOf | RelResolvesTo | RelHosts | RelRoutesTo | RelExposes
  | RelEnables | RelContains | RelTrusts | RelServes

primrec edge_relation_value :: "edge_relation \<Rightarrow> string" where
  "edge_relation_value RelSubdomainOf = ''subdomain_of''"
| "edge_relation_value RelResolvesTo = ''resolves_to''"
| "edge_relation_value RelHosts = ''hosts''"
| "edge_relation_value RelRoutesTo = ''routes_to''"
| "edge_relation_value RelExposes = ''exposes''"
| "edge_relation_value RelEnables = ''enables''"
| "edge_relation_value RelContains = ''contains''"
| "edge_relation_value RelTrusts = ''trusts''"
| "edge_relation_value RelServes = ''serves''"

definition edge_relation_members :: "edge_relation list" where
  "edge_relation_members =
     [RelSubdomainOf, RelResolvesTo, RelHosts, RelRoutesTo, RelExposes,
      RelEnables, RelContains, RelTrusts, RelServes]"

interpretation edge_relation_enum: str_enum edge_relation_value edge_relation_members
proof unfold_locales
  show "edge_relation_value a = edge_relation_value b \<Longrightarrow> a = b" for a b by (cases a; cases b) simp_all
  show "e \<in> set edge_relation_members" for e by (cases e) (simp_all add: edge_relation_members_def)
qed (simp add: edge_relation_members_def)

subsection \<open>AssetState\<close>

datatype asset_state =
    AStateCandidate | AStateActive | AStateShadow | AStateInactive

primrec asset_state_value :: "asset_state \<Rightarrow> string" where
  "asset_state_value AStateCandidate = ''candidate''"
| "asset_state_value AStateActive = ''active''"
| "asset_state_value AStateShadow = ''shadow''"
| "asset_state_value AStateInactive = ''inactive''"

definition asset_state_members :: "asset_state list" where
  "asset_state_members =
     [AStateCandidate, AStateActive, AStateShadow, AStateInactive]"

interpretation asset_state_enum: str_enum asset_state_value asset_state_members
proof unfold_locales
  show "asset_state_value a = asset_state_value b \<Longrightarrow> a = b" for a b by (cases a; cases b) simp_all
  show "e \<in> set asset_state_members" for e by (cases e) (simp_all add: asset_state_members_def)
qed (simp add: asset_state_members_def)

subsection \<open>DiscoverySource\<close>

datatype discovery_source =
    SrcCtLog | SrcPassiveDns | SrcDnsResolver | SrcAsnRir | SrcCloudEnum
  | SrcPortScan | SrcManual | SrcInferred

primrec discovery_source_value :: "discovery_source \<Rightarrow> string" where
  "discovery_source_value SrcCtLog = ''ct_log''"
| "discovery_source_value SrcPassiveDns = ''passive_dns''"
| "discovery_source_value SrcDnsResolver = ''dns_resolver''"
| "discovery_source_value SrcAsnRir = ''asn_rir''"
| "discovery_source_value SrcCloudEnum = ''cloud_enum''"
| "discovery_source_value SrcPortScan = ''port_scan''"
| "discovery_source_value SrcManual = ''manual''"
| "discovery_source_value SrcInferred = ''inferred''"

definition discovery_source_members :: "discovery_source list" where
  "discovery_source_members =
     [SrcCtLog, SrcPassiveDns, SrcDnsResolver, SrcAsnRir, SrcCloudEnum,
      SrcPortScan, SrcManual, SrcInferred]"

interpretation discovery_source_enum: str_enum discovery_source_value discovery_source_members
proof unfold_locales
  show "discovery_source_value a = discovery_source_value b \<Longrightarrow> a = b" for a b by (cases a; cases b) simp_all
  show "e \<in> set discovery_source_members" for e by (cases e) (simp_all add: discovery_source_members_def)
qed (simp add: discovery_source_members_def)

subsection \<open>ScanStatus\<close>

datatype scan_status =
    ScanQueued | ScanRunning | ScanCompleted | ScanPartial | ScanFailed
  | ScanCanceled

primrec scan_status_value :: "scan_status \<Rightarrow> string" where
  "scan_status_value ScanQueued = ''queued''"
| "scan_status_value ScanRunning = ''running''"
| "scan_status_value ScanCompleted = ''completed''"
| "scan_status_value ScanPartial = ''partial''"
| "scan_status_value ScanFailed = ''failed''"
| "scan_status_value ScanCanceled = ''canceled''"

definition scan_status_members :: "scan_status list" where
  "scan_status_members =
     [ScanQueued, ScanRunning, ScanCompleted, ScanPartial, ScanFailed,
      ScanCanceled]"

interpretation scan_status_enum: str_enum scan_status_value scan_status_members
proof unfold_locales
  show "scan_status_value a = scan_status_value b \<Longrightarrow> a = b" for a b by (cases a; cases b) simp_all
  show "e \<in> set scan_status_members" for e by (cases e) (simp_all add: scan_status_members_def)
qed (simp add: scan_status_members_def)

subsection \<open>FindingStatus\<close>

datatype finding_status =
    FStatOpen | FStatTriaged | FStatConfirmed | FStatFalsePositive | FStatAcceptedRisk
  | FStatResolved

primrec finding_status_value :: "finding_status \<Rightarrow> string" where
  "finding_status_value FStatOpen = ''open''"
| "finding_status_value FStatTriaged = ''triaged''"
| "finding_status_value FStatConfirmed = ''confirmed''"
| "finding_status_value FStatFalsePositive = ''false_positive''"
| "finding_status_value FStatAcceptedRisk = ''accepted_risk''"
| "finding_status_value FStatResolved = ''resolved''"

definition finding_status_members :: "finding_status list" where
  "finding_status_members =
     [FStatOpen, FStatTriaged, FStatConfirmed, FStatFalsePositive, FStatAcceptedRisk,
      FStatResolved]"

interpretation finding_status_enum: str_enum finding_status_value finding_status_members
proof unfold_locales
  show "finding_status_value a = finding_status_value b \<Longrightarrow> a = b" for a b by (cases a; cases b) simp_all
  show "e \<in> set finding_status_members" for e by (cases e) (simp_all add: finding_status_members_def)
qed (simp add: finding_status_members_def)

subsection \<open>FindingSource\<close>

datatype finding_source =
    FSrcAutomated | FSrcAiAssisted | FSrcManual

primrec finding_source_value :: "finding_source \<Rightarrow> string" where
  "finding_source_value FSrcAutomated = ''automated''"
| "finding_source_value FSrcAiAssisted = ''ai_assisted''"
| "finding_source_value FSrcManual = ''manual''"

definition finding_source_members :: "finding_source list" where
  "finding_source_members =
     [FSrcAutomated, FSrcAiAssisted, FSrcManual]"

interpretation finding_source_enum: str_enum finding_source_value finding_source_members
proof unfold_locales
  show "finding_source_value a = finding_source_value b \<Longrightarrow> a = b" for a b by (cases a; cases b) simp_all
  show "e \<in> set finding_source_members" for e by (cases e) (simp_all add: finding_source_members_def)
qed (simp add: finding_source_members_def)

subsection \<open>CorrelationConfidence\<close>

datatype correlation_confidence =
    ConfConfirmed | ConfStrongEvidence | ConfPotential

primrec correlation_confidence_value :: "correlation_confidence \<Rightarrow> string" where
  "correlation_confidence_value ConfConfirmed = ''confirmed''"
| "correlation_confidence_value ConfStrongEvidence = ''strong_evidence''"
| "correlation_confidence_value ConfPotential = ''potential''"

definition correlation_confidence_members :: "correlation_confidence list" where
  "correlation_confidence_members =
     [ConfConfirmed, ConfStrongEvidence, ConfPotential]"

interpretation correlation_confidence_enum: str_enum correlation_confidence_value correlation_confidence_members
proof unfold_locales
  show "correlation_confidence_value a = correlation_confidence_value b \<Longrightarrow> a = b" for a b by (cases a; cases b) simp_all
  show "e \<in> set correlation_confidence_members" for e by (cases e) (simp_all add: correlation_confidence_members_def)
qed (simp add: correlation_confidence_members_def)

subsection \<open>StaffRole\<close>

datatype staff_role =
    StaffOwner | StaffAdmin | StaffPentester | StaffAnalyst | StaffReviewer

primrec staff_role_value :: "staff_role \<Rightarrow> string" where
  "staff_role_value StaffOwner = ''owner''"
| "staff_role_value StaffAdmin = ''admin''"
| "staff_role_value StaffPentester = ''pentester''"
| "staff_role_value StaffAnalyst = ''analyst''"
| "staff_role_value StaffReviewer = ''reviewer''"

definition staff_role_members :: "staff_role list" where
  "staff_role_members =
     [StaffOwner, StaffAdmin, StaffPentester, StaffAnalyst, StaffReviewer]"

interpretation staff_role_enum: str_enum staff_role_value staff_role_members
proof unfold_locales
  show "staff_role_value a = staff_role_value b \<Longrightarrow> a = b" for a b by (cases a; cases b) simp_all
  show "e \<in> set staff_role_members" for e by (cases e) (simp_all add: staff_role_members_def)
qed (simp add: staff_role_members_def)

subsection \<open>AuthorizationBasis\<close>

datatype authorization_basis =
    BasisVerifiedOwnership | BasisOwnerDirect | BasisOwnerDirectRecon

primrec authorization_basis_value :: "authorization_basis \<Rightarrow> string" where
  "authorization_basis_value BasisVerifiedOwnership = ''verified-ownership''"
| "authorization_basis_value BasisOwnerDirect = ''owner-direct''"
| "authorization_basis_value BasisOwnerDirectRecon = ''owner-direct-recon''"

definition authorization_basis_members :: "authorization_basis list" where
  "authorization_basis_members =
     [BasisVerifiedOwnership, BasisOwnerDirect, BasisOwnerDirectRecon]"

interpretation authorization_basis_enum: str_enum authorization_basis_value authorization_basis_members
proof unfold_locales
  show "authorization_basis_value a = authorization_basis_value b \<Longrightarrow> a = b" for a b by (cases a; cases b) simp_all
  show "e \<in> set authorization_basis_members" for e by (cases e) (simp_all add: authorization_basis_members_def)
qed (simp add: authorization_basis_members_def)

subsection \<open>PortalRole\<close>

datatype portal_role =
    PortalCustomerAdmin | PortalCustomerViewer

primrec portal_role_value :: "portal_role \<Rightarrow> string" where
  "portal_role_value PortalCustomerAdmin = ''customer_admin''"
| "portal_role_value PortalCustomerViewer = ''customer_viewer''"

definition portal_role_members :: "portal_role list" where
  "portal_role_members =
     [PortalCustomerAdmin, PortalCustomerViewer]"

interpretation portal_role_enum: str_enum portal_role_value portal_role_members
proof unfold_locales
  show "portal_role_value a = portal_role_value b \<Longrightarrow> a = b" for a b by (cases a; cases b) simp_all
  show "e \<in> set portal_role_members" for e by (cases e) (simp_all add: portal_role_members_def)
qed (simp add: portal_role_members_def)

subsection \<open>ReportStatus\<close>

datatype report_status =
    RepDraft | RepInReview | RepApproved | RepPublished | RepRejected
  | RepRevoked

primrec report_status_value :: "report_status \<Rightarrow> string" where
  "report_status_value RepDraft = ''draft''"
| "report_status_value RepInReview = ''in_review''"
| "report_status_value RepApproved = ''approved''"
| "report_status_value RepPublished = ''published''"
| "report_status_value RepRejected = ''rejected''"
| "report_status_value RepRevoked = ''revoked''"

definition report_status_members :: "report_status list" where
  "report_status_members =
     [RepDraft, RepInReview, RepApproved, RepPublished, RepRejected,
      RepRevoked]"

interpretation report_status_enum: str_enum report_status_value report_status_members
proof unfold_locales
  show "report_status_value a = report_status_value b \<Longrightarrow> a = b" for a b by (cases a; cases b) simp_all
  show "e \<in> set report_status_members" for e by (cases e) (simp_all add: report_status_members_def)
qed (simp add: report_status_members_def)

subsection \<open>RemediationStatus\<close>

datatype remediation_status =
    RemOpen | RemAcknowledged | RemInProgress | RemFixed | RemResolved
  | RemRiskAccepted

primrec remediation_status_value :: "remediation_status \<Rightarrow> string" where
  "remediation_status_value RemOpen = ''open''"
| "remediation_status_value RemAcknowledged = ''acknowledged''"
| "remediation_status_value RemInProgress = ''in_progress''"
| "remediation_status_value RemFixed = ''fixed''"
| "remediation_status_value RemResolved = ''resolved''"
| "remediation_status_value RemRiskAccepted = ''risk_accepted''"

definition remediation_status_members :: "remediation_status list" where
  "remediation_status_members =
     [RemOpen, RemAcknowledged, RemInProgress, RemFixed, RemResolved,
      RemRiskAccepted]"

interpretation remediation_status_enum: str_enum remediation_status_value remediation_status_members
proof unfold_locales
  show "remediation_status_value a = remediation_status_value b \<Longrightarrow> a = b" for a b by (cases a; cases b) simp_all
  show "e \<in> set remediation_status_members" for e by (cases e) (simp_all add: remediation_status_members_def)
qed (simp add: remediation_status_members_def)

end
