(* ===== verification/Scoring.thy ===== *)
theory Scoring
  imports Binary64 Enums
begin

text \<open>
  \<open>guardian_core/scoring.py\<close> and \<open>guardian_core/exposure.py\<close>: the deterministic risk
  engine and the exposure engine.  Both turn pipeline-produced signals into a 0 to 100 score plus a
  rationale.  The rationale's English sentences are constructors that carry the numbers the source
  interpolates.  True division and \<open>round\<close> go through \<open>fl\<close> and \<open>rhe\<close>.
\<close>

subsection \<open>Tables\<close>

definition CVSS_BANDS :: "(rat \<times> severity) list" where
  "CVSS_BANDS = [(9, SevCritical), (7, SevHigh), (4, SevMedium), (fl (1/10), SevLow)]"

definition CRIT_BUMP :: "(string, int) odict" where
  "CRIT_BUMP = [(''critical'', 2), (''high'', 1), (''medium'', 0), (''low'', 0)]"

primrec SEVERITY_BASE_SCORE :: "severity \<Rightarrow> int" where
  "SEVERITY_BASE_SCORE SevCritical = 90"
| "SEVERITY_BASE_SCORE SevHigh = 72"
| "SEVERITY_BASE_SCORE SevMedium = 50"
| "SEVERITY_BASE_SCORE SevLow = 25"
| "SEVERITY_BASE_SCORE SevInfo = 5"

definition MATURITY_WEIGHT :: "(string, int) odict" where
  "MATURITY_WEIGHT = [(''high'', 10), (''functional'', 6), (''poc'', 2), (''unproven'', 0)]"

definition MAX_SIGNAL_POINTS :: int where
  "MAX_SIGNAL_POINTS = 8 + 8 + 10 + 6 + 6 + 12 + 12"

definition MATURITY_BUMP :: "(string, int) odict" where
  "MATURITY_BUMP = [(''high'', 1), (''functional'', 1)]"

definition CRITICALITY_WEIGHT :: "(string, int) odict" where
  "CRITICALITY_WEIGHT = [(''critical'', 12), (''high'', 8), (''medium'', 4), (''low'', 0)]"

definition BUSINESS_IMPACT_WEIGHT :: "(string, int) odict" where
  "BUSINESS_IMPACT_WEIGHT =
     [(''critical'', 12), (''high'', 8), (''medium'', 4), (''low'', 0), (''none'', 0)]"

subsection \<open>Inputs and verdict\<close>

record score_inputs =
  base_severity :: severity
  cvss_base :: "rat option"
  epss_score :: "rat option"
  kev :: bool
  exploit_maturity :: "string option"
  ransomware :: bool
  exposure :: string
  asset_criticality :: string
  business_impact :: string

datatype signal =
    SigKev | SigRansomware | SigWeaponized | SigFunctional | SigPoc
  | SigHighEpss rat | SigModerateEpss rat | SigPublic | SigExposureUnknown
  | SigCriticality string | SigBusiness string

datatype rationale_line =
    BaseLine int severity
  | SignalLine int signal
  | SummaryLine int int int int severity

record risk_assessment =
  ra_severity :: severity
  ra_score :: int
  ra_rationale :: "rationale_line list"

subsection \<open>The severity band\<close>

fun first_band :: "(rat \<times> severity) list \<Rightarrow> rat \<Rightarrow> severity" where
  "first_band [] c = SevInfo"
| "first_band ((t, s) # bands) c = (if t \<le> c then s else first_band bands c)"

definition from_cvss :: "rat \<Rightarrow> severity" where
  "from_cvss c = first_band CVSS_BANDS c"

definition SEVERITY_LADDER :: "severity list" where
  "SEVERITY_LADDER = [SevInfo, SevLow, SevMedium, SevHigh, SevCritical]"

fun index_of :: "'a list \<Rightarrow> 'a \<Rightarrow> nat" where
  "index_of [] x = 0"
| "index_of (y # ys) x = (if y = x then 0 else Suc (index_of ys x))"

definition bump :: "severity \<Rightarrow> int \<Rightarrow> severity" where
  "bump sev steps =
     SEVERITY_LADDER ! nat (min (int (length SEVERITY_LADDER) - 1)
                             (max 0 (int (index_of SEVERITY_LADDER sev) + steps)))"

definition score_severity :: "score_inputs \<Rightarrow> severity" where
  "score_severity inp =
     (let sev0 = (case cvss_base inp of Some c \<Rightarrow> from_cvss c | None \<Rightarrow> base_severity inp);
          sev1 = (if kev inp then
                    let b = bump sev0 1
                    in if severity_rank b < severity_rank SevHigh then SevHigh else b
                  else sev0);
          sev2 = (case epss_score inp of
                    Some e \<Rightarrow> if 1/2 \<le> e then bump sev1 1 else sev1 | None \<Rightarrow> sev1);
          sev3 = bump sev2 (dict_getdef MATURITY_BUMP
                              (case exploit_maturity inp of Some m \<Rightarrow> m | None \<Rightarrow> []) 0)
      in if exposure inp = ''public''
         then bump sev3 (dict_getdef CRIT_BUMP (asset_criticality inp) 0) else sev3)"

subsection \<open>The score\<close>

definition maturity_signal :: "string \<Rightarrow> signal" where
  "maturity_signal m =
     (if m = ''high'' then SigWeaponized else if m = ''functional'' then SigFunctional else SigPoc)"

definition signals_of :: "score_inputs \<Rightarrow> (int \<times> signal) list" where
  "signals_of inp =
     (let m = (case exploit_maturity inp of Some m \<Rightarrow> m | None \<Rightarrow> []);
          mw = dict_getdef MATURITY_WEIGHT m 0;
          cw = dict_getdef CRITICALITY_WEIGHT (asset_criticality inp) 0;
          bw = dict_getdef BUSINESS_IMPACT_WEIGHT (business_impact inp) 0
      in (if kev inp then [(8, SigKev)] else [])
       @ (if ransomware inp then [(8, SigRansomware)] else [])
       @ (if mw \<noteq> 0 then [(mw, maturity_signal m)] else [])
       @ (case epss_score inp of None \<Rightarrow> []
          | Some e \<Rightarrow> if 1/2 \<le> e then [(6, SigHighEpss e)]
                     else if fl (1/10) \<le> e then [(3, SigModerateEpss e)] else [])
       @ (if exposure inp = ''public'' then [(6, SigPublic)]
          else if exposure inp = ''unknown'' then [(2, SigExposureUnknown)] else [])
       @ (if cw \<noteq> 0 then [(cw, SigCriticality (asset_criticality inp))] else [])
       @ (if bw \<noteq> 0 then [(bw, SigBusiness (business_impact inp))] else []))"

definition earned_points :: "(int \<times> signal) list \<Rightarrow> int" where
  "earned_points sigs = sum_list (map fst sigs)"

definition bonus_points :: "int \<Rightarrow> int \<Rightarrow> int" where
  "bonus_points headroom earned =
     rhe (fl (of_int (headroom * min earned MAX_SIGNAL_POINTS) / of_int MAX_SIGNAL_POINTS))"

definition assess :: "score_inputs \<Rightarrow> risk_assessment" where
  "assess inp =
     (let sev = score_severity inp;
          signals = signals_of inp;
          floor = SEVERITY_BASE_SCORE sev;
          earned = earned_points signals;
          headroom = 100 - floor;
          bonus = bonus_points headroom earned;
          rationale = BaseLine floor sev # map (\<lambda>(w, t). SignalLine w t) signals
            @ [SummaryLine earned MAX_SIGNAL_POINTS bonus headroom sev];
          score = max 0 (min 100 (floor + bonus));
          score = max 0 (min 100 score)
      in \<lparr>ra_severity = sev, ra_score = score, ra_rationale = rationale\<rparr>)"

subsection \<open>Exposure\<close>

record exposure_inputs =
  internet_reachable :: bool
  public_dns :: bool
  open_ports :: int
  sensitive_ports :: bool
  missing_tls :: bool
  cloud_public :: bool
  unknown_ownership :: bool
  dangling_dns :: bool

datatype exposure_reason =
    ReachableFromInternet | HasPublicDns | OpenServices int | SensitivePort | NoTls
  | CloudPublic | DanglingDns | OwnershipUnconfirmed

record exposure_assessment =
  ea_score :: int
  ea_rationale :: "(int \<times> exposure_reason) list"

definition exposure_points :: "exposure_inputs \<Rightarrow> (int \<times> exposure_reason) list" where
  "exposure_points inp =
     (if internet_reachable inp then [(30, ReachableFromInternet)] else [])
   @ (if public_dns inp then [(10, HasPublicDns)] else [])
   @ (if open_ports inp \<noteq> 0
      then [(min 20 (open_ports inp * 5), OpenServices (open_ports inp))] else [])
   @ (if sensitive_ports inp then [(15, SensitivePort)] else [])
   @ (if missing_tls inp then [(10, NoTls)] else [])
   @ (if cloud_public inp then [(20, CloudPublic)] else [])
   @ (if dangling_dns inp then [(20, DanglingDns)] else [])
   @ (if unknown_ownership inp then [(10, OwnershipUnconfirmed)] else [])"

definition assess_exposure :: "exposure_inputs \<Rightarrow> exposure_assessment" where
  "assess_exposure inp =
     (let rationale = exposure_points inp;
          score = foldl (\<lambda>s p. s + fst p) 0 rationale
      in \<lparr>ea_score = max 0 (min 100 score), ea_rationale = rationale\<rparr>)"

subsection \<open>The severity ladder\<close>

lemma bump_rank: "int (severity_rank (bump s n)) = min 4 (max 0 (int (severity_rank s) + n))"
proof -
  have i: "index_of SEVERITY_LADDER s = severity_rank s"
    by (cases s) (simp_all add: SEVERITY_LADDER_def)
  define k where "k = nat (min 4 (max 0 (int (severity_rank s) + n)))"
  have "k \<in> {0, 1, 2, 3, 4}" by (auto simp: k_def)
  then have "severity_rank (SEVERITY_LADDER ! k) = k"
    by (auto simp: SEVERITY_LADDER_def numeral_nat)
  moreover have "int (length SEVERITY_LADDER) - 1 = 4" by (simp add: SEVERITY_LADDER_def)
  then have "bump s n = SEVERITY_LADDER ! k" by (simp only: bump_def i k_def)
  ultimately show ?thesis by (simp add: k_def)
qed

lemma bump_mono: "severity_rank s \<le> severity_rank t \<Longrightarrow> m \<le> n \<Longrightarrow>
    severity_rank (bump s m) \<le> severity_rank (bump t n)"
  using bump_rank [of s m] bump_rank [of t n] by linarith

lemma bump_le: "0 \<le> n \<Longrightarrow> severity_rank s \<le> severity_rank (bump s n)"
  using bump_rank [of s n] severity_rank_le4 [of s] by linarith

lemma from_cvss_mono: "a \<le> b \<Longrightarrow> severity_rank (from_cvss a) \<le> severity_rank (from_cvss b)"
  by (auto simp: from_cvss_def CVSS_BANDS_def)

subsection \<open>The weights\<close>

lemma dict_getdef_range:
  assumes "\<forall>(k, v) \<in> set d. lo \<le> v \<and> v \<le> hi" and "lo \<le> dflt \<and> dflt \<le> hi"
  shows "lo \<le> dict_getdef d k dflt \<and> dict_getdef d k dflt \<le> (hi::int)"
  using assms by (auto simp: dict_getdef_def split: option.splits dest: map_of_SomeD)

lemma crit_bump_range: "0 \<le> dict_getdef CRIT_BUMP k 0 \<and> dict_getdef CRIT_BUMP k 0 \<le> 2"
  by (rule dict_getdef_range) (simp_all add: CRIT_BUMP_def)

lemma maturity_bump_range: "0 \<le> dict_getdef MATURITY_BUMP k 0 \<and> dict_getdef MATURITY_BUMP k 0 \<le> 1"
  by (rule dict_getdef_range) (simp_all add: MATURITY_BUMP_def)

lemma weights_range:
  "0 \<le> dict_getdef MATURITY_WEIGHT k 0 \<and> dict_getdef MATURITY_WEIGHT k 0 \<le> 10"
  "0 \<le> dict_getdef CRITICALITY_WEIGHT k 0 \<and> dict_getdef CRITICALITY_WEIGHT k 0 \<le> 12"
  "0 \<le> dict_getdef BUSINESS_IMPACT_WEIGHT k 0 \<and> dict_getdef BUSINESS_IMPACT_WEIGHT k 0 \<le> 12"
  by (rule dict_getdef_range; simp add: MATURITY_WEIGHT_def CRITICALITY_WEIGHT_def
      BUSINESS_IMPACT_WEIGHT_def)+

text \<open>What the signals add up to, as one sum over the inputs.\<close>

definition epss_points :: "rat option \<Rightarrow> int" where
  "epss_points e = (case e of None \<Rightarrow> 0
     | Some x \<Rightarrow> if 1/2 \<le> x then 6 else if fl (1/10) \<le> x then 3 else 0)"

definition exposure_weight :: "string \<Rightarrow> int" where
  "exposure_weight e = (if e = ''public'' then 6 else if e = ''unknown'' then 2 else 0)"

lemma earned_points_simps [simp]:
  "earned_points [] = 0"
  "earned_points ((w, t) # sigs) = w + earned_points sigs"
  "earned_points (a @ b) = earned_points a + earned_points b"
  "earned_points (if c then a else b) = (if c then earned_points a else earned_points b)"
  by (simp_all add: earned_points_def)

lemma earned_epss:
  "earned_points (case e of None \<Rightarrow> []
     | Some e \<Rightarrow> if 1/2 \<le> e then [(6, SigHighEpss e)]
                else if fl (1/10) \<le> e then [(3, SigModerateEpss e)] else []) = epss_points e"
  by (cases e) (simp_all add: epss_points_def)

lemma weight_if: "(if w \<noteq> (0::int) then w + 0 else 0) = w"
  by simp

lemma earned_eq:
  "earned_points (signals_of inp) =
     (if kev inp then 8 else 0) + (if ransomware inp then 8 else 0)
     + dict_getdef MATURITY_WEIGHT (case exploit_maturity inp of Some m \<Rightarrow> m | None \<Rightarrow> []) 0
     + epss_points (epss_score inp) + exposure_weight (exposure inp)
     + dict_getdef CRITICALITY_WEIGHT (asset_criticality inp) 0
     + dict_getdef BUSINESS_IMPACT_WEIGHT (business_impact inp) 0"
  by (simp only: signals_of_def Let_def earned_points_simps earned_epss weight_if
      exposure_weight_def) simp

lemma epss_points_range: "0 \<le> epss_points e \<and> epss_points e \<le> 6"
  by (simp add: epss_points_def split: option.splits)

lemma exposure_weight_range: "0 \<le> exposure_weight e \<and> exposure_weight e \<le> 6"
  by (simp add: exposure_weight_def)

lemma earned_range: "0 \<le> earned_points (signals_of inp) \<and> earned_points (signals_of inp) \<le> 62"
  unfolding earned_eq
  using weights_range epss_points_range exposure_weight_range
  by (smt (verit, best))

lemma base_score_range: "5 \<le> SEVERITY_BASE_SCORE s \<and> SEVERITY_BASE_SCORE s \<le> 90"
  by (cases s) simp_all

lemma bonus_range:
  assumes "0 \<le> h" "h \<le> 100" "0 \<le> e"
  shows "0 \<le> bonus_points h e \<and> bonus_points h e \<le> h"
proof -
  define m where "m = min e MAX_SIGNAL_POINTS"
  define x :: rat where "x = of_int (h * m) / of_int MAX_SIGNAL_POINTS"
  have M: "MAX_SIGNAL_POINTS = 62" by (simp add: MAX_SIGNAL_POINTS_def)
  have m: "0 \<le> m" "m \<le> 62" using assms by (auto simp: m_def M)
  have "h * m \<le> h * 62" using m assms by (intro mult_left_mono) auto
  then have "(of_int (h * m) :: rat) \<le> of_int (h * 62)" by (simp only: of_int_le_iff)
  then have "x \<le> of_int h" by (simp add: x_def M)
  then have "fl x \<le> of_int h" using assms by (intro fl_le_int) auto
  moreover have "0 \<le> fl x" using m assms by (intro fl_nonneg) (simp add: x_def M)
  ultimately show ?thesis
    using rhe_le [of "fl x" h] rhe_nonneg [of "fl x"]
    by (simp add: bonus_points_def x_def m_def)
qed

lemma bonus_mono: "0 \<le> h \<Longrightarrow> a \<le> b \<Longrightarrow> bonus_points h a \<le> bonus_points h b"
  unfolding bonus_points_def
  by (intro rhe_mono fl_mono divide_right_mono)
    (auto simp: MAX_SIGNAL_POINTS_def intro!: mult_left_mono simp del: of_int_mult)

lemma ra_score_assess:
  "ra_score (assess inp) =
     SEVERITY_BASE_SCORE (score_severity inp)
     + bonus_points (100 - SEVERITY_BASE_SCORE (score_severity inp)) (earned_points (signals_of inp))"
  using bonus_range [of "100 - SEVERITY_BASE_SCORE (score_severity inp)" "earned_points (signals_of inp)"]
    base_score_range [of "score_severity inp"] earned_range [of inp]
  by (simp add: assess_def Let_def)

text \<open>
  A step up in band never costs points, whatever the signals: checked for every pair of adjacent
  bands at each of the 63 possible signal sums.
\<close>

definition banded_score :: "severity \<Rightarrow> int \<Rightarrow> int" where
  "banded_score s e = SEVERITY_BASE_SCORE s + bonus_points (100 - SEVERITY_BASE_SCORE s) e"

lemma bonus_points_exact:
  assumes "0 \<le> h" "h \<le> 100" "0 \<le> e" "e \<le> 62"
  shows "bonus_points h e = rhe_div (h * e) 62"
proof -
  have "h * e \<le> 100 * 62" using assms by (intro mult_mono) auto
  then have "rhe (fl (of_int (h * e) / of_int 62)) = rhe_div (h * e) 62"
    using assms by (intro rhe_fl_div) auto
  then show ?thesis using assms by (simp add: bonus_points_def MAX_SIGNAL_POINTS_def)
qed

definition banded_exact :: "severity \<Rightarrow> int \<Rightarrow> int" where
  "banded_exact s e = SEVERITY_BASE_SCORE s + rhe_div ((100 - SEVERITY_BASE_SCORE s) * e) 62"

lemma banded_score_exact: "0 \<le> e \<Longrightarrow> e \<le> 62 \<Longrightarrow> banded_score s e = banded_exact s e"
  using base_score_range [of s] by (simp add: banded_score_def banded_exact_def bonus_points_exact)

lemma band_step_all:
  "list_all (\<lambda>e. banded_exact SevInfo e \<le> banded_exact SevLow e
     \<and> banded_exact SevLow e \<le> banded_exact SevMedium e
     \<and> banded_exact SevMedium e \<le> banded_exact SevHigh e
     \<and> banded_exact SevHigh e \<le> banded_exact SevCritical e) [0..62]"
  by code_simp

lemma banded_score_step:
  assumes "0 \<le> e" "e \<le> 62"
  shows "banded_score SevInfo e \<le> banded_score SevLow e"
    "banded_score SevLow e \<le> banded_score SevMedium e"
    "banded_score SevMedium e \<le> banded_score SevHigh e"
    "banded_score SevHigh e \<le> banded_score SevCritical e"
  using band_step_all assms by (auto simp: list_all_iff banded_score_exact)

lemma banded_score_mono:
  assumes "severity_rank s \<le> severity_rank t" "0 \<le> a" "a \<le> b" "b \<le> 62"
  shows "banded_score s a \<le> banded_score t b"
proof -
  have "banded_score s a \<le> banded_score t a"
    using assms banded_score_step [of a] by (cases s; cases t) auto
  also have "\<dots> \<le> banded_score t b"
    using assms base_score_range [of t] by (simp add: banded_score_def bonus_mono)
  finally show ?thesis .
qed

subsection \<open>Ordering inputs by alarm\<close>

text \<open>
  \<open>no_milder a b\<close>: every signal of \<open>b\<close> is at least as strong as the same signal of
  \<open>a\<close>, read through the tables the engine itself uses.
\<close>

definition option_le :: "rat option \<Rightarrow> rat option \<Rightarrow> bool" where
  "option_le x y = (case x of None \<Rightarrow> True | Some a \<Rightarrow> (case y of None \<Rightarrow> False | Some b \<Rightarrow> a \<le> b))"

definition band_input_le :: "score_inputs \<Rightarrow> score_inputs \<Rightarrow> bool" where
  "band_input_le a b =
     (case cvss_base a of
        Some x \<Rightarrow> (case cvss_base b of Some y \<Rightarrow> x \<le> y | None \<Rightarrow> False)
      | None \<Rightarrow> cvss_base b = None \<and> severity_rank (base_severity a) \<le> severity_rank (base_severity b))"

definition maturity_key :: "score_inputs \<Rightarrow> string" where
  "maturity_key i = (case exploit_maturity i of Some m \<Rightarrow> m | None \<Rightarrow> [])"

definition no_milder :: "score_inputs \<Rightarrow> score_inputs \<Rightarrow> bool" where
  "no_milder a b \<longleftrightarrow> band_input_le a b \<and> (kev a \<longrightarrow> kev b) \<and> (ransomware a \<longrightarrow> ransomware b)
     \<and> option_le (epss_score a) (epss_score b)
     \<and> dict_getdef MATURITY_WEIGHT (maturity_key a) 0 \<le> dict_getdef MATURITY_WEIGHT (maturity_key b) 0
     \<and> exposure_weight (exposure a) \<le> exposure_weight (exposure b)
     \<and> dict_getdef CRITICALITY_WEIGHT (asset_criticality a) 0
         \<le> dict_getdef CRITICALITY_WEIGHT (asset_criticality b) 0
     \<and> dict_getdef BUSINESS_IMPACT_WEIGHT (business_impact a) 0
         \<le> dict_getdef BUSINESS_IMPACT_WEIGHT (business_impact b) 0"

lemma maturity_bump_of_weight:
  "dict_getdef MATURITY_WEIGHT m 0 \<le> dict_getdef MATURITY_WEIGHT n 0 \<Longrightarrow>
   dict_getdef MATURITY_BUMP m 0 \<le> dict_getdef MATURITY_BUMP n 0"
  by (simp add: dict_getdef_def MATURITY_WEIGHT_def MATURITY_BUMP_def split: if_splits)

lemma crit_bump_of_weight:
  "dict_getdef CRITICALITY_WEIGHT m 0 \<le> dict_getdef CRITICALITY_WEIGHT n 0 \<Longrightarrow>
   dict_getdef CRIT_BUMP m 0 \<le> dict_getdef CRIT_BUMP n 0"
  by (simp add: dict_getdef_def CRITICALITY_WEIGHT_def CRIT_BUMP_def split: if_splits)

lemma epss_points_mono: "option_le a b \<Longrightarrow> epss_points a \<le> epss_points b"
  by (auto simp: option_le_def epss_points_def split: option.splits)

lemma public_of_weight:
  "exposure_weight a \<le> exposure_weight b \<Longrightarrow> a = ''public'' \<Longrightarrow> b = ''public''"
  by (auto simp: exposure_weight_def split: if_splits)

text \<open>The four stages of the band, each monotone.\<close>

definition stage0 :: "score_inputs \<Rightarrow> severity" where
  "stage0 i = (case cvss_base i of Some c \<Rightarrow> from_cvss c | None \<Rightarrow> base_severity i)"

definition stage1 :: "bool \<Rightarrow> severity \<Rightarrow> severity" where
  "stage1 k s = (if k then let b = bump s 1
     in if severity_rank b < severity_rank SevHigh then SevHigh else b else s)"

definition stage2 :: "rat option \<Rightarrow> severity \<Rightarrow> severity" where
  "stage2 e s = (case e of Some x \<Rightarrow> if 1/2 \<le> x then bump s 1 else s | None \<Rightarrow> s)"

definition stage4 :: "string \<Rightarrow> string \<Rightarrow> severity \<Rightarrow> severity" where
  "stage4 ex crit s = (if ex = ''public'' then bump s (dict_getdef CRIT_BUMP crit 0) else s)"

lemma score_severity_stages:
  "score_severity i = stage4 (exposure i) (asset_criticality i)
     (bump (stage2 (epss_score i) (stage1 (kev i) (stage0 i))) (dict_getdef MATURITY_BUMP (maturity_key i) 0))"
  by (simp add: score_severity_def stage0_def stage1_def stage2_def stage4_def maturity_key_def Let_def)

lemma stage0_mono: "band_input_le a b \<Longrightarrow> severity_rank (stage0 a) \<le> severity_rank (stage0 b)"
  by (auto simp: band_input_le_def stage0_def from_cvss_mono split: option.splits)

lemma stage1_mono: "(k \<longrightarrow> l) \<Longrightarrow> severity_rank s \<le> severity_rank t \<Longrightarrow>
    severity_rank (stage1 k s) \<le> severity_rank (stage1 l t)"
  using bump_mono [of s t 1 1] bump_le [of 1 t] by (auto simp: stage1_def Let_def)

lemma stage2_mono: "option_le d e \<Longrightarrow> severity_rank s \<le> severity_rank t \<Longrightarrow>
    severity_rank (stage2 d s) \<le> severity_rank (stage2 e t)"
  using bump_mono [of s t 1 1] bump_le [of 1 t]
  by (auto simp: stage2_def option_le_def split: option.splits)

lemma stage4_mono:
  assumes "exposure_weight x \<le> exposure_weight y" "severity_rank s \<le> severity_rank t"
    and "dict_getdef CRITICALITY_WEIGHT c 0 \<le> dict_getdef CRITICALITY_WEIGHT d 0"
  shows "severity_rank (stage4 x c s) \<le> severity_rank (stage4 y d t)"
  using assms public_of_weight [OF assms(1)] crit_bump_of_weight [OF assms(3)]
    bump_mono [of s t] bump_le [of "dict_getdef CRIT_BUMP d 0" t] crit_bump_range [of d]
  by (auto simp: stage4_def)

lemma score_severity_mono:
  assumes "no_milder a b"
  shows "severity_rank (score_severity a) \<le> severity_rank (score_severity b)"
  unfolding score_severity_stages
  using assms
  by (intro stage4_mono bump_mono stage2_mono stage1_mono stage0_mono maturity_bump_of_weight)
    (simp_all add: no_milder_def)

lemma earned_mono:
  assumes "no_milder a b"
  shows "earned_points (signals_of a) \<le> earned_points (signals_of b)"
  using assms epss_points_mono [of "epss_score a" "epss_score b"]
  by (auto simp: earned_eq no_milder_def maturity_key_def [symmetric])

subsection \<open>Properties\<close>

text \<open>The seven signals, each with the weight the risk model gives it.\<close>

definition signal_sum :: "score_inputs \<Rightarrow> int" where
  "signal_sum inp =
     (if kev inp then 8 else 0) + (if ransomware inp then 8 else 0)
   + (case exploit_maturity inp of None \<Rightarrow> 0 | Some m \<Rightarrow> if m = ''high'' then 10 else if m = ''functional'' then 6 else if m = ''poc'' then 2 else 0)
   + epss_points (epss_score inp) + exposure_weight (exposure inp)
   + (let c = asset_criticality inp in if c = ''critical'' then 12 else if c = ''high'' then 8 else if c = ''medium'' then 4 else 0)
   + (let b = business_impact inp in if b = ''critical'' then 12 else if b = ''high'' then 8 else if b = ''medium'' then 4 else 0)"

lemma earned_signal_sum: "earned_points (signals_of inp) = signal_sum inp"
  unfolding earned_eq signal_sum_def
  by (simp add: MATURITY_WEIGHT_def CRITICALITY_WEIGHT_def BUSINESS_IMPACT_WEIGHT_def dict_getdef_def Let_def split: option.split)

text \<open>C2: The score is the floor of the severity band plus the share of the room up to 100 that the signals have earned, out of 62 points,
  rounded half to even: the float division and the two clamps compute exactly this integer.  The rationale accounts for it: it names the
  floor, lists weights that add up to the points earned, and its last line has the bonus that was added.\<close>

theorem score_fills_headroom:
  "ra_severity (assess inp) = score_severity inp \<and>
   ra_score (assess inp) = SEVERITY_BASE_SCORE (score_severity inp)
     + rhe_div ((100 - SEVERITY_BASE_SCORE (score_severity inp)) * signal_sum inp) 62 \<and>
   0 \<le> signal_sum inp \<and> signal_sum inp \<le> 62 \<and>
   SEVERITY_BASE_SCORE (score_severity inp) \<le> ra_score (assess inp) \<and> ra_score (assess inp) \<le> 100 \<and>
   (\<exists>signals. signal_sum inp = sum_list (map fst signals) \<and>
      ra_rationale (assess inp) = BaseLine (SEVERITY_BASE_SCORE (score_severity inp)) (score_severity inp) # map (\<lambda>(w, t). SignalLine w t) signals
        @ [SummaryLine (signal_sum inp) 62 (ra_score (assess inp) - SEVERITY_BASE_SCORE (score_severity inp))
             (100 - SEVERITY_BASE_SCORE (score_severity inp)) (score_severity inp)])"
proof -
  let ?floor = "SEVERITY_BASE_SCORE (score_severity inp)"
  have e: "0 \<le> signal_sum inp" "signal_sum inp \<le> 62" using earned_range [of inp] by (simp_all add: earned_signal_sum)
  have s: "ra_score (assess inp) = ?floor + bonus_points (100 - ?floor) (signal_sum inp)"
    by (simp add: ra_score_assess earned_signal_sum)
  have "bonus_points (100 - ?floor) (signal_sum inp) = rhe_div ((100 - ?floor) * signal_sum inp) 62"
    using base_score_range [of "score_severity inp"] e by (intro bonus_points_exact) auto
  moreover have "0 \<le> bonus_points (100 - ?floor) (signal_sum inp) \<and> bonus_points (100 - ?floor) (signal_sum inp) \<le> 100 - ?floor"
    using base_score_range [of "score_severity inp"] e by (intro bonus_range) auto
  moreover have "ra_rationale (assess inp) = BaseLine ?floor (score_severity inp) # map (\<lambda>(w, t). SignalLine w t) (signals_of inp)
      @ [SummaryLine (signal_sum inp) 62 (bonus_points (100 - ?floor) (signal_sum inp)) (100 - ?floor) (score_severity inp)]"
    by (simp add: assess_def Let_def earned_signal_sum MAX_SIGNAL_POINTS_def)
  moreover have "ra_severity (assess inp) = score_severity inp" by (simp add: assess_def Let_def)
  moreover have "signal_sum inp = sum_list (map fst (signals_of inp))" by (simp add: earned_signal_sum [symmetric] earned_points_def)
  ultimately show ?thesis using s e by auto
qed

text \<open>C3: risk is monotone.  Strengthening any signal (a higher CVSS, EPSS, exploit maturity,
  exposure, criticality or impact, a KEV or ransomware flag) never lowers the severity band and
  never lowers the 0 to 100 score, in spite of the float division and the rounding.\<close>

theorem assess_monotone:
  assumes "no_milder a b"
  shows "severity_rank (ra_severity (assess a)) \<le> severity_rank (ra_severity (assess b))
    \<and> ra_score (assess a) \<le> ra_score (assess b)"
proof -
  have "banded_score (score_severity a) (earned_points (signals_of a))
      \<le> banded_score (score_severity b) (earned_points (signals_of b))"
    using assms earned_range by (intro banded_score_mono score_severity_mono earned_mono) auto
  moreover have "ra_severity (assess i) = score_severity i" for i
    by (simp add: assess_def Let_def)
  ultimately show ?thesis
    using score_severity_mono [OF assms] by (simp add: ra_score_assess banded_score_def)
qed

definition quiet_input :: score_inputs where
  "quiet_input = \<lparr>base_severity = SevMedium, cvss_base = Some 5, epss_score = None, kev = False,
     exploit_maturity = None, ransomware = False, exposure = ''internal'',
     asset_criticality = ''medium'', business_impact = ''medium''\<rparr>"

theorem assess_monotone_witness:
  "severity_rank (ra_severity (assess quiet_input))
     \<le> severity_rank (ra_severity (assess (quiet_input\<lparr>kev := True, exposure := ''public''\<rparr>)))
   \<and> ra_score (assess quiet_input)
     \<le> ra_score (assess (quiet_input\<lparr>kev := True, exposure := ''public''\<rparr>))"
  by (rule assess_monotone)
    (simp add: no_milder_def quiet_input_def band_input_le_def option_le_def exposure_weight_def
      maturity_key_def)

text \<open>A vulnerability on CISA's known-exploited list is never reported below HIGH.\<close>

theorem kev_floors_at_high:
  assumes "kev inp"
  shows "severity_rank SevHigh \<le> severity_rank (ra_severity (assess inp))
    \<and> 72 \<le> ra_score (assess inp)"
proof -
  have 1: "severity_rank SevHigh \<le> severity_rank (stage1 (kev inp) (stage0 inp))"
    using assms by (simp add: stage1_def Let_def)
  have 2: "severity_rank s \<le> severity_rank (stage2 e s)"
    "severity_rank s \<le> severity_rank (stage4 x c s)" for s e x c
    using bump_le [of 1 s] bump_le [of "dict_getdef CRIT_BUMP c 0" s] crit_bump_range [of c]
    by (auto simp: stage2_def stage4_def split: option.splits)
  have 3: "severity_rank SevHigh \<le> severity_rank (score_severity inp)"
    unfolding score_severity_stages
    by (meson 1 2 bump_le maturity_bump_range order.trans)
  then have "72 \<le> SEVERITY_BASE_SCORE (score_severity inp)"
    by (cases "score_severity inp") simp_all
  then show ?thesis
    using 3 bonus_range [of "100 - SEVERITY_BASE_SCORE (score_severity inp)"
        "earned_points (signals_of inp)"] base_score_range [of "score_severity inp"] earned_range [of inp]
    by (simp add: ra_score_assess) (simp add: assess_def Let_def)
qed

theorem kev_floors_at_high_witness:
  "72 \<le> ra_score (assess (quiet_input\<lparr>kev := True\<rparr>))"
  using kev_floors_at_high [of "quiet_input\<lparr>kev := True\<rparr>"] by simp

end
