(* ===== verification/PyValue.thy ===== *)
theory PyValue
  imports Binary64
begin

text \<open>
  The dynamically typed values the program reads out of JSON columns, feeds and settings
  (\<open>None\<close>, booleans, integers, floats, strings, lists and dictionaries), with the parts of
  Python's object protocol the code uses on them: truth, \<open>str\<close> and \<open>repr\<close>,
  \<open>dict.get\<close> and the \<open>x or y\<close> idiom.
\<close>

datatype jval =
    JNull
  | JBool bool
  | JInt int
  | JFloat rat
  | JStr string
  | JList "jval list"
  | JObj "(string \<times> jval) list"

datatype py_error = TypeError | ValueError | KeyError | IndexError | AttributeError | OverflowError

type_synonym jobj = "(string, jval) odict"

subsection \<open>Truth and lookup\<close>

fun truthy :: "jval \<Rightarrow> bool" where
  "truthy JNull = False"
| "truthy (JBool b) = b"
| "truthy (JInt i) = (i \<noteq> 0)"
| "truthy (JFloat x) = (x \<noteq> 0)"
| "truthy (JStr s) = (s \<noteq> [])"
| "truthy (JList xs) = (xs \<noteq> [])"
| "truthy (JObj d) = (d \<noteq> [])"

text \<open>\<open>d.get(k)\<close>; a missing key reads as \<open>None\<close>.\<close>

definition jget :: "jobj \<Rightarrow> string \<Rightarrow> jval" where
  "jget d k = (case dict_get d k of Some v \<Rightarrow> v | None \<Rightarrow> JNull)"

definition jor :: "jval \<Rightarrow> jval \<Rightarrow> jval" where
  "jor a b = (if truthy a then a else b)"

fun as_obj :: "jval \<Rightarrow> jobj" where
  "as_obj (JObj d) = d"
| "as_obj _ = []"

subsection \<open>Text of a float: the shortest digits that read back\<close>

text \<open>\<open>dec_pos x\<close> is the \<open>k\<close> with \<open>10 ^ (k - 1) \<le> x < 10 ^ k\<close>, found within the given fuel.\<close>

definition pow10 :: "int \<Rightarrow> rat" where
  "pow10 e = (if 0 \<le> e then of_int (10 ^ nat e) else 1 / of_int (10 ^ nat (- e)))"

fun dec_pos :: "nat \<Rightarrow> int \<Rightarrow> rat \<Rightarrow> int" where
  "dec_pos 0 k x = k"
| "dec_pos (Suc n) k x =
     (if x < pow10 (k - 1) then dec_pos n (k - 1) x
      else if pow10 k \<le> x then dec_pos n (k + 1) x else k)"

fun shortest :: "nat \<Rightarrow> int \<Rightarrow> int \<Rightarrow> rat \<Rightarrow> int \<times> int" where
  "shortest 0 d k x = (rhe (x / pow10 (k - d)), d)"
| "shortest (Suc n) d k x =
     (let m = rhe (x / pow10 (k - d)) in
      if fl (of_int m * pow10 (k - d)) = x then (m, d) else shortest n (d + 1) k x)"

definition repr_pos :: "rat \<Rightarrow> string" where
  "repr_pos x =
     (let k0 = dec_pos 700 1 x; (m0, d0) = shortest 16 1 k0 x;
          full = str_int m0;
          k = k0 + (int (length full) - d0);
          ds = rstrip_by (\<lambda>c. c = CHR ''0'') full
      in if - 4 < k \<and> k \<le> 16 then
           (if k \<le> 0 then ''0.'' @ replicate (nat (- k)) (CHR ''0'') @ ds
            else if int (length ds) \<le> k then ds @ replicate (nat k - length ds) (CHR ''0'') @ ''.0''
            else take (nat k) ds @ ''.'' @ drop (nat k) ds)
         else
           (let e = k - 1; t = str_nat (nat \<bar>e\<bar>) in
              hd ds # (if length ds = 1 then [] else ''.'' @ tl ds) @ ''e'' @
              (if e < 0 then ''-'' else ''+'') @ (if length t = 1 then CHR ''0'' # t else t)))"

definition repr_float :: "rat \<Rightarrow> string" where
  "repr_float x =
     (if x = 0 then ''0.0'' else if x < 0 then CHR ''-'' # repr_pos (- x) else repr_pos x)"

subsection \<open>str and repr\<close>

definition hex_char :: "nat \<Rightarrow> char" where
  "hex_char n = (if n < 10 then digit_char n else char_of (87 + n))"

definition repr_char :: "char \<Rightarrow> char \<Rightarrow> string" where
  "repr_char q c =
     (if c = q \<or> ordc c = 92 then [char_of (92::nat), c]
      else if ordc c = 10 then [char_of (92::nat), CHR ''n'']
      else if ordc c = 13 then [char_of (92::nat), CHR ''r'']
      else if ordc c = 9 then [char_of (92::nat), CHR ''t'']
      else if ordc c < 32 \<or> ordc c = 127
        then [char_of (92::nat), CHR ''x'', hex_char (ordc c div 16), hex_char (ordc c mod 16)]
      else [c])"

definition repr_str :: "string \<Rightarrow> string" where
  "repr_str s =
     (let q = (if char_of (39::nat) \<in> set s \<and> char_of (34::nat) \<notin> set s
               then char_of (34::nat) else char_of (39::nat))
      in q # concat (map (repr_char q) s) @ [q])"

fun py_repr :: "jval \<Rightarrow> string" where
  "py_repr JNull = ''None''"
| "py_repr (JBool b) = (if b then ''True'' else ''False'')"
| "py_repr (JInt i) = str_int i"
| "py_repr (JFloat x) = repr_float x"
| "py_repr (JStr s) = repr_str s"
| "py_repr (JList xs) = ''['' @ join_with '', '' (map py_repr xs) @ '']''"
| "py_repr (JObj d) =
     CHR 0x7B # join_with '', '' (map (\<lambda>(k, v). repr_str k @ '': '' @ py_repr v) d) @ [CHR 0x7D]"

fun py_str :: "jval \<Rightarrow> string" where
  "py_str (JStr s) = s"
| "py_str v = py_repr v"

text \<open>\<open>str(x or default)\<close>.\<close>

definition str_or :: "jval \<Rightarrow> string \<Rightarrow> string" where
  "str_or v d = py_str (jor v (JStr d))"

lemma str_or_JStr: "str_or (JStr s) d = (if s = [] then d else s)"
  by (simp add: str_or_def jor_def)

lemma str_or_JNull [simp]: "str_or JNull d = d"
  by (simp add: str_or_def jor_def)

lemma jget_Nil [simp]: "jget [] k = JNull"
  by (simp add: jget_def)

lemma jget_Cons [simp]: "jget ((k', v) # d) k = (if k = k' then v else jget d k)"
  by (simp add: jget_def)

subsection \<open>Iteration and numbers\<close>

text \<open>\<open>for x in v\<close>: lists, the characters of a string, the keys of a dictionary.\<close>

fun iter_of :: "jval \<Rightarrow> py_error + jval list" where
  "iter_of (JList xs) = Inr xs"
| "iter_of (JStr s) = Inr (map (\<lambda>c. JStr [c]) s)"
| "iter_of (JObj d) = Inr (map (JStr \<circ> fst) d)"
| "iter_of _ = Inl TypeError"

text \<open>The number a value is in an ordering comparison (\<open>True\<close> counts as 1).\<close>

fun num_of :: "jval \<Rightarrow> rat option" where
  "num_of (JBool b) = Some (if b then 1 else 0)"
| "num_of (JInt i) = Some (of_int i)"
| "num_of (JFloat x) = Some x"
| "num_of _ = None"

text \<open>
  \<open>int(v)\<close> and \<open>float(v)\<close>.  The text of a float is a sign, digits with an optional point and an
  optional exponent; the spellings of infinity and NaN read as \<open>NotFinite\<close>.
\<close>

definition trunc_rat :: "rat \<Rightarrow> int" where
  "trunc_rat x = (if 0 \<le> x then \<lfloor>x\<rfloor> else \<lceil>x\<rceil>)"

fun to_int :: "jval \<Rightarrow> py_error + int" where
  "to_int (JInt i) = Inr i"
| "to_int (JBool b) = Inr (if b then 1 else 0)"
| "to_int (JFloat x) = Inr (trunc_rat x)"
| "to_int (JStr s) = (case py_int s of Some i \<Rightarrow> Inr i | None \<Rightarrow> Inl ValueError)"
| "to_int _ = Inl TypeError"

datatype py_float = NotFinite | Finite rat

definition signed :: "string \<Rightarrow> bool \<times> string" where
  "signed s = (case s of c # cs \<Rightarrow> if c = CHR ''-'' then (True, cs) else if c = CHR ''+'' then (False, cs) else (False, s)
     | [] \<Rightarrow> (False, []))"

definition decimal_of :: "string \<Rightarrow> rat option" where
  "decimal_of s =
     (let (whole, point, frac) = partition_on (CHR ''.'') s in
      if (whole \<noteq> [] \<or> frac \<noteq> []) \<and> (whole = [] \<or> underscore_ok whole) \<and> (frac = [] \<or> underscore_ok frac)
      then let d = filter is_digit frac in
        Some (of_int (int_of_digits (filter is_digit whole @ d)) / of_int (10 ^ length d))
      else None)"

text \<open>The least integer that rounds past the largest double.\<close>

definition float_limit :: int where "float_limit = 2 ^ 1024 - 2 ^ 970"

definition float_of_str :: "string \<Rightarrow> py_float option" where
  "float_of_str s =
     (let (neg, body) = signed (py_lower (py_strip s)) in
      if body \<in> {''inf'', ''infinity'', ''nan''} then Some NotFinite
      else let (mant, e, ex) = partition_on (CHR ''e'') body; (eneg, eds) = signed ex in
        case decimal_of mant of None \<Rightarrow> None
        | Some m \<Rightarrow>
          if e \<and> \<not> underscore_ok eds then None
          else let k = (if e then int_of_digits (filter is_digit eds) else 0);
                   x = m * pow10 (if eneg then - k else k) in
            if x \<ge> of_int float_limit then Some NotFinite else Some (Finite (fl (if neg then - x else x))))"

fun to_float :: "jval \<Rightarrow> py_error + py_float" where
  "to_float (JInt i) = (if \<bar>i\<bar> \<ge> float_limit then Inl OverflowError else Inr (Finite (fl (of_int i))))"
| "to_float (JBool b) = Inr (Finite (if b then 1 else 0))"
| "to_float (JFloat x) = Inr (Finite x)"
| "to_float (JStr s) = (case float_of_str s of Some x \<Rightarrow> Inr x | None \<Rightarrow> Inl ValueError)"
| "to_float _ = Inl TypeError"

lemma to_float_JInt_small [simp]: "\<bar>i\<bar> < 2 ^ 53 \<Longrightarrow> to_float (JInt i) = Inr (Finite (of_int i))"
  by (simp add: fl_of_int float_limit_def)

subsection \<open>Date and time\<close>

text \<open>
  A \<open>datetime\<close> is a number of microseconds since the epoch, read on its own wall clock when
  it carries no zone and as a UTC instant when it does.  \<open>aware\<close> is the normalization every
  comparison of the program goes through: a naive value is taken to be UTC.
\<close>

datatype py_datetime = Naive int | Aware int

fun aware :: "py_datetime \<Rightarrow> int" where
  "aware (Naive t) = t"
| "aware (Aware t) = t"

definition seconds :: "int \<Rightarrow> int" where
  "seconds n = n * 1000000"

definition minutes :: "int \<Rightarrow> int" where
  "minutes n = seconds (n * 60)"

definition days_us :: "int \<Rightarrow> int" where
  "days_us n = seconds (n * 86400)"

end
