(* ===== verification/GatePolicy.thy ===== *)
theory GatePolicy
  imports PyValue
begin

text \<open>
  \<open>guardian_core/policy.py\<close>: the deployment gate.  Rules are dictionaries read from a
  project's policy, so they are \<open>jval\<close>s here, and a rule that compares values of
  incomparable types raises.  \<open>evaluate_gate\<close> blocks a build when any open finding matches
  any rule.
\<close>

subsection \<open>State\<close>

record gate_finding =
  gf_id :: string
  gf_title :: string
  gf_severity :: string
  gf_risk_score :: "int option"
  gf_epss_score :: "rat option"
  gf_kev :: bool
  gf_status :: string

record blocking_entry =
  be_id :: string
  be_title :: string
  be_severity :: string
  be_rule :: jval

record gate_result =
  gr_passed :: bool
  gr_blocking :: "blocking_entry list"
  gr_rule_hits :: "string list"

definition DEFAULT_RULES :: jobj where
  "DEFAULT_RULES = [(''fail_on'', JList
     [JObj [(''severity'', JStr ''critical'')],
      JObj [(''severity'', JStr ''high''), (''epss_gt'', JFloat (1/2))],
      JObj [(''kev'', JBool True)]])]"

definition OPEN_STATES :: "string set" where
  "OPEN_STATES = {''open'', ''triaged'', ''confirmed''}"

subsection \<open>One rule\<close>

definition lt_num :: "rat \<Rightarrow> jval \<Rightarrow> py_error + bool" where
  "lt_num x v = (case num_of v of Some y \<Rightarrow> Inr (x < y) | None \<Rightarrow> Inl TypeError)"

definition le_num :: "rat \<Rightarrow> jval \<Rightarrow> py_error + bool" where
  "le_num x v = (case num_of v of Some y \<Rightarrow> Inr (x \<le> y) | None \<Rightarrow> Inl TypeError)"

definition match_severity :: "gate_finding \<Rightarrow> jobj \<Rightarrow> bool" where
  "match_severity f rule = (case dict_get rule ''severity'' of
     Some v \<Rightarrow> v = JStr (gf_severity f) | None \<Rightarrow> True)"

definition match_risk :: "gate_finding \<Rightarrow> jobj \<Rightarrow> py_error + bool" where
  "match_risk f rule = (case dict_get rule ''risk_gte'' of
     None \<Rightarrow> Inr True
   | Some v \<Rightarrow> map_sum id Not
       (lt_num (of_int (case gf_risk_score f of Some r \<Rightarrow> r | None \<Rightarrow> 0)) v))"

definition match_epss :: "gate_finding \<Rightarrow> jobj \<Rightarrow> py_error + bool" where
  "match_epss f rule = (case dict_get rule ''epss_gt'' of
     None \<Rightarrow> Inr True
   | Some v \<Rightarrow> (case gf_epss_score f of
        None \<Rightarrow> Inr False
      | Some e \<Rightarrow> map_sum id Not (le_num e v)))"

definition match_kev :: "gate_finding \<Rightarrow> jobj \<Rightarrow> bool" where
  "match_kev f rule \<longleftrightarrow> \<not> (truthy (jget rule ''kev'') \<and> \<not> gf_kev f)"

fun matches :: "gate_finding \<Rightarrow> jval \<Rightarrow> py_error + bool" where
  "matches f (JObj rule) =
     (if \<not> match_severity f rule then Inr False
      else (case match_risk f rule of Inl e \<Rightarrow> Inl e
        | Inr False \<Rightarrow> Inr False
        | Inr True \<Rightarrow> (case match_epss f rule of Inl e \<Rightarrow> Inl e
            | Inr False \<Rightarrow> Inr False
            | Inr True \<Rightarrow> Inr (match_kev f rule))))"
| "matches f _ = Inl TypeError"

subsection \<open>The gate\<close>

text \<open>The inner loop: the first rule that matches, if any.\<close>

fun first_match :: "gate_finding \<Rightarrow> jval list \<Rightarrow> py_error + jval option" where
  "first_match f [] = Inr None"
| "first_match f (r # rs) = (case matches f r of
     Inl e \<Rightarrow> Inl e
   | Inr True \<Rightarrow> Inr (Some r)
   | Inr False \<Rightarrow> first_match f rs)"

definition entry_of :: "gate_finding \<Rightarrow> jval \<Rightarrow> blocking_entry" where
  "entry_of f r = \<lparr>be_id = gf_id f, be_title = gf_title f, be_severity = gf_severity f, be_rule = r\<rparr>"

definition hit_of :: "gate_finding \<Rightarrow> string" where
  "hit_of f = gf_severity f @ '':'' @ gf_title f"

fun gate_loop :: "jval \<Rightarrow> gate_finding list \<Rightarrow> py_error + (blocking_entry list \<times> string list)" where
  "gate_loop fail_on [] = Inr ([], [])"
| "gate_loop fail_on (f # fs) =
     (if gf_status f \<notin> OPEN_STATES then gate_loop fail_on fs
      else (case iter_of fail_on of Inl e \<Rightarrow> Inl e
        | Inr rules \<Rightarrow> (case first_match f rules of Inl e \<Rightarrow> Inl e
            | Inr None \<Rightarrow> gate_loop fail_on fs
            | Inr (Some r) \<Rightarrow> (case gate_loop fail_on fs of Inl e \<Rightarrow> Inl e
                | Inr (bs, hs) \<Rightarrow> Inr (entry_of f r # bs, hit_of f # hs)))))"

definition evaluate_gate :: "gate_finding list \<Rightarrow> jobj option \<Rightarrow> py_error + gate_result" where
  "evaluate_gate findings rules =
     (let rs = (case rules of Some d \<Rightarrow> if d = [] then DEFAULT_RULES else d | None \<Rightarrow> DEFAULT_RULES);
          fail_on = (case dict_get rs ''fail_on'' of Some v \<Rightarrow> v | None \<Rightarrow> JList [])
      in (case gate_loop fail_on findings of Inl e \<Rightarrow> Inl e
          | Inr (bs, hs) \<Rightarrow> Inr \<lparr>gr_passed = (bs = []), gr_blocking = bs, gr_rule_hits = hs\<rparr>))"

subsection \<open>Lemmas\<close>

lemma first_match_None:
  "first_match f rs = Inr None \<longleftrightarrow> (\<forall>r\<in>set rs. matches f r = Inr False)"
  by (induction rs) (auto split: sum.splits bool.splits)

lemma first_match_Some:
  "first_match f rs = Inr (Some r) \<Longrightarrow> r \<in> set rs \<and> matches f r = Inr True"
  by (induction rs) (auto split: sum.splits bool.splits)

definition blocks :: "jval list \<Rightarrow> gate_finding \<Rightarrow> bool" where
  "blocks rules f \<longleftrightarrow> gf_status f \<in> OPEN_STATES
     \<and> (\<exists>r. first_match f rules = Inr (Some r))"

lemma gate_loop_blocking:
  assumes "gate_loop fail_on fs = Inr (bs, hs)" and "iter_of fail_on = Inr rules"
  shows "map be_id bs = map gf_id (filter (blocks rules) fs)
    \<and> hs = map hit_of (filter (blocks rules) fs)
    \<and> (\<forall>b\<in>set bs. be_rule b \<in> set rules)"
  using assms
proof (induction fs arbitrary: bs hs)
  case (Cons f fs)
  show ?case
  proof (cases "blocks rules f")
    case True
    then obtain r where st: "gf_status f \<in> OPEN_STATES" and r: "first_match f rules = Inr (Some r)"
      by (auto simp: blocks_def)
    with Cons.prems obtain bs' hs' where "gate_loop fail_on fs = Inr (bs', hs')"
      and "bs = entry_of f r # bs'" "hs = hit_of f # hs'"
      by (auto split: sum.splits)
    with Cons.IH [of bs' hs'] Cons.prems(2) True first_match_Some [OF r] show ?thesis
      by (simp add: entry_of_def)
  next
    case False
    with Cons.prems have "gate_loop fail_on fs = Inr (bs, hs)"
      by (auto simp: blocks_def split: if_splits sum.splits option.splits)
    with Cons.IH [of bs hs] Cons.prems(2) False show ?thesis by simp
  qed
qed simp

lemma gate_loop_nil:
  assumes "gate_loop fail_on fs = Inr (bs, hs)" and "iter_of fail_on = Inr rules"
  shows "bs = [] \<longleftrightarrow> (\<forall>f\<in>set fs. gf_status f \<in> OPEN_STATES \<longrightarrow>
           (\<forall>r\<in>set rules. matches f r = Inr False))"
  using assms
proof (induction fs arbitrary: bs hs)
  case (Cons f fs)
  have "\<not> (\<forall>r\<in>set rules. matches f r = Inr False)" if "first_match f rules = Inr (Some r)" for r
    using first_match_Some [OF that] by (auto intro!: bexI [of _ r])
  moreover have "\<forall>r\<in>set rules. matches f r = Inr False" if "first_match f rules = Inr None"
    using that by (simp add: first_match_None)
  ultimately show ?case
    using Cons by (auto split: if_splits sum.splits option.splits)
qed simp

lemma default_match_total:
  "\<exists>b. matches f r = Inr b" if "r \<in> set [JObj [(''severity'', JStr ''critical'')],
      JObj [(''severity'', JStr ''high''), (''epss_gt'', JFloat (1/2))], JObj [(''kev'', JBool True)]]"
  using that
  by (auto simp: match_risk_def match_epss_def le_num_def split: option.splits bool.splits)

lemma gate_loop_total:
  assumes "iter_of fail_on = Inr rules"
    and "\<And>f r. f \<in> set fs \<Longrightarrow> r \<in> set rules \<Longrightarrow> \<exists>b. matches f r = Inr b"
  shows "\<exists>bs hs. gate_loop fail_on fs = Inr (bs, hs)"
proof -
  have first: "\<exists>m. first_match f rs = Inr m"
    if "\<And>r. r \<in> set rs \<Longrightarrow> \<exists>b. matches f r = Inr b" for f rs
    using that
  proof (induction rs)
    case (Cons r rs)
    then obtain b where "matches f r = Inr b" by auto
    with Cons show ?case by (cases b) auto
  qed simp
  show ?thesis
    using assms(2)
  proof (induction fs)
    case (Cons f fs)
    then obtain bs hs where IH: "gate_loop fail_on fs = Inr (bs, hs)" by auto
    obtain m where "first_match f rules = Inr m" using first [of rules f] Cons.prems by auto
    with IH assms(1) show ?case by (cases m) auto
  qed simp
qed

subsection \<open>Properties\<close>

text \<open>With any well-formed rule list, a gate evaluation that returns lists exactly the open
  findings that match a rule, in order and once each, and it passes if and only if no open finding
  matches any rule.\<close>

theorem gate_passes_iff:
  assumes "evaluate_gate fs (Some rules) = Inr res"
    and "dict_get rules ''fail_on'' = Some (JList rs)"
  shows "(gr_passed res \<longleftrightarrow> (\<forall>f\<in>set fs. gf_status f \<in> OPEN_STATES \<longrightarrow>
             (\<forall>r\<in>set rs. matches f r = Inr False)))
    \<and> map be_id (gr_blocking res) = map gf_id (filter (blocks rs) fs)
    \<and> gr_rule_hits res = map hit_of (filter (blocks rs) fs)"
proof -
  from assms have ne: "rules \<noteq> []" by auto
  obtain bs hs where run: "gate_loop (JList rs) fs = Inr (bs, hs)"
    and res: "res = \<lparr>gr_passed = (bs = []), gr_blocking = bs, gr_rule_hits = hs\<rparr>"
    using assms ne by (auto simp: evaluate_gate_def Let_def split: sum.splits)
  show ?thesis
    using gate_loop_blocking [OF run] gate_loop_nil [OF run] by (simp add: res)
qed

definition sample_finding :: gate_finding where
  "sample_finding = \<lparr>gf_id = ''f1'', gf_title = ''RCE'', gf_severity = ''high'',
     gf_risk_score = Some 80, gf_epss_score = Some (3/4), gf_kev = False, gf_status = ''open''\<rparr>"

theorem gate_passes_iff_witness:
  "evaluate_gate [sample_finding] (Some DEFAULT_RULES)
     = Inr \<lparr>gr_passed = False,
            gr_blocking = [entry_of sample_finding
              (JObj [(''severity'', JStr ''high''), (''epss_gt'', JFloat (1/2))])],
            gr_rule_hits = [''high:RCE'']\<rparr>
   \<and> map gf_id (filter (blocks [JObj [(''severity'', JStr ''critical'')],
       JObj [(''severity'', JStr ''high''), (''epss_gt'', JFloat (1/2))],
       JObj [(''kev'', JBool True)]]) [sample_finding]) = [''f1'']"
proof -
  have run: "evaluate_gate [sample_finding] (Some DEFAULT_RULES)
     = Inr \<lparr>gr_passed = False,
            gr_blocking = [entry_of sample_finding
              (JObj [(''severity'', JStr ''high''), (''epss_gt'', JFloat (1/2))])],
            gr_rule_hits = [''high:RCE'']\<rparr>"
    by (simp add: evaluate_gate_def DEFAULT_RULES_def sample_finding_def OPEN_STATES_def
        match_severity_def match_risk_def match_epss_def match_kev_def le_num_def jget_def
        entry_of_def hit_of_def)
  show ?thesis
    using gate_passes_iff [OF run, of "[JObj [(''severity'', JStr ''critical'')],
       JObj [(''severity'', JStr ''high''), (''epss_gt'', JFloat (1/2))],
       JObj [(''kev'', JBool True)]]"] run
    by (simp add: DEFAULT_RULES_def entry_of_def sample_finding_def)
qed

text \<open>The findings the built-in gate is meant to stop.\<close>

definition default_blocks :: "gate_finding \<Rightarrow> bool" where
  "default_blocks f \<longleftrightarrow> gf_status f \<in> OPEN_STATES
     \<and> (gf_severity f = ''critical'' \<or> gf_kev f
        \<or> gf_severity f = ''high'' \<and> (case gf_epss_score f of Some e \<Rightarrow> 1/2 < e | None \<Rightarrow> False))"

text \<open>The built-in gate always returns a verdict, and it is fail-safe: it passes exactly when
  no open finding is critical, is high with an EPSS above one half, or is known exploited.\<close>

theorem default_gate_verdict:
  "\<exists>res. evaluate_gate fs None = Inr res \<and> gr_passed res = (\<not> list_ex default_blocks fs)"
proof -
  define rs where "rs = [JObj [(''severity'', JStr ''critical'')],
      JObj [(''severity'', JStr ''high''), (''epss_gt'', JFloat (1/2))], JObj [(''kev'', JBool True)]]"
  have it: "iter_of (JList rs) = Inr rs" by simp
  have tot: "\<And>f r. f \<in> set fs \<Longrightarrow> r \<in> set rs \<Longrightarrow> \<exists>b. matches f r = Inr b"
    using default_match_total unfolding rs_def by blast
  obtain bs hs where run: "gate_loop (JList rs) fs = Inr (bs, hs)"
    using gate_loop_total [OF it tot] by blast
  have ev: "evaluate_gate fs None
      = Inr \<lparr>gr_passed = (bs = []), gr_blocking = bs, gr_rule_hits = hs\<rparr>"
    using run by (simp add: evaluate_gate_def DEFAULT_RULES_def rs_def)
  have m: "(\<forall>r\<in>set rs. matches f r = Inr False) \<longleftrightarrow> gf_severity f \<noteq> ''critical'' \<and> \<not> gf_kev f
        \<and> \<not> (gf_severity f = ''high'' \<and> (\<exists>e. gf_epss_score f = Some e \<and> 1/2 < e))" for f
    by (cases "gf_epss_score f")
      (auto simp: rs_def match_severity_def match_risk_def match_epss_def match_kev_def le_num_def jget_def)
  show ?thesis
    unfolding ev using gate_loop_nil [OF run it] m
    by (auto simp: list_ex_iff default_blocks_def split: option.splits)
qed

end
