(* ===== verification/ToolPolicy.thy ===== *)
theory ToolPolicy
  imports PyValue Enums
begin

text \<open>
  \<open>guardian_core/tool.py\<close>, \<open>capability.py\<close> and \<open>rbac.py\<close>: what a security tool declares,
  how the control plane narrows an authorization to the scope the tool may touch, the
  pre-execution policy, the governance level derived from the declared primitives, and the role
  ceilings.  The wire format that carries a job to the database-less execution plane is here too.
\<close>

subsection \<open>Contracts\<close>

record tool_capabilities =
  tc_category :: string
  tc_network :: bool
  tc_active :: bool
  tc_destructive :: bool
  tc_requires_authorization :: bool
  tc_requires_human_approval :: bool
  tc_supported_targets :: "string list"
  tc_ports :: "int list"
  tc_protocols :: "string list"

record effective_scope =
  es_targets :: "string list"
  es_ports :: "int list"
  es_protocols :: "string list"
  es_network_allowed :: bool
  es_read_only :: bool

record tool_job =
  tj_tenant_id :: string
  tj_job_id :: string
  tj_tool_key :: string
  tj_scope :: effective_scope
  tj_settings :: jobj

record raw_evidence =
  re_tool :: string
  re_execution_id :: string
  re_target :: string
  re_kind :: string
  re_data :: jobj
  re_provenance :: jobj
  re_confidence :: jval
  re_occurred_at :: jval

datatype policy_reason = NoInScopeTarget | DestructiveNeedsApproval | ActiveNeedsApproval

record policy_decision =
  pd_allowed :: bool
  pd_requires_human_approval :: bool
  pd_reasons :: "policy_reason list"

text \<open>The four keys of the policy dictionary that the narrowing reads.\<close>

record tool_policy =
  tp_ports :: "int list option"
  tp_protocols :: "string list option"
  tp_network :: "jval option"
  tp_allow_destructive :: jval

definition empty_policy :: tool_policy where
  "empty_policy = \<lparr>tp_ports = None, tp_protocols = None, tp_network = None,
     tp_allow_destructive = JBool False\<rparr>"

subsection \<open>Narrowing\<close>

definition sorted_set :: "'a::linorder list \<Rightarrow> 'a list" where
  "sorted_set xs = sort (remdups xs)"

definition narrow :: "'a list \<Rightarrow> 'a list option \<Rightarrow> 'a list" where
  "narrow cap_values policy_values = (case policy_values of
       None \<Rightarrow> cap_values | Some ps \<Rightarrow> filter (\<lambda>v. v \<in> set ps) cap_values)"

definition derive_effective_scope ::
  "string list \<Rightarrow> string list \<Rightarrow> tool_capabilities \<Rightarrow> tool_policy option \<Rightarrow> effective_scope" where
  "derive_effective_scope requested authorized caps pol =
     (let p = (case pol of Some q \<Rightarrow> q | None \<Rightarrow> empty_policy);
          req = (if requested \<noteq> [] then requested else authorized)
      in \<lparr>es_targets = sorted_set (filter (\<lambda>t. t \<in> set authorized) req),
          es_ports = sorted_set (narrow (tc_ports caps) (tp_ports p)),
          es_protocols = sorted_set (narrow (tc_protocols caps) (tp_protocols p)),
          es_network_allowed = (tc_network caps \<and> tp_network p \<noteq> Some (JBool False)),
          es_read_only = (\<not> (tc_destructive caps \<and> truthy (tp_allow_destructive p)))\<rparr>)"

definition evaluate_tool_policy ::
  "tool_capabilities \<Rightarrow> effective_scope \<Rightarrow> bool \<Rightarrow> policy_decision" where
  "evaluate_tool_policy caps scope human_approved =
     (let no_target = (tc_requires_authorization caps \<and> es_targets scope = []);
          destr = (tc_destructive caps \<and> \<not> es_read_only scope);
          risky = ((tc_active caps \<or> tc_network caps) \<and> tc_requires_human_approval caps)
      in \<lparr>pd_allowed = (\<not> no_target \<and> \<not> (destr \<and> \<not> human_approved) \<and> \<not> (risky \<and> \<not> human_approved)),
          pd_requires_human_approval = (destr \<or> risky),
          pd_reasons = (if no_target then [NoInScopeTarget] else [])
            @ (if destr \<and> \<not> human_approved then [DestructiveNeedsApproval] else [])
            @ (if risky \<and> \<not> human_approved then [ActiveNeedsApproval] else [])\<rparr>)"

subsection \<open>Wire format\<close>

definition scope_to_wire :: "effective_scope \<Rightarrow> jobj" where
  "scope_to_wire s =
     [(''targets'', JList (map JStr (es_targets s))), (''ports'', JList (map JInt (es_ports s))),
      (''protocols'', JList (map JStr (es_protocols s))),
      (''network_allowed'', JBool (es_network_allowed s)), (''read_only'', JBool (es_read_only s))]"

text \<open>
  Reading back: a list field is \<open>tuple(d.get(k) or [])\<close>.  The typed record can hold only
  elements of the field's type, so a list with an element of another type has no image: \<open>None\<close>.
\<close>

fun un_str :: "jval \<Rightarrow> string option" where
  "un_str (JStr s) = Some s"
| "un_str _ = None"

fun un_int :: "jval \<Rightarrow> int option" where
  "un_int (JInt i) = Some i"
| "un_int _ = None"

fun all_some :: "'a option list \<Rightarrow> 'a list option" where
  "all_some [] = Some []"
| "all_some (x # xs) = (case x of None \<Rightarrow> None | Some y \<Rightarrow> map_option ((#) y) (all_some xs))"

definition list_field :: "(jval \<Rightarrow> 'a option) \<Rightarrow> jobj \<Rightarrow> string \<Rightarrow> 'a list option" where
  "list_field un d k =
     (let v = jor (jget d k) (JList []) in
      case v of JList xs \<Rightarrow> all_some (map un xs) | _ \<Rightarrow> None)"

definition scope_from_wire :: "jobj \<Rightarrow> effective_scope option" where
  "scope_from_wire d =
     (case (list_field un_str d ''targets'', list_field un_int d ''ports'',
            list_field un_str d ''protocols'') of
        (Some ts, Some ps, Some prs) \<Rightarrow>
          Some \<lparr>es_targets = ts, es_ports = ps, es_protocols = prs,
                es_network_allowed = truthy (jget d ''network_allowed''),
                es_read_only = truthy (case dict_get d ''read_only'' of
                  Some v \<Rightarrow> v | None \<Rightarrow> JBool True)\<rparr>
      | _ \<Rightarrow> None)"

definition job_to_wire :: "tool_job \<Rightarrow> jobj" where
  "job_to_wire j = [(''tenant_id'', JStr (tj_tenant_id j)), (''job_id'', JStr (tj_job_id j)),
     (''tool_key'', JStr (tj_tool_key j)), (''scope'', JObj (scope_to_wire (tj_scope j))),
     (''settings'', JObj (tj_settings j))]"

definition obj_field :: "jobj \<Rightarrow> string \<Rightarrow> jobj option" where
  "obj_field d k = (case jor (jget d k) (JObj []) of JObj o' \<Rightarrow> Some o' | _ \<Rightarrow> None)"

definition str_field :: "jobj \<Rightarrow> string \<Rightarrow> string option" where
  "str_field d k = Option.bind (dict_get d k) un_str"

definition job_from_wire :: "jobj \<Rightarrow> tool_job option" where
  "job_from_wire d =
     (case (str_field d ''tenant_id'', str_field d ''job_id'', str_field d ''tool_key'',
            dict_get d ''scope'', obj_field d ''settings'') of
        (Some t, Some j, Some k, Some (JObj s), Some st) \<Rightarrow>
          (case scope_from_wire s of None \<Rightarrow> None
           | Some sc \<Rightarrow> Some \<lparr>tj_tenant_id = t, tj_job_id = j, tj_tool_key = k,
                              tj_scope = sc, tj_settings = st\<rparr>)
      | _ \<Rightarrow> None)"

definition evidence_to_wire :: "raw_evidence \<Rightarrow> jobj" where
  "evidence_to_wire e = [(''tool'', JStr (re_tool e)), (''execution_id'', JStr (re_execution_id e)),
     (''target'', JStr (re_target e)), (''kind'', JStr (re_kind e)), (''data'', JObj (re_data e)),
     (''provenance'', JObj (re_provenance e)), (''confidence'', re_confidence e),
     (''occurred_at'', re_occurred_at e)]"

definition evidence_from_wire :: "jobj \<Rightarrow> raw_evidence option" where
  "evidence_from_wire d =
     (case (str_field d ''tool'', str_field d ''execution_id'', str_field d ''target'',
            str_field d ''kind'', obj_field d ''data'', obj_field d ''provenance'') of
        (Some t, Some x, Some g, Some k, Some dt, Some pv) \<Rightarrow>
          Some \<lparr>re_tool = t, re_execution_id = x, re_target = g, re_kind = k, re_data = dt,
                re_provenance = pv,
                re_confidence = (case dict_get d ''confidence'' of Some v \<Rightarrow> v | None \<Rightarrow> JInt 90),
                re_occurred_at = (case dict_get d ''occurred_at'' of Some v \<Rightarrow> v | None \<Rightarrow> JStr [])\<rparr>
      | _ \<Rightarrow> None)"

subsection \<open>Capability levels\<close>

datatype capability_level =
    PassiveAnalysis | PassiveNetwork | ActiveRecon | Sensitive | ExploitValidation | Destructive

primrec level_num :: "capability_level \<Rightarrow> int" where
  "level_num PassiveAnalysis = 0"
| "level_num PassiveNetwork = 1"
| "level_num ActiveRecon = 2"
| "level_num Sensitive = 3"
| "level_num ExploitValidation = 4"
| "level_num Destructive = 5"

definition EXPLOIT_CATEGORIES :: "string set" where
  "EXPLOIT_CATEGORIES = {''exploit'', ''exploit_validation''}"

definition SENSITIVE_CATEGORIES :: "string set" where
  "SENSITIVE_CATEGORIES = {''credential'', ''auth_testing'', ''credential_testing'', ''web_checks''}"

definition derive_capability_level :: "tool_capabilities \<Rightarrow> capability_level" where
  "derive_capability_level caps =
     (if tc_destructive caps then Destructive
      else let category = py_lower (tc_category caps) in
        if category \<in> EXPLOIT_CATEGORIES then ExploitValidation
        else if category \<in> SENSITIVE_CATEGORIES then Sensitive
        else if tc_active caps then ActiveRecon
        else if tc_network caps then PassiveNetwork
        else PassiveAnalysis)"

definition level_requires_campaign :: "capability_level \<Rightarrow> bool" where
  "level_requires_campaign l \<longleftrightarrow> level_num Sensitive \<le> level_num l"

definition STAFF_ROLE_CEILING :: "(string, capability_level option) odict" where
  "STAFF_ROLE_CEILING =
     [(staff_role_value StaffOwner, Some ActiveRecon),
      (staff_role_value StaffAdmin, Some ActiveRecon),
      (staff_role_value StaffPentester, Some ActiveRecon),
      (staff_role_value StaffAnalyst, Some PassiveAnalysis),
      (staff_role_value StaffReviewer, None)]"

definition role_ceiling :: "string \<Rightarrow> capability_level option" where
  "role_ceiling role = (case dict_get STAFF_ROLE_CEILING role of Some c \<Rightarrow> c | None \<Rightarrow> None)"

subsection \<open>Lemmas\<close>

lemma set_sorted_set [simp]: "set (sorted_set xs) = set xs"
  by (simp add: sorted_set_def)

lemma sorted_set_ok [simp]: "sorted (sorted_set xs)" "distinct (sorted_set xs)"
  by (simp_all add: sorted_set_def)

lemma set_narrow: "set (narrow cs ps) = set cs \<inter> (case ps of None \<Rightarrow> UNIV | Some qs \<Rightarrow> set qs)"
  by (auto simp: narrow_def split: option.splits)

lemma all_some_map_Some [simp]: "all_some (map (un \<circ> f) xs) = Some xs" if "\<And>x. un (f x) = Some x"
  using that by (induction xs) auto

lemma list_field_JStr [simp]:
  "jget d k = JList (map JStr ts) \<Longrightarrow> list_field un_str d k = Some ts"
  by (cases ts) (simp_all add: list_field_def jor_def comp_def [symmetric])

lemma list_field_JInt [simp]:
  "jget d k = JList (map JInt ts) \<Longrightarrow> list_field un_int d k = Some ts"
  by (cases ts) (simp_all add: list_field_def jor_def comp_def [symmetric])

lemma obj_field_JObj: "jget d k = JObj x \<Longrightarrow> obj_field d k = Some x"
  by (cases x) (simp_all add: obj_field_def jor_def)

lemma scope_roundtrip: "scope_from_wire (scope_to_wire s) = Some s"
  by (simp add: scope_from_wire_def scope_to_wire_def)

lemma role_ceiling_le2: "role_ceiling r = Some l \<Longrightarrow> level_num l \<le> 2"
  by (auto simp: role_ceiling_def STAFF_ROLE_CEILING_def split: if_splits)

lemma level_num_range: "0 \<le> level_num l \<and> level_num l \<le> 5"
  by (cases l) simp_all

subsection \<open>Properties\<close>

text \<open>A tool can never widen its reach.  Whatever was requested and whatever the policy says,
  the derived targets are a subset of the authorized targets (and of the requested ones when any
  were requested), ports and protocols are a subset of what the tool declares and of what the
  policy lists, and network access needs the capability.\<close>

theorem scope_only_narrows:
  "let s = derive_effective_scope requested authorized caps (Some p) in
    set (es_targets s) \<subseteq> set authorized
    \<and> (requested = [] \<or> set (es_targets s) \<subseteq> set requested)
    \<and> set (es_ports s) \<subseteq> set (tc_ports caps)
    \<and> set (es_protocols s) \<subseteq> set (tc_protocols caps)
    \<and> (tp_ports p = None \<or> set (es_ports s) \<subseteq> set (the (tp_ports p)))
    \<and> (tp_protocols p = None \<or> set (es_protocols s) \<subseteq> set (the (tp_protocols p)))
    \<and> es_network_allowed s \<le> tc_network caps
    \<and> sorted (es_targets s) \<and> distinct (es_targets s)"
  by (auto simp: derive_effective_scope_def Let_def set_narrow split: option.splits)

text \<open>No tool ever writes to a target without an explicit human decision: an allowed run of a
  destructive tool is either read-only in scope or was approved by a human, in a policy that
  allows destructive work; and a tool that needs an authorization never runs without a target.\<close>

theorem allowed_destructive_is_approved:
  assumes "pd_allowed (evaluate_tool_policy caps
      (derive_effective_scope requested authorized caps pol) human_approved)"
  shows "let s = derive_effective_scope requested authorized caps pol in
    (tc_destructive caps \<longrightarrow> es_read_only s \<or>
           human_approved \<and> (\<exists>p. pol = Some p \<and> truthy (tp_allow_destructive p)))
    \<and> (tc_requires_authorization caps \<longrightarrow> es_targets s \<noteq> [] \<and> set (es_targets s) \<subseteq> set authorized)
    \<and> (tc_active caps \<and> tc_requires_human_approval caps \<longrightarrow> human_approved)"
  using assms
  by (auto simp: derive_effective_scope_def evaluate_tool_policy_def Let_def empty_policy_def
      split: option.splits)

definition sample_caps :: tool_capabilities where
  "sample_caps = \<lparr>tc_category = ''exploit'', tc_network = True, tc_active = True, tc_destructive = True,
     tc_requires_authorization = True, tc_requires_human_approval = True,
     tc_supported_targets = [''ip''], tc_ports = [443, 80], tc_protocols = [''tcp'']\<rparr>"

theorem allowed_destructive_is_approved_witness:
  "let s = derive_effective_scope [] [''a.example''] sample_caps
             (Some (empty_policy\<lparr>tp_allow_destructive := JBool True\<rparr>))
   in \<not> es_read_only s \<and> es_targets s \<noteq> [] \<and> set (es_targets s) \<subseteq> {''a.example''}"
  using allowed_destructive_is_approved [of sample_caps "[]" "[''a.example'']"
      "Some (empty_policy\<lparr>tp_allow_destructive := JBool True\<rparr>)" True]
  by (simp add: evaluate_tool_policy_def derive_effective_scope_def sample_caps_def empty_policy_def
      sorted_set_def)

text \<open>A job and the evidence it returns survive the boundary of the database-less execution
  plane unchanged: decoding the wire form gives the original record back.\<close>

theorem tool_wire_roundtrip:
  "job_from_wire (job_to_wire j) = Some j \<and> evidence_from_wire (evidence_to_wire e) = Some e"
  by (simp add: job_from_wire_def job_to_wire_def evidence_from_wire_def evidence_to_wire_def
      scope_roundtrip str_field_def obj_field_JObj)

end
