(* ===== verification/PyUuid.thy ===== *)
theory PyUuid
  imports PyValue
begin

text \<open>
  What the program uses of Python's \<open>uuid.UUID\<close>: a 128-bit identifier, read from text (with
  the spellings the constructor accepts) and written in the canonical 8-4-4-4-12 form.
\<close>

type_synonym uuid = int

definition hex_val :: "char \<Rightarrow> int option" where
  "hex_val c =
     (if is_digit c then Some (int (ordc c) - 48)
      else if 97 \<le> ordc c \<and> ordc c \<le> 102 then Some (int (ordc c) - 87)
      else if 65 \<le> ordc c \<and> ordc c \<le> 70 then Some (int (ordc c) - 55)
      else None)"

definition hex_digits_ok :: "string \<Rightarrow> bool" where
  "hex_digits_ok s \<longleftrightarrow> s \<noteq> [] \<and> list_all (\<lambda>c. hex_val c \<noteq> None) s"

definition hex_number :: "string \<Rightarrow> int" where
  "hex_number s = foldl (\<lambda>n c. 16 * n + (case hex_val c of Some v \<Rightarrow> v | None \<Rightarrow> 0)) 0 s"

text \<open>\<open>int(s, 16)\<close>: white space, sign, an optional \<open>0x\<close>, digits with single underscores.\<close>

definition py_int16 :: "string \<Rightarrow> int option" where
  "py_int16 s =
     (let t = py_strip s;
          neg = startswith t ''-'';
          u = (if neg \<or> startswith t ''+'' then tl t else t);
          pre = (startswith u ''0x'' \<or> startswith u ''0X'');
          v = (if pre then drop 2 u else u);
          parts = split_on (CHR ''_'') v;
          body = (if pre \<and> hd parts = [] \<and> 1 < length parts then tl parts else parts)
      in if list_all hex_digits_ok body
         then Some ((if neg then - 1 else 1) * hex_number (concat body)) else None)"

text \<open>\<open>str.replace(old, [])\<close> for a nonempty \<open>old\<close>, left to right.\<close>

function remove_all :: "string \<Rightarrow> string \<Rightarrow> string" where
  "remove_all old s =
     (if old = [] \<or> s = [] then s
      else if startswith s old then remove_all old (drop (length old) s)
      else hd s # remove_all old (tl s))"
  by pat_completeness auto
termination
  by (relation "measure (\<lambda>(old, s). length s)") auto

declare remove_all.simps [simp del]

definition is_brace :: "char \<Rightarrow> bool" where
  "is_brace c \<longleftrightarrow> ordc c = 123 \<or> ordc c = 125"

definition parse_uuid :: "string \<Rightarrow> uuid option" where
  "parse_uuid s =
     (let h = filter (\<lambda>c. c \<noteq> CHR ''-'')
                (strip_by is_brace (remove_all ''uuid:'' (remove_all ''urn:'' s)))
      in if length h \<noteq> 32 then None
         else (case py_int16 h of None \<Rightarrow> None
               | Some n \<Rightarrow> if 0 \<le> n \<and> n < 2 ^ 128 then Some n else None))"

fun hex_string :: "nat \<Rightarrow> int \<Rightarrow> string" where
  "hex_string 0 n = []"
| "hex_string (Suc k) n = hex_string k (n div 16) @ [hex_char (nat (n mod 16))]"

definition str_uuid :: "uuid \<Rightarrow> string" where
  "str_uuid u =
     (let h = hex_string 32 u in
      take 8 h @ ''-'' @ take 4 (drop 8 h) @ ''-'' @ take 4 (drop 12 h) @ ''-''
      @ take 4 (drop 16 h) @ ''-'' @ drop 20 h)"

end
