(* ===== verification/Governance.thy ===== *)
theory Governance
  imports ToolPolicy PyUuid
begin

text \<open>
  \<open>guardian_scanner/tools/governance.py\<close>: the control plane's decision whether an actor may run
  a tool of given capabilities in a tenant.  The database the resolver reads is a record of tables;
  a primary-key lookup (\<open>session.get\<close>) and a query on a unique key are \<open>find\<close>.  Deny
  reasons are constructors that carry the values the messages interpolate.
\<close>

subsection \<open>The tables\<close>

record platform_grant =
  pg_user_id :: uuid
  pg_revoked_at :: "py_datetime option"

record membership =
  tm_user_id :: uuid
  tm_tenant_id :: uuid
  tm_role :: string

record api_key_row =
  ak_id :: uuid
  ak_tenant_id :: uuid
  ak_scopes :: "string list"
  ak_revoked_at :: "py_datetime option"
  ak_expires_at :: "py_datetime option"

record capability_grant =
  cg_tenant_id :: uuid
  cg_subject_kind :: string
  cg_subject_ref :: string
  cg_max_level :: int
  cg_tool_allowlist :: "jval list option"
  cg_expires_at :: "py_datetime option"
  cg_revoked_at :: "py_datetime option"

record catalog_row =
  cat_key :: string
  cat_enabled :: bool

record campaign =
  cp_id :: uuid
  cp_tenant_id :: uuid
  cp_status :: string
  cp_max_capability_level :: int
  cp_starts_at :: "py_datetime option"
  cp_ends_at :: "py_datetime option"

record campaign_member =
  cm_campaign_id :: uuid
  cm_user_id :: uuid
  cm_role :: string

record approval =
  ap_id :: uuid
  ap_tenant_id :: uuid
  ap_campaign_id :: "uuid option"
  ap_provider_key :: "string option"
  ap_capability_level :: int
  ap_approver_id :: uuid
  ap_expires_at :: "py_datetime option"
  ap_revoked_at :: "py_datetime option"
  ap_consumed_at :: "py_datetime option"

record gov_db =
  setting_owner_ids :: string
  platform_grants :: "platform_grant list"
  memberships :: "membership list"
  api_keys :: "api_key_row list"
  capability_grants :: "capability_grant list"
  tool_catalog :: "catalog_row list"
  campaigns :: "campaign list"
  campaign_members :: "campaign_member list"
  approvals :: "approval list"

subsection \<open>The result\<close>

datatype principal_kind = PlatformOwner | StaffMember | Service | NoPrincipal

datatype gov_reason =
    MissingActor | InvalidActor | RoleMayNotExecute string | NoValidIdentity | NoCapabilityScope
  | ToolDisabled | SensitiveNotRegistered | ServiceCapped | PrincipalCapped int
  | NeedsCampaign | CampaignNotFound | CampaignNotActive string | CampaignNotStarted | CampaignEnded
  | CampaignLevel | NotOperator
  | NeedsApproval | ApprovalNotFound | ApprovalRevoked | ApprovalConsumed | ApprovalExpired
  | ApprovalLevel | ApprovalProvider | ApprovalCampaign | NeedsIndependentApprover

record governance_result =
  gov_allowed :: bool
  gov_principal :: principal_kind
  gov_actor :: "uuid option"
  gov_required :: int
  gov_reasons :: "gov_reason list"
  gov_approval_id :: "uuid option"

definition SERVICE_MAX :: int where "SERVICE_MAX = level_num ActiveRecon"
definition L3 :: int where "L3 = level_num Sensitive"
definition L4 :: int where "L4 = level_num ExploitValidation"

definition gov_deny :: "principal_kind \<Rightarrow> uuid option \<Rightarrow> int \<Rightarrow> gov_reason \<Rightarrow> governance_result" where
  "gov_deny kind actor level reason =
     \<lparr>gov_allowed = False, gov_principal = kind, gov_actor = actor, gov_required = level,
      gov_reasons = [reason], gov_approval_id = None\<rparr>"

definition gov_allow :: "principal_kind \<Rightarrow> uuid option \<Rightarrow> int \<Rightarrow> uuid option \<Rightarrow> governance_result" where
  "gov_allow kind actor level appr =
     \<lparr>gov_allowed = True, gov_principal = kind, gov_actor = actor, gov_required = level,
      gov_reasons = [], gov_approval_id = appr\<rparr>"

subsection \<open>Identity\<close>

definition platform_owner_ids :: "gov_db \<Rightarrow> string set" where
  "platform_owner_ids db =
     set (filter (\<lambda>x. x \<noteq> []) (map py_strip (split_on (CHR '','') (setting_owner_ids db))))"

definition is_platform_owner :: "gov_db \<Rightarrow> string \<Rightarrow> uuid option \<Rightarrow> bool" where
  "is_platform_owner db aid actor =
     (if aid \<in> platform_owner_ids db then True
      else (case actor of None \<Rightarrow> False
        | Some u \<Rightarrow> list_ex (\<lambda>g. pg_user_id g = u \<and> pg_revoked_at g = None) (platform_grants db)))"

definition max_opt :: "int option \<Rightarrow> int \<Rightarrow> int option" where
  "max_opt best l = Some (case best of None \<Rightarrow> l | Some b \<Rightarrow> max b l)"

definition scope_level_step :: "int option \<Rightarrow> string \<Rightarrow> int option" where
  "scope_level_step best token =
     (if startswith token ''cap:'' then
        (case py_int (drop 4 token) of None \<Rightarrow> best | Some l \<Rightarrow> max_opt best l)
      else best)"

definition service_scope_level :: "string list \<Rightarrow> int option" where
  "service_scope_level scopes = foldl scope_level_step None scopes"

definition lapsed :: "py_datetime option \<Rightarrow> int \<Rightarrow> bool" where
  "lapsed ts now = (case ts of None \<Rightarrow> False | Some t \<Rightarrow> aware t \<le> now)"

subsection \<open>Grants and catalog\<close>

definition grant_subject_matches ::
  "uuid option \<Rightarrow> string option \<Rightarrow> uuid option \<Rightarrow> capability_grant \<Rightarrow> bool" where
  "grant_subject_matches user role key g \<longleftrightarrow>
     (cg_subject_kind g = ''user'' \<and> map_option str_uuid user = Some (cg_subject_ref g))
   \<or> (cg_subject_kind g = ''role'' \<and> role = Some (cg_subject_ref g))
   \<or> (cg_subject_kind g = ''api_key'' \<and> map_option str_uuid key = Some (cg_subject_ref g))"

definition tool_jval :: "string option \<Rightarrow> jval" where
  "tool_jval t = (case t of None \<Rightarrow> JNull | Some s \<Rightarrow> JStr s)"

definition grant_applies ::
  "uuid option \<Rightarrow> string option \<Rightarrow> uuid option \<Rightarrow> string option \<Rightarrow> int \<Rightarrow> capability_grant \<Rightarrow> bool" where
  "grant_applies user role key tool now g \<longleftrightarrow>
     \<not> lapsed (cg_expires_at g) now \<and> grant_subject_matches user role key g
     \<and> (case cg_tool_allowlist g of None \<Rightarrow> True | Some l \<Rightarrow> tool_jval tool \<in> set l)"

definition grant_ceiling ::
  "gov_db \<Rightarrow> uuid \<Rightarrow> uuid option \<Rightarrow> string option \<Rightarrow> uuid option \<Rightarrow> string option \<Rightarrow> int \<Rightarrow> int option" where
  "grant_ceiling db tenant user role key tool now =
     foldl (\<lambda>best g. if grant_applies user role key tool now g then max_opt best (cg_max_level g) else best)
       None (filter (\<lambda>g. cg_tenant_id g = tenant \<and> cg_revoked_at g = None) (capability_grants db))"

definition catalog_block :: "gov_db \<Rightarrow> string option \<Rightarrow> int \<Rightarrow> gov_reason option" where
  "catalog_block db tool required =
     (case tool of None \<Rightarrow> None | Some k \<Rightarrow>
        if k = [] then None
        else (case find (\<lambda>c. cat_key c = k) (tool_catalog db) of
            Some c \<Rightarrow> if \<not> cat_enabled c then Some ToolDisabled else None
          | None \<Rightarrow> if L3 \<le> required then Some SensitiveNotRegistered else None))"

subsection \<open>Campaign and approval\<close>

definition find_campaign :: "gov_db \<Rightarrow> string \<Rightarrow> campaign option" where
  "find_campaign db cid = (case parse_uuid cid of None \<Rightarrow> None
     | Some u \<Rightarrow> find (\<lambda>c. cp_id c = u) (campaigns db))"

definition is_operator :: "gov_db \<Rightarrow> uuid \<Rightarrow> uuid option \<Rightarrow> bool" where
  "is_operator db cid actor = list_ex (\<lambda>m. cm_campaign_id m = cid \<and> actor = Some (cm_user_id m)
     \<and> cm_role m = ''operator'') (campaign_members db)"

definition validate_campaign ::
  "gov_db \<Rightarrow> uuid \<Rightarrow> string option \<Rightarrow> uuid option \<Rightarrow> int \<Rightarrow> int \<Rightarrow> gov_reason option" where
  "validate_campaign db tenant campaign_id actor required now =
     (case campaign_id of None \<Rightarrow> Some NeedsCampaign | Some cid \<Rightarrow>
      if cid = [] then Some NeedsCampaign else
      (case find_campaign db cid of None \<Rightarrow> Some CampaignNotFound
       | Some camp \<Rightarrow>
         if cp_tenant_id camp \<noteq> tenant then Some CampaignNotFound
         else if cp_status camp \<noteq> ''active'' then Some (CampaignNotActive (cp_status camp))
         else if (case cp_starts_at camp of Some t \<Rightarrow> now < aware t | None \<Rightarrow> False) then Some CampaignNotStarted
         else if lapsed (cp_ends_at camp) now then Some CampaignEnded
         else if cp_max_capability_level camp < required then Some CampaignLevel
         else if \<not> is_operator db (cp_id camp) actor then Some NotOperator
         else None))"

definition find_approval :: "gov_db \<Rightarrow> string \<Rightarrow> approval option" where
  "find_approval db aid = (case parse_uuid aid of None \<Rightarrow> None
     | Some u \<Rightarrow> find (\<lambda>a. ap_id a = u) (approvals db))"

definition str_opt_uuid :: "uuid option \<Rightarrow> string" where
  "str_opt_uuid u = (case u of None \<Rightarrow> ''None'' | Some x \<Rightarrow> str_uuid x)"

definition str_opt :: "string option \<Rightarrow> string" where
  "str_opt s = (case s of None \<Rightarrow> ''None'' | Some x \<Rightarrow> x)"

definition validate_approval ::
  "gov_db \<Rightarrow> uuid \<Rightarrow> string option \<Rightarrow> int \<Rightarrow> string option \<Rightarrow> string option \<Rightarrow> uuid option \<Rightarrow> int
     \<Rightarrow> gov_reason + uuid" where
  "validate_approval db tenant approval_id required tool campaign_id actor now =
     (case approval_id of None \<Rightarrow> Inl NeedsApproval | Some aid \<Rightarrow>
      if aid = [] then Inl NeedsApproval else
      (case find_approval db aid of None \<Rightarrow> Inl ApprovalNotFound
       | Some appr \<Rightarrow>
         if ap_tenant_id appr \<noteq> tenant then Inl ApprovalNotFound
         else if ap_revoked_at appr \<noteq> None then Inl ApprovalRevoked
         else if ap_consumed_at appr \<noteq> None then Inl ApprovalConsumed
         else if lapsed (ap_expires_at appr) now then Inl ApprovalExpired
         else if ap_capability_level appr < required then Inl ApprovalLevel
         else if ap_provider_key appr \<noteq> None \<and> ap_provider_key appr \<noteq> tool then Inl ApprovalProvider
         else if str_opt_uuid (ap_campaign_id appr) \<noteq> str_opt campaign_id then Inl ApprovalCampaign
         else if L4 \<le> required \<and> actor = Some (ap_approver_id appr) then Inl NeedsIndependentApprover
         else Inr (ap_id appr)))"

subsection \<open>The decision\<close>

text \<open>Resolving the principal: a refusal, or kind, service flag, base ceiling and role.\<close>

definition resolve_principal ::
  "gov_db \<Rightarrow> uuid \<Rightarrow> string \<Rightarrow> int \<Rightarrow> int \<Rightarrow>
     governance_result + (principal_kind \<times> bool \<times> int \<times> string option)" where
  "resolve_principal db tenant aid required now =
     (let actor = parse_uuid aid in
      if is_platform_owner db aid actor
      then Inr (PlatformOwner, False, level_num Destructive, None)
      else (case actor of
          None \<Rightarrow> Inl (gov_deny NoPrincipal None required InvalidActor)
        | Some u \<Rightarrow>
          (case find (\<lambda>m. tm_user_id m = u \<and> tm_tenant_id m = tenant) (memberships db) of
             Some m \<Rightarrow> (case role_ceiling (tm_role m) of
                 None \<Rightarrow> Inl (gov_deny StaffMember (Some u) required (RoleMayNotExecute (tm_role m)))
               | Some c \<Rightarrow> Inr (StaffMember, False, level_num c, Some (tm_role m)))
           | None \<Rightarrow> (case find (\<lambda>k. ak_id k = u) (api_keys db) of
                 None \<Rightarrow> Inl (gov_deny NoPrincipal None required NoValidIdentity)
               | Some k \<Rightarrow>
                   if ak_tenant_id k \<noteq> tenant \<or> ak_revoked_at k \<noteq> None \<or> lapsed (ak_expires_at k) now
                   then Inl (gov_deny NoPrincipal None required NoValidIdentity)
                   else (case service_scope_level (ak_scopes k) of
                       None \<Rightarrow> Inl (gov_deny Service None required NoCapabilityScope)
                     | Some l \<Rightarrow> Inr (Service, True, min l SERVICE_MAX, None))))))"

definition effective_ceiling ::
  "gov_db \<Rightarrow> uuid \<Rightarrow> principal_kind \<Rightarrow> bool \<Rightarrow> int \<Rightarrow> string option \<Rightarrow> uuid option \<Rightarrow> string option \<Rightarrow> int \<Rightarrow> int"
  where
  "effective_ceiling db tenant kind is_service base role actor tool now =
     (if kind = PlatformOwner then base
      else let granted = grant_ceiling db tenant (if is_service then None else actor) role
                           (if is_service then actor else None) tool now;
               e = (case granted of Some g \<Rightarrow> max base g | None \<Rightarrow> base)
           in if is_service then min e SERVICE_MAX else e)"

definition evaluate_governance ::
  "gov_db \<Rightarrow> int \<Rightarrow> uuid \<Rightarrow> string option \<Rightarrow> tool_capabilities \<Rightarrow> string option \<Rightarrow> string option
     \<Rightarrow> string option \<Rightarrow> governance_result" where
  "evaluate_governance db now tenant actor_id caps tool campaign_id approval_id =
     (let required = level_num (derive_capability_level caps) in
      case actor_id of None \<Rightarrow> gov_deny NoPrincipal None required MissingActor | Some aid \<Rightarrow>
      if aid = [] then gov_deny NoPrincipal None required MissingActor else
      (case resolve_principal db tenant aid required now of
         Inl denied \<Rightarrow> denied
       | Inr (kind, is_service, base, role) \<Rightarrow>
         (let actor = parse_uuid aid;
              audit = (if is_service then None else actor);
              effective = effective_ceiling db tenant kind is_service base role actor tool now
          in case catalog_block db tool required of Some r \<Rightarrow> gov_deny kind audit required r | None \<Rightarrow>
             if is_service \<and> L3 \<le> required then gov_deny Service None required ServiceCapped
             else if effective < required then gov_deny kind audit required (PrincipalCapped effective)
             else if required < L3 then gov_allow kind audit required None
             else (case validate_campaign db tenant campaign_id actor required now of
                 Some r \<Rightarrow> gov_deny kind audit required r
               | None \<Rightarrow>
                 (case validate_approval db tenant approval_id required tool campaign_id actor now of
                    Inl r \<Rightarrow> gov_deny kind audit required r
                  | Inr a \<Rightarrow> gov_allow kind audit required (Some a))))))"

subsection \<open>Lemmas\<close>

lemma gov_allowed_deny [simp]: "\<not> gov_allowed (gov_deny k a l r)"
  by (simp add: gov_deny_def)

lemma gov_allow_simps [simp]:
  "gov_allowed (gov_allow k a l p)" "gov_required (gov_allow k a l p) = l"
  "gov_principal (gov_allow k a l p) = k" "gov_approval_id (gov_allow k a l p) = p"
  "gov_actor (gov_allow k a l p) = a"
  by (simp_all add: gov_allow_def)

lemma find_campaign_SomeD:
  "find_campaign db s = Some c \<Longrightarrow> c \<in> set (campaigns db) \<and> parse_uuid s = Some (cp_id c)"
  by (auto simp: find_campaign_def split: option.splits dest: find_SomeD)

lemma find_approval_SomeD: "find_approval db s = Some p \<Longrightarrow> p \<in> set (approvals db)"
  by (auto simp: find_approval_def split: option.splits dest: find_SomeD)

definition campaign_covers :: "gov_db \<Rightarrow> uuid \<Rightarrow> string option \<Rightarrow> uuid option \<Rightarrow> int \<Rightarrow> int \<Rightarrow> campaign \<Rightarrow> bool" where
  "campaign_covers db tenant cid actor required now c \<longleftrightarrow>
     c \<in> set (campaigns db) \<and> (\<exists>s. cid = Some s \<and> parse_uuid s = Some (cp_id c))
     \<and> cp_tenant_id c = tenant \<and> cp_status c = ''active''
     \<and> (\<forall>t. cp_starts_at c = Some t \<longrightarrow> aware t \<le> now) \<and> \<not> lapsed (cp_ends_at c) now
     \<and> required \<le> cp_max_capability_level c \<and> is_operator db (cp_id c) actor"

definition approval_covers ::
  "gov_db \<Rightarrow> uuid \<Rightarrow> int \<Rightarrow> string option \<Rightarrow> string option \<Rightarrow> uuid option \<Rightarrow> int \<Rightarrow> uuid \<Rightarrow> approval \<Rightarrow> bool" where
  "approval_covers db tenant required tool cid actor now a p \<longleftrightarrow>
     p \<in> set (approvals db) \<and> ap_id p = a \<and> ap_tenant_id p = tenant \<and> ap_revoked_at p = None
     \<and> ap_consumed_at p = None \<and> \<not> lapsed (ap_expires_at p) now
     \<and> required \<le> ap_capability_level p
     \<and> (ap_provider_key p = None \<or> ap_provider_key p = tool)
     \<and> str_opt_uuid (ap_campaign_id p) = str_opt cid
     \<and> (L4 \<le> required \<longrightarrow> actor \<noteq> Some (ap_approver_id p))"

lemma validate_campaign_ok:
  assumes "validate_campaign db tenant cid actor required now = None"
  shows "\<exists>c. campaign_covers db tenant cid actor required now c"
proof -
  obtain s where s: "cid = Some s" "s \<noteq> []"
    using assms by (auto simp: validate_campaign_def split: option.splits if_splits)
  obtain c where c: "find_campaign db s = Some c"
    using assms s by (auto simp: validate_campaign_def split: option.splits)
  have "campaign_covers db tenant cid actor required now c"
    using assms s c find_campaign_SomeD [OF c]
    by (auto simp: validate_campaign_def campaign_covers_def not_less split: option.splits if_splits)
  then show ?thesis ..
qed

lemma validate_approval_ok:
  assumes "validate_approval db tenant aid required tool cid actor now = Inr a"
  shows "\<exists>p. approval_covers db tenant required tool cid actor now a p"
proof -
  obtain s where s: "aid = Some s" "s \<noteq> []"
    using assms by (auto simp: validate_approval_def split: option.splits if_splits)
  obtain p where p: "find_approval db s = Some p"
    using assms s by (auto simp: validate_approval_def split: option.splits)
  have "approval_covers db tenant required tool cid actor now a p"
    using assms s p find_approval_SomeD [OF p]
    by (auto simp: validate_approval_def approval_covers_def split: if_splits)
  then show ?thesis ..
qed

text \<open>One inversion of the whole decision: how a run can have been allowed.\<close>

lemma evaluate_allowedE:
  assumes "gov_allowed (evaluate_governance db now tenant actor_id caps tool cid apid)"
  obtains aid kind is_service base role where
    "actor_id = Some aid"
    "resolve_principal db tenant aid (level_num (derive_capability_level caps)) now
       = Inr (kind, is_service, base, role)"
    "catalog_block db tool (level_num (derive_capability_level caps)) = None"
    "\<not> (is_service \<and> L3 \<le> level_num (derive_capability_level caps))"
    "level_num (derive_capability_level caps)
       \<le> effective_ceiling db tenant kind is_service base role (parse_uuid aid) tool now"
    "L3 \<le> level_num (derive_capability_level caps) \<Longrightarrow>
       validate_campaign db tenant cid (parse_uuid aid) (level_num (derive_capability_level caps)) now = None"
    "L3 \<le> level_num (derive_capability_level caps) \<Longrightarrow>
       \<exists>a. validate_approval db tenant apid (level_num (derive_capability_level caps)) tool cid
             (parse_uuid aid) now = Inr a
         \<and> gov_approval_id (evaluate_governance db now tenant actor_id caps tool cid apid) = Some a"
proof (cases actor_id)
  case None
  with assms show ?thesis by (simp add: evaluate_governance_def)
next
  case (Some aid)
  define required where "required = level_num (derive_capability_level caps)"
  obtain kind is_service base role where
    r: "resolve_principal db tenant aid required now = Inr (kind, is_service, base, role)"
  proof (cases "resolve_principal db tenant aid required now")
    case (Inl d)
    then have "\<not> gov_allowed d"
      by (auto simp: resolve_principal_def Let_def split: if_splits option.splits)
    with assms Inl Some show ?thesis
      by (simp add: evaluate_governance_def required_def Let_def split: if_splits)
  qed auto
  have cat: "catalog_block db tool required = None"
    and svc: "\<not> (is_service \<and> L3 \<le> required)"
    and eff: "required \<le> effective_ceiling db tenant kind is_service base role (parse_uuid aid) tool now"
    using assms Some r unfolding evaluate_governance_def required_def [symmetric] Let_def
    by (auto split: if_splits option.splits sum.splits)
  have "validate_campaign db tenant cid (parse_uuid aid) required now = None \<and>
      (\<exists>a. validate_approval db tenant apid required tool cid (parse_uuid aid) now = Inr a
         \<and> gov_approval_id (evaluate_governance db now tenant actor_id caps tool cid apid) = Some a)"
    if "L3 \<le> required"
    using assms Some r cat svc eff that
    unfolding evaluate_governance_def required_def [symmetric] Let_def
    by (auto split: if_splits option.splits sum.splits)
  with that Some r cat svc eff show ?thesis by (auto simp: required_def)
qed

lemma resolve_service_base:
  "resolve_principal db tenant aid required now = Inr (kind, is_service, base, role) \<Longrightarrow>
   (is_service \<longleftrightarrow> kind = Service) \<and> (kind = PlatformOwner \<or> base \<le> 2)"
  using role_ceiling_le2
  by (auto simp: resolve_principal_def Let_def SERVICE_MAX_def split: if_splits option.splits)

subsection \<open>A concrete control plane\<close>

definition demo_id :: string where
  "demo_id = ''00000000-0000-0000-0000-000000000007''"

definition demo_caps :: "string \<Rightarrow> tool_capabilities" where
  "demo_caps category = \<lparr>tc_category = category, tc_network = True, tc_active = True, tc_destructive = False,
     tc_requires_authorization = True, tc_requires_human_approval = True,
     tc_supported_targets = [], tc_ports = [], tc_protocols = []\<rparr>"

text \<open>User 7 is a pentester of tenant 1 and operator of an active campaign; user 8 approved one
  credential-testing run of it, and a live role grant lifts pentesters to L3.\<close>

definition demo_db :: gov_db where
  "demo_db = \<lparr>setting_owner_ids = ''root@example'', platform_grants = [],
     memberships = [\<lparr>tm_user_id = 7, tm_tenant_id = 1, tm_role = ''pentester''\<rparr>], api_keys = [],
     capability_grants = [\<lparr>cg_tenant_id = 1, cg_subject_kind = ''role'', cg_subject_ref = ''pentester'',
        cg_max_level = 3, cg_tool_allowlist = None, cg_expires_at = None, cg_revoked_at = None\<rparr>],
     tool_catalog = [\<lparr>cat_key = ''hydra'', cat_enabled = True\<rparr>],
     campaigns = [\<lparr>cp_id = 7, cp_tenant_id = 1, cp_status = ''active'', cp_max_capability_level = 3,
        cp_starts_at = Some (Aware 5), cp_ends_at = Some (Naive 50)\<rparr>],
     campaign_members = [\<lparr>cm_campaign_id = 7, cm_user_id = 7, cm_role = ''operator''\<rparr>],
     approvals = [\<lparr>ap_id = 7, ap_tenant_id = 1, ap_campaign_id = Some 7, ap_provider_key = Some ''hydra'',
        ap_capability_level = 3, ap_approver_id = 8, ap_expires_at = Some (Aware 40),
        ap_revoked_at = None, ap_consumed_at = None\<rparr>]\<rparr>"

lemma demo_run_allowed:
  "gov_allowed (evaluate_governance demo_db 10 1 (Some demo_id) (demo_caps ''credential'')
     (Some ''hydra'') (Some demo_id) (Some demo_id))"
  by code_simp

lemma demo_level: "level_num (derive_capability_level (demo_caps ''credential'')) = 3"
  by code_simp

lemma demo_not_owner: "\<not> is_platform_owner demo_db demo_id (parse_uuid demo_id)"
  by code_simp

subsection \<open>Properties\<close>

text \<open>C1: a sensitive (L3 or higher) run is only ever allowed under a campaign of the same tenant
  that is active, in its window, covers the level and lists the actor as operator, together with an
  unrevoked, unconsumed, unexpired approval for that campaign, tool and level, which is the approval
  the result hands back to be consumed; from L4 on its approver is somebody else.\<close>

theorem sensitive_run_is_governed:
  assumes "gov_allowed (evaluate_governance db now tenant (Some aid) caps tool cid apid)"
    and "L3 \<le> level_num (derive_capability_level caps)"
  shows "\<exists>c p. campaign_covers db tenant cid (parse_uuid aid) (level_num (derive_capability_level caps)) now c
     \<and> approval_covers db tenant (level_num (derive_capability_level caps)) tool cid (parse_uuid aid) now (ap_id p) p
     \<and> gov_approval_id (evaluate_governance db now tenant (Some aid) caps tool cid apid) = Some (ap_id p)"
proof -
  obtain a where c: "validate_campaign db tenant cid (parse_uuid aid) (level_num (derive_capability_level caps)) now = None"
    and a: "validate_approval db tenant apid (level_num (derive_capability_level caps)) tool cid (parse_uuid aid) now = Inr a"
    and id: "gov_approval_id (evaluate_governance db now tenant (Some aid) caps tool cid apid) = Some a"
    by (rule evaluate_allowedE [OF assms(1)]) (use assms(2) in auto)
  obtain p where "approval_covers db tenant (level_num (derive_capability_level caps)) tool cid (parse_uuid aid) now a p"
    using validate_approval_ok [OF a] by blast
  moreover from this have "ap_id p = a" by (simp add: approval_covers_def)
  ultimately show ?thesis using validate_campaign_ok [OF c] id by blast
qed

theorem sensitive_run_is_governed_witness:
  "\<exists>c p. campaign_covers demo_db 1 (Some demo_id) (parse_uuid demo_id) 3 10 c
     \<and> approval_covers demo_db 1 3 (Some ''hydra'') (Some demo_id) (parse_uuid demo_id) 10 (ap_id p) p"
  using sensitive_run_is_governed [OF demo_run_allowed] by (auto simp: demo_level L3_def)

text \<open>Nobody outruns their ceiling.  An allowed actor is a platform owner, or a tenant staff
  member or service account; a service account never goes beyond L2, whatever it was granted, and
  a principal without a live matching grant never goes beyond L2 either.\<close>

theorem principal_ceiling:
  assumes "gov_allowed (evaluate_governance db now tenant (Some aid) caps tool cid apid)"
    and "\<not> is_platform_owner db aid (parse_uuid aid)"
  shows "level_num (derive_capability_level caps) \<le> 2
    \<or> (\<exists>u g m. parse_uuid aid = Some u \<and> m \<in> set (memberships db) \<and> tm_user_id m = u \<and> tm_tenant_id m = tenant
         \<and> g \<in> set (capability_grants db) \<and> cg_tenant_id g = tenant \<and> cg_revoked_at g = None
         \<and> grant_applies (Some u) (Some (tm_role m)) None tool now g
         \<and> level_num (derive_capability_level caps) \<le> cg_max_level g)"
proof -
  define required where "required = level_num (derive_capability_level caps)"
  obtain kind svc base role where
    r: "resolve_principal db tenant aid required now = Inr (kind, svc, base, role)"
    and e: "required \<le> effective_ceiling db tenant kind svc base role (parse_uuid aid) tool now"
    by (rule evaluate_allowedE [OF assms(1)]) (auto simp: required_def)
  have own: "kind \<noteq> PlatformOwner"
    using r assms(2) by (auto simp: resolve_principal_def Let_def split: option.splits if_splits)
  have base: "base \<le> 2" "svc \<longleftrightarrow> kind = Service" using resolve_service_base [OF r] own by auto
  show ?thesis
  proof (cases "svc \<or> required \<le> 2")
    case True
    then have "required \<le> 2"
      using e own by (auto simp: effective_ceiling_def Let_def SERVICE_MAX_def)
    then show ?thesis by (simp add: required_def)
  next
    case False
    then obtain u m where u: "parse_uuid aid = Some u" and "role = Some (tm_role m)"
      and m: "m \<in> set (memberships db)" "tm_user_id m = u" "tm_tenant_id m = tenant"
      using r own assms(2)
      by (auto simp: resolve_principal_def Let_def split: option.splits if_splits dest!: find_SomeD)
    define gs where "gs = filter (\<lambda>g. cg_tenant_id g = tenant \<and> cg_revoked_at g = None) (capability_grants db)"
    have grant_mem: "foldl (\<lambda>best g. if P g then max_opt best (cg_max_level g) else best) acc xs = Some l \<Longrightarrow>
       acc = Some l \<or> (\<exists>g\<in>set xs. P g \<and> cg_max_level g = l)" for P acc xs l
      by (induction xs arbitrary: acc) (fastforce simp: max_opt_def max_def split: option.splits if_splits)+
    obtain l where l: "grant_ceiling db tenant (Some u) role None tool now = Some l" "required \<le> l"
      using e own False base u
      by (auto simp: effective_ceiling_def Let_def split: option.splits)
    then obtain g where "g \<in> set gs" "grant_applies (Some u) role None tool now g" "cg_max_level g = l"
      using grant_mem [of _ None gs l] by (auto simp: grant_ceiling_def gs_def)
    with l u m \<open>role = Some (tm_role m)\<close> show ?thesis
      by (auto simp: gs_def required_def)
  qed
qed

theorem principal_ceiling_witness:
  "\<exists>g. g \<in> set (capability_grants demo_db) \<and> cg_revoked_at g = None \<and> 3 \<le> cg_max_level g"
  using principal_ceiling [OF demo_run_allowed demo_not_owner] by (auto simp: demo_level)

end
