(* ===== verification/GraphSearch.thy ===== *)
theory GraphSearch
  imports PyValue
begin

text \<open>
  The search core of \<open>guardian_core/attack_graph.py\<close>: the node and edge views, the adjacency
  over a set of relations, the bounded depth-first enumeration of simple paths (\<open>_enumerate\<close>)
  and the bounded breadth-first reachability (\<open>reachable_from\<close>).  Both searches are proved
  once, inside the locale \<open>adjacency\<close>, against what an adjacency promises: its entry for a node
  lists the successors of one edge relation without repetition.
\<close>

subsection \<open>Views\<close>

record limits =
  max_depth :: int
  max_paths :: int
  max_nodes :: int

definition default_limits :: limits where
  "default_limits = \<lparr>max_depth = 6, max_paths = 100, max_nodes = 10000\<rparr>"

record node_view =
  nv_id :: string
  nv_node_type :: string
  nv_canonical_key :: string
  nv_exposure_score :: int
  nv_state :: string
  nv_internet_reachable :: bool
  nv_customer_criticality :: "string option"
  nv_has_asset :: bool
  nv_finding_max_rank :: int
  nv_finding_counts :: "(string, int) odict"

type_synonym node_key = "string \<times> string \<times> string"

definition nv_sort_key :: "node_view \<Rightarrow> node_key" where
  "nv_sort_key n = (nv_node_type n, nv_canonical_key n, nv_id n)"

record edge_view =
  ev_src_id :: string
  ev_relation :: string
  ev_dst_id :: string

record path_view =
  pv_node_ids :: "string list"
  pv_node_keys :: "string list"

record path_result =
  pr_paths :: "path_view list"
  pr_truncated :: bool

record reach_result =
  rr_node_ids :: "string list"
  rr_truncated :: bool

subsection \<open>Index and adjacency\<close>

definition index_nodes :: "node_view list \<Rightarrow> (string, node_view) odict" where
  "index_nodes nodes = foldl (\<lambda>d n. dict_set (nv_id n) n d) [] nodes"

text \<open>\<open>by_id[i].sort_key()\<close>; every \<open>i\<close> the code looks up is a key of \<open>by_id\<close>.\<close>

definition key_of :: "(string, node_view) odict \<Rightarrow> string \<Rightarrow> node_key" where
  "key_of by_id i = (case dict_get by_id i of Some n \<Rightarrow> nv_sort_key n | None \<Rightarrow> ([], [], i))"

definition canonical_of :: "(string, node_view) odict \<Rightarrow> string \<Rightarrow> string" where
  "canonical_of by_id i = (case dict_get by_id i of Some n \<Rightarrow> nv_canonical_key n | None \<Rightarrow> [])"

definition known :: "(string, 'v) odict \<Rightarrow> string \<Rightarrow> bool" where
  "known d i = (dict_get d i \<noteq> None)"

definition add_edge ::
  "(string, node_view) odict \<Rightarrow> string set \<Rightarrow> (string, string list) odict \<Rightarrow> edge_view
     \<Rightarrow> (string, string list) odict" where
  "add_edge by_id relations adj e =
     (if ev_relation e \<in> relations \<and> known by_id (ev_src_id e) \<and> known by_id (ev_dst_id e)
      then dict_append (ev_src_id e) (ev_dst_id e) adj else adj)"

definition build_adjacency ::
  "node_view list \<Rightarrow> edge_view list \<Rightarrow> string set \<Rightarrow> (string, string list) odict" where
  "build_adjacency nodes edges relations =
     (let by_id = index_nodes nodes;
          adj = foldl (\<lambda>d n. dict_set (nv_id n) [] d) [] nodes;
          adj = foldl (add_edge by_id relations) adj edges
      in map (\<lambda>(k, neighbours). (k, sort_key (key_of by_id) (remdups neighbours))) adj)"

subsection \<open>Bounded enumeration of simple paths\<close>

record dfs_state =
  ds_results :: "path_view list"
  ds_seen :: "string list list"
  ds_budget :: int
  ds_truncated :: bool

definition mk_path :: "string list \<Rightarrow> (string, node_view) odict \<Rightarrow> path_view" where
  "mk_path path by_id = \<lparr>pv_node_ids = path, pv_node_keys = map (canonical_of by_id) path\<rparr>"

definition push_neighbours ::
  "(string, string list) odict \<Rightarrow> string \<Rightarrow> string list \<Rightarrow> (string \<times> string list) list" where
  "push_neighbours adj node path =
     map (\<lambda>nb. (nb, path @ [nb])) (filter (\<lambda>nb. nb \<notin> set path) (dict_getdef adj node []))"

text \<open>Visiting a popped entry: the budget is spent and a new path to a target is recorded.\<close>

definition is_hit :: "string set \<Rightarrow> string \<Rightarrow> string list \<Rightarrow> dfs_state \<Rightarrow> bool" where
  "is_hit targets node path st \<longleftrightarrow> node \<in> targets \<and> path \<notin> set (ds_seen st)"

definition visit ::
  "(string, node_view) odict \<Rightarrow> string set \<Rightarrow> string \<Rightarrow> string list \<Rightarrow> dfs_state \<Rightarrow> dfs_state" where
  "visit by_id targets node path st =
     (if is_hit targets node path st
      then st\<lparr>ds_budget := ds_budget st + 1, ds_seen := path # ds_seen st,
              ds_results := ds_results st @ [mk_path path by_id]\<rparr>
      else st\<lparr>ds_budget := ds_budget st + 1\<rparr>)"

lemma visit_budget [simp]: "ds_budget (visit by_id targets node path st) = ds_budget st + 1"
  by (simp add: visit_def)

text \<open>The \<open>while stack\<close> loop; the head of the list is the top of the stack.\<close>

function (sequential) dfs ::
  "(string, string list) odict \<Rightarrow> (string, node_view) odict \<Rightarrow> string set \<Rightarrow> limits
     \<Rightarrow> (string \<times> string list) list \<Rightarrow> dfs_state \<Rightarrow> dfs_state" where
  "dfs adj by_id targets lm [] st = st"
| "dfs adj by_id targets lm ((node, path) # stack) st =
     (if max_paths lm \<le> int (length (ds_results st)) then st\<lparr>ds_truncated := True\<rparr>
      else if max_nodes lm < ds_budget st + 1
      then st\<lparr>ds_budget := ds_budget st + 1, ds_truncated := True\<rparr>
      else if is_hit targets node path st
           \<and> max_paths lm \<le> int (length (ds_results (visit by_id targets node path st)))
      then (visit by_id targets node path st)\<lparr>ds_truncated := True\<rparr>
      else if max_depth lm \<le> int (length path) - 1
      then dfs adj by_id targets lm stack (visit by_id targets node path st)
      else dfs adj by_id targets lm (push_neighbours adj node path @ stack)
             (visit by_id targets node path st))"
  by pat_completeness auto
termination
  by (relation "measures [\<lambda>(adj, by_id, targets, lm, stack, st). nat (max_nodes lm - ds_budget st)]")
    auto

declare dfs.simps(2) [simp del]

fun search_sources ::
  "(string, string list) odict \<Rightarrow> (string, node_view) odict \<Rightarrow> string set \<Rightarrow> limits
     \<Rightarrow> string list \<Rightarrow> dfs_state \<Rightarrow> dfs_state" where
  "search_sources adj by_id targets lm [] st = st"
| "search_sources adj by_id targets lm (s # ss) st =
     (if ds_truncated st \<or> max_paths lm \<le> int (length (ds_results st)) then st
      else search_sources adj by_id targets lm ss (dfs adj by_id targets lm [(s, [s])] st))"

definition dfs_start :: dfs_state where
  "dfs_start = \<lparr>ds_results = [], ds_seen = [], ds_budget = 0, ds_truncated = False\<rparr>"

definition path_rank :: "path_view \<Rightarrow> nat \<times> string list" where
  "path_rank p = (length (pv_node_ids p), pv_node_keys p)"

definition enumerate_paths ::
  "(string, string list) odict \<Rightarrow> (string, node_view) odict \<Rightarrow> string list \<Rightarrow> string set \<Rightarrow> limits
     \<Rightarrow> path_result" where
  "enumerate_paths adj by_id sources targets lm =
     (let st = search_sources adj by_id targets lm
                 (sort_key (key_of by_id) (remdups sources)) dfs_start
      in \<lparr>pr_paths = sort_key path_rank (ds_results st), pr_truncated = ds_truncated st\<rparr>)"

subsection \<open>Bounded reachability\<close>

record bfs_state =
  bs_visited :: "string set"
  bs_order :: "string list"
  bs_queue :: "(string \<times> int) list"
  bs_truncated :: bool

text \<open>The loop over the neighbours of a dequeued node; \<open>depth\<close> is the neighbours' depth.\<close>

fun discover :: "limits \<Rightarrow> int \<Rightarrow> string list \<Rightarrow> bfs_state \<Rightarrow> bfs_state" where
  "discover lm depth [] st = st"
| "discover lm depth (nb # nbs) st =
     (if nb \<in> bs_visited st then discover lm depth nbs st
      else let st1 = st\<lparr>bs_visited := insert nb (bs_visited st), bs_order := bs_order st @ [nb],
                        bs_queue := bs_queue st @ [(nb, depth)]\<rparr>
           in if max_nodes lm \<le> int (length (bs_order st1)) then st1\<lparr>bs_truncated := True\<rparr>
              else discover lm depth nbs st1)"

function bfs :: "(string, string list) odict \<Rightarrow> limits \<Rightarrow> int \<Rightarrow> bfs_state \<Rightarrow> bfs_state" where
  "bfs adj lm budget st =
     (case bs_queue st of [] \<Rightarrow> st
      | (node, depth) # q \<Rightarrow>
        if max_nodes lm < budget + 1 then st\<lparr>bs_queue := q, bs_truncated := True\<rparr>
        else if max_depth lm \<le> depth then bfs adj lm (budget + 1) (st\<lparr>bs_queue := q\<rparr>)
        else let st1 = discover lm (depth + 1) (dict_getdef adj node []) (st\<lparr>bs_queue := q\<rparr>)
             in if bs_truncated st1 then st1 else bfs adj lm (budget + 1) st1)"
  by pat_completeness auto
termination
  by (relation "measure (\<lambda>(adj, lm, budget, st). nat (max_nodes lm - budget))") auto

declare bfs.simps [simp del]

definition bfs_start :: "string \<Rightarrow> bfs_state" where
  "bfs_start s = \<lparr>bs_visited = {s}, bs_order = [], bs_queue = [(s, 0)], bs_truncated = False\<rparr>"

definition reach_in :: "(string, node_view) odict \<Rightarrow> (string, string list) odict \<Rightarrow> string \<Rightarrow> limits
     \<Rightarrow> reach_result" where
  "reach_in by_id adj src lm =
     (let st = bfs adj lm 0 (bfs_start src)
      in \<lparr>rr_node_ids = sort_key (key_of by_id) (bs_order st), rr_truncated = bs_truncated st\<rparr>)"

subsection \<open>What the searches should find\<close>

definition simple_path ::
  "(string \<Rightarrow> string \<Rightarrow> bool) \<Rightarrow> string set \<Rightarrow> string set \<Rightarrow> int \<Rightarrow> string list \<Rightarrow> bool" where
  "simple_path edge S T d p \<longleftrightarrow>
     p \<noteq> [] \<and> hd p \<in> S \<and> last p \<in> T \<and> successively edge p \<and> distinct p
     \<and> int (length p) - 1 \<le> max 0 d"

text \<open>The simple continuations of a partial path, within the depth bound.\<close>

definition extends :: "(string \<Rightarrow> string \<Rightarrow> bool) \<Rightarrow> int \<Rightarrow> string list \<Rightarrow> string list \<Rightarrow> bool" where
  "extends edge d p q \<longleftrightarrow>
     (\<exists>r. q = p @ r \<and> successively edge q \<and> distinct q \<and> (r = [] \<or> int (length q) - 1 \<le> d))"

definition partial_path :: "(string \<Rightarrow> string \<Rightarrow> bool) \<Rightarrow> string \<times> string list \<Rightarrow> bool" where
  "partial_path edge = (\<lambda>(n, p). p \<noteq> [] \<and> last p = n \<and> successively edge p \<and> distinct p)"

lemma extends_refl: "partial_path edge (n, p) \<Longrightarrow> extends edge d p p"
  by (auto simp: extends_def partial_path_def)

lemma extends_step:
  assumes "partial_path edge (n, p)" and "int (length p) - 1 < d"
  shows "extends edge d p q \<longleftrightarrow> q = p \<or> (\<exists>x. edge n x \<and> x \<notin> set p \<and> extends edge d (p @ [x]) q)"
proof
  assume "extends edge d p q"
  then obtain r where r: "q = p @ r" "successively edge q" "distinct q" "r = [] \<or> int (length q) - 1 \<le> d"
    by (auto simp: extends_def)
  show "q = p \<or> (\<exists>x. edge n x \<and> x \<notin> set p \<and> extends edge d (p @ [x]) q)"
  proof (cases r)
    case (Cons x r')
    then have "edge n x" "x \<notin> set p" "q = (p @ [x]) @ r'"
      using r assms(1) by (auto simp: successively_append_iff partial_path_def)
    with r Cons show ?thesis unfolding extends_def by blast
  qed (use r in simp)
next
  assume "q = p \<or> (\<exists>x. edge n x \<and> x \<notin> set p \<and> extends edge d (p @ [x]) q)"
  then show "extends edge d p q"
  proof
    assume "\<exists>x. edge n x \<and> x \<notin> set p \<and> extends edge d (p @ [x]) q"
    then obtain x r where "q = (p @ [x]) @ r" "successively edge q" "distinct q"
        "r = [] \<or> int (length q) - 1 \<le> d"
      unfolding extends_def by blast
    with assms(2) show ?thesis unfolding extends_def by (intro exI [of _ "x # r"]) auto
  qed (use extends_refl [OF assms(1)] in simp)
qed

lemma extends_leaf:
  assumes "partial_path edge (n, p)" and "d \<le> int (length p) - 1"
  shows "extends edge d p q \<longleftrightarrow> q = p"
proof
  assume "extends edge d p q"
  then obtain r where r: "q = p @ r" "r = [] \<or> int (length p) + int (length r) - 1 \<le> d"
    by (auto simp: extends_def)
  with assms(2) have "int (length r) \<le> 0 \<or> r = []" by linarith
  with r show "q = p" by simp
qed (use extends_refl [OF assms(1)] in simp)

lemma extends_from_source:
  "extends edge d [s] q \<longleftrightarrow>
     q \<noteq> [] \<and> hd q = s \<and> successively edge q \<and> distinct q \<and> int (length q) - 1 \<le> max 0 d"
  (is "?l \<longleftrightarrow> ?r")
proof
  assume ?r
  then have "q = [s] @ tl q" by (cases q) auto
  with \<open>?r\<close> show ?l unfolding extends_def
    by (intro exI [of _ "tl q"]) (cases q; auto simp: max_def split: if_splits)
qed (auto simp: extends_def)

subsection \<open>Depth-first enumeration\<close>

text \<open>Facts that hold for any adjacency, by one invariant rule for the loop.\<close>

lemma dfs_invariant:
  assumes "J st"
    and "\<And>st b. J st \<Longrightarrow> J (st\<lparr>ds_budget := b, ds_truncated := True\<rparr>)"
    and "\<And>st. J st \<Longrightarrow> J (st\<lparr>ds_truncated := True\<rparr>)"
    and "\<And>st node path. J st \<Longrightarrow> int (length (ds_results st)) < max_paths lm \<Longrightarrow>
           J (visit by_id targets node path st)"
  shows "J (dfs adj by_id targets lm stack st)"
  using assms
proof (induction adj by_id targets lm stack st rule: dfs.induct)
  case (2 adj by_id targets lm node path stack st)
  show ?case
    by (subst dfs.simps(2)) (use 2 in simp)
qed simp

lemma search_invariant:
  assumes "J st"
    and "\<And>st b. J st \<Longrightarrow> J (st\<lparr>ds_budget := b, ds_truncated := True\<rparr>)"
    and "\<And>st. J st \<Longrightarrow> J (st\<lparr>ds_truncated := True\<rparr>)"
    and "\<And>st node path. J st \<Longrightarrow> int (length (ds_results st)) < max_paths lm \<Longrightarrow>
           J (visit by_id targets node path st)"
  shows "J (search_sources adj by_id targets lm ss st)"
  using assms(1)
proof (induction ss arbitrary: st)
  case (Cons s ss)
  then show ?case using dfs_invariant [of J, OF Cons.prems assms(2-4)] by simp
qed simp

definition results_ok :: "(string, node_view) odict \<Rightarrow> limits \<Rightarrow> dfs_state \<Rightarrow> bool" where
  "results_ok by_id lm st \<longleftrightarrow>
     ds_results st = map (\<lambda>p. mk_path p by_id) (rev (ds_seen st)) \<and> distinct (ds_seen st)
     \<and> int (length (ds_results st)) \<le> max 0 (max_paths lm)"

lemma search_results_ok: "results_ok by_id lm (search_sources adj by_id targets lm ss dfs_start)"
  by (rule search_invariant) (auto simp: results_ok_def dfs_start_def visit_def is_hit_def)

definition pending :: "(string \<Rightarrow> string \<Rightarrow> bool) \<Rightarrow> int \<Rightarrow> (string \<times> string list) list \<Rightarrow> string list set" where
  "pending edge d stack = {q. \<exists>(n, p)\<in>set stack. extends edge d p q}"

lemma pending_simps [simp]: "pending edge d [] = {}" "pending edge d (a @ b) = pending edge d a \<union> pending edge d b"
  by (auto simp: pending_def)

lemma pending_Cons:
  "pending edge d ((n, p) # stack) = {q. extends edge d p q} \<union> pending edge d stack"
  by (auto simp: pending_def)

lemma pending_leaf:
  "partial_path edge (n, p) \<Longrightarrow> d \<le> int (length p) - 1 \<Longrightarrow>
     pending edge d ((n, p) # stack) = insert p (pending edge d stack)"
  by (auto simp: pending_Cons extends_leaf)

text \<open>The induction that follows the loop.\<close>

lemma dfs_stack_induct:
  assumes "\<And>st. P [] st"
    and "\<And>node path stack st.
      (ds_budget st < max_nodes lm \<Longrightarrow> max_depth lm \<le> int (length path) - 1 \<Longrightarrow>
         P stack (visit by_id targets node path st)) \<Longrightarrow>
      (ds_budget st < max_nodes lm \<Longrightarrow> int (length path) - 1 < max_depth lm \<Longrightarrow>
         P (push_neighbours adj node path @ stack) (visit by_id targets node path st)) \<Longrightarrow>
      P ((node, path) # stack) st"
  shows "P stack st"
proof (induction "nat (max_nodes lm - ds_budget st)" arbitrary: stack st rule: less_induct)
  case less
  show ?case
  proof (cases stack)
    case (Cons e stack')
    obtain node path where e: "e = (node, path)" by (cases e)
    show ?thesis unfolding Cons e
      by (rule assms(2)) (rule less; simp)+
  qed (simp add: assms(1))
qed

text \<open>A loop that is not cut off leaves room for another path.\<close>

lemma dfs_room:
  assumes "int (length (ds_results st)) < max_paths lm" "\<not> ds_truncated st"
  shows "ds_truncated (dfs adj by_id targets lm stack st)
    \<or> int (length (ds_results (dfs adj by_id targets lm stack st))) < max_paths lm"
  using assms
proof (induction stack st rule: dfs_stack_induct [of _ lm by_id targets adj])
  case (2 node path stack st)
  have v: "ds_truncated (visit by_id targets node path st) = ds_truncated st"
    "\<not> is_hit targets node path st \<Longrightarrow> ds_results (visit by_id targets node path st) = ds_results st"
    by (simp_all add: visit_def)
  show ?case
    using 2 v by (auto simp: dfs.simps(2) [of adj by_id targets lm node path stack st])
qed simp

lemma results_okD:
  assumes "results_ok by_id lm st"
  shows "map pv_node_ids (ds_results st) = rev (ds_seen st)" "distinct (ds_seen st)"
    "int (length (ds_results st)) \<le> max 0 (max_paths lm)"
  using assms by (auto simp: results_ok_def mk_path_def o_def simp flip: rev_map)

locale adjacency =
  fixes adj :: "(string, string list) odict" and edge :: "string \<Rightarrow> string \<Rightarrow> bool"
  assumes succ_iff: "b \<in> set (dict_getdef adj a []) \<longleftrightarrow> edge a b"
begin

lemma push_partial:
  assumes "partial_path edge (node, path)"
  shows "list_all (partial_path edge) (push_neighbours adj node path)"
  using assms by (auto simp: push_neighbours_def list_all_iff partial_path_def succ_iff successively_append_iff)

lemma pending_push:
  "partial_path edge (n, p) \<Longrightarrow> int (length p) - 1 < d \<Longrightarrow>
     pending edge d ((n, p) # stack) = insert p (pending edge d (push_neighbours adj n p @ stack))"
  by (auto simp: pending_Cons extends_step) (auto simp: pending_def push_neighbours_def succ_iff)

text \<open>Whatever the loop records continues an entry of the stack; if it is not cut off, it records
  every continuation that ends in a target.\<close>

lemma dfs_sound:
  assumes "list_all (partial_path edge) stack"
  shows "set (ds_seen (dfs adj by_id targets lm stack st))
    \<subseteq> set (ds_seen st) \<union> {q \<in> pending edge (max_depth lm) stack. last q \<in> targets}"
  using assms
proof (induction stack st rule: dfs_stack_induct [of _ lm by_id targets adj])
  case (2 node path stack st)
  have pp: "partial_path edge (node, path)" and ps: "list_all (partial_path edge) stack"
    using 2(3) by auto
  have v: "set (ds_seen (visit by_id targets node path st)) \<subseteq>
      set (ds_seen st) \<union> {q. q = path \<and> last q \<in> targets}"
    using pp by (auto simp: visit_def is_hit_def partial_path_def)
  have me: "path \<in> pending edge (max_depth lm) ((node, path) # stack)"
    using extends_refl [OF pp] by (auto simp: pending_def)
  let ?v = "visit by_id targets node path st"
  let ?G = "set (ds_seen st) \<union> {q \<in> pending edge (max_depth lm) ((node, path) # stack). last q \<in> targets}"
  have stop: "set (ds_seen ?v) \<subseteq> ?G" using v me by blast
  have leaf: "set (ds_seen (dfs adj by_id targets lm stack ?v)) \<subseteq> ?G"
    if "ds_budget st < max_nodes lm" "max_depth lm \<le> int (length path) - 1"
    using 2(1) [OF that ps] stop pending_leaf [OF pp that(2)] by blast
  have push: "set (ds_seen (dfs adj by_id targets lm (push_neighbours adj node path @ stack) ?v)) \<subseteq> ?G"
    if "ds_budget st < max_nodes lm" "int (length path) - 1 < max_depth lm"
    using 2(2) [OF that] push_partial [OF pp] ps stop pending_push [OF pp that(2)] by simp blast
  show ?case
    using stop leaf push by (simp add: dfs.simps(2) [of adj by_id targets lm node path stack st])
qed simp

lemma dfs_complete:
  assumes "list_all (partial_path edge) stack"
    and "\<not> ds_truncated (dfs adj by_id targets lm stack st)"
  shows "set (ds_seen st) \<union> {q \<in> pending edge (max_depth lm) stack. last q \<in> targets}
    \<subseteq> set (ds_seen (dfs adj by_id targets lm stack st))"
  using assms
proof (induction stack st rule: dfs_stack_induct [of _ lm by_id targets adj])
  case (2 node path stack st)
  have pp: "partial_path edge (node, path)" and ps: "list_all (partial_path edge) stack"
    using 2(3) by auto
  have v: "set (ds_seen st) \<union> {q. q = path \<and> last q \<in> targets}
      \<subseteq> set (ds_seen (visit by_id targets node path st))"
    using pp by (auto simp: visit_def is_hit_def partial_path_def)
  let ?v = "visit by_id targets node path st"
  let ?G = "set (ds_seen st) \<union> {q \<in> pending edge (max_depth lm) ((node, path) # stack). last q \<in> targets}"
  have leaf: "?G \<subseteq> set (ds_seen (dfs adj by_id targets lm stack ?v))"
    if "ds_budget st < max_nodes lm" "max_depth lm \<le> int (length path) - 1"
      "\<not> ds_truncated (dfs adj by_id targets lm stack ?v)"
    using 2(1) [OF that(1,2) ps that(3)] v pending_leaf [OF pp that(2)] by blast
  have push: "?G \<subseteq> set (ds_seen (dfs adj by_id targets lm (push_neighbours adj node path @ stack) ?v))"
    if "ds_budget st < max_nodes lm" "int (length path) - 1 < max_depth lm"
      "\<not> ds_truncated (dfs adj by_id targets lm (push_neighbours adj node path @ stack) ?v)"
    using 2(2) [OF that(1,2) _ that(3)] push_partial [OF pp] ps v pending_push [OF pp that(2)]
    by simp blast
  show ?case
    using leaf push 2(4)
    by (auto simp add: dfs.simps(2) [of adj by_id targets lm node path stack st] split: if_splits)
qed simp

lemma search_sound:
  "set (ds_seen (search_sources adj by_id targets lm ss st))
    \<subseteq> set (ds_seen st) \<union> {q. simple_path edge (set ss) targets (max_depth lm) q}"
proof (induction ss arbitrary: st)
  case (Cons s ss)
  have one: "set (ds_seen (dfs adj by_id targets lm [(s, [s])] st))
      \<subseteq> set (ds_seen st) \<union> {q. simple_path edge {s} targets (max_depth lm) q}"
    using dfs_sound [of "[(s, [s])]" by_id targets lm st]
    by (auto simp: partial_path_def pending_def extends_from_source simple_path_def)
  have "{q. simple_path edge {s} targets (max_depth lm) q} \<union> {q. simple_path edge (set ss) targets (max_depth lm) q}
      \<subseteq> {q. simple_path edge (set (s # ss)) targets (max_depth lm) q}"
    by (auto simp: simple_path_def)
  with one Cons.IH [of "dfs adj by_id targets lm [(s, [s])] st"] show ?case
    by (cases "ds_truncated st \<or> max_paths lm \<le> int (length (ds_results st))") (simp, simp, blast)
qed simp

lemma search_complete:
  assumes "0 < max_paths lm"
    and "\<not> ds_truncated st \<longrightarrow> int (length (ds_results st)) < max_paths lm"
    and "\<not> ds_truncated (search_sources adj by_id targets lm ss st)"
  shows "set (ds_seen st) \<union> {q. simple_path edge (set ss) targets (max_depth lm) q}
    \<subseteq> set (ds_seen (search_sources adj by_id targets lm ss st))"
  using assms(2-)
proof (induction ss arbitrary: st)
  case (Cons s ss)
  define st1 where "st1 = dfs adj by_id targets lm [(s, [s])] st"
  have nt: "\<not> ds_truncated st" using Cons.prems by (auto split: if_splits)
  then have run: "search_sources adj by_id targets lm (s # ss) st = search_sources adj by_id targets lm ss st1"
    using Cons.prems by (simp add: st1_def)
  have nt1: "\<not> ds_truncated st1"
  proof
    assume "ds_truncated st1"
    then have "search_sources adj by_id targets lm ss st1 = st1" by (cases ss) auto
    with \<open>ds_truncated st1\<close> run Cons.prems show False by simp
  qed
  have room: "int (length (ds_results st1)) < max_paths lm"
    using nt1 nt Cons.prems dfs_room [of st lm adj by_id targets "[(s, [s])]"] by (simp add: st1_def)
  have one: "set (ds_seen st) \<union> {q. simple_path edge {s} targets (max_depth lm) q} \<subseteq> set (ds_seen st1)"
    using dfs_complete [of "[(s, [s])]" by_id targets lm st] nt1
    by (auto simp: partial_path_def pending_def extends_from_source simple_path_def st1_def)
  have "set (ds_seen st1) \<union> {q. simple_path edge (set ss) targets (max_depth lm) q}
      \<subseteq> set (ds_seen (search_sources adj by_id targets lm ss st1))"
    using Cons.IH [of st1] room run Cons.prems by simp
  with one show ?case unfolding run by (auto simp: simple_path_def)
qed (auto simp: simple_path_def)

text \<open>The enumeration against its specification.\<close>

lemma enumerate_sound:
  assumes "p \<in> set (pr_paths (enumerate_paths adj by_id sources targets lm))"
  shows "simple_path edge (set sources) targets (max_depth lm) (pv_node_ids p)
    \<and> p = mk_path (pv_node_ids p) by_id"
  using assms search_sound [of by_id targets lm "sort_key (key_of by_id) (remdups sources)" dfs_start]
    search_results_ok [of by_id lm adj targets "sort_key (key_of by_id) (remdups sources)"]
  by (auto simp: enumerate_paths_def Let_def results_ok_def dfs_start_def mk_path_def)

lemma enumerate_complete:
  assumes "0 < max_paths lm" and "\<not> pr_truncated (enumerate_paths adj by_id sources targets lm)"
    and "simple_path edge (set sources) targets (max_depth lm) q"
  shows "mk_path q by_id \<in> set (pr_paths (enumerate_paths adj by_id sources targets lm))"
  using assms search_complete [of lm dfs_start by_id targets "sort_key (key_of by_id) (remdups sources)"]
    search_results_ok [of by_id lm adj targets "sort_key (key_of by_id) (remdups sources)"]
  by (auto simp: enumerate_paths_def Let_def results_ok_def dfs_start_def)

end

lemma enumerate_shape:
  "distinct (map pv_node_ids (pr_paths (enumerate_paths adj by_id sources targets lm)))
   \<and> sorted (map path_rank (pr_paths (enumerate_paths adj by_id sources targets lm)))
   \<and> int (length (pr_paths (enumerate_paths adj by_id sources targets lm))) \<le> max 0 (max_paths lm)"
proof -
  let ?st = "search_sources adj by_id targets lm (sort_key (key_of by_id) (remdups sources)) dfs_start"
  have ok: "results_ok by_id lm ?st" by (rule search_results_ok)
  show ?thesis
    using results_okD [OF ok] by (simp add: enumerate_paths_def Let_def del: distinct_map)
qed

subsection \<open>Breadth-first reachability\<close>

definition reaches :: "(string \<Rightarrow> string \<Rightarrow> bool) \<Rightarrow> string \<Rightarrow> string \<Rightarrow> nat \<Rightarrow> bool" where
  "reaches edge s v n \<longleftrightarrow> (\<exists>p. successively edge p \<and> length p = Suc n \<and> hd p = s \<and> last p = v)"

lemma reaches_0 [simp]: "reaches edge s v 0 \<longleftrightarrow> v = s"
proof
  assume "v = s"
  then have "successively edge [s] \<and> length [s] = Suc 0 \<and> hd [s] = s \<and> last [s] = v" by simp
  then show "reaches edge s v 0" unfolding reaches_def by blast
qed (auto simp: reaches_def length_Suc_conv)

lemma reaches_Suc: "reaches edge s w (Suc n) \<longleftrightarrow> (\<exists>v. reaches edge s v n \<and> edge v w)"
proof
  assume "reaches edge s w (Suc n)"
  then obtain p where p: "successively edge p" "length p = Suc (Suc n)" "hd p = s" "last p = w"
    by (auto simp: reaches_def)
  then have "p = butlast p @ [w]" "butlast p \<noteq> []" by (cases p; auto)+
  then have b: "successively edge (butlast p @ [w])" "hd (butlast p) = s" "length (butlast p) = Suc n"
    using p by (simp, metis hd_append2 p(3), simp)
  with \<open>butlast p \<noteq> []\<close> have "successively edge (butlast p)" "edge (last (butlast p)) w"
    by (simp_all add: successively_append_iff)
  with b show "\<exists>v. reaches edge s v n \<and> edge v w"
    unfolding reaches_def by blast
next
  assume "\<exists>v. reaches edge s v n \<and> edge v w"
  then obtain p where "successively edge p" "length p = Suc n" "hd p = s" "edge (last p) w"
    by (auto simp: reaches_def)
  then show "reaches edge s w (Suc n)" unfolding reaches_def
    by (intro exI [of _ "p @ [w]"]) (auto simp: successively_append_iff hd_append)
qed

text \<open>The nodes other than the source within \<open>d\<close> hops.\<close>

definition within_hops :: "(string \<Rightarrow> string \<Rightarrow> bool) \<Rightarrow> string \<Rightarrow> int \<Rightarrow> string set" where
  "within_hops edge s d = {v. v \<noteq> s \<and> (\<exists>n. int n \<le> d \<and> reaches edge s v n)}"

text \<open>Every visited node carries a depth at which it was found: it is reachable in that many hops.\<close>

definition bfs_core :: "(string \<Rightarrow> string \<Rightarrow> bool) \<Rightarrow> string \<Rightarrow> int \<Rightarrow> (string \<Rightarrow> nat) \<Rightarrow> bfs_state \<Rightarrow> bool" where
  "bfs_core edge s D depth st \<longleftrightarrow>
     bs_visited st = insert s (set (bs_order st)) \<and> s \<notin> set (bs_order st) \<and> distinct (bs_order st)
     \<and> depth s = 0 \<and> (\<forall>v\<in>bs_visited st. reaches edge s v (depth v) \<and> int (depth v) \<le> max 0 D)"

text \<open>The queue is in order of depth, and nothing visited is deeper than one more than any entry.\<close>

definition bfs_queue :: "(string \<Rightarrow> nat) \<Rightarrow> bfs_state \<Rightarrow> bool" where
  "bfs_queue depth st \<longleftrightarrow>
     sorted (map snd (bs_queue st))
     \<and> (\<forall>v k. (v, k) \<in> set (bs_queue st) \<longrightarrow> v \<in> bs_visited st \<and> k = int (depth v)
          \<and> (\<forall>u\<in>bs_visited st. int (depth u) \<le> k + 1))"

text \<open>A node that left the queue below the depth bound has all its successors visited.\<close>

definition bfs_closed :: "(string \<Rightarrow> string \<Rightarrow> bool) \<Rightarrow> int \<Rightarrow> (string \<Rightarrow> nat) \<Rightarrow> string set \<Rightarrow> bfs_state \<Rightarrow> bool" where
  "bfs_closed edge D depth pend st \<longleftrightarrow>
     (\<forall>v\<in>bs_visited st - pend - fst ` set (bs_queue st). int (depth v) < D \<longrightarrow>
        (\<forall>w. edge v w \<longrightarrow> w \<in> bs_visited st \<and> depth w \<le> Suc (depth v)))"

lemma bfs_truncated_simps [simp]:
  "bfs_core edge s D depth (st\<lparr>bs_truncated := t\<rparr>) = bfs_core edge s D depth st"
  "bfs_queue depth (st\<lparr>bs_truncated := t\<rparr>) = bfs_queue depth st"
  "bfs_closed edge D depth pend (st\<lparr>bs_truncated := t\<rparr>) = bfs_closed edge D depth pend st"
  by (simp_all add: bfs_core_def bfs_queue_def bfs_closed_def)

lemma bfs_closedI:
  "(\<And>v w. v \<in> bs_visited st \<Longrightarrow> v \<notin> pend \<Longrightarrow> v \<notin> fst ` set (bs_queue st) \<Longrightarrow> int (depth v) < D
      \<Longrightarrow> edge v w \<Longrightarrow> w \<in> bs_visited st \<and> depth w \<le> Suc (depth v)) \<Longrightarrow> bfs_closed edge D depth pend st"
  unfolding bfs_closed_def by blast

lemma bfs_closedD:
  "bfs_closed edge D depth pend st \<Longrightarrow> v \<in> bs_visited st \<Longrightarrow> v \<notin> pend \<Longrightarrow> v \<notin> fst ` set (bs_queue st)
     \<Longrightarrow> int (depth v) < D \<Longrightarrow> edge v w \<Longrightarrow> w \<in> bs_visited st \<and> depth w \<le> Suc (depth v)"
  by (simp add: bfs_closed_def)

lemma closed_covers:
  assumes core: "bfs_core edge s D depth st" and "bfs_closed edge D depth {} st" "bs_queue st = []"
    and "reaches edge s v n" "int n \<le> D"
  shows "v \<in> bs_visited st \<and> depth v \<le> n"
  using assms(4,5)
proof (induction n arbitrary: v)
  case 0
  then show ?case using core by (simp add: bfs_core_def)
next
  case (Suc n)
  then obtain u where u: "reaches edge s u n" "edge u v" by (auto simp: reaches_Suc)
  then have "u \<in> bs_visited st" "depth u \<le> n" using Suc by auto
  with u Suc.prems(2) assms(2,3) show ?case
    by (force simp: bfs_closed_def)
qed

lemma discover_step:
  fixes lm :: limits
  assumes "bfs_core edge s D depth st" "bfs_queue depth st" "bfs_closed edge D depth {node} st"
    and "node \<in> bs_visited st" "int (depth node) < D"
    and "\<forall>u\<in>bs_visited st. depth u \<le> Suc (depth node)"
    and "\<forall>(v, k)\<in>set (bs_queue st). int (depth node) \<le> k"
    and "\<forall>w\<in>set nbs. edge node w" "\<not> bs_truncated st"
  defines "st' \<equiv> discover lm (int (depth node) + 1) nbs st"
  shows "\<exists>depth'. bfs_core edge s D depth' st' \<and> bfs_queue depth' st' \<and> bfs_closed edge D depth' {node} st'
     \<and> node \<in> bs_visited st' \<and> depth' node = depth node
     \<and> (\<forall>u\<in>bs_visited st'. depth' u \<le> Suc (depth node))
     \<and> bs_visited st \<subseteq> bs_visited st'
     \<and> (\<not> bs_truncated st' \<longrightarrow> set nbs \<subseteq> bs_visited st')"
  using assms(1-9) unfolding st'_def
proof (induction nbs arbitrary: st depth)
  case (Cons w nbs)
  show ?case
  proof (cases "w \<in> bs_visited st")
    case True
    then show ?thesis using Cons.IH [of depth st] Cons.prems by (auto; blast)
  next
    case False
    define depth1 where "depth1 = depth(w := Suc (depth node))"
    define st1 where "st1 = st\<lparr>bs_visited := insert w (bs_visited st), bs_order := bs_order st @ [w],
        bs_queue := bs_queue st @ [(w, int (depth node) + 1)]\<rparr>"
    have nw: "node \<noteq> w" using False Cons.prems by blast
    have q: "\<forall>(v, k)\<in>set (bs_queue st). v \<in> bs_visited st \<and> k = int (depth v)
        \<and> int (depth node) \<le> k \<and> k \<le> int (depth node) + 1"
      using Cons.prems(2,6,7) unfolding bfs_queue_def by fastforce
    have core1: "bfs_core edge s D depth1 st1"
      using Cons.prems(1,4,5,8) False nw
      by (auto simp: bfs_core_def depth1_def st1_def reaches_Suc)
    have srt: "sorted (map snd (bs_queue st1))"
    proof -
      have "sorted (map snd (bs_queue st))" using Cons.prems(2) unfolding bfs_queue_def by blast
      moreover have "\<forall>x\<in>set (map snd (bs_queue st)). x \<le> int (depth node) + 1" using q by auto
      moreover have "map snd (bs_queue st1) = map snd (bs_queue st) @ [int (depth node) + 1]"
        by (simp add: st1_def)
      ultimately show ?thesis by (simp only: sorted_append) simp
    qed
    have old: "v \<in> bs_visited st1 \<and> k = int (depth1 v) \<and> (\<forall>u\<in>bs_visited st1. int (depth1 u) \<le> k + 1)"
      if "(v, k) \<in> set (bs_queue st)" for v k
    proof -
      have "v \<in> bs_visited st" "k = int (depth v)" "\<forall>u\<in>bs_visited st. int (depth u) \<le> k + 1" "int (depth node) \<le> k"
        using that Cons.prems(2) q unfolding bfs_queue_def by blast+
      with False show ?thesis by (auto simp: depth1_def st1_def)
    qed
    have new: "\<forall>u\<in>bs_visited st1. int (depth1 u) \<le> int (depth1 w) + 1"
      using Cons.prems(6) by (force simp: depth1_def st1_def)
    have queue1: "bfs_queue depth1 st1"
    proof -
      define P where "P v k \<longleftrightarrow> v \<in> bs_visited st1 \<and> k = int (depth1 v)
          \<and> (\<forall>u\<in>bs_visited st1. int (depth1 u) \<le> k + 1)" for v k
      have "set (bs_queue st1) = insert (w, int (depth1 w)) (set (bs_queue st))" "w \<in> bs_visited st1"
        by (simp_all add: st1_def depth1_def add.commute)
      moreover have "P v k" if "(v, k) \<in> set (bs_queue st)" for v k
        unfolding P_def by (rule old [OF that])
      moreover have "w \<in> bs_visited st1 \<Longrightarrow> P w (int (depth1 w))" using new by (simp add: P_def)
      ultimately have "\<forall>v k. (v, k) \<in> set (bs_queue st1) \<longrightarrow> P v k" by auto
      with srt show ?thesis unfolding bfs_queue_def P_def by blast
    qed
    have closed1: "bfs_closed edge D depth1 {node} st1"
    proof (rule bfs_closedI)
      fix v x assume v: "v \<in> bs_visited st1" "v \<notin> {node}" "v \<notin> fst ` set (bs_queue st1)"
        "int (depth1 v) < D" "edge v x"
      then have "v \<noteq> w" by (simp add: st1_def)
      with v have "x \<in> bs_visited st \<and> depth x \<le> Suc (depth v)"
        by (intro bfs_closedD [OF Cons.prems(3)]) (simp_all add: st1_def depth1_def)
      with False \<open>v \<noteq> w\<close> show "x \<in> bs_visited st1 \<and> depth1 x \<le> Suc (depth1 v)"
        by (auto simp: st1_def depth1_def)
    qed
    have eq1: "depth1 node = depth node" using nw by (simp add: depth1_def)
    have r1: "node \<in> bs_visited st1" "int (depth1 node) < D" "\<not> bs_truncated st1"
      using Cons.prems(4,5,9) eq1 by (simp_all add: st1_def)
    have r2: "\<forall>u\<in>bs_visited st1. depth1 u \<le> Suc (depth1 node)"
      using Cons.prems(6) unfolding eq1 by (simp add: st1_def depth1_def)
    have r3: "\<forall>(v, k)\<in>set (bs_queue st1). int (depth1 node) \<le> k"
      using Cons.prems(7) unfolding eq1 by (simp add: st1_def)
    have r4: "\<forall>w\<in>set nbs. edge node w" using Cons.prems(8) by simp
    have vis: "bs_visited st1 = insert w (bs_visited st)" by (simp add: st1_def)
    show ?thesis
    proof (cases "max_nodes lm \<le> int (length (bs_order st1))")
      case True
      then have d: "discover lm (int (depth node) + 1) (w # nbs) st = st1\<lparr>bs_truncated := True\<rparr>"
        using False by (simp add: st1_def)
      show ?thesis unfolding d
        using core1 queue1 closed1 r1(1) r2 eq1 vis
        by (intro exI [of _ depth1] conjI) auto
    next
      case f: False
      then have d: "discover lm (int (depth node) + 1) (w # nbs) st = discover lm (int (depth1 node) + 1) nbs st1"
        using False nw by (simp add: st1_def depth1_def)
      let ?s = "discover lm (int (depth1 node) + 1) nbs st1"
      obtain depth2 where d2: "bfs_core edge s D depth2 ?s" "bfs_queue depth2 ?s"
          "bfs_closed edge D depth2 {node} ?s" "node \<in> bs_visited ?s" "depth2 node = depth1 node"
          "\<forall>u\<in>bs_visited ?s. depth2 u \<le> Suc (depth1 node)" "bs_visited st1 \<subseteq> bs_visited ?s"
          "\<not> bs_truncated ?s \<longrightarrow> set nbs \<subseteq> bs_visited ?s"
        using Cons.IH [OF core1 queue1 closed1 r1(1,2) r2 r3 r4 r1(3)] by blast
      have "bs_visited st \<subseteq> bs_visited ?s" "w \<in> bs_visited ?s"
        using d2(7) unfolding vis by blast+
      moreover from this d2(8) have "\<not> bs_truncated ?s \<longrightarrow> set (w # nbs) \<subseteq> bs_visited ?s" by auto
      ultimately show ?thesis unfolding d unfolding eq1 [symmetric]
        using d2(1-6) by (intro exI [of _ depth2] conjI) assumption+
    qed
  qed
qed auto

lemma bfs_queue_tl:
  assumes "bfs_queue depth st" "bs_queue st = (node, k) # q"
  shows "bfs_queue depth (st\<lparr>bs_queue := q\<rparr>)" "\<forall>(v, k')\<in>set q. k \<le> k'"
    "k = int (depth node)" "node \<in> bs_visited st" "\<forall>u\<in>bs_visited st. int (depth u) \<le> k + 1"
proof -
  have srt: "sorted (map snd ((node, k) # q))"
    and ent: "\<And>v k'. (v, k') \<in> set ((node, k) # q) \<Longrightarrow> v \<in> bs_visited st \<and> k' = int (depth v)
      \<and> (\<forall>u\<in>bs_visited st. int (depth u) \<le> k' + 1)"
    using assms(1) unfolding bfs_queue_def assms(2) by blast+
  show "\<forall>(v, k')\<in>set q. k \<le> k'" using srt by fastforce
  show "k = int (depth node)" "node \<in> bs_visited st" "\<forall>u\<in>bs_visited st. int (depth u) \<le> k + 1"
    using ent [OF list.set_intros(1)] by blast+
  have "sorted (map snd q)" using srt by simp
  moreover have "\<forall>v k'. (v, k') \<in> set q \<longrightarrow> v \<in> bs_visited st \<and> k' = int (depth v)
      \<and> (\<forall>u\<in>bs_visited st. int (depth u) \<le> k' + 1)"
    using ent list.set_intros(2) by metis
  moreover have "bs_queue (st\<lparr>bs_queue := q\<rparr>) = q" "bs_visited (st\<lparr>bs_queue := q\<rparr>) = bs_visited st"
    by simp_all
  ultimately show "bfs_queue depth (st\<lparr>bs_queue := q\<rparr>)"
    by (simp only: bfs_queue_def)
qed

context adjacency
begin

lemma bfs_final:
  assumes "bfs_core edge s (max_depth lm) depth st" "bfs_queue depth st"
    "bfs_closed edge (max_depth lm) depth {} st" "\<not> bs_truncated st"
  shows "\<exists>depth'. bfs_core edge s (max_depth lm) depth' (bfs adj lm budget st)
     \<and> (\<not> bs_truncated (bfs adj lm budget st) \<longrightarrow>
           bfs_closed edge (max_depth lm) depth' {} (bfs adj lm budget st)
           \<and> bs_queue (bfs adj lm budget st) = [])"
  using assms
proof (induction "nat (max_nodes lm - budget)" arbitrary: budget st depth rule: less_induct)
  case less
  note unfold = bfs.simps [of adj lm budget st]
  show ?case
  proof (cases "bs_queue st")
    case Nil
    then show ?thesis using less.prems by (auto simp: unfold)
  next
    case (Cons e q)
    obtain node k where e: "e = (node, k)" by (cases e)
    define st0 where "st0 = st\<lparr>bs_queue := q\<rparr>"
    have k: "k = int (depth node)" "node \<in> bs_visited st" "\<forall>u\<in>bs_visited st. int (depth u) \<le> k + 1"
      using bfs_queue_tl(3-5) [OF less.prems(2), of node k q] Cons e by simp_all
    have core0: "bfs_core edge s (max_depth lm) depth st0"
      using less.prems(1) by (simp add: bfs_core_def st0_def)
    have queue0: "bfs_queue depth st0" and later: "\<forall>(v, k)\<in>set (bs_queue st0). int (depth node) \<le> k"
      using bfs_queue_tl [OF less.prems(2), of node k q] Cons e by (simp_all add: st0_def)
    have closed0: "bfs_closed edge (max_depth lm) depth {node} st0"
    proof (rule bfs_closedI)
      fix v w assume "v \<in> bs_visited st0" "v \<notin> {node}" "v \<notin> fst ` set (bs_queue st0)"
        "int (depth v) < max_depth lm" "edge v w"
      then show "w \<in> bs_visited st0 \<and> depth w \<le> Suc (depth v)"
        using bfs_closedD [OF less.prems(3), of v w] Cons e by (simp add: st0_def)
    qed
    consider (cut) "max_nodes lm < budget + 1"
      | (deep) "\<not> max_nodes lm < budget + 1" "max_depth lm \<le> k"
      | (go) "\<not> max_nodes lm < budget + 1" "k < max_depth lm" by linarith
    then show ?thesis
    proof cases
      case cut
      then have "bfs adj lm budget st = st0\<lparr>bs_truncated := True\<rparr>" by (simp add: unfold Cons e st0_def)
      then show ?thesis using core0 by (auto simp: bfs_core_def)
    next
      case deep
      then have run: "bfs adj lm budget st = bfs adj lm (budget + 1) st0" by (simp add: unfold Cons e st0_def)
      have "bfs_closed edge (max_depth lm) depth {} st0"
      proof (rule bfs_closedI)
        fix v w assume v: "v \<in> bs_visited st0" "v \<notin> fst ` set (bs_queue st0)"
          "int (depth v) < max_depth lm" "edge v w"
        with deep k have "v \<noteq> node" by auto
        with v show "w \<in> bs_visited st0 \<and> depth w \<le> Suc (depth v)"
          using bfs_closedD [OF closed0, of v w] by simp
      qed
      then show ?thesis unfolding run
        using less.hyps [of "budget + 1"] deep core0 queue0 less.prems(4) by (simp add: st0_def)
    next
      case go
      define st1 where "st1 = discover lm (int (depth node) + 1) (dict_getdef adj node []) st0"
      have pre: "node \<in> bs_visited st0" "int (depth node) < max_depth lm"
          "\<forall>u\<in>bs_visited st0. depth u \<le> Suc (depth node)" "\<not> bs_truncated st0"
        using go k less.prems(4) by (auto simp: st0_def)
      have es: "\<forall>w\<in>set (dict_getdef adj node []). edge node w" by (simp add: succ_iff)
      obtain depth1 where d1: "bfs_core edge s (max_depth lm) depth1 st1" "bfs_queue depth1 st1"
          "bfs_closed edge (max_depth lm) depth1 {node} st1" "node \<in> bs_visited st1" "depth1 node = depth node"
          "\<forall>u\<in>bs_visited st1. depth1 u \<le> Suc (depth node)"
          "\<not> bs_truncated st1 \<longrightarrow> set (dict_getdef adj node []) \<subseteq> bs_visited st1"
        using discover_step [OF core0 queue0 closed0 pre(1-3) later es pre(4), of lm]
        unfolding st1_def by blast
      show ?thesis
      proof (cases "bs_truncated st1")
        case True
        then have "bfs adj lm budget st = st1" using go k by (simp add: unfold Cons e st0_def st1_def Let_def)
        then show ?thesis using d1 True by auto
      next
        case False
        then have run: "bfs adj lm budget st = bfs adj lm (budget + 1) st1"
          using go k by (simp add: unfold Cons e st0_def st1_def Let_def)
        have "bfs_closed edge (max_depth lm) depth1 {} st1"
        proof (rule bfs_closedI)
          fix v w assume v: "v \<in> bs_visited st1" "v \<notin> fst ` set (bs_queue st1)"
            "int (depth1 v) < max_depth lm" "edge v w"
          show "w \<in> bs_visited st1 \<and> depth1 w \<le> Suc (depth1 v)"
          proof (cases "v = node")
            case True
            with v have "w \<in> set (dict_getdef adj node [])" by (simp add: succ_iff)
            with d1(5-7) False True show ?thesis by auto
          next
            case f: False
            with v show ?thesis using bfs_closedD [OF d1(3), of v w] by simp
          qed
        qed
        then show ?thesis unfolding run
          using less.hyps [of "budget + 1"] go d1(1,2) False by simp
      qed
    qed
  qed
qed

lemma bfs_start_ok:
  "bfs_core edge s D (\<lambda>_. 0) (bfs_start s)" "bfs_queue (\<lambda>_. 0) (bfs_start s)"
  "bfs_closed edge D (\<lambda>_. 0) {} (bfs_start s)" "\<not> bs_truncated (bfs_start s)"
  by (auto simp: bfs_core_def bfs_queue_def bfs_closed_def bfs_start_def)

lemma reach_sound: "set (rr_node_ids (reach_in by_id adj s lm)) \<subseteq> within_hops edge s (max_depth lm)"
proof -
  obtain depth where c: "bfs_core edge s (max_depth lm) depth (bfs adj lm 0 (bfs_start s))"
    using bfs_final [OF bfs_start_ok] by blast
  show ?thesis
  proof
    fix v assume "v \<in> set (rr_node_ids (reach_in by_id adj s lm))"
    then have "v \<in> set (bs_order (bfs adj lm 0 (bfs_start s)))" by (simp add: reach_in_def Let_def)
    with c have "v \<noteq> s" "reaches edge s v (depth v)" "int (depth v) \<le> max 0 (max_depth lm)"
      by (auto simp: bfs_core_def)
    moreover from this have "depth v \<noteq> 0" by (metis reaches_0)
    ultimately show "v \<in> within_hops edge s (max_depth lm)"
      by (auto simp: within_hops_def max_def split: if_splits)
  qed
qed

lemma reach_complete:
  assumes "\<not> rr_truncated (reach_in by_id adj s lm)"
  shows "within_hops edge s (max_depth lm) \<subseteq> set (rr_node_ids (reach_in by_id adj s lm))"
proof -
  let ?st = "bfs adj lm 0 (bfs_start s)"
  have nt: "\<not> bs_truncated ?st" using assms by (simp add: reach_in_def Let_def)
  obtain depth where c: "bfs_core edge s (max_depth lm) depth ?st"
      and cl: "bfs_closed edge (max_depth lm) depth {} ?st" "bs_queue ?st = []"
    using bfs_final [OF bfs_start_ok] nt by blast
  show ?thesis
    using closed_covers [OF c cl] c
    by (auto simp: within_hops_def bfs_core_def reach_in_def Let_def)
qed

lemma reach_distinct: "distinct (rr_node_ids (reach_in by_id adj s lm))"
  using bfs_final [OF bfs_start_ok] by (fastforce simp: reach_in_def Let_def bfs_core_def)

end

end
