(* ===== verification/AttackGraph.thy ===== *)
theory AttackGraph
  imports GraphSearch Enums Binary64
begin

text \<open>
  The analysis surface of \<open>guardian_core/attack_graph.py\<close>: exposure paths, attack paths, blast
  radius, chokepoints and drift.  Both relation sets the code searches over interpret the
  \<open>adjacency\<close> interface of the search core, so the guarantees of the two searches are proved
  once and read off here.
\<close>

subsection \<open>Relations and sensitivity\<close>

definition REACHABILITY_RELATIONS :: "string set" where
  "REACHABILITY_RELATIONS = {''resolves_to'', ''hosts''}"

definition ATTACK_RELATIONS :: "string set" where
  "ATTACK_RELATIONS = {''resolves_to'', ''hosts'', ''serves'', ''exposes''}"

definition EXPOSURE_SENSITIVE_THRESHOLD :: int where "EXPOSURE_SENSITIVE_THRESHOLD = 50"
definition HIGH_SEVERITY_RANK :: int where "HIGH_SEVERITY_RANK = 3"
definition EVIDENCE_SAMPLE :: nat where "EVIDENCE_SAMPLE = 3"

definition is_sensitive :: "node_view \<Rightarrow> bool" where
  "is_sensitive n \<longleftrightarrow>
     EXPOSURE_SENSITIVE_THRESHOLD \<le> nv_exposure_score n
     \<or> nv_state n = ''shadow''
     \<or> nv_customer_criticality n = Some ''high''
     \<or> HIGH_SEVERITY_RANK \<le> nv_finding_max_rank n"

definition ids_where :: "(node_view \<Rightarrow> bool) \<Rightarrow> node_view list \<Rightarrow> string list" where
  "ids_where P nodes = map nv_id (filter P (sort_key nv_sort_key nodes))"

definition entry_ids :: "node_view list \<Rightarrow> string list" where
  "entry_ids nodes = ids_where nv_internet_reachable nodes"

definition sensitive_ids :: "node_view list \<Rightarrow> string list" where
  "sensitive_ids nodes = ids_where is_sensitive nodes"

definition finding_ids :: "node_view list \<Rightarrow> string list" where
  "finding_ids nodes = ids_where (\<lambda>n. nv_node_type n = ''finding'') nodes"

subsection \<open>Paths\<close>

definition exposure_paths :: "node_view list \<Rightarrow> edge_view list \<Rightarrow> limits \<Rightarrow> path_result" where
  "exposure_paths nodes edges lm =
     enumerate_paths (build_adjacency nodes edges REACHABILITY_RELATIONS) (index_nodes nodes)
       (entry_ids nodes) (set (sensitive_ids nodes)) lm"

definition attack_paths :: "node_view list \<Rightarrow> edge_view list \<Rightarrow> limits \<Rightarrow> path_result" where
  "attack_paths nodes edges lm =
     enumerate_paths (build_adjacency nodes edges ATTACK_RELATIONS) (index_nodes nodes)
       (entry_ids nodes) (set (finding_ids nodes)) lm"

definition paths_to :: "node_view list \<Rightarrow> edge_view list \<Rightarrow> string \<Rightarrow> limits \<Rightarrow> path_result" where
  "paths_to nodes edges target_id lm =
     (if \<not> known (index_nodes nodes) target_id then \<lparr>pr_paths = [], pr_truncated = False\<rparr>
      else enumerate_paths (build_adjacency nodes edges REACHABILITY_RELATIONS) (index_nodes nodes)
             (entry_ids nodes) {target_id} lm)"

definition reachable_from :: "node_view list \<Rightarrow> edge_view list \<Rightarrow> string \<Rightarrow> limits \<Rightarrow> reach_result" where
  "reachable_from nodes edges src_id lm =
     (if \<not> known (index_nodes nodes) src_id then \<lparr>rr_node_ids = [], rr_truncated = False\<rparr>
      else reach_in (index_nodes nodes) (build_adjacency nodes edges REACHABILITY_RELATIONS) src_id lm)"

subsection \<open>Blast radius\<close>

record blast_radius =
  br_root_id :: string
  br_root_key :: string
  br_affected_nodes :: int
  br_sensitive_nodes :: int
  br_exposure_paths :: int
  br_weighted_impact :: int
  br_affected_ids :: "string list"
  br_sensitive_ids :: "string list"
  br_truncated :: bool

definition node_sensitive :: "(string, node_view) odict \<Rightarrow> string \<Rightarrow> bool" where
  "node_sensitive by_id i = (case dict_get by_id i of Some n \<Rightarrow> is_sensitive n | None \<Rightarrow> False)"

definition node_exposure :: "(string, node_view) odict \<Rightarrow> string \<Rightarrow> int" where
  "node_exposure by_id i = (case dict_get by_id i of Some n \<Rightarrow> nv_exposure_score n | None \<Rightarrow> 0)"

definition blast_radius_of :: "node_view list \<Rightarrow> edge_view list \<Rightarrow> string \<Rightarrow> limits \<Rightarrow> blast_radius" where
  "blast_radius_of nodes edges root_id lm =
     (let by_id = index_nodes nodes in
      if \<not> known by_id root_id
      then \<lparr>br_root_id = root_id, br_root_key = [], br_affected_nodes = 0, br_sensitive_nodes = 0,
            br_exposure_paths = 0, br_weighted_impact = 0, br_affected_ids = [], br_sensitive_ids = [],
            br_truncated = False\<rparr>
      else
        let reach = reachable_from nodes edges root_id lm;
            affected = rr_node_ids reach;
            sensitive = filter (node_sensitive by_id) affected;
            weighted = sum_list (map (node_exposure by_id) affected);
            paths = exposure_paths nodes edges lm;
            through_root = length (filter (\<lambda>p. root_id \<in> set (pv_node_ids p)) (pr_paths paths))
        in \<lparr>br_root_id = root_id, br_root_key = canonical_of by_id root_id,
            br_affected_nodes = int (length affected), br_sensitive_nodes = int (length sensitive),
            br_exposure_paths = int through_root, br_weighted_impact = weighted,
            br_affected_ids = affected, br_sensitive_ids = sensitive,
            br_truncated = rr_truncated reach \<or> pr_truncated paths\<rparr>)"

subsection \<open>Chokepoints\<close>

record chokepoint =
  ck_node_id :: string
  ck_node_key :: string
  ck_node_type :: string
  ck_paths_cut :: int
  ck_total_paths :: int
  ck_fraction :: rat
  ck_evidence_paths :: "path_view list"

record chokepoint_result =
  cr_chokepoints :: "chokepoint list"
  cr_total_paths :: int
  cr_truncated :: bool

text \<open>\<open>for p in paths: for nid in set(p.node_ids): on_paths.setdefault(nid, []).append(p)\<close>\<close>

definition paths_by_node :: "path_view list \<Rightarrow> (string, path_view list) odict" where
  "paths_by_node ps =
     foldl (\<lambda>d p. foldl (\<lambda>d nid. dict_append nid p d) d (remdups (pv_node_ids p))) [] ps"

definition rank_nodes ::
  "(string, node_view) odict \<Rightarrow> (string, path_view list) odict \<Rightarrow> (string \<times> path_view list) list" where
  "rank_nodes by_id d = sort_key (\<lambda>(nid, hits). (- int (length hits), key_of by_id nid)) d"

definition node_type_of :: "(string, node_view) odict \<Rightarrow> string \<Rightarrow> string" where
  "node_type_of by_id i = (case dict_get by_id i of Some n \<Rightarrow> nv_node_type n | None \<Rightarrow> [])"

definition mk_chokepoint ::
  "(string, node_view) odict \<Rightarrow> int \<Rightarrow> string \<times> path_view list \<Rightarrow> chokepoint" where
  "mk_chokepoint by_id n_paths = (\<lambda>(nid, hits).
     \<lparr>ck_node_id = nid, ck_node_key = canonical_of by_id nid, ck_node_type = node_type_of by_id nid,
      ck_paths_cut = int (length hits), ck_total_paths = n_paths,
      ck_fraction = (if n_paths \<noteq> 0 then fl (of_int (int (length hits)) / of_int n_paths) else 0),
      ck_evidence_paths = take EVIDENCE_SAMPLE hits\<rparr>)"

definition chokepoints :: "node_view list \<Rightarrow> edge_view list \<Rightarrow> limits \<Rightarrow> int \<Rightarrow> chokepoint_result" where
  "chokepoints nodes edges lm top_n =
     (let by_id = index_nodes nodes;
          paths = exposure_paths nodes edges lm;
          n_paths = int (length (pr_paths paths));
          ranked = take (nat (max 0 top_n)) (rank_nodes by_id (paths_by_node (pr_paths paths)))
      in \<lparr>cr_chokepoints = map (mk_chokepoint by_id n_paths) ranked, cr_total_paths = n_paths,
          cr_truncated = pr_truncated paths\<rparr>)"

subsection \<open>Drift\<close>

text \<open>The events the graph reader passes: identifiers and times are text, \<open>detail\<close> is the stored
  JSON object or null.\<close>

record drift_event =
  de_node_id :: string
  de_node_key :: string
  de_event_type :: string
  de_detail :: "jobj option"
  de_occurred_at :: string

record stale_edge =
  se_node_id :: string
  se_node_key :: string
  se_detail :: jobj
  se_occurred_at :: string

record drift_item =
  di_node_id :: string
  di_node_key :: string
  di_kind :: string
  di_detail :: jobj
  di_occurred_at :: string

text \<open>\<open>text[len("exposure "):].split("->", 1)\<close> for a text that contains the arrow.\<close>

fun split_arrow :: "string \<Rightarrow> string \<times> string" where
  "split_arrow (c # d # s) =
     (if c = CHR ''-'' \<and> d = CHR ''>'' then ([], s)
      else (case split_arrow (d # s) of (a, b) \<Rightarrow> (c # a, b)))"
| "split_arrow s = (s, [])"

definition rose_text :: "string \<Rightarrow> bool" where
  "rose_text text =
     (if startswith text ''exposure '' \<and> contains_sub ''->'' text then
        (case split_arrow (drop (length ''exposure '') text) of (old_s, new_s) \<Rightarrow>
          (case py_int (py_strip new_s) of None \<Rightarrow> False
           | Some n \<Rightarrow> (case py_int (py_strip old_s) of None \<Rightarrow> False | Some m \<Rightarrow> m < n)))
      else False)"

definition exposure_rose :: "jval \<Rightarrow> py_error + bool" where
  "exposure_rose changes =
     (case iter_of (jor changes (JList [])) of Inl e \<Rightarrow> Inl e
      | Inr cs \<Rightarrow> Inr (list_ex (\<lambda>c. rose_text (py_str c)) cs))"

definition became_shadow :: "jval \<Rightarrow> py_error + bool" where
  "became_shadow changes =
     (case iter_of (jor changes (JList [])) of Inl e \<Rightarrow> Inl e
      | Inr cs \<Rightarrow> Inr (list_ex (\<lambda>c. contains_sub ''->shadow'' (py_str c)) cs))"

definition drift_kind :: "drift_event \<Rightarrow> py_error + string option" where
  "drift_kind e =
     (let et = de_event_type e;
          changes = jget (case de_detail e of Some d \<Rightarrow> d | None \<Rightarrow> []) ''changes''
      in if et = ''observed'' then Inr (Some ''appeared'')
         else if et = ''tls_changed'' then Inr (Some ''tls_changed'')
         else if et = ''service_changed'' then Inr (Some ''service_changed'')
         else if et = ''state_changed'' then
           (case became_shadow changes of Inl x \<Rightarrow> Inl x
            | Inr b \<Rightarrow> Inr (Some (if b then ''newly_exposed'' else ''state_changed'')))
         else if et = ''changed'' then
           (case exposure_rose changes of Inl x \<Rightarrow> Inl x
            | Inr True \<Rightarrow> Inr (Some ''newly_exposed'')
            | Inr False \<Rightarrow> (case became_shadow changes of Inl x \<Rightarrow> Inl x
                 | Inr b \<Rightarrow> Inr (Some (if b then ''newly_exposed'' else ''changed''))))
         else Inr None)"

definition item_of :: "drift_event \<Rightarrow> string \<Rightarrow> drift_item" where
  "item_of e kind = \<lparr>di_node_id = de_node_id e, di_node_key = de_node_key e, di_kind = kind,
     di_detail = (case de_detail e of Some d \<Rightarrow> d | None \<Rightarrow> []), di_occurred_at = de_occurred_at e\<rparr>"

definition stale_item :: "stale_edge \<Rightarrow> drift_item" where
  "stale_item s = \<lparr>di_node_id = se_node_id s, di_node_key = se_node_key s, di_kind = ''disappeared'',
     di_detail = se_detail s, di_occurred_at = se_occurred_at s\<rparr>"

fun drift_items :: "drift_event list \<Rightarrow> py_error + drift_item list" where
  "drift_items [] = Inr []"
| "drift_items (e # es) =
     (case drift_kind e of Inl x \<Rightarrow> Inl x
      | Inr k \<Rightarrow> (case drift_items es of Inl x \<Rightarrow> Inl x
          | Inr items \<Rightarrow> Inr (case k of Some kind \<Rightarrow> item_of e kind # items | None \<Rightarrow> items)))"

definition drift_rank :: "drift_item \<Rightarrow> string \<times> string \<times> string" where
  "drift_rank d = (di_occurred_at d, di_node_key d, di_kind d)"

definition classify_drift :: "drift_event list \<Rightarrow> stale_edge list \<Rightarrow> py_error + drift_item list" where
  "classify_drift events stale_edges =
     (case drift_items events of Inl x \<Rightarrow> Inl x
      | Inr items \<Rightarrow> Inr (sort_key drift_rank (items @ map stale_item stale_edges)))"

subsection \<open>The adjacency the code builds\<close>

definition edge_between :: "node_view list \<Rightarrow> edge_view list \<Rightarrow> string set \<Rightarrow> string \<Rightarrow> string \<Rightarrow> bool" where
  "edge_between nodes edges relations a b \<longleftrightarrow>
     list_ex (\<lambda>e. ev_src_id e = a \<and> ev_dst_id e = b \<and> ev_relation e \<in> relations) edges
     \<and> a \<in> nv_id ` set nodes \<and> b \<in> nv_id ` set nodes"

lemma index_get:
  "dict_get (foldl (\<lambda>d n. dict_set (nv_id n) n d) d nodes) i \<noteq> None
     \<longleftrightarrow> dict_get d i \<noteq> None \<or> i \<in> nv_id ` set nodes"
  by (induction nodes arbitrary: d) auto

lemma known_index [simp]: "known (index_nodes nodes) i \<longleftrightarrow> i \<in> nv_id ` set nodes"
  using index_get [of "[]" nodes i] by (simp add: known_def index_nodes_def)

lemma index_id: "dict_get (index_nodes nodes) i = Some n \<Longrightarrow> n \<in> set nodes \<and> nv_id n = i"
proof -
  have "dict_get (foldl (\<lambda>d n. dict_set (nv_id n) n d) d nodes) i = Some n \<Longrightarrow>
      (\<And>m j. dict_get d j = Some m \<Longrightarrow> m \<in> S \<and> nv_id m = j) \<Longrightarrow> set nodes \<subseteq> S \<Longrightarrow> n \<in> S \<and> nv_id n = i" for d S
  proof (induction nodes arbitrary: d)
    case (Cons m nodes)
    show ?case
      by (rule Cons.IH [of "dict_set (nv_id m) m d"]) (use Cons.prems in \<open>auto split: if_splits\<close>)
  qed simp
  from this [of "[]" "set nodes"] show "dict_get (index_nodes nodes) i = Some n \<Longrightarrow> n \<in> set nodes \<and> nv_id n = i"
    by (simp add: index_nodes_def)
qed

lemma empty_adjacency: "dict_getdef (foldl (\<lambda>d n. dict_set (nv_id n) [] d) d nodes) a [] =
    (if a \<in> nv_id ` set nodes then [] else dict_getdef d a [])"
  by (induction nodes arbitrary: d) (auto simp: dict_getdef_def)

lemma add_edges_get:
  "dict_getdef (foldl (add_edge by_id rels) adj edges) a [] = dict_getdef adj a [] @
     map ev_dst_id (filter (\<lambda>e. ev_relation e \<in> rels \<and> known by_id (ev_src_id e) \<and> known by_id (ev_dst_id e)
       \<and> ev_src_id e = a) edges)"
  by (induction edges arbitrary: adj) (auto simp: add_edge_def dict_getdef_append)

lemma getdef_map: "f [] = [] \<Longrightarrow> dict_getdef (map (\<lambda>(k, v). (k, f v)) d) a [] = f (dict_getdef d a [])"
  by (induction d) (auto simp: dict_getdef_def)

lemma build_adjacency_get:
  "dict_getdef (build_adjacency nodes edges rels) a [] =
     sort_key (key_of (index_nodes nodes)) (remdups (map ev_dst_id (filter (\<lambda>e. ev_relation e \<in> rels
       \<and> known (index_nodes nodes) (ev_src_id e) \<and> known (index_nodes nodes) (ev_dst_id e) \<and> ev_src_id e = a) edges)))"
  unfolding build_adjacency_def Let_def
  by (subst getdef_map) (simp_all add: add_edges_get empty_adjacency dict_getdef_def [of "[]"])

text \<open>The adjacency promises what the searches rely on, for the reachability and the attack
  relations alike.\<close>

lemma build_adjacency_succ:
  "b \<in> set (dict_getdef (build_adjacency nodes edges rels) a []) \<longleftrightarrow> edge_between nodes edges rels a b"
proof -
  have "b \<in> ev_dst_id ` {e \<in> set edges. Q e \<and> ev_src_id e = a} \<longleftrightarrow>
      (\<exists>e\<in>set edges. ev_src_id e = a \<and> ev_dst_id e = b \<and> Q e)" for Q
    by auto
  then show ?thesis
    by (simp add: build_adjacency_get edge_between_def list_ex_iff conj_assoc [symmetric] del: conj_assoc) blast
qed

interpretation exposure: adjacency "build_adjacency nodes edges REACHABILITY_RELATIONS"
    "edge_between nodes edges REACHABILITY_RELATIONS" for nodes edges
  by unfold_locales (rule build_adjacency_succ)

interpretation attack: adjacency "build_adjacency nodes edges ATTACK_RELATIONS"
    "edge_between nodes edges ATTACK_RELATIONS" for nodes edges
  by unfold_locales (rule build_adjacency_succ)

subsection \<open>Chokepoint counts\<close>

definition through :: "string \<Rightarrow> path_view list \<Rightarrow> path_view list" where
  "through v ps = filter (\<lambda>p. v \<in> set (pv_node_ids p)) ps"

lemma through_Cons: "through v (p # ps) = (if v \<in> set (pv_node_ids p) then [p] else []) @ through v ps"
  by (simp add: through_def)

lemma append_all_get:
  "distinct xs \<Longrightarrow> dict_getdef (foldl (\<lambda>d v. dict_append v p d) d xs) a [] =
     dict_getdef d a [] @ (if a \<in> set xs then [p] else [])"
  by (induction xs arbitrary: d) (auto simp: dict_getdef_append)

lemma append_all_keys:
  "fst ` set (foldl (\<lambda>d v. dict_append v p d) d xs) = fst ` set d \<union> set xs
   \<and> (distinct (map fst d) \<longrightarrow> distinct (map fst (foldl (\<lambda>d v. dict_append v p d) d xs)))"
  by (induction xs arbitrary: d) (auto simp: dict_append_def dict_keys_set distinct_dict_set)

lemma paths_by_node_get: "dict_getdef (paths_by_node ps) v [] = through v ps"
proof -
  have "dict_getdef (foldl (\<lambda>d p. foldl (\<lambda>d nid. dict_append nid p d) d (remdups (pv_node_ids p))) d ps) v []
      = dict_getdef d v [] @ through v ps" for d
    by (induction ps arbitrary: d) (auto simp: append_all_get through_Cons through_def [of v "[]"])
  then show ?thesis by (simp add: paths_by_node_def dict_getdef_def [of "[]"])
qed

lemma paths_by_node_keys:
  "fst ` set (paths_by_node ps) = (\<Union>p\<in>set ps. set (pv_node_ids p)) \<and> distinct (map fst (paths_by_node ps))"
proof -
  have "fst ` set (foldl (\<lambda>d p. foldl (\<lambda>d nid. dict_append nid p d) d (remdups (pv_node_ids p))) d ps)
        = fst ` set d \<union> (\<Union>p\<in>set ps. set (pv_node_ids p))
      \<and> (distinct (map fst d) \<longrightarrow>
        distinct (map fst (foldl (\<lambda>d p. foldl (\<lambda>d nid. dict_append nid p d) d (remdups (pv_node_ids p))) d ps)))" for d
  proof (induction ps arbitrary: d)
    case (Cons p ps)
    show ?case
      using Cons.IH [of "foldl (\<lambda>d nid. dict_append nid p d) d (remdups (pv_node_ids p))"]
        append_all_keys [of p d "remdups (pv_node_ids p)"]
      by auto
  qed simp
  from this [of "[]"] show ?thesis by (simp add: paths_by_node_def)
qed

lemma paths_by_node_entry:
  assumes "(v, hits) \<in> set (paths_by_node ps)"
  shows "hits = through v ps \<and> hits \<noteq> []"
proof -
  have "dict_get (paths_by_node ps) v = Some hits"
    using assms paths_by_node_keys by (simp add: dict_get_mem)
  then have "hits = through v ps" using paths_by_node_get [of ps v] by (simp add: dict_getdef_def)
  moreover have "v \<in> (\<Union>p\<in>set ps. set (pv_node_ids p))"
    using assms paths_by_node_keys [of ps] by (metis fst_conv image_eqI)
  ultimately show ?thesis by (auto simp: through_def filter_empty_conv)
qed

lemma ranked_by_count:
  "sorted_wrt (\<lambda>a b. length (snd b) \<le> length (snd a)) (rank_nodes by_id d)"
proof -
  have "sorted (map (\<lambda>(nid, hits). (- int (length hits), key_of by_id nid)) (rank_nodes by_id d))"
    by (simp add: rank_nodes_def)
  then show ?thesis
    by (simp add: sorted_map) (erule sorted_wrt_mono_rel [rotated], auto simp: less_eq_prod_def split: prod.splits)
qed

subsection \<open>Properties\<close>

lemma entry_set [simp]: "set (entry_ids nodes) = nv_id ` {n \<in> set nodes. nv_internet_reachable n}"
  by (auto simp: entry_ids_def ids_where_def)

lemma sensitive_set [simp]: "set (sensitive_ids nodes) = nv_id ` {n \<in> set nodes. is_sensitive n}"
  by (auto simp: sensitive_ids_def ids_where_def)

lemma finding_set [simp]: "set (finding_ids nodes) = nv_id ` {n \<in> set nodes. nv_node_type n = ''finding''}"
  by (auto simp: finding_ids_def ids_where_def)

text \<open>The exposure paths a graph really has.\<close>

definition real_exposure :: "node_view list \<Rightarrow> edge_view list \<Rightarrow> int \<Rightarrow> string list \<Rightarrow> bool" where
  "real_exposure nodes edges d = simple_path (edge_between nodes edges REACHABILITY_RELATIONS)
     (nv_id ` {n \<in> set nodes. nv_internet_reachable n}) (nv_id ` {n \<in> set nodes. is_sensitive n}) d"

definition real_attack :: "node_view list \<Rightarrow> edge_view list \<Rightarrow> int \<Rightarrow> string list \<Rightarrow> bool" where
  "real_attack nodes edges d = simple_path (edge_between nodes edges ATTACK_RELATIONS)
     (nv_id ` {n \<in> set nodes. nv_internet_reachable n}) (nv_id ` {n \<in> set nodes. nv_node_type n = ''finding''}) d"

lemma exposure_exact:
  assumes "0 < max_paths lm" "\<not> pr_truncated (exposure_paths nodes edges lm)"
  shows "pv_node_ids ` set (pr_paths (exposure_paths nodes edges lm)) = {p. real_exposure nodes edges (max_depth lm) p}"
proof
  show "pv_node_ids ` set (pr_paths (exposure_paths nodes edges lm)) \<subseteq> {p. real_exposure nodes edges (max_depth lm) p}"
    using exposure.enumerate_sound by (fastforce simp: exposure_paths_def real_exposure_def)
  show "{p. real_exposure nodes edges (max_depth lm) p} \<subseteq> pv_node_ids ` set (pr_paths (exposure_paths nodes edges lm))"
  proof
    fix q assume "q \<in> {p. real_exposure nodes edges (max_depth lm) p}"
    then have "mk_path q (index_nodes nodes) \<in> set (pr_paths (exposure_paths nodes edges lm))"
      using exposure.enumerate_complete [OF assms(1) assms(2) [unfolded exposure_paths_def]]
      by (simp add: exposure_paths_def real_exposure_def)
    then show "q \<in> pv_node_ids ` set (pr_paths (exposure_paths nodes edges lm))"
      by (force simp: mk_path_def)
  qed
qed

subsection \<open>A small estate\<close>

definition demo_node :: "string \<Rightarrow> int \<Rightarrow> bool \<Rightarrow> node_view" where
  "demo_node i score facing = \<lparr>nv_id = i, nv_node_type = ''host'', nv_canonical_key = i,
     nv_exposure_score = score, nv_state = ''active'', nv_internet_reachable = facing,
     nv_customer_criticality = None, nv_has_asset = False, nv_finding_max_rank = 0, nv_finding_counts = []\<rparr>"

definition demo_nodes :: "node_view list" where
  "demo_nodes = [demo_node ''c'' 60 False, demo_node ''a'' 0 True, demo_node ''b'' 10 False]"

definition demo_edges :: "edge_view list" where
  "demo_edges = [\<lparr>ev_src_id = ''a'', ev_relation = ''resolves_to'', ev_dst_id = ''b''\<rparr>,
     \<lparr>ev_src_id = ''b'', ev_relation = ''hosts'', ev_dst_id = ''c''\<rparr>,
     \<lparr>ev_src_id = ''c'', ev_relation = ''hosts'', ev_dst_id = ''a''\<rparr>,
     \<lparr>ev_src_id = ''a'', ev_relation = ''subdomain_of'', ev_dst_id = ''c''\<rparr>]"

lemma demo_not_truncated:
  "\<not> pr_truncated (exposure_paths demo_nodes demo_edges default_limits)"
  "\<not> br_truncated (blast_radius_of demo_nodes demo_edges ''b'' default_limits)"
  by code_simp+

lemma demo_exposure:
  "map pv_node_ids (pr_paths (exposure_paths demo_nodes demo_edges default_limits)) = [[''a'', ''b'', ''c'']]"
  by code_simp

lemma demo_blast:
  "br_affected_ids (blast_radius_of demo_nodes demo_edges ''b'' default_limits) = [''a'', ''c'']"
  by code_simp

lemma demo_chokepoints:
  "map ck_node_id (cr_chokepoints (chokepoints demo_nodes demo_edges default_limits 1)) = [''a'']"
  by code_simp

text \<open>Every attack path reported is real.  It starts at an internet-facing node, ends at a
  finding, follows only edges of the data over the attack relations, visits no node twice and stays
  within the depth bound; no path is reported twice, the list is in the documented order, and it is
  never longer than asked for.\<close>

theorem attack_paths_real:
  "pv_node_ids ` set (pr_paths (attack_paths nodes edges lm)) \<subseteq> {p. real_attack nodes edges (max_depth lm) p}
   \<and> distinct (map pv_node_ids (pr_paths (attack_paths nodes edges lm)))
   \<and> sorted (map path_rank (pr_paths (attack_paths nodes edges lm)))
   \<and> int (length (pr_paths (attack_paths nodes edges lm))) \<le> max 0 (max_paths lm)"
proof -
  have "pv_node_ids ` set (pr_paths (attack_paths nodes edges lm)) \<subseteq> {p. real_attack nodes edges (max_depth lm) p}"
    using attack.enumerate_sound by (fastforce simp: attack_paths_def real_attack_def)
  then show ?thesis using enumerate_shape by (simp add: attack_paths_def)
qed

text \<open>An exposure report that is not marked truncated is complete: the paths it lists are exactly
  the simple paths from an internet-facing node to a sensitive one over reachability edges within the
  depth bound.\<close>

theorem exposure_paths_complete:
  assumes "0 < max_paths lm" "\<not> pr_truncated (exposure_paths nodes edges lm)"
  shows "pv_node_ids ` set (pr_paths (exposure_paths nodes edges lm)) = {p. real_exposure nodes edges (max_depth lm) p}"
  using assms by (rule exposure_exact)

theorem exposure_paths_complete_witness:
  "{p. real_exposure demo_nodes demo_edges 6 p} = {[''a'', ''b'', ''c'']}"
proof -
  have "{p. real_exposure demo_nodes demo_edges 6 p}
      = set (map pv_node_ids (pr_paths (exposure_paths demo_nodes demo_edges default_limits)))"
    using exposure_paths_complete [of default_limits demo_nodes demo_edges] demo_not_truncated
    by (simp add: default_limits_def)
  then show ?thesis by (simp only: demo_exposure) simp
qed


text \<open>The blast radius of a known node, when nothing was truncated, is exact: the affected nodes
  are those within the depth bound, each counted once, the sensitive ones among them are counted, the
  impact is the sum of their exposure scores, and the paths counted are the exposure paths through
  the start.\<close>

theorem blast_radius_exact:
  assumes "start \<in> nv_id ` set nodes" "0 < max_paths lm" "\<not> br_truncated (blast_radius_of nodes edges start lm)"
  shows "let reach = within_hops (edge_between nodes edges REACHABILITY_RELATIONS) start (max_depth lm);
      b = blast_radius_of nodes edges start lm; by_id = index_nodes nodes in
    set (br_affected_ids b) = reach \<and> br_affected_nodes b = int (card reach)
    \<and> br_sensitive_nodes b = int (card {v \<in> reach. node_sensitive by_id v})
    \<and> br_weighted_impact b = (\<Sum>v\<in>reach. node_exposure by_id v)
    \<and> br_exposure_paths b = int (card {p. real_exposure nodes edges (max_depth lm) p \<and> start \<in> set p})"
proof -
  let ?r = "reach_in (index_nodes nodes) (build_adjacency nodes edges REACHABILITY_RELATIONS) start lm"
  let ?ps = "pr_paths (exposure_paths nodes edges lm)"
  have nt: "\<not> rr_truncated ?r" "\<not> pr_truncated (exposure_paths nodes edges lm)"
    using assms by (auto simp: blast_radius_of_def reachable_from_def Let_def)
  have reach: "set (rr_node_ids ?r) = within_hops (edge_between nodes edges REACHABILITY_RELATIONS) start (max_depth lm)"
    using exposure.reach_sound exposure.reach_complete [OF nt(1)] by blast
  have dis: "distinct (rr_node_ids ?r)" by (rule exposure.reach_distinct)
  have dp: "distinct (map pv_node_ids ?ps)" using enumerate_shape by (simp add: exposure_paths_def)
  have "{p. real_exposure nodes edges (max_depth lm) p \<and> start \<in> set p}
      = set (map pv_node_ids (filter (\<lambda>p. start \<in> set (pv_node_ids p)) ?ps))"
    using exposure_exact [OF assms(2) nt(2)] by auto
  moreover have "distinct (map pv_node_ids (filter (\<lambda>p. start \<in> set (pv_node_ids p)) ?ps))"
    using dp by (rule distinct_map_filter)
  ultimately have cnt: "card {p. real_exposure nodes edges (max_depth lm) p \<and> start \<in> set p}
      = length (filter (\<lambda>p. start \<in> set (pv_node_ids p)) ?ps)"
    by (metis distinct_card length_map)
  have len: "length (filter Q (rr_node_ids ?r)) = card {v \<in> set (rr_node_ids ?r). Q v}" for Q
    using distinct_card [of "filter Q (rr_node_ids ?r)"] dis by simp
  show ?thesis
    using assms(1) dis reach [symmetric] cnt len [of "\<lambda>_. True"]
    by (simp add: blast_radius_of_def reachable_from_def Let_def len sum_list_distinct_conv_sum_set)
qed

theorem blast_radius_exact_witness:
  "within_hops (edge_between demo_nodes demo_edges REACHABILITY_RELATIONS) ''b'' 6 = {''a'', ''c''}"
proof -
  have "''b'' \<in> nv_id ` set demo_nodes" by (simp add: demo_nodes_def demo_node_def)
  then have "within_hops (edge_between demo_nodes demo_edges REACHABILITY_RELATIONS) ''b'' 6
      = set (br_affected_ids (blast_radius_of demo_nodes demo_edges ''b'' default_limits))"
    using blast_radius_exact [of "''b''" demo_nodes default_limits demo_edges] demo_not_truncated
    by (simp add: default_limits_def Let_def)
  then show ?thesis by (simp only: demo_blast) simp
qed

text \<open>C15: chokepoint counts are exact, never estimates: a ranked node's \<open>paths_cut\<close> is the number
  of enumerated exposure paths through it and is positive, its evidence is made of such paths, the
  ranking is by decreasing count, and no node left out of it cuts more paths than one in it.\<close>

theorem chokepoints_exact:
  "let r = chokepoints nodes edges lm top_n; ps = pr_paths (exposure_paths nodes edges lm) in
   (\<forall>c\<in>set (cr_chokepoints r).
      ck_paths_cut c = int (length (through (ck_node_id c) ps)) \<and> 0 < ck_paths_cut c
      \<and> ck_total_paths c = int (length ps)
      \<and> ck_fraction c = fl (of_int (ck_paths_cut c) / of_int (int (length ps)))
      \<and> set (ck_evidence_paths c) \<subseteq> set (through (ck_node_id c) ps)
      \<and> (\<forall>v. v \<notin> ck_node_id ` set (cr_chokepoints r) \<longrightarrow> int (length (through v ps)) \<le> ck_paths_cut c))
   \<and> sorted_wrt (\<lambda>a b. ck_paths_cut b \<le> ck_paths_cut a) (cr_chokepoints r)
   \<and> distinct (map ck_node_id (cr_chokepoints r))"
proof -
  define ps where "ps = pr_paths (exposure_paths nodes edges lm)"
  define all where "all = rank_nodes (index_nodes nodes) (paths_by_node ps)"
  define k where "k = nat (max 0 top_n)"
  define mk where "mk = mk_chokepoint (index_nodes nodes) (int (length ps))"
  have r: "cr_chokepoints (chokepoints nodes edges lm top_n) = map mk (take k all)"
    by (simp add: chokepoints_def Let_def ps_def all_def k_def mk_def)
  have ent: "(v, hits) \<in> set all \<Longrightarrow> hits = through v ps \<and> hits \<noteq> []" for v hits
    using paths_by_node_entry [of v hits ps] by (auto simp: all_def rank_nodes_def)
  have ne: "ps \<noteq> []" if "all \<noteq> []"
    using that by (auto simp: all_def rank_nodes_def paths_by_node_def)
  have mk: "ck_node_id (mk e) = fst e" "ck_paths_cut (mk e) = int (length (snd e))"
    "ck_total_paths (mk e) = int (length ps)" "ck_evidence_paths (mk e) = take EVIDENCE_SAMPLE (snd e)"
    "ck_fraction (mk e) = (if ps = [] then 0 else fl (of_int (int (length (snd e))) / of_int (int (length ps))))" for e
    by (simp_all add: mk_def mk_chokepoint_def split: prod.split)
  have srt: "sorted_wrt (\<lambda>a b. length (snd b) \<le> length (snd a)) all"
    unfolding all_def by (rule ranked_by_count)
  have left: "int (length (through v ps)) \<le> int (length (snd e))"
    if e: "e \<in> set (take k all)" and v: "v \<notin> fst ` set (take k all)" for e v
  proof (cases "through v ps = []")
    case False
    then obtain p where "p \<in> set ps" "v \<in> set (pv_node_ids p)" by (auto simp: through_def filter_empty_conv)
    then have "v \<in> fst ` set all"
      using paths_by_node_keys [of ps] by (auto simp: all_def rank_nodes_def)
    then obtain hits where h: "(v, hits) \<in> set all" by auto
    with v have "(v, hits) \<in> set (drop k all)"
      by (metis Un_iff append_take_drop_id fst_conv image_eqI set_append)
    with sorted_dropped_after_kept [OF srt e] ent [OF h] show ?thesis by fastforce
  qed simp
  have kept: "e \<in> set (take k all) \<Longrightarrow> snd e = through (fst e) ps \<and> snd e \<noteq> []" for e
    using ent [of "fst e" "snd e"] set_take_sub [of e k all] by auto
  have "distinct (map fst all)" using paths_by_node_keys by (simp add: all_def rank_nodes_def del: distinct_map)
  then have dis: "distinct (map fst (take k all))" by (simp add: take_map [symmetric] del: distinct_map)
  have ord: "sorted_wrt (\<lambda>a b. ck_paths_cut b \<le> ck_paths_cut a) (map mk (take k all))"
    using sorted_take_prefix [OF srt, of k] by (simp add: sorted_wrt_map mk)
  have nps: "take k all \<noteq> [] \<Longrightarrow> ps \<noteq> []" using ne by auto
  show ?thesis
    unfolding Let_def r ps_def [symmetric]
    using left kept dis ord nps
    by (auto simp: mk image_image o_def dest: in_set_takeD)
qed

theorem chokepoints_exact_witness:
  "\<exists>c::chokepoint. ck_node_id c = ''a'' \<and> 0 < ck_paths_cut c
     \<and> int (length (through ''b'' (pr_paths (exposure_paths demo_nodes demo_edges default_limits)))) \<le> ck_paths_cut c"
proof -
  let ?r = "chokepoints demo_nodes demo_edges default_limits 1"
  have ids: "ck_node_id ` set (cr_chokepoints ?r) = {''a''}"
    using arg_cong [OF demo_chokepoints, of set] by (simp only: list.set_map) simp
  have "''a'' \<in> ck_node_id ` set (cr_chokepoints ?r)" unfolding ids by simp
  then obtain c where c: "''a'' = ck_node_id c" "c \<in> set (cr_chokepoints ?r)" by (rule imageE)
  have b: "''b'' \<notin> ck_node_id ` set (cr_chokepoints ?r)" unfolding ids by simp
  note entry = bspec [OF conjunct1 [OF chokepoints_exact [of demo_nodes demo_edges default_limits 1,
        unfolded Let_def]] c(2)]
  note cuts = entry [THEN conjunct2, THEN conjunct1]
  note most = entry [THEN conjunct2, THEN conjunct2, THEN conjunct2, THEN conjunct2, THEN conjunct2]
  show ?thesis
    by (intro exI [of _ c] conjI) (rule c(1) [symmetric], rule cuts, rule mp [OF spec [OF most] b])
qed

end
