(* ===== verification/AttackChains.thy ===== *)
theory AttackChains
  imports PyValue Enums Binary64 ToolPolicy
begin

text \<open>
  \<open>guardian_core/attack_paths.py\<close>: chaining findings into attack paths.  What a finding requires
  and grants comes from fixed tables; a chain is extended depth first by findings whose
  requirements the capabilities gathered so far meet, on the same asset or one it can reach.  The
  inductive relation \<open>attack_walk\<close> says which sequences of findings are chains at all; the
  enumeration is proved against it in both directions.
\<close>

subsection \<open>Capabilities and profiles\<close>

datatype capability =
    NetworkAccess | CodeExecution | CredentialAccess | DataAccess | PrivilegeEscalation | LateralMovement

primrec capability_value :: "capability \<Rightarrow> string" where
  "capability_value NetworkAccess = ''network_access''"
| "capability_value CodeExecution = ''code_execution''"
| "capability_value CredentialAccess = ''credential_access''"
| "capability_value DataAccess = ''data_access''"
| "capability_value PrivilegeEscalation = ''privilege_escalation''"
| "capability_value LateralMovement = ''lateral_movement''"

definition capability_members :: "capability list" where
  "capability_members =
     [NetworkAccess, CodeExecution, CredentialAccess, DataAccess, PrivilegeEscalation, LateralMovement]"

interpretation capability_enum: str_enum capability_value capability_members
proof unfold_locales
  show "capability_value a = capability_value b \<Longrightarrow> a = b" for a b by (cases a; cases b; simp)
  show "e \<in> set capability_members" for e by (cases e) (simp_all add: capability_members_def)
  show "distinct capability_members" by (simp add: capability_members_def)
qed

record profile =
  pf_requires :: "capability set"
  pf_grants :: "capability set"
  pf_reliability :: int
  pf_rationale :: string

primrec IMPLIES :: "capability \<Rightarrow> capability set" where
  "IMPLIES CodeExecution = {DataAccess}"
| "IMPLIES NetworkAccess = {}"
| "IMPLIES CredentialAccess = {}"
| "IMPLIES DataAccess = {}"
| "IMPLIES PrivilegeEscalation = {}"
| "IMPLIES LateralMovement = {}"

definition expand :: "capability set \<Rightarrow> capability set" where
  "expand capabilities = capabilities \<union> (\<Union>c\<in>capabilities. IMPLIES c)"

definition BY_CWE :: "(string, profile) odict" where
  "BY_CWE = [
    (''CWE-78'', \<lparr>pf_requires = {NetworkAccess}, pf_grants = {CodeExecution}, pf_reliability = 90,
       pf_rationale = ''OS command injection runs an attacker's command on the host''\<rparr>),
    (''CWE-94'', \<lparr>pf_requires = {NetworkAccess}, pf_grants = {CodeExecution}, pf_reliability = 90,
       pf_rationale = ''code injection runs attacker-supplied code in the application''\<rparr>),
    (''CWE-502'', \<lparr>pf_requires = {NetworkAccess}, pf_grants = {CodeExecution}, pf_reliability = 80,
       pf_rationale = ''unsafe deserialization commonly reaches code execution''\<rparr>),
    (''CWE-1336'', \<lparr>pf_requires = {NetworkAccess}, pf_grants = {CodeExecution}, pf_reliability = 85,
       pf_rationale = ''server-side template injection evaluates attacker input''\<rparr>),
    (''CWE-434'', \<lparr>pf_requires = {NetworkAccess}, pf_grants = {CodeExecution}, pf_reliability = 70,
       pf_rationale = ''an unrestricted upload becomes execution when the file is served''\<rparr>),
    (''CWE-89'', \<lparr>pf_requires = {NetworkAccess}, pf_grants = {DataAccess}, pf_reliability = 85,
       pf_rationale = ''SQL injection reads the database the application uses''\<rparr>),
    (''CWE-22'', \<lparr>pf_requires = {NetworkAccess}, pf_grants = {DataAccess}, pf_reliability = 80,
       pf_rationale = ''path traversal reads files outside the intended directory''\<rparr>),
    (''CWE-639'', \<lparr>pf_requires = {NetworkAccess}, pf_grants = {DataAccess}, pf_reliability = 85,
       pf_rationale = ''broken object level authorization reads other tenants' records''\<rparr>),
    (''CWE-213'', \<lparr>pf_requires = {NetworkAccess}, pf_grants = {DataAccess}, pf_reliability = 60,
       pf_rationale = ''the response carries fields the client was not meant to receive''\<rparr>),
    (''CWE-918'', \<lparr>pf_requires = {NetworkAccess}, pf_grants = {NetworkAccess, LateralMovement}, pf_reliability = 75,
       pf_rationale = ''server-side request forgery reaches services the attacker cannot''\<rparr>),
    (''CWE-798'', \<lparr>pf_requires = {DataAccess}, pf_grants = {CredentialAccess}, pf_reliability = 95,
       pf_rationale = ''a hardcoded credential authenticates wherever it is valid''\<rparr>),
    (''CWE-522'', \<lparr>pf_requires = {DataAccess}, pf_grants = {CredentialAccess}, pf_reliability = 80,
       pf_rationale = ''the credential is insufficiently protected where it is stored''\<rparr>),
    (''CWE-256'', \<lparr>pf_requires = {DataAccess}, pf_grants = {CredentialAccess}, pf_reliability = 80,
       pf_rationale = ''the credential is stored in plaintext''\<rparr>),
    (''CWE-306'', \<lparr>pf_requires = {NetworkAccess}, pf_grants = {DataAccess}, pf_reliability = 90,
       pf_rationale = ''the function requires no authentication at all''\<rparr>),
    (''CWE-287'', \<lparr>pf_requires = {NetworkAccess}, pf_grants = {DataAccess}, pf_reliability = 70,
       pf_rationale = ''authentication can be bypassed''\<rparr>),
    (''CWE-308'', \<lparr>pf_requires = {CredentialAccess}, pf_grants = {DataAccess}, pf_reliability = 70,
       pf_rationale = ''a stolen password is sufficient with no second factor''\<rparr>),
    (''CWE-269'', \<lparr>pf_requires = {CredentialAccess}, pf_grants = {PrivilegeEscalation, LateralMovement}, pf_reliability = 85,
       pf_rationale = ''the principal's permissions exceed its purpose''\<rparr>),
    (''CWE-250'', \<lparr>pf_requires = {CodeExecution}, pf_grants = {PrivilegeEscalation, LateralMovement}, pf_reliability = 80,
       pf_rationale = ''the workload runs with privileges that reach the node''\<rparr>),
    (''CWE-284'', \<lparr>pf_requires = {}, pf_grants = {NetworkAccess}, pf_reliability = 90,
       pf_rationale = ''access control does not restrict who can reach the service''\<rparr>),
    (''CWE-668'', \<lparr>pf_requires = {CodeExecution}, pf_grants = {LateralMovement}, pf_reliability = 75,
       pf_rationale = ''the resource is exposed to a sphere that should not have it''\<rparr>),
    (''CWE-732'', \<lparr>pf_requires = {}, pf_grants = {DataAccess}, pf_reliability = 80,
       pf_rationale = ''permissions allow access the resource's owner did not intend''\<rparr>),
    (''CWE-319'', \<lparr>pf_requires = {NetworkAccess}, pf_grants = {CredentialAccess}, pf_reliability = 40,
       pf_rationale = ''credentials cross the network in cleartext for anyone positioned to read''\<rparr>),
    (''CWE-200'', \<lparr>pf_requires = {NetworkAccess}, pf_grants = {DataAccess}, pf_reliability = 40,
       pf_rationale = ''information is disclosed to an unauthorized actor''\<rparr>),
    (''CWE-79'', \<lparr>pf_requires = {NetworkAccess}, pf_grants = {CredentialAccess}, pf_reliability = 55,
       pf_rationale = ''cross-site scripting steals the session of whoever views the page''\<rparr>)]"

definition cwe_profile :: "string \<Rightarrow> profile" where
  "cwe_profile k = the (dict_get BY_CWE k)"

definition BY_CATEGORY :: "(string, profile) odict" where
  "BY_CATEGORY = [
    (''secret'', cwe_profile ''CWE-798''),
    (''injection'', \<lparr>pf_requires = {NetworkAccess}, pf_grants = {DataAccess}, pf_reliability = 70,
       pf_rationale = ''the input reaches an interpreter''\<rparr>),
    (''vuln-dep'', \<lparr>pf_requires = {NetworkAccess}, pf_grants = {CodeExecution}, pf_reliability = 50,
       pf_rationale = ''a known-vulnerable component is in the running code path''\<rparr>),
    (''cloud-misconfig'', \<lparr>pf_requires = {}, pf_grants = {DataAccess}, pf_reliability = 60,
       pf_rationale = ''the cloud resource is configured more openly than intended''\<rparr>),
    (''k8s-misconfig'', \<lparr>pf_requires = {CodeExecution}, pf_grants = {PrivilegeEscalation}, pf_reliability = 70,
       pf_rationale = ''the workload's settings weaken the boundary around it''\<rparr>),
    (''api-authorization'', cwe_profile ''CWE-639''),
    (''web-misconfig'', \<lparr>pf_requires = {NetworkAccess}, pf_grants = {DataAccess}, pf_reliability = 40,
       pf_rationale = ''the service's configuration exposes more than intended''\<rparr>),
    (''insecure-code'', \<lparr>pf_requires = {NetworkAccess}, pf_grants = {DataAccess}, pf_reliability = 50,
       pf_rationale = ''the code path handles untrusted input unsafely''\<rparr>)]"

definition EXPLOIT_BONUS :: "(string, int) odict" where
  "EXPLOIT_BONUS = [(''high'', 10), (''functional'', 8), (''poc'', 3), (''unproven'', 0)]"

record finding_view =
  fv_id :: string
  fv_asset_id :: string
  fv_title :: string
  fv_severity :: string
  fv_risk_score :: int
  fv_category :: string
  fv_cwe_id :: "string option"
  fv_kev :: bool
  fv_exploit_maturity :: "string option"
  fv_node_id :: string

definition opt_text :: "string option \<Rightarrow> string" where
  "opt_text s = (case s of Some t \<Rightarrow> t | None \<Rightarrow> [])"

definition base_profile :: "finding_view \<Rightarrow> profile option" where
  "base_profile f = (case dict_get BY_CWE (opt_text (fv_cwe_id f)) of Some p \<Rightarrow> Some p
     | None \<Rightarrow> dict_get BY_CATEGORY (fv_category f))"

definition profile_for :: "finding_view \<Rightarrow> profile option" where
  "profile_for f = (case base_profile f of None \<Rightarrow> None
     | Some base \<Rightarrow>
       let bonus = dict_getdef EXPLOIT_BONUS (opt_text (fv_exploit_maturity f)) 0
                   + (if fv_kev f then 10 else 0)
       in Some (base\<lparr>pf_reliability := min 99 (pf_reliability base + bonus)\<rparr>))"

subsection \<open>Steps and scores\<close>

record chain_step =
  st_finding_id :: string
  st_asset_id :: string
  st_node_id :: string
  st_title :: string
  st_severity :: string
  st_cwe_id :: "string option"
  st_grants :: "string list"
  st_reliability :: int
  st_rationale :: string

record chain =
  ch_steps :: "chain_step list"
  ch_entry_node_id :: string
  ch_entry_key :: string
  ch_likelihood :: int
  ch_impact :: int
  ch_score :: int

definition mk_step :: "finding_view \<Rightarrow> string \<Rightarrow> profile \<Rightarrow> chain_step" where
  "mk_step f asset p = \<lparr>st_finding_id = fv_id f, st_asset_id = asset, st_node_id = fv_node_id f,
     st_title = fv_title f, st_severity = fv_severity f, st_cwe_id = fv_cwe_id f,
     st_grants = sort (map capability_value (filter (\<lambda>c. c \<in> pf_grants p) capability_members)),
     st_reliability = pf_reliability p, st_rationale = pf_rationale p\<rparr>"

primrec IMPACT_BY_CAPABILITY :: "capability \<Rightarrow> int" where
  "IMPACT_BY_CAPABILITY CodeExecution = 90"
| "IMPACT_BY_CAPABILITY PrivilegeEscalation = 85"
| "IMPACT_BY_CAPABILITY CredentialAccess = 80"
| "IMPACT_BY_CAPABILITY LateralMovement = 75"
| "IMPACT_BY_CAPABILITY DataAccess = 70"
| "IMPACT_BY_CAPABILITY NetworkAccess = 30"

definition criticality_shift :: "string \<Rightarrow> int" where
  "criticality_shift k = dict_getdef [(''critical'', 10), (''high'', 5), (''medium'', 0), (''low'', -10)] k 0"

text \<open>\<open>{Capability(g) for step in steps for g in step.grants}\<close>; an unknown value raises.\<close>

fun capabilities_of :: "string list \<Rightarrow> py_error + capability list" where
  "capabilities_of [] = Inr []"
| "capabilities_of (g # gs) =
     (case enum_of capability_value capability_members g of None \<Rightarrow> Inl ValueError
      | Some c \<Rightarrow> (case capabilities_of gs of Inl e \<Rightarrow> Inl e | Inr cs \<Rightarrow> Inr (c # cs)))"

definition clamp100 :: "int \<Rightarrow> int" where
  "clamp100 x = max 0 (min 100 x)"

definition likelihood_of :: "chain_step list \<Rightarrow> rat" where
  "likelihood_of steps = foldl (\<lambda>l s. fl (l * fl (of_int (st_reliability s) / 100))) 1 steps"

definition score_chain :: "chain_step list \<Rightarrow> string \<Rightarrow> py_error + (int \<times> int \<times> int)" where
  "score_chain steps asset_criticality =
     (if steps = [] then Inr (0, 0, 0)
      else
        let likelihood_int = max 1 (rhe (fl (likelihood_of steps * 100)))
        in case capabilities_of (concat (map st_grants steps)) of Inl e \<Rightarrow> Inl e
           | Inr granted \<Rightarrow>
             let impact = clamp100 (foldl (\<lambda>m c. max m (IMPACT_BY_CAPABILITY c)) 0 granted
                                    + criticality_shift asset_criticality);
                 penalty = min 15 ((int (length steps) - 1) * 5);
                 blend = fl (fl (of_int likelihood_int * fl (4/10)) + fl (of_int impact * fl (6/10)))
             in Inr (likelihood_int, impact, clamp100 (rhe blend - penalty)))"

subsection \<open>Enumeration\<close>

definition mobile :: "capability set \<Rightarrow> bool" where
  "mobile held \<longleftrightarrow> LateralMovement \<in> held \<or> CodeExecution \<in> held \<or> NetworkAccess \<in> held"

text \<open>The findings on the current asset, then those on its neighbours in order.\<close>

definition next_candidates ::
  "(string, finding_view list) odict \<Rightarrow> (string, string list) odict \<Rightarrow> capability set \<Rightarrow> string
     \<Rightarrow> (string \<times> finding_view) list" where
  "next_candidates by_asset reachable held asset =
     map (Pair asset) (dict_getdef by_asset asset [])
     @ (if mobile held then
          concat (map (\<lambda>nb. map (Pair nb) (dict_getdef by_asset nb []))
            (sorted_set (dict_getdef reachable asset [])))
        else [])"

definition usable :: "string set \<Rightarrow> capability set \<Rightarrow> finding_view \<Rightarrow> profile option" where
  "usable used held f =
     (if fv_id f \<in> used then None
      else case profile_for f of None \<Rightarrow> None
        | Some p \<Rightarrow> if \<not> pf_requires p \<subseteq> held \<or> expand (pf_grants p) \<subseteq> held then None else Some p)"

function walk ::
  "(string, finding_view list) odict \<Rightarrow> (string, string list) odict \<Rightarrow> int \<Rightarrow> chain_step list
     \<Rightarrow> capability set \<Rightarrow> string \<Rightarrow> string set \<Rightarrow> chain_step list list" where
  "walk by_asset reachable max_length steps held asset used =
     steps #
     (if max_length \<le> int (length steps) then []
      else concat (map (\<lambda>(next_asset, f). case usable used held f of None \<Rightarrow> []
             | Some p \<Rightarrow> walk by_asset reachable max_length (steps @ [mk_step f next_asset p])
                          (expand (held \<union> pf_grants p)) next_asset (insert (fv_id f) used))
           (next_candidates by_asset reachable held asset)))"
  by pat_completeness auto
termination
  by (relation "measure (\<lambda>(by_asset, reachable, max_length, steps, held, asset, used).
        nat (max_length - int (length steps)))") auto

declare walk.simps [simp del]

definition extend_chain ::
  "finding_view \<Rightarrow> string \<Rightarrow> (string, finding_view list) odict \<Rightarrow> (string, string list) odict \<Rightarrow> int
     \<Rightarrow> chain_step list list" where
  "extend_chain start asset by_asset reachable max_length =
     (case profile_for start of None \<Rightarrow> []
      | Some first \<Rightarrow> filter (\<lambda>c. 2 \<le> length c)
          (walk by_asset reachable max_length [mk_step start asset first]
             (expand (insert NetworkAccess (pf_grants first))) asset {fv_id start}))"

subsection \<open>Building the result\<close>

record chain_result =
  cs_chains :: "chain list"
  cs_truncated :: bool
  cs_unmapped :: "string list"

definition by_risk :: "finding_view list \<Rightarrow> finding_view list" where
  "by_risk findings = sort_key (\<lambda>f. (- fv_risk_score f, fv_id f)) findings"

definition group_mapped :: "finding_view list \<Rightarrow> (string, finding_view list) odict" where
  "group_mapped fs = foldl (\<lambda>d f. dict_append (fv_asset_id f) f d) [] (filter (\<lambda>f. profile_for f \<noteq> None) fs)"

definition can_start :: "finding_view \<Rightarrow> bool" where
  "can_start f = (case profile_for f of None \<Rightarrow> False | Some p \<Rightarrow> pf_requires p \<subseteq> {NetworkAccess})"

text \<open>All chains, in the order the three nested loops of the code meet them; each \<open>break\<close> leaves
  all of them at once.\<close>

definition all_chains ::
  "(string, finding_view list) odict \<Rightarrow> (string, string list) odict \<Rightarrow> string list \<Rightarrow> int \<Rightarrow> chain_step list list"
  where
  "all_chains by_asset reachable entries max_length =
     concat (map (\<lambda>entry. concat (map (\<lambda>start. extend_chain start entry by_asset reachable max_length)
         (filter can_start (dict_getdef by_asset entry [])))) (sorted_set entries))"

fun collect_chains :: "int \<Rightarrow> 'a list \<Rightarrow> 'a list \<Rightarrow> 'a list \<times> bool" where
  "collect_chains max_enumerated acc [] = (acc, False)"
| "collect_chains max_enumerated acc (c # cs) =
     (if max_enumerated \<le> int (length acc) then (acc, True)
      else collect_chains max_enumerated (acc @ [c]) cs)"

definition score_candidate ::
  "(string, string) odict \<Rightarrow> (string, string) odict \<Rightarrow> chain_step list \<Rightarrow> py_error + chain" where
  "score_candidate entry_keys criticality steps =
     (if steps = [] then Inl IndexError
      else
        let entry = st_asset_id (hd steps)
        in case score_chain steps (dict_getdef criticality (st_asset_id (last steps)) ''medium'') of
             Inl e \<Rightarrow> Inl e
           | Inr (likelihood, impact, score) \<Rightarrow>
               Inr \<lparr>ch_steps = steps, ch_entry_node_id = entry, ch_entry_key = dict_getdef entry_keys entry entry,
                    ch_likelihood = likelihood, ch_impact = impact, ch_score = score\<rparr>)"

fun score_all ::
  "(string, string) odict \<Rightarrow> (string, string) odict \<Rightarrow> chain_step list list \<Rightarrow> py_error + chain list" where
  "score_all entry_keys criticality [] = Inr []"
| "score_all entry_keys criticality (s # ss) =
     (case score_candidate entry_keys criticality s of Inl e \<Rightarrow> Inl e
      | Inr c \<Rightarrow> (case score_all entry_keys criticality ss of Inl e \<Rightarrow> Inl e | Inr cs \<Rightarrow> Inr (c # cs)))"

definition chain_rank :: "chain \<Rightarrow> int \<times> int \<times> string list" where
  "chain_rank c = (- ch_score c, - int (length (ch_steps c)), map st_finding_id (ch_steps c))"

text \<open>\<open>xs[:n]\<close>, where a negative \<open>n\<close> counts from the end.\<close>

definition py_take :: "int \<Rightarrow> 'a list \<Rightarrow> 'a list" where
  "py_take n xs = take (nat (if n < 0 then int (length xs) + n else n)) xs"

definition build_chains ::
  "finding_view list \<Rightarrow> (string, string list) odict \<Rightarrow> string list \<Rightarrow> (string, string) odict
     \<Rightarrow> (string, string) odict \<Rightarrow> int \<Rightarrow> int \<Rightarrow> int \<Rightarrow> py_error + chain_result" where
  "build_chains findings reachable entry_assets entry_keys criticality max_length max_chains max_enumerated =
     (let fs = by_risk findings;
          by_asset = group_mapped fs;
          unmapped = map fv_id (filter (\<lambda>f. profile_for f = None) fs)
      in case collect_chains max_enumerated [] (all_chains by_asset reachable entry_assets max_length) of
           (candidates, enumeration_truncated) \<Rightarrow>
         (case score_all entry_keys criticality candidates of Inl e \<Rightarrow> Inl e
          | Inr scored \<Rightarrow>
              let chains = sort_key chain_rank scored
              in Inr \<lparr>cs_chains = py_take max_chains chains,
                      cs_truncated = (enumeration_truncated \<or> max_chains < int (length chains)),
                      cs_unmapped = sort unmapped\<rparr>))"

subsection \<open>Which sequences are chains\<close>

text \<open>A walk starts at a finding an unauthenticated attacker can use on an entry asset; each hop uses a
  new finding whose requirements are met by the capabilities held, which grants something new, on
  the same asset or, with a capability that moves, on one the current asset reaches.\<close>

inductive attack_walk ::
  "finding_view list \<Rightarrow> (string, string list) odict \<Rightarrow> string list
     \<Rightarrow> chain_step list \<Rightarrow> capability set \<Rightarrow> string \<Rightarrow> string set \<Rightarrow> bool"
  for findings reachable entries where
  start: "f \<in> set findings \<Longrightarrow> fv_asset_id f \<in> set entries \<Longrightarrow> profile_for f = Some p
    \<Longrightarrow> pf_requires p \<subseteq> {NetworkAccess}
    \<Longrightarrow> attack_walk findings reachable entries [mk_step f (fv_asset_id f) p]
          (expand (insert NetworkAccess (pf_grants p))) (fv_asset_id f) {fv_id f}"
| hop: "attack_walk findings reachable entries steps held asset used \<Longrightarrow> f \<in> set findings
    \<Longrightarrow> fv_id f \<notin> used \<Longrightarrow> profile_for f = Some p \<Longrightarrow> pf_requires p \<subseteq> held
    \<Longrightarrow> \<not> expand (pf_grants p) \<subseteq> held
    \<Longrightarrow> fv_asset_id f = asset
        \<or> mobile held \<and> fv_asset_id f \<in> set (dict_getdef reachable asset [])
    \<Longrightarrow> attack_walk findings reachable entries (steps @ [mk_step f (fv_asset_id f) p])
          (expand (held \<union> pf_grants p)) (fv_asset_id f) (insert (fv_id f) used)"

lemma mk_step_simps [simp]:
  "st_finding_id (mk_step f a p) = fv_id f" "st_asset_id (mk_step f a p) = a"
  "st_reliability (mk_step f a p) = pf_reliability p" "st_title (mk_step f a p) = fv_title f"
  by (simp_all add: mk_step_def)

lemma profile_range:
  assumes "profile_for f = Some p"
  shows "0 \<le> pf_reliability p" "pf_reliability p \<le> 99"
proof -
  have cwe: "list_all (\<lambda>(k, q). 0 \<le> pf_reliability q) BY_CWE"
    by (simp add: BY_CWE_def)
  have cat: "list_all (\<lambda>(k, q). 0 \<le> pf_reliability q) BY_CATEGORY"
    by (simp add: BY_CATEGORY_def cwe_profile_def BY_CWE_def)
  obtain b where b: "base_profile f = Some b"
    and p: "p = b\<lparr>pf_reliability := min 99 (pf_reliability b
        + (dict_getdef EXPLOIT_BONUS (opt_text (fv_exploit_maturity f)) 0 + (if fv_kev f then 10 else 0)))\<rparr>"
    using assms by (auto simp: profile_for_def Let_def split: option.splits)
  have "0 \<le> pf_reliability b"
    using b cwe cat by (auto simp: base_profile_def list_all_iff split: option.splits dest!: map_of_SomeD)
  moreover have "0 \<le> dict_getdef EXPLOIT_BONUS m 0" for m
    by (auto simp: EXPLOIT_BONUS_def dict_getdef_def)
  ultimately have "0 \<le> pf_reliability b
        + (dict_getdef EXPLOIT_BONUS (opt_text (fv_exploit_maturity f)) 0 + (if fv_kev f then 10 else 0))"
    by (smt (verit))
  then show "0 \<le> pf_reliability p" "pf_reliability p \<le> 99" by (simp_all add: p)
qed

definition step_ok :: "chain_step \<Rightarrow> bool" where
  "step_ok s \<longleftrightarrow> (\<forall>g\<in>set (st_grants s). g \<in> range capability_value)
     \<and> 0 \<le> st_reliability s \<and> st_reliability s \<le> 99"

lemma mk_step_ok: "profile_for f = Some p \<Longrightarrow> step_ok (mk_step f a p)"
  using profile_range [of f p] by (auto simp: step_ok_def mk_step_def)

text \<open>What every walk satisfies, by induction on the relation.\<close>

lemma walk_facts:
  assumes "attack_walk findings reachable entries steps held asset used"
  shows "steps \<noteq> [] \<and> list_all step_ok steps \<and> distinct (map st_finding_id steps)
    \<and> used = st_finding_id ` set steps \<and> st_asset_id (hd steps) \<in> set entries
    \<and> st_asset_id (last steps) = asset
    \<and> st_finding_id ` set steps \<subseteq> fv_id ` set findings \<and> NetworkAccess \<in> held"
  using assms
  by induction (auto simp: mk_step_ok expand_def)

lemma walk_moves:
  assumes "attack_walk findings reachable entries steps held asset used"
  shows "successively (\<lambda>s t. st_asset_id t = st_asset_id s
      \<or> st_asset_id t \<in> set (dict_getdef reachable (st_asset_id s) [])) steps"
  using assms
proof induction
  case (hop steps held asset used f p)
  then show ?case
    using walk_facts [OF hop.hyps(1)] by (auto simp: successively_append_iff)
qed simp

subsection \<open>The enumeration finds exactly the walks\<close>

lemma group_mapped_get:
  "f \<in> set (dict_getdef (group_mapped fs) a []) \<longleftrightarrow> f \<in> set fs \<and> fv_asset_id f = a \<and> profile_for f \<noteq> None"
proof -
  have "dict_getdef (foldl (\<lambda>d f. dict_append (fv_asset_id f) f d) d xs) a [] =
      dict_getdef d a [] @ filter (\<lambda>f. fv_asset_id f = a) xs" for d and xs :: "finding_view list"
    by (induction xs arbitrary: d) (auto simp: dict_getdef_append)
  then show ?thesis by (auto simp: group_mapped_def dict_getdef_def [of "[]"])
qed

lemma set_by_risk [simp]: "set (by_risk fs) = set fs"
  by (simp add: by_risk_def)

lemma usable_Some:
  "usable used held f = Some p \<longleftrightarrow>
     fv_id f \<notin> used \<and> profile_for f = Some p \<and> pf_requires p \<subseteq> held \<and> \<not> expand (pf_grants p) \<subseteq> held"
  by (auto simp: usable_def split: option.splits)

lemma next_candidates_iff:
  "(a', f) \<in> set (next_candidates (group_mapped (by_risk findings)) reachable held a) \<longleftrightarrow>
     f \<in> set findings \<and> profile_for f \<noteq> None \<and> fv_asset_id f = a'
     \<and> (a' = a \<or> mobile held \<and> a' \<in> set (dict_getdef reachable a []))"
proof -
  have pair: "(x, y) \<in> Pair z ` S \<longleftrightarrow> x = z \<and> y \<in> S" for x y z and S :: "finding_view set"
    by auto
  show ?thesis by (auto simp: next_candidates_def group_mapped_get pair)
qed

lemma walk_iff:
  "c \<in> set (walk by_asset reachable max_length steps held asset used) \<longleftrightarrow>
     c = steps \<or> int (length steps) < max_length
       \<and> (\<exists>a' f p. (a', f) \<in> set (next_candidates by_asset reachable held asset) \<and> usable used held f = Some p
           \<and> c \<in> set (walk by_asset reachable max_length (steps @ [mk_step f a' p])
                (expand (held \<union> pf_grants p)) a' (insert (fv_id f) used)))"
  unfolding walk.simps [of by_asset reachable max_length steps held asset used]
  by (force split: option.splits)

lemma walk_sound:
  assumes "attack_walk findings reachable entries steps held asset used"
    and "c \<in> set (walk (group_mapped (by_risk findings)) reachable max_length steps held asset used)"
  shows "\<exists>held asset used. attack_walk findings reachable entries c held asset used
    \<and> int (length c) \<le> max max_length (int (length steps))"
  using assms
proof (induction "nat (max_length - int (length steps))" arbitrary: steps held asset used rule: less_induct)
  case less
  show ?case
  proof (cases "c = steps")
    case True
    with less.prems(1) show ?thesis by auto
  next
    case False
    then obtain a' f p where room: "\<not> max_length \<le> int (length steps)"
      and cand: "(a', f) \<in> set (next_candidates (group_mapped (by_risk findings)) reachable held asset)"
      and u: "usable used held f = Some p"
      and c: "c \<in> set (walk (group_mapped (by_risk findings)) reachable max_length (steps @ [mk_step f a' p])
          (expand (held \<union> pf_grants p)) a' (insert (fv_id f) used))"
      using less.prems(2) unfolding walk_iff [of c _ _ _ steps] by auto
    have "attack_walk findings reachable entries (steps @ [mk_step f a' p])
          (expand (held \<union> pf_grants p)) a' (insert (fv_id f) used)"
      using attack_walk.hop [OF less.prems(1), of f p] cand u
      by (auto simp: next_candidates_iff usable_Some)
    from less.hyps [OF _ this c] room
    have "\<exists>held asset used. attack_walk findings reachable entries c held asset used
        \<and> int (length c) \<le> max max_length (int (length (steps @ [mk_step f a' p])))"
      by simp
    moreover have "max max_length (int (length (steps @ [mk_step f a' p]))) = max_length"
      "max max_length (int (length steps)) = max_length"
      using room by auto
    ultimately show ?thesis by (simp only:)
  qed
qed

lemma walk_step_in:
  assumes "int (length steps) < max_length"
    and "(a', f) \<in> set (next_candidates by_asset reachable held asset)" "usable used held f = Some p"
  shows "set (walk by_asset reachable max_length (steps @ [mk_step f a' p])
           (expand (held \<union> pf_grants p)) a' (insert (fv_id f) used))
       \<subseteq> set (walk by_asset reachable max_length steps held asset used)"
proof
  fix c assume c: "c \<in> set (walk by_asset reachable max_length (steps @ [mk_step f a' p])
           (expand (held \<union> pf_grants p)) a' (insert (fv_id f) used))"
  show "c \<in> set (walk by_asset reachable max_length steps held asset used)"
    by (rule walk_iff [THEN iffD2], rule disjI2, rule conjI, rule assms(1), intro exI conjI,
        rule assms(2), rule assms(3), rule c)
qed

lemma walk_self: "steps \<in> set (walk by_asset reachable max_length steps held asset used)"
  by (rule walk_iff [THEN iffD2], rule disjI1, rule refl)

definition start_walks :: "finding_view list \<Rightarrow> (string, string list) odict \<Rightarrow> string list \<Rightarrow> int \<Rightarrow> chain_step list set" where
  "start_walks findings reachable entries max_length =
     (\<Union>(a, f, p) \<in> {(a, f, p). a \<in> set entries \<and> f \<in> set findings \<and> fv_asset_id f = a
           \<and> profile_for f = Some p \<and> pf_requires p \<subseteq> {NetworkAccess}}.
        set (walk (group_mapped (by_risk findings)) reachable max_length [mk_step f a p]
              (expand (insert NetworkAccess (pf_grants p))) a {fv_id f}))"

lemma walk_complete:
  assumes "attack_walk findings reachable entries steps held asset used" "int (length steps) \<le> max 1 max_length"
  shows "set (walk (group_mapped (by_risk findings)) reachable max_length steps held asset used)
    \<subseteq> start_walks findings reachable entries max_length"
  using assms
proof induction
  case (start f p)
  then show ?case by (fastforce simp: start_walks_def)
next
  case (hop steps held asset used f p)
  have "steps \<noteq> []" using walk_facts [OF hop.hyps(1)] by blast
  then have len: "int (length steps) < max_length"
    using hop.prems by (cases steps) (auto simp: max_def split: if_splits)
  have cand: "(fv_asset_id f, f) \<in> set (next_candidates (group_mapped (by_risk findings)) reachable held asset)"
    using hop.hyps by (auto simp: next_candidates_iff)
  have "usable used held f = Some p" using hop.hyps by (simp add: usable_Some)
  from walk_step_in [OF len cand this] hop.IH len show ?case by (simp add: max_def)
qed

lemma all_chains_start_walks:
  "set (all_chains (group_mapped (by_risk findings)) reachable entries max_length)
     = {c \<in> start_walks findings reachable entries max_length. 2 \<le> length c}"
proof -
  have one: "set (extend_chain f a by_asset reachable max_length) = {c. \<exists>p. profile_for f = Some p \<and> 2 \<le> length c
      \<and> c \<in> set (walk by_asset reachable max_length [mk_step f a p]
          (expand (insert NetworkAccess (pf_grants p))) a {fv_id f})}" for f a by_asset
    by (cases "profile_for f") (auto simp: extend_chain_def)
  have st: "can_start f \<longleftrightarrow> (\<exists>p. profile_for f = Some p \<and> pf_requires p \<subseteq> {NetworkAccess})" for f
    by (auto simp: can_start_def split: option.splits)
  show ?thesis
    unfolding all_chains_def start_walks_def
    by (auto simp: one st group_mapped_get) blast+
qed

lemma all_chains_iff:
  "c \<in> set (all_chains (group_mapped (by_risk findings)) reachable entries max_length) \<longleftrightarrow>
     2 \<le> length c \<and> int (length c) \<le> max_length
     \<and> (\<exists>held asset used. attack_walk findings reachable entries c held asset used)"
  (is "?l \<longleftrightarrow> ?r")
proof
  assume ?l
  then obtain f p where len: "2 \<le> length c" and f: "fv_asset_id f \<in> set entries" "f \<in> set findings"
      "profile_for f = Some p" "pf_requires p \<subseteq> {NetworkAccess}"
    and c: "c \<in> set (walk (group_mapped (by_risk findings)) reachable max_length [mk_step f (fv_asset_id f) p]
              (expand (insert NetworkAccess (pf_grants p))) (fv_asset_id f) {fv_id f})"
    by (auto simp: all_chains_start_walks start_walks_def)
  from walk_sound [OF attack_walk.start c, of entries] f len show ?r by auto
next
  assume r: ?r
  then obtain held asset used where w: "attack_walk findings reachable entries c held asset used" by blast
  from walk_complete [OF w, of max_length] walk_self r show ?l
    by (auto simp: all_chains_start_walks max_def split: if_splits)
qed

subsection \<open>Scores\<close>

lemma likelihood_snoc: "likelihood_of (steps @ [s]) = fl (likelihood_of steps * fl (of_int (st_reliability s) / 100))"
  by (simp add: likelihood_of_def)

lemma likelihood_range:
  "list_all step_ok steps \<Longrightarrow> 0 \<le> likelihood_of steps \<and> likelihood_of steps \<le> 1"
proof (induction steps rule: rev_induct)
  case Nil
  then show ?case by (simp add: likelihood_of_def)
next
  case (snoc s steps)
  have r: "0 \<le> fl (of_int (st_reliability s) / 100)" "fl (of_int (st_reliability s) / 100) \<le> 1"
    using snoc.prems by (auto simp: step_ok_def intro!: fl_nonneg fl_le_1)
  have l: "0 \<le> likelihood_of steps" "likelihood_of steps \<le> 1" using snoc by auto
  have "likelihood_of steps * fl (of_int (st_reliability s) / 100) \<le> 1 * 1"
    using l r by (intro mult_mono) auto
  with l r show ?case by (auto simp: likelihood_snoc intro!: fl_nonneg fl_le_1)
qed

lemma likelihood_is_float: "fl (likelihood_of steps) = likelihood_of steps"
  by (cases steps rule: rev_cases) (simp_all add: likelihood_of_def)

lemma likelihood_snoc_le:
  assumes "list_all step_ok steps" "step_ok s"
  shows "likelihood_of (steps @ [s]) \<le> likelihood_of steps"
  unfolding likelihood_snoc
  using assms likelihood_range [of steps]
  by (intro fl_mult_le likelihood_is_float) (auto simp: step_ok_def intro: fl_le_1)

lemma capabilities_total:
  "\<forall>g\<in>set gs. g \<in> range capability_value \<Longrightarrow> \<exists>cs. capabilities_of gs = Inr cs"
  by (induction gs) (auto simp: capability_enum.of_value)

lemma score_chain_ok:
  assumes "list_all step_ok steps" "steps \<noteq> []"
  obtains i where "score_chain steps k = Inr (max 1 (rhe (fl (likelihood_of steps * 100))), clamp100 i,
      clamp100 (rhe (fl (fl (of_int (max 1 (rhe (fl (likelihood_of steps * 100)))) * fl (4/10))
        + fl (of_int (clamp100 i) * fl (6/10)))) - min 15 ((int (length steps) - 1) * 5)))"
proof -
  have "\<forall>g\<in>set (concat (map st_grants steps)). g \<in> range capability_value"
    using assms(1) by (fastforce simp: list_all_iff step_ok_def)
  then obtain cs where "capabilities_of (concat (map st_grants steps)) = Inr cs"
    using capabilities_total by blast
  with assms(2) that show ?thesis by (simp add: score_chain_def Let_def)
qed

lemma likelihood_le_100: "list_all step_ok steps \<Longrightarrow> rhe (fl (likelihood_of steps * 100)) \<le> 100"
  using likelihood_range [of steps] fl_le_int [of "likelihood_of steps * 100" 100]
  by (intro rhe_le) simp

lemma score_all_Inr:
  assumes "\<forall>s\<in>set ss. s \<noteq> [] \<and> list_all step_ok s"
  shows "\<exists>cs. score_all entry_keys criticality ss = Inr cs \<and> map ch_steps cs = ss
    \<and> (\<forall>c\<in>set cs. score_candidate entry_keys criticality (ch_steps c) = Inr c)"
  using assms
proof (induction ss)
  case (Cons s ss)
  obtain l i sc where sc: "score_chain s (dict_getdef criticality (st_asset_id (last s)) ''medium'') = Inr (l, i, sc)"
    using score_chain_ok [of s] Cons.prems by (metis list.set_intros(1))
  then have "\<exists>c. score_candidate entry_keys criticality s = Inr c \<and> ch_steps c = s"
    using Cons.prems by (simp add: score_candidate_def Let_def)
  with Cons show ?case by auto
qed simp

lemma collect_chains_prefix:
  "\<exists>n. fst (collect_chains k acc cs) = acc @ take n cs
     \<and> (\<not> snd (collect_chains k acc cs) \<longrightarrow> fst (collect_chains k acc cs) = acc @ cs)"
proof (induction cs arbitrary: acc)
  case (Cons c cs)
  show ?case
  proof (cases "k \<le> int (length acc)")
    case True
    then show ?thesis by (auto intro: exI [of _ 0])
  next
    case False
    from Cons.IH [of "acc @ [c]"] obtain n where
      "fst (collect_chains k (acc @ [c]) cs) = (acc @ [c]) @ take n cs"
      "\<not> snd (collect_chains k (acc @ [c]) cs) \<longrightarrow> fst (collect_chains k (acc @ [c]) cs) = (acc @ [c]) @ cs"
      by blast
    with False show ?thesis by (intro exI [of _ "Suc n"]) auto
  qed
qed simp

text \<open>The whole construction, as one equation between the result and the walks.\<close>

lemma build_chains_shape:
  "\<exists>r chains. build_chains findings reachable entries entry_keys criticality max_length max_chains max_enumerated = Inr r
     \<and> cs_chains r = py_take max_chains (sort_key chain_rank chains)
     \<and> set (map ch_steps chains) \<subseteq> set (all_chains (group_mapped (by_risk findings)) reachable entries max_length)
     \<and> (\<not> cs_truncated r \<longrightarrow> int (length chains) \<le> max_chains
          \<and> map ch_steps chains = all_chains (group_mapped (by_risk findings)) reachable entries max_length)
     \<and> (\<forall>c\<in>set chains. score_candidate entry_keys criticality (ch_steps c) = Inr c)"
proof -
  let ?all = "all_chains (group_mapped (by_risk findings)) reachable entries max_length"
  obtain cands t where col: "collect_chains max_enumerated [] ?all = (cands, t)" by (cases "collect_chains max_enumerated [] ?all")
  from collect_chains_prefix [of max_enumerated "[]" ?all]
  obtain n where n: "cands = take n ?all" "\<not> t \<longrightarrow> cands = ?all"
    unfolding col fst_conv snd_conv append_Nil by blast
  have "\<forall>s\<in>set cands. s \<noteq> [] \<and> list_all step_ok s"
    using n(1) walk_facts by (fastforce simp: all_chains_iff dest!: in_set_takeD)
  then obtain cs where cs: "score_all entry_keys criticality cands = Inr cs" "map ch_steps cs = cands"
      "\<forall>c\<in>set cs. score_candidate entry_keys criticality (ch_steps c) = Inr c"
    using score_all_Inr by blast
  have "set (map ch_steps cs) \<subseteq> set ?all" unfolding cs(2) n(1) by (rule set_take_subset)
  with cs n col show ?thesis
    by (intro exI [of _ "\<lparr>cs_chains = py_take max_chains (sort_key chain_rank cs),
          cs_truncated = (t \<or> max_chains < int (length cs)),
          cs_unmapped = sort (map fv_id (filter (\<lambda>f. profile_for f = None) (by_risk findings)))\<rparr>"] exI [of _ cs])
      (simp add: build_chains_def Let_def)
qed

subsection \<open>Properties\<close>

definition real_chain ::
  "finding_view list \<Rightarrow> (string, string list) odict \<Rightarrow> string list \<Rightarrow> int \<Rightarrow> chain_step list \<Rightarrow> bool" where
  "real_chain findings reachable entries max_length steps \<longleftrightarrow>
     2 \<le> length steps \<and> int (length steps) \<le> max_length
     \<and> (\<exists>held asset used. attack_walk findings reachable entries steps held asset used)"

definition demo_finding :: "string \<Rightarrow> string \<Rightarrow> string \<Rightarrow> finding_view" where
  "demo_finding i asset cwe = \<lparr>fv_id = i, fv_asset_id = asset, fv_title = i, fv_severity = ''high'',
     fv_risk_score = 80, fv_category = ''injection'', fv_cwe_id = Some cwe, fv_kev = False,
     fv_exploit_maturity = None, fv_node_id = []\<rparr>"

text \<open>A command injection on the web host, a credential in its files, an over-privileged principal on
  the database host it reaches.\<close>

definition demo_findings :: "finding_view list" where
  "demo_findings = [demo_finding ''secret'' ''web'' ''CWE-798'', demo_finding ''rce'' ''web'' ''CWE-78'',
     demo_finding ''iam'' ''db'' ''CWE-269'']"

definition demo_run :: "py_error + chain_result" where
  "demo_run = build_chains demo_findings [(''web'', [''db''])] [''web''] [] [] 4 50 2000"

lemma demo_run_chains:
  "(case demo_run of Inl e \<Rightarrow> None | Inr r \<Rightarrow>
      Some (map (map st_finding_id \<circ> ch_steps) (cs_chains r), cs_truncated r))
   = Some ([[''rce'', ''secret''], [''rce'', ''secret'', ''iam'']], False)"
  by code_simp

text \<open>C9: chaining never fails and never invents.  Whatever the findings, the result exists, and every
  chain in it is a walk of 2 to \<open>max_length\<close> reported findings: it starts on an entry asset, no
  finding is used twice, every hop stays on its asset or follows an edge of the graph, and its score
  is the score of its steps.  The chains come in the documented order.\<close>

theorem chains_are_real:
  "\<exists>r. build_chains findings reachable entries entry_keys criticality max_length max_chains max_enumerated = Inr r
     \<and> set (cs_chains r) \<subseteq> {c. real_chain findings reachable entries max_length (ch_steps c)
          \<and> st_asset_id (hd (ch_steps c)) \<in> set entries
          \<and> distinct (map st_finding_id (ch_steps c))
          \<and> successively (\<lambda>s t. st_asset_id t = st_asset_id s
               \<or> st_asset_id t \<in> set (dict_getdef reachable (st_asset_id s) [])) (ch_steps c)
          \<and> score_candidate entry_keys criticality (ch_steps c) = Inr c}
     \<and> sorted (map chain_rank (cs_chains r))"
proof -
  obtain r chains where r: "build_chains findings reachable entries entry_keys criticality max_length max_chains max_enumerated = Inr r"
      "cs_chains r = py_take max_chains (sort_key chain_rank chains)"
      "set (map ch_steps chains) \<subseteq> set (all_chains (group_mapped (by_risk findings)) reachable entries max_length)"
      "\<forall>c\<in>set chains. score_candidate entry_keys criticality (ch_steps c) = Inr c"
    using build_chains_shape by blast
  have good: "real_chain findings reachable entries max_length (ch_steps c)
      \<and> st_asset_id (hd (ch_steps c)) \<in> set entries \<and> distinct (map st_finding_id (ch_steps c))
      \<and> successively (\<lambda>s t. st_asset_id t = st_asset_id s
           \<or> st_asset_id t \<in> set (dict_getdef reachable (st_asset_id s) [])) (ch_steps c)
      \<and> score_candidate entry_keys criticality (ch_steps c) = Inr c" if "c \<in> set (cs_chains r)" for c
  proof -
    have c: "c \<in> set chains" using that unfolding r(2) py_take_def by (auto dest: in_set_takeD)
    then have "ch_steps c \<in> set (all_chains (group_mapped (by_risk findings)) reachable entries max_length)"
      using r(3) by auto
    then have real: "real_chain findings reachable entries max_length (ch_steps c)"
      by (simp add: all_chains_iff real_chain_def)
    then obtain held asset used where w: "attack_walk findings reachable entries (ch_steps c) held asset used"
      by (auto simp: real_chain_def)
    show ?thesis using real walk_facts [OF w] walk_moves [OF w] r(4) c by simp
  qed
  have "sorted (map chain_rank (cs_chains r))"
    unfolding r(2) py_take_def take_map [symmetric] by (simp add: sorted_wrt_take)
  with r(1) show ?thesis
    by (intro exI [of _ r] conjI) (assumption, rule subsetI, rule CollectI, erule good, assumption)
qed

text \<open>C9: an empty answer is a proof.  When the result is not marked truncated, the chains are exactly
  the walks there are: every attack of 2 to \<open>max_length\<close> steps is reported.\<close>

theorem chains_complete:
  assumes "build_chains findings reachable entries entry_keys criticality max_length max_chains max_enumerated = Inr r"
    and "\<not> cs_truncated r"
  shows "ch_steps ` set (cs_chains r) = {steps. real_chain findings reachable entries max_length steps}"
proof -
  obtain chains where c: "cs_chains r = py_take max_chains (sort_key chain_rank chains)"
      "int (length chains) \<le> max_chains"
      "map ch_steps chains = all_chains (group_mapped (by_risk findings)) reachable entries max_length"
    using build_chains_shape [of findings reachable entries entry_keys criticality max_length max_chains max_enumerated]
      assms by auto
  have "set (cs_chains r) = set chains" using c(1,2) by (simp add: py_take_def)
  then have "ch_steps ` set (cs_chains r) = set (map ch_steps chains)" by simp
  then show ?thesis unfolding c(3) by (auto simp: all_chains_iff real_chain_def)
qed

theorem chains_complete_witness:
  "map st_finding_id ` {steps. real_chain demo_findings [(''web'', [''db''])] [''web''] 4 steps}
     = {[''rce'', ''secret'', ''iam''], [''rce'', ''secret'']}"
proof -
  obtain r where r: "demo_run = Inr r" "\<not> cs_truncated r"
      "map (map st_finding_id \<circ> ch_steps) (cs_chains r) = [[''rce'', ''secret''], [''rce'', ''secret'', ''iam'']]"
    using demo_run_chains by (auto split: sum.splits)
  have "map st_finding_id ` (ch_steps ` set (cs_chains r)) = set (map (map st_finding_id \<circ> ch_steps) (cs_chains r))"
    by (simp add: image_image)
  then show ?thesis
    unfolding r(3) chains_complete [OF r(1) [unfolded demo_run_def] r(2)] by (simp add: insert_commute)
qed

text \<open>A chain is only as good as its links.  Scores stay in range (likelihood 1..100, impact and
  score 0..100), and one more step never raises the likelihood, however the floating-point products
  round.\<close>

theorem chain_scores:
  assumes "list_all step_ok (steps @ [s])" "steps \<noteq> []"
  shows "\<exists>l i sc l' i' sc'. score_chain steps k = Inr (l, i, sc) \<and> score_chain (steps @ [s]) k' = Inr (l', i', sc')
    \<and> 1 \<le> l' \<and> l' \<le> l \<and> l \<le> 100 \<and> {i, sc, i', sc'} \<subseteq> {0..100}"
proof -
  have ok: "list_all step_ok steps" "step_ok s" using assms by auto
  obtain i i' where i: "score_chain steps k = Inr (max 1 (rhe (fl (likelihood_of steps * 100))), clamp100 i,
      clamp100 (rhe (fl (fl (of_int (max 1 (rhe (fl (likelihood_of steps * 100)))) * fl (4/10))
        + fl (of_int (clamp100 i) * fl (6/10)))) - min 15 ((int (length steps) - 1) * 5)))"
    and i': "score_chain (steps @ [s]) k' = Inr (max 1 (rhe (fl (likelihood_of (steps @ [s]) * 100))), clamp100 i',
      clamp100 (rhe (fl (fl (of_int (max 1 (rhe (fl (likelihood_of (steps @ [s]) * 100)))) * fl (4/10))
        + fl (of_int (clamp100 i') * fl (6/10)))) - min 15 ((int (length (steps @ [s])) - 1) * 5)))"
    using score_chain_ok [OF ok(1) assms(2)] score_chain_ok [OF assms(1)] by (metis snoc_eq_iff_butlast)
  have "likelihood_of (steps @ [s]) \<le> likelihood_of steps"
    using likelihood_snoc_le [OF ok] .
  then have "rhe (fl (likelihood_of (steps @ [s]) * 100)) \<le> rhe (fl (likelihood_of steps * 100))"
    by (intro rhe_mono fl_mono) simp
  with likelihood_le_100 [OF ok(1)] show ?thesis
    unfolding i i' by (auto simp: clamp100_def)
qed

definition demo_step :: chain_step where
  "demo_step = \<lparr>st_finding_id = ''rce'', st_asset_id = ''web'', st_node_id = [], st_title = ''RCE'',
     st_severity = ''high'', st_cwe_id = None, st_grants = [''code_execution''], st_reliability = 55,
     st_rationale = []\<rparr>"

theorem chain_scores_witness:
  "\<exists>l i sc l' i' sc'. score_chain [demo_step] ''high'' = Inr (l, i, sc)
     \<and> score_chain ([demo_step] @ [demo_step]) ''low'' = Inr (l', i', sc') \<and> 1 \<le> l' \<and> l' \<le> l \<and> l \<le> 100"
proof -
  have "''code_execution'' = capability_value CodeExecution" by simp
  then have "step_ok demo_step" unfolding step_ok_def demo_step_def by (simp del: capability_value.simps)
  then show ?thesis
    using chain_scores [of "[demo_step]" demo_step "''high''" "''low''"] by auto
qed

end
