(* ===== verification/Remediation.thy ===== *)
theory Remediation
  imports PyUuid Binary64
begin

text \<open>
  \<open>guardian_core/remediation.py\<close>, the update route of \<open>routes/remediation.py\<close> and the worker's
  \<open>remediation.py\<close>: the fix lifecycle.  Due dates, the transition rules, the ticket a customer
  files, the service-level summary, opening items for findings and closing them after a scan.
  \<open>item_step\<close> is the state machine one item goes through, by hand and by scan.
\<close>

subsection \<open>Statuses and windows\<close>

definition REM_STATUSES :: "string list" where
  "REM_STATUSES = [''open'', ''in_progress'', ''fixed'', ''verified'', ''reopened'', ''risk_accepted'', ''wont_fix'']"

definition HUMAN_SETTABLE :: "string set" where
  "HUMAN_SETTABLE = {''open'', ''in_progress'', ''fixed'', ''risk_accepted'', ''wont_fix''}"

definition NEEDS_JUSTIFICATION :: "string set" where
  "NEEDS_JUSTIFICATION = {''risk_accepted'', ''wont_fix''}"

definition REM_ACTIVE :: "string set" where
  "REM_ACTIVE = {''open'', ''in_progress'', ''reopened''}"

definition SLA_DAYS :: "(string, int) odict" where
  "SLA_DAYS = [(''critical'', 7), (''high'', 30), (''medium'', 90), (''low'', 180), (''info'', 365)]"

definition EXPOSURE_MULTIPLIER :: "(string, rat) odict" where
  "EXPOSURE_MULTIPLIER = [(''public'', 1/2), (''internal'', 1), (''unknown'', 1)]"

definition MIN_SLA_DAYS :: int where "MIN_SLA_DAYS = 1"

definition sla_days :: "string \<Rightarrow> string \<Rightarrow> int" where
  "sla_days severity exposure =
     (let days = dict_getdef SLA_DAYS (py_lower severity) 90
      in max MIN_SLA_DAYS (rhe (fl (of_int days * dict_getdef EXPOSURE_MULTIPLIER (py_lower exposure) 1))))"

definition due_at :: "string \<Rightarrow> string \<Rightarrow> int \<Rightarrow> int" where
  "due_at severity exposure opened_at = opened_at + days_us (sla_days severity exposure)"

definition is_overdue :: "string \<Rightarrow> int option \<Rightarrow> int \<Rightarrow> bool" where
  "is_overdue item_status due now =
     (case due of None \<Rightarrow> False
      | Some d \<Rightarrow> if item_status \<notin> REM_ACTIVE \<and> item_status \<noteq> ''fixed'' then False else d < now)"

subsection \<open>Transitions\<close>

datatype rem_refusal = NotAStatus string | SetByScanOnly string | NeedsReason string | VerifiedIsClosed

text \<open>\<open>None\<close> is the normal return, \<open>Some\<close> the exception raised.\<close>

definition validate_transition :: "string \<Rightarrow> string \<Rightarrow> bool \<Rightarrow> string \<Rightarrow> rem_refusal option" where
  "validate_transition current target by_scan justification =
     (if target \<notin> set REM_STATUSES then Some (NotAStatus target)
      else if current = target then None
      else if target \<in> {''verified'', ''reopened''} \<and> \<not> by_scan then Some (SetByScanOnly target)
      else if target \<in> NEEDS_JUSTIFICATION \<and> py_strip justification = [] then Some (NeedsReason target)
      else if current = ''verified'' \<and> target \<in> HUMAN_SETTABLE \<and> target \<noteq> ''open'' then Some VerifiedIsClosed
      else None)"

subsection \<open>Tickets\<close>

datatype ticket_line = TextLine string | DueOn int | ReportedBy int

record ticket_input =
  ti_finding_title :: string
  ti_severity :: string
  ti_risk_score :: int
  ti_asset :: string
  ti_description :: string
  ti_remediation :: string
  ti_cwe_id :: "string option"
  ti_owasp_ref :: "string option"
  ti_cve_ids :: "string list"
  ti_evidence_summary :: string
  ti_due :: "int option"
  ti_finding_url :: string
  ti_duplicate_count :: int
  ti_what_it_means :: string
  ti_why_it_matters :: string
  ti_what_to_do :: string

record ticket_payload =
  tk_title :: string
  tk_body :: "ticket_line list"
  tk_labels :: "string list"
  tk_due_at :: "int option"
  tk_fields :: jobj

definition present :: "string option \<Rightarrow> string list" where
  "present s = (case s of None \<Rightarrow> [] | Some t \<Rightarrow> if t = [] then [] else [t])"

definition ticket_section :: "string \<Rightarrow> string \<Rightarrow> ticket_line list" where
  "ticket_section heading content =
     (if content = [] then [] else [TextLine [], TextLine (''### '' @ heading), TextLine content])"

definition ticket_lines :: "ticket_input \<Rightarrow> ticket_line list" where
  "ticket_lines t =
     [TextLine (''**Severity:** '' @ ti_severity t @ '' (risk '' @ str_int (ti_risk_score t) @ '')''),
      TextLine (''**Asset:** '' @ ti_asset t)]
     @ (let stds = present (ti_cwe_id t) @ present (ti_owasp_ref t) in
        if stds = [] then [] else [TextLine (''**Standards:** '' @ join_with '' '' stds)])
     @ (if ti_cve_ids t = [] then [] else [TextLine (''**CVEs:** '' @ join_with '', '' (ti_cve_ids t))])
     @ (case ti_due t of None \<Rightarrow> [] | Some d \<Rightarrow> [DueOn d])
     @ (if ti_duplicate_count t = 0 then [] else [ReportedBy (ti_duplicate_count t + 1)])
     @ ticket_section ''What this means'' (ti_what_it_means t)
     @ ticket_section ''Why it matters'' (ti_why_it_matters t)
     @ ticket_section ''What to do'' (ti_what_to_do t)
     @ ticket_section ''Technical description'' (ti_description t)
     @ (if ti_evidence_summary t = [] then []
        else [TextLine [], TextLine ''### Evidence'', TextLine (''`'' @ ti_evidence_summary t @ ''`'')])
     @ (if ti_remediation t \<noteq> ti_what_to_do t
        then ticket_section ''How to fix it (detail)'' (ti_remediation t) else [])
     @ (if ti_finding_url t = [] then []
        else [TextLine [], TextLine (''[Open the finding in Guardian]('' @ ti_finding_url t @ '')'')])
     @ [TextLine [], TextLine (''_Verification is automatic: this closes when a scan runs the engine that found ''
          @ ''it, completes cleanly, and no longer reports it._'')]"

definition ticket_of :: "ticket_input \<Rightarrow> ticket_payload" where
  "ticket_of t =
     \<lparr>tk_title = take 250 (''['' @ py_upper (ti_severity t) @ ''] '' @ ti_finding_title t),
      tk_body = ticket_lines t,
      tk_labels = [''security'', ''severity:'' @ ti_severity t] @ map py_lower (present (ti_cwe_id t)),
      tk_due_at = ti_due t,
      tk_fields = [(''risk_score'', JInt (ti_risk_score t)), (''asset'', JStr (ti_asset t))]\<rparr>"

subsection \<open>Service levels\<close>

record sla_item =
  sl_status :: string
  sl_severity :: string
  sl_due_at :: "int option"

record sla_summary =
  sm_total :: int
  sm_active :: int
  sm_overdue :: int
  sm_verified :: int
  sm_accepted :: int
  sm_by_severity :: "(string, int) odict"

definition sla_zero :: sla_summary where
  "sla_zero = \<lparr>sm_total = 0, sm_active = 0, sm_overdue = 0, sm_verified = 0, sm_accepted = 0, sm_by_severity = []\<rparr>"

definition sla_add :: "int \<Rightarrow> sla_summary \<Rightarrow> sla_item \<Rightarrow> sla_summary" where
  "sla_add now s item =
     (let status = (if sl_status item = [] then ''open'' else sl_status item);
          severity = (if sl_severity item = [] then ''medium'' else sl_severity item)
      in \<lparr>sm_total = sm_total s + 1,
          sm_active = sm_active s + (if status \<in> REM_ACTIVE then 1 else 0),
          sm_overdue = sm_overdue s + (if is_overdue status (sl_due_at item) now then 1 else 0),
          sm_verified = sm_verified s + (if status = ''verified'' then 1 else 0),
          sm_accepted = sm_accepted s + (if status \<in> NEEDS_JUSTIFICATION then 1 else 0),
          sm_by_severity = dict_set severity (dict_getdef (sm_by_severity s) severity 0 + 1) (sm_by_severity s)\<rparr>)"

definition summarize :: "sla_item list \<Rightarrow> int \<Rightarrow> sla_summary" where
  "summarize items now = foldl (sla_add now) sla_zero items"

definition on_time_rate :: "sla_summary \<Rightarrow> int" where
  "on_time_rate s =
     (let countable = sm_active s + sm_verified s
      in if countable = 0 then 100
         else rhe (fl (of_int ((countable - sm_overdue s) * 100) / of_int countable)))"

subsection \<open>Items\<close>

record rem_item =
  ri_id :: uuid
  ri_tenant_id :: uuid
  ri_finding_id :: uuid
  ri_status :: string
  ri_assignee_id :: "uuid option"
  ri_due_at :: "int option"
  ri_justification :: "string option"
  ri_verified_by :: "uuid option"

text \<open>The body of a PATCH request on an item; a missing field is \<open>None\<close> or empty.\<close>

record item_update =
  iu_status :: "string option"
  iu_assignee_id :: "uuid option"
  iu_justification :: string
  iu_due_at :: "int option"

datatype update_refusal = Invalid rem_refusal | AssigneeNotFound

definition update_remediation :: "uuid list \<Rightarrow> item_update \<Rightarrow> rem_item \<Rightarrow> update_refusal + rem_item" where
  "update_remediation users body item =
     (let wanted = (case iu_status body of None \<Rightarrow> [] | Some s \<Rightarrow> s);
          refusal = (if wanted = [] then None
                     else validate_transition (ri_status item) wanted False (iu_justification body))
      in case refusal of Some r \<Rightarrow> Inl (Invalid r)
         | None \<Rightarrow>
           if (case iu_assignee_id body of None \<Rightarrow> False | Some u \<Rightarrow> u \<notin> set users) then Inl AssigneeNotFound
           else Inr (item\<lparr>
             ri_assignee_id := (case iu_assignee_id body of None \<Rightarrow> ri_assignee_id item | Some u \<Rightarrow> Some u),
             ri_due_at := (case iu_due_at body of None \<Rightarrow> ri_due_at item | Some d \<Rightarrow> Some d),
             ri_justification := (if iu_justification body = [] then ri_justification item
                                  else Some (iu_justification body)),
             ri_status := (if wanted = [] then ri_status item else wanted)\<rparr>))"

text \<open>One iteration of the loop of \<open>verify_after_scan\<close>, for the item of a verification.\<close>

datatype verify_outcome = Verified | Reopened | Unchanged

definition verify_item :: "uuid \<Rightarrow> string \<Rightarrow> rem_item \<Rightarrow> rem_refusal + (rem_item \<times> verify_outcome)" where
  "verify_item scan_id verdict item =
     (if verdict = ''resolved'' then
        (if ri_status item = ''verified'' then Inr (item, Unchanged)
         else (case validate_transition (ri_status item) ''verified'' True [] of
             Some r \<Rightarrow> Inl r
           | None \<Rightarrow> Inr (item\<lparr>ri_status := ''verified'', ri_verified_by := Some scan_id\<rparr>, Verified)))
      else if verdict = ''still_present'' \<and> ri_status item \<in> {''fixed'', ''verified''} then
        (case validate_transition (ri_status item) ''reopened'' True [] of
             Some r \<Rightarrow> Inl r
           | None \<Rightarrow> Inr (item\<lparr>ri_status := ''reopened'', ri_verified_by := None\<rparr>, Reopened))
      else Inr (item, Unchanged))"

text \<open>\<open>{item.finding_id: item for item in ...}\<close>: the last item of a finding is the one found.\<close>

fun last_index :: "('a \<Rightarrow> bool) \<Rightarrow> 'a list \<Rightarrow> nat option" where
  "last_index P [] = None"
| "last_index P (x # xs) = (case last_index P xs of Some i \<Rightarrow> Some (Suc i)
     | None \<Rightarrow> if P x then Some 0 else None)"

record verify_counts =
  vc_verified :: int
  vc_reopened :: int
  vc_unchanged :: int

definition bump_count :: "verify_outcome \<Rightarrow> verify_counts \<Rightarrow> verify_counts" where
  "bump_count out c = (case out of
       Verified \<Rightarrow> c\<lparr>vc_verified := vc_verified c + 1\<rparr>
     | Reopened \<Rightarrow> c\<lparr>vc_reopened := vc_reopened c + 1\<rparr>
     | Unchanged \<Rightarrow> c\<lparr>vc_unchanged := vc_unchanged c + 1\<rparr>)"

text \<open>A verification is given by its finding and verdict.\<close>

fun verify_loop :: "uuid \<Rightarrow> (uuid \<times> string) list \<Rightarrow> rem_item list \<Rightarrow> verify_counts
    \<Rightarrow> rem_refusal + (rem_item list \<times> verify_counts)" where
  "verify_loop scan_id [] items c = Inr (items, c)"
| "verify_loop scan_id ((fid, verdict) # vs) items c =
     (case last_index (\<lambda>i. ri_finding_id i = fid) items of
        None \<Rightarrow> verify_loop scan_id vs items c
      | Some k \<Rightarrow> (case verify_item scan_id verdict (items ! k) of
            Inl r \<Rightarrow> Inl r
          | Inr (item, out) \<Rightarrow> verify_loop scan_id vs (items[k := item]) (bump_count out c)))"

definition verify_after_scan :: "uuid \<Rightarrow> (uuid \<times> string) list \<Rightarrow> rem_item list
    \<Rightarrow> rem_refusal + (rem_item list \<times> verify_counts)" where
  "verify_after_scan scan_id verifications items =
     verify_loop scan_id verifications items \<lparr>vc_verified = 0, vc_reopened = 0, vc_unchanged = 0\<rparr>"

subsection \<open>Opening items\<close>

record track_finding =
  tf_id :: uuid
  tf_tenant_id :: uuid
  tf_customer_id :: uuid
  tf_asset_id :: uuid
  tf_status :: string
  tf_severity :: string
  tf_risk_score :: "int option"
  tf_correlation_id :: "uuid option"

definition TRACKABLE_STATUSES :: "string set" where
  "TRACKABLE_STATUSES = {''open'', ''triaged'', ''confirmed''}"

datatype open_reason = NoneTrackable | NoneRequestedTrackable | AllTracked int int int

record open_result =
  or_opened :: int
  or_existing :: int
  or_grouped :: int
  or_considered :: int
  or_requested :: int
  or_reason :: "open_reason option"

text \<open>The query, in table order (the source does not order it), cut at 5000 rows.\<close>

definition trackable :: "uuid \<Rightarrow> uuid option \<Rightarrow> uuid list option \<Rightarrow> track_finding list \<Rightarrow> track_finding list" where
  "trackable tenant customer ids fs =
     take 5000 (filter (\<lambda>f. tf_tenant_id f = tenant \<and> tf_status f \<in> TRACKABLE_STATUSES
       \<and> (case customer of None \<Rightarrow> True | Some c \<Rightarrow> tf_customer_id f = c)
       \<and> (case ids of None \<Rightarrow> True | Some l \<Rightarrow> l = [] \<or> tf_id f \<in> set l)) fs)"

definition existing_ids :: "uuid \<Rightarrow> rem_item list \<Rightarrow> track_finding list \<Rightarrow> uuid set" where
  "existing_ids tenant items fs =
     set (filter (\<lambda>i. i \<in> tf_id ` set fs) (map ri_finding_id (filter (\<lambda>i. ri_tenant_id i = tenant) items)))"

definition groups_of :: "track_finding list \<Rightarrow> uuid set" where
  "groups_of fs = set (List.map_filter tf_correlation_id fs)"

text \<open>Groups of the selected findings that have an item, and of every finding of the tenant that has
  an item of any tenant.\<close>

definition covered_groups :: "uuid \<Rightarrow> rem_item list \<Rightarrow> track_finding list \<Rightarrow> track_finding list \<Rightarrow> uuid set" where
  "covered_groups tenant items selected fs =
     groups_of (filter (\<lambda>f. tf_id f \<in> existing_ids tenant items selected) selected)
     \<union> groups_of (filter (\<lambda>f. tf_tenant_id f = tenant \<and> tf_id f \<in> ri_finding_id ` set items) fs)"

definition new_item :: "(uuid \<Rightarrow> uuid) \<Rightarrow> (uuid \<Rightarrow> string option) \<Rightarrow> uuid option \<Rightarrow> int \<Rightarrow> track_finding \<Rightarrow> rem_item" where
  "new_item mk_id exposure assignee now f =
     \<lparr>ri_id = mk_id (tf_id f), ri_tenant_id = tf_tenant_id f, ri_finding_id = tf_id f, ri_status = ''open'',
      ri_assignee_id = assignee,
      ri_due_at = Some (due_at (tf_severity f)
        (case exposure (tf_asset_id f) of Some e \<Rightarrow> e | None \<Rightarrow> ''unknown'') now),
      ri_justification = None, ri_verified_by = None\<rparr>"

record open_state =
  os_items :: "rem_item list"
  os_covered :: "uuid set"
  os_opened :: int
  os_grouped :: int

definition in_covered :: "uuid set \<Rightarrow> track_finding \<Rightarrow> bool" where
  "in_covered covered f = (case tf_correlation_id f of None \<Rightarrow> False | Some g \<Rightarrow> g \<in> covered)"

definition open_one :: "(track_finding \<Rightarrow> rem_item) \<Rightarrow> uuid set \<Rightarrow> open_state \<Rightarrow> track_finding \<Rightarrow> open_state" where
  "open_one mk existing st f =
     (if tf_id f \<in> existing then st
      else if in_covered (os_covered st) f then st\<lparr>os_grouped := os_grouped st + 1\<rparr>
      else st\<lparr>os_items := os_items st @ [mk f], os_opened := os_opened st + 1,
              os_covered := (case tf_correlation_id f of None \<Rightarrow> os_covered st
                             | Some g \<Rightarrow> insert g (os_covered st))\<rparr>)"

definition worst_first :: "track_finding list \<Rightarrow> track_finding list" where
  "worst_first fs = sort_key (\<lambda>f. (- (case tf_risk_score f of Some r \<Rightarrow> r | None \<Rightarrow> 0), str_uuid (tf_id f))) fs"

definition open_items ::
  "(uuid \<Rightarrow> uuid) \<Rightarrow> (uuid \<Rightarrow> string option) \<Rightarrow> uuid \<Rightarrow> uuid option \<Rightarrow> uuid list option \<Rightarrow> uuid option \<Rightarrow> int
     \<Rightarrow> track_finding list \<Rightarrow> rem_item list \<Rightarrow> rem_item list \<times> open_result" where
  "open_items mk_id exposure tenant customer ids assignee now fs items =
     (let selected = trackable tenant customer ids fs;
          requested = (case ids of None \<Rightarrow> 0 | Some l \<Rightarrow> int (length l))
      in if selected = [] then
           (items, \<lparr>or_opened = 0, or_existing = 0, or_grouped = 0, or_considered = 0,
              or_requested = requested,
              or_reason = Some (if requested = 0 then NoneTrackable else NoneRequestedTrackable)\<rparr>)
         else
           let existing = existing_ids tenant items selected;
               st = foldl (open_one (new_item mk_id exposure assignee now) existing)
                      \<lparr>os_items = items, os_covered = covered_groups tenant items selected fs,
                       os_opened = 0, os_grouped = 0\<rparr> (worst_first selected)
           in (os_items st,
               \<lparr>or_opened = os_opened st, or_existing = int (card existing), or_grouped = os_grouped st,
                or_considered = int (length selected), or_requested = requested,
                or_reason = (if os_opened st = 0
                  then Some (AllTracked (int (length selected)) (int (card existing)) (os_grouped st)) else None)\<rparr>))"

subsection \<open>The lifecycle of one item\<close>

text \<open>What can happen to an item: a PATCH request of a person, or a scan's verdict about its finding.
  A refused request leaves the item as it is and is no step.\<close>

datatype item_event = ByHand "uuid list" item_update | ByScan uuid string

fun apply_event :: "item_event \<Rightarrow> rem_item \<Rightarrow> rem_item option" where
  "apply_event (ByHand users body) item =
     (case update_remediation users body item of Inl _ \<Rightarrow> None | Inr i \<Rightarrow> Some i)"
| "apply_event (ByScan scan_id verdict) item =
     (case verify_item scan_id verdict item of Inl _ \<Rightarrow> None | Inr (i, _) \<Rightarrow> Some i)"

inductive item_run :: "rem_item \<Rightarrow> item_event list \<Rightarrow> rem_item \<Rightarrow> bool" for start where
  begin_run: "item_run start [] start"
| step_run: "item_run start es item \<Longrightarrow> apply_event e item = Some item' \<Longrightarrow> item_run start (es @ [e]) item'"

inductive_cases item_run_snocE: "item_run start (es @ [e]) item"

subsection \<open>Lemmas\<close>

text \<open>The scan's own transitions are always allowed, so closing after a scan cannot fail.\<close>

lemma scan_transition [simp]:
  "validate_transition s ''verified'' True j = None"
  "validate_transition s ''reopened'' True j = None"
  by (simp_all add: validate_transition_def REM_STATUSES_def NEEDS_JUSTIFICATION_def HUMAN_SETTABLE_def)

lemma verify_item_Inr:
  "\<exists>i out. verify_item scan_id verdict item = Inr (i, out)"
  by (auto simp: verify_item_def)

lemma verify_item_id:
  "verify_item scan_id verdict item = Inr (i, out) \<Longrightarrow> ri_finding_id i = ri_finding_id item \<and> ri_id i = ri_id item"
  by (auto simp: verify_item_def split: if_splits)

lemma by_hand_transition:
  "validate_transition s t False j = None \<Longrightarrow> s \<noteq> t \<Longrightarrow>
     t \<in> HUMAN_SETTABLE \<and> (t \<in> NEEDS_JUSTIFICATION \<longrightarrow> py_strip j \<noteq> []) \<and> (s = ''verified'' \<longrightarrow> t = ''open'')"
  by (auto simp: validate_transition_def REM_STATUSES_def HUMAN_SETTABLE_def split: if_splits)

lemma validate_target: "validate_transition s t b j = None \<Longrightarrow> t \<in> set REM_STATUSES"
  by (auto simp: validate_transition_def split: if_splits)

lemma py_strip_Nil [simp]: "py_strip [] = []"
  by code_simp

text \<open>What one event can do to the status, one case for the hand and one for the scan.\<close>

lemma by_handE:
  assumes "apply_event (ByHand users body) item = Some item'"
  shows "ri_verified_by item' = ri_verified_by item \<and> ri_finding_id item' = ri_finding_id item
    \<and> (ri_status item' = ri_status item
       \<or> ri_status item' \<in> HUMAN_SETTABLE \<and> iu_status body = Some (ri_status item')
         \<and> (ri_status item' \<in> NEEDS_JUSTIFICATION \<longrightarrow> py_strip (iu_justification body) \<noteq> []
              \<and> ri_justification item' = Some (iu_justification body)))"
  using assms by_hand_transition [of "ri_status item" "ri_status item'" "iu_justification body"]
  by (auto simp: update_remediation_def Let_def split: if_splits option.splits sum.splits)

lemma by_scanE:
  assumes "apply_event (ByScan scan_id verdict) item = Some item'"
  shows "item' = item
    \<or> verdict = ''resolved'' \<and> ri_status item \<noteq> ''verified''
        \<and> item' = item\<lparr>ri_status := ''verified'', ri_verified_by := Some scan_id\<rparr>
    \<or> verdict = ''still_present'' \<and> ri_status item \<in> {''fixed'', ''verified''}
        \<and> item' = item\<lparr>ri_status := ''reopened'', ri_verified_by := None\<rparr>"
  using assms by (auto simp: verify_item_def split: if_splits)

lemma lifecycle_invariant:
  assumes "item_run start es item" "ri_status start = ''open''"
  shows "ri_status item \<in> set REM_STATUSES
    \<and> (ri_status item = ''verified'' \<longrightarrow> (\<exists>sid. ri_verified_by item = Some sid \<and> ByScan sid ''resolved'' \<in> set es))
    \<and> (ri_status item = ''reopened'' \<longrightarrow> (\<exists>sid. ByScan sid ''still_present'' \<in> set es))
    \<and> (ri_status item \<in> NEEDS_JUSTIFICATION \<longrightarrow> (\<exists>users body. ByHand users body \<in> set es
         \<and> iu_status body = Some (ri_status item) \<and> py_strip (iu_justification body) \<noteq> []))"
  using assms
proof induction
  case begin_run
  then show ?case by (simp add: REM_STATUSES_def NEEDS_JUSTIFICATION_def)
next
  case (step_run es item e item')
  show ?case
  proof (cases e)
    case (ByHand users body)
    note ih = step_run.IH [OF step_run.prems]
    from by_handE [OF step_run.hyps(2) [unfolded ByHand]]
    have keep: "ri_verified_by item' = ri_verified_by item"
      and alt: "ri_status item' = ri_status item \<or> ri_status item' \<in> HUMAN_SETTABLE
        \<and> iu_status body = Some (ri_status item')
        \<and> (ri_status item' \<in> NEEDS_JUSTIFICATION \<longrightarrow> py_strip (iu_justification body) \<noteq> [])" by auto
    from alt show ?thesis
    proof
      assume "ri_status item' = ri_status item"
      with ih keep show ?thesis unfolding set_append Un_iff by metis
    next
      assume h: "ri_status item' \<in> HUMAN_SETTABLE \<and> iu_status body = Some (ri_status item')
        \<and> (ri_status item' \<in> NEEDS_JUSTIFICATION \<longrightarrow> py_strip (iu_justification body) \<noteq> [])"
      then have "ri_status item' \<in> set REM_STATUSES" "ri_status item' \<noteq> ''verified''" "ri_status item' \<noteq> ''reopened''"
        by (auto simp: HUMAN_SETTABLE_def REM_STATUSES_def)
      moreover have "ByHand users body \<in> set (es @ [e])" by (simp add: ByHand)
      ultimately show ?thesis using h by blast
    qed
  next
    case (ByScan sid verdict)
    note ih = step_run.IH [OF step_run.prems]
    from by_scanE [OF step_run.hyps(2) [unfolded ByScan]] show ?thesis
    proof (elim disjE conjE)
      assume "item' = item"
      with ih show ?thesis unfolding set_append Un_iff by metis
    next
      assume "verdict = ''resolved''" "item' = item\<lparr>ri_status := ''verified'', ri_verified_by := Some sid\<rparr>"
      then show ?thesis by (simp add: ByScan REM_STATUSES_def NEEDS_JUSTIFICATION_def)
    next
      assume "verdict = ''still_present''" "item' = item\<lparr>ri_status := ''reopened'', ri_verified_by := None\<rparr>"
      then show ?thesis by (simp add: ByScan REM_STATUSES_def NEEDS_JUSTIFICATION_def) blast
    qed
  qed
qed

subsection \<open>Closing after a scan\<close>

lemma last_index_Some: "last_index P xs = Some k \<Longrightarrow> k < length xs \<and> P (xs ! k)"
  by (induction xs arbitrary: k) (auto split: option.splits if_splits)

lemma last_index_None: "last_index P xs = None \<longleftrightarrow> (\<forall>x\<in>set xs. \<not> P x)"
  by (induction xs) (auto split: option.splits)

definition touched :: "(uuid \<times> string) list \<Rightarrow> uuid \<Rightarrow> bool" where
  "touched vs fid = list_ex (\<lambda>(f, verdict). f = fid \<and> verdict \<in> {''resolved'', ''still_present''}) vs"

lemma touched_Cons: "touched ((f, verdict) # vs) fid \<longleftrightarrow>
    f = fid \<and> verdict \<in> {''resolved'', ''still_present''} \<or> touched vs fid"
  by (simp add: touched_def)

lemma verify_loop_total:
  "\<exists>items' c'. verify_loop sid vs items c = Inr (items', c') \<and> map ri_finding_id items' = map ri_finding_id items
    \<and> vc_verified c' + vc_reopened c' + vc_unchanged c' = vc_verified c + vc_reopened c + vc_unchanged c
        + int (length (filter (\<lambda>v. fst v \<in> ri_finding_id ` set items) vs))
    \<and> (\<forall>k<length items. items' ! k = items ! k \<or> touched vs (ri_finding_id (items ! k)))"
proof (induction vs arbitrary: items c)
  case (Cons v vs)
  obtain fid verdict where v: "v = (fid, verdict)" by (cases v)
  show ?case
  proof (cases "last_index (\<lambda>i. ri_finding_id i = fid) items")
    case None
    then have "fid \<notin> ri_finding_id ` set items" by (auto simp: last_index_None)
    with None Cons.IH [of items c] show ?thesis by (auto simp: v touched_Cons)
  next
    case (Some k)
    then have k: "k < length items" "ri_finding_id (items ! k) = fid" by (auto dest: last_index_Some)
    then have mem: "fid \<in> ri_finding_id ` set items" by force
    obtain i out where i: "verify_item sid verdict (items ! k) = Inr (i, out)" using verify_item_Inr by blast
    have same: "map ri_finding_id (items[k := i]) = map ri_finding_id items"
      using verify_item_id [OF i] k by (simp add: map_update list_update_same_conv)
    then have img: "ri_finding_id ` set (items[k := i]) = ri_finding_id ` set items"
      by (metis set_map)
    have chg: "i = items ! k \<or> verdict \<in> {''resolved'', ''still_present''}"
      using i by (auto simp: verify_item_def split: if_splits)
    have fids: "ri_finding_id (items[k := i] ! j) = ri_finding_id (items ! j)" if "j < length items" for j
      using same that by (metis length_list_update nth_map)
    obtain items' c' where r: "verify_loop sid vs (items[k := i]) (bump_count out c) = Inr (items', c')"
        "map ri_finding_id items' = map ri_finding_id (items[k := i])"
        "vc_verified c' + vc_reopened c' + vc_unchanged c' = vc_verified (bump_count out c) + vc_reopened (bump_count out c)
           + vc_unchanged (bump_count out c) + int (length (filter (\<lambda>v. fst v \<in> ri_finding_id ` set (items[k := i])) vs))"
        "\<forall>j<length (items[k := i]). items' ! j = items[k := i] ! j \<or> touched vs (ri_finding_id (items[k := i] ! j))"
      using Cons.IH [of "items[k := i]" "bump_count out c"] by blast
    have cnt: "vc_verified (bump_count out c) + vc_reopened (bump_count out c) + vc_unchanged (bump_count out c)
        = vc_verified c + vc_reopened c + vc_unchanged c + 1"
      by (cases out) (simp_all add: bump_count_def)
    have "\<forall>j<length items. items' ! j = items ! j \<or> touched (v # vs) (ri_finding_id (items ! j))"
    proof (intro allI impI)
      fix j assume j: "j < length items"
      show "items' ! j = items ! j \<or> touched (v # vs) (ri_finding_id (items ! j))"
      proof (cases "j = k")
        case True
        with r(4) j k chg fids [OF j] show ?thesis by (auto simp: v touched_Cons)
      next
        case False
        with r(4) j fids [OF j] show ?thesis by (auto simp: v touched_Cons)
      qed
    qed
    with r same img cnt mem show ?thesis by (simp add: v Some i)
  qed
qed simp

subsection \<open>Opening twice opens nothing\<close>

lemma groups_of_iff: "g \<in> groups_of fs \<longleftrightarrow> (\<exists>f\<in>set fs. tf_correlation_id f = Some g)"
  by (force simp: groups_of_def List.map_filter_def image_iff)

lemma open_fold_mono:
  "os_covered st \<subseteq> os_covered (foldl (open_one mk ex) st fs)
   \<and> set (os_items st) \<subseteq> set (os_items (foldl (open_one mk ex) st fs))
   \<and> os_opened st \<le> os_opened (foldl (open_one mk ex) st fs)"
proof (induction fs arbitrary: st)
  case (Cons f fs)
  have "os_covered st \<subseteq> os_covered (open_one mk ex st f) \<and> set (os_items st) \<subseteq> set (os_items (open_one mk ex st f))
      \<and> os_opened st \<le> os_opened (open_one mk ex st f)"
    by (auto simp: open_one_def split: option.splits)
  with Cons.IH [of "open_one mk ex st f"] show ?case by fastforce
qed simp

text \<open>After the loop every finding has an item, had one, or belongs to a covered group; every new item
  and every newly covered group comes from a finding of the loop.\<close>

lemma open_fold_done:
  "\<forall>f\<in>set fs. tf_id f \<in> ex \<or> in_covered (os_covered (foldl (open_one mk ex) st fs)) f
     \<or> mk f \<in> set (os_items (foldl (open_one mk ex) st fs))"
proof (induction fs arbitrary: st)
  case (Cons f fs)
  let ?st1 = "open_one mk ex st f"
  have "tf_id f \<in> ex \<or> in_covered (os_covered ?st1) f \<or> mk f \<in> set (os_items ?st1)"
    by (force simp: open_one_def)
  then have "tf_id f \<in> ex \<or> in_covered (os_covered (foldl (open_one mk ex) ?st1 fs)) f
      \<or> mk f \<in> set (os_items (foldl (open_one mk ex) ?st1 fs))"
    using open_fold_mono [of ?st1 mk ex fs] by (force simp: in_covered_def split: option.splits)
  with Cons.IH [of ?st1] show ?case by simp
qed simp

lemma open_fold_groups:
  "\<forall>g\<in>os_covered (foldl (open_one mk ex) st fs). g \<in> os_covered st
     \<or> (\<exists>f\<in>set fs. tf_correlation_id f = Some g \<and> mk f \<in> set (os_items (foldl (open_one mk ex) st fs)))"
proof (induction fs arbitrary: st)
  case (Cons f fs)
  let ?st1 = "open_one mk ex st f"
  have "\<forall>g\<in>os_covered ?st1. g \<in> os_covered st \<or> tf_correlation_id f = Some g \<and> mk f \<in> set (os_items ?st1)"
    by (auto simp: open_one_def split: option.splits)
  with Cons.IH [of ?st1] open_fold_mono [of ?st1 mk ex fs] show ?case by (fastforce)
qed simp

lemma open_fold_idle:
  assumes "\<forall>f\<in>set fs. tf_id f \<in> ex \<or> in_covered (os_covered st) f"
  shows "os_items (foldl (open_one mk ex) st fs) = os_items st \<and> os_opened (foldl (open_one mk ex) st fs) = os_opened st"
  using assms by (induction fs arbitrary: st) (auto simp: open_one_def)

lemma open_items_items:
  "fst (open_items mk_id exposure tenant customer ids assignee now fs items) =
     (let selected = trackable tenant customer ids fs in
      if selected = [] then items
      else os_items (foldl (open_one (new_item mk_id exposure assignee now) (existing_ids tenant items selected))
             \<lparr>os_items = items, os_covered = covered_groups tenant items selected fs, os_opened = 0, os_grouped = 0\<rparr>
             (worst_first selected)))"
  by (simp add: open_items_def Let_def)

lemma open_items_opened:
  "or_opened (snd (open_items mk_id exposure tenant customer ids assignee now fs items)) =
     (let selected = trackable tenant customer ids fs in
      if selected = [] then 0
      else os_opened (foldl (open_one (new_item mk_id exposure assignee now) (existing_ids tenant items selected))
             \<lparr>os_items = items, os_covered = covered_groups tenant items selected fs, os_opened = 0, os_grouped = 0\<rparr>
             (worst_first selected)))"
  by (simp add: open_items_def Let_def)

lemma trackable_sub: "set (trackable tenant customer ids fs) \<subseteq> {f \<in> set fs. tf_tenant_id f = tenant}"
  by (auto simp: trackable_def dest: in_set_takeD)

lemma new_item_simps [simp]:
  "ri_finding_id (new_item mk_id exposure a now f) = tf_id f"
  "ri_tenant_id (new_item mk_id exposure a now f) = tf_tenant_id f"
  "ri_status (new_item mk_id exposure a now f) = ''open''"
  "ri_verified_by (new_item mk_id exposure a now f) = None"
  by (simp_all add: new_item_def)

lemma existing_ids_iff:
  "x \<in> existing_ids tenant items fs \<longleftrightarrow> (\<exists>f\<in>set fs. tf_id f = x) \<and> (\<exists>i\<in>set items. ri_tenant_id i = tenant \<and> ri_finding_id i = x)"
  by (force simp: existing_ids_def)

lemma covered_groups_iff:
  "g \<in> covered_groups tenant items selected fs \<longleftrightarrow>
     (\<exists>f\<in>set selected. tf_id f \<in> existing_ids tenant items selected \<and> tf_correlation_id f = Some g)
     \<or> (\<exists>f\<in>set fs. tf_tenant_id f = tenant \<and> tf_id f \<in> ri_finding_id ` set items \<and> tf_correlation_id f = Some g)"
  by (force simp: covered_groups_def groups_of_iff)

lemma open_items_settled:
  fixes mk_id exposure tenant customer ids assignee now fs items
  defines "items' \<equiv> fst (open_items mk_id exposure tenant customer ids assignee now fs items)"
    and "selected \<equiv> trackable tenant customer ids fs"
  shows "set items \<subseteq> set items'"
    and "f \<in> set selected \<Longrightarrow> tf_id f \<in> existing_ids tenant items' selected
           \<or> in_covered (covered_groups tenant items' selected fs) f"
proof -
  let ?mk = "new_item mk_id exposure assignee now" and ?ex = "existing_ids tenant items selected"
  let ?st = "\<lparr>os_items = items, os_covered = covered_groups tenant items selected fs, os_opened = 0, os_grouped = 0\<rparr>"
  let ?fin = "foldl (open_one ?mk ?ex) ?st (worst_first selected)"
  have ws: "set (worst_first selected) = set selected" by (simp add: worst_first_def)
  show sub: "set items \<subseteq> set items'"
    using open_fold_mono [of ?st ?mk ?ex "worst_first selected"]
    by (auto simp: items'_def open_items_items selected_def Let_def)
  show "tf_id f \<in> existing_ids tenant items' selected \<or> in_covered (covered_groups tenant items' selected fs) f"
    if f: "f \<in> set selected"
  proof -
    have fin: "items' = os_items ?fin"
      using f by (auto simp: items'_def open_items_items selected_def Let_def)
    have tenant: "tf_tenant_id f' = tenant" "f' \<in> set fs" if "f' \<in> set selected" for f'
      using that trackable_sub [of tenant customer ids fs] by (auto simp: selected_def)
    have ex: "x \<in> existing_ids tenant items' selected" if "x \<in> ?ex" for x
      using that sub by (auto simp: existing_ids_iff)
    from open_fold_done [of "worst_first selected" ?ex ?mk ?st] f
    consider "tf_id f \<in> ?ex" | g where "tf_correlation_id f = Some g" "g \<in> os_covered ?fin" | "?mk f \<in> set items'"
      unfolding ws fin in_covered_def by (fastforce split: option.splits)
    then show ?thesis
    proof cases
      case 1
      then show ?thesis using ex by blast
    next
      case (2 g)
      have "g \<in> covered_groups tenant items' selected fs"
        using open_fold_groups [of ?mk ?ex ?st "worst_first selected"] 2(2)
      proof (elim ballE [of _ _ g] disjE bexE conjE)
        assume "g \<in> os_covered ?st"
        then show ?thesis using ex sub by (auto simp: covered_groups_iff)
      next
        fix f' assume f': "f' \<in> set (worst_first selected)" "tf_correlation_id f' = Some g" "?mk f' \<in> set (os_items ?fin)"
        then have "f' \<in> set selected" "?mk f' \<in> set items'" by (simp_all add: ws fin)
        then show ?thesis using tenant [of f'] f'(2)
          by (auto simp: covered_groups_iff intro!: bexI [of _ f'] image_eqI [of _ _ "?mk f'"])
      qed simp
      then show ?thesis using 2(1) by (simp add: in_covered_def)
    next
      case 3
      then show ?thesis using tenant [OF f] f by (auto simp: existing_ids_iff intro!: bexI [of _ "?mk f"])
    qed
  qed
qed

subsection \<open>Windows\<close>

lemma windows_checked:
  "list_all (\<lambda>d. list_all (\<lambda>m. 1 \<le> max MIN_SLA_DAYS (rhe (fl (of_int d * m)))
       \<and> max MIN_SLA_DAYS (rhe (fl (of_int d * m))) \<le> 365
       \<and> max MIN_SLA_DAYS (rhe (fl (of_int d * (1/2)))) \<le> max MIN_SLA_DAYS (rhe (fl (of_int d * m)))) [1/2, 1])
     [7, 30, 90, 180, 365]"
  by code_simp

subsection \<open>Properties\<close>

text \<open>C10: only evidence says verified.  Whatever people and scans do to an item from its opening on, a
  verified item names a scan that reported the finding resolved, a reopened one was reopened by a scan
  that still saw it, a parked one was parked by a request with a reason, and its status is always one
  of the vocabulary.\<close>

theorem item_lifecycle:
  assumes "item_run (new_item mk_id exposure assignee now f) es item"
  shows "ri_status item \<in> set REM_STATUSES
    \<and> (ri_status item = ''verified'' \<longrightarrow> (\<exists>sid. ri_verified_by item = Some sid \<and> ByScan sid ''resolved'' \<in> set es))
    \<and> (ri_status item = ''reopened'' \<longrightarrow> (\<exists>sid. ByScan sid ''still_present'' \<in> set es))
    \<and> (ri_status item \<in> NEEDS_JUSTIFICATION \<longrightarrow> (\<exists>users body. ByHand users body \<in> set es
         \<and> iu_status body = Some (ri_status item) \<and> py_strip (iu_justification body) \<noteq> []))"
  using lifecycle_invariant [OF assms] by simp

definition demo_track :: track_finding where
  "demo_track = \<lparr>tf_id = 1, tf_tenant_id = 2, tf_customer_id = 3, tf_asset_id = 4, tf_status = ''open'',
     tf_severity = ''high'', tf_risk_score = Some 80, tf_correlation_id = Some 9\<rparr>"

definition demo_item :: rem_item where
  "demo_item = new_item (\<lambda>x. x) (\<lambda>_. Some ''public'') None 0 demo_track"

definition demo_fix :: item_update where
  "demo_fix = \<lparr>iu_status = Some ''fixed'', iu_assignee_id = None, iu_justification = [], iu_due_at = None\<rparr>"

theorem item_lifecycle_witness:
  "\<exists>item. item_run demo_item [ByHand [] demo_fix, ByScan 7 ''resolved''] item \<and> ri_status item = ''verified''
     \<and> ri_verified_by item = Some 7"
proof -
  let ?i1 = "demo_item\<lparr>ri_status := ''fixed''\<rparr>"
  let ?i2 = "?i1\<lparr>ri_status := ''verified'', ri_verified_by := Some 7\<rparr>"
  have "apply_event (ByHand [] demo_fix) demo_item = Some ?i1"
    by (simp add: update_remediation_def demo_fix_def demo_item_def validate_transition_def REM_STATUSES_def
        NEEDS_JUSTIFICATION_def)
  then have "item_run demo_item ([] @ [ByHand [] demo_fix]) ?i1" by (rule step_run [OF begin_run])
  moreover have "apply_event (ByScan 7 ''resolved'') ?i1 = Some ?i2"
    by (simp add: verify_item_def)
  ultimately have r: "item_run demo_item (([] @ [ByHand [] demo_fix]) @ [ByScan 7 ''resolved'']) ?i2"
    by (rule step_run)
  then have "\<exists>sid. ri_verified_by ?i2 = Some sid \<and> ByScan sid ''resolved'' \<in> set [ByHand [] demo_fix, ByScan 7 ''resolved'']"
    using item_lifecycle [OF r [unfolded demo_item_def]] by simp
  with r show ?thesis by (intro exI [of _ ?i2]) simp
qed

text \<open>Closing after a scan cannot fail and acts on evidence only.  Whatever the verifications, the
  loop returns, keeps one item per position, counts each verification that has an item once, and an
  item changes only when a verification of its finding says resolved or still present.\<close>

theorem verify_after_scan_total:
  "\<exists>items' c. verify_after_scan sid vs items = Inr (items', c)
    \<and> list_all2 (\<lambda>i i'. ri_finding_id i' = ri_finding_id i \<and> (i' = i \<or> touched vs (ri_finding_id i))) items items'
    \<and> vc_verified c + vc_reopened c + vc_unchanged c
        = int (length (filter (\<lambda>v. fst v \<in> ri_finding_id ` set items) vs))"
proof -
  obtain items' c where r: "verify_loop sid vs items \<lparr>vc_verified = 0, vc_reopened = 0, vc_unchanged = 0\<rparr> = Inr (items', c)"
      "map ri_finding_id items' = map ri_finding_id items"
      "vc_verified c + vc_reopened c + vc_unchanged c = int (length (filter (\<lambda>v. fst v \<in> ri_finding_id ` set items) vs))"
      "\<forall>k<length items. items' ! k = items ! k \<or> touched vs (ri_finding_id (items ! k))"
    using verify_loop_total [of sid vs items "\<lparr>vc_verified = 0, vc_reopened = 0, vc_unchanged = 0\<rparr>"] by auto
  have len: "length items' = length items" using r(2) by (metis length_map)
  have "list_all2 (\<lambda>i i'. ri_finding_id i' = ri_finding_id i \<and> (i' = i \<or> touched vs (ri_finding_id i))) items items'"
    unfolding list_all2_conv_all_nth using r(2,4) len by (metis nth_map)
  with r show ?thesis by (simp add: verify_after_scan_def)
qed

text \<open>Opening is idempotent.  Running it again after any scan, with any clock, assignee or exposure,
  opens nothing and leaves the items alone, because every selected finding already has an item or
  belongs to a correlation group that has one.\<close>

theorem open_items_idempotent:
  "let items' = fst (open_items mk_id exposure tenant customer ids assignee now fs items);
       again = open_items mk_id' exposure' tenant customer ids assignee' now' fs items'
   in fst again = items' \<and> or_opened (snd again) = 0 \<and> set items \<subseteq> set items'"
proof -
  let ?items' = "fst (open_items mk_id exposure tenant customer ids assignee now fs items)"
  let ?sel = "trackable tenant customer ids fs"
  have "\<forall>f\<in>set (worst_first ?sel). tf_id f \<in> existing_ids tenant ?items' ?sel
      \<or> in_covered (os_covered \<lparr>os_items = ?items', os_covered = covered_groups tenant ?items' ?sel fs,
           os_opened = 0, os_grouped = 0\<rparr>) f"
    using open_items_settled(2) by (simp add: worst_first_def)
  from open_fold_idle [OF this] show ?thesis
    using open_items_settled(1) by (auto simp: open_items_items open_items_opened Let_def)
qed

text \<open>Every finding gets a date it can be held to: between 1 and 365 days whatever the severity and
  exposure say, and being reachable from the internet never lengthens the window.\<close>

theorem sla_window:
  "1 \<le> sla_days severity exposure \<and> sla_days severity exposure \<le> 365
   \<and> sla_days severity ''public'' \<le> sla_days severity exposure"
proof -
  have d: "dict_getdef SLA_DAYS s 90 \<in> set [7, 30, 90, 180, 365]" for s
    by (auto simp: SLA_DAYS_def dict_getdef_def)
  have m: "dict_getdef EXPOSURE_MULTIPLIER e 1 \<in> set [1/2, 1]" for e
    by (auto simp: EXPOSURE_MULTIPLIER_def dict_getdef_def)
  have pub: "dict_getdef EXPOSURE_MULTIPLIER (py_lower ''public'') 1 = 1/2" by code_simp
  show ?thesis
    using windows_checked d [of "py_lower severity"] m [of "py_lower exposure"]
    unfolding sla_days_def Let_def pub list_all_iff by blast
qed

subsection \<open>Where the code departs from its own description\<close>

text \<open>\<open>on_time_rate\<close> is described as a percentage over active plus fixed items.  It divides by active
  plus verified ones while the overdue count includes fixed ones, so it can leave the range.\<close>

lemma on_time_rate_negative:
  "on_time_rate (summarize [\<lparr>sl_status = ''verified'', sl_severity = ''high'', sl_due_at = None\<rparr>,
      \<lparr>sl_status = ''fixed'', sl_severity = ''high'', sl_due_at = Some 1\<rparr>,
      \<lparr>sl_status = ''fixed'', sl_severity = ''high'', sl_due_at = Some 1\<rparr>] 5) = - 100"
  by code_simp

text \<open>An accepted risk can lose its reason: a later request without a status change may replace the
  justification by blanks.\<close>

lemma justification_can_be_blanked:
  "\<exists>item. apply_event (ByHand [] \<lparr>iu_status = None, iu_assignee_id = None, iu_justification = '' '', iu_due_at = None\<rparr>)
       (demo_item\<lparr>ri_status := ''risk_accepted'', ri_justification := Some ''owned by the CTO''\<rparr>) = Some item
     \<and> ri_status item = ''risk_accepted'' \<and> ri_justification item = Some '' ''"
  by (simp add: update_remediation_def)

text \<open>Reopening a verified item by hand leaves the name of the scan that verified it.\<close>

lemma open_item_keeps_verifier:
  "\<exists>item. apply_event (ByHand [] \<lparr>iu_status = Some ''open'', iu_assignee_id = None, iu_justification = [], iu_due_at = None\<rparr>)
       (demo_item\<lparr>ri_status := ''verified'', ri_verified_by := Some 7\<rparr>) = Some item
     \<and> ri_status item = ''open'' \<and> ri_verified_by item = Some 7"
  by (simp add: update_remediation_def validate_transition_def REM_STATUSES_def NEEDS_JUSTIFICATION_def
      HUMAN_SETTABLE_def)

end
