(* ===== verification/Retest.thy ===== *)
theory Retest
  imports Remediation
begin

text \<open>
  The scanner worker's \<open>verification.py\<close>: what a scan entitles the platform to conclude about the
  findings of its asset.  The tables of the session are a record; \<open>reconcile_scan\<close> judges every
  finding of the scanned asset and moves those for which the verdict is evidence.  Its records feed
  the closing of remediation items, and the last section states what the two guarantee together.
\<close>

subsection \<open>Rows\<close>

record engine_run =
  er_scan_id :: uuid
  er_engine :: string
  er_status :: string
  er_tool_versions :: jval
  er_error :: "string option"

record finding_row =
  fr_id :: uuid
  fr_tenant_id :: uuid
  fr_customer_id :: uuid
  fr_asset_id :: uuid
  fr_scan_id :: uuid
  fr_fingerprint :: string
  fr_status :: string
  fr_category :: string
  fr_location :: jobj
  fr_reopened_count :: "int option"
  fr_last_verified_at :: "int option"
  fr_verdict :: "string option"

record scan_row =
  sr_id :: uuid
  sr_tenant_id :: uuid
  sr_asset_id :: uuid

subsection \<open>Verdicts\<close>

datatype rationale =
    EngineNotRun | EngineFailed string | EngineNotCompleted string | EngineDegraded string
  | EngineClean | SeenAgain | Stated string | RetestRequested

record verdict =
  vd_verdict :: string
  vd_rationale :: rationale
  vd_engine :: "string option"

definition is_evidence :: "verdict \<Rightarrow> bool" where
  "is_evidence v \<longleftrightarrow> vd_verdict v \<in> {''still_present'', ''resolved''}"

definition OPEN_FINDING_STATUSES :: "string set" where
  "OPEN_FINDING_STATUSES = {''open'', ''triaged'', ''confirmed''}"

definition CLOSED_BY_EVIDENCE :: "string set" where
  "CLOSED_BY_EVIDENCE = {''resolved''}"

text \<open>\<open>", ".join(tools.get("missing") or []) or "a tool"\<close>\<close>

fun all_strings :: "jval list \<Rightarrow> py_error + string list" where
  "all_strings [] = Inr []"
| "all_strings (JStr s # xs) = (case all_strings xs of Inl e \<Rightarrow> Inl e | Inr ss \<Rightarrow> Inr (s # ss))"
| "all_strings (_ # xs) = Inl TypeError"

definition missing_tools :: "jobj \<Rightarrow> py_error + string" where
  "missing_tools tools =
     (case iter_of (jor (jget tools ''missing'') (JList [])) of Inl e \<Rightarrow> Inl e
      | Inr vs \<Rightarrow> (case all_strings vs of Inl e \<Rightarrow> Inl e
          | Inr ss \<Rightarrow> Inr (let m = join_with '', '' ss in if m = [] then ''a tool'' else m)))"

definition is_degraded :: "jval \<Rightarrow> bool" where
  "is_degraded tools = (case jor tools (JObj []) of JObj d \<Rightarrow> truthy (jget d ''degraded'') | _ \<Rightarrow> False)"

definition engine_outcome :: "engine_run option \<Rightarrow> py_error + verdict" where
  "engine_outcome run =
     (case run of
        None \<Rightarrow> Inr \<lparr>vd_verdict = ''not_checked'', vd_rationale = EngineNotRun, vd_engine = None\<rparr>
      | Some r \<Rightarrow>
        if er_status r = ''failed''
        then Inr \<lparr>vd_verdict = ''not_checked'',
                  vd_rationale = EngineFailed (take 120 (case er_error r of
                     Some e \<Rightarrow> if e = [] then ''no reason recorded'' else e | None \<Rightarrow> ''no reason recorded'')),
                  vd_engine = Some (er_engine r)\<rparr>
        else if er_status r \<noteq> ''completed''
        then Inr \<lparr>vd_verdict = ''not_checked'', vd_rationale = EngineNotCompleted (er_status r),
                  vd_engine = Some (er_engine r)\<rparr>
        else if is_degraded (er_tool_versions r)
        then (case missing_tools (as_obj (er_tool_versions r)) of Inl e \<Rightarrow> Inl e
              | Inr m \<Rightarrow> Inr \<lparr>vd_verdict = ''inconclusive'', vd_rationale = EngineDegraded m,
                             vd_engine = Some (er_engine r)\<rparr>)
        else Inr \<lparr>vd_verdict = ''resolved'', vd_rationale = EngineClean, vd_engine = Some (er_engine r)\<rparr>)"

definition RULE_PREFIXES :: "(string \<times> string) list" where
  "RULE_PREFIXES = [(''taint-'', ''sast''), (''py-'', ''sast''), (''js-'', ''sast''), (''image-'', ''container''),
     (''iac-'', ''iac''), (''web-check-'', ''web_checks''), (''service-cve-'', ''service_cve'')]"

definition CATEGORY_ENGINES :: "(string, string) odict" where
  "CATEGORY_ENGINES = [(''secret'', ''secrets''), (''vuln-dep'', ''sca''), (''vuln-service'', ''service_cve''),
     (''insecure-code'', ''sast'')]"

definition finding_engine_by_rule :: "finding_row \<Rightarrow> string" where
  "finding_engine_by_rule f =
     (case find (\<lambda>(prefix, name). startswith (str_or (jget (fr_location f) ''rule'') []) prefix) RULE_PREFIXES of
        Some (prefix, name) \<Rightarrow> name
      | None \<Rightarrow> dict_getdef CATEGORY_ENGINES (fr_category f) (fr_category f))"

definition finding_engine :: "finding_row \<Rightarrow> string" where
  "finding_engine f =
     (case jget (fr_location f) ''engine'' of
        JStr e \<Rightarrow> if e \<noteq> [] then e else finding_engine_by_rule f
      | _ \<Rightarrow> finding_engine_by_rule f)"

definition verdict_for :: "string set \<Rightarrow> (string \<Rightarrow> engine_run option) \<Rightarrow> finding_row \<Rightarrow> py_error + verdict" where
  "verdict_for reported runs f =
     (if fr_fingerprint f \<in> reported
      then Inr \<lparr>vd_verdict = ''still_present'', vd_rationale = SeenAgain, vd_engine = Some (finding_engine f)\<rparr>
      else engine_outcome (runs (finding_engine f)))"

subsection \<open>Applying a verdict\<close>

record verification_row =
  vr_tenant_id :: uuid
  vr_finding_id :: uuid
  vr_scan_id :: "uuid option"
  vr_verdict :: string
  vr_method :: string
  vr_engine :: "string option"
  vr_rationale :: rationale
  vr_checked_at :: int
  vr_evidence :: jobj

datatype event_note = Because rationale | Regression rationale int

record finding_event =
  fe_finding_id :: uuid
  fe_from_status :: string
  fe_to_status :: string
  fe_note :: event_note

definition reopen_count :: "finding_row \<Rightarrow> int" where
  "reopen_count f = (case fr_reopened_count f of Some n \<Rightarrow> n | None \<Rightarrow> 0) + 1"

definition move :: "finding_row \<Rightarrow> verdict \<Rightarrow> finding_row \<times> finding_event list \<times> bool" where
  "move f v =
     (if \<not> is_evidence v then (f, [], False)
      else if vd_verdict v = ''resolved'' \<and> fr_status f \<in> OPEN_FINDING_STATUSES then
        (f\<lparr>fr_status := ''resolved''\<rparr>,
         [\<lparr>fe_finding_id = fr_id f, fe_from_status = fr_status f, fe_to_status = ''resolved'',
           fe_note = Because (vd_rationale v)\<rparr>], False)
      else if vd_verdict v = ''still_present'' \<and> fr_status f \<in> CLOSED_BY_EVIDENCE then
        (f\<lparr>fr_status := ''open'', fr_reopened_count := Some (reopen_count f)\<rparr>,
         [\<lparr>fe_finding_id = fr_id f, fe_from_status = fr_status f, fe_to_status = ''open'',
           fe_note = Regression (vd_rationale v) (reopen_count f)\<rparr>], True)
      else (f, [], False))"

definition rescan_record :: "scan_row \<Rightarrow> int \<Rightarrow> verdict \<Rightarrow> finding_row \<Rightarrow> verification_row" where
  "rescan_record scan now v f =
     \<lparr>vr_tenant_id = fr_tenant_id f, vr_finding_id = fr_id f, vr_scan_id = Some (sr_id scan),
      vr_verdict = vd_verdict v, vr_method = ''rescan'', vr_engine = vd_engine v,
      vr_rationale = vd_rationale v, vr_checked_at = now,
      vr_evidence = [(''scan_id'', JStr (str_uuid (sr_id scan))), (''asset_id'', JStr (str_uuid (sr_asset_id scan)))]\<rparr>"

definition apply_verdict ::
  "scan_row \<Rightarrow> int \<Rightarrow> verdict \<Rightarrow> finding_row \<Rightarrow> finding_row \<times> verification_row \<times> finding_event list \<times> bool" where
  "apply_verdict scan now v f =
     (case move (f\<lparr>fr_last_verified_at := Some now, fr_verdict := Some (vd_verdict v)\<rparr>) v of
        (f', events, reopened) \<Rightarrow> (f', rescan_record scan now v f, events, reopened))"

subsection \<open>Reconciling a scan\<close>

record scan_db =
  sd_scans :: "scan_row list"
  sd_runs :: "engine_run list"
  sd_findings :: "finding_row list"
  sd_verifications :: "verification_row list"
  sd_events :: "finding_event list"

definition stats_zero :: "(string, int) odict" where
  "stats_zero = [(''checked'', 0), (''resolved'', 0), (''still_present'', 0), (''not_checked'', 0),
     (''inconclusive'', 0), (''reopened'', 0)]"

definition count_up :: "string \<Rightarrow> (string, int) odict \<Rightarrow> (string, int) odict" where
  "count_up k d = dict_set k (dict_getdef d k 0 + 1) d"

definition on_asset :: "scan_row \<Rightarrow> finding_row \<Rightarrow> bool" where
  "on_asset scan f \<longleftrightarrow> fr_tenant_id f = sr_tenant_id scan \<and> fr_asset_id f = sr_asset_id scan"

text \<open>The loop over the findings table; rows of other assets are skipped by the query.\<close>

fun reconcile_rows ::
  "scan_row \<Rightarrow> int \<Rightarrow> string set \<Rightarrow> (string \<Rightarrow> engine_run option) \<Rightarrow> finding_row list \<Rightarrow> (string, int) odict
     \<Rightarrow> py_error + (finding_row list \<times> verification_row list \<times> finding_event list \<times> (string, int) odict)" where
  "reconcile_rows scan now reported runs [] stats = Inr ([], [], [], stats)"
| "reconcile_rows scan now reported runs (f # fs) stats =
     (if \<not> on_asset scan f then
        (case reconcile_rows scan now reported runs fs stats of Inl e \<Rightarrow> Inl e
         | Inr (fs', vs, evs, st) \<Rightarrow> Inr (f # fs', vs, evs, st))
      else
        (case verdict_for reported runs f of Inl e \<Rightarrow> Inl e
         | Inr v \<Rightarrow>
           (case apply_verdict scan now v f of (f', vr, ev, reopened) \<Rightarrow>
             let stats1 = count_up (vd_verdict v) (count_up ''checked'' stats);
                 stats2 = (if reopened then count_up ''reopened'' stats1 else stats1)
             in (case reconcile_rows scan now reported runs fs stats2 of Inl e \<Rightarrow> Inl e
                 | Inr (fs', vs, evs, st) \<Rightarrow> Inr (f' # fs', vr # vs, ev @ evs, st)))))"

definition runs_of :: "engine_run list \<Rightarrow> uuid \<Rightarrow> string \<Rightarrow> engine_run option" where
  "runs_of runs scan_id engine = find (\<lambda>r. er_scan_id r = scan_id \<and> er_engine r = engine) (rev runs)"

definition reported_by :: "finding_row list \<Rightarrow> uuid \<Rightarrow> string set" where
  "reported_by fs scan_id = set (map fr_fingerprint (filter (\<lambda>f. fr_scan_id f = scan_id) fs))"

text \<open>An unknown scan returns the empty statistics and an error mark.\<close>

definition reconcile_scan :: "uuid \<Rightarrow> int \<Rightarrow> scan_db \<Rightarrow> py_error + (scan_db \<times> (string, int) odict \<times> bool)" where
  "reconcile_scan scan_id now db =
     (case find (\<lambda>s. sr_id s = scan_id) (sd_scans db) of
        None \<Rightarrow> Inr (db, stats_zero, True)
      | Some scan \<Rightarrow>
        (case reconcile_rows scan now (reported_by (sd_findings db) scan_id) (runs_of (sd_runs db) scan_id)
                (sd_findings db) stats_zero of
           Inl e \<Rightarrow> Inl e
         | Inr (fs', vs, evs, st) \<Rightarrow>
             Inr (db\<lparr>sd_findings := fs', sd_verifications := sd_verifications db @ vs,
                     sd_events := sd_events db @ evs\<rparr>, st, False)))"

subsection \<open>Verdicts of people, and retests\<close>

definition record_manual_verification ::
  "string \<Rightarrow> string \<Rightarrow> uuid option \<Rightarrow> int \<Rightarrow> finding_row \<Rightarrow> finding_row \<times> verification_row \<times> finding_event list" where
  "record_manual_verification v text actor now f =
     (let note = Stated (take 2000 text);
          f1 = f\<lparr>fr_last_verified_at := Some now, fr_verdict := Some v\<rparr>;
          vr = \<lparr>vr_tenant_id = fr_tenant_id f, vr_finding_id = fr_id f, vr_scan_id = None, vr_verdict = v,
                vr_method = ''manual'', vr_engine = None, vr_rationale = note, vr_checked_at = now,
                vr_evidence = [(''actor_id'', case actor of Some a \<Rightarrow> JStr (str_uuid a) | None \<Rightarrow> JNull)]\<rparr>
      in if v = ''resolved'' \<and> fr_status f \<in> OPEN_FINDING_STATUSES then
           (f1\<lparr>fr_status := ''resolved''\<rparr>, vr,
            [\<lparr>fe_finding_id = fr_id f, fe_from_status = fr_status f, fe_to_status = ''resolved'',
              fe_note = Because (Stated (take 1000 text))\<rparr>])
         else if v = ''still_present'' \<and> fr_status f \<in> CLOSED_BY_EVIDENCE then
           (f1\<lparr>fr_status := ''open'', fr_reopened_count := Some (reopen_count f)\<rparr>, vr,
            [\<lparr>fe_finding_id = fr_id f, fe_from_status = fr_status f, fe_to_status = ''open'',
              fe_note = Because (Stated (take 1000 text))\<rparr>])
         else (f1, vr, []))"

text \<open>A retest queues an ordinary scan of the asset, with a record that says nothing was checked yet.\<close>

record retest_result =
  rt_scan :: scan_row
  rt_engines :: "string list"
  rt_retest_of :: string

definition retest_finding :: "uuid \<Rightarrow> uuid \<Rightarrow> int \<Rightarrow> scan_db \<Rightarrow> scan_db \<times> retest_result option" where
  "retest_finding new_scan_id finding_id now db =
     (case find (\<lambda>f. fr_id f = finding_id) (sd_findings db) of
        None \<Rightarrow> (db, None)
      | Some f \<Rightarrow>
        (let engine = finding_engine f;
             scan = \<lparr>sr_id = new_scan_id, sr_tenant_id = fr_tenant_id f, sr_asset_id = fr_asset_id f\<rparr>
         in (db\<lparr>sd_scans := sd_scans db @ [scan],
                sd_verifications := sd_verifications db @
                  [\<lparr>vr_tenant_id = fr_tenant_id f, vr_finding_id = fr_id f, vr_scan_id = Some new_scan_id,
                    vr_verdict = ''not_checked'', vr_method = ''manual'', vr_engine = Some engine,
                    vr_rationale = RetestRequested, vr_checked_at = now,
                    vr_evidence = [(''scan_id'', JStr (str_uuid new_scan_id))]\<rparr>]\<rparr>,
             Some \<lparr>rt_scan = scan, rt_engines = [engine], rt_retest_of = str_uuid (fr_id f)\<rparr>)))"

text \<open>What \<open>verify_after_scan\<close> reads: the verifications of the scan.\<close>

definition scan_verdicts :: "scan_db \<Rightarrow> uuid \<Rightarrow> (uuid \<times> string) list" where
  "scan_verdicts db scan_id =
     map (\<lambda>v. (vr_finding_id v, vr_verdict v)) (filter (\<lambda>v. vr_scan_id v = Some scan_id) (sd_verifications db))"

subsection \<open>Lemmas\<close>

text \<open>What licenses "gone": the scan did not report the fingerprint although the engine that would have
  found it ran to completion with its tools.\<close>

definition clean_absence :: "string set \<Rightarrow> (string \<Rightarrow> engine_run option) \<Rightarrow> finding_row \<Rightarrow> bool" where
  "clean_absence reported runs f \<longleftrightarrow> fr_fingerprint f \<notin> reported
     \<and> (\<exists>r. runs (finding_engine f) = Some r \<and> er_status r = ''completed'' \<and> \<not> is_degraded (er_tool_versions r))"

lemma verdict_resolved:
  "verdict_for reported runs f = Inr v \<Longrightarrow> vd_verdict v = ''resolved'' \<longleftrightarrow> clean_absence reported runs f"
  by (auto simp: verdict_for_def engine_outcome_def clean_absence_def split: if_splits option.splits sum.splits)

lemma verdict_still:
  "verdict_for reported runs f = Inr v \<Longrightarrow> vd_verdict v = ''still_present'' \<longleftrightarrow> fr_fingerprint f \<in> reported"
  by (auto simp: verdict_for_def engine_outcome_def split: if_splits option.splits sum.splits)

lemma verdict_vocabulary:
  "verdict_for reported runs f = Inr v \<Longrightarrow>
     vd_verdict v \<in> {''still_present'', ''resolved'', ''not_checked'', ''inconclusive''}"
  by (auto simp: verdict_for_def engine_outcome_def split: if_splits option.splits sum.splits)

text \<open>The three things that can happen to a row.\<close>

definition justified :: "string set \<Rightarrow> (string \<Rightarrow> engine_run option) \<Rightarrow> finding_row \<Rightarrow> finding_row \<Rightarrow> bool" where
  "justified reported runs f f' \<longleftrightarrow> fr_id f' = fr_id f \<and>
     (fr_status f' = fr_status f \<and> fr_reopened_count f' = fr_reopened_count f
      \<or> fr_status f \<in> OPEN_FINDING_STATUSES \<and> fr_status f' = ''resolved'' \<and> clean_absence reported runs f
           \<and> fr_reopened_count f' = fr_reopened_count f
      \<or> fr_status f = ''resolved'' \<and> fr_status f' = ''open'' \<and> fr_fingerprint f \<in> reported
           \<and> fr_reopened_count f' = Some (reopen_count f))"

lemma engine_by_rule_update [simp]:
  "finding_engine_by_rule (f\<lparr>fr_last_verified_at := a, fr_verdict := b\<rparr>) = finding_engine_by_rule f"
  by (simp add: finding_engine_by_rule_def split: option.split)

lemma finding_row_updates [simp]:
  "finding_engine (f\<lparr>fr_last_verified_at := a, fr_verdict := b\<rparr>) = finding_engine f"
  "reopen_count (f\<lparr>fr_last_verified_at := a, fr_verdict := b\<rparr>) = reopen_count f"
  by (simp_all add: finding_engine_def reopen_count_def split: jval.split)

lemma apply_verdict_justified:
  assumes "verdict_for reported runs f = Inr v" "apply_verdict scan now v f = (f', vr, ev, b)"
  shows "justified reported runs f f' \<and> vr = rescan_record scan now v f"
  using assms(2) verdict_resolved [OF assms(1)] verdict_still [OF assms(1)]
  by (auto simp: apply_verdict_def move_def justified_def CLOSED_BY_EVIDENCE_def is_evidence_def
      split: if_splits prod.splits)

lemma reconcile_rows_ok:
  assumes "reconcile_rows scan now reported runs fs stats = Inr (fs', vs, evs, st)"
  shows "list_all2 (justified reported runs) fs fs'
    \<and> (\<forall>v\<in>set vs. \<exists>f\<in>set fs. on_asset scan f \<and> vr_finding_id v = fr_id f \<and> vr_scan_id v = Some (sr_id scan)
         \<and> (vr_verdict v = ''resolved'' \<longrightarrow> clean_absence reported runs f))
    \<and> length vs = length (filter (on_asset scan) fs)"
  using assms
proof (induction fs arbitrary: stats fs' vs evs st)
  case (Cons f fs)
  show ?case
  proof (cases "on_asset scan f")
    case False
    then obtain fs1 where "reconcile_rows scan now reported runs fs stats = Inr (fs1, vs, evs, st)" "fs' = f # fs1"
      using Cons.prems by (auto split: sum.splits)
    with Cons.IH [OF this(1)] False show ?thesis by (auto simp: justified_def)
  next
    case True
    then obtain v f' vr ev b stats2 fs1 vs1 evs1 where v: "verdict_for reported runs f = Inr v"
      and a: "apply_verdict scan now v f = (f', vr, ev, b)"
      and r: "reconcile_rows scan now reported runs fs stats2 = Inr (fs1, vs1, evs1, st)"
      and eq: "fs' = f' # fs1" "vs = vr # vs1"
      using Cons.prems by (auto simp: Let_def split: sum.splits prod.splits)
    have j: "justified reported runs f f'" "vr = rescan_record scan now v f"
      using apply_verdict_justified [OF v a] by auto
    have "vr_verdict vr = ''resolved'' \<longrightarrow> clean_absence reported runs f"
      using verdict_resolved [OF v] j(2) by (simp add: rescan_record_def)
    with Cons.IH [OF r] j True eq show ?thesis by (auto simp: rescan_record_def)
  qed
qed simp

lemma verify_loop_verified:
  assumes "verify_loop sid vs items c = Inr (items', c')" "k < length items" "ri_status (items' ! k) = ''verified''"
  shows "ri_status (items ! k) = ''verified'' \<or> (ri_finding_id (items ! k), ''resolved'') \<in> set vs"
  using assms
proof (induction vs arbitrary: items c)
  case (Cons v vs)
  obtain fid verdict where v: "v = (fid, verdict)" by (cases v)
  show ?case
  proof (cases "last_index (\<lambda>i. ri_finding_id i = fid) items")
    case None
    with Cons.IH [of items c] Cons.prems show ?thesis by (auto simp: v)
  next
    case (Some j)
    then have j: "j < length items" "ri_finding_id (items ! j) = fid" by (auto dest: last_index_Some)
    obtain i out where i: "verify_item sid verdict (items ! j) = Inr (i, out)" using verify_item_Inr by blast
    have run: "verify_loop sid vs (items[j := i]) (bump_count out c) = Inr (items', c')"
      using Cons.prems(1) by (simp add: v Some i)
    have ih: "ri_status (items[j := i] ! k) = ''verified'' \<or> (ri_finding_id (items[j := i] ! k), ''resolved'') \<in> set vs"
      using Cons.IH [OF run] Cons.prems by simp
    show ?thesis
    proof (cases "k = j")
      case True
      have "ri_status i = ''verified'' \<longrightarrow> ri_status (items ! j) = ''verified'' \<or> verdict = ''resolved''"
        using i by (auto simp: verify_item_def split: if_splits)
      with ih j True verify_item_id [OF i] show ?thesis by (auto simp: v)
    next
      case False
      with ih show ?thesis by (auto simp: v)
    qed
  qed
qed simp

subsection \<open>Properties\<close>

text \<open>C11: absence is evidence only when the check actually ran.  Reconciling a scan keeps the table row
  for row; a finding's status moves only from an open state to resolved, when the scan did not report
  it although its engine completed with all its tools, or from resolved back to open, counted, when
  the scan reported it again.  A human decision such as an accepted risk never moves.\<close>

theorem reconcile_moves_on_evidence:
  assumes "reconcile_scan scan_id now db = Inr (db', stats, unknown)"
  shows "list_all2 (justified (reported_by (sd_findings db) scan_id) (runs_of (sd_runs db) scan_id))
           (sd_findings db) (sd_findings db')"
proof (cases "find (\<lambda>s. sr_id s = scan_id) (sd_scans db)")
  case None
  with assms show ?thesis by (auto simp: reconcile_scan_def justified_def list_all2_same)
next
  case (Some scan)
  then obtain fs' vs evs st where "reconcile_rows scan now (reported_by (sd_findings db) scan_id)
      (runs_of (sd_runs db) scan_id) (sd_findings db) stats_zero = Inr (fs', vs, evs, st)" "sd_findings db' = fs'"
    using assms by (auto simp: reconcile_scan_def split: sum.splits)
  with reconcile_rows_ok show ?thesis by blast
qed

definition demo_finding_row :: finding_row where
  "demo_finding_row = \<lparr>fr_id = 1, fr_tenant_id = 2, fr_customer_id = 3, fr_asset_id = 4, fr_scan_id = 50,
     fr_fingerprint = ''fp'', fr_status = ''triaged'', fr_category = ''vuln-dep'', fr_location = [],
     fr_reopened_count = Some 0, fr_last_verified_at = None, fr_verdict = None\<rparr>"

definition demo_scan_db :: scan_db where
  "demo_scan_db = \<lparr>sd_scans = [\<lparr>sr_id = 60, sr_tenant_id = 2, sr_asset_id = 4\<rparr>],
     sd_runs = [\<lparr>er_scan_id = 60, er_engine = ''sca'', er_status = ''completed'', er_tool_versions = JObj [],
                 er_error = None\<rparr>],
     sd_findings = [demo_finding_row], sd_verifications = [], sd_events = []\<rparr>"

lemma demo_reconcile:
  "\<exists>db' stats. reconcile_scan 60 9 demo_scan_db = Inr (db', stats, False)
     \<and> map fr_status (sd_findings db') = [''resolved''] \<and> scan_verdicts db' 60 = [(1, ''resolved'')]"
  by (simp add: reconcile_scan_def demo_scan_db_def demo_finding_row_def on_asset_def verdict_for_def
      reported_by_def runs_of_def finding_engine_def finding_engine_by_rule_def RULE_PREFIXES_def
      CATEGORY_ENGINES_def dict_getdef_def engine_outcome_def is_degraded_def jor_def jget_def
      apply_verdict_def move_def is_evidence_def OPEN_FINDING_STATUSES_def rescan_record_def scan_verdicts_def
      str_or_def startswith_def)

theorem reconcile_moves_on_evidence_witness:
  "clean_absence (reported_by (sd_findings demo_scan_db) 60) (runs_of (sd_runs demo_scan_db) 60) demo_finding_row"
proof -
  obtain db' stats where r: "reconcile_scan 60 9 demo_scan_db = Inr (db', stats, False)"
      "map fr_status (sd_findings db') = [''resolved'']"
    using demo_reconcile by auto
  then obtain f where f: "sd_findings db' = [f]" "fr_status f = ''resolved''" by auto
  have "sd_findings demo_scan_db = [demo_finding_row]" by (simp add: demo_scan_db_def)
  then have "justified (reported_by (sd_findings demo_scan_db) 60) (runs_of (sd_runs demo_scan_db) 60) demo_finding_row f"
    using reconcile_moves_on_evidence [OF r(1)] f(1) by simp
  then show ?thesis using f(2) by (simp add: justified_def demo_finding_row_def)
qed

text \<open>The loop closes on evidence only.  Reconcile a scan, then close the remediation items with the
  records it left, where before it nothing was recorded for this scan but pending retests: an item
  that becomes verified is about a finding of the scanned asset which the scan did not report although
  the engine responsible for it completed, undegraded, in this scan.\<close>

theorem closing_needs_clean_scan:
  assumes "reconcile_scan scan_id now db = Inr (db', stats, unknown)"
    and "\<forall>v\<in>set (scan_verdicts db scan_id). snd v = ''not_checked''"
    and "verify_after_scan scan_id (scan_verdicts db' scan_id) items = Inr (items', c)"
    and "k < length items" "ri_status (items ! k) \<noteq> ''verified''" "ri_status (items' ! k) = ''verified''"
  shows "\<exists>f\<in>set (sd_findings db). fr_id f = ri_finding_id (items ! k)
    \<and> clean_absence (reported_by (sd_findings db) scan_id) (runs_of (sd_runs db) scan_id) f"
proof -
  have mem: "(ri_finding_id (items ! k), ''resolved'') \<in> set (scan_verdicts db' scan_id)"
    using verify_loop_verified [OF assms(3) [unfolded verify_after_scan_def] assms(4,6)] assms(5) by simp
  show ?thesis
  proof (cases "find (\<lambda>s. sr_id s = scan_id) (sd_scans db)")
    case None
    then have "db' = db" using assms(1) by (simp add: reconcile_scan_def)
    with mem assms(2) show ?thesis by fastforce
  next
    case (Some scan)
    then obtain fs' vs evs st where r: "reconcile_rows scan now (reported_by (sd_findings db) scan_id)
        (runs_of (sd_runs db) scan_id) (sd_findings db) stats_zero = Inr (fs', vs, evs, st)"
        "sd_verifications db' = sd_verifications db @ vs"
      using assms(1) by (auto simp: reconcile_scan_def split: sum.splits)
    then have "(ri_finding_id (items ! k), ''resolved'') \<in> set (scan_verdicts db scan_id)
        \<or> (\<exists>v\<in>set vs. vr_finding_id v = ri_finding_id (items ! k) \<and> vr_verdict v = ''resolved'')"
      using mem by (auto simp: scan_verdicts_def)
    then show ?thesis using assms(2) reconcile_rows_ok [OF r(1)] by fastforce
  qed
qed

theorem closing_needs_clean_scan_witness:
  "\<exists>f\<in>set (sd_findings demo_scan_db). fr_id f = 1
     \<and> clean_absence (reported_by (sd_findings demo_scan_db) 60) (runs_of (sd_runs demo_scan_db) 60) f"
proof -
  obtain db' stats where r: "reconcile_scan 60 9 demo_scan_db = Inr (db', stats, False)"
      "scan_verdicts db' 60 = [(1, ''resolved'')]"
    using demo_reconcile by auto
  have none: "\<forall>v\<in>set (scan_verdicts demo_scan_db 60). snd v = ''not_checked''"
    by (simp add: scan_verdicts_def demo_scan_db_def)
  have fid: "ri_finding_id demo_item = 1" "ri_status demo_item = ''open''" by (simp_all add: demo_item_def demo_track_def)
  have run: "\<exists>c. verify_after_scan 60 (scan_verdicts db' 60) [demo_item]
      = Inr ([demo_item\<lparr>ri_status := ''verified'', ri_verified_by := Some 60\<rparr>], c)"
    unfolding r(2) by (simp add: verify_after_scan_def fid verify_item_def)
  then obtain c where "verify_after_scan 60 (scan_verdicts db' 60) [demo_item]
      = Inr ([demo_item\<lparr>ri_status := ''verified'', ri_verified_by := Some 60\<rparr>], c)" by blast
  from closing_needs_clean_scan [OF r(1) none this, of 0] fid show ?thesis by simp
qed

end
