(* ===== verification/Quota.thy ===== *)
theory Quota
  imports PyUuid "HOL-Library.Multiset"
begin

text \<open>
  \<open>guardian_core/quota.py\<close>, its resolution in \<open>guardian_api/deps.py\<close> and the keyset paging of
  \<open>guardian_api/pagination.py\<close>: what one tenant may consume.  A quota is a record of four ceilings;
  an override that cannot be read leaves the ceiling in place and is reported.  The last section
  walks a list endpoint page by page, the way a client follows \<open>X-Next-Cursor\<close>, and shows that
  the walk ends and sees every row exactly once.
\<close>

subsection \<open>Ceilings and overrides\<close>

definition DEFAULT_PAGE_SIZE :: int where "DEFAULT_PAGE_SIZE = 50"

definition HARD_MAX_PAGE_SIZE :: int where "HARD_MAX_PAGE_SIZE = 500"

record quota =
  requests_per_minute :: int
  concurrent_scans :: int
  max_page_size :: int
  max_report_findings :: int

definition QUOTA_DEFAULT :: quota where
  "QUOTA_DEFAULT = \<lparr>requests_per_minute = 600, concurrent_scans = 10, max_page_size = 200,
     max_report_findings = 2000\<rparr>"

datatype quota_problem = QuotaNotAnObject | QuotaNotPositive string jval int | QuotaAboveCeiling int

definition quota_fields :: "string list" where
  "quota_fields = [''requests_per_minute'', ''concurrent_scans'', ''max_page_size'', ''max_report_findings'']"

text \<open>\<open>getattr(self, field)\<close> and \<open>replace(self, **values)\<close>.\<close>

definition quota_get :: "quota \<Rightarrow> string \<Rightarrow> int" where
  "quota_get q f =
     (if f = ''requests_per_minute'' then requests_per_minute q
      else if f = ''concurrent_scans'' then concurrent_scans q
      else if f = ''max_page_size'' then max_page_size q
      else max_report_findings q)"

definition quota_replace :: "quota \<Rightarrow> (string, int) odict \<Rightarrow> quota" where
  "quota_replace q values =
     \<lparr>requests_per_minute = dict_getdef values ''requests_per_minute'' (requests_per_minute q),
      concurrent_scans = dict_getdef values ''concurrent_scans'' (concurrent_scans q),
      max_page_size = dict_getdef values ''max_page_size'' (max_page_size q),
      max_report_findings = dict_getdef values ''max_report_findings'' (max_report_findings q)\<rparr>"

text \<open>\<open>isinstance(value, int)\<close> and not a \<open>bool\<close>, and at least 1.\<close>

fun positive_int :: "jval \<Rightarrow> int option" where
  "positive_int (JInt i) = (if i < 1 then None else Some i)"
| "positive_int _ = None"

fun read_overrides :: "quota \<Rightarrow> jobj \<Rightarrow> string list \<Rightarrow> (string, int) odict \<times> quota_problem list" where
  "read_overrides q raw [] = ([], [])"
| "read_overrides q raw (f # fs) =
     (let (values, problems) = read_overrides q raw fs in
      case dict_get raw f of
        None \<Rightarrow> (values, problems)
      | Some v \<Rightarrow>
        (case positive_int v of
           None \<Rightarrow> (values, QuotaNotPositive f v (quota_get q f) # problems)
         | Some i \<Rightarrow> ((f, i) # values, problems)))"

definition apply_ceiling :: "quota \<Rightarrow> quota_problem list \<Rightarrow> quota \<times> quota_problem list" where
  "apply_ceiling q problems =
     (if max_page_size q > HARD_MAX_PAGE_SIZE
      then (q\<lparr>max_page_size := HARD_MAX_PAGE_SIZE\<rparr>, problems @ [QuotaAboveCeiling (max_page_size q)])
      else (q, problems))"

fun with_overrides :: "quota \<Rightarrow> jval \<Rightarrow> quota \<times> quota_problem list" where
  "with_overrides q JNull = (q, [])"
| "with_overrides q (JObj raw) =
     (let (values, problems) = read_overrides q raw quota_fields
      in apply_ceiling (quota_replace q values) problems)"
| "with_overrides q _ = (q, [QuotaNotAnObject])"

text \<open>\<open>resolve_quota\<close>: the platform's settings, then \<open>tenants.settings["quota"]\<close>.\<close>

record quota_settings =
  tenant_rate_limit_per_minute :: int
  tenant_concurrent_scans :: int
  tenant_max_page_size :: int

definition DEFAULT_SETTINGS :: quota_settings where
  "DEFAULT_SETTINGS = \<lparr>tenant_rate_limit_per_minute = 600, tenant_concurrent_scans = 10,
     tenant_max_page_size = 200\<rparr>"

definition resolve_quota :: "quota_settings \<Rightarrow> jval \<Rightarrow> quota \<times> quota_problem list" where
  "resolve_quota s raw =
     with_overrides (QUOTA_DEFAULT\<lparr>requests_per_minute := tenant_rate_limit_per_minute s,
         concurrent_scans := tenant_concurrent_scans s, max_page_size := tenant_max_page_size s\<rparr>)
       (case raw of JObj d \<Rightarrow> jget d ''quota'' | _ \<Rightarrow> JNull)"

subsection \<open>Decisions\<close>

datatype quota_reason =
  NoReason | AdmissionDisabled | TooManyScans int int | OverRateLimit int

record quota_decision =
  qd_allowed :: bool
  qd_reason :: quota_reason
  qd_retry_after :: int

datatype paging_error = InvalidPageSize int | InvalidCursor

definition page_size :: "int option \<Rightarrow> int \<Rightarrow> int \<Rightarrow> paging_error + int" where
  "page_size requested maximum dflt =
     (case requested of
        None \<Rightarrow> Inr (min dflt maximum)
      | Some r \<Rightarrow> if r < 1 then Inl (InvalidPageSize r) else Inr (min r maximum))"

definition admit_scan :: "int \<Rightarrow> int \<Rightarrow> quota_decision" where
  "admit_scan active limit =
     (if limit \<le> 0 then \<lparr>qd_allowed = False, qd_reason = AdmissionDisabled, qd_retry_after = 0\<rparr>
      else if active \<ge> limit
      then \<lparr>qd_allowed = False, qd_reason = TooManyScans active limit, qd_retry_after = 60\<rparr>
      else \<lparr>qd_allowed = True, qd_reason = NoReason, qd_retry_after = 0\<rparr>)"

text \<open>\<open>x % 1\<close> of a float is false exactly on whole numbers.\<close>

definition rate_refusal :: "rat \<Rightarrow> int \<Rightarrow> quota_decision" where
  "rate_refusal retry_after limit =
     \<lparr>qd_allowed = False, qd_reason = OverRateLimit limit,
      qd_retry_after = max 1 (trunc_rat retry_after + (if retry_after \<in> \<int> then 0 else 1))\<rparr>"

datatype truncation = Truncated int int int string

definition truncation_note :: "int \<Rightarrow> int \<Rightarrow> string \<Rightarrow> truncation option" where
  "truncation_note shown total_rows subject =
     (if shown \<ge> total_rows then None else Some (Truncated shown total_rows (total_rows - shown) subject))"

lemma positive_int_pos: "positive_int v = Some i \<Longrightarrow> 1 \<le> i \<and> v = JInt i"
  by (cases v) (auto split: if_splits)

lemma read_overrides_sound:
  assumes "dict_get (fst (read_overrides q raw fs)) f = Some i"
  shows "dict_get raw f = Some (JInt i) \<and> 1 \<le> i \<and> f \<in> set fs"
  using assms
  by (induction fs) (auto simp: Let_def split_beta split: option.splits if_splits dest: positive_int_pos)

text \<open>A value that is not a positive integer is reported with the ceiling that stays in force.\<close>

lemma read_overrides_reports:
  assumes "f \<in> set fs" "dict_get raw f = Some v" "positive_int v = None"
  shows "QuotaNotPositive f v (quota_get q f) \<in> set (snd (read_overrides q raw fs))"
  using assms by (induction fs) (auto simp: Let_def split_beta split: option.splits)

text \<open>\<open>quota_ok\<close>: every ceiling is one, and a page is bounded by the platform's own.\<close>

definition quota_ok :: "quota \<Rightarrow> bool" where
  "quota_ok q \<longleftrightarrow> 1 \<le> requests_per_minute q \<and> 1 \<le> concurrent_scans q \<and> 1 \<le> max_page_size q \<and>
     max_page_size q \<le> HARD_MAX_PAGE_SIZE \<and> 1 \<le> max_report_findings q"

definition quota_origin :: "quota \<Rightarrow> jval \<Rightarrow> quota \<Rightarrow> string \<Rightarrow> bool" where
  "quota_origin base raw q f \<longleftrightarrow>
     quota_get q f = quota_get base f \<or>
     (case raw of JObj d \<Rightarrow> dict_get d f = Some (JInt (quota_get q f)) | _ \<Rightarrow> False) \<or>
     (f = ''max_page_size'' \<and> quota_get q f = HARD_MAX_PAGE_SIZE)"

lemma replaced_field:
  assumes "x = dict_getdef (fst (read_overrides base d fs)) f (quota_get base f)"
    "1 \<le> quota_get base f"
  shows "1 \<le> x \<and> (x = quota_get base f \<or> dict_get d f = Some (JInt x))"
proof (cases "dict_get (fst (read_overrides base d fs)) f")
  case None
  then show ?thesis using assms by (simp add: dict_getdef_def)
next
  case (Some i)
  then show ?thesis using assms read_overrides_sound [OF Some] by (simp add: dict_getdef_def)
qed

lemma quota_replace_ok:
  assumes "quota_ok base" "q = quota_replace base (fst (read_overrides base d quota_fields))"
  shows "1 \<le> requests_per_minute q \<and> 1 \<le> concurrent_scans q \<and> 1 \<le> max_page_size q \<and>
      1 \<le> max_report_findings q \<and> list_all (quota_origin base (JObj d) q) quota_fields"
proof -
  note r = replaced_field [where base = base and d = d and fs = quota_fields]
  have 1: "1 \<le> requests_per_minute q \<and> (requests_per_minute q = quota_get base ''requests_per_minute'' \<or>
      dict_get d ''requests_per_minute'' = Some (JInt (requests_per_minute q)))"
    by (rule r) (use assms in \<open>simp_all add: quota_replace_def quota_get_def quota_ok_def\<close>)
  have 2: "1 \<le> concurrent_scans q \<and> (concurrent_scans q = quota_get base ''concurrent_scans'' \<or>
      dict_get d ''concurrent_scans'' = Some (JInt (concurrent_scans q)))"
    by (rule r) (use assms in \<open>simp_all add: quota_replace_def quota_get_def quota_ok_def\<close>)
  have 3: "1 \<le> max_page_size q \<and> (max_page_size q = quota_get base ''max_page_size'' \<or>
      dict_get d ''max_page_size'' = Some (JInt (max_page_size q)))"
    by (rule r) (use assms in \<open>simp_all add: quota_replace_def quota_get_def quota_ok_def\<close>)
  have 4: "1 \<le> max_report_findings q \<and> (max_report_findings q = quota_get base ''max_report_findings'' \<or>
      dict_get d ''max_report_findings'' = Some (JInt (max_report_findings q)))"
    by (rule r) (use assms in \<open>simp_all add: quota_replace_def quota_get_def quota_ok_def\<close>)
  show ?thesis using 1 2 3 4 by (auto simp: quota_fields_def quota_origin_def quota_get_def)
qed

text \<open>A tenant's override never removes a limit.  Whatever JSON the tenant's settings hold (no
  object, a string, a negative number, zero, a boolean, an enormous page), if the platform's own
  ceilings are at least 1 then so are the resolved ones, a page never exceeds the platform's 500, every
  ceiling is the platform's, the positive integer the tenant wrote under that very name, or 500, and an
  entry that is not a positive integer is reported with the ceiling that stays in force.\<close>

theorem overrides_never_remove_a_limit:
  assumes "quota_ok base" and "with_overrides base raw = (q, problems)"
  shows "quota_ok q \<and> list_all (quota_origin base raw q) quota_fields \<and>
    (\<forall>d f v. raw = JObj d \<longrightarrow> f \<in> set quota_fields \<longrightarrow> dict_get d f = Some v \<longrightarrow> positive_int v = None \<longrightarrow>
       QuotaNotPositive f v (quota_get base f) \<in> set problems)"
proof (cases raw)
  case (JObj d)
  define q0 where "q0 = quota_replace base (fst (read_overrides base d quota_fields))"
  have q: "(q, problems) = apply_ceiling q0 (snd (read_overrides base d quota_fields))"
    using assms(2) JObj by (simp add: q0_def split_beta Let_def)
  have ok: "1 \<le> requests_per_minute q0 \<and> 1 \<le> concurrent_scans q0 \<and> 1 \<le> max_page_size q0 \<and>
      1 \<le> max_report_findings q0 \<and> list_all (quota_origin base (JObj d) q0) quota_fields"
    by (rule quota_replace_ok [OF assms(1)]) (simp add: q0_def)
  have "quota_ok q \<and> list_all (quota_origin base raw q) quota_fields"
    using q ok JObj
    by (auto simp: apply_ceiling_def quota_ok_def HARD_MAX_PAGE_SIZE_def quota_fields_def
        quota_origin_def quota_get_def split: if_splits)
  moreover have "set (snd (read_overrides base d quota_fields)) \<subseteq> set problems"
    using q by (auto simp: apply_ceiling_def split: if_splits)
  ultimately show ?thesis using JObj read_overrides_reports [of _ quota_fields] by blast
qed (use assms in \<open>auto simp: quota_fields_def quota_origin_def\<close>)

lemma overrides_never_remove_a_limit_witness:
  "quota_ok (fst (with_overrides QUOTA_DEFAULT (JObj [(''concurrent_scans'', JInt (- 1)), (''max_page_size'', JInt 9000)])))"
  using overrides_never_remove_a_limit [of QUOTA_DEFAULT "JObj [(''concurrent_scans'', JInt (- 1)), (''max_page_size'', JInt 9000)]"]
  by (simp add: quota_ok_def QUOTA_DEFAULT_def HARD_MAX_PAGE_SIZE_def split_beta prod_eq_iff)

lemma rate_refusal_bounds:
  "\<not> qd_allowed (rate_refusal w l) \<and> 1 \<le> qd_retry_after (rate_refusal w l) \<and>
   w \<le> of_int (qd_retry_after (rate_refusal w l)) \<and>
   of_int (qd_retry_after (rate_refusal w l)) < max 1 w + 1"
proof -
  define n where "n = trunc_rat w + (if w \<in> \<int> then 0 else 1)"
  have r: "qd_retry_after (rate_refusal w l) = max 1 n" "\<not> qd_allowed (rate_refusal w l)"
    by (simp_all add: rate_refusal_def n_def)
  have "w \<le> of_int n \<and> of_int n < max 1 w + 1"
  proof (cases "0 \<le> w")
    case True
    show ?thesis
    proof (cases "w \<in> \<int>")
      case True
      then obtain k where "w = of_int k" by (auto elim: Ints_cases)
      then show ?thesis by (auto simp: n_def trunc_rat_def)
    next
      case False
      have "of_int \<lfloor>w\<rfloor> \<noteq> w" using False by (metis Ints_of_int)
      then have "of_int \<lfloor>w\<rfloor> < w" using of_int_floor_le [of w] by linarith
      then show ?thesis using False \<open>0 \<le> w\<close> by (simp add: n_def trunc_rat_def max_def) linarith
    qed
  next
    case False
    then have c: "of_int \<lceil>w\<rceil> < (1 :: rat)" "w \<le> of_int \<lceil>w\<rceil>" by linarith+
    then have "w \<le> of_int \<lceil>w\<rceil> + 1" by linarith
    with False c show ?thesis by (auto simp: n_def trunc_rat_def max_def)
  qed
  then show ?thesis unfolding r by (auto simp: r(2)) 
qed

text \<open>A refusal always says when to retry, and never too early: the whole number of seconds in the
  answer to a rate-limited caller is at least 1, at least the limiter's own waiting time, and less
  than one second above it when that is positive.\<close>

theorem rate_refusal_waits_long_enough:
  "\<not> qd_allowed (rate_refusal w l) \<and> 1 \<le> qd_retry_after (rate_refusal w l) \<and>
   w \<le> of_int (qd_retry_after (rate_refusal w l)) \<and>
   of_int (qd_retry_after (rate_refusal w l)) < max 1 w + 1"
  by (rule rate_refusal_bounds)

subsection \<open>Keyset paging\<close>

text \<open>
  A row of a listed table is read through its key \<open>(created_at, id)\<close>, compared the way the
  database compares the tuple.  A cursor is the key of the last row sent; \<open>cursor\<close> below is what
  \<open>decode_cursor\<close> made of the request's text.
\<close>

type_synonym time_cursor = "int \<times> uuid"

definition apply_cursor :: "('r \<Rightarrow> time_cursor) \<Rightarrow> time_cursor option \<Rightarrow> 'r list \<Rightarrow> 'r list" where
  "apply_cursor key cursor rows =
     (case cursor of None \<Rightarrow> rows | Some c \<Rightarrow> filter (\<lambda>r. key r < c) rows)"

definition order_newest_first :: "('r \<Rightarrow> time_cursor) \<Rightarrow> 'r list \<Rightarrow> 'r list" where
  "order_newest_first key rows = rev (sort_key key rows)"

record 'r page =
  pg_rows :: "'r list"
  pg_has_more :: bool
  pg_limit :: int
  pg_next :: "time_cursor option"

definition paginate :: "('r \<Rightarrow> time_cursor) \<Rightarrow> 'r list \<Rightarrow> int \<Rightarrow> 'r page" where
  "paginate key rows limit =
     (let has_more = int (length rows) > limit; page = take (nat limit) rows
      in \<lparr>pg_rows = page, pg_has_more = has_more, pg_limit = limit,
          pg_next = (if has_more \<and> page \<noteq> [] then Some (key (last page)) else None)\<rparr>)"

definition page_request :: "int option \<Rightarrow> (paging_error + time_cursor) option \<Rightarrow> int \<Rightarrow>
    paging_error + (int \<times> time_cursor option)" where
  "page_request limit cursor maximum =
     (case page_size limit maximum maximum of Inl e \<Rightarrow> Inl e
      | Inr sz \<Rightarrow> (case cursor of None \<Rightarrow> Inr (sz, None)
          | Some (Inl e) \<Rightarrow> Inl e
          | Some (Inr c) \<Rightarrow> Inr (sz, Some c)))"

text \<open>A list endpoint (\<open>list_discovery_runs\<close> and its siblings) on the rows it may show.\<close>

definition list_page :: "('r \<Rightarrow> time_cursor) \<Rightarrow> 'r list \<Rightarrow> int \<Rightarrow> time_cursor option \<Rightarrow> 'r page" where
  "list_page key rows sz after =
     paginate key (take (nat (sz + 1)) (order_newest_first key (apply_cursor key after rows))) sz"

lemma order_apply_cursor:
  "order_newest_first key (apply_cursor key after rows) =
     apply_cursor key after (order_newest_first key rows)"
  by (cases after) (simp_all add: order_newest_first_def apply_cursor_def filter_sort [symmetric] rev_filter)

lemma list_page_next:
  assumes "pg_next (list_page key rows sz after) = Some c"
  shows "\<exists>r \<in> set (apply_cursor key after rows). key r = c"
proof -
  define M where "M = order_newest_first key (apply_cursor key after rows)"
  have "take (nat sz) (take (nat (sz + 1)) M) \<noteq> [] \<and>
      c = key (last (take (nat sz) (take (nat (sz + 1)) M)))"
    using assms by (auto simp: list_page_def paginate_def Let_def M_def split: if_splits)
  then have "\<exists>r \<in> set M. key r = c"
    by (metis in_set_takeD last_in_set)
  then show ?thesis by (simp add: M_def order_newest_first_def)
qed

lemma filter_below_smaller:
  assumes "r \<in> set (apply_cursor key after rows)"
  shows "length (filter (\<lambda>x. key x < key r) rows) < length (apply_cursor key after rows)"
proof -
  have r: "r \<in> set rows" "after = Some c \<Longrightarrow> key r < c" for c
    using assms by (auto simp: apply_cursor_def split: option.splits)
  have "filter (\<lambda>x. key x < key r) rows = filter (\<lambda>x. key x < key r) (apply_cursor key after rows)"
    by (auto simp: apply_cursor_def intro!: filter_cong split: option.split dest: r(2) less_trans)
  moreover have "length (filter (\<lambda>x. key x < key r) (apply_cursor key after rows))
      < length (apply_cursor key after rows)"
    by (rule length_filter_less [OF assms]) simp
  ultimately show ?thesis by simp
qed

text \<open>A client that follows \<open>X-Next-Cursor\<close> until there is none: the rows it has received.\<close>

function follow_pages :: "('r \<Rightarrow> time_cursor) \<Rightarrow> 'r list \<Rightarrow> int \<Rightarrow> time_cursor option \<Rightarrow> 'r list" where
  "follow_pages key rows sz after =
     (let p = list_page key rows sz after
      in pg_rows p @ (case pg_next p of None \<Rightarrow> [] | Some c \<Rightarrow> follow_pages key rows sz (Some c)))"
  by pat_completeness auto

termination
proof (relation "measure (\<lambda>(key, rows, sz, after). length (apply_cursor key after rows))")
  fix key :: "'r \<Rightarrow> time_cursor" and rows sz after p c
  assume "p = list_page key rows sz after" "pg_next p = Some c"
  then obtain r where "r \<in> set (apply_cursor key after rows)" "key r = c"
    using list_page_next by blast
  then show "((key, rows, sz, Some c), key, rows, sz, after)
      \<in> measure (\<lambda>(key, rows, sz, after). length (apply_cursor key after rows))"
    using filter_below_smaller by (fastforce simp: apply_cursor_def)
qed simp

declare follow_pages.simps [simp del]

lemma strictly_newest_first:
  assumes "distinct (map key rows)"
  shows "sorted_wrt (\<lambda>a b. key b < key a) (order_newest_first key rows)"
proof -
  have "sorted_wrt (<) (map key (sort_key key rows))"
    using assms by (simp add: strict_sorted_iff distinct_map)
  then show ?thesis by (simp add: order_newest_first_def sorted_wrt_rev sorted_wrt_map)
qed

lemma filter_after_last:
  fixes key :: "'r \<Rightarrow> time_cursor"
  assumes "sorted_wrt (\<lambda>a b. key b < key a) M" "0 < n" "n \<le> length M"
  shows "filter (\<lambda>r. key r < key (last (take n M))) M = drop n M"
proof -
  define l where "l = last (take n M)"
  have ne: "take n M \<noteq> []" using assms by auto
  have s: "sorted_wrt (\<lambda>a b. key b < key a) (take n M @ drop n M)" using assms by simp
  have le: "\<not> key r < key l" if "r \<in> set (take n M)" for r
  proof -
    have "sorted_wrt (\<lambda>a b. key b < key a) (butlast (take n M) @ [l])"
      using ne s by (simp add: l_def sorted_wrt_append)
    moreover have "r \<in> set (butlast (take n M)) \<or> r = l"
      using that ne unfolding l_def by (metis append_butlast_last_id in_set_conv_decomp rotate1.simps(2) set_ConsD set_rotate1)
    ultimately show ?thesis by (auto simp: sorted_wrt_append)
  qed
  have "l \<in> set (take n M)" using ne by (simp add: l_def)
  then have gt: "key r < key l" if "r \<in> set (drop n M)" for r
    using s that unfolding sorted_wrt_append by blast
  have "filter (\<lambda>r. key r < key l) (take n M) = []" "filter (\<lambda>r. key r < key l) (drop n M) = drop n M"
    using le gt by (auto simp: filter_empty_conv filter_id_conv)
  then have "filter (\<lambda>r. key r < key l) (take n M @ drop n M) = drop n M"
    unfolding filter_append by simp
  then show ?thesis by (simp add: l_def)
qed

lemma follow_pages_from:
  assumes "distinct (map key rows)" "1 \<le> sz"
  shows "follow_pages key rows sz after = apply_cursor key after (order_newest_first key rows)"
  using assms
proof (induction key rows sz after rule: follow_pages.induct)
  case (1 key rows sz after)
  define M where "M = apply_cursor key after (order_newest_first key rows)"
  have sorted: "sorted_wrt (\<lambda>a b. key b < key a) M"
    using strictly_newest_first [OF "1.prems"(1)]
    by (auto simp: M_def apply_cursor_def sorted_wrt_filter split: option.split)
  have page: "list_page key rows sz after = paginate key (take (nat (sz + 1)) M) sz"
    by (simp add: list_page_def order_apply_cursor M_def)
  have tk: "take (nat sz) (take (nat (sz + 1)) M) = take (nat sz) M" by (simp add: min_def)
  have rows_p: "pg_rows (list_page key rows sz after) = take (nat sz) M"
    by (simp add: page paginate_def Let_def tk)
  show ?case
  proof (cases "int (length M) \<le> sz")
    case True
    then have "pg_next (list_page key rows sz after) = None" "take (nat sz) M = M"
      by (auto simp: page paginate_def Let_def)
    with rows_p show ?thesis by (subst follow_pages.simps) (simp add: M_def Let_def)
  next
    case False
    define l where "l = last (take (nat sz) M)"
    have n: "0 < nat sz" "nat sz \<le> length M" using False "1.prems"(2) by auto
    then have next_l: "pg_next (list_page key rows sz after) = Some (key l)"
      using False "1.prems"(2) by (auto simp: page paginate_def Let_def tk l_def)
    have "take (nat sz) M \<noteq> []" using n by auto
    then have lM: "l \<in> set M" unfolding l_def by (metis in_set_takeD last_in_set)
    have rest: "follow_pages key rows sz (Some (key l)) = apply_cursor key (Some (key l)) (order_newest_first key rows)"
      using "1.IH" [OF refl next_l] "1.prems" by simp
    have "apply_cursor key (Some (key l)) (order_newest_first key rows) = filter (\<lambda>r. key r < key l) M"
      using lM less_trans by (cases after) (fastforce simp: M_def apply_cursor_def intro!: filter_cong)+
    also have "\<dots> = drop (nat sz) M"
      unfolding l_def by (rule filter_after_last [OF sorted n])
    finally show ?thesis
      using rows_p next_l rest by (subst follow_pages.simps) (simp add: M_def [symmetric] Let_def)
  qed
qed

text \<open>C12: Following the cursors of a list endpoint always ends (for any page size, zero and negative
  ones included), and with a page size of at least 1 the pages together are all the rows the caller may
  see, newest first, each exactly once: nothing is skipped where a page boundary falls between two rows
  created in the same instant, because the cursor carries the identifier.\<close>

theorem paging_sees_every_row_once:
  assumes "distinct (map key rows)" and "1 \<le> sz"
  shows "follow_pages key rows sz None = order_newest_first key rows \<and>
    mset (follow_pages key rows sz None) = mset rows"
  using follow_pages_from [OF assms, of None] by (simp add: apply_cursor_def order_newest_first_def)

lemma paging_sees_every_row_once_witness:
  "follow_pages id [(7, 1), (9, 4), (7, 3), (7, 2)] 2 None = [(9, 4), (7, 3), (7, 2), (7, 1)]"
proof -
  have "follow_pages id [(7, 1), (9, 4), (7, 3), (7, 2)] 2 None =
      order_newest_first id [(7 :: int, 1 :: int), (9, 4), (7, 3), (7, 2)]"
    using paging_sees_every_row_once [of id "[(7, 1), (9, 4), (7, 3), (7, 2)]" 2] by simp
  also have "\<dots> = [(9, 4), (7, 3), (7, 2), (7, 1)]"
    by (simp add: order_newest_first_def)
  finally show ?thesis .
qed

text \<open>A limit of 0 is no common off switch: it disables the request limiter, refuses every scan and
  makes every page empty.\<close>

lemma zero_limit_refuses_scans: "\<not> qd_allowed (admit_scan 0 0)"
  by (simp add: admit_scan_def)

lemma ceiling_not_applied_without_override:
  "max_page_size (fst (resolve_quota (DEFAULT_SETTINGS\<lparr>tenant_max_page_size := 9000\<rparr>) JNull)) = 9000"
  by (simp add: resolve_quota_def)

end
