(* ===== verification/RateLimit.thy ===== *)
theory RateLimit
  imports Quota
begin

text \<open>
  \<open>guardian_api/ratelimit.py\<close>: the in-process sliding-window limiter, the tenant limiter built on it
  and the alert-only breaker.  The limiter keeps, per key, the times of the attempts it let through.
  An operation reads the clock, then takes the lock and does the rest under it, so a run is a sequence of
  operations in the order of the lock, each with the time it had read before.  Calls that do not overlap have their times in
  order; calls that overlap can get the lock in another order than they read the clock in, and then a time is
  earlier than one before it by at most the time a call waits for the lock.  The specification the limiter is compared with, for times in order,
  is a log that forgets nothing; \<open>overlapping_calls_stay_within_skew\<close> says what is left of this when they are not.
\<close>

subsection \<open>State and operations\<close>

definition MAX_KEYS :: nat where "MAX_KEYS = 50000"

record limiter =
  lm_max :: int
  lm_window :: rat
  lm_hits :: "(string, rat list) odict"

definition new_limiter :: "int \<Rightarrow> rat \<Rightarrow> limiter" where
  "new_limiter max_hits window = \<lparr>lm_max = max_hits, lm_window = window, lm_hits = []\<rparr>"

text \<open>\<open>now - t\<close> on floats, and the test \<open>now - t < self._window\<close>.\<close>

definition age :: "rat \<Rightarrow> rat \<Rightarrow> rat" where
  "age now t = fl (now - t)"

definition live :: "rat \<Rightarrow> rat \<Rightarrow> rat \<Rightarrow> bool" where
  "live window now t \<longleftrightarrow> age now t < window"

definition stale :: "rat \<Rightarrow> rat \<Rightarrow> rat list \<Rightarrow> bool" where
  "stale window now ts \<longleftrightarrow> ts = [] \<or> age now (last ts) \<ge> window"

definition evict_expired :: "rat \<Rightarrow> limiter \<Rightarrow> limiter" where
  "evict_expired now lm = lm\<lparr>lm_hits := filter (\<lambda>(k, ts). \<not> stale (lm_window lm) now ts) (lm_hits lm)\<rparr>"

definition saturated :: "limiter \<Rightarrow> string \<Rightarrow> bool" where
  "saturated lm key \<longleftrightarrow> MAX_KEYS \<le> length (lm_hits lm) \<and> dict_get (lm_hits lm) key = None"

definition make_room :: "rat \<Rightarrow> string \<Rightarrow> limiter \<Rightarrow> limiter" where
  "make_room now key lm = (if saturated lm key then evict_expired now lm else lm)"

definition known_hits :: "limiter \<Rightarrow> string \<Rightarrow> rat list" where
  "known_hits lm key = dict_getdef (lm_hits lm) key []"

definition recent_hits :: "rat \<Rightarrow> string \<Rightarrow> limiter \<Rightarrow> rat list" where
  "recent_hits now key lm = filter (live (lm_window lm) now) (known_hits lm key)"

definition ceiling_of :: "int \<Rightarrow> int option \<Rightarrow> int" where
  "ceiling_of own max_hits = (case max_hits of None \<Rightarrow> own | Some m \<Rightarrow> m)"

definition wait_time :: "rat \<Rightarrow> rat \<Rightarrow> rat list \<Rightarrow> rat" where
  "wait_time window now recent = max 0 (fl (window - age now (hd recent)))"

type_synonym answer = "bool \<times> rat"

definition limiter_hit :: "limiter \<Rightarrow> rat \<Rightarrow> string \<Rightarrow> int option \<Rightarrow> bool \<Rightarrow> answer \<times> limiter" where
  "limiter_hit lm now key max_hits fail_closed =
     (let cap = ceiling_of (lm_max lm) max_hits in
      if cap \<le> 0 then ((True, 0), lm)
      else let lm1 = make_room now key lm in
        if saturated lm1 key then (if fail_closed then (False, lm_window lm1) else (True, 0), lm1)
        else let recent = recent_hits now key lm1 in
          if int (length recent) \<ge> cap
          then ((False, wait_time (lm_window lm1) now recent),
                lm1\<lparr>lm_hits := dict_set key recent (lm_hits lm1)\<rparr>)
          else ((True, 0), lm1\<lparr>lm_hits := dict_set key (recent @ [now]) (lm_hits lm1)\<rparr>))"

definition limiter_check :: "limiter \<Rightarrow> rat \<Rightarrow> string \<Rightarrow> int option \<Rightarrow> bool \<Rightarrow> answer \<times> limiter" where
  "limiter_check lm now key max_hits fail_closed =
     (let cap = ceiling_of (lm_max lm) max_hits in
      if cap \<le> 0 then ((True, 0), lm)
      else let lm1 = make_room now key lm in
        if saturated lm1 key then (if fail_closed then (False, lm_window lm1) else (True, 0), lm1)
        else let recent = recent_hits now key lm1 in
          (if int (length recent) \<ge> cap then (False, wait_time (lm_window lm1) now recent)
           else (True, 0), lm1))"

definition limiter_reset :: "limiter \<Rightarrow> limiter" where
  "limiter_reset lm = lm\<lparr>lm_hits := []\<rparr>"

subsection \<open>The limiters the service keeps\<close>

definition tenant_limiter :: limiter where
  "tenant_limiter = new_limiter 0 60"

definition hit_limited :: "limiter \<Rightarrow> rat \<Rightarrow> string \<Rightarrow> int \<Rightarrow> answer \<times> limiter" where
  "hit_limited lm now key limit =
     (if limit \<le> 0 then ((True, 0), lm) else limiter_hit lm now key (Some limit) False)"

text \<open>\<open>_enforce_rate_limit\<close> of \<open>deps.py\<close>: the key of the principal, the tenant's ceiling, the refusal
  (\<open>None\<close> when the request may go on).\<close>

record principal =
  pr_tenant_id :: uuid
  pr_api_key :: "uuid option"

definition rate_limit_key :: "principal \<Rightarrow> string" where
  "rate_limit_key p = (case pr_api_key p of
     Some k \<Rightarrow> ''key:'' @ str_uuid k | None \<Rightarrow> ''tenant:'' @ str_uuid (pr_tenant_id p))"

definition enforce_rate_limit ::
    "limiter \<Rightarrow> quota_settings \<Rightarrow> jval \<Rightarrow> rat \<Rightarrow> principal \<Rightarrow> quota_decision option \<times> limiter" where
  "enforce_rate_limit lm settings tenant_settings now p =
     (let limits = fst (resolve_quota settings tenant_settings);
          ((ok, wait), lm1) = hit_limited lm now (rate_limit_key p) (requests_per_minute limits)
      in (if ok then None else Some (rate_refusal wait (requests_per_minute limits)), lm1))"

record deployment =
  trusted_proxy_count :: int
  is_local_or_dev :: bool

definition per_client_limiting_enabled :: "deployment \<Rightarrow> bool" where
  "per_client_limiting_enabled d \<longleftrightarrow> trusted_proxy_count d > 0 \<or> is_local_or_dev d"

datatype deployment_warning = PerClientLoginLimitingDisabled

definition deployment_warnings :: "deployment \<Rightarrow> deployment_warning list" where
  "deployment_warnings d = (if \<not> per_client_limiting_enabled d then [PerClientLoginLimitingDisabled] else [])"

text \<open>
  The alert-only breaker: one counter per failed login, one per tripped breaker, and the log lines
  written.  \<open>now2\<close> is the second clock reading, taken under the alert lock.
\<close>

record breaker =
  br_limiter :: limiter
  br_last_alert :: rat
  br_failed :: int
  br_tripped :: int
  br_alerts :: "rat list"

definition new_breaker :: breaker where
  "new_breaker = \<lparr>br_limiter = new_limiter 0 60, br_last_alert = 0, br_failed = 0, br_tripped = 0, br_alerts = []\<rparr>"

definition record_failed_login :: "int \<Rightarrow> rat \<Rightarrow> rat \<Rightarrow> breaker \<Rightarrow> breaker" where
  "record_failed_login cap now now2 b =
     (let b1 = b\<lparr>br_failed := br_failed b + 1\<rparr> in
      if cap \<le> 0 then b1
      else let ((ok, _), lm) = limiter_hit (br_limiter b1) now ''global:login:failed'' (Some cap) False;
               b2 = b1\<lparr>br_limiter := lm\<rparr>
        in if ok then b2
           else let b3 = b2\<lparr>br_tripped := br_tripped b2 + 1\<rparr> in
             if fl (now2 - br_last_alert b3) \<ge> 60
             then b3\<lparr>br_last_alert := now2, br_alerts := br_alerts b3 @ [now2]\<rparr> else b3)"

subsection \<open>Ageing\<close>

lemma sorted_le_last:
  fixes t :: "'a :: linorder"
  shows "sorted ts \<Longrightarrow> t \<in> set ts \<Longrightarrow> t \<le> last ts"
  by (induction ts) auto

text \<open>What the limiter relies on about its clock: an attempt that has left the window stays out of it,
  and an older attempt is never younger.\<close>

locale ageing =
  fixes old :: "rat \<Rightarrow> rat \<Rightarrow> rat" and window :: rat
  assumes old_mono: "now \<le> now' \<Longrightarrow> old now t \<le> old now' t"
    and old_anti: "t \<le> t' \<Longrightarrow> old now t' \<le> old now t"
begin

definition alive :: "rat \<Rightarrow> rat \<Rightarrow> bool" where
  "alive now t \<longleftrightarrow> old now t < window"

lemma dead_stays_dead: "now \<le> now' \<Longrightarrow> alive now' t \<Longrightarrow> alive now t"
  using old_mono [of now now' t] by (simp add: alive_def)

lemma filter_alive_later:
  "now \<le> now' \<Longrightarrow> filter (alive now') (filter (alive now) ts) = filter (alive now') ts"
  by (auto simp: dead_stays_dead intro!: filter_cong)

lemma alive_agree_later:
  assumes "filter (alive now) xs = filter (alive now) ys" "now \<le> now'"
  shows "filter (alive now') xs = filter (alive now') ys"
  by (metis assms filter_alive_later)

lemma last_dead_all_dead:
  assumes "sorted ts" "ts \<noteq> []" "window \<le> old now (last ts)"
  shows "filter (alive now) ts = []"
proof -
  have "t \<le> last ts" if "t \<in> set ts" for t
    using sorted_le_last [OF assms(1) that] .
  then have "\<not> alive now t" if "t \<in> set ts" for t
    using assms(3) old_anti [of t "last ts" now] that by (fastforce simp: alive_def)
  then show ?thesis by (simp add: filter_empty_conv)
qed

end

lemma age_mono: "now \<le> now' \<Longrightarrow> age now t \<le> age now' t"
  by (simp add: age_def fl_mono)

lemma age_anti: "t \<le> t' \<Longrightarrow> age now t' \<le> age now t"
  by (simp add: age_def fl_mono)

interpretation clock: ageing age window for window
  by unfold_locales (auto simp: age_mono age_anti)

lemma clock_alive [simp]: "clock.alive = live"
  by (intro ext) (simp add: clock.alive_def live_def)

subsection \<open>One key at a time\<close>

text \<open>
  \<open>tracks w key now ts lm\<close>: of key \<open>key\<close> the table still knows every attempt of the full log
  \<open>ts\<close> that is inside the window at \<open>now\<close>, in order and none from the future.
\<close>

definition tracks :: "rat \<Rightarrow> string \<Rightarrow> rat \<Rightarrow> rat list \<Rightarrow> limiter \<Rightarrow> bool" where
  "tracks w key now ts lm \<longleftrightarrow>
     lm_window lm = w \<and> distinct (map fst (lm_hits lm)) \<and>
     sorted (known_hits lm key) \<and> set (known_hits lm key) \<subseteq> {..now} \<and>
     filter (live w now) (known_hits lm key) = filter (live w now) ts"

lemma known_hits_set [simp]:
  "known_hits (lm\<lparr>lm_hits := dict_set key' xs (lm_hits lm)\<rparr>) key = (if key' = key then xs else known_hits lm key)"
  by (simp add: known_hits_def dict_getdef_def)

lemma live_later:
  "now \<le> now' \<Longrightarrow> filter (live w now) xs = filter (live w now) ys \<Longrightarrow>
     filter (live w now') xs = filter (live w now') ys"
  by (rule clock.alive_agree_later [where window = w, unfolded clock_alive])

lemma stale_dead: "sorted ts \<Longrightarrow> stale w now ts \<Longrightarrow> filter (live w now) ts = []"
  using clock.last_dead_all_dead [where window = w and ts = ts and now = now]
  by (cases "ts = []") (auto simp: stale_def)

lemma tracks_later: "tracks w key now ts lm \<Longrightarrow> now \<le> now' \<Longrightarrow> tracks w key now' ts lm"
  unfolding tracks_def by (meson atMost_iff live_later order_trans subsetI subset_iff)

lemma tracks_recent: "tracks w key now ts lm \<Longrightarrow> recent_hits now key lm = filter (live w now) ts"
  by (simp add: tracks_def recent_hits_def)

lemma get_filter_entries:
  "distinct (map fst d) \<Longrightarrow> dict_get (filter (\<lambda>(k, v). P v) d) key =
     (case dict_get d key of Some v \<Rightarrow> if P v then Some v else None | None \<Rightarrow> None)"
  by (induction d) (auto simp: map_of_eq_None_iff split: option.split)

lemma distinct_filter_keys: "distinct (map fst d) \<Longrightarrow> distinct (map fst (filter P d))"
  by (induction d) auto

lemma known_hits_evict:
  assumes "distinct (map fst (lm_hits lm))"
  shows "known_hits (evict_expired now lm) key =
    (if stale (lm_window lm) now (known_hits lm key) then [] else known_hits lm key)"
  by (simp add: known_hits_def evict_expired_def get_filter_entries [OF assms] dict_getdef_def stale_def
      split: option.split)

lemma evict_tracks:
  assumes "tracks w key now ts lm"
  shows "tracks w key now ts (evict_expired now lm)"
proof -
  have "stale w now (known_hits lm key) \<Longrightarrow> filter (live w now) ts = []"
    using assms stale_dead [of "known_hits lm key" w now] by (simp add: tracks_def)
  moreover have "lm_window (evict_expired now lm) = lm_window lm"
    "distinct (map fst (lm_hits (evict_expired now lm)))"
    using assms by (simp_all add: evict_expired_def tracks_def distinct_filter_keys)
  ultimately show ?thesis using assms by (auto simp: tracks_def known_hits_evict)
qed

lemma make_room_tracks: "tracks w key now ts lm \<Longrightarrow> tracks w key now ts (make_room now key' lm)"
  by (simp add: make_room_def evict_tracks)

lemma recent_sorted:
  "tracks w key now ts lm \<Longrightarrow> sorted (recent_hits now key lm) \<and> set (recent_hits now key lm) \<subseteq> {..now}"
  using sorted_wrt_filter [of "(\<le>)" "known_hits lm key" "live (lm_window lm) now"]
  unfolding tracks_def recent_hits_def by (meson filter_is_subset order_trans)

lemma recent_alive: "filter (live (lm_window lm) now) (recent_hits now key lm) = recent_hits now key lm"
  by (simp add: recent_hits_def)

lemma tracks_set_recent:
  assumes "tracks w key now ts lm"
  shows "tracks w key now ts (lm\<lparr>lm_hits := dict_set key (recent_hits now key lm) (lm_hits lm)\<rparr>)"
  using assms recent_sorted [OF assms] recent_alive [of lm now key] tracks_recent [OF assms]
  by (simp add: tracks_def distinct_dict_set)

lemma tracks_add:
  assumes "tracks w key now ts lm"
  shows "tracks w key now (ts @ [now]) (lm\<lparr>lm_hits := dict_set key (recent_hits now key lm @ [now]) (lm_hits lm)\<rparr>)"
  using assms recent_sorted [OF assms] recent_alive [of lm now key] tracks_recent [OF assms]
  by (auto simp: tracks_def distinct_dict_set sorted_append subset_iff)

lemma tracks_set_other:
  "tracks w key now ts lm \<Longrightarrow> key' \<noteq> key \<Longrightarrow> tracks w key now ts (lm\<lparr>lm_hits := dict_set key' xs (lm_hits lm)\<rparr>)"
  by (simp add: tracks_def distinct_dict_set)

subsection \<open>Runs\<close>

datatype lim_op =
    OpHit (op_time: rat) (op_key: string) (op_max: "int option") (op_closed: bool)
  | OpCheck (op_time: rat) (op_key: string) (op_max: "int option") (op_closed: bool)

fun lim_step :: "limiter \<Rightarrow> lim_op \<Rightarrow> answer \<times> limiter" where
  "lim_step lm (OpHit now key m fc) = limiter_hit lm now key m fc"
| "lim_step lm (OpCheck now key m fc) = limiter_check lm now key m fc"

fun lim_run :: "limiter \<Rightarrow> lim_op list \<Rightarrow> answer list" where
  "lim_run lm [] = []"
| "lim_run lm (x # xs) = (let (a, lm1) = lim_step lm x in a # lim_run lm1 xs)"

text \<open>The specification: every admitted attempt of every key, for ever, and no table to fill.\<close>

type_synonym hit_log = "string \<Rightarrow> rat list"

definition spec_answer :: "rat \<Rightarrow> rat \<Rightarrow> rat list \<Rightarrow> int \<Rightarrow> answer" where
  "spec_answer w now ts cap =
     (let recent = filter (live w now) ts in
      if cap \<le> 0 \<or> int (length recent) < cap then (True, 0) else (False, wait_time w now recent))"

fun spec_step :: "int \<Rightarrow> rat \<Rightarrow> hit_log \<Rightarrow> lim_op \<Rightarrow> answer \<times> hit_log" where
  "spec_step own w lg (OpHit now key m fc) =
     (let a = spec_answer w now (lg key) (ceiling_of own m)
      in (a, if fst a \<and> 0 < ceiling_of own m then lg(key := lg key @ [now]) else lg))"
| "spec_step own w lg (OpCheck now key m fc) = (spec_answer w now (lg key) (ceiling_of own m), lg)"

fun spec_run :: "int \<Rightarrow> rat \<Rightarrow> hit_log \<Rightarrow> lim_op list \<Rightarrow> answer list" where
  "spec_run own w lg [] = []"
| "spec_run own w lg (x # xs) = (let (a, log1) = spec_step own w lg x in a # spec_run own w log1 xs)"

lemma hit_own_key:
  assumes tr: "tracks w key now ts lm" and pos: "0 < ceiling_of (lm_max lm) m"
    and h: "limiter_hit lm now key m fc = (a, lm1)"
  shows "if saturated (make_room now key lm) key
    then a = (if fc then (False, w) else (True, 0)) \<and> tracks w key now ts lm1
    else a = spec_answer w now ts (ceiling_of (lm_max lm) m) \<and>
      tracks w key now (if fst a then ts @ [now] else ts) lm1"
proof -
  define lm0 where "lm0 = make_room now key lm"
  have tr0: "tracks w key now ts lm0" by (simp add: lm0_def make_room_tracks tr)
  have w: "lm_window lm0 = w" using tr0 by (simp add: tracks_def)
  have r: "recent_hits now key lm0 = filter (live w now) ts" by (rule tracks_recent [OF tr0])
  show ?thesis
    using h pos tr0 tracks_set_recent [OF tr0] tracks_add [OF tr0]
    by (auto simp: limiter_hit_def Let_def lm0_def [symmetric] w r spec_answer_def split: if_splits)
qed

lemma check_own_key:
  assumes tr: "tracks w key now ts lm" and pos: "0 < ceiling_of (lm_max lm) m"
    and h: "limiter_check lm now key m fc = (a, lm1)"
  shows "tracks w key now ts lm1 \<and> (if saturated (make_room now key lm) key
    then a = (if fc then (False, w) else (True, 0)) else a = spec_answer w now ts (ceiling_of (lm_max lm) m))"
proof -
  define lm0 where "lm0 = make_room now key lm"
  have tr0: "tracks w key now ts lm0" by (simp add: lm0_def make_room_tracks tr)
  have w: "lm_window lm0 = w" using tr0 by (simp add: tracks_def)
  show ?thesis
    using h pos tr0 tracks_recent [OF tr0]
    by (auto simp: limiter_check_def Let_def lm0_def [symmetric] w spec_answer_def split: if_splits)
qed

lemma step_other_key:
  assumes tr: "tracks w key now ts lm" and x: "op_key x \<noteq> key" "op_time x = now"
  shows "tracks w key now ts (snd (lim_step lm x))"
  using make_room_tracks [OF tr, of "op_key x"] tr x
  by (cases x) (auto simp: limiter_hit_def limiter_check_def Let_def tracks_set_other)

lemma make_room_max [simp]: "lm_max (make_room now key lm) = lm_max lm"
  by (simp add: make_room_def evict_expired_def)

lemma step_max [simp]: "lm_max (snd (lim_step lm x)) = lm_max lm"
  by (cases x) (auto simp: limiter_hit_def limiter_check_def Let_def)

lemma make_room_keys: "fst ` set (lm_hits (make_room now key lm)) \<subseteq> fst ` set (lm_hits lm)"
  by (auto simp: make_room_def evict_expired_def)

lemma step_keys: "fst ` set (lm_hits (snd (lim_step lm x))) \<subseteq> insert (op_key x) (fst ` set (lm_hits lm))"
  using make_room_keys [of "op_time x" "op_key x" lm]
  by (cases x) (auto simp: limiter_hit_def limiter_check_def Let_def dict_keys_set)

lemma step_off:
  assumes "ceiling_of (lm_max lm) (op_max x) \<le> 0"
  shows "lim_step lm x = ((True, 0), lm)"
  using assms by (cases x) (simp_all add: limiter_hit_def limiter_check_def Let_def)

text \<open>The table cannot be saturated while it has room for every key in use.\<close>

lemma room_for_key:
  assumes "distinct (map fst (lm_hits lm))" "fst ` set (lm_hits lm) \<subseteq> K" "key \<in> K" "finite K" "card K \<le> MAX_KEYS"
  shows "\<not> saturated lm key"
proof
  assume "saturated lm key"
  then have n: "MAX_KEYS \<le> card (fst ` set (lm_hits lm))" and "key \<notin> fst ` set (lm_hits lm)"
    using assms(1) distinct_card [of "map fst (lm_hits lm)"]
    by (auto simp: saturated_def dom_map_of_conv_image_fst map_of_eq_None_iff)
  then have "fst ` set (lm_hits lm) \<subset> K" using assms(2,3) by auto
  then have "card (fst ` set (lm_hits lm)) < card K" by (rule psubset_card_mono [OF assms(4)])
  with n assms(5) show False by simp
qed

lemma step_refines:
  fixes lg :: hit_log
  assumes tr: "\<And>k. tracks w k (op_time x) (lg k) lm"
    and room: "\<not> saturated (make_room (op_time x) (op_key x) lm) (op_key x)"
  shows "fst (lim_step lm x) = fst (spec_step (lm_max lm) w lg x) \<and>
    (\<forall>k. tracks w k (op_time x) (snd (spec_step (lm_max lm) w lg x) k) (snd (lim_step lm x)))"
proof (cases "ceiling_of (lm_max lm) (op_max x) \<le> 0")
  case True
  then show ?thesis using tr step_off [OF True] by (cases x) (auto simp: spec_answer_def)
next
  case False
  note own = hit_own_key [OF tr [of "op_key x"]] check_own_key [OF tr [of "op_key x"]]
  obtain a lm1 where s: "lim_step lm x = (a, lm1)" by fastforce
  have o: "tracks w k (op_time x) (lg k) lm1" if "k \<noteq> op_key x" for k
    using step_other_key [OF tr [of k], of x] that s by auto
  show ?thesis
  proof (cases x)
    case (OpHit now key m fc)
    let ?a = "spec_answer w now (lg key) (ceiling_of (lm_max lm) m)"
    have h: "a = ?a" "tracks w key now (if fst a then lg key @ [now] else lg key) lm1"
      using own(1) [of m fc a lm1] s False room OpHit by auto
    have "tracks w k now (snd (spec_step (lm_max lm) w lg x) k) lm1" for k
      using h o [of k] False OpHit by (cases "k = key") (auto split: if_splits)
    with h s OpHit show ?thesis by (simp add: Let_def)
  next
    case (OpCheck now key m fc)
    then have "a = fst (spec_step (lm_max lm) w lg x)" "tracks w key now (lg key) lm1"
      using own(2) [of m fc a lm1] s False room by auto
    moreover have "tracks w k now (lg k) lm1" for k
      using calculation(2) o [of k] OpCheck by (cases "k = key") auto
    ultimately show ?thesis using OpCheck s by simp
  qed
qed

lemma run_refines:
  assumes "\<And>k. tracks w k t (lg k) lm" "sorted (t # map op_time ops)"
    "fst ` set (lm_hits lm) \<subseteq> K" "op_key ` set ops \<subseteq> K" "finite K" "card K \<le> MAX_KEYS"
  shows "lim_run lm ops = spec_run (lm_max lm) w lg ops"
  using assms
proof (induction ops arbitrary: t lm lg)
  case (Cons x xs)
  have tr: "tracks w k (op_time x) (lg k) lm" for k
    using Cons.prems(1,2) by (auto intro: tracks_later)
  have "distinct (map fst (lm_hits (make_room (op_time x) (op_key x) lm)))"
    using make_room_tracks [OF tr] by (simp add: tracks_def)
  then have room: "\<not> saturated (make_room (op_time x) (op_key x) lm) (op_key x)"
  proof (rule room_for_key [where K = K])
    show "fst ` set (lm_hits (make_room (op_time x) (op_key x) lm)) \<subseteq> K"
      using make_room_keys Cons.prems(3) by (rule order_trans)
  qed (use Cons.prems(4-6) in auto)
  note s = step_refines [OF tr room]
  have "lim_run (snd (lim_step lm x)) xs =
      spec_run (lm_max (snd (lim_step lm x))) w (snd (spec_step (lm_max lm) w lg x)) xs"
  proof (rule Cons.IH [where t = "op_time x"])
    show "fst ` set (lm_hits (snd (lim_step lm x))) \<subseteq> K"
      by (rule order_trans [OF step_keys]) (use Cons.prems(3,4) in simp)
    show "tracks w k (op_time x) (snd (spec_step (lm_max lm) w lg x) k) (snd (lim_step lm x))" for k
      using s by blast
  qed (use Cons.prems(2,4-6) in auto)
  with s show ?case by (simp add: split_beta Let_def)
qed simp

lemma tracks_new: "tracks w k t [] \<lparr>lm_max = m, lm_window = w, lm_hits = []\<rparr>"
  by (simp add: tracks_def new_limiter_def known_hits_def dict_getdef_def)

text \<open>C13: As long as the clock readings are in the order in which the calls get the lock (calls that do
  not overlap), the limiter refines a log that forgets nothing.  For any sequence of attempts and peeks
  with times in that order over at most 50,000 keys, with any mixture of ceilings, the answers (allowed
  or not, and the time to wait, float rounding included) are exactly those of the specification that
  keeps every admitted attempt of every key for ever: pruning a key's list and evicting stale keys never change
  an answer, and keys never influence each other.\<close>

theorem limiter_refines_log:
  assumes "sorted (map op_time ops)" and "card (op_key ` set ops) \<le> MAX_KEYS"
  shows "lim_run (new_limiter m w) ops = spec_run m w (\<lambda>_. []) ops"
proof (cases ops)
  case (Cons x xs)
  have "lim_run (new_limiter m w) ops = spec_run (lm_max (new_limiter m w)) w (\<lambda>_. []) ops"
    by (rule run_refines [where t = "op_time x" and K = "op_key ` set ops"])
      (use assms Cons in \<open>auto simp: tracks_new new_limiter_def\<close>)
  then show ?thesis by (simp add: new_limiter_def)
qed simp

lemma limiter_refines_log_witness:
  "lim_run (new_limiter 1 60) [OpHit 5 ''a'' None True, OpHit 20 ''a'' None True, OpCheck 30 ''b'' None True] =
     [(True, 0), (False, 45), (True, 0)]"
proof -
  have e: "fl 60 = 60" "fl 15 = 15" "fl 45 = 45"
    using fl_of_int [of 60] fl_of_int [of 15] fl_of_int [of 45] by simp_all
  have "lim_run (new_limiter 1 60) [OpHit 5 ''a'' None True, OpHit 20 ''a'' None True, OpCheck 30 ''b'' None True] =
      spec_run 1 60 (\<lambda>_. []) [OpHit 5 ''a'' None True, OpHit 20 ''a'' None True, OpCheck 30 ''b'' None True]"
    using limiter_refines_log [of "[OpHit 5 ''a'' None True, OpHit 20 ''a'' None True, OpCheck 30 ''b'' None True]" 1 60]
    by (simp add: MAX_KEYS_def)
  also have "\<dots> = [(True, 0), (False, 45), (True, 0)]"
    by (simp add: spec_answer_def live_def age_def wait_time_def ceiling_of_def e)
  finally show ?thesis .
qed

text \<open>\<open>admitted w k now trace\<close>: the attempts of \<open>k\<close> in the trace that were let through and are
  inside the window at \<open>now\<close>.\<close>

fun counts_as :: "rat \<Rightarrow> string \<Rightarrow> rat \<Rightarrow> lim_op \<times> answer \<Rightarrow> bool" where
  "counts_as w k now (OpHit t key m fc, ok, wait) = (key = k \<and> ok \<and> live w now t)"
| "counts_as w k now (OpCheck t key m fc, ok, wait) = False"

definition admitted :: "rat \<Rightarrow> string \<Rightarrow> rat \<Rightarrow> (lim_op \<times> answer) list \<Rightarrow> int" where
  "admitted w k now trace = int (length (filter (counts_as w k now) trace))"

definition enforced :: "int \<Rightarrow> string \<Rightarrow> lim_op \<Rightarrow> bool" where
  "enforced own k x \<longleftrightarrow> (op_key x = k \<longrightarrow> op_closed x \<and> 0 < ceiling_of own (op_max x))"

lemma enforced_step:
  assumes tr: "tracks w k t ts lm" "t \<le> op_time x" and e: "enforced (lm_max lm) k x"
    and s: "lim_step lm x = (a, lm1)"
  shows "\<exists>ts'. tracks w k (op_time x) ts' lm1 \<and>
    (\<forall>now. int (length (filter (live w now) ts')) = int (length (filter (live w now) ts)) + admitted w k now [(x, a)]) \<and>
    (\<forall>m fc. x = OpHit (op_time x) k m fc \<and> fst a \<longrightarrow>
       int (length (filter (live w (op_time x)) ts)) < ceiling_of (lm_max lm) m)"
proof -
  have tr1: "tracks w k (op_time x) ts lm" using tr by (rule tracks_later)
  show ?thesis
  proof (cases "op_key x = k")
    case False
    then have "tracks w k (op_time x) ts lm1" using step_other_key [OF tr1, of x] s by simp
    moreover have "admitted w k now [(x, a)] = 0" for now
      using False by (cases x; cases a) (simp_all add: admitted_def)
    ultimately show ?thesis using False by (intro exI [of _ ts]) (auto, metis lim_op.sel(3))
  next
    case True
    then have pos: "0 < ceiling_of (lm_max lm) (op_max x)" and cl: "op_closed x"
      using e by (auto simp: enforced_def)
    show ?thesis
    proof (cases x)
      case (OpHit now key m fc)
      have "limiter_hit lm now k m fc = (a, lm1)" using s OpHit True by simp
      from hit_own_key [OF _ _ this, of w ts] tr1 pos cl OpHit True
      have "tracks w k now (if fst a then ts @ [now] else ts) lm1 \<and>
          (fst a \<longrightarrow> int (length (filter (live w now) ts)) < ceiling_of (lm_max lm) m)"
        by (auto simp: spec_answer_def Let_def split: if_splits)
      then show ?thesis using OpHit True
        by (intro exI [of _ "if fst a then ts @ [now] else ts"]) (cases a; auto simp: admitted_def)
    next
      case (OpCheck now key m fc)
      have "limiter_check lm now k m fc = (a, lm1)" using s OpCheck True by simp
      from check_own_key [OF _ _ this, of w ts] tr1 pos OpCheck True
      have "tracks w k now ts lm1" by auto
      then show ?thesis using OpCheck
        by (intro exI [of _ ts]) (cases a; simp add: admitted_def)
    qed
  qed
qed

lemma admitted_Cons: "admitted w k now (p # tr) = admitted w k now [p] + admitted w k now tr"
  by (simp add: admitted_def)

lemma enforced_run:
  assumes "tracks w k t ts lm" "sorted (t # map op_time ops)" "list_all (enforced (lm_max lm) k) ops"
    "i < length ops" "ops ! i = OpHit now k m fc" "fst (lim_run lm ops ! i)"
  shows "int (length (filter (live w now) ts)) + admitted w k now (take i (zip ops (lim_run lm ops))) < ceiling_of (lm_max lm) m"
  using assms
proof (induction ops arbitrary: t ts lm i)
  case (Cons x xs)
  obtain a lm1 where s: "lim_step lm x = (a, lm1)" by fastforce
  have "t \<le> op_time x" "enforced (lm_max lm) k x" using Cons.prems(2,3) by auto
  note st = enforced_step [OF Cons.prems(1) this s]
  obtain ts' where ts': "tracks w k (op_time x) ts' lm1"
    "\<And>now. int (length (filter (live w now) ts')) = int (length (filter (live w now) ts)) + admitted w k now [(x, a)]"
    "\<And>m fc. x = OpHit (op_time x) k m fc \<Longrightarrow> fst a \<Longrightarrow>
       int (length (filter (live w (op_time x)) ts)) < ceiling_of (lm_max lm) m"
    using st by blast
  have mx: "lm_max lm1 = lm_max lm" using step_max [of lm x] s by simp
  show ?case
  proof (cases i)
    case 0
    then have "x = OpHit now k m fc" "fst a" using Cons.prems(5,6) s by simp_all
    then show ?thesis using ts'(3) [of m fc] 0 by (simp add: admitted_def)
  next
    case (Suc j)
    have "int (length (filter (live w now) ts')) + admitted w k now (take j (zip xs (lim_run lm1 xs))) < ceiling_of (lm_max lm1) m"
    proof (rule Cons.IH [OF ts'(1)])
      show "xs ! j = OpHit now k m fc" "fst (lim_run lm1 xs ! j)" "j < length xs"
        using Cons.prems(4,5,6) s Suc by simp_all
      show "sorted (op_time x # map op_time xs)" "list_all (enforced (lm_max lm1) k) xs"
        using Cons.prems(2,3) mx by simp_all
    qed
    then show ?thesis
      using Suc s ts'(2) [of now] mx admitted_Cons [of w k now "(x, a)" "take j (zip xs (lim_run lm1 xs))"]
      by simp
  qed
qed simp

text \<open>C14: A key that fails closed is never over-admitted, however full the table is.  In any sequence of
  attempts and peeks in clock order, by any number of other keys and with any ceilings of theirs, when
  an attempt of a key whose operations all fail closed (the login limiter's) is let through, fewer
  attempts of that key than its ceiling were let through in the window before it: filling the table
  with 50,000 other keys wins an attacker nothing.\<close>

theorem fail_closed_never_over_admits:
  assumes "sorted (map op_time ops)" and "list_all (enforced own k) ops"
    and "i < length ops" and "ops ! i = OpHit now k m fc" and "fst (lim_run (new_limiter own w) ops ! i)"
  shows "admitted w k now (take i (zip ops (lim_run (new_limiter own w) ops))) < ceiling_of own m"
proof -
  have n: "lm_max (new_limiter own w) = own" by (simp add: new_limiter_def)
  obtain x xs where "ops = x # xs" using assms(3) by (cases ops) auto
  then have "sorted (op_time x # map op_time ops)" using assms(1) by auto
  then show ?thesis
    using enforced_run [where lm = "new_limiter own w" and t = "op_time x" and ts = "[]" and w = w] assms n tracks_new
    by (fastforce simp: new_limiter_def)
qed

lemma fail_closed_never_over_admits_witness:
  "admitted 60 ''a'' 20 (take 1 (zip [OpHit 5 ''a'' None True, OpHit 20 ''a'' None True]
     (lim_run (new_limiter 3 60) [OpHit 5 ''a'' None True, OpHit 20 ''a'' None True]))) < 3"
proof -
  have e: "fl 15 = 15" using fl_of_int [of 15] by simp
  show ?thesis
    using fail_closed_never_over_admits [of "[OpHit 5 ''a'' None True, OpHit 20 ''a'' None True]" 3 "''a''" 1 20 None True 60]
    by (simp add: enforced_def ceiling_of_def limiter_hit_def make_room_def saturated_def MAX_KEYS_def
        new_limiter_def recent_hits_def known_hits_def dict_getdef_def live_def age_def e)
qed

subsection \<open>Calls that overlap\<close>

definition skewed :: "rat \<Rightarrow> rat list \<Rightarrow> bool" where
  "skewed d ts \<longleftrightarrow> sorted_wrt (\<lambda>a b. a \<le> b + d) ts"

text \<open>\<open>near\<close> is \<open>tracks\<close> for times up to \<open>t\<close> that may be out of order by \<open>d\<close>: the table may have dropped an attempt that was outside
  the window for one operation and is inside for a later one, but none that is inside the window shifted by \<open>d\<close> behind the latest time.\<close>

definition near :: "rat \<Rightarrow> rat \<Rightarrow> string \<Rightarrow> rat \<Rightarrow> rat list \<Rightarrow> limiter \<Rightarrow> bool" where
  "near d w key t ts lm \<longleftrightarrow> lm_window lm = w \<and> distinct (map fst (lm_hits lm)) \<and>
     skewed d (known_hits lm key) \<and> set (known_hits lm key) \<subseteq> {..t} \<and>
     (\<forall>u. t + d \<le> u \<longrightarrow> filter (live w u) (known_hits lm key) = filter (live w u) ts) \<and>
     (\<forall>u. length (filter (live w u) (known_hits lm key)) \<le> length (filter (live w u) ts))"

lemma live_anti: "live w u x \<Longrightarrow> now \<le> u \<Longrightarrow> live w now x"
  using age_mono [of now u x] by (simp add: live_def)

lemma near_later: "near d w key t ts lm \<Longrightarrow> t \<le> t' \<Longrightarrow> near d w key t' ts lm"
  unfolding near_def by (auto intro: order_trans)

lemma skewed_last: "skewed d ts \<Longrightarrow> 0 \<le> d \<Longrightarrow> x \<in> set ts \<Longrightarrow> x \<le> last ts + d"
  by (induction ts) (auto simp: skewed_def)

lemma near_evict:
  assumes n: "near d w key t ts lm" and d: "0 \<le> d" "now \<le> t"
  shows "near d w key t ts (evict_expired now lm)"
proof -
  let ?ks = "known_hits lm key"
  have keep: "lm_window (evict_expired now lm) = w" "distinct (map fst (lm_hits (evict_expired now lm)))"
    using n by (simp_all add: near_def evict_expired_def distinct_filter_keys)
  have k: "known_hits (evict_expired now lm) key = (if stale w now ?ks then [] else ?ks)"
    using n known_hits_evict [of lm now key] by (simp add: near_def)
  show ?thesis
  proof (cases "stale w now ?ks \<and> ?ks \<noteq> []")
    case True
    have "\<not> live w u x" if "t + d \<le> u" "x \<in> set ?ks" for u x
    proof -
      have "x \<le> last ?ks + d" using skewed_last [of d ?ks x] n d(1) that(2) by (simp add: near_def)
      then have "now - last ?ks \<le> u - x" using d that(1) by linarith
      then have "age now (last ?ks) \<le> age u x" by (simp add: age_def fl_mono)
      moreover have "w \<le> age now (last ?ks)" using True by (auto simp: stale_def)
      ultimately show ?thesis by (simp add: live_def)
    qed
    then have dead: "filter (live w u) ?ks = []" if "t + d \<le> u" for u using that by (simp add: filter_empty_conv)
    have log: "filter (live w u) ?ks = filter (live w u) ts" if "t + d \<le> u" for u using n that by (simp add: near_def)
    show ?thesis using True keep by (simp add: near_def k skewed_def dead [symmetric] log)
  next
    case False
    then have "known_hits (evict_expired now lm) key = ?ks" by (auto simp: k)
    then show ?thesis using n keep by (simp add: near_def)
  qed
qed

lemma near_make_room: "near d w key t ts lm \<Longrightarrow> 0 \<le> d \<Longrightarrow> now \<le> t \<Longrightarrow> near d w key t ts (make_room now key' lm)"
  by (simp add: make_room_def near_evict)

lemma near_recent:
  assumes "near d w key t ts lm" "0 \<le> d" "now \<le> t"
  shows "near d w key t ts (lm\<lparr>lm_hits := dict_set key (recent_hits now key lm) (lm_hits lm)\<rparr>)"
    and "t \<le> now + d \<Longrightarrow> near d w key t (ts @ [now]) (lm\<lparr>lm_hits := dict_set key (recent_hits now key lm @ [now]) (lm_hits lm)\<rparr>)"
proof -
  let ?ks = "known_hits lm key" and ?recent = "recent_hits now key lm"
  have r: "?recent = filter (live w now) ?ks" using assms(1) by (simp add: near_def recent_hits_def)
  have same: "filter (live w u) ?recent = filter (live w u) ts" if "t + d \<le> u" for u
  proof -
    have "filter (live w u) ?recent = filter (live w u) ?ks"
      unfolding r filter_filter by (rule filter_cong) (use live_anti [of w u _ now] that assms(2,3) in auto)
    then show ?thesis using assms(1) that by (simp add: near_def)
  qed
  have fewer: "length (filter (live w u) ?recent) \<le> length (filter (live w u) ts)" for u
  proof -
    have "length (filter (\<lambda>x. P x \<and> Q x) xs) \<le> length (filter Q xs)" for P Q and xs :: "rat list"
      by (induction xs) auto
    then have "length (filter (live w u) ?recent) \<le> length (filter (live w u) ?ks)"
      unfolding r filter_filter .
    then show ?thesis using assms(1) unfolding near_def by (meson order_trans)
  qed
  have skew: "skewed d ?recent" "set ?recent \<subseteq> {..t}"
    using assms(1) by (auto simp: near_def r skewed_def sorted_wrt_filter)
  show "near d w key t ts (lm\<lparr>lm_hits := dict_set key ?recent (lm_hits lm)\<rparr>)"
    using assms(1) same fewer skew by (simp add: near_def distinct_dict_set)
  show "near d w key t (ts @ [now]) (lm\<lparr>lm_hits := dict_set key (?recent @ [now]) (lm_hits lm)\<rparr>)" if "t \<le> now + d"
  proof -
    have "skewed d (?recent @ [now])" using skew that by (fastforce simp: skewed_def sorted_wrt_append)
    moreover have "set (?recent @ [now]) \<subseteq> {..t}" using skew(2) assms(3) by simp
    ultimately show ?thesis using assms(1) same fewer by (simp add: near_def distinct_dict_set)
  qed
qed

lemma near_set_other: "near d w key t ts lm \<Longrightarrow> key' \<noteq> key \<Longrightarrow> near d w key t ts (lm\<lparr>lm_hits := dict_set key' xs (lm_hits lm)\<rparr>)"
  by (simp add: near_def distinct_dict_set)

text \<open>One operation: the log it leaves, and how an attempt was decided.\<close>

lemma near_step:
  assumes n: "near d w k t ts lm" "0 \<le> d" "op_time x \<le> t" "t \<le> op_time x + d"
    and cap: "op_key x = k \<Longrightarrow> 0 < ceiling_of (lm_max lm) (op_max x)"
    and room: "\<not> saturated (make_room (op_time x) (op_key x) lm) (op_key x)"
    and s: "lim_step lm x = (a, lm1)"
  shows "\<exists>ts'. near d w k t ts' lm1 \<and>
    (\<forall>now. int (length (filter (live w now) ts')) = int (length (filter (live w now) ts)) + admitted w k now [(x, a)]) \<and>
    (\<forall>m fc. x = OpHit (op_time x) k m fc \<longrightarrow>
       (if fst a then int (length (filter (live w (op_time x + 2 * d)) ts)) < ceiling_of (lm_max lm) m
        else ceiling_of (lm_max lm) m \<le> int (length (filter (live w (op_time x)) ts))))"
proof -
  define lm0 where "lm0 = make_room (op_time x) (op_key x) lm"
  have n0: "near d w k t ts lm0" by (simp add: lm0_def near_make_room n)
  have lm1: "lm1 = snd (lim_step lm x)" by (simp add: s)
  show ?thesis
  proof (cases x)
    case (OpCheck now key m fc)
    have "lm1 = lm0 \<or> lm1 = lm" using s OpCheck by (auto simp: limiter_check_def Let_def lm0_def split: if_splits)
    then have "near d w k t ts lm1" using n0 n(1) by auto
    then show ?thesis using OpCheck by (intro exI [of _ ts]) (cases a; simp add: admitted_def)
  next
    case (OpHit now key m fc)
    show ?thesis
    proof (cases "key = k")
      case False
      have "near d w k t ts lm1"
        using s OpHit False n(1) n0 near_set_other [OF n0, of key] by (auto simp: limiter_hit_def Let_def lm0_def split: if_splits)
      then show ?thesis using OpHit False by (intro exI [of _ ts]) (cases a; simp add: admitted_def)
    next
      case True
      let ?recent = "recent_hits now k lm0" and ?cap = "ceiling_of (lm_max lm) m"
      have pos: "0 < ?cap" using cap OpHit True by simp
      have hit: "limiter_hit lm now k m fc = (a, lm1)" using s OpHit True by simp
      have ok: "fst a \<longleftrightarrow> int (length ?recent) < ?cap"
        and after: "lm1 = lm0\<lparr>lm_hits := dict_set k (if fst a then ?recent @ [now] else ?recent) (lm_hits lm0)\<rparr>"
        using hit pos room OpHit True by (auto simp: limiter_hit_def Let_def lm0_def split: if_splits)
      have now: "now \<le> t" "t \<le> now + d" using n(3,4) OpHit by simp_all
      have "near d w k t (if fst a then ts @ [now] else ts) lm1"
        using near_recent [OF n0 n(2) now(1)] now(2) by (simp add: after)
      moreover have "int (length (filter (live w (now + 2 * d)) ts)) \<le> int (length ?recent)"
      proof -
        have "filter (live w (now + 2 * d)) ts = filter (live w (now + 2 * d)) (known_hits lm0 k)"
          using n0 now(2) by (simp add: near_def)
        also have "\<dots> = filter (live w (now + 2 * d)) ?recent"
          using n0 live_anti [of w "now + 2 * d" _ now] n(2) by (auto simp: near_def recent_hits_def intro!: filter_cong)
        finally show ?thesis by simp
      qed
      moreover have "int (length ?recent) \<le> int (length (filter (live w now) ts))"
        using n0 by (simp add: near_def recent_hits_def)
      ultimately show ?thesis using ok OpHit True
        by (intro exI [of _ "if fst a then ts @ [now] else ts"]) (cases a; auto simp: admitted_def)
    qed
  qed
qed

lemma skewed_run:
  assumes "near d w k t ts lm" "0 \<le> d" "\<forall>x \<in> set ops. t \<le> op_time x + d" "skewed d (map op_time ops)"
    "list_all (\<lambda>x. op_key x = k \<longrightarrow> 0 < ceiling_of (lm_max lm) (op_max x)) ops"
    "fst ` set (lm_hits lm) \<subseteq> K" "op_key ` set ops \<subseteq> K" "finite K" "card K \<le> MAX_KEYS"
    "i < length ops" "ops ! i = OpHit now k m fc"
  shows "if fst (lim_run lm ops ! i)
    then int (length (filter (live w (now + 2 * d)) ts)) + admitted w k (now + 2 * d) (take i (zip ops (lim_run lm ops))) < ceiling_of (lm_max lm) m
    else ceiling_of (lm_max lm) m \<le> int (length (filter (live w now) ts)) + admitted w k now (take i (zip ops (lim_run lm ops)))"
  using assms
proof (induction ops arbitrary: t ts lm i)
  case (Cons x xs)
  let ?t = "max t (op_time x)"
  obtain a lm1 where s: "lim_step lm x = (a, lm1)" by fastforce
  have n: "near d w k ?t ts lm" using Cons.prems(1) by (rule near_later) simp
  have dist: "distinct (map fst (lm_hits (make_room (op_time x) (op_key x) lm)))"
    using near_make_room [OF n Cons.prems(2), of "op_time x" "op_key x"] by (simp add: near_def)
  have room: "\<not> saturated (make_room (op_time x) (op_key x) lm) (op_key x)"
  proof (rule room_for_key [where K = K])
    show "fst ` set (lm_hits (make_room (op_time x) (op_key x) lm)) \<subseteq> K"
      using make_room_keys Cons.prems(6) by (rule order_trans)
  qed (use Cons.prems(7-9) dist in auto)
  have "?t \<le> op_time x + d" "op_key x = k \<Longrightarrow> 0 < ceiling_of (lm_max lm) (op_max x)"
    using Cons.prems(2,3,5) by auto
  then obtain ts' where ts': "near d w k ?t ts' lm1"
    "\<And>now. int (length (filter (live w now) ts')) = int (length (filter (live w now) ts)) + admitted w k now [(x, a)]"
    "\<And>m fc. x = OpHit (op_time x) k m fc \<Longrightarrow>
       (if fst a then int (length (filter (live w (op_time x + 2 * d)) ts)) < ceiling_of (lm_max lm) m
        else ceiling_of (lm_max lm) m \<le> int (length (filter (live w (op_time x)) ts)))"
    using near_step [OF n Cons.prems(2) _ _ _ room s] by (metis max.cobounded2)
  have mx: "lm_max lm1 = lm_max lm" using step_max [of lm x] s by simp
  show ?case
  proof (cases i)
    case 0
    then have x: "x = OpHit now k m fc" using Cons.prems(11) by simp
    have t: "op_time x = now" by (simp add: x)
    show ?thesis using ts'(3) [of m fc] 0 s unfolding t by (simp add: x admitted_def)
  next
    case (Suc j)
    have ih: "if fst (lim_run lm1 xs ! j)
      then int (length (filter (live w (now + 2 * d)) ts')) + admitted w k (now + 2 * d) (take j (zip xs (lim_run lm1 xs))) < ceiling_of (lm_max lm1) m
      else ceiling_of (lm_max lm1) m \<le> int (length (filter (live w now) ts')) + admitted w k now (take j (zip xs (lim_run lm1 xs)))"
    proof (rule Cons.IH [OF ts'(1) Cons.prems(2)])
      show "\<forall>y \<in> set xs. ?t \<le> op_time y + d" "skewed d (map op_time xs)"
        using Cons.prems(3,4) by (auto simp: skewed_def)
      show "list_all (\<lambda>x. op_key x = k \<longrightarrow> 0 < ceiling_of (lm_max lm1) (op_max x)) xs" using Cons.prems(5) mx by simp
      have "fst ` set (lm_hits lm1) \<subseteq> insert (op_key x) (fst ` set (lm_hits lm))" using step_keys [of lm x] s by simp
      then show "fst ` set (lm_hits lm1) \<subseteq> K"
        by (rule order_trans) (use Cons.prems(6,7) in simp)
      show "j < length xs" "xs ! j = OpHit now k m fc" using Cons.prems(10,11) Suc by simp_all
    qed (use Cons.prems(7-9) in auto)
    show ?thesis
      using ih Suc s ts'(2) mx admitted_Cons [of w k _ "(x, a)" "take j (zip xs (lim_run lm1 xs))"] by (simp add: Let_def split: if_splits)
  qed
qed simp

text \<open>Whatever the order in which overlapping calls get the lock, as long as no clock reading is older than an earlier one by more than
  \<open>d\<close>: an attempt is refused only if its ceiling's worth of attempts of its key were let through in the window before it, and let through only if
  fewer were in the window shortened by twice \<open>d\<close>.\<close>

lemma overlapping_calls_stay_within_skew:
  assumes "skewed d (map op_time ops)" and "0 \<le> d" and "card (op_key ` set ops) \<le> MAX_KEYS"
    and "list_all (\<lambda>x. op_key x = k \<longrightarrow> 0 < ceiling_of own (op_max x)) ops"
    and "i < length ops" and "ops ! i = OpHit now k m fc"
  shows "if fst (lim_run (new_limiter own w) ops ! i)
    then admitted w k (now + 2 * d) (take i (zip ops (lim_run (new_limiter own w) ops))) < ceiling_of own m
    else ceiling_of own m \<le> admitted w k now (take i (zip ops (lim_run (new_limiter own w) ops)))"
proof -
  define t where "t = Min (op_time ` set ops)"
  have "t \<le> op_time x + d" if "x \<in> set ops" for x
  proof -
    have "t \<le> op_time x" using that by (simp add: t_def)
    then show ?thesis using assms(2) by linarith
  qed
  moreover have "near d w k t [] (new_limiter own w)"
    by (simp add: near_def new_limiter_def known_hits_def dict_getdef_def skewed_def)
  moreover have "lm_max (new_limiter own w) = own" "lm_hits (new_limiter own w) = []" by (simp_all add: new_limiter_def)
  ultimately show ?thesis
    using skewed_run [of d w k t "[]" "new_limiter own w" ops "op_key ` set ops" i now m fc] assms
    by (simp split: if_splits)
qed

text \<open>A peek never changes what a later operation sees of a key, and an active block survives eviction.\<close>

lemma eviction_keeps_active_blocks:
  assumes "distinct (map fst (lm_hits lm))" "\<not> stale (lm_window lm) now (known_hits lm key)"
  shows "known_hits (evict_expired now lm) key = known_hits lm key"
  using assms by (simp add: known_hits_evict)

text \<open>A request refused by the tenant limiter is refused for cause and with a way out: as many of
  its key's requests as the resolved ceiling are inside the last minute, the ceiling is a real one, and
  the answer carries a whole number of seconds to wait between 1 and 60.\<close>

theorem refused_request_says_when:
  assumes "tracks 60 (rate_limit_key p) now ts lm"
    and "enforce_rate_limit lm platform settings now p = (Some d, lm1)"
  shows "\<not> qd_allowed d \<and> 1 \<le> qd_retry_after d \<and> qd_retry_after d \<le> 60 \<and>
    0 < requests_per_minute (fst (resolve_quota platform settings)) \<and>
    requests_per_minute (fst (resolve_quota platform settings)) \<le> int (length (filter (live 60 now) ts))"
proof -
  define limit where "limit = requests_per_minute (fst (resolve_quota platform settings))"
  define key where "key = rate_limit_key p"
  have tr: "tracks 60 key now ts lm" using assms(1) by (simp add: key_def)
  obtain ok wait where h: "hit_limited lm now key limit = ((ok, wait), lm1)" and d: "d = rate_refusal wait limit"
    and nok: "\<not> ok"
    using assms(2) by (auto simp: enforce_rate_limit_def Let_def limit_def [symmetric] key_def [symmetric]
        split: prod.splits if_splits)
  have pos: "0 < limit" and hit: "limiter_hit lm now key (Some limit) False = ((ok, wait), lm1)"
    using h nok by (auto simp: hit_limited_def split: if_splits)
  have a: "(ok, wait) = spec_answer 60 now ts limit"
    using hit_own_key [OF tr _ hit] pos nok by (auto simp: ceiling_of_def split: if_splits)
  then have many: "limit \<le> int (length (filter (live 60 now) ts))"
    and w: "wait = wait_time 60 now (filter (live 60 now) ts)"
    using nok pos by (auto simp: spec_answer_def Let_def split: if_splits)
  have ne: "filter (live 60 now) ts \<noteq> []" using many pos by auto
  have r: "recent_hits now key lm = filter (live 60 now) ts" by (rule tracks_recent [OF tr])
  have "hd (filter (live 60 now) ts) \<le> now"
    using recent_sorted [OF tr] ne hd_in_set unfolding r by blast
  then have "0 \<le> age now (hd (filter (live 60 now) ts))" by (simp add: age_def fl_nonneg)
  then have "fl (60 - age now (hd (filter (live 60 now) ts))) \<le> 60"
    using fl_le_int [of "60 - age now (hd (filter (live 60 now) ts))" 60] by simp
  then have "wait \<le> 60" by (simp add: w wait_time_def)
  then have "of_int (qd_retry_after d) < (61 :: rat)"
    using rate_refusal_bounds [of wait limit] unfolding d by (simp add: max_def split: if_splits)
  then have "qd_retry_after d \<le> 60" by linarith
  with many pos rate_refusal_bounds [of wait limit] d show ?thesis by (simp add: limit_def)
qed

lemma refused_request_says_when_witness:
  "1 \<le> qd_retry_after (the (fst (enforce_rate_limit
     \<lparr>lm_max = 0, lm_window = 60, lm_hits = [(rate_limit_key \<lparr>pr_tenant_id = 7, pr_api_key = None\<rparr>, [100])]\<rparr>
     DEFAULT_SETTINGS (JObj [(''quota'', JObj [(''requests_per_minute'', JInt 1)])]) 130
     \<lparr>pr_tenant_id = 7, pr_api_key = None\<rparr>)))"
proof -
  define p :: principal where "p = \<lparr>pr_tenant_id = 7, pr_api_key = None\<rparr>"
  define lm where "lm = \<lparr>lm_max = 0, lm_window = 60, lm_hits = [(rate_limit_key p, [100 :: rat])]\<rparr>"
  define st where "st = JObj [(''quota'', JObj [(''requests_per_minute'', JInt 1)])]"
  have e: "fl 30 = 30" using fl_of_int [of 30] by simp
  have tr: "tracks 60 (rate_limit_key p) 130 [100] lm"
    by (simp add: tracks_def lm_def known_hits_def dict_getdef_def)
  have lim: "requests_per_minute (fst (resolve_quota DEFAULT_SETTINGS st)) = 1"
    by (simp add: resolve_quota_def st_def quota_fields_def quota_replace_def dict_getdef_def
        apply_ceiling_def QUOTA_DEFAULT_def DEFAULT_SETTINGS_def HARD_MAX_PAGE_SIZE_def)
  have "enforce_rate_limit lm DEFAULT_SETTINGS st 130 p =
      (Some (rate_refusal 30 1), lm\<lparr>lm_hits := [(rate_limit_key p, [100])]\<rparr>)"
    using e lim by (simp add: enforce_rate_limit_def hit_limited_def limiter_hit_def ceiling_of_def make_room_def
        saturated_def MAX_KEYS_def recent_hits_def known_hits_def dict_getdef_def live_def age_def
        wait_time_def lm_def)
  from refused_request_says_when [OF tr this] this show ?thesis
    by (simp add: p_def lm_def st_def)
qed

text \<open>The alert of the breaker is throttled against a time that starts at 0, so nothing is logged in the
  first minute of the monotonic clock, however many logins fail.\<close>

lemma no_alert_in_first_minute:
  "br_alerts (record_failed_login 1 2 2 (record_failed_login 1 1 1 new_breaker)) = []"
proof -
  have e: "fl 2 = 2" using fl_of_int [of 2] by simp
  show ?thesis
    by (simp add: record_failed_login_def new_breaker_def new_limiter_def limiter_hit_def ceiling_of_def
        make_room_def saturated_def MAX_KEYS_def recent_hits_def known_hits_def dict_getdef_def live_def
        age_def e Let_def)
qed

end
