(* ===== verification/SafeScan.thy ===== *)
theory SafeScan
  imports PyUuid
begin

text \<open>
  \<open>guardian_core/safescan.py\<close> and the worker's \<open>_safe_scan_verdict\<close>: whether an active scan may
  start now.  A moment is a UTC instant in microseconds; a blackout window is tested on the
  customer's wall clock, which is that instant shifted by the window's offset.  Message texts are
  constructors, except the parts of them that carry data.
\<close>

subsection \<open>Intensity profiles\<close>

record profile_limits =
  max_requests :: int
  rate_per_second :: rat
  profile_concurrency :: int

definition PROFILES :: "(string, profile_limits) odict" where
  "PROFILES =
     [(''safe'', \<lparr>max_requests = 150, rate_per_second = 2, profile_concurrency = 2\<rparr>),
      (''standard'', \<lparr>max_requests = 400, rate_per_second = 8, profile_concurrency = 4\<rparr>),
      (''thorough'', \<lparr>max_requests = 1500, rate_per_second = 15, profile_concurrency = 8\<rparr>)]"

definition DEFAULT_PROFILE :: string where "DEFAULT_PROFILE = ''safe''"

definition DEFAULT_MAX_CONCURRENT :: int where "DEFAULT_MAX_CONCURRENT = 1"

definition DAYS :: "string list" where
  "DAYS = [''mon'', ''tue'', ''wed'', ''thu'', ''fri'', ''sat'', ''sun'']"

subsection \<open>Windows\<close>

record window =
  wn_days :: "string list"
  wn_start_hour :: int
  wn_end_hour :: int
  wn_utc_offset :: py_float
  wn_label :: string

text \<open>\<open>timedelta(hours=x)\<close>: whole hours exactly, the fraction through a float product, to the nearest
  microsecond; and the range of \<open>datetime\<close> outside which the addition overflows.\<close>

definition hours_us :: "rat \<Rightarrow> int" where
  "hours_us x = trunc_rat x * 3600000000 + rhe (fl ((x - of_int (trunc_rat x)) * 3600000000))"

definition datetime_ok :: "int \<Rightarrow> bool" where
  "datetime_ok t \<longleftrightarrow> - 62135596800000000 \<le> t \<and> t < 253402300800000000"

definition local_time :: "window \<Rightarrow> int \<Rightarrow> py_error + int" where
  "local_time w moment =
     (case wn_utc_offset w of
        NotFinite \<Rightarrow> Inl OverflowError
      | Finite h \<Rightarrow> let t = moment + hours_us h in if datetime_ok t then Inr t else Inl OverflowError)"

text \<open>1970-01-01 was a Thursday.\<close>

definition weekday :: "int \<Rightarrow> nat" where
  "weekday t = nat ((t div 86400000000 + 3) mod 7)"

definition hour_of_day :: "int \<Rightarrow> rat" where
  "hour_of_day t =
     (let s = t mod 86400000000 in
      fl (of_int (s div 3600000000) + fl (of_int (s mod 3600000000 div 60000000) / 60)))"

definition in_days :: "window \<Rightarrow> int \<Rightarrow> bool" where
  "in_days w t \<longleftrightarrow> wn_days w = [] \<or> DAYS ! weekday t \<in> (\<lambda>d. take 3 (py_lower d)) ` set (wn_days w)"

definition in_hours :: "window \<Rightarrow> rat \<Rightarrow> bool" where
  "in_hours w hour \<longleftrightarrow>
     (if wn_start_hour w \<le> wn_end_hour w then of_int (wn_start_hour w) \<le> hour \<and> hour < of_int (wn_end_hour w)
      else of_int (wn_start_hour w) \<le> hour \<or> hour < of_int (wn_end_hour w))"

definition window_contains :: "window \<Rightarrow> int \<Rightarrow> py_error + bool" where
  "window_contains w moment =
     (case local_time w moment of Inl e \<Rightarrow> Inl e
      | Inr t \<Rightarrow> Inr (in_days w t \<and> in_hours w (hour_of_day t)))"

subsection \<open>Policies\<close>

record policy =
  po_profile :: string
  po_windows :: "window list"
  po_paused :: bool
  po_pause_reason :: string
  po_max_concurrent :: int

definition policy_limits :: "policy \<Rightarrow> profile_limits" where
  "policy_limits p =
     (case dict_get PROFILES (po_profile p) of Some l \<Rightarrow> l | None \<Rightarrow> the (dict_get PROFILES DEFAULT_PROFILE))"

datatype scan_error = MalformedWindow | Raised py_error

definition jget_or :: "jobj \<Rightarrow> string \<Rightarrow> jval \<Rightarrow> jval" where
  "jget_or d k v = (case dict_get d k of Some x \<Rightarrow> x | None \<Rightarrow> v)"

definition parse_window :: "jobj \<Rightarrow> py_error + window" where
  "parse_window entry =
     (case iter_of (jor (jget entry ''days'') (JList [])) of Inl e \<Rightarrow> Inl e | Inr ds \<Rightarrow>
      case to_int (jget_or entry ''start_hour'' (JInt 0)) of Inl e \<Rightarrow> Inl e | Inr s \<Rightarrow>
      case to_int (jget_or entry ''end_hour'' (JInt 0)) of Inl e \<Rightarrow> Inl e | Inr f \<Rightarrow>
      case to_float (jget_or entry ''utc_offset_hours'' (JInt 0)) of Inl e \<Rightarrow> Inl e | Inr off \<Rightarrow>
        Inr \<lparr>wn_days = map py_str ds, wn_start_hour = s, wn_end_hour = f, wn_utc_offset = off,
             wn_label = str_or (jget entry ''label'') []\<rparr>)"

fun parse_windows :: "jval list \<Rightarrow> scan_error + window list" where
  "parse_windows [] = Inr []"
| "parse_windows (JObj entry # rest) =
     (case parse_window entry of
        Inl e \<Rightarrow> Inl (if e \<in> {TypeError, ValueError} then MalformedWindow else Raised e)
      | Inr w \<Rightarrow> (case parse_windows rest of Inl e \<Rightarrow> Inl e | Inr ws \<Rightarrow> Inr (w # ws)))"
| "parse_windows (_ # rest) = parse_windows rest"

definition known_profile :: "jval \<Rightarrow> string" where
  "known_profile v = (let p = py_lower (str_or v DEFAULT_PROFILE) in
     if p \<in> fst ` set PROFILES then p else DEFAULT_PROFILE)"

definition parse_policy_raw :: "jobj \<Rightarrow> scan_error + policy" where
  "parse_policy_raw raw =
     (case iter_of (jor (jget raw ''blackout_windows'') (JList [])) of Inl e \<Rightarrow> Inl (Raised e) | Inr entries \<Rightarrow>
      case parse_windows entries of Inl e \<Rightarrow> Inl e | Inr ws \<Rightarrow>
      case to_int (jor (jget raw ''max_concurrent_scans_per_asset'') (JInt DEFAULT_MAX_CONCURRENT)) of
        Inl e \<Rightarrow> Inl (Raised e)
      | Inr m \<Rightarrow> Inr \<lparr>po_profile = known_profile (jget raw ''profile''), po_windows = ws,
                     po_paused = truthy (jget raw ''paused''),
                     po_pause_reason = str_or (jget raw ''pause_reason'') [], po_max_concurrent = max 1 m\<rparr>)"

definition parse_policy :: "jval \<Rightarrow> scan_error + policy" where
  "parse_policy settings =
     (case jor settings (JObj []) of
        JObj d \<Rightarrow> (case jor (jget d ''safe_scanning'') (JObj []) of
            JObj raw \<Rightarrow> parse_policy_raw raw | _ \<Rightarrow> Inl (Raised AttributeError))
      | _ \<Rightarrow> Inl (Raised AttributeError))"

subsection \<open>The verdict\<close>

datatype safe_reason =
    SwitchUnreadable | PlatformPaused | CustomerPaused string | InsideWindow string
  | AlreadyScanning int | WithinProfile string | SettingsMalformed

record safe_verdict =
  sv_allowed :: bool
  sv_reason :: safe_reason
  sv_action :: string
  sv_retry_after :: "int option"
  sv_limits :: "profile_limits option"

definition refuse :: "safe_reason \<Rightarrow> safe_verdict" where
  "refuse r = \<lparr>sv_allowed = False, sv_reason = r, sv_action = ''refuse'', sv_retry_after = None, sv_limits = None\<rparr>"

definition defer_until :: "safe_reason \<Rightarrow> int \<Rightarrow> safe_verdict" where
  "defer_until r t = \<lparr>sv_allowed = False, sv_reason = r, sv_action = ''defer'', sv_retry_after = Some t, sv_limits = None\<rparr>"

text \<open>\<open>any(window.contains(probe) for window in windows)\<close> stops at the first that does.\<close>

fun any_contains :: "window list \<Rightarrow> int \<Rightarrow> py_error + bool" where
  "any_contains [] t = Inr False"
| "any_contains (w # ws) t =
     (case window_contains w t of Inl e \<Rightarrow> Inl e | Inr True \<Rightarrow> Inr True | Inr False \<Rightarrow> any_contains ws t)"

fun all_containing :: "window list \<Rightarrow> int \<Rightarrow> py_error + window list" where
  "all_containing [] t = Inr []"
| "all_containing (w # ws) t =
     (case window_contains w t of Inl e \<Rightarrow> Inl e | Inr b \<Rightarrow>
        (case all_containing ws t of Inl e \<Rightarrow> Inl e | Inr vs \<Rightarrow> Inr (if b then w # vs else vs)))"

definition HALF_HOUR :: int where "HALF_HOUR = 1800000000"

fun probe_open :: "nat \<Rightarrow> window list \<Rightarrow> int \<Rightarrow> py_error + int option" where
  "probe_open 0 ws probe = Inr None"
| "probe_open (Suc n) ws probe =
     (let p = probe + HALF_HOUR in
      case any_contains ws p of Inl e \<Rightarrow> Inl e | Inr b \<Rightarrow> if b then probe_open n ws p else Inr (Some p))"

definition next_open :: "window list \<Rightarrow> int \<Rightarrow> py_error + int" where
  "next_open ws moment =
     (case probe_open (24 * 8) ws moment of Inl e \<Rightarrow> Inl e
      | Inr (Some p) \<Rightarrow> Inr p
      | Inr None \<Rightarrow> Inr (moment + 24 * 3600000000))"

definition safe_check :: "policy \<Rightarrow> int \<Rightarrow> int \<Rightarrow> bool \<Rightarrow> bool \<Rightarrow> py_error + safe_verdict" where
  "safe_check p now active_scans platform_paused switch_readable =
     (if \<not> switch_readable then Inr (refuse SwitchUnreadable)
      else if platform_paused then Inr (refuse PlatformPaused)
      else if po_paused p then Inr (refuse (CustomerPaused (po_pause_reason p)))
      else case all_containing (po_windows p) now of Inl e \<Rightarrow> Inl e
        | Inr (w # _) \<Rightarrow>
            (case next_open (po_windows p) now of Inl e \<Rightarrow> Inl e
             | Inr t \<Rightarrow> Inr (defer_until (InsideWindow (if wn_label w = [] then ''a blackout window'' else wn_label w)) t))
        | Inr [] \<Rightarrow>
            if active_scans \<ge> po_max_concurrent p
            then Inr (defer_until (AlreadyScanning active_scans) (now + minutes 10))
            else Inr \<lparr>sv_allowed = True, sv_reason = WithinProfile (po_profile p), sv_action = ''run'',
                      sv_retry_after = None, sv_limits = Some (policy_limits p)\<rparr>)"

subsection \<open>The worker's gate\<close>

record scan_ref =
  sc_id :: uuid
  sc_asset_id :: uuid
  sc_status :: string

definition concurrent_scans_on :: "scan_ref list \<Rightarrow> scan_ref \<Rightarrow> int" where
  "concurrent_scans_on scans scan = int (length (filter (\<lambda>s. sc_asset_id s = sc_asset_id scan \<and>
     sc_id s \<noteq> sc_id scan \<and> sc_status s \<in> {''running'', ''queued''}) scans))"

definition safe_scan_verdict :: "jval \<Rightarrow> scan_ref list \<Rightarrow> scan_ref \<Rightarrow> bool \<Rightarrow> int \<Rightarrow> py_error + safe_verdict" where
  "safe_scan_verdict customer_settings scans scan active_scanning_paused now =
     (case parse_policy customer_settings of
        Inl MalformedWindow \<Rightarrow> Inr (refuse SettingsMalformed)
      | Inl (Raised e) \<Rightarrow> Inl e
      | Inr p \<Rightarrow> safe_check p now (concurrent_scans_on scans scan) active_scanning_paused True)"

subsection \<open>The blackout clock\<close>

text \<open>The minute of the local day, and the whole hour of it.\<close>

definition local_minute :: "int \<Rightarrow> int" where
  "local_minute t = t mod 86400000000 div 60000000"

lemma local_minute_bounds: "0 \<le> local_minute t" "local_minute t < 1440"
  by (simp_all add: local_minute_def)

lemma hour_of_day_minute:
  "hour_of_day t = fl (of_int (local_minute t div 60) + fl (of_int (local_minute t mod 60) / 60))"
proof -
  define s where "s = t mod 86400000000"
  have "s div 3600000000 = s div 60000000 div 60" by (simp add: zdiv_zmult2_eq [symmetric])
  moreover have "s mod 3600000000 div 60000000 = s div 60000000 mod 60"
  proof -
    have "s mod 3600000000 = 60000000 * (s div 60000000 mod 60) + s mod 60000000"
      using zmod_zmult2_eq [of 60 s 60000000] by simp
    then show ?thesis by simp
  qed
  ultimately show ?thesis by (simp add: hour_of_day_def local_minute_def Let_def s_def)
qed

lemma hour_of_day_bounds:
  "of_int (local_minute t div 60) \<le> hour_of_day t \<and> hour_of_day t < of_int (local_minute t div 60 + 1)"
proof -
  define h where "h = local_minute t div 60"
  define m where "m = local_minute t mod 60"
  have hm: "0 \<le> h" "h < 24" "0 \<le> m" "m < 60"
    using local_minute_bounds [of t] by (auto simp: h_def m_def)
  define f where "f = fl (of_int m / 60)"
  have "(of_int m :: rat) \<le> 59" using hm(4) by linarith
  then have "of_int m / 60 \<le> (59/60 :: rat)" by simp
  have tiny: "pow2 (- 43) < (1/600 :: rat)" by (simp add: pow2_def)
  have "\<bar>f - of_int m / 60\<bar> \<le> pow2 (- 43)"
    using fl_error [of "of_int m / 60" 10] hm \<open>of_int m / 60 \<le> 59/60\<close> by (simp add: f_def pow2_def)
  then have "f \<le> of_int m / 60 + pow2 (- 43)" by linarith
  then have f: "f \<le> 59/60 + 1/600" using \<open>of_int m / 60 \<le> 59/60\<close> tiny by linarith
  have f0: "0 \<le> f" using hm by (simp add: f_def fl_nonneg)
  have h24: "(of_int h :: rat) \<le> 23" "0 \<le> (of_int h :: rat)" using hm(1,2) by linarith+
  have "\<bar>fl (of_int h + f) - (of_int h + f)\<bar> \<le> pow2 (- 43)"
    using fl_error [of "of_int h + f" 10] f f0 h24 by (simp add: pow2_def)
  then have "fl (of_int h + f) \<le> of_int h + f + pow2 (- 43)" by linarith
  then have up: "fl (of_int h + f) < of_int h + 1" using f tiny by linarith
  have "of_int h \<le> fl (of_int h + f)" using f0 hm by (intro fl_ge_int) auto
  with up show ?thesis by (simp add: hour_of_day_minute h_def [symmetric] m_def [symmetric] f_def)
qed

lemma hour_compare:
  "of_int s \<le> hour_of_day t \<longleftrightarrow> s \<le> local_minute t div 60"
  "hour_of_day t < of_int s \<longleftrightarrow> local_minute t div 60 < s"
proof -
  note b = hour_of_day_bounds [of t]
  show "of_int s \<le> hour_of_day t \<longleftrightarrow> s \<le> local_minute t div 60"
  proof
    assume "of_int s \<le> hour_of_day t"
    then have "(of_int s :: rat) < of_int (local_minute t div 60 + 1)" using b by linarith
    then show "s \<le> local_minute t div 60" unfolding of_int_less_iff by simp
  next
    assume "s \<le> local_minute t div 60"
    then have "(of_int s :: rat) \<le> of_int (local_minute t div 60)" unfolding of_int_le_iff .
    with b show "of_int s \<le> hour_of_day t" by linarith
  qed
  then show "hour_of_day t < of_int s \<longleftrightarrow> local_minute t div 60 < s" by linarith
qed

text \<open>The reference: time of day is a circle of 1440 minutes, and a window an arc of it.\<close>

definition in_arc :: "int \<Rightarrow> int \<Rightarrow> int \<Rightarrow> bool" where
  "in_arc s e m \<longleftrightarrow> (m - 60 * s) mod 1440 < (60 * (e - s)) mod 1440"

lemma in_hours_arc:
  assumes "0 \<le> wn_start_hour w" "wn_start_hour w < 24" "0 \<le> wn_end_hour w" "wn_end_hour w < 24"
  shows "in_hours w (hour_of_day t) = in_arc (wn_start_hour w) (wn_end_hour w) (local_minute t)"
proof -
  define s e m where d: "s = wn_start_hour w" "e = wn_end_hour w" "m = local_minute t"
  have b: "0 \<le> m" "m < 1440" "0 \<le> s" "s < 24" "0 \<le> e" "e < 24"
    using assms local_minute_bounds [of t] by (simp_all add: d)
  have wrap: "x mod 1440 = (if 0 \<le> x then x else x + 1440)" if "- 1440 \<le> x" "x < 1440" for x :: int
  proof (cases "0 \<le> x")
    case True
    with that show ?thesis by simp
  next
    case False
    then have "(x + 1440) mod 1440 = x + 1440" using that by (intro mod_pos_pos_trivial) auto
    with False show ?thesis by simp
  qed
  have m1: "(m - 60 * s) mod 1440 = (if 60 * s \<le> m then m - 60 * s else m - 60 * s + 1440)"
  proof -
    have "- 1440 \<le> m - 60 * s" "m - 60 * s < 1440" using b by linarith+
    from wrap [OF this] show ?thesis by (simp only: diff_ge_0_iff_ge)
  qed
  have m2: "(60 * (e - s)) mod 1440 = (if s \<le> e then 60 * (e - s) else 60 * (e - s) + 1440)"
  proof -
    have "- 24 \<le> e - s" "e - s < 24" using b by linarith+
    then have "- 1440 \<le> 60 * (e - s)" "60 * (e - s) < 1440" by presburger+
    moreover have "0 \<le> 60 * (e - s) \<longleftrightarrow> s \<le> e" by presburger
    ultimately show ?thesis using wrap [of "60 * (e - s)"] by (simp only: simp_thms)
  qed
  have h: "s \<le> m div 60 \<longleftrightarrow> 60 * s \<le> m" "m div 60 < e \<longleftrightarrow> m < 60 * e" by linarith+
  have "in_hours w (hour_of_day t) \<longleftrightarrow>
      (if s \<le> e then 60 * s \<le> m \<and> m < 60 * e else 60 * s \<le> m \<or> m < 60 * e)"
    unfolding in_hours_def hour_compare d [symmetric] h by simp
  also have "\<dots> \<longleftrightarrow> in_arc s e m" unfolding in_arc_def m1 m2 using b by auto
  finally show ?thesis by (simp add: d)
qed

text \<open>A blackout window means what a clock face says.  For hours of the day from 0 to 23 the
  window contains a moment exactly when the customer's local weekday is one of its days (or it names
  none) and the local minute of the day, shifted by the offset, lies on the arc from the start hour
  up to the end hour: windows that wrap midnight included, and with the floating-point hour of the
  code never off by a minute.\<close>

theorem window_is_an_arc:
  assumes "0 \<le> wn_start_hour w" "wn_start_hour w < 24" "0 \<le> wn_end_hour w" "wn_end_hour w < 24"
  shows "window_contains w moment =
    (case local_time w moment of Inl e \<Rightarrow> Inl e
     | Inr t \<Rightarrow> Inr (in_days w t \<and> in_arc (wn_start_hour w) (wn_end_hour w) (local_minute t)))"
  using in_hours_arc [OF assms] by (simp add: window_contains_def split: sum.split)

lemma window_is_an_arc_witness:
  "window_contains \<lparr>wn_days = [''Fri''], wn_start_hour = 22, wn_end_hour = 6, wn_utc_offset = Finite 0, wn_label = []\<rparr>
     (23 * 3600000000 + 86400000000) = Inr True"
proof -
  have d: "weekday 169200000000 = 4" by (simp add: weekday_def)
  have f: "py_lower ''Fri'' = ''fri''" by code_simp
  show ?thesis
    by (subst window_is_an_arc)
      (simp_all add: local_time_def hours_us_def trunc_rat_def datetime_ok_def in_days_def d f DAYS_def
        in_arc_def local_minute_def)
qed

subsection \<open>The gate\<close>

lemma all_containing_Nil:
  "all_containing ws t = Inr [] \<longleftrightarrow> list_all (\<lambda>w. window_contains w t = Inr False) ws"
  by (induction ws) (auto split: sum.splits)

lemma all_containing_sub:
  "all_containing ws t = Inr vs \<Longrightarrow> set vs \<subseteq> {w \<in> set ws. window_contains w t = Inr True}"
  by (induction ws arbitrary: vs) (auto split: sum.splits if_splits)

lemma any_contains_False:
  "any_contains ws t = Inr False \<longleftrightarrow> list_all (\<lambda>w. window_contains w t = Inr False) ws"
  by (induction ws) (auto split: sum.splits bool.splits)

text \<open>The safe-scanning gate lets a scan start exactly when every control agrees: the emergency stop
  could be read and is not pulled, neither platform nor customer is paused, the moment is outside every
  blackout window (each of which could be evaluated) and the asset has a free slot; and then it hands
  out the limits of the customer's profile.\<close>

theorem safe_check_iff:
  "(\<exists>v. safe_check p now active paused readable = Inr v \<and> sv_allowed v \<and> sv_limits v = Some (policy_limits p)) \<longleftrightarrow>
   readable \<and> \<not> paused \<and> \<not> po_paused p \<and> list_all (\<lambda>w. window_contains w now = Inr False) (po_windows p) \<and>
   active < po_max_concurrent p"
  by (auto simp: safe_check_def refuse_def defer_until_def all_containing_Nil [symmetric] not_le
      split: sum.splits list.splits)

lemma safe_check_allowed:
  assumes "safe_check p now active paused readable = Inr v" "sv_allowed v"
  shows "\<not> paused \<and> \<not> po_paused p \<and> list_all (\<lambda>w. window_contains w now = Inr False) (po_windows p) \<and>
    active < po_max_concurrent p \<and> sv_limits v = Some (policy_limits p)"
  using assms by (auto simp: safe_check_def refuse_def defer_until_def all_containing_Nil [symmetric] not_le
      split: sum.splits list.splits if_splits)

lemma policy_limits_bounds:
  "max_requests (policy_limits p) \<le> 1500 \<and> rate_per_second (policy_limits p) \<le> 15 \<and>
   profile_concurrency (policy_limits p) \<le> 8"
  by (auto simp: policy_limits_def PROFILES_def DEFAULT_PROFILE_def)

text \<open>Every object of the list becomes a window, and a window that does not parse is an error.\<close>

fun objects :: "jval list \<Rightarrow> jobj list" where
  "objects [] = []"
| "objects (JObj d # vs) = d # objects vs"
| "objects (_ # vs) = objects vs"

lemma parse_windows_all:
  "parse_windows vs = Inr ws \<Longrightarrow> list_all2 (\<lambda>d w. parse_window d = Inr w) (objects vs) ws"
  by (induction vs arbitrary: ws rule: parse_windows.induct) (auto split: sum.splits)

lemma parse_policy_facts:
  assumes "parse_policy settings = Inr p"
  shows "\<exists>raw entries. as_obj (jget (as_obj settings) ''safe_scanning'') = raw \<and>
    iter_of (jor (jget raw ''blackout_windows'') (JList [])) = Inr entries \<and>
    list_all2 (\<lambda>d w. parse_window d = Inr w) (objects entries) (po_windows p) \<and>
    po_paused p = truthy (jget raw ''paused'') \<and> 1 \<le> po_max_concurrent p"
proof -
  obtain d where d: "jor settings (JObj []) = JObj d"
    using assms by (auto simp: parse_policy_def split: jval.splits)
  then have d': "as_obj settings = d"
    by (cases settings) (auto simp: jor_def split: if_splits)
  obtain raw where raw: "jor (jget d ''safe_scanning'') (JObj []) = JObj raw" and p: "parse_policy_raw raw = Inr p"
    using assms d by (auto simp: parse_policy_def split: jval.splits)
  have raw': "as_obj (jget d ''safe_scanning'') = raw"
    using raw by (cases "jget d ''safe_scanning''") (auto simp: jor_def split: if_splits)
  obtain entries ws where e: "iter_of (jor (jget raw ''blackout_windows'') (JList [])) = Inr entries"
    "parse_windows entries = Inr ws" "po_windows p = ws" "po_paused p = truthy (jget raw ''paused'')"
    "1 \<le> po_max_concurrent p"
    using p by (auto simp: parse_policy_raw_def split: sum.splits)
  then show ?thesis using d' raw' parse_windows_all [of entries ws] by auto
qed

text \<open>C15: The worker's gate reads the customer's own settings and fails closed.  If a scan may start
  then the settings parsed; every object among the blackout windows they list parsed and was evaluated to lie
  elsewhere (an entry that is no object is skipped by the code, see \<open>non_object_windows_are_dropped\<close>);
  neither the platform switch nor the customer's own pause is set; fewer other scans of
  that asset are queued or running than the asset may have; and the scan gets the limits of a known
  profile, at most 1500 requests at 15 per second.\<close>

theorem safe_scan_gate_sound:
  assumes "safe_scan_verdict settings scans scan paused now = Inr v" and "sv_allowed v"
  shows "\<exists>p entries. parse_policy settings = Inr p \<and>
    iter_of (jor (jget (as_obj (jget (as_obj settings) ''safe_scanning'')) ''blackout_windows'') (JList [])) = Inr entries \<and>
    list_all2 (\<lambda>d w. parse_window d = Inr w \<and> window_contains w now = Inr False) (objects entries) (po_windows p) \<and>
    \<not> paused \<and> \<not> truthy (jget (as_obj (jget (as_obj settings) ''safe_scanning'')) ''paused'') \<and>
    concurrent_scans_on scans scan < po_max_concurrent p \<and>
    (\<exists>l. sv_limits v = Some l \<and> max_requests l \<le> 1500 \<and> rate_per_second l \<le> 15)"
proof -
  obtain p where p: "parse_policy settings = Inr p"
    and v: "safe_check p now (concurrent_scans_on scans scan) paused True = Inr v"
    using assms by (auto simp: safe_scan_verdict_def refuse_def split: sum.splits scan_error.splits)
  note c = safe_check_allowed [OF v assms(2)] and f = parse_policy_facts [OF p]
  obtain entries where e: "iter_of (jor (jget (as_obj (jget (as_obj settings) ''safe_scanning'')) ''blackout_windows'') (JList [])) = Inr entries"
    "list_all2 (\<lambda>d w. parse_window d = Inr w) (objects entries) (po_windows p)"
    "po_paused p = truthy (jget (as_obj (jget (as_obj settings) ''safe_scanning'')) ''paused'')"
    using f by blast
  have "list_all2 (\<lambda>d w. parse_window d = Inr w \<and> window_contains w now = Inr False) (objects entries) (po_windows p)"
    using e(2) c by (auto simp: list_all2_conv_all_nth list_all_length)
  then show ?thesis using p e(1,3) c policy_limits_bounds [of p] by blast
qed

text \<open>Settings with a blackout from nine to five, asked at midnight.\<close>

definition office_hours :: jval where
  "office_hours = JObj [(''safe_scanning'', JObj [(''blackout_windows'', JList [JObj [(''start_hour'', JInt 9), (''end_hour'', JInt 17)]])])]"

definition some_scan :: scan_ref where "some_scan = \<lparr>sc_id = 1, sc_asset_id = 2, sc_status = ''running''\<rparr>"

lemma safe_scan_gate_sound_witness:
  "sv_allowed (projr (safe_scan_verdict office_hours [] some_scan False 0)) \<and>
   \<not> sv_allowed (projr (safe_scan_verdict office_hours [] some_scan False (10 * 60 * 60 * 1000000))) \<and>
   (\<exists>w. parse_window [(''start_hour'', JInt 9), (''end_hour'', JInt 17)] = Inr w \<and> window_contains w 0 = Inr False)"
proof -
  have allowed: "sv_allowed (projr (safe_scan_verdict office_hours [] some_scan False 0))" by code_simp
  have closed: "\<not> sv_allowed (projr (safe_scan_verdict office_hours [] some_scan False (10 * 60 * 60 * 1000000)))" by code_simp
  have "isl (safe_scan_verdict office_hours [] some_scan False 0) = False" by code_simp
  then obtain v where v: "safe_scan_verdict office_hours [] some_scan False 0 = Inr v"
    by (cases "safe_scan_verdict office_hours [] some_scan False 0") auto
  have "sv_allowed v" using allowed by (simp add: v)
  from safe_scan_gate_sound [OF v this] have
    "\<exists>w. parse_window [(''start_hour'', JInt 9), (''end_hour'', JInt 17)] = Inr w \<and> window_contains w 0 = Inr False"
    by (auto simp: office_hours_def jget_def dict_getdef_def jor_def list_all2_Cons1)
  then show ?thesis using allowed closed by blast
qed

subsection \<open>When a blackout ends\<close>

lemma probe_open_cases:
  "probe_open n ws t = Inr r \<Longrightarrow>
     (case r of
        None \<Rightarrow> (\<forall>j. 1 \<le> j \<and> j \<le> n \<longrightarrow> any_contains ws (t + int j * HALF_HOUR) = Inr True)
      | Some p \<Rightarrow> (\<exists>k. 1 \<le> k \<and> k \<le> n \<and> p = t + int k * HALF_HOUR \<and> any_contains ws p = Inr False \<and>
          (\<forall>j. 1 \<le> j \<and> j < k \<longrightarrow> any_contains ws (t + int j * HALF_HOUR) = Inr True)))"
proof (induction n arbitrary: t r)
  case (Suc n)
  obtain b where b: "any_contains ws (t + HALF_HOUR) = Inr b"
    using Suc.prems by (auto simp: Let_def split: sum.splits)
  have shift: "t + HALF_HOUR + int j * HALF_HOUR = t + int (Suc j) * HALF_HOUR" for j
    by (simp add: distrib_right)
  have all: "(\<forall>j. 1 \<le> j \<and> j \<le> m \<longrightarrow> any_contains ws (t + HALF_HOUR + int j * HALF_HOUR) = Inr True) \<Longrightarrow> b \<Longrightarrow>
      (\<forall>j. 1 \<le> j \<and> j \<le> Suc m \<longrightarrow> any_contains ws (t + int j * HALF_HOUR) = Inr True)" for m
  proof (intro allI impI)
    fix j assume h: "\<forall>j. 1 \<le> j \<and> j \<le> m \<longrightarrow> any_contains ws (t + HALF_HOUR + int j * HALF_HOUR) = Inr True" b
      "1 \<le> j \<and> j \<le> Suc m"
    show "any_contains ws (t + int j * HALF_HOUR) = Inr True"
    proof (cases "j = 1")
      case True
      then show ?thesis using b h(2) by simp
    next
      case False
      then obtain i where "j = Suc i" "1 \<le> i" "i \<le> m" using h(3) by (cases j) auto
      then show ?thesis using h(1) shift [of i] by metis
    qed
  qed
  show ?case
  proof (cases b)
    case False
    then show ?thesis using Suc.prems b by (auto simp: Let_def intro!: exI [of _ 1])
  next
    case True
    then have rec: "probe_open n ws (t + HALF_HOUR) = Inr r" using Suc.prems b by (simp add: Let_def)
    show ?thesis
    proof (cases r)
      case None
      then show ?thesis using Suc.IH [OF rec] all [of n] True by simp
    next
      case (Some p)
      then obtain k where k: "1 \<le> k" "k \<le> n" "p = t + HALF_HOUR + int k * HALF_HOUR" "any_contains ws p = Inr False"
        "\<forall>j. 1 \<le> j \<and> j < k \<longrightarrow> any_contains ws (t + HALF_HOUR + int j * HALF_HOUR) = Inr True"
        using Suc.IH [OF rec] by auto
      then have "\<forall>j. 1 \<le> j \<and> j \<le> k \<longrightarrow> any_contains ws (t + int j * HALF_HOUR) = Inr True"
        using all [of "k - 1"] True by (cases k) auto
      then show ?thesis using k Some shift [of k] by (auto intro!: exI [of _ "Suc k"])
    qed
  qed
qed simp

text \<open>A deferred scan is told when the blackout ends: the answer is the first half-hour step from
  now that lies outside every window, or, when all 192 steps of the next four days are inside one,
  the same time tomorrow.\<close>

theorem next_open_first_open_step:
  assumes "next_open ws t = Inr r"
  shows "(\<exists>k\<ge>1. k \<le> 192 \<and> r = t + int k * HALF_HOUR \<and>
      list_all (\<lambda>w. window_contains w r = Inr False) ws \<and>
      (\<forall>j. 1 \<le> j \<and> j < k \<longrightarrow> any_contains ws (t + int j * HALF_HOUR) = Inr True)) \<or>
    (r = t + 48 * HALF_HOUR \<and> (\<forall>j. 1 \<le> j \<and> j \<le> 192 \<longrightarrow> any_contains ws (t + int j * HALF_HOUR) = Inr True))"
proof -
  obtain p where p: "probe_open 192 ws t = Inr p" and r: "r = (case p of None \<Rightarrow> t + 24 * 3600000000 | Some q \<Rightarrow> q)"
    using assms by (auto simp: next_open_def split: sum.splits option.splits)
  show ?thesis using probe_open_cases [OF p] r
    by (cases p) (auto simp: any_contains_False HALF_HOUR_def)
qed

lemma probe_all_inside:
  "(\<And>j. 1 \<le> j \<Longrightarrow> j \<le> n \<Longrightarrow> any_contains ws (t + int j * HALF_HOUR) = Inr True) \<Longrightarrow> probe_open n ws t = Inr None"
proof (induction n arbitrary: t)
  case (Suc n)
  have "any_contains ws (t + HALF_HOUR) = Inr True" using Suc.prems [of 1] by simp
  moreover have "any_contains ws (t + HALF_HOUR + int j * HALF_HOUR) = Inr True" if "1 \<le> j" "j \<le> n" for j
    using Suc.prems [of "Suc j"] that by (simp add: distrib_right add.assoc)
  then have "probe_open n ws (t + HALF_HOUR) = Inr None" by (rule Suc.IH)
  ultimately show ?case by (simp add: Let_def)
qed simp

text \<open>A weekday freeze from Monday to Friday, all day, seen from Monday at midnight: the search gives up
  after four of its five days and answers Tuesday at midnight, inside the freeze.\<close>

definition weekday_freeze :: window where
  "weekday_freeze = \<lparr>wn_days = [''mon'', ''tue'', ''wed'', ''thu'', ''fri''], wn_start_hour = 0, wn_end_hour = 24,
     wn_utc_offset = Finite 0, wn_label = ''change freeze''\<rparr>"

lemma freeze_contains:
  assumes "4 * 86400000000 \<le> t" "t < 9 * 86400000000"
  shows "window_contains weekday_freeze t = Inr True"
proof -
  have "4 \<le> t div 86400000000" "t div 86400000000 \<le> 8" using assms by linarith+
  then have "t div 86400000000 \<in> {4, 5, 6, 7, 8}" by auto
  then have "weekday t \<in> {0, 1, 2, 3, 4}" unfolding weekday_def by auto
  moreover have "map (\<lambda>d. take 3 (py_lower d)) [''mon'', ''tue'', ''wed'', ''thu'', ''fri''] = [''mon'', ''tue'', ''wed'', ''thu'', ''fri'']"
    by code_simp
  then have "(\<lambda>d. take 3 (py_lower d)) ` set [''mon'', ''tue'', ''wed'', ''thu'', ''fri''] = set [''mon'', ''tue'', ''wed'', ''thu'', ''fri'']"
    by (metis list.set_map)
  moreover have "DAYS ! k \<in> set [''mon'', ''tue'', ''wed'', ''thu'', ''fri'']" if "k \<in> {0, 1, 2, 3, 4}" for k
    using that by (elim insertE) (simp_all add: DAYS_def)
  ultimately have "DAYS ! weekday t \<in> (\<lambda>d. take 3 (py_lower d)) ` set [''mon'', ''tue'', ''wed'', ''thu'', ''fri'']"
    by metis
  then have "in_days weekday_freeze t" unfolding in_days_def weekday_freeze_def by simp
  moreover have "in_hours weekday_freeze (hour_of_day t)"
    using hour_compare(1) [of 0 t] hour_compare(2) [of t 24] local_minute_bounds [of t]
    by (auto simp: in_hours_def weekday_freeze_def pos_imp_zdiv_nonneg_iff div_less_iff_less_mult)
  moreover have "local_time weekday_freeze t = Inr t"
    using assms by (simp add: local_time_def weekday_freeze_def hours_us_def trunc_rat_def datetime_ok_def)
  ultimately show ?thesis by (simp add: window_contains_def)
qed

lemma next_open_inside_freeze:
  "next_open [weekday_freeze] (4 * 86400000000) = Inr (5 * 86400000000) \<and>
   window_contains weekday_freeze (5 * 86400000000) = Inr True"
proof -
  have "any_contains [weekday_freeze] (4 * 86400000000 + int j * HALF_HOUR) = Inr True" if "1 \<le> j" "j \<le> 192" for j
  proof -
    have "int j * HALF_HOUR \<le> 192 * HALF_HOUR" "0 \<le> int j * HALF_HOUR" using that by (simp_all add: HALF_HOUR_def)
    then have "window_contains weekday_freeze (4 * 86400000000 + int j * HALF_HOUR) = Inr True"
      by (intro freeze_contains) (simp_all add: HALF_HOUR_def)
    then show ?thesis by simp
  qed
  then have "probe_open 192 [weekday_freeze] (4 * 86400000000) = Inr None" by (intro probe_all_inside) auto
  then show ?thesis by (simp add: next_open_def freeze_contains)
qed

lemma next_open_first_open_step_witness:
  "any_contains [weekday_freeze] (4 * 86400000000 + 192 * HALF_HOUR) = Inr True"
proof -
  note s = next_open_first_open_step [OF conjunct1 [OF next_open_inside_freeze]]
  show ?thesis using s
  proof (elim disjE exE conjE)
    assume "\<forall>j. 1 \<le> j \<and> j \<le> 192 \<longrightarrow> any_contains [weekday_freeze] (4 * 86400000000 + int j * HALF_HOUR) = Inr True"
    from spec [OF this, of 192] show ?thesis by simp
  qed (use next_open_inside_freeze in auto)
qed

text \<open>Two scans of one asset, both waiting: each sees the other and both are put off.\<close>

lemma two_queued_scans_defer_each_other:
  assumes "parse_policy settings = Inr p" "po_max_concurrent p = 1" "a \<in> set scans" "b \<in> set scans"
    "sc_id a \<noteq> sc_id b" "sc_asset_id a = sc_asset_id b" "sc_status a = ''queued''" "sc_status b = ''queued''"
    "safe_scan_verdict settings scans a False now = Inr v"
  shows "\<not> sv_allowed v"
proof
  assume "sv_allowed v"
  then have "concurrent_scans_on scans a < 1"
    using assms(1,2,9) safe_check_allowed [of p now] by (auto simp: safe_scan_verdict_def)
  moreover have "b \<in> set (filter (\<lambda>s. sc_asset_id s = sc_asset_id a \<and> sc_id s \<noteq> sc_id a \<and>
      sc_status s \<in> {''running'', ''queued''}) scans)"
    using assms by simp
  then have "filter (\<lambda>s. sc_asset_id s = sc_asset_id a \<and> sc_id s \<noteq> sc_id a \<and>
      sc_status s \<in> {''running'', ''queued''}) scans \<noteq> []" by (metis empty_iff list.set(1))
  ultimately show False by (simp add: concurrent_scans_on_def)
qed

text \<open>Days written as one string name no day, so that window never applies.\<close>

lemma days_as_text_never_apply:
  "\<exists>w. parse_window [(''days'', JStr ''mon''), (''start_hour'', JInt 0), (''end_hour'', JInt 24)] = Inr w \<and>
     window_contains w t \<noteq> Inr True"
proof -
  let ?w = "\<lparr>wn_days = [''m'', ''o'', ''n''], wn_start_hour = 0, wn_end_hour = 24, wn_utc_offset = Finite 0, wn_label = []\<rparr>"
  have p: "parse_window [(''days'', JStr ''mon''), (''start_hour'', JInt 0), (''end_hour'', JInt 24)] = Inr ?w"
    using to_float_JInt_small [of 0] by (simp add: parse_window_def jor_def jget_or_def)
  have l: "take 3 (py_lower [c]) = [to_lower c]" for c by (simp add: py_lower_def)
  have "weekday t' < 7" for t' by (simp add: weekday_def nat_less_iff)
  moreover have "length DAYS = 7" by (simp add: DAYS_def)
  ultimately have "DAYS ! weekday t' \<in> set DAYS" for t' by (metis nth_mem)
  moreover have "list_all (\<lambda>d. length d = 3) DAYS" by (simp add: DAYS_def)
  ultimately have "length (DAYS ! weekday t') = 3" for t' unfolding list_all_iff by blast
  then have "DAYS ! weekday t' \<noteq> [c]" for t' c by (metis One_nat_def length_Cons list.size(3) numeral_eq_one_iff semiring_norm(86))
  then have "\<not> in_days ?w t'" for t' by (auto simp: in_days_def l)
  then show ?thesis using p by (auto simp: window_contains_def split: sum.splits)
qed

lemma non_object_windows_are_dropped: "parse_windows [JStr ''mon 22:00-06:00''] = Inr []"
  by simp

end
