(* ===== verification/PyJson.thy ===== *)
theory PyJson
  imports PyUuid
begin

text \<open>
  \<open>json.dumps\<close> as the program calls it for identities and signed bodies: sorted keys, no white space,
  everything outside printable ASCII escaped.
\<close>

definition json_hex4 :: "nat \<Rightarrow> string" where
  "json_hex4 n = hex_string 4 (int n)"

definition json_char :: "char \<Rightarrow> string" where
  "json_char c =
     (let n = ordc c; bs = char_of (92::nat) in
      if n = 34 \<or> n = 92 then [bs, c]
      else if n = 10 then [bs, CHR ''n''] else if n = 13 then [bs, CHR ''r'']
      else if n = 9 then [bs, CHR ''t''] else if n = 12 then [bs, CHR ''f'']
      else if n = 8 then [bs, CHR ''b'']
      else if n < 32 \<or> n > 126 then bs # CHR ''u'' # json_hex4 n
      else [c])"

definition json_str :: "string \<Rightarrow> string" where
  "json_str s = char_of (34::nat) # concat (map json_char s) @ [char_of (34::nat)]"

fun json_dumps :: "jval \<Rightarrow> string" where
  "json_dumps JNull = ''null''"
| "json_dumps (JBool b) = (if b then ''true'' else ''false'')"
| "json_dumps (JInt i) = str_int i"
| "json_dumps (JFloat x) = repr_float x"
| "json_dumps (JStr s) = json_str s"
| "json_dumps (JList vs) = ''['' @ join_with '','' (map json_dumps vs) @ '']''"
| "json_dumps (JObj d) =
     CHR 0x7B # join_with '','' (map snd (sort_key fst (map (\<lambda>(k, v). (k, json_str k @ '':'' @ json_dumps v)) d)))
       @ [CHR 0x7D]"

end
