(* ===== verification/Findings.thy ===== *)
theory Findings
  imports PyJson Scoring Retest
begin

text \<open>
  \<open>guardian_core/findings.py\<close> and the worker's \<open>normalize.py\<close>: the shape every engine reports, its wire
  form between the planes, its identity across scans, and the persisted row it becomes.  The optional
  scalar fields of a report are kept as the JSON values they arrive as.  SHA-256 is a parameter
  \<open>sha256_hex\<close>, the hexadecimal digest of a text.
\<close>

subsection \<open>Reports\<close>

record raw_finding =
  rw_engine :: engine_key
  rw_title :: string
  rw_category :: string
  rw_description :: string
  rw_base_severity :: severity
  rw_confidence :: string
  rw_cwe_id :: jval
  rw_owasp_ref :: jval
  rw_cve_ids :: "jval list"
  rw_cvss_base :: jval
  rw_epss_score :: jval
  rw_kev :: bool
  rw_exploit_maturity :: jval
  rw_ransomware :: bool
  rw_location :: jobj
  rw_evidence :: jobj
  rw_references :: jobj

definition raw_to_dict :: "raw_finding \<Rightarrow> jobj" where
  "raw_to_dict r =
     [(''engine'', JStr (engine_key_value (rw_engine r))), (''title'', JStr (rw_title r)),
      (''category'', JStr (rw_category r)), (''description'', JStr (rw_description r)),
      (''base_severity'', JStr (severity_value (rw_base_severity r))), (''confidence'', JStr (rw_confidence r)),
      (''cwe_id'', rw_cwe_id r), (''owasp_ref'', rw_owasp_ref r), (''cve_ids'', JList (rw_cve_ids r)),
      (''cvss_base'', rw_cvss_base r), (''epss_score'', rw_epss_score r), (''kev'', JBool (rw_kev r)),
      (''exploit_maturity'', rw_exploit_maturity r), (''ransomware'', JBool (rw_ransomware r)),
      (''location'', JObj (rw_location r)), (''evidence'', JObj (rw_evidence r)),
      (''references'', JObj (rw_references r))]"

text \<open>\<open>dict(x or {})\<close> of a wire value: objects only; anything else that is true raises.\<close>

fun dict_of :: "jval \<Rightarrow> py_error + jobj" where
  "dict_of (JObj d) = Inr d"
| "dict_of v = (if truthy v then Inl (case v of JStr _ \<Rightarrow> ValueError | JList _ \<Rightarrow> ValueError | _ \<Rightarrow> TypeError) else Inr [])"

definition enum_at :: "('e \<Rightarrow> string) \<Rightarrow> 'e list \<Rightarrow> jval \<Rightarrow> py_error + 'e" where
  "enum_at val members v =
     (case v of JStr s \<Rightarrow> (case enum_of val members s of Some e \<Rightarrow> Inr e | None \<Rightarrow> Inl ValueError) | _ \<Rightarrow> Inl ValueError)"

definition get_default :: "jobj \<Rightarrow> string \<Rightarrow> jval \<Rightarrow> jval" where
  "get_default d k v = (case dict_get d k of Some x \<Rightarrow> x | None \<Rightarrow> v)"

definition required :: "jobj \<Rightarrow> string \<Rightarrow> py_error + jval" where
  "required d k = (case dict_get d k of Some x \<Rightarrow> Inr x | None \<Rightarrow> Inl KeyError)"

definition raw_from_dict :: "jobj \<Rightarrow> py_error + raw_finding" where
  "raw_from_dict d =
     bind_r (required d ''engine'') (\<lambda>ev.
     bind_r (enum_at engine_key_value engine_key_members ev) (\<lambda>eng.
     bind_r (required d ''title'') (\<lambda>title.
     bind_r (required d ''category'') (\<lambda>category.
     bind_r (enum_at severity_value severity_members (get_default d ''base_severity'' (JStr (severity_value SevMedium)))) (\<lambda>sev.
     bind_r (iter_of (jor (get_default d ''cve_ids'' (JList [])) (JList []))) (\<lambda>cves.
     bind_r (dict_of (get_default d ''location'' (JObj []))) (\<lambda>loc.
     bind_r (dict_of (get_default d ''evidence'' (JObj []))) (\<lambda>evd.
     bind_r (dict_of (get_default d ''references'' (JObj []))) (\<lambda>refs.
       Inr \<lparr>rw_engine = eng, rw_title = py_str title, rw_category = py_str category,
            rw_description = py_str (get_default d ''description'' (JStr [])), rw_base_severity = sev,
            rw_confidence = py_str (get_default d ''confidence'' (JStr ''medium'')),
            rw_cwe_id = jget d ''cwe_id'', rw_owasp_ref = jget d ''owasp_ref'', rw_cve_ids = cves,
            rw_cvss_base = jget d ''cvss_base'', rw_epss_score = jget d ''epss_score'',
            rw_kev = truthy (get_default d ''kev'' (JBool False)),
            rw_exploit_maturity = jget d ''exploit_maturity'',
            rw_ransomware = truthy (get_default d ''ransomware'' (JBool False)),
            rw_location = loc, rw_evidence = evd, rw_references = refs\<rparr>)))))))))"

subsection \<open>Identity\<close>

definition identity_key :: "raw_finding \<Rightarrow> jobj" where
  "identity_key r =
     [(''engine'', JStr (engine_key_value (rw_engine r))), (''category'', JStr (rw_category r)),
      (''title'', JStr (rw_title r)),
      (''path'', jor (jor (jget (rw_location r) ''path'') (jget (rw_location r) ''endpoint'')) (jget (rw_location r) ''resource'')),
      (''rule'', jor (jget (rw_location r) ''rule'') (rw_cwe_id r))]"

definition fingerprint :: "(string \<Rightarrow> string) \<Rightarrow> raw_finding \<Rightarrow> string" where
  "fingerprint sha256_hex r = take 32 (sha256_hex (json_dumps (JObj (identity_key r))))"

subsection \<open>The persisted finding\<close>

record finding = finding_row +
  fd_engine_run_id :: uuid
  fd_title :: string
  fd_description :: string
  fd_cwe_id :: jval
  fd_owasp_ref :: jval
  fd_cve_ids :: "jval list"
  fd_cvss_base :: jval
  fd_epss_score :: jval
  fd_kev :: bool
  fd_exploit_maturity :: jval
  fd_ransomware :: bool
  fd_severity :: severity
  fd_risk_score :: int
  fd_risk_rationale :: "rationale_line list"
  fd_confidence :: string
  fd_source :: string
  fd_evidence :: jobj
  fd_secret_correlation_id :: "string option"
  fd_references :: jobj

record finding_context =
  fc_tenant_id :: uuid
  fc_customer_id :: uuid
  fc_scan_id :: uuid
  fc_engine_run_id :: uuid
  fc_asset_id :: uuid
  fc_exposure :: string
  fc_asset_criticality :: string
  fc_business_impact :: string
  fc_source :: string

text \<open>What the scoring code sees of an optional number and of the maturity: it compares the one with
  bounds and looks the other up, both of which raise on values of the wrong kind.\<close>

fun score_number :: "jval \<Rightarrow> py_error + rat option" where
  "score_number JNull = Inr None"
| "score_number (JInt i) = Inr (Some (of_int i))"
| "score_number (JFloat x) = Inr (Some x)"
| "score_number (JBool b) = Inr (Some (if b then 1 else 0))"
| "score_number _ = Inl TypeError"

fun maturity_text :: "jval \<Rightarrow> py_error + string option" where
  "maturity_text (JStr s) = Inr (Some s)"
| "maturity_text (JList vs) = (if vs = [] then Inr None else Inl TypeError)"
| "maturity_text (JObj d) = (if d = [] then Inr None else Inl TypeError)"
| "maturity_text _ = Inr None"

definition score_inputs_of :: "raw_finding \<Rightarrow> finding_context \<Rightarrow> py_error + score_inputs" where
  "score_inputs_of r c =
     bind_r (score_number (rw_cvss_base r)) (\<lambda>cvss. bind_r (score_number (rw_epss_score r)) (\<lambda>epss.
     bind_r (maturity_text (rw_exploit_maturity r)) (\<lambda>m.
        Inr \<lparr>base_severity = rw_base_severity r, cvss_base = cvss, epss_score = epss, kev = rw_kev r,
             exploit_maturity = m, ransomware = rw_ransomware r, exposure = fc_exposure c,
             asset_criticality = fc_asset_criticality c, business_impact = fc_business_impact c\<rparr>)))"

text \<open>\<open>evidence.pop("secret_id_hmac", None)\<close>\<close>

definition dict_pop :: "string \<Rightarrow> jobj \<Rightarrow> jval \<times> jobj" where
  "dict_pop k d = (jget d k, filter (\<lambda>(k', v). k' \<noteq> k) d)"

definition secret_id_of :: "jval \<Rightarrow> string option" where
  "secret_id_of v = (case v of JStr s \<Rightarrow> if s = [] then None else Some s | _ \<Rightarrow> None)"

definition to_finding ::
    "(string \<Rightarrow> string) \<Rightarrow> uuid \<Rightarrow> raw_finding \<Rightarrow> finding_context \<Rightarrow> py_error + finding" where
  "to_finding sha256_hex new_id r c =
     bind_r (score_inputs_of r c) (\<lambda>inp.
      let risk = assess inp; (sid, evidence) = dict_pop ''secret_id_hmac'' (rw_evidence r) in
      Inr \<lparr>fr_id = new_id, fr_tenant_id = fc_tenant_id c, fr_customer_id = fc_customer_id c,
           fr_asset_id = fc_asset_id c, fr_scan_id = fc_scan_id c, fr_fingerprint = fingerprint sha256_hex r,
           fr_status = ''open'', fr_category = rw_category r, fr_location = rw_location r,
           fr_reopened_count = None, fr_last_verified_at = None, fr_verdict = None,
           fd_engine_run_id = fc_engine_run_id c, fd_title = rw_title r, fd_description = rw_description r,
           fd_cwe_id = rw_cwe_id r, fd_owasp_ref = rw_owasp_ref r, fd_cve_ids = rw_cve_ids r,
           fd_cvss_base = rw_cvss_base r, fd_epss_score = rw_epss_score r, fd_kev = rw_kev r,
           fd_exploit_maturity = rw_exploit_maturity r, fd_ransomware = rw_ransomware r,
           fd_severity = ra_severity risk, fd_risk_score = ra_score risk, fd_risk_rationale = ra_rationale risk,
           fd_confidence = rw_confidence r, fd_source = fc_source c, fd_evidence = evidence,
           fd_secret_correlation_id = secret_id_of sid, fd_references = rw_references r\<rparr>)"

definition merge_sighting :: "finding \<Rightarrow> finding \<Rightarrow> uuid \<Rightarrow> uuid \<Rightarrow> finding" where
  "merge_sighting existing fresh scan_id engine_run_id =
     existing\<lparr>fd_title := fd_title fresh, fd_description := fd_description fresh, fr_category := fr_category fresh,
        fd_cwe_id := fd_cwe_id fresh, fd_owasp_ref := fd_owasp_ref fresh, fd_cve_ids := fd_cve_ids fresh,
        fd_cvss_base := fd_cvss_base fresh, fd_epss_score := fd_epss_score fresh, fd_kev := fd_kev fresh,
        fd_exploit_maturity := fd_exploit_maturity fresh, fd_ransomware := fd_ransomware fresh,
        fd_severity := fd_severity fresh, fd_risk_score := fd_risk_score fresh,
        fd_risk_rationale := fd_risk_rationale fresh, fd_confidence := fd_confidence fresh,
        fr_location := fr_location fresh, fd_evidence := fd_evidence fresh,
        fd_secret_correlation_id := fd_secret_correlation_id fresh, fd_references := fd_references fresh,
        fr_scan_id := scan_id, fd_engine_run_id := engine_run_id\<rparr>"

definition severity_counts :: "finding list \<Rightarrow> (string, int) odict" where
  "severity_counts fs =
     dict_set ''total'' (int (length fs))
       (fold (\<lambda>f d. dict_set (severity_value (fd_severity f)) (dict_getdef d (severity_value (fd_severity f)) 0 + 1) d) fs
          [(''critical'', 0), (''high'', 0), (''medium'', 0), (''low'', 0), (''info'', 0)])"

subsection \<open>Lemmas\<close>

lemma enum_at_engine [simp]: "enum_at engine_key_value engine_key_members (JStr (engine_key_value e)) = Inr e"
  by (simp add: enum_at_def engine_key_enum.of_value)

lemma enum_at_severity [simp]: "enum_at severity_value severity_members (JStr (severity_value s)) = Inr s"
  by (simp add: enum_at_def severity_enum.of_value)

lemma iter_jor_list [simp]: "iter_of (jor (JList vs) (JList [])) = Inr vs"
  by (simp add: jor_def)

text \<open>C11: A report crosses the plane boundary unharmed: decoding the wire form of any report gives that
  report back, every field included, and a wire form whose engine or severity is not in the
  vocabulary is refused with a \<open>ValueError\<close> rather than relabelled.\<close>

theorem raw_finding_roundtrip:
  "raw_from_dict (raw_to_dict r) = Inr r \<and>
   (\<forall>s. (enum_of engine_key_value engine_key_members s = None) \<le>
      (raw_from_dict (dict_set ''engine'' (JStr s) (raw_to_dict r)) = Inl ValueError)) \<and>
   (\<forall>s. (enum_of severity_value severity_members s = None) \<le>
      (raw_from_dict (dict_set ''base_severity'' (JStr s) (raw_to_dict r)) = Inl ValueError))"
proof (intro conjI)
  show "raw_from_dict (raw_to_dict r) = Inr r"
    by (simp add: raw_from_dict_def raw_to_dict_def required_def get_default_def)
  show "\<forall>s. (enum_of engine_key_value engine_key_members s = None) \<le>
      (raw_from_dict (dict_set ''engine'' (JStr s) (raw_to_dict r)) = Inl ValueError)"
    by (simp add: raw_from_dict_def raw_to_dict_def required_def enum_at_def)
  show "\<forall>s. (enum_of severity_value severity_members s = None) \<le>
      (raw_from_dict (dict_set ''base_severity'' (JStr s) (raw_to_dict r)) = Inl ValueError)"
    by (simp add: raw_from_dict_def raw_to_dict_def required_def get_default_def enum_at_def
        engine_key_enum.of_value)
qed

text \<open>The identity looks at engine, category, title, place and rule only.\<close>

lemma fingerprint_stable:
  "identity_key r = identity_key r' \<Longrightarrow> fingerprint h r = fingerprint h r'"
  by (simp add: fingerprint_def)

lemma to_finding_Inr:
  assumes "to_finding h i r c = Inr f"
  shows "fr_fingerprint f = fingerprint h r \<and> fr_status f = ''open'' \<and> fr_id f = i \<and> fr_asset_id f = fc_asset_id c \<and>
    fr_tenant_id f = fc_tenant_id c \<and> fr_scan_id f = fc_scan_id c \<and> fr_location f = rw_location r \<and>
    fr_category f = rw_category r \<and>
    fd_evidence f = filter (\<lambda>(k, v). k \<noteq> ''secret_id_hmac'') (rw_evidence r) \<and>
    (\<exists>inp. score_inputs_of r c = Inr inp \<and> fd_risk_score f = ra_score (assess inp) \<and> fd_severity f = ra_severity (assess inp))"
  using assms by (auto simp: to_finding_def Let_def dict_pop_def)

text \<open>The keyed identity of a detected secret never reaches the evidence a customer is shown: whatever
  an engine reports, the persisted finding's evidence has no such entry, keeps every other entry in
  place, and folding a new sighting into an old finding keeps it that way.\<close>

theorem secret_identity_never_in_evidence:
  assumes "to_finding h i r c = Inr f"
  shows "''secret_id_hmac'' \<notin> fst ` set (fd_evidence f) \<and>
    ''secret_id_hmac'' \<notin> fst ` set (fd_evidence (merge_sighting existing f scan_id run_id)) \<and>
    fd_evidence f = filter (\<lambda>(k, v). k \<noteq> ''secret_id_hmac'') (rw_evidence r)"
  using to_finding_Inr [OF assms] by (auto simp: merge_sighting_def)

text \<open>A rescan reports what it sees and overturns nothing a person decided.  Folding a sighting into the
  finding on file keeps its identity, its status, its reopening count and its verification state,
  takes every observed field from the sighting, and credits the observing scan; a finding that
  already agrees is left as it is but for that credit.\<close>

theorem merge_keeps_what_people_own:
  "(let f = merge_sighting old fresh s e in
     fr_id f = fr_id old \<and> fr_status f = fr_status old \<and> fr_reopened_count f = fr_reopened_count old \<and>
     fr_last_verified_at f = fr_last_verified_at old \<and> fr_verdict f = fr_verdict old \<and>
     fr_fingerprint f = fr_fingerprint old \<and> fr_tenant_id f = fr_tenant_id old \<and> fr_asset_id f = fr_asset_id old \<and>
     fd_source f = fd_source old \<and> fd_severity f = fd_severity fresh \<and> fd_risk_score f = fd_risk_score fresh \<and>
     fr_location f = fr_location fresh \<and> fd_evidence f = fd_evidence fresh \<and> fr_scan_id f = s \<and>
     merge_sighting f fresh s e = f \<and> merge_sighting old old s e = old\<lparr>fr_scan_id := s, fd_engine_run_id := e\<rparr>)"
  by (simp add: merge_sighting_def Let_def)

lemma dict_getdef_set [simp]: "dict_getdef (dict_set k v d) k' w = (if k' = k then v else dict_getdef d k' w)"
  by (simp add: dict_getdef_def)

lemma fold_counts:
  fixes d :: "(string, int) odict"
  shows "dict_getdef (fold (\<lambda>f d. dict_set (g f) (dict_getdef d (g f) 0 + 1) d) fs d) k 0 =
     dict_getdef d k 0 + int (length (filter (\<lambda>f. g f = k) fs))"
  by (induction fs arbitrary: d) auto

text \<open>The statistics of a scan count every finding once, under its severity.\<close>

lemma severity_counts_exact:
  "dict_getdef (severity_counts fs) (severity_value s) 0 = int (length (filter (\<lambda>f. fd_severity f = s) fs))"
  "dict_get (severity_counts fs) ''total'' = Some (int (length fs))"
proof -
  have inj: "severity_value a = severity_value b \<longleftrightarrow> a = b" for a b using severity_enum.value_inj by blast
  have z: "dict_getdef [(''critical'', 0), (''high'', 0), (''medium'', 0), (''low'', 0), (''info'', 0)] (severity_value s) (0 :: int) = 0"
    by (cases s) (simp_all add: dict_getdef_def)
  have t: "severity_value s \<noteq> ''total''" by (cases s) simp_all
  show "dict_getdef (severity_counts fs) (severity_value s) 0 = int (length (filter (\<lambda>f. fd_severity f = s) fs))"
    unfolding severity_counts_def dict_getdef_set using t by (simp only: if_False fold_counts z inj add_0)
  show "dict_get (severity_counts fs) ''total'' = Some (int (length fs))"
    by (simp add: severity_counts_def)
qed

definition demo_raw :: raw_finding where
  "demo_raw =
     \<lparr>rw_engine = EngSecrets, rw_title = ''Key'', rw_category = ''secret'', rw_description = [], rw_base_severity = SevHigh,
      rw_confidence = ''high'', rw_cwe_id = JNull, rw_owasp_ref = JNull, rw_cve_ids = [], rw_cvss_base = JNull,
      rw_epss_score = JNull, rw_kev = False, rw_exploit_maturity = JNull, rw_ransomware = False, rw_location = [],
      rw_evidence = [(''secret_id_hmac'', JStr ''ab''), (''line'', JInt 3)], rw_references = []\<rparr>"

definition demo_context :: finding_context where
  "demo_context = \<lparr>fc_tenant_id = 1, fc_customer_id = 2, fc_scan_id = 3, fc_engine_run_id = 4, fc_asset_id = 5,
     fc_exposure = ''public'', fc_asset_criticality = ''high'', fc_business_impact = ''medium'', fc_source = ''automated''\<rparr>"

lemma secret_identity_never_in_evidence_witness:
  "fd_evidence (projr (to_finding id 9 demo_raw demo_context)) = [(''line'', JInt 3)]"
proof -
  obtain f where f: "to_finding id 9 demo_raw demo_context = Inr f"
    by (simp add: to_finding_def score_inputs_of_def demo_raw_def Let_def dict_pop_def)
  show ?thesis using secret_identity_never_in_evidence [OF f] f by (simp add: demo_raw_def)
qed

end
