(* ===== verification/PyNet.thy ===== *)
theory PyNet
  imports PyUuid
begin

text \<open>
  What the program uses of Python's \<open>ipaddress\<close> and \<open>urllib.parse\<close>: reading addresses and
  networks from text, membership, the text of an address, and the parts of a URL the code looks at.
\<close>

subsection \<open>Addresses\<close>

datatype ip_addr = V4 int | V6 int "string option"

definition octet :: "string \<Rightarrow> int option" where
  "octet s =
     (if str_isdigit s \<and> length s \<le> 3 \<and> \<not> (s \<noteq> ''0'' \<and> hd s = CHR ''0'') \<and> int_of_digits s \<le> 255
      then Some (int_of_digits s) else None)"

definition ip4_int :: "string \<Rightarrow> int option" where
  "ip4_int s =
     (case map octet (split_on (CHR ''.'') s) of
        [Some a, Some b, Some c, Some d] \<Rightarrow> Some (((a * 256 + b) * 256 + c) * 256 + d)
      | _ \<Rightarrow> None)"

definition hextet :: "string \<Rightarrow> int option" where
  "hextet s = (if hex_digits_ok s \<and> length s \<le> 4 then Some (hex_number s) else None)"

fun hextets :: "string list \<Rightarrow> int option" where
  "hextets [] = Some 0"
| "hextets (p # ps) =
     (case (hextet p, hextets ps) of
        (Some h, Some r) \<Rightarrow> Some (h * 65536 ^ length ps + r)
      | _ \<Rightarrow> None)"

text \<open>Embedded IPv4 in the last part becomes two groups of hexadecimal digits.\<close>

definition hex_text :: "int \<Rightarrow> string" where
  "hex_text n = (let s = dropWhile (\<lambda>c. c = CHR ''0'') (hex_string 4 n) in if s = [] then ''0'' else s)"

definition expand_ip4 :: "string list \<Rightarrow> string list option" where
  "expand_ip4 parts =
     (if CHR ''.'' \<in> set (last parts)
      then (case ip4_int (last parts) of None \<Rightarrow> None
        | Some n \<Rightarrow> Some (butlast parts @ [hex_text (n div 65536), hex_text (n mod 65536)]))
      else Some parts)"

text \<open>Positions of the empty groups strictly inside: more than one means two \<open>::\<close>.\<close>

definition inner_gaps :: "string list \<Rightarrow> nat list" where
  "inner_gaps parts = filter (\<lambda>i. parts ! i = []) [1..<length parts - 1]"

definition ip6_int :: "string \<Rightarrow> int option" where
  "ip6_int s =
     (let parts0 = split_on (CHR '':'') s in
      if s = [] \<or> length parts0 < 3 then None
      else case expand_ip4 parts0 of None \<Rightarrow> None
      | Some parts \<Rightarrow>
        if length parts > 9 then None
        else case inner_gaps parts of
          [] \<Rightarrow> if length parts \<noteq> 8 then None else hextets parts
        | [k] \<Rightarrow>
          (let hi = (if hd parts = [] then k - 1 else k);
               lo = (if last parts = [] then length parts - k - 2 else length parts - k - 1) in
           if hd parts = [] \<and> hi \<noteq> 0 \<or> last parts = [] \<and> lo \<noteq> 0 \<or> hi + lo > 7 then None
           else (case (hextets (take hi parts), hextets (drop (length parts - lo) parts)) of
               (Some h, Some l) \<Rightarrow> Some (h * 65536 ^ (8 - hi) + l)
             | _ \<Rightarrow> None))
        | _ \<Rightarrow> None)"

definition parse_ip6 :: "string \<Rightarrow> ip_addr option" where
  "parse_ip6 s =
     (let (addr, sep, scope) = partition_on (CHR ''%'') s in
      if sep \<and> (scope = [] \<or> CHR ''%'' \<in> set scope) then None
      else map_option (\<lambda>n. V6 n (if sep then Some scope else None)) (ip6_int addr))"

definition parse_ip :: "string \<Rightarrow> ip_addr option" where
  "parse_ip s =
     (if CHR ''/'' \<in> set s then None
      else case ip4_int s of Some n \<Rightarrow> Some (V4 n) | None \<Rightarrow> parse_ip6 s)"

subsection \<open>Networks\<close>

datatype ip_network = Net4 int nat | Net6 int nat

definition prefix_string :: "nat \<Rightarrow> string \<Rightarrow> nat option" where
  "prefix_string bits s =
     (if str_isdigit s \<and> int_of_digits s \<le> int bits then Some (nat (int_of_digits s)) else None)"

text \<open>The prefix length a dotted mask stands for, given as a netmask or as a host mask.\<close>

definition mask_prefix :: "int \<Rightarrow> nat option" where
  "mask_prefix m = find (\<lambda>p. 2 ^ 32 - 2 ^ (32 - p) = m) [0..<33]"

definition mask4 :: "string \<Rightarrow> nat option" where
  "mask4 s =
     (case prefix_string 32 s of Some p \<Rightarrow> Some p
      | None \<Rightarrow> (case ip4_int s of None \<Rightarrow> None
          | Some m \<Rightarrow> (case mask_prefix m of Some p \<Rightarrow> Some p | None \<Rightarrow> mask_prefix (2 ^ 32 - 1 - m))))"

text \<open>\<open>ip_network(s, strict=False)\<close>: the host bits are dropped.\<close>

definition parse_network :: "string \<Rightarrow> ip_network option" where
  "parse_network s =
     (case split_on (CHR ''/'') s of
        [a] \<Rightarrow> (case ip4_int a of Some n \<Rightarrow> Some (Net4 n 32)
             | None \<Rightarrow> (case parse_ip6 a of Some (V6 n sc) \<Rightarrow> Some (Net6 n 128) | _ \<Rightarrow> None))
      | [a, m] \<Rightarrow>
          (case (ip4_int a, mask4 m) of (Some n, Some p) \<Rightarrow> Some (Net4 (n div 2 ^ (32 - p) * 2 ^ (32 - p)) p)
           | _ \<Rightarrow> (case (parse_ip6 a, prefix_string 128 m) of
               (Some (V6 n sc), Some p) \<Rightarrow> Some (Net6 (n div 2 ^ (128 - p) * 2 ^ (128 - p)) p)
             | _ \<Rightarrow> None))
      | _ \<Rightarrow> None)"

fun in_network :: "ip_addr \<Rightarrow> ip_network \<Rightarrow> bool" where
  "in_network (V4 n) (Net4 base p) = (n div 2 ^ (32 - p) * 2 ^ (32 - p) = base)"
| "in_network (V6 n sc) (Net6 base p) = (n div 2 ^ (128 - p) * 2 ^ (128 - p) = base)"
| "in_network _ _ = False"

subsection \<open>Text of an address\<close>

definition str_ip4 :: "int \<Rightarrow> string" where
  "str_ip4 n = join_with ''.'' (map str_int [n div 16777216 mod 256, n div 65536 mod 256, n div 256 mod 256, n mod 256])"

definition groups6 :: "int \<Rightarrow> int list" where
  "groups6 n = map (\<lambda>i. n div 65536 ^ (7 - i) mod 65536) [0..<8]"

text \<open>The first longest run of zero groups, when it has at least two, is what \<open>::\<close> stands for.\<close>

definition zero_run :: "int list \<Rightarrow> nat \<Rightarrow> nat" where
  "zero_run gs i = length (takeWhile (\<lambda>g. g = 0) (drop i gs))"

definition best_run :: "int list \<Rightarrow> nat \<times> nat" where
  "best_run gs = foldl (\<lambda>(b, l) i. if zero_run gs i > l then (i, zero_run gs i) else (b, l)) (0, 0) [0..<length gs]"

definition str_ip6 :: "int \<Rightarrow> string" where
  "str_ip6 n =
     (let gs = groups6 n; (b, l) = best_run gs in
      if l > 1
      then join_with '':'' (map hex_text (take b gs)) @ ''::'' @ join_with '':'' (map hex_text (drop (b + l) gs))
      else join_with '':'' (map hex_text gs))"

fun str_ip :: "ip_addr \<Rightarrow> string" where
  "str_ip (V4 n) = str_ip4 n"
| "str_ip (V6 n None) = str_ip6 n"
| "str_ip (V6 n (Some sc)) = str_ip6 n @ ''%'' @ sc"

text \<open>The IPv4 address an IPv6 one carries: mapped, 6to4, or the client of Teredo.\<close>

definition ipv4_mapped :: "int \<Rightarrow> int option" where
  "ipv4_mapped n = (if n div 2 ^ 32 = 65535 then Some (n mod 2 ^ 32) else None)"

definition sixtofour :: "int \<Rightarrow> int option" where
  "sixtofour n = (if n div 2 ^ 112 = 8194 then Some (n div 2 ^ 80 mod 2 ^ 32) else None)"

definition teredo_client :: "int \<Rightarrow> int option" where
  "teredo_client n = (if n div 2 ^ 96 = 536936448 then Some (2 ^ 32 - 1 - n mod 2 ^ 32) else None)"

subsection \<open>URLs\<close>

text \<open>
  \<open>urlsplit\<close>: leading control characters and spaces go, tabs and line breaks are removed, a scheme is
  what stands before the first colon when it looks like one, and the network location is what
  follows two slashes up to the next delimiter.  \<open>None\<close> is the \<open>ValueError\<close> of a malformed bracket.
\<close>

definition scheme_char :: "char \<Rightarrow> bool" where
  "scheme_char c \<longleftrightarrow> is_alnum c \<or> c \<in> set ''+-.''"

definition url_clean :: "string \<Rightarrow> string" where
  "url_clean s = filter (\<lambda>c. ordc c \<notin> {9, 10, 13}) (dropWhile (\<lambda>c. ordc c \<le> 32) s)"

definition url_scheme_rest :: "string \<Rightarrow> string \<times> string" where
  "url_scheme_rest s =
     (let (h, found, t) = partition_on (CHR '':'') s in
      if found \<and> h \<noteq> [] \<and> is_alpha (hd h) \<and> list_all scheme_char h then (py_lower h, t) else ([], s))"

definition url_netloc :: "string \<Rightarrow> string" where
  "url_netloc rest =
     (if startswith rest ''//'' then takeWhile (\<lambda>c. c \<notin> set ''/?#'') (drop 2 rest) else [])"

definition host_info :: "string \<Rightarrow> string" where
  "host_info netloc = snd (snd (rpartition_on (CHR ''@'') netloc))"

definition future_host :: "string \<Rightarrow> bool" where
  "future_host h =
     (let (v, dot, rest) = partition_on (CHR ''.'') (tl h) in
      dot \<and> hex_digits_ok v \<and> rest \<noteq> [] \<and> list_all (\<lambda>c. ordc c \<noteq> 10) rest)"

definition bracketed_ok :: "string \<Rightarrow> bool" where
  "bracketed_ok h =
     (if startswith h ''v'' then future_host h
      else case parse_ip h of Some (V6 n sc) \<Rightarrow> True | _ \<Rightarrow> False)"

definition netloc_ok :: "string \<Rightarrow> bool" where
  "netloc_ok netloc =
     (if CHR ''['' \<in> set netloc \<or> CHR '']'' \<in> set netloc
      then CHR ''['' \<in> set netloc \<and> CHR '']'' \<in> set netloc \<and>
        (let (pre_br, open_br, bracketed) = partition_on (CHR ''['') (host_info netloc) in
         if open_br
         then pre_br = [] \<and>
           (let (h, close_br, port) = partition_on (CHR '']'') bracketed in
            (port = [] \<or> hd port = CHR '':'') \<and> bracketed_ok h)
         else bracketed_ok (fst (partition_on (CHR '':'') (host_info netloc))))
      else True)"

definition url_host_of_netloc :: "string \<Rightarrow> string option" where
  "url_host_of_netloc netloc =
     (let (pre_br, open_br, bracketed) = partition_on (CHR ''['') (host_info netloc);
          h = (if open_br then fst (partition_on (CHR '']'') bracketed)
               else fst (partition_on (CHR '':'') (host_info netloc)))
      in if h = [] then None
         else let (name, pc, zone) = partition_on (CHR ''%'') h
           in Some (py_lower name @ (if pc then ''%'' else []) @ zone))"

record url_parts =
  url_scheme :: string
  url_hostname :: "string option"
  url_username :: "string option"
  url_password :: "string option"

definition urlparse :: "string \<Rightarrow> url_parts option" where
  "urlparse s =
     (let (scheme, rest) = url_scheme_rest (url_clean s); netloc = url_netloc rest;
          (user, have_user, hi) = rpartition_on (CHR ''@'') netloc;
          (name, have_pw, pw) = partition_on (CHR '':'') user
      in if \<not> netloc_ok netloc then None
         else Some \<lparr>url_scheme = scheme, url_hostname = url_host_of_netloc netloc,
           url_username = (if have_user then Some name else None),
           url_password = (if have_user \<and> have_pw then Some pw else None)\<rparr>)"

end
