(* ===== verification/Authorization.thy ===== *)
theory Authorization
  imports PyNet
begin

text \<open>
  \<open>guardian_core/authorization.py\<close> with its two callers, the scan gate \<open>_authorized\<close> of the worker and
  the discovery gate of \<open>discovery/authorization.py\<close>: whether a target may be touched at all.  An
  authorization names an asset or lists targets, is good for a plane (network or artifact) by its
  method, and counts only inside its validity and while it is not revoked.
\<close>

subsection \<open>Authorizations\<close>

definition NETWORK_METHODS :: "string set" where
  "NETWORK_METHODS = {''active_recon'', ''ownership_verified''}"

definition ARTIFACT_METHODS :: "string set" where
  "ARTIFACT_METHODS = {''written_consent'', ''active_recon'', ''ownership_verified''}"

definition NETWORK_ASSET_KINDS :: "string set" where
  "NETWORK_ASSET_KINDS = {''web'', ''api'', ''host'', ''netblock'', ''cloud_account''}"

record authorization =
  av_id :: string
  av_method :: string
  av_asset_id :: "string option"
  av_customer_id :: "string option"
  av_targets :: "jval list"
  av_valid_from :: "py_datetime option"
  av_valid_until :: "py_datetime option"
  av_revoked_at :: "py_datetime option"

definition auth_active :: "authorization \<Rightarrow> int \<Rightarrow> bool" where
  "auth_active a now =
     (if av_revoked_at a \<noteq> None then False
      else if (case av_valid_from a of Some v \<Rightarrow> aware v > now | None \<Rightarrow> False) then False
      else \<not> (case av_valid_until a of Some v \<Rightarrow> aware v < now | None \<Rightarrow> False))"

subsection \<open>Hosts and targets\<close>

definition strip_dots :: "string \<Rightarrow> string" where
  "strip_dots = rstrip_by (\<lambda>c. c = CHR ''.'')"

text \<open>\<open>host_of\<close>; a URL with malformed brackets raises \<open>ValueError\<close>.\<close>

definition host_of :: "string \<Rightarrow> py_error + string" where
  "host_of identifier =
     (let text = py_strip identifier in
      if text = [] then Inr []
      else if contains_sub ''://'' text
      then (case urlparse text of None \<Rightarrow> Inl ValueError
            | Some u \<Rightarrow> Inr (strip_dots (py_lower (case url_hostname u of Some h \<Rightarrow> h | None \<Rightarrow> []))))
      else if startswith text ''['' then Inr (py_lower (hd (split_on (CHR '']'') (tl text))))
      else let (host, separator, port) = rpartition_on (CHR '':'') text in
        if separator \<and> str_isdigit port then Inr (strip_dots (py_lower host))
        else Inr (strip_dots (py_lower text)))"

definition entry_text :: "jobj \<Rightarrow> string \<Rightarrow> string" where
  "entry_text e k = py_lower (py_str (case dict_get e k of Some v \<Rightarrow> v | None \<Rightarrow> JStr []))"

definition entry_matches :: "string \<Rightarrow> jobj \<Rightarrow> bool" where
  "entry_matches host e =
     (let kind = entry_text e ''type''; target = strip_dots (entry_text e ''value'') in
      if target = [] then False
      else if kind = ''domain'' then host = target \<or> endswith host (''.'' @ target)
      else if kind = ''netblock'' \<and> parse_ip host \<noteq> None
      then (case (parse_ip host, parse_network target) of
              (Some a, Some net) \<Rightarrow> in_network a net | _ \<Rightarrow> False)
      else kind \<in> {''ip'', ''host''} \<and> host = target)"

fun target_entry_matches :: "string \<Rightarrow> jval \<Rightarrow> bool" where
  "target_entry_matches host (JObj e) = entry_matches host e"
| "target_entry_matches host _ = False"

definition target_matches :: "jval list \<Rightarrow> string \<Rightarrow> bool" where
  "target_matches targets v =
     (let host = strip_dots (py_lower v) in
      if host = [] then False else list_ex (target_entry_matches host) targets)"

subsection \<open>The decision\<close>

definition same_asset :: "authorization \<Rightarrow> string option \<Rightarrow> bool" where
  "same_asset a asset_id =
     (case (av_asset_id a, asset_id) of (Some x, Some y) \<Rightarrow> x \<noteq> [] \<and> y \<noteq> [] \<and> x = y | _ \<Rightarrow> False)"

definition authorizes :: "authorization \<Rightarrow> string option \<Rightarrow> string \<Rightarrow> bool \<Rightarrow> int \<Rightarrow> py_error + bool" where
  "authorizes a asset_id asset_identifier needs_network now =
     (if \<not> auth_active a now then Inr False
      else if av_method a \<notin> (if needs_network then NETWORK_METHODS else ARTIFACT_METHODS) then Inr False
      else if same_asset a asset_id then Inr True
      else if av_targets a \<noteq> []
      then (case host_of asset_identifier of Inl e \<Rightarrow> Inl e | Inr h \<Rightarrow> Inr (target_matches (av_targets a) h))
      else Inr False)"

datatype auth_reason =
    AuthorizedBy string | WrongPlane string string string | ExpiredOrRevoked string | NotCovered string bool

record auth_decision =
  ad_allowed :: bool
  ad_reason :: auth_reason
  ad_authorization_id :: string

fun first_authorizing :: "authorization list \<Rightarrow> string option \<Rightarrow> string \<Rightarrow> bool \<Rightarrow> int \<Rightarrow> py_error + authorization option" where
  "first_authorizing [] asset_id ident net now = Inr None"
| "first_authorizing (a # as) asset_id ident net now =
     (case authorizes a asset_id ident net now of
        Inl e \<Rightarrow> Inl e
      | Inr b \<Rightarrow> if b then Inr (Some a) else first_authorizing as asset_id ident net now)"

definition or_empty :: "string option \<Rightarrow> string" where
  "or_empty x = (case x of Some s \<Rightarrow> s | None \<Rightarrow> [])"

definition on_wrong_plane :: "authorization \<Rightarrow> string option \<Rightarrow> string \<Rightarrow> bool \<Rightarrow> int \<Rightarrow> py_error + bool" where
  "on_wrong_plane a asset_id ident net now =
     (if auth_active a now \<and> net \<and> av_method a \<notin> NETWORK_METHODS
      then if or_empty (av_asset_id a) = or_empty asset_id then Inr True
        else (case host_of ident of Inl e \<Rightarrow> Inl e | Inr h \<Rightarrow> Inr (target_matches (av_targets a) h))
      else Inr False)"

fun wrong_plane :: "authorization list \<Rightarrow> string option \<Rightarrow> string \<Rightarrow> bool \<Rightarrow> int \<Rightarrow> py_error + authorization list" where
  "wrong_plane [] asset_id ident net now = Inr []"
| "wrong_plane (a # as) asset_id ident net now =
     (case on_wrong_plane a asset_id ident net now of Inl e \<Rightarrow> Inl e
      | Inr b \<Rightarrow> (case wrong_plane as asset_id ident net now of Inl e \<Rightarrow> Inl e
          | Inr rest \<Rightarrow> Inr (if b then a # rest else rest)))"

definition authz_decide ::
    "authorization list \<Rightarrow> string option \<Rightarrow> string \<Rightarrow> string \<Rightarrow> string \<Rightarrow> bool option \<Rightarrow> int \<Rightarrow> py_error + auth_decision" where
  "authz_decide auths asset_id ident kind engine touches now =
     (let net = (case touches of Some b \<Rightarrow> b | None \<Rightarrow> kind \<in> NETWORK_ASSET_KINDS);
          no = (\<lambda>r. Inr \<lparr>ad_allowed = False, ad_reason = r, ad_authorization_id = []\<rparr>) in
      case first_authorizing auths asset_id ident net now of
        Inl e \<Rightarrow> Inl e
      | Inr (Some a) \<Rightarrow> Inr \<lparr>ad_allowed = True, ad_reason = AuthorizedBy (av_method a), ad_authorization_id = av_id a\<rparr>
      | Inr None \<Rightarrow>
        (case wrong_plane auths asset_id ident net now of Inl e \<Rightarrow> Inl e | Inr wrong \<Rightarrow>
         case host_of ident of Inl e \<Rightarrow> Inl e | Inr h \<Rightarrow>
           let host = (if h = [] then ident else h) in
           (case wrong of
              w # _ \<Rightarrow> no (WrongPlane engine host (av_method w))
            | [] \<Rightarrow>
              if auths \<noteq> [] \<and> list_all (\<lambda>a. \<not> auth_active a now) auths then no (ExpiredOrRevoked host)
              else no (NotCovered host net))))"

subsection \<open>The two gates\<close>

record authorization_row =
  ar_id :: uuid
  ar_tenant_id :: uuid
  ar_customer_id :: uuid
  ar_method :: string
  ar_asset_id :: "uuid option"
  ar_targets :: "jval list"
  ar_valid_from :: "py_datetime option"
  ar_valid_until :: "py_datetime option"
  ar_revoked_at :: "py_datetime option"

record asset_ref =
  as_id :: uuid
  as_tenant_id :: uuid
  as_customer_id :: uuid
  as_kind :: string
  as_identifier :: "string option"

definition view_of :: "authorization_row \<Rightarrow> authorization" where
  "view_of r =
     \<lparr>av_id = str_uuid (ar_id r), av_method = ar_method r, av_asset_id = map_option str_uuid (ar_asset_id r),
      av_customer_id = Some (str_uuid (ar_customer_id r)), av_targets = ar_targets r,
      av_valid_from = ar_valid_from r, av_valid_until = ar_valid_until r, av_revoked_at = ar_revoked_at r\<rparr>"

definition scan_authorized :: "authorization_row list \<Rightarrow> asset_ref \<Rightarrow> string \<Rightarrow> int \<Rightarrow> py_error + auth_decision" where
  "scan_authorized rows asset engine now =
     authz_decide (map view_of (take 200 (filter (\<lambda>r. ar_tenant_id r = as_tenant_id asset \<and>
        ar_customer_id r = as_customer_id asset) rows)))
       (Some (str_uuid (as_id asset))) (or_empty (as_identifier asset)) (as_kind asset) engine None now"

definition discovery_host_of :: "string \<Rightarrow> string" where
  "discovery_host_of target =
     (let t = py_strip target in
      if startswith t ''['' then hd (split_on (CHR '']'') (tl t))
      else let (host, sep, port) = rpartition_on (CHR '':'') t in
        if sep \<and> str_isdigit port then host else t)"

definition discovery_target_matches :: "jval list \<Rightarrow> string \<Rightarrow> bool" where
  "discovery_target_matches targets target = target_matches targets (discovery_host_of target)"

text \<open>A comparison with a null column is not true.\<close>

definition recon_authorizations :: "authorization_row list \<Rightarrow> uuid \<Rightarrow> uuid option \<Rightarrow> int \<Rightarrow> authorization_row list" where
  "recon_authorizations rows tenant customer now =
     filter (\<lambda>r. ar_tenant_id r = tenant \<and> ar_method r \<in> {''active_recon'', ''ownership_verified''} \<and>
        ar_revoked_at r = None \<and>
        (case ar_valid_from r of Some v \<Rightarrow> aware v \<le> now | None \<Rightarrow> False) \<and>
        (case ar_valid_until r of Some v \<Rightarrow> aware v \<ge> now | None \<Rightarrow> False) \<and>
        (case customer of Some c \<Rightarrow> ar_customer_id r = c | None \<Rightarrow> True)) rows"

record block_record =
  bl_tenant_id :: uuid
  bl_customer_id :: "uuid option"
  bl_run_id :: uuid
  bl_target :: string

definition authorize_targets ::
    "authorization_row list \<Rightarrow> uuid \<Rightarrow> uuid option \<Rightarrow> uuid \<Rightarrow> string list \<Rightarrow> int \<Rightarrow>
     string list \<times> string list \<times> block_record list" where
  "authorize_targets rows tenant customer run_id candidates now =
     (let merged = concat (map ar_targets (recon_authorizations rows tenant customer now));
          ok = (\<lambda>t. merged \<noteq> [] \<and> discovery_target_matches merged t);
          denied = filter (\<lambda>t. \<not> ok t) candidates
      in (filter ok candidates, denied,
          map (\<lambda>t. \<lparr>bl_tenant_id = tenant, bl_customer_id = customer, bl_run_id = run_id, bl_target = t\<rparr>) denied))"

subsection \<open>Zones\<close>

text \<open>The labels of a name, and the zone relation: a name is in a zone when the zone's labels are its last.\<close>

definition labels :: "string \<Rightarrow> string list" where
  "labels = split_on (CHR ''.'')"

definition in_zone :: "string \<Rightarrow> string \<Rightarrow> bool" where
  "in_zone zone host \<longleftrightarrow> endswith (labels host) (labels zone)"

lemma split_on_dot: "split_on c (p @ c # s) = split_on c p @ split_on c s"
  by (induction p) (auto split: list.splits)

lemma join_append: "ps \<noteq> [] \<Longrightarrow> qs \<noteq> [] \<Longrightarrow> join_with sep (ps @ qs) = join_with sep ps @ sep @ join_with sep qs"
proof (induction ps)
  case (Cons p ps)
  then show ?case by (cases "ps = []") (auto simp: join_with_Cons)
qed simp

lemma in_zone_iff: "in_zone zone host \<longleftrightarrow> host = zone \<or> endswith host (''.'' @ zone)"
proof
  assume "in_zone zone host"
  then obtain ps where ps: "labels host = ps @ labels zone" by (auto simp: in_zone_def endswith_iff)
  have j: "join_with ''.'' (labels n) = n" for n by (simp add: labels_def)
  show "host = zone \<or> endswith host (''.'' @ zone)"
  proof (cases "ps = []")
    case True
    then show ?thesis using ps j by (metis self_append_conv2)
  next
    case False
    then have "host = join_with ''.'' ps @ ''.'' @ zone"
      using ps j join_append [OF False, of "labels zone"] by (metis labels_def split_on_neq_Nil)
    then show ?thesis by (auto simp: endswith_iff)
  qed
next
  assume "host = zone \<or> endswith host (''.'' @ zone)"
  then show "in_zone zone host"
    by (auto simp: in_zone_def endswith_iff labels_def split_on_dot)
qed

text \<open>C12: A domain target covers a zone, downward only.  A target of type \<open>domain\<close> matches a host exactly
  when, case and trailing dots aside, both are non-empty and the target's labels are the last
  labels of the host: \<open>app.example.com\<close> is covered by \<open>example.com\<close>, neither \<open>notexample.com\<close> nor
  the apex by \<open>app.example.com\<close>.\<close>

theorem domain_target_is_a_zone:
  "target_matches [JObj [(''type'', JStr ''domain''), (''value'', JStr zone)]] host =
     (strip_dots (py_lower host) \<noteq> [] \<and> strip_dots (py_lower zone) \<noteq> [] \<and>
      in_zone (strip_dots (py_lower zone)) (strip_dots (py_lower host)))"
proof -
  have d: "py_lower ''domain'' = ''domain''" by code_simp
  show ?thesis by (auto simp: target_matches_def Let_def entry_matches_def entry_text_def d in_zone_iff)
qed

subsection \<open>What a decision rests on\<close>

text \<open>\<open>covers a asset host_result\<close>: the authorization names the asset, or one of its listed targets
  matches the host of the identifier.\<close>

definition covers :: "authorization \<Rightarrow> string option \<Rightarrow> string \<Rightarrow> bool" where
  "covers a asset_id ident \<longleftrightarrow> same_asset a asset_id \<or>
     (\<exists>h. host_of ident = Inr h \<and> strip_dots (py_lower h) \<noteq> [] \<and>
        (\<exists>e. JObj e \<in> set (av_targets a) \<and> entry_matches (strip_dots (py_lower h)) e))"

lemma target_matches_entry:
  "target_matches ts h \<longleftrightarrow> strip_dots (py_lower h) \<noteq> [] \<and> (\<exists>e. JObj e \<in> set ts \<and> entry_matches (strip_dots (py_lower h)) e)"
proof -
  have "target_entry_matches x v \<longleftrightarrow> (\<exists>e. v = JObj e \<and> entry_matches x e)" for x v by (cases v) auto
  then show ?thesis by (auto simp: target_matches_def Let_def list_ex_iff)
qed

lemma authorizes_covers:
  "authorizes a asset_id ident net now = Inr True \<Longrightarrow>
     auth_active a now \<and> av_method a \<in> (if net then NETWORK_METHODS else ARTIFACT_METHODS) \<and> covers a asset_id ident"
  by (auto simp: authorizes_def covers_def target_matches_entry split: if_splits sum.splits)

lemma first_authorizing_Some:
  "first_authorizing as asset_id ident net now = Inr (Some a) \<Longrightarrow>
     a \<in> set as \<and> authorizes a asset_id ident net now = Inr True"
  by (induction as) (auto split: sum.splits if_splits)

lemma first_authorizing_None:
  "first_authorizing as asset_id ident net now = Inr None \<Longrightarrow>
     list_all (\<lambda>a. authorizes a asset_id ident net now = Inr False) as"
  by (induction as) (auto split: sum.splits if_splits)

lemma decide_allowed:
  assumes "authz_decide auths asset_id ident kind engine touches now = Inr d" "ad_allowed d"
  shows "\<exists>a \<in> set auths. ad_authorization_id d = av_id a \<and>
    authorizes a asset_id ident (case touches of Some b \<Rightarrow> b | None \<Rightarrow> kind \<in> NETWORK_ASSET_KINDS) now = Inr True"
  using assms by (auto simp: authz_decide_def Let_def dest: first_authorizing_Some
      split: sum.splits option.splits list.splits if_splits)

text \<open>C8: The scan gate opens only for a recorded, live permission that fits.  If a scan of an asset is
  authorized, some authorization row of the same tenant and customer is not revoked, is inside its
  validity at that moment, has a method good for the asset's plane (never a written consent for an
  asset reached over the network), and either names that asset or lists a target that matches the
  host of its identifier.\<close>

theorem scan_gate_sound:
  assumes "scan_authorized rows asset engine now = Inr d" and "ad_allowed d"
  shows "\<exists>r \<in> set rows. ar_tenant_id r = as_tenant_id asset \<and> ar_customer_id r = as_customer_id asset \<and>
    ad_authorization_id d = str_uuid (ar_id r) \<and> ar_revoked_at r = None \<and>
    (case ar_valid_from r of Some v \<Rightarrow> aware v \<le> now | None \<Rightarrow> True) \<and>
    (case ar_valid_until r of Some v \<Rightarrow> now \<le> aware v | None \<Rightarrow> True) \<and>
    ar_method r \<in> ARTIFACT_METHODS \<and> ((as_kind asset \<in> NETWORK_ASSET_KINDS) \<le> (ar_method r \<in> NETWORK_METHODS)) \<and>
    covers (view_of r) (Some (str_uuid (as_id asset))) (or_empty (as_identifier asset))"
proof -
  obtain r where r: "r \<in> set (take 200 (filter (\<lambda>r. ar_tenant_id r = as_tenant_id asset \<and>
        ar_customer_id r = as_customer_id asset) rows))" and i: "ad_authorization_id d = av_id (view_of r)"
    and a: "authorizes (view_of r) (Some (str_uuid (as_id asset))) (or_empty (as_identifier asset))
        (as_kind asset \<in> NETWORK_ASSET_KINDS) now = Inr True"
    using decide_allowed [OF assms(1) [unfolded scan_authorized_def] assms(2)] by auto
  have m: "av_method (view_of r) = ar_method r" "av_id (view_of r) = str_uuid (ar_id r)"
    by (simp_all add: view_of_def)
  note c = authorizes_covers [OF a, unfolded m]
  have sub: "NETWORK_METHODS \<subseteq> ARTIFACT_METHODS" by (auto simp: NETWORK_METHODS_def ARTIFACT_METHODS_def)
  have rr: "r \<in> set rows" "ar_tenant_id r = as_tenant_id asset" "ar_customer_id r = as_customer_id asset"
    using in_set_takeD [OF r] by auto
  have "ar_revoked_at r = None \<and> (case ar_valid_from r of Some v \<Rightarrow> aware v \<le> now | None \<Rightarrow> True) \<and>
      (case ar_valid_until r of Some v \<Rightarrow> now \<le> aware v | None \<Rightarrow> True)"
    using c by (auto simp: auth_active_def view_of_def split: option.splits if_splits)
  then show ?thesis using rr c sub i m by (intro bexI [of _ r]) (auto split: if_splits)
qed

text \<open>The refusal reasons say what they mean.\<close>

lemma refusal_reasons:
  assumes "authz_decide auths asset_id ident kind engine touches now = Inr d" "\<not> ad_allowed d"
  shows "list_all (\<lambda>a. authorizes a asset_id ident (case touches of Some b \<Rightarrow> b | None \<Rightarrow> kind \<in> NETWORK_ASSET_KINDS) now
      = Inr False) auths"
  using assms by (auto simp: authz_decide_def Let_def dest: first_authorizing_None
      split: sum.splits option.splits)

subsection \<open>The two gates agree\<close>

lemma strip_dots_idem [simp]: "strip_dots (strip_dots s) = strip_dots s"
  by (simp add: strip_dots_def)

lemma py_lower_strip_dots: "py_lower (strip_dots s) = strip_dots (py_lower s)"
proof -
  have u: "to_lower c = CHR ''.'' \<longleftrightarrow> c = CHR ''.''" for c
  proof (cases "is_upper c")
    case True
    then have a: "97 \<le> ordc (to_lower c)" "65 \<le> ordc c" by (simp_all add: to_lower_def is_upper_def)
    have d: "ordc (CHR ''.'') = 46" by (simp add: ordc_def)
    have "to_lower c \<noteq> CHR ''.''"
    proof
      assume "to_lower c = CHR ''.''"
      with a(1) d show False by simp
    qed
    moreover have "c \<noteq> CHR ''.''"
    proof
      assume "c = CHR ''.''"
      with a(2) d show False by simp
    qed
    ultimately show ?thesis by simp
  qed (simp add: to_lower_def)
  have "map to_lower (dropWhile (\<lambda>c. c = CHR ''.'') xs) = dropWhile (\<lambda>c. c = CHR ''.'') (map to_lower xs)" for xs
    by (induction xs) (simp_all add: u)
  then show ?thesis by (simp add: strip_dots_def rstrip_by_def py_lower_def rev_map [symmetric])
qed

lemma rpartition_on_Nil: "rpartition_on c [] = ([], False, [])"
  by (simp add: rpartition_on_def partition_on_def)

lemma host_of_discovery:
  assumes "\<not> contains_sub ''://'' (py_strip t)"
  shows "\<exists>h. host_of t = Inr h \<and> strip_dots (py_lower h) = strip_dots (py_lower (discovery_host_of t))"
  using assms
  by (auto simp: host_of_def discovery_host_of_def Let_def py_lower_strip_dots rpartition_on_Nil
      split: prod.splits if_splits)

lemma matches_by_normal_form:
  "strip_dots (py_lower h) = strip_dots (py_lower h') \<Longrightarrow> target_matches ts h = target_matches ts h'"
  by (simp add: target_matches_def)

lemma recon_row_authorizes:
  assumes r: "r \<in> set (recon_authorizations rows tenant customer now)" and m: "target_matches (ar_targets r) h"
    and h: "host_of ident = Inr h"
  shows "authorizes (view_of r) asset_id ident net now = Inr True"
proof -
  have "auth_active (view_of r) now" "ar_method r \<in> NETWORK_METHODS" "ar_method r \<in> ARTIFACT_METHODS"
    using r by (auto simp: recon_authorizations_def auth_active_def view_of_def NETWORK_METHODS_def
        ARTIFACT_METHODS_def split: option.splits)
  moreover have "ar_targets r \<noteq> []" using m by (auto simp: target_matches_def Let_def split: if_splits)
  ultimately show ?thesis using m h by (auto simp: authorizes_def view_of_def)
qed

lemma first_authorizing_exists:
  assumes "a \<in> set as" "authorizes a asset_id ident net now = Inr True" "host_of ident = Inr h"
  shows "\<exists>a'. first_authorizing as asset_id ident net now = Inr (Some a')"
proof -
  have ok: "\<exists>b. authorizes a asset_id ident net now = Inr b" for a
    using assms(3) by (auto simp: authorizes_def)
  show ?thesis using assms(1,2)
  proof (induction as)
    case (Cons x xs)
    obtain b where b: "authorizes x asset_id ident net now = Inr b" using ok by blast
    then show ?case using Cons by (cases b) auto
  qed simp
qed

text \<open>The two gates agree.  Every target the discovery gate lets through for a customer, the scan gate
  lets through too: an asset of any kind whose identifier is that target (host, address, bracketed
  address or any of them with a port, but no URL) is authorized for scanning at the same moment,
  provided the customer has at most 200 authorization rows.\<close>

theorem discovery_allows_scan_allows:
  assumes "t \<in> set (fst (authorize_targets rows tenant (Some customer) run_id candidates now))"
    and "as_tenant_id asset = tenant" "as_customer_id asset = customer" "as_identifier asset = Some t"
    and "\<not> contains_sub ''://'' (py_strip t)"
    and "length (filter (\<lambda>r. ar_tenant_id r = tenant \<and> ar_customer_id r = customer) rows) \<le> 200"
  shows "\<exists>d. scan_authorized rows asset engine now = Inr d \<and> ad_allowed d"
proof -
  obtain h where h: "host_of t = Inr h" "strip_dots (py_lower h) = strip_dots (py_lower (discovery_host_of t))"
    using host_of_discovery [OF assms(5)] by blast
  have "target_matches (concat (map ar_targets (recon_authorizations rows tenant (Some customer) now))) (discovery_host_of t)"
    using assms(1) by (simp add: authorize_targets_def Let_def discovery_target_matches_def)
  then obtain r where r: "r \<in> set (recon_authorizations rows tenant (Some customer) now)"
    and "target_matches (ar_targets r) (discovery_host_of t)"
    unfolding target_matches_entry by auto
  then have m: "target_matches (ar_targets r) h" using matches_by_normal_form [OF h(2)] by simp
  define as where "as = map view_of (filter (\<lambda>r. ar_tenant_id r = tenant \<and> ar_customer_id r = customer) rows)"
  have "view_of r \<in> set as" using r by (auto simp: as_def recon_authorizations_def)
  then obtain a' where "first_authorizing as (Some (str_uuid (as_id asset))) t (as_kind asset \<in> NETWORK_ASSET_KINDS) now
      = Inr (Some a')"
    using first_authorizing_exists [OF _ recon_row_authorizes [OF r m h(1)] h(1)] by blast
  then show ?thesis
    using assms by (simp add: scan_authorized_def authz_decide_def Let_def as_def [symmetric] or_empty_def)
qed

definition demo_authorization :: authorization_row where
  "demo_authorization =
     \<lparr>ar_id = 9, ar_tenant_id = 1, ar_customer_id = 2, ar_method = ''ownership_verified'', ar_asset_id = None,
      ar_targets = [JObj [(''type'', JStr ''domain''), (''value'', JStr ''example.com'')]],
      ar_valid_from = Some (Aware 0), ar_valid_until = Some (Aware 100), ar_revoked_at = None\<rparr>"

definition demo_web_asset :: asset_ref where
  "demo_web_asset = \<lparr>as_id = 5, as_tenant_id = 1, as_customer_id = 2, as_kind = ''web'',
     as_identifier = Some ''app.example.com:8443''\<rparr>"

lemma demo_allowed:
  "''app.example.com:8443'' \<in> set (fst (authorize_targets [demo_authorization] 1 (Some 2) 3 [''app.example.com:8443'', ''evil.com''] 50))"
  by code_simp

lemma discovery_allows_scan_allows_witness:
  "\<exists>d. scan_authorized [demo_authorization] demo_web_asset ''dast'' 50 = Inr d \<and> ad_allowed d"
proof (rule discovery_allows_scan_allows [OF demo_allowed])
  show "\<not> contains_sub ''://'' (py_strip ''app.example.com:8443'')" by code_simp
qed (simp_all add: demo_web_asset_def demo_authorization_def)

lemma demo_decision:
  "scan_authorized [demo_authorization] demo_web_asset ''dast'' 50 =
     Inr \<lparr>ad_allowed = True, ad_reason = AuthorizedBy ''ownership_verified'', ad_authorization_id = str_uuid 9\<rparr>"
  by code_simp

lemma scan_gate_sound_witness:
  "covers (view_of demo_authorization) (Some (str_uuid 5)) ''app.example.com:8443''"
  using scan_gate_sound [OF demo_decision]
  by (simp add: demo_web_asset_def or_empty_def)

text \<open>A bare IPv6 address loses its last group to the port rule: permission for one address is taken as
  permission for another.\<close>

lemma bare_ipv6_read_as_port:
  "target_matches [JObj [(''type'', JStr ''ip''), (''value'', JStr ''2001:db8::1'')]]
     (projr (host_of ''2001:db8::1:80'')) \<and> parse_ip ''2001:db8::1:80'' \<noteq> parse_ip ''2001:db8::1''"
  by code_simp

text \<open>Without a scheme the path is taken as part of the host, so a path that ends in the zone's name is in
  the zone.\<close>

lemma path_read_as_host:
  "target_matches [JObj [(''type'', JStr ''domain''), (''value'', JStr ''example.com'')]]
     (projr (host_of ''evil.test/.example.com''))"
  by code_simp

end
