(* ===== verification/ScanRun.thy ===== *)
theory ScanRun
  imports Findings SafeScan Authorization
begin

text \<open>
  The worker's \<open>run_scan\<close> (\<open>tasks.py\<close>): claiming a scan, the loop over its requested engines with the
  two gates in front of each, folding what they report into the findings of the asset, the final
  status, and the reconciliation that follows.  The engines themselves are values of the model: what
  an engine declares, and what running it returns or raises.  The rest of the world a gate reads
  (clock, other scans, authorization rows) is a view per engine, since it may change between them.
\<close>

subsection \<open>Engines and surroundings\<close>

record engine_outcome_data =
  oc_raws :: "raw_finding list"
  oc_degraded :: bool
  oc_missing :: "string list"

record engine =
  eg_key :: engine_key
  eg_version :: string
  eg_requires_authorization :: bool
  eg_supports :: "string \<Rightarrow> bool"
  eg_source :: string
  eg_run :: "profile_limits option \<Rightarrow> string + engine_outcome_data"

definition get_engine :: "engine list \<Rightarrow> string \<Rightarrow> engine option" where
  "get_engine engines key = find (\<lambda>e. engine_key_value (eg_key e) = key) (rev engines)"

record gate_view =
  gv_now :: int
  gv_scans :: "scan_ref list"
  gv_auth_now :: int
  gv_auth_rows :: "authorization_row list"

record scan_job =
  jb_ref :: scan_ref
  jb_requested_engines :: "string list"
  jb_authorization_basis :: string
  jb_error :: "string option"

record surroundings =
  en_engines :: "engine list"
  en_sha256_hex :: "string \<Rightarrow> string"
  en_new_uuid :: "nat \<Rightarrow> uuid"
  en_asset :: asset_ref
  en_exposure :: string
  en_customer_settings :: jval
  en_criticality :: string
  en_business_impact :: string
  en_paused :: bool
  en_artifact_error :: "string option"
  en_workspace_error :: "string option"
  en_view :: "nat \<Rightarrow> gate_view"

subsection \<open>Rows the loop writes\<close>

datatype run_error =
    NotRegistered | HeldBack safe_reason | Unauthorized auth_reason | KindNotSupported string
  | EngineRaised string | BadReport py_error

record run_row =
  rr_id :: uuid
  rr_engine :: string
  rr_status :: string
  rr_error :: "run_error option"
  rr_tool_versions :: jval

datatype scan_audit =
    AuditHeldBack string safe_reason string "int option"
  | AuditOwnerDirect string
  | AuditBlocked string auth_reason
  | AuditScanFailed
  | AuditScanCompleted string

record loop_state =
  ls_runs :: "run_row list"
  ls_statuses :: "string list"
  ls_findings :: "finding list"
  ls_known :: "(string, uuid) odict"
  ls_observed :: "(string, uuid) odict"
  ls_next :: nat
  ls_audit :: "scan_audit list"

datatype scan_crash = GateRaised py_error | PreparationFailed string | DuplicateEngineRun

subsection \<open>The gates of one engine\<close>

datatype gate_outcome =
    Held string run_error string scan_audit
  | Cleared "profile_limits option" "scan_audit list"

definition needs_auth :: "engine \<Rightarrow> bool" where
  "needs_auth eng \<longleftrightarrow> eg_requires_authorization eng \<or> eg_key eng \<in> ACTIVE_ENGINES"

definition engine_gate :: "surroundings \<Rightarrow> scan_job \<Rightarrow> gate_view \<Rightarrow> engine \<Rightarrow> string \<Rightarrow> py_error + gate_outcome" where
  "engine_gate env job view eng key =
     (if \<not> needs_auth eng then Inr (Cleared None [])
      else bind_r (safe_scan_verdict (en_customer_settings env) (gv_scans view) (jb_ref job) (en_paused env) (gv_now view))
        (\<lambda>safe.
          if \<not> sv_allowed safe
          then Inr (Held (if sv_action safe = ''defer'' then ''deferred'' else ''skipped'') (HeldBack (sv_reason safe)) ''skipped''
                 (AuditHeldBack key (sv_reason safe) (sv_action safe) (sv_retry_after safe)))
          else if jb_authorization_basis job = authorization_basis_value BasisOwnerDirect
          then Inr (Cleared (sv_limits safe) [AuditOwnerDirect key])
          else bind_r (scan_authorized (gv_auth_rows view) (en_asset env) key (gv_auth_now view)) (\<lambda>d.
            if ad_allowed d then Inr (Cleared (sv_limits safe) [])
            else Inr (Held ''blocked'' (Unauthorized (ad_reason d)) ''blocked'' (AuditBlocked key (ad_reason d))))))"

subsection \<open>Folding reports into findings\<close>

definition absorb ::
    "surroundings \<Rightarrow> scan_job \<Rightarrow> finding_context \<Rightarrow> raw_finding \<Rightarrow> loop_state \<Rightarrow> py_error + loop_state" where
  "absorb env job c raw st =
     bind_r (to_finding (en_sha256_hex env) (en_new_uuid env (ls_next st)) raw c) (\<lambda>f.
       case dict_get (ls_known st) (fr_fingerprint f) of
         None \<Rightarrow> Inr (st\<lparr>ls_findings := ls_findings st @ [f], ls_next := ls_next st + 1,
             ls_known := dict_set (fr_fingerprint f) (fr_id f) (ls_known st),
             ls_observed := dict_set (fr_fingerprint f) (fr_id f) (ls_observed st)\<rparr>)
       | Some i \<Rightarrow> Inr (st\<lparr>ls_findings := map (\<lambda>g. if fr_id g = i
               then merge_sighting g f (sc_id (jb_ref job)) (fc_engine_run_id c) else g) (ls_findings st),
             ls_observed := dict_set (fr_fingerprint f) i (ls_observed st)\<rparr>))"

text \<open>The loop over the reports stops at the first that cannot be converted; what came before stays.\<close>

fun absorb_all ::
    "surroundings \<Rightarrow> scan_job \<Rightarrow> finding_context \<Rightarrow> raw_finding list \<Rightarrow> loop_state \<Rightarrow> loop_state \<times> py_error option" where
  "absorb_all env job c [] st = (st, None)"
| "absorb_all env job c (r # rs) st =
     (case absorb env job c r st of Inl e \<Rightarrow> (st, Some e) | Inr st1 \<Rightarrow> absorb_all env job c rs st1)"

definition close_run :: "uuid \<Rightarrow> string \<Rightarrow> string \<Rightarrow> run_error option \<Rightarrow> jval \<Rightarrow> string \<Rightarrow> loop_state \<Rightarrow> loop_state" where
  "close_run run_id key status err versions engine_status st =
     st\<lparr>ls_runs := ls_runs st @ [\<lparr>rr_id = run_id, rr_engine = key, rr_status = status, rr_error = err,
          rr_tool_versions = versions\<rparr>], ls_statuses := ls_statuses st @ [engine_status]\<rparr>"

definition context_of :: "surroundings \<Rightarrow> scan_job \<Rightarrow> engine \<Rightarrow> uuid \<Rightarrow> finding_context" where
  "context_of env job eng run_id =
     \<lparr>fc_tenant_id = as_tenant_id (en_asset env), fc_customer_id = as_customer_id (en_asset env),
      fc_scan_id = sc_id (jb_ref job), fc_engine_run_id = run_id, fc_asset_id = as_id (en_asset env),
      fc_exposure = en_exposure env, fc_asset_criticality = en_criticality env,
      fc_business_impact = en_business_impact env, fc_source = eg_source eng\<rparr>"

definition health_versions :: "engine \<Rightarrow> engine_outcome_data \<Rightarrow> jval" where
  "health_versions eng oc = JObj (dict_set ''missing'' (JList (map JStr (oc_missing oc)))
     (dict_set ''degraded'' (JBool (oc_degraded oc)) [(engine_key_value (eg_key eng), JStr (eg_version eng))]))"

definition execute_engine ::
    "surroundings \<Rightarrow> scan_job \<Rightarrow> engine \<Rightarrow> string \<Rightarrow> uuid \<Rightarrow> profile_limits option \<Rightarrow> loop_state \<Rightarrow> loop_state" where
  "execute_engine env job eng key run_id limits st =
     (case eg_run eng limits of
        Inl msg \<Rightarrow> close_run run_id key ''failed'' (Some (EngineRaised (take 2000 msg))) (JObj []) ''failed'' st
      | Inr oc \<Rightarrow>
        (case absorb_all env job (context_of env job eng run_id) (oc_raws oc) st of
           (st1, None) \<Rightarrow> close_run run_id key ''completed'' None (health_versions eng oc) ''completed'' st1
         | (st1, Some e) \<Rightarrow> close_run run_id key ''failed'' (Some (BadReport e)) (health_versions eng oc) ''failed'' st1))"

definition engine_step :: "surroundings \<Rightarrow> scan_job \<Rightarrow> string \<Rightarrow> loop_state \<Rightarrow> scan_crash + loop_state" where
  "engine_step env job key st0 =
     (let run_id = en_new_uuid env (ls_next st0); st = st0\<lparr>ls_next := ls_next st0 + 1\<rparr>;
          view = en_view env (length (ls_runs st)) in
      if key \<in> rr_engine ` set (ls_runs st) then Inl DuplicateEngineRun
      else case get_engine (en_engines env) key of
        None \<Rightarrow> Inr (close_run run_id key ''skipped'' (Some NotRegistered) (JObj []) ''skipped'' st)
      | Some eng \<Rightarrow>
        (case engine_gate env job view eng key of
           Inl e \<Rightarrow> Inl (GateRaised e)
         | Inr (Held status err engine_status audit) \<Rightarrow>
             Inr (close_run run_id key status (Some err) (JObj []) engine_status (st\<lparr>ls_audit := ls_audit st @ [audit]\<rparr>))
         | Inr (Cleared limits audits) \<Rightarrow>
             let st1 = st\<lparr>ls_audit := ls_audit st @ audits\<rparr>; kind = as_kind (en_asset env) in
             if \<not> eg_supports eng kind
             then Inr (close_run run_id key ''skipped'' (Some (KindNotSupported kind)) (JObj []) ''skipped'' st1)
             else (case en_workspace_error env of
                 Some msg \<Rightarrow> Inl (PreparationFailed msg)
               | None \<Rightarrow> Inr (execute_engine env job eng key run_id limits st1))))"

fun engine_loop :: "surroundings \<Rightarrow> scan_job \<Rightarrow> string list \<Rightarrow> loop_state \<Rightarrow> (scan_crash \<times> loop_state) + loop_state" where
  "engine_loop env job [] st = Inr st"
| "engine_loop env job (k # ks) st =
     (case engine_step env job k st of Inl e \<Rightarrow> Inl (e, st) | Inr st1 \<Rightarrow> engine_loop env job ks st1)"

subsection \<open>The scan\<close>

definition final_status :: "string list \<Rightarrow> string" where
  "final_status statuses =
     (if statuses \<noteq> [] \<and> list_all (\<lambda>s. s = ''failed'') statuses then ''failed''
      else if list_ex (\<lambda>s. s \<in> {''failed'', ''skipped'', ''blocked''}) statuses then ''partial''
      else ''completed'')"

text \<open>\<open>{row.fingerprint: row for row in ...}\<close> over the findings of the asset.\<close>

definition known_findings :: "asset_ref \<Rightarrow> finding list \<Rightarrow> (string, uuid) odict" where
  "known_findings asset fs =
     fold (\<lambda>f d. dict_set (fr_fingerprint f) (fr_id f) d)
       (filter (\<lambda>f. fr_tenant_id f = as_tenant_id asset \<and> fr_asset_id f = as_id asset) fs) []"

definition scan_stats :: "loop_state \<Rightarrow> (string, int) odict" where
  "scan_stats st = severity_counts (concat (map (\<lambda>(k, i). filter (\<lambda>f. fr_id f = i) (ls_findings st)) (ls_observed st)))"

datatype scan_outcome =
    NotClaimed string
  | Crashed
  | Finished string "(string, int) odict option" loop_state

definition initial_state :: "surroundings \<Rightarrow> finding list \<Rightarrow> loop_state" where
  "initial_state env fs =
     \<lparr>ls_runs = [], ls_statuses = [], ls_findings = fs, ls_known = known_findings (en_asset env) fs,
      ls_observed = [], ls_next = 0, ls_audit = []\<rparr>"

definition requested :: "scan_job \<Rightarrow> string list" where
  "requested job = (if jb_requested_engines job = [] then [engine_key_value EngSecrets] else jb_requested_engines job)"

text \<open>\<open>Crashed\<close> is the one exception that escapes: the broken transaction takes the claim back with it.\<close>

definition run_scan :: "surroundings \<Rightarrow> scan_job \<Rightarrow> finding list \<Rightarrow> scan_outcome" where
  "run_scan env job fs =
     (if sc_status (jb_ref job) \<noteq> ''queued'' then NotClaimed (sc_status (jb_ref job))
      else let st0 = initial_state env fs in
        case en_artifact_error env of
          Some msg \<Rightarrow> Finished ''failed'' None (st0\<lparr>ls_audit := [AuditScanFailed]\<rparr>)
        | None \<Rightarrow>
          (case engine_loop env job (requested job) st0 of
             Inl (DuplicateEngineRun, st) \<Rightarrow> Crashed
           | Inl (crash, st) \<Rightarrow> Finished ''failed'' None (st\<lparr>ls_audit := ls_audit st @ [AuditScanFailed]\<rparr>)
           | Inr st \<Rightarrow> let s = final_status (ls_statuses st) in
               Finished s (Some (scan_stats st)) (st\<lparr>ls_audit := ls_audit st @ [AuditScanCompleted s]\<rparr>)))"

subsection \<open>Lemmas of the loop\<close>

text \<open>\<open>permitted env job i key\<close>: the engine exists, and if it touches a host then at its turn the
  safe-scanning gate let it start and either the scan runs on the owner's own authority or an
  authorization covers the asset.\<close>

definition permitted :: "surroundings \<Rightarrow> scan_job \<Rightarrow> nat \<Rightarrow> string \<Rightarrow> bool" where
  "permitted env job i key \<longleftrightarrow>
     (\<exists>eng. get_engine (en_engines env) key = Some eng \<and> eg_supports eng (as_kind (en_asset env)) \<and>
        (needs_auth eng \<longrightarrow>
           (\<exists>v. safe_scan_verdict (en_customer_settings env) (gv_scans (en_view env i)) (jb_ref job) (en_paused env)
                 (gv_now (en_view env i)) = Inr v \<and> sv_allowed v) \<and>
           (jb_authorization_basis job = ''owner-direct'' \<or>
            (\<exists>d. scan_authorized (gv_auth_rows (en_view env i)) (en_asset env) key (gv_auth_now (en_view env i)) = Inr d
                 \<and> ad_allowed d))))"

definition executed :: "run_row \<Rightarrow> bool" where
  "executed r \<longleftrightarrow> rr_status r \<in> {''completed'', ''failed''}"

lemma gate_cleared:
  assumes "engine_gate env job view eng key = Inr (Cleared limits audits)"
  shows "needs_auth eng \<longrightarrow>
     (\<exists>v. safe_scan_verdict (en_customer_settings env) (gv_scans view) (jb_ref job) (en_paused env) (gv_now view) = Inr v
        \<and> sv_allowed v \<and> limits = sv_limits v) \<and>
     (jb_authorization_basis job = ''owner-direct'' \<or>
      (\<exists>d. scan_authorized (gv_auth_rows view) (en_asset env) key (gv_auth_now view) = Inr d \<and> ad_allowed d))"
  using assms by (auto simp: engine_gate_def split: if_splits)

lemma gate_held:
  assumes "engine_gate env job view eng key = Inr (Held status err es audit)"
  shows "status \<in> {''deferred'', ''skipped'', ''blocked''} \<and> es \<in> {''skipped'', ''blocked''}"
  using assms by (auto simp: engine_gate_def split: if_splits)

lemma absorb_runs:
  "absorb env job c r st = Inr st1 \<Longrightarrow> ls_runs st1 = ls_runs st \<and> ls_statuses st1 = ls_statuses st"
  by (auto simp: absorb_def split: option.splits)

lemma absorb_all_runs:
  "absorb_all env job c rs st = (st1, e) \<Longrightarrow> ls_runs st1 = ls_runs st \<and> ls_statuses st1 = ls_statuses st"
  by (induction rs arbitrary: st) (auto split: sum.splits dest: absorb_runs)

lemma execute_run:
  "\<exists>r s. ls_runs (execute_engine env job eng key i limits st) = ls_runs st @ [r] \<and>
     ls_statuses (execute_engine env job eng key i limits st) = ls_statuses st @ [s] \<and>
     rr_engine r = key \<and> rr_status r = s \<and> s \<in> {''completed'', ''failed''}"
  by (auto simp: execute_engine_def close_run_def split: sum.splits prod.splits option.splits
      dest!: absorb_all_runs)

definition aligned :: "run_row \<Rightarrow> string \<Rightarrow> bool" where
  "aligned r s \<longleftrightarrow> (s = ''completed'') = (rr_status r = ''completed'') \<and> (s = ''failed'') = (rr_status r = ''failed'') \<and>
     s \<in> {''completed'', ''failed'', ''skipped'', ''blocked''}"

lemma engine_step_run:
  assumes "engine_step env job key st = Inr st1"
  shows "\<exists>r s. ls_runs st1 = ls_runs st @ [r] \<and> ls_statuses st1 = ls_statuses st @ [s] \<and> rr_engine r = key \<and>
    aligned r s \<and> (executed r \<longrightarrow> permitted env job (length (ls_runs st)) (rr_engine r))"
proof -
  define st' where "st' = st\<lparr>ls_next := ls_next st + 1\<rparr>"
  define view where "view = en_view env (length (ls_runs st))"
  have st': "ls_runs st' = ls_runs st" "ls_statuses st' = ls_statuses st" by (simp_all add: st'_def)
  show ?thesis
  proof (cases "get_engine (en_engines env) key")
    case None
    then show ?thesis using assms by (auto simp: engine_step_def Let_def close_run_def executed_def aligned_def split: if_splits)
  next
    case (Some eng)
    obtain g where g: "engine_gate env job view eng key = Inr g"
      using assms Some by (auto simp: engine_step_def Let_def view_def split: if_splits sum.splits)
    show ?thesis
    proof (cases g)
      case (Held status err es audit)
      then show ?thesis using assms Some g gate_held [of env job view eng key status err es audit]
        by (auto simp: engine_step_def Let_def close_run_def executed_def aligned_def view_def split: if_splits)
    next
      case (Cleared limits audits)
      show ?thesis
      proof (cases "eg_supports eng (as_kind (en_asset env))")
        case False
        then show ?thesis using assms Some g Cleared
          by (auto simp: engine_step_def Let_def close_run_def executed_def aligned_def view_def split: if_splits)
      next
        case True
        have p: "permitted env job (length (ls_runs st)) key"
          using Some True gate_cleared [OF g [unfolded Cleared]] by (auto simp: permitted_def view_def)
        have "st1 = execute_engine env job eng key (en_new_uuid env (ls_next st)) limits
            (st'\<lparr>ls_audit := ls_audit st' @ audits\<rparr>)"
          using assms Some g Cleared True
          by (auto simp: engine_step_def Let_def view_def st'_def split: if_splits option.splits)
        then show ?thesis
          using execute_run [of env job eng key "en_new_uuid env (ls_next st)" limits "st'\<lparr>ls_audit := ls_audit st' @ audits\<rparr>"]
            p st' by (auto simp: aligned_def)
      qed
    qed
  qed
qed

definition all_permitted :: "surroundings \<Rightarrow> scan_job \<Rightarrow> nat \<Rightarrow> run_row list \<Rightarrow> bool" where
  "all_permitted env job n rs \<longleftrightarrow>
     (\<forall>i < length rs. executed (rs ! i) \<longrightarrow> permitted env job (n + i) (rr_engine (rs ! i)))"

lemma all_permitted_Cons:
  assumes "executed r \<longrightarrow> permitted env job n (rr_engine r)" "all_permitted env job (Suc n) rs"
  shows "all_permitted env job n (r # rs)"
  unfolding all_permitted_def
proof (intro allI impI)
  fix i assume i: "i < length (r # rs)" "executed ((r # rs) ! i)"
  show "permitted env job (n + i) (rr_engine ((r # rs) ! i))"
    using i assms by (cases i) (auto simp: all_permitted_def)
qed

definition loop_ok :: "surroundings \<Rightarrow> scan_job \<Rightarrow> loop_state \<Rightarrow> string list \<Rightarrow> run_row list \<Rightarrow> string list \<Rightarrow> bool" where
  "loop_ok env job st ks rs ss \<longleftrightarrow> map rr_engine rs = ks \<and> list_all2 aligned rs ss \<and>
     all_permitted env job (length (ls_runs st)) rs"

lemma engine_loop_runs:
  assumes "engine_loop env job ks st = Inr st1"
  shows "\<exists>rs ss. ls_runs st1 = ls_runs st @ rs \<and> ls_statuses st1 = ls_statuses st @ ss \<and> loop_ok env job st ks rs ss"
  using assms
proof (induction ks arbitrary: st)
  case Nil
  then show ?case by (simp add: loop_ok_def all_permitted_def)
next
  case (Cons k ks)
  obtain st2 where s: "engine_step env job k st = Inr st2" "engine_loop env job ks st2 = Inr st1"
    using Cons.prems by (auto split: sum.splits)
  obtain r x where 1: "ls_runs st2 = ls_runs st @ [r]" "ls_statuses st2 = ls_statuses st @ [x]" "rr_engine r = k"
    "aligned r x" "executed r \<longrightarrow> permitted env job (length (ls_runs st)) (rr_engine r)"
    using engine_step_run [OF s(1)] by blast
  obtain rs ss where 2: "ls_runs st1 = ls_runs st2 @ rs" "ls_statuses st1 = ls_statuses st2 @ ss" "loop_ok env job st2 ks rs ss"
    using Cons.IH [OF s(2)] by blast
  have "loop_ok env job st (k # ks) (r # rs) (x # ss)"
    using 1 2(3) all_permitted_Cons [OF 1(5), of rs] by (simp add: loop_ok_def)
  moreover have "ls_runs st1 = ls_runs st @ (r # rs)" "ls_statuses st1 = ls_statuses st @ (x # ss)"
    using 1 2 by simp_all
  ultimately show ?case by blast
qed

text \<open>A loop that crashes leaves a state reached by the engines before the crash.\<close>

lemma engine_loop_crash:
  "engine_loop env job ks st = Inl (e, st1) \<Longrightarrow> \<exists>ks' ks''. ks = ks' @ ks'' \<and> engine_loop env job ks' st = Inr st1"
proof (induction ks arbitrary: st)
  case (Cons k ks)
  show ?case
  proof (cases "engine_step env job k st")
    case (Inl c)
    then have "engine_loop env job [] st = Inr st1" using Cons.prems by simp
    then show ?thesis by (intro exI [of _ "[]"] exI [of _ "k # ks"]) simp
  next
    case (Inr st2)
    then have "engine_loop env job ks st2 = Inl (e, st1)" using Cons.prems by simp
    then obtain ks' ks'' where "ks = ks' @ ks''" "engine_loop env job ks' st2 = Inr st1"
      using Cons.IH by blast
    then show ?thesis using Inr by (intro exI [of _ "k # ks'"] exI [of _ ks'']) simp
  qed
qed simp

lemma finished_loop:
  assumes "run_scan env job fs = Finished s stats st"
  shows "\<exists>ks ks' st'. requested job = ks @ ks' \<and> engine_loop env job ks (initial_state env fs) = Inr st' \<and>
    ls_runs st = ls_runs st' \<and> ls_statuses st = ls_statuses st' \<and> ls_findings st = ls_findings st' \<and>
    (s \<noteq> ''failed'' \<or> stats \<noteq> None \<longrightarrow> ks' = [] \<and> s = final_status (ls_statuses st') \<and> stats = Some (scan_stats st'))"
proof -
  have q: "jb_requested_engines job = [] \<or> jb_requested_engines job \<noteq> []" by simp
  show ?thesis
  proof (cases "en_artifact_error env")
    case (Some msg)
    then show ?thesis using assms
      by (intro exI [of _ "[]"] exI [of _ "requested job"] exI [of _ "initial_state env fs"])
        (auto simp: run_scan_def Let_def split: if_splits)
  next
    case None
    show ?thesis
    proof (cases "engine_loop env job (requested job) (initial_state env fs)")
      case (Inl c)
      obtain e st' where c: "c = (e, st')" by fastforce
      obtain ks ks' where "requested job = ks @ ks'" "engine_loop env job ks (initial_state env fs) = Inr st'"
        using engine_loop_crash [OF Inl [unfolded c]] by blast
      moreover have "s = ''failed'' \<and> stats = None \<and> st = st'\<lparr>ls_audit := ls_audit st' @ [AuditScanFailed]\<rparr>"
        using assms None Inl c by (auto simp: run_scan_def Let_def split: if_splits scan_crash.splits)
      ultimately show ?thesis by (intro exI [of _ ks] exI [of _ ks'] exI [of _ st']) simp
    next
      case (Inr st')
      have "s = final_status (ls_statuses st') \<and> stats = Some (scan_stats st') \<and>
          st = st'\<lparr>ls_audit := ls_audit st' @ [AuditScanCompleted s]\<rparr>"
        using assms None Inr by (auto simp: run_scan_def Let_def split: if_splits)
      then show ?thesis using Inr by (intro exI [of _ "requested job"] exI [of _ "[]"] exI [of _ st']) simp
    qed
  qed
qed

subsection \<open>No engine runs ungated\<close>

text \<open>C4: An engine that touches a host runs only behind both gates.  For every engine run a finished scan
  recorded as completed or failed, the engine was registered and supports the kind of asset, and if it
  needs authorization then at its turn the safe-scanning gate, reading the customer's settings and
  the platform switch, allowed a start, and either the scan was dispatched on the owner's own
  authority or a live authorization covered the asset.  A scan that ends in an error half way is no
  exception.\<close>

theorem engines_run_behind_the_gates:
  assumes "run_scan env job fs = Finished s stats st" and "i < length (ls_runs st)"
    and "rr_status (ls_runs st ! i) \<in> {''completed'', ''failed''}"
  shows "\<exists>eng. get_engine (en_engines env) (rr_engine (ls_runs st ! i)) = Some eng \<and>
    eg_supports eng (as_kind (en_asset env)) \<and>
    (needs_auth eng \<longrightarrow>
       (\<exists>v. safe_scan_verdict (en_customer_settings env) (gv_scans (en_view env i)) (jb_ref job) (en_paused env)
             (gv_now (en_view env i)) = Inr v \<and> sv_allowed v) \<and>
       (jb_authorization_basis job = ''owner-direct'' \<or>
        (\<exists>d. scan_authorized (gv_auth_rows (en_view env i)) (en_asset env) (rr_engine (ls_runs st ! i))
               (gv_auth_now (en_view env i)) = Inr d \<and> ad_allowed d)))"
proof -
  obtain ks st' where l: "engine_loop env job ks (initial_state env fs) = Inr st'" "ls_runs st = ls_runs st'"
    using finished_loop [OF assms(1)] by blast
  obtain rs ss where "ls_runs st' = ls_runs (initial_state env fs) @ rs" "loop_ok env job (initial_state env fs) ks rs ss"
    using engine_loop_runs [OF l(1)] by blast
  then have "ls_runs st = rs" "all_permitted env job 0 rs"
    using l(2) by (simp_all add: initial_state_def loop_ok_def)
  then have "permitted env job i (rr_engine (ls_runs st ! i))"
    using assms(2,3) by (auto simp: all_permitted_def executed_def)
  then show ?thesis by (simp add: permitted_def)
qed

subsection \<open>What a status says\<close>

lemma aligned_completed:
  "list_all2 aligned rs ss \<Longrightarrow> list_all (\<lambda>s. s = ''completed'') ss = list_all (\<lambda>r. rr_status r = ''completed'') rs"
  by (induction rule: list_all2_induct) (auto simp: aligned_def)

lemma final_completed:
  assumes "list_all2 aligned rs ss" "final_status ss = ''completed''"
  shows "list_all (\<lambda>r. rr_status r = ''completed'') rs"
proof -
  have "set ss \<subseteq> {''completed'', ''failed'', ''skipped'', ''blocked''}"
    using assms(1) by (induction rule: list_all2_induct) (auto simp: aligned_def)
  moreover have "\<not> list_ex (\<lambda>s. s \<in> {''failed'', ''skipped'', ''blocked''}) ss"
    using assms(2) by (auto simp: final_status_def split: if_splits)
  ultimately have "list_all (\<lambda>s. s = ''completed'') ss" by (auto simp: list_all_iff list_ex_iff)
  then show ?thesis using aligned_completed [OF assms(1)] by simp
qed

text \<open>C6: Completed means everything ran.  A scan whose final status is completed has one run per requested
  engine, in order, and every one of them completed: nothing skipped, deferred, blocked or failed can
  hide behind it.\<close>

theorem completed_scan_ran_everything:
  assumes "run_scan env job fs = Finished ''completed'' stats st"
  shows "map rr_engine (ls_runs st) = requested job \<and> list_all (\<lambda>r. rr_status r = ''completed'') (ls_runs st)"
proof -
  obtain ks ks' st' where l: "requested job = ks @ ks'" "engine_loop env job ks (initial_state env fs) = Inr st'"
    "ls_runs st = ls_runs st'" "ks' = []" "''completed'' = final_status (ls_statuses st')"
    using finished_loop [OF assms] by auto
  obtain rs ss where r: "ls_runs st' = ls_runs (initial_state env fs) @ rs"
    "ls_statuses st' = ls_statuses (initial_state env fs) @ ss" "loop_ok env job (initial_state env fs) ks rs ss"
    using engine_loop_runs [OF l(2)] by blast
  then have "ls_runs st = rs" "ls_statuses st' = ss" "map rr_engine rs = ks" "list_all2 aligned rs ss"
    using l(3) by (simp_all add: initial_state_def loop_ok_def)
  then show ?thesis using final_completed [of rs ss] l by simp
qed

subsection \<open>One row per issue\<close>

definition of_asset :: "asset_ref \<Rightarrow> finding \<Rightarrow> bool" where
  "of_asset asset f \<longleftrightarrow> fr_tenant_id f = as_tenant_id asset \<and> fr_asset_id f = as_id asset"

definition issues :: "asset_ref \<Rightarrow> finding list \<Rightarrow> string list" where
  "issues asset fs = map fr_fingerprint (filter (of_asset asset) fs)"

text \<open>What of a row belongs to its history.\<close>

definition history :: "finding \<Rightarrow> uuid \<times> string \<times> string \<times> int option \<times> int option \<times> string option" where
  "history f = (fr_id f, fr_fingerprint f, fr_status f, fr_reopened_count f, fr_last_verified_at f, fr_verdict f)"

definition rows_ok :: "surroundings \<Rightarrow> loop_state \<Rightarrow> bool" where
  "rows_ok env st \<longleftrightarrow> distinct (issues (en_asset env) (ls_findings st)) \<and>
     set (issues (en_asset env) (ls_findings st)) \<subseteq> fst ` set (ls_known st)"

lemma merge_map_rows:
  "issues asset (map (\<lambda>g. if fr_id g = i then merge_sighting g f s e else g) fs) = issues asset fs"
  "map history (map (\<lambda>g. if fr_id g = i then merge_sighting g f s e else g) fs) = map history fs"
  by (induction fs) (auto simp: issues_def of_asset_def history_def merge_sighting_def)

definition keeps_rows :: "surroundings \<Rightarrow> loop_state \<Rightarrow> loop_state \<Rightarrow> bool" where
  "keeps_rows env st st1 \<longleftrightarrow> rows_ok env st1 \<and> length (ls_findings st) \<le> length (ls_findings st1) \<and>
     take (length (ls_findings st)) (map history (ls_findings st1)) = map history (ls_findings st)"

lemma keeps_rows_refl: "rows_ok env st \<Longrightarrow> keeps_rows env st st"
  by (simp add: keeps_rows_def)

lemma keeps_rows_trans:
  assumes "keeps_rows env a b" "keeps_rows env b c"
  shows "keeps_rows env a c"
proof -
  let ?n = "length (ls_findings a)" and ?m = "length (ls_findings b)"
  have nm: "?n \<le> ?m" "?m \<le> length (ls_findings c)" using assms by (simp_all add: keeps_rows_def)
  have "take ?n (map history (ls_findings c)) = take ?n (take ?m (map history (ls_findings c)))"
    using nm by (simp add: min_def)
  also have "\<dots> = take ?n (map history (ls_findings b))" using assms(2) by (simp add: keeps_rows_def)
  also have "\<dots> = map history (ls_findings a)" using assms(1) by (simp add: keeps_rows_def)
  finally show ?thesis using assms nm by (simp add: keeps_rows_def)
qed

lemma absorb_rows:
  assumes a: "absorb env job c r st = Inr st1" and ok: "rows_ok env st"
  shows "keeps_rows env st st1"
proof -
  obtain f where f: "to_finding (en_sha256_hex env) (en_new_uuid env (ls_next st)) r c = Inr f"
    using a by (auto simp: absorb_def)
  show ?thesis
  proof (cases "dict_get (ls_known st) (fr_fingerprint f)")
    case None
    then have "fr_fingerprint f \<notin> fst ` set (ls_known st)" by (simp add: map_of_eq_None_iff)
    then have new: "fr_fingerprint f \<notin> set (issues (en_asset env) (ls_findings st))"
      using ok by (auto simp: rows_ok_def)
    have fs: "ls_findings st1 = ls_findings st @ [f]"
      and k: "ls_known st1 = dict_set (fr_fingerprint f) (fr_id f) (ls_known st)"
      using a f None by (auto simp: absorb_def)
    have "issues (en_asset env) (ls_findings st1) =
        issues (en_asset env) (ls_findings st) @ (if of_asset (en_asset env) f then [fr_fingerprint f] else [])"
      by (simp add: fs issues_def)
    then have "rows_ok env st1" using ok new by (auto simp: rows_ok_def k dict_keys_set)
    then show ?thesis by (simp add: keeps_rows_def fs)
  next
    case (Some i)
    then have fs: "ls_findings st1 = map (\<lambda>g. if fr_id g = i
        then merge_sighting g f (sc_id (jb_ref job)) (fc_engine_run_id c) else g) (ls_findings st)"
      and k: "ls_known st1 = ls_known st"
      using a f by (auto simp: absorb_def)
    have "length (ls_findings st1) = length (ls_findings st)" by (simp add: fs)
    moreover have "map history (ls_findings st1) = map history (ls_findings st)" unfolding fs merge_map_rows ..
    moreover have "issues (en_asset env) (ls_findings st1) = issues (en_asset env) (ls_findings st)"
      unfolding fs merge_map_rows ..
    ultimately show ?thesis using ok k by (simp add: keeps_rows_def rows_ok_def)
  qed
qed

lemma absorb_all_rows: "absorb_all env job c rs st = (st1, e) \<Longrightarrow> rows_ok env st \<Longrightarrow> keeps_rows env st st1"
proof (induction rs arbitrary: st)
  case (Cons r rs)
  show ?case
  proof (cases "absorb env job c r st")
    case (Inl err)
    then show ?thesis using Cons.prems by (simp add: keeps_rows_refl)
  next
    case (Inr st2)
    have "keeps_rows env st st2" by (rule absorb_rows [OF Inr Cons.prems(2)])
    moreover have "keeps_rows env st2 st1"
      using Cons.IH [of st2] Cons.prems Inr calculation by (simp add: keeps_rows_def)
    ultimately show ?thesis by (rule keeps_rows_trans)
  qed
qed (simp add: keeps_rows_refl)

lemma keeps_rows_close [simp]: "keeps_rows env a (close_run i k s err v es b) = keeps_rows env a b"
  by (simp add: keeps_rows_def rows_ok_def close_run_def)

lemma keeps_rows_update [simp]:
  "keeps_rows env (a\<lparr>ls_next := n\<rparr>) b = keeps_rows env a b" "keeps_rows env a (b\<lparr>ls_next := n\<rparr>) = keeps_rows env a b"
  "keeps_rows env (a\<lparr>ls_audit := u\<rparr>) b = keeps_rows env a b" "keeps_rows env a (b\<lparr>ls_audit := u\<rparr>) = keeps_rows env a b"
  "rows_ok env (a\<lparr>ls_next := n\<rparr>) = rows_ok env a" "rows_ok env (a\<lparr>ls_audit := u\<rparr>) = rows_ok env a"
  by (simp_all add: keeps_rows_def rows_ok_def)

lemma execute_rows: "rows_ok env st \<Longrightarrow> keeps_rows env st (execute_engine env job eng key i limits st)"
  by (auto simp: execute_engine_def keeps_rows_refl split: sum.splits prod.splits option.splits dest: absorb_all_rows)

lemma engine_step_rows:
  assumes "engine_step env job key st = Inr st1" "rows_ok env st"
  shows "keeps_rows env st st1"
  using assms execute_rows [of env "st\<lparr>ls_next := n, ls_audit := u\<rparr>" for n u] keeps_rows_refl [OF assms(2)]
  by (auto simp: engine_step_def Let_def split: if_splits option.splits sum.splits gate_outcome.splits)

lemma engine_loop_rows: "engine_loop env job ks st = Inr st1 \<Longrightarrow> rows_ok env st \<Longrightarrow> keeps_rows env st st1"
proof (induction ks arbitrary: st)
  case (Cons k ks)
  then obtain st2 where s: "engine_step env job k st = Inr st2" "engine_loop env job ks st2 = Inr st1"
    by (auto split: sum.splits)
  have "keeps_rows env st st2" by (rule engine_step_rows [OF s(1) Cons.prems(2)])
  moreover have "keeps_rows env st2 st1" using Cons.IH [OF s(2)] calculation by (simp add: keeps_rows_def)
  ultimately show ?case by (rule keeps_rows_trans)
qed (simp add: keeps_rows_refl)

lemma known_covers: "set (issues asset fs) \<subseteq> fst ` set (known_findings asset fs)"
proof -
  have keys: "fst ` set (fold (\<lambda>f d. dict_set (fr_fingerprint f) (fr_id f) d) gs d) = fst ` set d \<union> fr_fingerprint ` set gs"
    for gs :: "finding list" and d :: "(string, uuid) odict"
    by (induction gs arbitrary: d) (auto simp: dict_keys_set)
  show ?thesis unfolding known_findings_def keys by (auto simp: issues_def of_asset_def)
qed

text \<open>C7: One row per issue, through any number of rescans.  If no two findings of the asset share a
  fingerprint before a scan, none do after it, whatever the engines report and however often; no row
  is lost or moved, and the identity, status, reopening count and verification state of every row
  that was there are what they were: a scan overturns no decision by itself.\<close>

theorem rescan_keeps_one_row_per_issue:
  assumes "run_scan env job fs = Finished s stats st" and "distinct (issues (en_asset env) fs)"
  shows "distinct (issues (en_asset env) (ls_findings st)) \<and>
    take (length fs) (map history (ls_findings st)) = map history fs"
proof -
  obtain ks st' where l: "engine_loop env job ks (initial_state env fs) = Inr st'" "ls_findings st = ls_findings st'"
    using finished_loop [OF assms(1)] by blast
  have "rows_ok env (initial_state env fs)"
    using assms(2) known_covers by (simp add: rows_ok_def initial_state_def)
  from engine_loop_rows [OF l(1) this] show ?thesis
    using l(2) by (simp add: keeps_rows_def rows_ok_def initial_state_def)
qed

subsection \<open>Scan, then reconcile\<close>

text \<open>The rows \<open>reconcile_scan\<close> reads after the scan has been committed.\<close>

definition run_record :: "uuid \<Rightarrow> run_row \<Rightarrow> engine_run" where
  "run_record scan_id r =
     \<lparr>er_scan_id = scan_id, er_engine = rr_engine r, er_status = rr_status r, er_tool_versions = rr_tool_versions r,
      er_error = (case rr_error r of Some (EngineRaised m) \<Rightarrow> Some m | _ \<Rightarrow> None)\<rparr>"

definition committed :: "scan_job \<Rightarrow> loop_state \<Rightarrow> engine_run list \<Rightarrow> scan_db \<Rightarrow> bool" where
  "committed job st older db \<longleftrightarrow>
     sd_findings db = map finding_row.truncate (ls_findings st) \<and>
     sd_runs db = older @ map (run_record (sc_id (jb_ref job))) (ls_runs st) \<and>
     sc_id (jb_ref job) \<notin> er_scan_id ` set older"

lemma runs_of_committed:
  assumes "committed job st older db" "runs_of (sd_runs db) (sc_id (jb_ref job)) e = Some r"
  shows "\<exists>i < length (ls_runs st). r = run_record (sc_id (jb_ref job)) (ls_runs st ! i) \<and> rr_engine (ls_runs st ! i) = e"
proof -
  have "r \<in> set (sd_runs db)" "er_scan_id r = sc_id (jb_ref job)" "er_engine r = e"
    using find_SomeD [of _ "rev (sd_runs db)" r] assms(2) by (auto simp: runs_of_def)
  moreover have "r \<notin> set older"
    using assms(1) calculation(2) unfolding committed_def by (metis image_eqI)
  ultimately have "r \<in> set (map (run_record (sc_id (jb_ref job))) (ls_runs st))"
    using assms(1) by (auto simp: committed_def)
  then obtain x where x: "x \<in> set (ls_runs st)" "r = run_record (sc_id (jb_ref job)) x" by auto
  have "rr_engine x = e" using x(2) \<open>er_engine r = e\<close> by (simp add: run_record_def)
  with x show ?thesis by (metis in_set_conv_nth)
qed

text \<open>C5: A scan closes a finding only on the word of an engine that was allowed to look.  After a scan is
  committed and reconciled, every finding the reconciliation moved to resolved was not reported by
  this scan, and the engine responsible for it ran in this scan, completed with its tools, and had
  passed the gates at its turn.  An engine held back by a blackout, a pause, a concurrency limit or a
  missing authorization closes nothing.\<close>

theorem only_permitted_engines_close_findings:
  assumes "run_scan env job fs = Finished s stats st" and "committed job st older db"
    and "reconcile_scan (sc_id (jb_ref job)) now db = Inr (db', counts, unknown)"
    and "j < length (sd_findings db)" and "fr_status (sd_findings db ! j) \<noteq> ''resolved''"
    and "fr_status (sd_findings db' ! j) = ''resolved''"
  shows "\<exists>i < length (ls_runs st). rr_engine (ls_runs st ! i) = finding_engine (sd_findings db ! j) \<and>
    rr_status (ls_runs st ! i) = ''completed'' \<and> \<not> is_degraded (rr_tool_versions (ls_runs st ! i)) \<and>
    permitted env job i (rr_engine (ls_runs st ! i)) \<and>
    fr_fingerprint (sd_findings db ! j) \<notin> reported_by (sd_findings db) (sc_id (jb_ref job))"
proof -
  define sid where "sid = sc_id (jb_ref job)"
  define f where "f = sd_findings db ! j"
  have known: "find (\<lambda>s. sr_id s = sid) (sd_scans db) \<noteq> None"
  proof
    assume "find (\<lambda>s. sr_id s = sid) (sd_scans db) = None"
    then have "db' = db" using assms(3) by (simp add: reconcile_scan_def sid_def)
    with assms(5,6) show False by simp
  qed
  then obtain scan fs' vs evs stt where scan:
    "reconcile_rows scan now (reported_by (sd_findings db) sid) (runs_of (sd_runs db) sid) (sd_findings db) stats_zero
       = Inr (fs', vs, evs, stt)" "sd_findings db' = fs'"
    using assms(3) by (auto simp: reconcile_scan_def sid_def split: option.splits sum.splits prod.splits)
  have "justified (reported_by (sd_findings db) sid) (runs_of (sd_runs db) sid) f (fs' ! j)"
    using reconcile_rows_ok [OF scan(1)] assms(4) by (auto simp: f_def list_all2_conv_all_nth)
  then have "clean_absence (reported_by (sd_findings db) sid) (runs_of (sd_runs db) sid) f"
    using assms(5,6) scan(2) by (auto simp: justified_def f_def)
  then obtain r where r: "runs_of (sd_runs db) sid (finding_engine f) = Some r" "er_status r = ''completed''"
    "\<not> is_degraded (er_tool_versions r)" "fr_fingerprint f \<notin> reported_by (sd_findings db) sid"
    by (auto simp: clean_absence_def)
  obtain i where i: "i < length (ls_runs st)" "r = run_record sid (ls_runs st ! i)" "rr_engine (ls_runs st ! i) = finding_engine f"
    using runs_of_committed [OF assms(2) r(1) [unfolded sid_def]] by (auto simp: sid_def)
  have c: "rr_status (ls_runs st ! i) = ''completed''" "\<not> is_degraded (rr_tool_versions (ls_runs st ! i))"
    using r i(2) by (simp_all add: run_record_def)
  obtain ks st' where l: "engine_loop env job ks (initial_state env fs) = Inr st'" "ls_runs st = ls_runs st'"
    using finished_loop [OF assms(1)] by blast
  obtain rs ss where "ls_runs st' = ls_runs (initial_state env fs) @ rs" "loop_ok env job (initial_state env fs) ks rs ss"
    using engine_loop_runs [OF l(1)] by blast
  then have "permitted env job i (rr_engine (ls_runs st ! i))"
    using l(2) i(1) c(1) by (auto simp: initial_state_def loop_ok_def all_permitted_def executed_def)
  then show ?thesis using i c r(4) by (auto simp: f_def sid_def)
qed

subsection \<open>A scan\<close>

definition demo_dast :: engine where
  "demo_dast = \<lparr>eg_key = EngDast, eg_version = ''1'', eg_requires_authorization = True, eg_supports = (\<lambda>k. k = ''web''),
     eg_source = ''automated'', eg_run = (\<lambda>limits. Inr \<lparr>oc_raws = [], oc_degraded = False, oc_missing = []\<rparr>)\<rparr>"

definition demo_job :: scan_job where
  "demo_job = \<lparr>jb_ref = \<lparr>sc_id = 77, sc_asset_id = 5, sc_status = ''queued''\<rparr>, jb_requested_engines = [''dast''],
     jb_authorization_basis = ''verified-ownership'', jb_error = None\<rparr>"

definition demo_env :: surroundings where
  "demo_env = \<lparr>en_engines = [demo_dast], en_sha256_hex = id, en_new_uuid = (\<lambda>n. int n + 1000), en_asset = demo_web_asset,
     en_exposure = ''public'', en_customer_settings = JObj [], en_criticality = ''high'', en_business_impact = ''high'',
     en_paused = False, en_artifact_error = None, en_workspace_error = None,
     en_view = (\<lambda>i. \<lparr>gv_now = 0, gv_scans = [], gv_auth_now = 50, gv_auth_rows = [demo_authorization]\<rparr>)\<rparr>"

definition demo_finding :: finding where
  "demo_finding = (projr (to_finding id 9 (demo_raw\<lparr>rw_location := [(''engine'', JStr ''dast'')]\<rparr>)
     (demo_context\<lparr>fc_asset_id := 5\<rparr>)))"

definition demo_db :: "loop_state \<Rightarrow> scan_db" where
  "demo_db st = \<lparr>sd_scans = [\<lparr>sr_id = 77, sr_tenant_id = 1, sr_asset_id = 5\<rparr>],
     sd_runs = map (run_record 77) (ls_runs st), sd_findings = map finding_row.truncate (ls_findings st),
     sd_verifications = [], sd_events = []\<rparr>"

definition demo_state :: loop_state where
  "demo_state = \<lparr>ls_runs = [\<lparr>rr_id = 1000, rr_engine = ''dast'', rr_status = ''completed'', rr_error = None,
        rr_tool_versions = JObj [(''dast'', JStr ''1''), (''degraded'', JBool False), (''missing'', JList [])]\<rparr>],
     ls_statuses = [''completed''], ls_findings = [demo_finding],
     ls_known = [(fr_fingerprint demo_finding, 9)], ls_observed = [], ls_next = 1,
     ls_audit = [AuditScanCompleted ''completed'']\<rparr>"

lemma demo_env_simps:
  "en_engines demo_env = [demo_dast]" "en_new_uuid demo_env n = int n + 1000" "en_asset demo_env = demo_web_asset"
  "en_artifact_error demo_env = None" "en_workspace_error demo_env = None"
  by (simp_all add: demo_env_def)

lemma demo_job_simps:
  "sc_status (jb_ref demo_job) = ''queued''" "jb_requested_engines demo_job = [''dast'']" "sc_id (jb_ref demo_job) = 77"
  by (simp_all add: demo_job_def)

lemma demo_gate:
  "engine_gate demo_env demo_job (en_view demo_env i) demo_dast ''dast'' =
     Inr (Cleared (Some (the (dict_get PROFILES ''safe''))) [])"
proof -
  have k: "known_profile JNull = ''safe''" by code_simp
  have e: "parse_policy (JObj []) = Inr \<lparr>po_profile = ''safe'', po_windows = [], po_paused = False,
      po_pause_reason = [], po_max_concurrent = 1\<rparr>"
    by (simp add: parse_policy_def parse_policy_raw_def jor_def DEFAULT_MAX_CONCURRENT_def k)
  show ?thesis
    using demo_decision
    by (simp add: engine_gate_def needs_auth_def demo_dast_def demo_env_def demo_job_def safe_scan_verdict_def e
        safe_check_def concurrent_scans_on_def policy_limits_def PROFILES_def)
qed

lemma demo_dast_key:
  "eg_key demo_dast = EngDast" "eg_supports demo_dast k = (k = ''web'')" "eg_version demo_dast = ''1''"
  "eg_run demo_dast l = Inr \<lparr>oc_raws = [], oc_degraded = False, oc_missing = []\<rparr>"
  by (simp_all add: demo_dast_def)

lemma demo_finding_simps:
  "fr_id demo_finding = 9" "fr_asset_id demo_finding = 5" "fr_tenant_id demo_finding = 1" "fr_scan_id demo_finding = 3"
  "fr_status demo_finding = ''open''" "fr_location demo_finding = [(''engine'', JStr ''dast'')]"
  by (simp_all add: demo_finding_def to_finding_def score_inputs_of_def demo_raw_def demo_context_def Let_def dict_pop_def)

lemma demo_scan: "run_scan demo_env demo_job [demo_finding] =
    Finished ''completed'' (Some (scan_stats (demo_state\<lparr>ls_audit := []\<rparr>))) demo_state"
proof -
  have s: "engine_step demo_env demo_job ''dast'' (initial_state demo_env [demo_finding]) = Inr (demo_state\<lparr>ls_audit := []\<rparr>)"
    using demo_gate [of 0] demo_finding_simps
    by (simp add: engine_step_def initial_state_def known_findings_def get_engine_def demo_env_simps demo_dast_key
        demo_web_asset_def execute_engine_def close_run_def health_versions_def demo_state_def)
  show ?thesis
    by (simp add: run_scan_def demo_job_simps requested_def demo_env_simps s final_status_def Let_def)
      (simp add: demo_state_def final_status_def)
qed

lemma engines_run_behind_the_gates_witness:
  "\<exists>d. scan_authorized [demo_authorization] demo_web_asset ''dast'' 50 = Inr d \<and> ad_allowed d"
  using engines_run_behind_the_gates [OF demo_scan, of 0]
  by (auto simp: demo_state_def demo_env_def get_engine_def demo_dast_def needs_auth_def demo_job_def)

lemma completed_scan_ran_everything_witness:
  "map rr_engine (ls_runs demo_state) = [''dast'']"
  using completed_scan_ran_everything [OF demo_scan] by (simp add: demo_job_def requested_def)

lemma rescan_keeps_one_row_per_issue_witness:
  "map history (ls_findings demo_state) = map history [demo_finding]"
  using rescan_keeps_one_row_per_issue [OF demo_scan]
  by (simp add: issues_def demo_state_def)

lemma demo_engine: "finding_engine (finding_row.truncate demo_finding) = ''dast''"
  by (simp add: finding_engine_def finding_row.defs demo_finding_simps)

lemma demo_reconciled:
  "\<exists>db' counts. reconcile_scan 77 60 (demo_db demo_state) = Inr (db', counts, False) \<and>
     length (sd_findings db') = 1 \<and> fr_status (sd_findings db' ! 0) = ''resolved''"
proof -
  have e: "finding_engine (finding_row.truncate demo_finding\<lparr>fr_last_verified_at := a, fr_verdict := b\<rparr>) = ''dast''" for a b
    using demo_engine by simp
  have f: "fr_scan_id (finding_row.truncate demo_finding) = 3" "fr_status (finding_row.truncate demo_finding) = ''open''"
    "fr_tenant_id (finding_row.truncate demo_finding) = 1" "fr_asset_id (finding_row.truncate demo_finding) = 5"
    by (simp_all add: finding_row.defs demo_finding_simps)
  show ?thesis
    by (simp add: reconcile_scan_def demo_db_def demo_state_def on_asset_def f verdict_for_def reported_by_def
        demo_engine runs_of_def run_record_def engine_outcome_def is_degraded_def jor_def apply_verdict_def move_def
        is_evidence_def OPEN_FINDING_STATUSES_def Let_def)
qed

lemma only_permitted_engines_close_findings_witness: "permitted demo_env demo_job 0 ''dast''"
proof -
  obtain db' counts where r: "reconcile_scan (sc_id (jb_ref demo_job)) 60 (demo_db demo_state) = Inr (db', counts, False)"
    "fr_status (sd_findings db' ! 0) = ''resolved''"
    using demo_reconciled by (auto simp: demo_job_simps)
  have c: "committed demo_job demo_state [] (demo_db demo_state)"
    by (simp add: committed_def demo_db_def demo_job_simps)
  have j: "0 < length (sd_findings (demo_db demo_state))" "fr_status (sd_findings (demo_db demo_state) ! 0) \<noteq> ''resolved''"
    by (simp_all add: demo_db_def demo_state_def finding_row.defs demo_finding_simps)
  show ?thesis
    using only_permitted_engines_close_findings [OF demo_scan c r(1) j r(2)] by (auto simp: demo_state_def)
qed

text \<open>An engine requested twice breaks the transaction, and the scan is queued again for the next
  worker to break on.\<close>

lemma duplicate_engine_crashes:
  "run_scan demo_env (demo_job\<lparr>jb_requested_engines := [''x'', ''x'']\<rparr>) fs = Crashed"
  by (simp add: run_scan_def demo_job_simps requested_def demo_env_simps initial_state_def engine_step_def get_engine_def
      demo_dast_key close_run_def Let_def)

end
