(* ===== verification/Webhooks.thy ===== *)
theory Webhooks
  imports PyNet PyJson
begin

text \<open>
  \<open>guardian_core/webhooks.py\<close> and the worker's \<open>webhooks.py\<close>: where an event may be sent, what its body
  and signature are, when a failed delivery is tried again, and the delivery of queued events.  The
  keyed digest \<open>hmac_hex secret text\<close> (HMAC-SHA256 in hexadecimal), the redaction \<open>scrub\<close> and the network
  are parameters; a request that was sent is returned so that theorems can speak of it.
\<close>

subsection \<open>Constants\<close>

definition REPLAY_WINDOW_SECONDS :: int where "REPLAY_WINDOW_SECONDS = 300"

definition MAX_BODY_BYTES :: nat where "MAX_BODY_BYTES = 64000"

definition WEBHOOK_EVENTS :: "string list" where
  "WEBHOOK_EVENTS = [''scan.completed'', ''scan.failed'', ''finding.critical'', ''finding.reopened'',
     ''remediation.overdue'', ''ownership.verified'', ''compliance.control_failed'']"

definition RETRY_DELAYS_SECONDS :: "int list" where "RETRY_DELAYS_SECONDS = [60, 300, 1500]"

definition MAX_ATTEMPTS :: int where "MAX_ATTEMPTS = int (length RETRY_DELAYS_SECONDS) + 1"

definition MAX_CONSECUTIVE_FAILURES :: int where "MAX_CONSECUTIVE_FAILURES = 20"

subsection \<open>Destinations\<close>

datatype url_refusal = NotHttps | NoHost | InlineCredentials | Loopback | TooLong | MalformedUrl

definition LOOPBACK :: "string set" where
  "LOOPBACK = {''localhost'', ''127.0.0.1'', ''::1'', ''0.0.0.0''}"

definition given :: "string option \<Rightarrow> bool" where
  "given x = (case x of Some s \<Rightarrow> s \<noteq> [] | None \<Rightarrow> False)"

definition validate_url :: "string \<Rightarrow> url_refusal + string" where
  "validate_url url =
     (let text = py_strip url in
      case urlparse text of None \<Rightarrow> Inl MalformedUrl
      | Some u \<Rightarrow>
        if url_scheme u \<noteq> ''https'' then Inl NotHttps
        else if \<not> given (url_hostname u) then Inl NoHost
        else if given (url_username u) \<or> given (url_password u) then Inl InlineCredentials
        else let host = py_lower (the (url_hostname u)) in
          if host \<in> LOOPBACK \<or> endswith host ''.localhost'' then Inl Loopback
          else if length text > 2000 then Inl TooLong else Inr text)"

subsection \<open>Events and signatures\<close>

text \<open>\<open>ev_occurred_at\<close> is \<open>occurred_at.isoformat()\<close>.\<close>

record event =
  ev_id :: string
  ev_type :: string
  ev_occurred_at :: string
  ev_tenant_id :: string
  ev_customer_id :: "string option"
  ev_data :: jobj

definition event_body :: "event \<Rightarrow> string" where
  "event_body e = json_dumps (JObj
     [(''id'', JStr (ev_id e)), (''type'', JStr (ev_type e)), (''occurred_at'', JStr (ev_occurred_at e)),
      (''tenant_id'', JStr (ev_tenant_id e)),
      (''customer_id'', case ev_customer_id e of Some c \<Rightarrow> JStr c | None \<Rightarrow> JNull), (''data'', JObj (ev_data e))])"

definition NEVER_SENT :: "string set" where
  "NEVER_SENT = {''evidence'', ''excerpt'', ''match'', ''secret'', ''token'', ''raw''}"

definition sanitize :: "(jobj \<Rightarrow> jobj \<times> string list) \<Rightarrow> jobj \<Rightarrow> jobj \<times> string list" where
  "sanitize scrub data = scrub (filter (\<lambda>(k, v). k \<notin> NEVER_SENT) data)"

definition signed_text :: "int \<Rightarrow> string \<Rightarrow> string" where
  "signed_text timestamp body = str_int timestamp @ ''.'' @ body"

definition sign :: "(string \<Rightarrow> string \<Rightarrow> string) \<Rightarrow> string \<Rightarrow> string \<Rightarrow> int \<Rightarrow> string" where
  "sign hmac_hex body secret timestamp =
     ''t='' @ str_int timestamp @ '',v1='' @ hmac_hex secret (signed_text timestamp body)"

definition header_parts :: "string \<Rightarrow> (string, string) odict" where
  "header_parts header =
     fold (\<lambda>piece d. let (k, found, v) = partition_on (CHR ''='') piece in if found then dict_set k v d else d)
       (split_on (CHR '','') header) []"

text \<open>\<open>hmac.compare_digest\<close> of two strings raises \<open>TypeError\<close> when one is not ASCII.\<close>

definition ascii :: "string \<Rightarrow> bool" where
  "ascii s \<longleftrightarrow> list_all (\<lambda>c. ordc c < 128) s"

definition verify_signature ::
    "(string \<Rightarrow> string \<Rightarrow> string) \<Rightarrow> string \<Rightarrow> string \<Rightarrow> string \<Rightarrow> int \<Rightarrow> int \<Rightarrow> py_error + bool" where
  "verify_signature hmac_hex body header secret now window =
     (let parts = header_parts header in
      case py_int (dict_getdef parts ''t'' []) of None \<Rightarrow> Inr False
      | Some timestamp \<Rightarrow>
        if \<bar>now - timestamp\<bar> > window then Inr False
        else let expected = hmac_hex secret (signed_text timestamp body); sent = dict_getdef parts ''v1'' [] in
          if ascii expected \<and> ascii sent then Inr (expected = sent) else Inl TypeError)"

subsection \<open>Retries\<close>

definition should_retry :: "int \<Rightarrow> int \<Rightarrow> bool" where
  "should_retry status attempt =
     (if attempt \<ge> MAX_ATTEMPTS then False
      else if status = 0 then True
      else if 200 \<le> status \<and> status < 300 then False
      else if 400 \<le> status \<and> status < 500 then status \<in> {408, 429}
      else True)"

definition retry_delay :: "int \<Rightarrow> int" where
  "retry_delay attempt =
     RETRY_DELAYS_SECONDS ! nat (min (max (attempt - 1) 0) (int (length RETRY_DELAYS_SECONDS) - 1))"

text \<open>\<open>int(moment.timestamp())\<close>\<close>

definition unix_seconds :: "int \<Rightarrow> int" where
  "unix_seconds t = trunc_rat (fl (of_int t / 1000000))"

definition webhook_headers :: "string \<Rightarrow> string \<Rightarrow> string \<Rightarrow> int \<Rightarrow> (string, string) odict" where
  "webhook_headers event_type signature delivery_id now =
     [(''content-type'', ''application/json''), (''user-agent'', ''guardian-webhooks/1''),
      (''X-Guardian-Event'', event_type), (''X-Guardian-Delivery'', delivery_id),
      (''X-Guardian-Signature'', signature), (''X-Guardian-Timestamp'', str_int (unix_seconds now))]"

subsection \<open>Endpoints and deliveries\<close>

datatype disabled_reason = TooManyFailures int int string

record endpoint =
  ep_id :: uuid
  ep_tenant_id :: uuid
  ep_customer_id :: "uuid option"
  ep_url :: string
  ep_events :: "string list"
  ep_secret :: string
  ep_enabled :: bool
  ep_disabled_at :: "int option"
  ep_disabled_reason :: "disabled_reason option"
  ep_consecutive_failures :: int
  ep_last_success_at :: "int option"

record delivery =
  dl_id :: uuid
  dl_tenant_id :: uuid
  dl_endpoint_id :: uuid
  dl_event_type :: string
  dl_event_id :: string
  dl_status :: string
  dl_attempts :: int
  dl_response_status :: "int option"
  dl_error :: "string option"
  dl_next_attempt_at :: "int option"
  dl_delivered_at :: "int option"
  dl_payload :: string

record webhook_db =
  wd_endpoints :: "endpoint list"
  wd_deliveries :: "delivery list"

record request =
  rq_url :: string
  rq_body :: string
  rq_headers :: "(string, string) odict"

definition put_endpoint :: "endpoint \<Rightarrow> endpoint list \<Rightarrow> endpoint list" where
  "put_endpoint e es = map (\<lambda>x. if ep_id x = ep_id e then e else x) es"

definition put_delivery :: "delivery \<Rightarrow> delivery list \<Rightarrow> delivery list" where
  "put_delivery d ds = map (\<lambda>x. if dl_id x = dl_id d then d else x) ds"

text \<open>What a response does to the two rows.\<close>

definition failed_endpoint :: "int \<Rightarrow> int \<Rightarrow> string \<Rightarrow> endpoint \<Rightarrow> endpoint" where
  "failed_endpoint now status detail e =
     (let e1 = e\<lparr>ep_consecutive_failures := ep_consecutive_failures e + 1\<rparr> in
      if ep_consecutive_failures e1 \<ge> MAX_CONSECUTIVE_FAILURES
      then e1\<lparr>ep_enabled := False, ep_disabled_at := Some now,
              ep_disabled_reason := Some (TooManyFailures (ep_consecutive_failures e1) status (take 120 detail))\<rparr>
      else e1)"

definition failed_delivery :: "int \<Rightarrow> int \<Rightarrow> string \<Rightarrow> delivery \<Rightarrow> delivery" where
  "failed_delivery now status detail d =
     (let d1 = d\<lparr>dl_error := Some detail\<rparr> in
      if should_retry status (dl_attempts d1)
      then d1\<lparr>dl_status := ''pending'', dl_next_attempt_at := Some (now + seconds (retry_delay (dl_attempts d1)))\<rparr>
      else d1\<lparr>dl_status := ''failed'', dl_next_attempt_at := None\<rparr>)"

definition delivered_delivery :: "int \<Rightarrow> delivery \<Rightarrow> delivery" where
  "delivered_delivery now d =
     d\<lparr>dl_status := ''delivered'', dl_delivered_at := Some now, dl_error := None, dl_next_attempt_at := None\<rparr>"

definition delivery_request :: "(string \<Rightarrow> string \<Rightarrow> string) \<Rightarrow> int \<Rightarrow> endpoint \<Rightarrow> delivery \<Rightarrow> request" where
  "delivery_request hmac_hex now e d =
     \<lparr>rq_url = ep_url e, rq_body = dl_payload d,
      rq_headers = webhook_headers (dl_event_type d)
        (sign hmac_hex (dl_payload d) (ep_secret e) (unix_seconds now)) (str_uuid (dl_id d)) now\<rparr>"

definition deliver_webhook ::
    "(string \<Rightarrow> string \<Rightarrow> string) \<Rightarrow> (request \<Rightarrow> int \<times> string) \<Rightarrow> int \<Rightarrow> uuid \<Rightarrow> webhook_db \<Rightarrow>
     webhook_db \<times> string \<times> request list" where
  "deliver_webhook hmac_hex post now delivery_id db =
     (case find (\<lambda>d. dl_id d = delivery_id) (wd_deliveries db) of
        None \<Rightarrow> (db, ''unknown'', [])
      | Some d \<Rightarrow>
        if dl_status d = ''delivered'' then (db, ''delivered'', [])
        else (case find (\<lambda>e. ep_id e = dl_endpoint_id d \<and> ep_enabled e) (wd_endpoints db) of
            None \<Rightarrow>
              (db\<lparr>wd_deliveries := put_delivery (d\<lparr>dl_status := ''dropped'',
                 dl_error := Some ''the endpoint was removed or disabled before delivery''\<rparr>) (wd_deliveries db)\<rparr>,
               ''dropped'', [])
          | Some e \<Rightarrow>
            (let d1 = d\<lparr>dl_attempts := dl_attempts d + 1\<rparr>;
                 req = delivery_request hmac_hex now e d1; (status, detail) = post req;
                 d2 = d1\<lparr>dl_response_status := Some status\<rparr>
             in if 200 \<le> status \<and> status < 300
                then (\<lparr>wd_endpoints = put_endpoint (e\<lparr>ep_consecutive_failures := 0, ep_last_success_at := Some now\<rparr>) (wd_endpoints db),
                       wd_deliveries = put_delivery (delivered_delivery now d2) (wd_deliveries db)\<rparr>, ''delivered'', [req])
                else let d3 = failed_delivery now status detail d2 in
                  (\<lparr>wd_endpoints = put_endpoint (failed_endpoint now status detail e) (wd_endpoints db),
                    wd_deliveries = put_delivery d3 (wd_deliveries db)\<rparr>, dl_status d3, [req]))))"

text \<open>The wanted endpoints of an event, in table order; \<open>new_ids\<close> gives each delivery its row id and event id.\<close>

definition wants :: "uuid \<Rightarrow> string \<Rightarrow> uuid option \<Rightarrow> endpoint \<Rightarrow> bool" where
  "wants tenant event_type customer e \<longleftrightarrow> ep_tenant_id e = tenant \<and> ep_enabled e \<and> event_type \<in> set (ep_events e) \<and>
     \<not> (case (ep_customer_id e, customer) of (Some a, Some b) \<Rightarrow> a \<noteq> b | _ \<Rightarrow> False)"

definition new_delivery ::
    "uuid \<Rightarrow> string \<Rightarrow> uuid option \<Rightarrow> jobj \<Rightarrow> int \<Rightarrow> string \<Rightarrow> endpoint \<Rightarrow> uuid \<times> string \<Rightarrow> delivery" where
  "new_delivery tenant event_type customer payload now now_text e ids =
     \<lparr>dl_id = fst ids, dl_tenant_id = tenant, dl_endpoint_id = ep_id e, dl_event_type = event_type,
      dl_event_id = snd ids, dl_status = ''pending'', dl_attempts = 0, dl_response_status = None, dl_error = None,
      dl_next_attempt_at = Some now, dl_delivered_at = None,
      dl_payload = take MAX_BODY_BYTES (event_body \<lparr>ev_id = snd ids, ev_type = event_type, ev_occurred_at = now_text,
         ev_tenant_id = str_uuid tenant, ev_customer_id = map_option str_uuid customer, ev_data = payload\<rparr>)\<rparr>"

definition enqueue ::
    "(jobj \<Rightarrow> jobj \<times> string list) \<Rightarrow> (nat \<Rightarrow> uuid \<times> string) \<Rightarrow> uuid \<Rightarrow> string \<Rightarrow> jobj \<Rightarrow> uuid option \<Rightarrow> int \<Rightarrow> string \<Rightarrow>
     webhook_db \<Rightarrow> py_error + (webhook_db \<times> uuid list)" where
  "enqueue scrub new_ids tenant event_type data customer now now_text db =
     (if event_type \<notin> set WEBHOOK_EVENTS then Inl ValueError
      else let payload = fst (sanitize scrub data);
               targets = filter (wants tenant event_type customer) (wd_endpoints db);
               ds = map (\<lambda>(e, i). new_delivery tenant event_type customer payload now now_text e (new_ids i))
                      (zip targets [0..<length targets])
        in Inr (db\<lparr>wd_deliveries := wd_deliveries db @ ds\<rparr>, map dl_id ds))"

definition due_deliveries :: "int \<Rightarrow> webhook_db \<Rightarrow> delivery list" where
  "due_deliveries now db = sort_key (\<lambda>d. the (dl_next_attempt_at d))
     (filter (\<lambda>d. dl_status d = ''pending'' \<and> (case dl_next_attempt_at d of Some t \<Rightarrow> t \<le> now | None \<Rightarrow> False)) (wd_deliveries db))"

definition sweep_webhook_deliveries :: "nat \<Rightarrow> int \<Rightarrow> webhook_db \<Rightarrow> uuid list" where
  "sweep_webhook_deliveries limit now db = map dl_id (take limit (due_deliveries now db))"

subsection \<open>Runs\<close>

text \<open>
  What the workers do to the tables: events are queued under fresh row ids, and a delivery task may run for
  any id at any time (the dispatch after a scan and the minute sweep both send one, so a delivery can get
  two).  The log holds the delivery posted, its status when the task picked it up, and the request.
\<close>

definition status_of :: "uuid \<Rightarrow> webhook_db \<Rightarrow> string" where
  "status_of i db = (case find (\<lambda>d. dl_id d = i) (wd_deliveries db) of Some d \<Rightarrow> dl_status d | None \<Rightarrow> [])"

inductive webhook_run ::
    "(string \<Rightarrow> string \<Rightarrow> string) \<Rightarrow> (jobj \<Rightarrow> jobj \<times> string list) \<Rightarrow> webhook_db \<Rightarrow>
     (uuid \<times> string \<times> request) list \<Rightarrow> webhook_db \<Rightarrow> bool" for hmac_hex scrub db0 where
  started: "webhook_run hmac_hex scrub db0 [] db0"
| queued: "webhook_run hmac_hex scrub db0 sent db \<Longrightarrow>
     enqueue scrub new_ids tenant event_type data customer now now_text db = Inr (db', ids) \<Longrightarrow>
     distinct ids \<Longrightarrow> set ids \<inter> dl_id ` set (wd_deliveries db) = {} \<Longrightarrow> webhook_run hmac_hex scrub db0 sent db'"
| dispatched: "webhook_run hmac_hex scrub db0 sent db \<Longrightarrow> deliver_webhook hmac_hex post now i db = (db', st, reqs) \<Longrightarrow>
     webhook_run hmac_hex scrub db0 (sent @ map (\<lambda>r. (i, status_of i db, r)) reqs) db'"

definition posts_of :: "uuid \<Rightarrow> (uuid \<times> string \<times> request) list \<Rightarrow> nat" where
  "posts_of i sent = length (filter (\<lambda>(j, st, r). j = i) sent)"

definition delivery_ok :: "delivery \<Rightarrow> bool" where
  "delivery_ok d \<longleftrightarrow> dl_status d \<in> {''pending'', ''delivered'', ''failed'', ''dropped''} \<and>
     (dl_status d = ''pending'' \<longrightarrow> dl_attempts d < MAX_ATTEMPTS \<and> dl_next_attempt_at d \<noteq> None) \<and>
     (dl_status d = ''failed'' \<longrightarrow> dl_next_attempt_at d = None \<and> dl_error d \<noteq> None) \<and>
     (dl_status d = ''delivered'' \<longrightarrow> dl_next_attempt_at d = None \<and> dl_error d = None \<and> dl_delivered_at d \<noteq> None \<and>
        (case dl_response_status d of Some c \<Rightarrow> 200 \<le> c \<and> c < 300 | None \<Rightarrow> False))"

definition endpoint_ok :: "endpoint \<Rightarrow> bool" where
  "endpoint_ok e \<longleftrightarrow> (ep_enabled e \<longrightarrow> ep_consecutive_failures e < MAX_CONSECUTIVE_FAILURES)"

definition tables_ok :: "webhook_db \<Rightarrow> bool" where
  "tables_ok db \<longleftrightarrow> distinct (map ep_id (wd_endpoints db)) \<and> distinct (map dl_id (wd_deliveries db)) \<and>
     (\<forall>e\<in>set (wd_endpoints db). endpoint_ok e) \<and> (\<forall>d\<in>set (wd_deliveries db). delivery_ok d)"

text \<open>The facts about one endpoint no worker ever changes.\<close>

definition endpoint_identity :: "endpoint \<Rightarrow> uuid \<times> string \<times> string \<times> string list" where
  "endpoint_identity e = (ep_id e, ep_url e, ep_secret e, ep_events e)"

text \<open>The digest is lower-case hexadecimal, as \<open>hexdigest()\<close> returns it.\<close>

definition hex_digests :: "(string \<Rightarrow> string \<Rightarrow> string) \<Rightarrow> bool" where
  "hex_digests hmac_hex \<longleftrightarrow> (\<forall>k m. set (hmac_hex k m) \<subseteq> set ''0123456789abcdef'')"

subsection \<open>Signatures\<close>

lemma digit_facts: "is_digit c \<Longrightarrow> \<not> is_space c \<and> c \<noteq> CHR ''_'' \<and> c \<noteq> CHR ''.'' \<and> c \<noteq> CHR '','' \<and> c \<noteq> CHR ''-'' \<and> c \<noteq> CHR ''+''"
  by (auto simp: is_digit_def is_space_def ordc_def)

lemma py_int_unsigned_str: "0 \<le> n \<Longrightarrow> py_int_unsigned (str_digits n) = Some n"
proof -
  assume n: "0 \<le> n"
  have d: "str_isdigit (str_digits n)" using n by (rule str_digits_isdigit)
  then have "CHR ''_'' \<notin> set (str_digits n)" using digit_facts by (auto simp: str_isdigit_def list_all_iff)
  then have "split_on (CHR ''_'') (str_digits n) = [str_digits n]" by (rule split_on_no_sep)
  moreover have "filter is_digit (str_digits n) = str_digits n"
    using d by (simp add: str_isdigit_def list_all_iff filter_id_conv)
  ultimately show ?thesis using n d by (simp add: py_int_unsigned_def underscore_ok_def)
qed

lemma strip_no_space:
  assumes "\<forall>c\<in>set s. \<not> is_space c"
  shows "py_strip s = s"
proof -
  have "dropWhile is_space s = s" using assms by (cases s) auto
  moreover have "dropWhile is_space (rev s) = rev s"
  proof (cases "rev s")
    case (Cons c cs)
    then have "c \<in> set s" by (metis list.set_intros(1) set_rev)
    with Cons assms show ?thesis by simp
  qed simp
  ultimately show ?thesis by (simp add: py_strip_def strip_by_def lstrip_by_def rstrip_by_def)
qed

lemma str_int_chars: "c \<in> set (str_int n) \<Longrightarrow> is_digit c \<or> c = CHR ''-''"
proof -
  assume "c \<in> set (str_int n)"
  then have "c = CHR ''-'' \<or> c \<in> set (str_digits \<bar>n\<bar>)" by (cases "n < 0") (auto simp: str_int_def)
  then show ?thesis using str_digits_isdigit [of "\<bar>n\<bar>"] by (auto simp: str_isdigit_def list_all_iff)
qed

lemma str_int_free: "CHR '','' \<notin> set (str_int n)" "CHR ''.'' \<notin> set (str_int n)"
  using str_int_chars digit_facts by (fastforce, fastforce)

lemma py_int_str [simp]: "py_int (str_int n) = Some n"
proof -
  have "is_space (CHR ''-'') = False" by code_simp
  then have strip: "py_strip (str_int n) = str_int n"
    using str_int_chars digit_facts by (intro strip_no_space) blast
  have d: "str_isdigit (str_digits \<bar>n\<bar>)" by (rule str_digits_isdigit) simp
  then obtain c cs where c: "str_digits \<bar>n\<bar> = c # cs" "is_digit c"
    by (cases "str_digits \<bar>n\<bar>") (auto simp: str_isdigit_def)
  note facts = digit_facts [OF c(2)]
  show ?thesis
  proof (cases "n < 0")
    case True
    then have "str_int n = CHR ''-'' # str_digits (- n)" by (simp add: str_int_def)
    with strip True show ?thesis by (simp add: py_int_def py_int_unsigned_str)
  next
    case False
    then have s: "str_int n = c # cs" "str_digits n = c # cs" using c by (simp_all add: str_int_def)
    have "py_int_unsigned (c # cs) = Some n" using False py_int_unsigned_str [of n] s(2) by simp
    with strip facts s(1) show ?thesis by (simp add: py_int_def)
  qed
qed

lemma str_int_inject [simp]: "str_int m = str_int n \<longleftrightarrow> m = n"
  by (metis option.inject py_int_str)

lemma signed_text_inject: "signed_text t b = signed_text t' b' \<longleftrightarrow> t = t' \<and> b = b'"
proof
  assume eq: "signed_text t b = signed_text t' b'"
  have "split_on (CHR ''.'') (signed_text u x) = str_int u # split_on (CHR ''.'') x" for u x
    using split_on_append [OF str_int_free(2)] by (simp add: signed_text_def)
  with eq have "str_int t = str_int t'" by (metis list.inject)
  with eq show "t = t' \<and> b = b'" by (simp add: signed_text_def)
qed simp

lemma hex_digest_free:
  assumes "hex_digests hmac_hex"
  shows "CHR '','' \<notin> set (hmac_hex k m)" "ascii (hmac_hex k m)"
proof -
  have s: "set (hmac_hex k m) \<subseteq> set ''0123456789abcdef''" using assms by (simp add: hex_digests_def)
  have "CHR '','' \<notin> set ''0123456789abcdef''" by simp
  with s show "CHR '','' \<notin> set (hmac_hex k m)" by blast
  have "\<forall>c\<in>set ''0123456789abcdef''. ordc c < 128" by (simp add: ordc_def)
  with s show "ascii (hmac_hex k m)" by (auto simp: ascii_def list_all_iff)
qed

lemma verify_header:
  assumes "CHR '','' \<notin> set digest" "ascii digest" "hex_digests hmac_hex"
  shows "verify_signature hmac_hex body (''t='' @ str_int t @ '',v1='' @ digest) secret now window =
     Inr (\<bar>now - t\<bar> \<le> window \<and> hmac_hex secret (signed_text t body) = digest)"
proof -
  have "split_on (CHR '','') (''t='' @ str_int t @ '',v1='' @ digest) = [''t='' @ str_int t, ''v1='' @ digest]"
    using split_on_append [of "CHR '',''" "''t='' @ str_int t" "''v1='' @ digest"]
      split_on_no_sep [of "CHR '',''" "''v1='' @ digest"] str_int_free(1) assms(1) by simp
  then have "header_parts (''t='' @ str_int t @ '',v1='' @ digest) = [(''t'', str_int t), (''v1'', digest)]"
    by (simp add: header_parts_def partition_on_def)
  then show ?thesis
    using assms(2) hex_digest_free(2) [OF assms(3)] by (simp add: verify_signature_def dict_getdef_def)
qed

text \<open>A signature binds the body and the time it was made.  A receiver accepts what Guardian signed exactly
  while its clock is within the window of the timestamp; and a digest made for another body or another
  timestamp, sent under any timestamp, is accepted only if the keyed digests of the two texts collide.\<close>

theorem signature_binds_body_and_time:
  assumes "hex_digests hmac_hex"
  shows "verify_signature hmac_hex body (sign hmac_hex body secret t) secret now window = Inr (\<bar>now - t\<bar> \<le> window) \<and>
    (verify_signature hmac_hex body (''t='' @ str_int t @ '',v1='' @ hmac_hex secret (signed_text t0 body0)) secret now window = Inr True \<longrightarrow>
      \<bar>now - t\<bar> \<le> window \<and> (t = t0 \<and> body = body0 \<or>
        signed_text t body \<noteq> signed_text t0 body0 \<and> hmac_hex secret (signed_text t body) = hmac_hex secret (signed_text t0 body0)))"
proof -
  have "verify_signature hmac_hex body (sign hmac_hex body secret t) secret now window = Inr (\<bar>now - t\<bar> \<le> window)"
    using verify_header [OF hex_digest_free(1) [OF assms] hex_digest_free(2) [OF assms] assms, of body t secret "signed_text t body" secret now window]
    by (simp add: sign_def)
  then show ?thesis
    using verify_header [OF hex_digest_free(1) [OF assms] hex_digest_free(2) [OF assms] assms, of body t secret "signed_text t0 body0" secret now window]
    by (auto simp: signed_text_inject)
qed

lemma signature_binds_body_and_time_witness:
  "(verify_signature (\<lambda>k m. ''0f'') ''{}'' (sign (\<lambda>k m. ''0f'') ''{}'' ''key'' 1000) ''key'' 1300 300 = Inr True) \<and>
   (verify_signature (\<lambda>k m. ''0f'') ''{}'' (sign (\<lambda>k m. ''0f'') ''{}'' ''key'' 1000) ''key'' 1301 300 = Inr False)"
proof -
  have h: "hex_digests (\<lambda>k m. ''0f'')" by (simp add: hex_digests_def)
  show ?thesis
    using signature_binds_body_and_time [OF h, of "''{}''" "''key''" 1000 1300 300]
      signature_binds_body_and_time [OF h, of "''{}''" "''key''" 1000 1301 300] by simp
qed

subsection \<open>One delivery step\<close>

lemma put_delivery_ids [simp]: "map dl_id (put_delivery d ds) = map dl_id ds"
  by (auto simp: put_delivery_def)

lemma put_delivery_id_set: "dl_id ` set (put_delivery d ds) = dl_id ` set ds"
  by (metis list.set_map put_delivery_ids)

lemma put_endpoint_ids [simp]: "map ep_id (put_endpoint e es) = map ep_id es"
  by (auto simp: put_endpoint_def)

lemma put_delivery_all:
  "(\<forall>x\<in>set ds. P x) \<Longrightarrow> P d \<Longrightarrow> \<forall>x\<in>set (put_delivery d ds). P x"
  by (auto simp: put_delivery_def)

lemma put_endpoint_all:
  "(\<forall>x\<in>set es. P x) \<Longrightarrow> P e \<Longrightarrow> \<forall>x\<in>set (put_endpoint e es). P x"
  by (auto simp: put_endpoint_def)

lemma delivered_delivery_ok: "200 \<le> c \<Longrightarrow> c < 300 \<Longrightarrow> delivery_ok (delivered_delivery now (d\<lparr>dl_response_status := Some c\<rparr>))"
  by (simp add: delivery_ok_def delivered_delivery_def)

lemma failed_delivery_ok: "delivery_ok (failed_delivery now c detail d)"
  by (simp add: delivery_ok_def failed_delivery_def Let_def should_retry_def)

lemma failed_endpoint_ok: "endpoint_ok (failed_endpoint now c detail e)"
  by (simp add: endpoint_ok_def failed_endpoint_def Let_def)

lemma failed_endpoint_identity [simp]: "endpoint_identity (failed_endpoint now c detail e) = endpoint_identity e"
  by (simp add: endpoint_identity_def failed_endpoint_def Let_def)

lemma failed_delivery_fields [simp]:
  "dl_id (failed_delivery now c detail d) = dl_id d" "dl_attempts (failed_delivery now c detail d) = dl_attempts d"
  by (simp_all add: failed_delivery_def Let_def)

lemma delivered_delivery_fields [simp]:
  "dl_id (delivered_delivery now d) = dl_id d" "dl_attempts (delivered_delivery now d) = dl_attempts d"
  by (simp_all add: delivered_delivery_def)

text \<open>The four ways a delivery task ends.\<close>

lemma deliver_cases [consumes 1, case_names unknown final dropped posted]:
  assumes "deliver_webhook hmac_hex post now i db = (db', st, reqs)"
  obtains "db' = db" "reqs = []" "find (\<lambda>d. dl_id d = i) (wd_deliveries db) = None"
  | d where "db' = db" "reqs = []" "find (\<lambda>d. dl_id d = i) (wd_deliveries db) = Some d" "dl_status d = ''delivered''"
  | d where "find (\<lambda>d. dl_id d = i) (wd_deliveries db) = Some d" "dl_status d \<noteq> ''delivered''" "reqs = []"
      "db' = db\<lparr>wd_deliveries := put_delivery (d\<lparr>dl_status := ''dropped'',
         dl_error := Some ''the endpoint was removed or disabled before delivery''\<rparr>) (wd_deliveries db)\<rparr>"
  | d e d' e' where "find (\<lambda>d. dl_id d = i) (wd_deliveries db) = Some d" "dl_status d \<noteq> ''delivered''"
      "find (\<lambda>e. ep_id e = dl_endpoint_id d \<and> ep_enabled e) (wd_endpoints db) = Some e"
      "reqs = [delivery_request hmac_hex now e (d\<lparr>dl_attempts := dl_attempts d + 1\<rparr>)]"
      "db' = \<lparr>wd_endpoints = put_endpoint e' (wd_endpoints db), wd_deliveries = put_delivery d' (wd_deliveries db)\<rparr>"
      "delivery_ok d'" "dl_id d' = dl_id d" "dl_attempts d' = dl_attempts d + 1"
      "endpoint_ok e'" "endpoint_identity e' = endpoint_identity e"
proof (cases "find (\<lambda>d. dl_id d = i) (wd_deliveries db)")
  case None
  with assms show ?thesis by (intro that(1)) (simp_all add: deliver_webhook_def)
next
  case d: (Some d)
  show ?thesis
  proof (cases "dl_status d = ''delivered''")
    case True
    with assms d show ?thesis by (intro that(2)) (simp_all add: deliver_webhook_def)
  next
    case open_row: False
    show ?thesis
    proof (cases "find (\<lambda>e. ep_id e = dl_endpoint_id d \<and> ep_enabled e) (wd_endpoints db)")
      case None
      with assms d open_row show ?thesis by (intro that(3) [OF d open_row]) (auto simp add: deliver_webhook_def)
    next
      case e: (Some e)
      define d1 where "d1 = d\<lparr>dl_attempts := dl_attempts d + 1\<rparr>"
      obtain c detail where c: "post (delivery_request hmac_hex now e d1) = (c, detail)" by fastforce
      define d2 where "d2 = d1\<lparr>dl_response_status := Some c\<rparr>"
      show ?thesis
      proof (cases "200 \<le> c \<and> c < 300")
        case True
        show ?thesis
          using assms d open_row e c True
          by (intro that(4) [OF d open_row e, of "e\<lparr>ep_consecutive_failures := 0, ep_last_success_at := Some now\<rparr>" "delivered_delivery now d2"])
            (simp_all add: deliver_webhook_def Let_def d1_def d2_def delivered_delivery_ok endpoint_ok_def
              endpoint_identity_def MAX_CONSECUTIVE_FAILURES_def)
      next
        case False
        show ?thesis
          using assms d open_row e c False
          by (intro that(4) [OF d open_row e, of "failed_endpoint now c detail e" "failed_delivery now c detail d2"])
            (auto simp add: deliver_webhook_def Let_def d1_def d2_def failed_delivery_ok failed_endpoint_ok)
      qed
    qed
  qed
qed

lemma new_delivery_ok: "delivery_ok (new_delivery tenant event_type customer payload now now_text e ids)"
  by (simp add: delivery_ok_def new_delivery_def MAX_ATTEMPTS_def RETRY_DELAYS_SECONDS_def)

subsection \<open>The invariant of a run\<close>

definition post_ok :: "webhook_db \<Rightarrow> webhook_db \<Rightarrow> uuid \<times> string \<times> request \<Rightarrow> bool" where
  "post_ok db0 db p = (case p of (i, st, r) \<Rightarrow> st \<noteq> ''delivered'' \<and> i \<in> dl_id ` set (wd_deliveries db) \<and>
     rq_url r \<in> ep_url ` set (wd_endpoints db0))"

definition run_inv :: "webhook_db \<Rightarrow> (uuid \<times> string \<times> request) list \<Rightarrow> webhook_db \<Rightarrow> bool" where
  "run_inv db0 sent db \<longleftrightarrow> tables_ok db \<and>
     map endpoint_identity (wd_endpoints db) = map endpoint_identity (wd_endpoints db0) \<and>
     (\<forall>d\<in>set (wd_deliveries db). dl_attempts d = int (posts_of (dl_id d) sent)) \<and>
     (\<forall>p\<in>set sent. post_ok db0 db p)"

definition only_pending :: "(uuid \<times> string \<times> request) list \<Rightarrow> bool" where
  "only_pending sent \<longleftrightarrow> list_all (\<lambda>(i, st, r). st = ''pending'') sent"

lemma posts_of_append [simp]: "posts_of i (xs @ ys) = posts_of i xs + posts_of i ys"
  by (simp add: posts_of_def)

lemma posts_of_Nil [simp]: "posts_of i [] = 0"
  by (simp add: posts_of_def)

lemma posts_of_one [simp]: "posts_of i [(j, st, r)] = (if j = i then 1 else 0)"
  by (simp add: posts_of_def)

lemma posts_of_fresh: "\<forall>p\<in>set sent. post_ok db0 db p \<Longrightarrow> i \<notin> dl_id ` set (wd_deliveries db) \<Longrightarrow> posts_of i sent = 0"
  by (fastforce simp: posts_of_def post_ok_def filter_empty_conv)

lemma put_delivery_cases: "x \<in> set (put_delivery d ds) \<Longrightarrow> x = d \<or> x \<in> set ds \<and> dl_id x \<noteq> dl_id d"
  by (auto simp: put_delivery_def split: if_splits)

lemma find_in: "find P xs = Some x \<Longrightarrow> x \<in> set xs \<and> P x"
  by (induction xs) (auto split: if_splits)

lemma put_endpoint_identities:
  assumes "distinct (map ep_id es)" "e \<in> set es" "endpoint_identity e' = endpoint_identity e"
  shows "map endpoint_identity (put_endpoint e' es) = map endpoint_identity es"
proof -
  have "endpoint_identity (if ep_id x = ep_id e' then e' else x) = endpoint_identity x" if "x \<in> set es" for x
    using assms that by (auto simp: endpoint_identity_def distinct_map inj_on_def)
  then show ?thesis by (simp add: put_endpoint_def)
qed

lemma identities_urls:
  "map endpoint_identity es = map endpoint_identity es0 \<Longrightarrow> ep_url ` set es = ep_url ` set es0"
proof -
  assume "map endpoint_identity es = map endpoint_identity es0"
  then have "(fst \<circ> snd) ` set (map endpoint_identity es) = (fst \<circ> snd) ` set (map endpoint_identity es0)" by simp
  then show ?thesis by (simp add: image_image endpoint_identity_def)
qed

lemma enqueue_rows:
  assumes "enqueue scrub new_ids tenant event_type data customer now now_text db = Inr (db', ids)"
  obtains ds where "db' = db\<lparr>wd_deliveries := wd_deliveries db @ ds\<rparr>" "ids = map dl_id ds"
    "\<forall>d\<in>set ds. delivery_ok d \<and> dl_attempts d = 0"
proof -
  let ?ts = "filter (wants tenant event_type customer) (wd_endpoints db)"
  let ?ds = "map (\<lambda>(e, i). new_delivery tenant event_type customer (fst (sanitize scrub data)) now now_text e (new_ids i))
               (zip ?ts [0..<length ?ts])"
  have "db' = db\<lparr>wd_deliveries := wd_deliveries db @ ?ds\<rparr>" "ids = map dl_id ?ds"
    using assms by (simp_all add: enqueue_def Let_def split: if_splits)
  moreover have "\<forall>d\<in>set ?ds. delivery_ok d \<and> dl_attempts d = 0"
  proof
    fix d assume "d \<in> set ?ds"
    then obtain e i where "d = new_delivery tenant event_type customer (fst (sanitize scrub data)) now now_text e (new_ids i)"
      by auto
    then show "delivery_ok d \<and> dl_attempts d = 0" using new_delivery_ok by (simp add: new_delivery_def)
  qed
  ultimately show ?thesis by (rule that)
qed

lemma queued_inv:
  assumes inv: "run_inv db0 sent db"
    and q: "enqueue scrub new_ids tenant event_type data customer now now_text db = Inr (db', ids)"
    and ids: "distinct ids" "set ids \<inter> dl_id ` set (wd_deliveries db) = {}"
  shows "run_inv db0 sent db'"
proof -
  obtain ds where db': "db' = db\<lparr>wd_deliveries := wd_deliveries db @ ds\<rparr>" and i: "ids = map dl_id ds"
    and ok: "\<forall>d\<in>set ds. delivery_ok d \<and> dl_attempts d = 0" using q by (rule enqueue_rows)
  have log: "\<forall>p\<in>set sent. post_ok db0 db p" using inv by (simp add: run_inv_def)
  have "posts_of (dl_id d) sent = 0" if "d \<in> set ds" for d
    using posts_of_fresh [OF log, of "dl_id d"] that ids(2) i by auto
  moreover have "\<forall>p\<in>set sent. post_ok db0 db' p" using log by (auto simp: post_ok_def db')
  moreover have "tables_ok db'" using inv ids i ok by (auto simp: run_inv_def tables_ok_def db')
  moreover have "\<forall>d\<in>set (wd_deliveries db'). dl_attempts d = int (posts_of (dl_id d) sent)"
    using inv ok calculation(1) by (simp add: run_inv_def db' ball_Un)
  ultimately show ?thesis using inv by (simp add: run_inv_def db')
qed

lemma dispatched_inv:
  assumes inv: "run_inv db0 sent db" and s: "deliver_webhook hmac_hex post now i db = (db', st, reqs)"
  shows "run_inv db0 (sent @ map (\<lambda>r. (i, status_of i db, r)) reqs) db'"
  using s
proof (cases rule: deliver_cases)
  case unknown
  with inv show ?thesis by simp
next
  case final
  with inv show ?thesis by simp
next
  case (dropped d)
  let ?d = "d\<lparr>dl_status := ''dropped'', dl_error := Some ''the endpoint was removed or disabled before delivery''\<rparr>"
  have d: "d \<in> set (wd_deliveries db)" using find_in [OF dropped(1)] by simp
  have "delivery_ok ?d" by (simp add: delivery_ok_def)
  then have "tables_ok db'"
    using inv put_delivery_all [of "wd_deliveries db" delivery_ok ?d]
    by (simp add: run_inv_def tables_ok_def dropped(4))
  moreover have "\<forall>x\<in>set (wd_deliveries db'). dl_attempts x = int (posts_of (dl_id x) sent)"
    using inv d by (auto simp: run_inv_def dropped(4) dest!: put_delivery_cases)
  moreover have "dl_id ` set (wd_deliveries db') = dl_id ` set (wd_deliveries db)"
    by (simp add: dropped(4) put_delivery_id_set)
  ultimately show ?thesis using inv by (simp add: run_inv_def post_ok_def dropped)
next
  case (posted d e d' e')
  have d: "d \<in> set (wd_deliveries db)" "dl_id d = i" using find_in [OF posted(1)] by simp_all
  have e: "e \<in> set (wd_endpoints db)" using find_in [OF posted(3)] by simp
  have tok: "tables_ok db" and att: "\<forall>d\<in>set (wd_deliveries db). dl_attempts d = int (posts_of (dl_id d) sent)"
    and same: "map endpoint_identity (wd_endpoints db) = map endpoint_identity (wd_endpoints db0)"
    and log: "\<forall>p\<in>set sent. post_ok db0 db p"
    using inv by (simp_all add: run_inv_def)
  have "tables_ok db'"
    using tok put_delivery_all [of "wd_deliveries db" delivery_ok d'] put_endpoint_all [of "wd_endpoints db" endpoint_ok e'] posted(6,9)
    by (simp add: tables_ok_def posted(5))
  moreover have "map endpoint_identity (wd_endpoints db') = map endpoint_identity (wd_endpoints db0)"
    using put_endpoint_identities [OF _ e posted(10)] tok same by (simp add: tables_ok_def posted(5))
  moreover have "dl_attempts x = int (posts_of (dl_id x) (sent @ map (\<lambda>r. (i, status_of i db, r)) reqs))"
    if "x \<in> set (wd_deliveries db')" for x
  proof -
    have "x = d' \<or> x \<in> set (wd_deliveries db) \<and> dl_id x \<noteq> dl_id d'"
      using that by (simp add: posted(5) put_delivery_cases)
    then show ?thesis
    proof
      assume "x = d'"
      then show ?thesis using att d posted(4,7,8) by simp
    next
      assume "x \<in> set (wd_deliveries db) \<and> dl_id x \<noteq> dl_id d'"
      then show ?thesis using att d(2) posted(4,7) by simp
    qed
  qed
  moreover have ids: "dl_id ` set (wd_deliveries db') = dl_id ` set (wd_deliveries db)"
    by (simp add: posted(5) put_delivery_id_set)
  moreover have "status_of i db \<noteq> ''delivered''" using posted(1,2) by (simp add: status_of_def)
  moreover have "ep_url e \<in> ep_url ` set (wd_endpoints db0)" using identities_urls [OF same] e by blast
  ultimately show ?thesis
    using log d posted(4) by (auto simp: run_inv_def post_ok_def delivery_request_def)
qed

lemma run_inv_start: "tables_ok db0 \<Longrightarrow> wd_deliveries db0 = [] \<Longrightarrow> run_inv db0 [] db0"
  by (simp add: run_inv_def)

lemma run_inv_run:
  "webhook_run hmac_hex scrub db0 sent db \<Longrightarrow> tables_ok db0 \<Longrightarrow> wd_deliveries db0 = [] \<Longrightarrow> run_inv db0 sent db"
  by (induction rule: webhook_run.induct) (simp_all add: run_inv_start queued_inv dispatched_inv)

text \<open>A task that picks up a pending delivery makes at most the fourth request.\<close>

lemma pending_attempt_bounded:
  assumes "run_inv db0 sent db" "deliver_webhook hmac_hex post now i db = (db', st, reqs)"
    "\<forall>d\<in>set (wd_deliveries db). dl_attempts d \<le> MAX_ATTEMPTS" "reqs \<noteq> [] \<Longrightarrow> status_of i db = ''pending''"
  shows "\<forall>d\<in>set (wd_deliveries db'). dl_attempts d \<le> MAX_ATTEMPTS"
  using assms(2)
proof (cases rule: deliver_cases)
  case (dropped d)
  then show ?thesis using assms(3) find_in [OF dropped(1)] by (auto dest!: put_delivery_cases)
next
  case (posted d e d' e')
  have d: "d \<in> set (wd_deliveries db)" using find_in [OF posted(1)] by simp
  have "dl_status d = ''pending''" using posted(1,4) assms(4) by (simp add: status_of_def)
  then have "dl_attempts d < MAX_ATTEMPTS"
    using assms(1) d by (auto simp: run_inv_def tables_ok_def delivery_ok_def)
  then show ?thesis using posted(5,8) assms(3) by (auto dest!: put_delivery_cases)
qed (use assms(3) in simp_all)

lemma enqueue_attempts:
  assumes "enqueue scrub new_ids tenant event_type data customer now now_text db = Inr (db', ids)"
    "\<forall>d\<in>set (wd_deliveries db). dl_attempts d \<le> MAX_ATTEMPTS"
  shows "\<forall>d\<in>set (wd_deliveries db'). dl_attempts d \<le> MAX_ATTEMPTS"
proof -
  have "(0 :: int) \<le> MAX_ATTEMPTS" by (simp add: MAX_ATTEMPTS_def RETRY_DELAYS_SECONDS_def)
  moreover obtain ds where "db' = db\<lparr>wd_deliveries := wd_deliveries db @ ds\<rparr>" "\<forall>d\<in>set ds. delivery_ok d \<and> dl_attempts d = 0"
    using assms(1) by (rule enqueue_rows)
  ultimately show ?thesis using assms(2) by (simp add: ball_Un)
qed

lemma run_attempts_bounded:
  assumes "webhook_run hmac_hex scrub db0 sent db" "tables_ok db0" "wd_deliveries db0 = []" "only_pending sent"
  shows "\<forall>d\<in>set (wd_deliveries db). dl_attempts d \<le> MAX_ATTEMPTS"
  using assms
proof (induction rule: webhook_run.induct)
  case started
  then show ?case by simp
next
  case (queued sent db new_ids tenant event_type data customer now now_text db' ids)
  show ?case using enqueue_attempts [OF queued.hyps(2)] queued.IH queued.prems by blast
next
  case (dispatched sent db post now i db' st reqs)
  then have "\<forall>d\<in>set (wd_deliveries db). dl_attempts d \<le> MAX_ATTEMPTS" by (simp add: only_pending_def)
  moreover have "reqs \<noteq> [] \<Longrightarrow> status_of i db = ''pending''"
    using dispatched.prems(3) by (cases reqs) (simp_all add: only_pending_def)
  ultimately show ?case
    using pending_attempt_bounded run_inv_run dispatched.hyps dispatched.prems(1,2) by blast
qed

text \<open>C16: through any sequence of queued events and delivery tasks, duplicates included, the tables stay well formed:
  a pending delivery has had fewer than four attempts and a next one is planned, a failed one has none planned
  and says why, a delivered one was answered with a success and has none planned; an enabled endpoint has
  failed fewer than 20 times in a row; the number of attempts of a row is the number of requests sent for it;
  nothing was posted for a delivery already delivered, nor to an address no endpoint was registered with.\<close>

theorem webhook_state_invariant:
  assumes "webhook_run hmac_hex scrub db0 sent db" "tables_ok db0" "wd_deliveries db0 = []"
  shows "tables_ok db \<and> (\<forall>d\<in>set (wd_deliveries db). dl_attempts d = int (posts_of (dl_id d) sent)) \<and>
    list_all (\<lambda>(i, st, r). st \<noteq> ''delivered'' \<and> rq_url r \<in> ep_url ` set (wd_endpoints db0)) sent \<and>
    map endpoint_identity (wd_endpoints db) = map endpoint_identity (wd_endpoints db0)"
  using run_inv_run [OF assms] by (auto simp: run_inv_def list_all_iff post_ok_def)

definition sample_db :: webhook_db where
  "sample_db = \<lparr>wd_endpoints = [\<lparr>ep_id = 7, ep_tenant_id = 1, ep_customer_id = None, ep_url = ''https://hooks.example/g'',
     ep_events = [''scan.completed''], ep_secret = ''whsec_k'', ep_enabled = True, ep_disabled_at = None,
     ep_disabled_reason = None, ep_consecutive_failures = 19, ep_last_success_at = None\<rparr>], wd_deliveries = []\<rparr>"

definition sample_queued :: webhook_db where
  "sample_queued = fst (projr (enqueue (\<lambda>d. (d, [])) (\<lambda>i. (int i + 100, ''e1'')) 1 ''scan.completed'' [(''findings'', JInt 2)] None 0 ''t0'' sample_db))"

definition sample_tried :: "webhook_db \<times> string \<times> request list" where
  "sample_tried = deliver_webhook (\<lambda>k m. ''0f'') (\<lambda>r. (503, ''busy'')) 0 100 sample_queued"

lemma sample_run:
  "webhook_run (\<lambda>k m. ''0f'') (\<lambda>d. (d, [])) sample_db (map (\<lambda>r. (100, ''pending'', r)) (snd (snd sample_tried))) (fst sample_tried)"
proof -
  have q: "enqueue (\<lambda>d. (d, [])) (\<lambda>i. (int i + 100, ''e1'')) 1 ''scan.completed'' [(''findings'', JInt 2)] None 0 ''t0'' sample_db
      = Inr (sample_queued, [100])"
    by (simp add: sample_queued_def sample_db_def enqueue_def WEBHOOK_EVENTS_def wants_def Let_def new_delivery_def)
  have "webhook_run (\<lambda>k m. ''0f'') (\<lambda>d. (d, [])) sample_db [] sample_queued"
    by (rule webhook_run.queued [OF webhook_run.started q]) (simp_all add: sample_db_def)
  moreover have "deliver_webhook (\<lambda>k m. ''0f'') (\<lambda>r. (503, ''busy'')) 0 100 sample_queued =
      (fst sample_tried, fst (snd sample_tried), snd (snd sample_tried))" by (simp add: sample_tried_def)
  ultimately have "webhook_run (\<lambda>k m. ''0f'') (\<lambda>d. (d, [])) sample_db
      ([] @ map (\<lambda>r. (100, status_of 100 sample_queued, r)) (snd (snd sample_tried))) (fst sample_tried)"
    by (rule webhook_run.dispatched)
  moreover have "status_of 100 sample_queued = ''pending''"
    by (simp add: status_of_def sample_queued_def sample_db_def enqueue_def WEBHOOK_EVENTS_def wants_def Let_def new_delivery_def)
  ultimately show ?thesis by simp
qed

lemma sample_db_ok: "tables_ok sample_db" "wd_deliveries sample_db = []"
  by (simp_all add: tables_ok_def sample_db_def endpoint_ok_def MAX_CONSECUTIVE_FAILURES_def)

lemma webhook_state_invariant_witness: "tables_ok (fst sample_tried)"
  using webhook_state_invariant [OF sample_run sample_db_ok] by blast

text \<open>When every delivery task finds its row still pending, no delivery is posted more than four times,
  however many events, endpoints and sweeps there are.\<close>

theorem webhook_posts_bounded:
  assumes "webhook_run hmac_hex scrub db0 sent db" "tables_ok db0" "wd_deliveries db0 = []" "only_pending sent"
  shows "int (posts_of i sent) \<le> MAX_ATTEMPTS"
proof (cases "i \<in> dl_id ` set (wd_deliveries db)")
  case True
  then show ?thesis using run_attempts_bounded [OF assms] run_inv_run [OF assms(1-3)] by (auto simp: run_inv_def)
next
  case False
  then have "posts_of i sent = 0" using run_inv_run [OF assms(1-3)] posts_of_fresh by (auto simp: run_inv_def)
  then show ?thesis by (simp add: MAX_ATTEMPTS_def)
qed

lemma webhook_posts_bounded_witness:
  "int (posts_of 100 (map (\<lambda>r. (100, ''pending'', r)) (snd (snd sample_tried)))) \<le> MAX_ATTEMPTS"
  using webhook_posts_bounded [OF sample_run sample_db_ok, of 100] by (simp add: only_pending_def list_all_iff)

text \<open>
  A duplicate task is not stopped by the bound: a delivery that failed for good is posted again, and can even
  be put back to pending, because only \<open>delivered\<close> is treated as final.
\<close>

lemma failed_delivery_posted_again:
  assumes "find (\<lambda>d. dl_id d = i) (wd_deliveries db) = Some d" "dl_status d = ''failed''" "dl_attempts d = MAX_ATTEMPTS"
    "find (\<lambda>e. ep_id e = dl_endpoint_id d \<and> ep_enabled e) (wd_endpoints db) = Some e"
  shows "length (snd (snd (deliver_webhook hmac_hex post now i db))) = 1"
  using assms by (simp add: deliver_webhook_def Let_def split: prod.split)

lemma sweep_oldest_first:
  assumes "x \<in> set (due_deliveries now db)" "x \<notin> set (take limit (due_deliveries now db))" "y \<in> set (take limit (due_deliveries now db))"
  shows "the (dl_next_attempt_at y) \<le> the (dl_next_attempt_at x)"
proof -
  let ?q = "due_deliveries now db" and ?key = "\<lambda>d. the (dl_next_attempt_at d)"
  have "sorted (map ?key ?q)" by (simp add: due_deliveries_def)
  then have "sorted (map ?key (take limit ?q) @ map ?key (drop limit ?q))" by (simp flip: map_append)
  moreover have "x \<in> set (drop limit ?q)" using assms(1,2) by (metis Un_iff append_take_drop_id set_append)
  ultimately show ?thesis using assms(3) by (auto simp: sorted_append)
qed

end
