(* ===== verification/PyRegex.thy ===== *)
theory PyRegex
  imports Prelude
begin

text \<open>
  Python's \<open>re\<close>: patterns as a datatype and the backtracking matcher as the list of all ways to match, in the
  order the engine tries them, so that the first element is the match \<open>re\<close> reports.  A position is the text
  before it (reversed) and the text after it; named groups are a map from names to the text they captured.
  Patterns are transcribed piece by piece; the bodies of the repetitions transcribed here never match the
  empty string, which is where engines differ.
\<close>

type_synonym position = "string \<times> string"
type_synonym captures = "string \<Rightarrow> string option"

datatype re =
    Eps
  | Cls "char \<Rightarrow> bool"
  | Cat re re
  | Or re re
  | Star re
  | Lazy re
  | Group string re
  | Begin_text
  | End_text
  | Word_edge
  | Behind string
  | Ahead re

definition word_char :: "char \<Rightarrow> bool" where
  "word_char c \<longleftrightarrow> is_alnum c \<or> c = CHR ''_''"

text \<open>\<open>Star\<close> is greedy and \<open>Lazy\<close> is not; the fuel is the text left, of which every round takes some.\<close>

fun star_run :: "(position \<Rightarrow> captures \<Rightarrow> (position \<times> captures) list) \<Rightarrow> nat \<Rightarrow> position \<Rightarrow> captures \<Rightarrow> (position \<times> captures) list" where
  "star_run f 0 p c = [(p, c)]"
| "star_run f (Suc n) p c =
     concat (map (\<lambda>(q, d). if length (snd q) < length (snd p) then star_run f n q d else []) (f p c)) @ [(p, c)]"

fun lazy_run :: "(position \<Rightarrow> captures \<Rightarrow> (position \<times> captures) list) \<Rightarrow> nat \<Rightarrow> position \<Rightarrow> captures \<Rightarrow> (position \<times> captures) list" where
  "lazy_run f 0 p c = [(p, c)]"
| "lazy_run f (Suc n) p c =
     (p, c) # concat (map (\<lambda>(q, d). if length (snd q) < length (snd p) then lazy_run f n q d else []) (f p c))"

definition taken :: "position \<Rightarrow> position \<Rightarrow> string" where
  "taken p q = take (length (snd p) - length (snd q)) (snd p)"

definition word_edge :: "position \<Rightarrow> bool" where
  "word_edge p \<longleftrightarrow>
     (case fst p of [] \<Rightarrow> False | x # _ \<Rightarrow> word_char x) \<noteq> (case snd p of [] \<Rightarrow> False | y # _ \<Rightarrow> word_char y)"

primrec rmatch :: "re \<Rightarrow> position \<Rightarrow> captures \<Rightarrow> (position \<times> captures) list" where
  "rmatch Eps = (\<lambda>p c. [(p, c)])"
| "rmatch (Cls P) = (\<lambda>p c. case snd p of [] \<Rightarrow> [] | x # xs \<Rightarrow> if P x then [((x # fst p, xs), c)] else [])"
| "rmatch (Cat r s) = (\<lambda>p c. concat (map (\<lambda>(q, d). rmatch s q d) (rmatch r p c)))"
| "rmatch (Or r s) = (\<lambda>p c. rmatch r p c @ rmatch s p c)"
| "rmatch (Star r) = (\<lambda>p c. star_run (rmatch r) (length (snd p)) p c)"
| "rmatch (Lazy r) = (\<lambda>p c. lazy_run (rmatch r) (length (snd p)) p c)"
| "rmatch (Group n r) = (\<lambda>p c. map (\<lambda>(q, d). (q, d(n \<mapsto> taken p q))) (rmatch r p c))"
| "rmatch Begin_text = (\<lambda>p c. if fst p = [] then [(p, c)] else [])"
| "rmatch End_text = (\<lambda>p c. if snd p = [] \<or> snd p = [CHR 0x0A] then [(p, c)] else [])"
| "rmatch Word_edge = (\<lambda>p c. if word_edge p then [(p, c)] else [])"
| "rmatch (Behind t) = (\<lambda>p c. if startswith (fst p) (rev t) then [(p, c)] else [])"
| "rmatch (Ahead r) = (\<lambda>p c. map (\<lambda>(q, d). (p, d)) (take 1 (rmatch r p c)))"

subsection \<open>Abbreviations of the pattern language\<close>

definition chr :: "char \<Rightarrow> re" where "chr x = Cls (\<lambda>c. c = x)"

definition chr_i :: "char \<Rightarrow> re" where "chr_i x = Cls (\<lambda>c. to_lower c = to_lower x)"

fun cats :: "re list \<Rightarrow> re" where
  "cats [] = Eps"
| "cats [r] = r"
| "cats (r # rs) = Cat r (cats rs)"

fun ors :: "re list \<Rightarrow> re" where
  "ors [] = Cls (\<lambda>c. False)"
| "ors [r] = r"
| "ors (r # rs) = Or r (ors rs)"

definition lit :: "string \<Rightarrow> re" where "lit s = cats (map chr s)"

definition lit_i :: "string \<Rightarrow> re" where "lit_i s = cats (map chr_i s)"

definition one_of :: "string \<Rightarrow> re" where "one_of s = Cls (\<lambda>c. c \<in> set s)"

definition none_of :: "string \<Rightarrow> re" where "none_of s = Cls (\<lambda>c. c \<notin> set s)"

definition opt :: "re \<Rightarrow> re" where "opt r = Or r Eps"

definition plus :: "re \<Rightarrow> re" where "plus r = Cat r (Star r)"

primrec up_to :: "nat \<Rightarrow> re \<Rightarrow> re" where
  "up_to 0 r = Eps"
| "up_to (Suc n) r = opt (Cat r (up_to n r))"

primrec times :: "nat \<Rightarrow> re \<Rightarrow> re" where
  "times 0 r = Eps"
| "times (Suc n) r = Cat r (times n r)"

definition between :: "nat \<Rightarrow> nat \<Rightarrow> re \<Rightarrow> re" where "between m n r = Cat (times m r) (up_to (n - m) r)"

definition at_least :: "nat \<Rightarrow> re \<Rightarrow> re" where "at_least n r = Cat (times n r) (Star r)"

subsection \<open>The functions of the module\<close>

definition no_groups :: captures where "no_groups = (\<lambda>n. None)"

definition match_at :: "re \<Rightarrow> position \<Rightarrow> (position \<times> captures) option" where
  "match_at r p = (case rmatch r p no_groups of [] \<Rightarrow> None | m # _ \<Rightarrow> Some m)"

text \<open>\<open>re.match(p, s)\<close> gives the groups, \<open>re.search\<close> tells whether there is a match anywhere.\<close>

definition re_match :: "re \<Rightarrow> string \<Rightarrow> captures option" where
  "re_match r s = map_option snd (match_at r ([], s))"

fun search_from :: "re \<Rightarrow> string \<Rightarrow> string \<Rightarrow> (position \<times> position \<times> captures) option" where
  "search_from r b [] = map_option (\<lambda>(q, c). ((b, []), q, c)) (match_at r (b, []))"
| "search_from r b (x # s) =
     (case match_at r (b, x # s) of Some (q, c) \<Rightarrow> Some ((b, x # s), q, c) | None \<Rightarrow> search_from r (x # b) s)"

definition re_search :: "re \<Rightarrow> string \<Rightarrow> captures option" where
  "re_search r s = map_option (snd \<circ> snd) (search_from r [] s)"

text \<open>
  \<open>re.sub\<close> and \<open>re.findall\<close> for patterns that match no empty text: left to right, each match starts where the one
  before ended.  The result is the text between matches and the matches.
\<close>

fun scan :: "re \<Rightarrow> nat \<Rightarrow> position \<Rightarrow> (char + string \<times> captures) list" where
  "scan r 0 p = map Inl (snd p)"
| "scan r (Suc n) p =
     (case snd p of [] \<Rightarrow> []
      | x # s \<Rightarrow> (case match_at r p of
            Some (q, c) \<Rightarrow> if length (snd q) < length (snd p) then Inr (taken p q, c) # scan r n q
              else Inl x # scan r n (x # fst p, s)
          | None \<Rightarrow> Inl x # scan r n (x # fst p, s)))"

definition re_scan :: "re \<Rightarrow> string \<Rightarrow> (char + string \<times> captures) list" where
  "re_scan r s = scan r (length s) ([], s)"

definition re_findall :: "re \<Rightarrow> string \<Rightarrow> string list" where
  "re_findall r s = concat (map (\<lambda>t. case t of Inl c \<Rightarrow> [] | Inr (m, g) \<Rightarrow> [m]) (re_scan r s))"

definition re_sub :: "re \<Rightarrow> (string \<Rightarrow> captures \<Rightarrow> string) \<Rightarrow> string \<Rightarrow> string" where
  "re_sub r f s = concat (map (\<lambda>t. case t of Inl c \<Rightarrow> [c] | Inr (m, g) \<Rightarrow> f m g) (re_scan r s))"

text \<open>\<open>m.group(n) or d\<close> and the truth of \<open>m.group(n)\<close>.\<close>

definition group_or :: "captures \<Rightarrow> string \<Rightarrow> string \<Rightarrow> string" where
  "group_or g n d = (case g n of Some s \<Rightarrow> if s = [] then d else s | None \<Rightarrow> d)"

definition has_group :: "captures \<Rightarrow> string \<Rightarrow> bool" where
  "has_group g n \<longleftrightarrow> g n \<noteq> None \<and> g n \<noteq> Some []"

subsection \<open>Facts about the matcher\<close>

text \<open>A match moves forward over the text and never changes it.\<close>

definition forward :: "position \<Rightarrow> position \<Rightarrow> bool" where
  "forward p q \<longleftrightarrow> (\<exists>t. snd p = t @ snd q \<and> fst q = rev t @ fst p)"

lemma forward_refl [simp]: "forward p p"
  by (simp add: forward_def)

lemma forward_trans: "forward p q \<Longrightarrow> forward q r \<Longrightarrow> forward p r"
  by (auto simp: forward_def)

lemma star_run_forward:
  assumes f: "\<And>p c q d. (q, d) \<in> set (f p c) \<Longrightarrow> forward p q"
  shows "(q, d) \<in> set (star_run f n p c) \<Longrightarrow> forward p q"
proof (induction n arbitrary: p c)
  case (Suc n)
  then consider "(q, d) = (p, c)" | m where "m \<in> set (f p c)" "(q, d) \<in> set (star_run f n (fst m) (snd m))"
    by (auto simp: case_prod_beta split: if_splits)
  then show ?case
  proof cases
    case 1
    then show ?thesis by simp
  next
    case 2
    have "forward p (fst m)" using f [of "fst m" "snd m"] 2(1) by simp
    then show ?thesis using Suc.IH [OF 2(2)] by (rule forward_trans)
  qed
qed simp

lemma lazy_run_forward:
  assumes f: "\<And>p c q d. (q, d) \<in> set (f p c) \<Longrightarrow> forward p q"
  shows "(q, d) \<in> set (lazy_run f n p c) \<Longrightarrow> forward p q"
proof (induction n arbitrary: p c)
  case (Suc n)
  then consider "(q, d) = (p, c)" | m where "m \<in> set (f p c)" "(q, d) \<in> set (lazy_run f n (fst m) (snd m))"
    by (auto simp: case_prod_beta split: if_splits)
  then show ?case
  proof cases
    case 1
    then show ?thesis by simp
  next
    case 2
    have "forward p (fst m)" using f [of "fst m" "snd m"] 2(1) by simp
    then show ?thesis using Suc.IH [OF 2(2)] by (rule forward_trans)
  qed
qed simp

lemma rmatch_forward: "(q, d) \<in> set (rmatch r p c) \<Longrightarrow> forward p q"
proof (induction r arbitrary: p c q d)
  case (Cls P)
  then show ?case by (auto simp: forward_def split: list.splits if_splits)
next
  case (Cat r s)
  then obtain q' d' where "(q', d') \<in> set (rmatch r p c)" "(q, d) \<in> set (rmatch s q' d')" by auto
  then show ?case using Cat.IH forward_trans by blast
next
  case (Star r)
  then show ?case using star_run_forward [of "rmatch r"] by simp
next
  case (Lazy r)
  then show ?case using lazy_run_forward [of "rmatch r"] by simp
next
  case (Ahead r)
  then show ?case by auto
next
  case (Group n r)
  then obtain d' where "(q, d') \<in> set (rmatch r p c)" by auto
  then show ?case by (rule Group.IH)
qed (auto split: if_splits)

lemma match_at_forward: "match_at r p = Some (q, c) \<Longrightarrow> forward p q"
proof -
  assume "match_at r p = Some (q, c)"
  then have "(q, c) \<in> set (rmatch r p no_groups)" by (simp add: match_at_def split: list.splits)
  then show ?thesis by (rule rmatch_forward)
qed

lemma forward_taken: "forward p q \<Longrightarrow> snd p = taken p q @ snd q"
  by (auto simp: forward_def taken_def)

text \<open>What \<open>re.sub\<close> leaves and what it replaces are the whole text, in order.\<close>

lemma scan_text:
  "length (snd p) \<le> n \<Longrightarrow> concat (map (\<lambda>t. case t of Inl c \<Rightarrow> [c] | Inr (m, g) \<Rightarrow> m) (scan r n p)) = snd p"
proof (induction r n p rule: scan.induct)
  case (2 r n p)
  show ?case
  proof (cases "snd p")
    case (Cons x s)
    then show ?thesis
      using 2 forward_taken [OF match_at_forward, of r p]
      by (auto split: option.splits simp: less_Suc_eq_le)
  qed simp
qed simp

lemma re_scan_text: "concat (map (\<lambda>t. case t of Inl c \<Rightarrow> [c] | Inr (m, g) \<Rightarrow> m) (re_scan r s)) = s"
  using scan_text [of "([], s)"] by (simp add: re_scan_def)

lemma re_sub_id: "(\<And>m g. f m g = m) \<Longrightarrow> re_sub r f s = s"
  using re_scan_text [of r s] by (simp add: re_sub_def cong: sum.case_cong)

text \<open>The fuel of a repetition is enough: more gives the same matches.\<close>

lemma star_run_fuel: "length (snd p) \<le> n \<Longrightarrow> star_run f n p c = star_run f (length (snd p)) p c"
proof (induction "length (snd p)" arbitrary: n p c rule: less_induct)
  case less
  show ?case
  proof (cases "length (snd p)")
    case 0
    then show ?thesis by (cases n) (auto intro!: concat_eq_Nil_conv [THEN iffD2])
  next
    case (Suc m)
    then obtain k where n: "n = Suc k" "m \<le> k" using less.prems by (cases n) auto
    have "star_run f k q d = star_run f m q d" if "length (snd q) < length (snd p)" for q d
      using less.hyps [OF that, of k d] less.hyps [OF that, of m d] that n(2) Suc by simp
    then show ?thesis by (auto simp: n(1) Suc intro!: arg_cong [where f = concat])
  qed
qed

end
