(* ===== verification/Versioning.thy ===== *)
theory Versioning
  imports PyRegex PyValue
begin

text \<open>
  \<open>guardian_core/versioning.py\<close>, first half: the sort keys of a version string under the rules of its
  ecosystem and the three-way comparison.  A key tuple is \<open>Plain\<close>, the Debian/RPM version object is
  \<open>EvrVersion\<close>; the sentinels below and above everything are constructors of \<open>ext\<close>, and a comparison of
  parts Python cannot order is \<open>Inl TypeError\<close>.  Version text is ASCII; \<open>int()\<close> is applied to digits only.
\<close>

subsection \<open>Ecosystems\<close>

datatype ecosystem = PYPI | NPM | MAVEN | RUBYGEMS | GO | NUGET | DEBIAN | RPM | SEMVER | GENERIC

definition ECOSYSTEM_ALIASES :: "(string \<times> ecosystem) list" where
  "ECOSYSTEM_ALIASES =
    [(''pypi'', PYPI), (''python'', PYPI), (''pip'', PYPI),
     (''npm'', NPM), (''node'', NPM), (''nodejs'', NPM), (''yarn'', NPM),
     (''maven'', MAVEN), (''java'', MAVEN), (''gradle'', MAVEN),
     (''rubygems'', RUBYGEMS), (''gem'', RUBYGEMS), (''ruby'', RUBYGEMS),
     (''go'', GO), (''golang'', GO),
     (''nuget'', NUGET), (''dotnet'', NUGET), (''csharp'', NUGET),
     (''debian'', DEBIAN), (''ubuntu'', DEBIAN), (''deb'', DEBIAN),
     (''rpm'', RPM), (''redhat'', RPM), (''rhel'', RPM),
     (''centos'', RPM), (''fedora'', RPM), (''suse'', RPM), (''alpine'', RPM),
     (''semver'', SEMVER), (''crates.io'', SEMVER), (''cargo'', SEMVER),
     (''rust'', SEMVER), (''packagist'', SEMVER), (''composer'', SEMVER),
     (''php'', SEMVER), (''hex'', SEMVER), (''pub'', SEMVER)]"

definition normalize_ecosystem :: "jval \<Rightarrow> ecosystem" where
  "normalize_ecosystem name =
     (if \<not> truthy name then GENERIC else dict_getdef ECOSYSTEM_ALIASES (py_lower (py_strip (py_str name))) GENERIC)"

subsection \<open>Keys\<close>

datatype 'a ext = NegInf | At 'a | Inf

fun ext_le :: "'a::linorder ext \<Rightarrow> 'a ext \<Rightarrow> bool" where
  "ext_le NegInf y = True"
| "ext_le x Inf = True"
| "ext_le (At a) (At b) = (a \<le> b)"
| "ext_le x y = False"

definition ext_lt :: "'a::linorder ext \<Rightarrow> 'a ext \<Rightarrow> bool" where
  "ext_lt x y \<longleftrightarrow> ext_le x y \<and> \<not> ext_le y x"

instantiation ext :: (linorder) linorder
begin

definition less_eq_ext :: "'a ext \<Rightarrow> 'a ext \<Rightarrow> bool" where
  "less_eq_ext x y = ext_le x y"

definition less_ext :: "'a ext \<Rightarrow> 'a ext \<Rightarrow> bool" where
  "less_ext x y = ext_lt x y"

instance
proof
  fix x y z :: "'a ext"
  show "x < y \<longleftrightarrow> x \<le> y \<and> \<not> y \<le> x" by (simp add: less_ext_def less_eq_ext_def ext_lt_def)
  show "x \<le> x" by (cases x) (auto simp: less_eq_ext_def)
  show "x \<le> y \<Longrightarrow> y \<le> z \<Longrightarrow> x \<le> z" by (cases x; cases y; cases z) (auto simp: less_eq_ext_def)
  show "x \<le> y \<Longrightarrow> y \<le> x \<Longrightarrow> x = y" by (cases x; cases y) (auto simp: less_eq_ext_def)
  show "x \<le> y \<or> y \<le> x" by (cases x; cases y) (auto simp: less_eq_ext_def)
qed

end

lemma ext_le_simps [simp]:
  "NegInf \<le> y" "x \<le> Inf" "At a \<le> At b \<longleftrightarrow> a \<le> b" "\<not> At a \<le> NegInf" "\<not> Inf \<le> NegInf" "\<not> Inf \<le> At a"
  by (cases x; simp add: less_eq_ext_def)+

type_synonym ident = "int \<times> int \<times> string"

text \<open>The third element of a key: a sentinel, a PEP 440 pre-release tag, or a tuple of identifiers.\<close>

datatype pre_part = PreNegInf | PreTag string int | PreIdents "ident ext list" | PreInf

datatype version_key =
    Plain int "int list" pre_part "int ext" "int ext"
  | EvrVersion int string string bool

fun drop_zeros :: "int list \<Rightarrow> int list" where
  "drop_zeros xs = (if length xs > 1 \<and> last xs = 0 then drop_zeros (butlast xs) else xs)"

declare drop_zeros.simps [simp del]

definition release_of :: "string \<Rightarrow> int list" where
  "release_of s = drop_zeros (map int_of_digits (split_on (CHR ''.'') s))"

definition digit :: re where "digit = Cls is_digit"

definition spaces :: re where "spaces = Star (Cls is_space)"

definition dotted :: re where "dotted = Cat (plus digit) (Star (Cat (chr (CHR ''.'')) (plus digit)))"

subsection \<open>The generic key\<close>

definition generic_key :: "string \<Rightarrow> version_key" where
  "generic_key raw =
     (let text = py_lower (py_strip raw);
          parts = map (\<lambda>tok. if str_isdigit tok then At (0, int_of_digits tok, []) else At (1, 0, tok))
                    (re_findall (Or (plus digit) (plus (Cls is_alpha))) text)
      in Plain 0 [] (PreIdents (if parts = [] then [At (1, 0, text)] else parts)) NegInf Inf)"

subsection \<open>PEP 440\<close>

definition PEP440 :: re where
  "PEP440 = (let sep = opt (one_of ''-_.'') in cats
     [Begin_text, spaces, opt (chr_i (CHR ''v'')),
      opt (cats [Group ''epoch'' (plus digit), chr (CHR ''!'')]),
      Group ''release'' dotted,
      opt (Group ''pre'' (cats [sep, Group ''pre_l'' (ors (map lit_i [''a'', ''b'', ''c'', ''rc'', ''alpha'', ''beta'', ''pre'', ''preview''])),
        sep, Group ''pre_n'' (Star digit)])),
      opt (Group ''post'' (Or (cats [chr (CHR ''-''), Group ''post_n1'' (plus digit)])
        (cats [sep, Group ''post_l'' (ors (map lit_i [''post'', ''rev'', ''r''])), sep, Group ''post_n'' (Star digit)]))),
      opt (Group ''dev'' (cats [sep, lit_i ''dev'', sep, Group ''dev_n'' (Star digit)])),
      opt (cats [chr (CHR ''+''), Group ''local'' (Cat (plus (Cls is_alnum)) (Star (Cat (one_of ''-_.'') (plus (Cls is_alnum)))))]),
      spaces, End_text])"

definition PRE_NORMAL :: "(string \<times> string) list" where
  "PRE_NORMAL = [(''alpha'', ''a''), (''beta'', ''b''), (''c'', ''rc''), (''pre'', ''rc''), (''preview'', ''rc'')]"

definition int_group :: "captures \<Rightarrow> string \<Rightarrow> int" where
  "int_group g n = int_of_digits (group_or g n ''0'')"

definition pep440_key :: "string \<Rightarrow> version_key" where
  "pep440_key raw =
     (case re_match PEP440 raw of None \<Rightarrow> generic_key raw
      | Some g \<Rightarrow>
        let letter = py_lower (group_or g ''pre_l'' []);
            pre = (if has_group g ''pre_l'' then Some (dict_getdef PRE_NORMAL letter letter, int_group g ''pre_n'') else None);
            post = (if has_group g ''post_n1'' then Some (int_group g ''post_n1'')
                    else if has_group g ''post_l'' then Some (int_group g ''post_n'') else None);
            dev = (if has_group g ''dev'' then Some (int_group g ''dev_n'') else None)
        in Plain (int_group g ''epoch'') (release_of (group_or g ''release'' []))
             (case pre of Some (l, n) \<Rightarrow> PreTag l n
              | None \<Rightarrow> if post = None \<and> dev \<noteq> None then PreNegInf else PreInf)
             (case post of None \<Rightarrow> NegInf | Some n \<Rightarrow> At n)
             (case dev of None \<Rightarrow> Inf | Some n \<Rightarrow> At n))"

subsection \<open>SemVer\<close>

definition SEMVER_RE :: re where
  "SEMVER_RE = (let ident = plus (Cls (\<lambda>c. is_alnum c \<or> c = CHR ''.'' \<or> c = CHR ''-'')) in cats
     [Begin_text, spaces, opt (chr_i (CHR ''v'')), Group ''release'' dotted,
      opt (Cat (chr (CHR ''-'')) (Group ''pre'' ident)), opt (Cat (chr (CHR ''+'')) (Group ''build'' ident)), spaces, End_text])"

definition semver_pre_key :: "string option \<Rightarrow> ident ext list" where
  "semver_pre_key pre =
     (case pre of None \<Rightarrow> [Inf]
      | Some p \<Rightarrow> map (\<lambda>i. if str_isdigit i then At (0, int_of_digits i, []) else At (1, 0, py_lower i)) (split_on (CHR ''.'') p))"

definition semver_key :: "string \<Rightarrow> version_key" where
  "semver_key raw =
     (let stripped = py_strip raw;
          cleaned = (if endswith (py_lower stripped) ''+incompatible''
                     then take (length stripped - length ''+incompatible'') stripped else stripped)
      in case re_match SEMVER_RE cleaned of None \<Rightarrow> generic_key raw
         | Some g \<Rightarrow> Plain 0 (release_of (group_or g ''release'' [])) (PreIdents (semver_pre_key (g ''pre''))) NegInf Inf)"

subsection \<open>Maven\<close>

definition MAVEN_QUALIFIERS :: "(string \<times> int) list" where
  "MAVEN_QUALIFIERS = [(''alpha'', 1), (''a'', 1), (''beta'', 2), (''b'', 2), (''milestone'', 3), (''m'', 3),
     (''rc'', 4), (''cr'', 4), (''snapshot'', 5), ([], 6), (''ga'', 6), (''final'', 6), (''release'', 6), (''sp'', 7)]"

record maven_state =
  mv_numeric :: "int list"
  mv_rank :: int
  mv_num :: int
  mv_text :: string

definition MAVEN_TOKEN :: re where
  "MAVEN_TOKEN = cats [Begin_text, Group ''1'' (plus (Cls is_lower)), Group ''2'' (Star digit), End_text]"

definition maven_token :: "string \<Rightarrow> maven_state \<Rightarrow> maven_state" where
  "maven_token tok st =
     (if str_isdigit tok
      then (if mv_rank st = 6 \<and> mv_text st = [] then st\<lparr>mv_numeric := mv_numeric st @ [int_of_digits tok]\<rparr>
            else st\<lparr>mv_num := int_of_digits tok\<rparr>)
      else let unknown = (if tok \<noteq> [] then st\<lparr>mv_rank := 8, mv_text := tok\<rparr> else st) in
        case re_match MAVEN_TOKEN tok of None \<Rightarrow> unknown
        | Some g \<Rightarrow> (case dict_get MAVEN_QUALIFIERS (group_or g ''1'' []) of None \<Rightarrow> unknown
            | Some r \<Rightarrow> if has_group g ''2'' then st\<lparr>mv_rank := r, mv_num := int_group g ''2''\<rparr> else st\<lparr>mv_rank := r\<rparr>))"

fun split_any :: "char set \<Rightarrow> string \<Rightarrow> string list" where
  "split_any seps [] = [[]]"
| "split_any seps (x # xs) =
     (if x \<in> seps then [] # split_any seps xs
      else (case split_any seps xs of [] \<Rightarrow> [[x]] | p # ps \<Rightarrow> (x # p) # ps))"

definition maven_key :: "string \<Rightarrow> version_key" where
  "maven_key raw =
     (let st = fold maven_token (split_any (set ''.-_'') (py_lower (py_strip raw)))
                 \<lparr>mv_numeric = [], mv_rank = 6, mv_num = 0, mv_text = []\<rparr>
      in Plain 0 (drop_zeros (mv_numeric st)) (PreIdents [At (mv_rank st, mv_num st, mv_text st)]) NegInf Inf)"

subsection \<open>Debian\<close>

definition digit_head :: "string \<Rightarrow> bool" where
  "digit_head s = (case s of [] \<Rightarrow> False | c # _ \<Rightarrow> is_digit c)"

definition text_head :: "string \<Rightarrow> bool" where
  "text_head s = (case s of [] \<Rightarrow> False | c # _ \<Rightarrow> \<not> is_digit c)"

definition debian_order :: "char \<Rightarrow> int" where
  "debian_order c = (if c = CHR ''~'' then -1 else if is_digit c then 0 else if is_alpha c then int (ordc c) else int (ordc c) + 256)"

definition order_head :: "string \<Rightarrow> int" where
  "order_head s = (case s of [] \<Rightarrow> 0 | c # _ \<Rightarrow> debian_order c)"

text \<open>The two inner loops: over what is not a digit, giving a verdict or what is left, and over the digits.\<close>

function debian_text :: "string \<Rightarrow> string \<Rightarrow> int + string \<times> string" where
  "debian_text a b =
     (if text_head a \<or> text_head b
      then (if order_head a \<noteq> order_head b then Inl (if order_head a < order_head b then -1 else 1)
            else debian_text (tl a) (tl b))
      else Inr (a, b))"
  by pat_completeness auto
termination by (relation "measure (\<lambda>(a, b). length a + length b)") (auto simp: text_head_def split: list.splits)

declare debian_text.simps [simp del]

fun debian_digits :: "string \<Rightarrow> string \<Rightarrow> int \<Rightarrow> string \<times> string \<times> int" where
  "debian_digits (x # a) (y # b) first_diff =
     (if is_digit x \<and> is_digit y
      then debian_digits a b (if first_diff = 0 then (if ordc x > ordc y then 1 else 0) - (if ordc x < ordc y then 1 else 0) else first_diff)
      else (x # a, y # b, first_diff))"
| "debian_digits a b first_diff = (a, b, first_diff)"

definition skip_zeros :: "string \<Rightarrow> string" where "skip_zeros = dropWhile (\<lambda>c. c = CHR ''0'')"

lemma digit_head_hd: "digit_head s \<longleftrightarrow> s \<noteq> [] \<and> is_digit (hd s)"
  by (cases s) (auto simp: digit_head_def)

lemma dropWhile_shorter: "s \<noteq> [] \<Longrightarrow> P (hd s) \<Longrightarrow> length (dropWhile P s) < length s"
  by (cases s) (auto simp: less_Suc_eq_le length_dropWhile_le)

lemma debian_text_le:
  "debian_text a b = Inr (a', b') \<Longrightarrow> length a' \<le> length a \<and> length b' \<le> length b \<and> \<not> text_head a' \<and> \<not> text_head b'"
proof (induction a b rule: debian_text.induct)
  case (1 a b)
  show ?case
  proof (cases "text_head a \<or> text_head b")
    case True
    then have "debian_text (tl a) (tl b) = Inr (a', b')" "\<not> order_head a \<noteq> order_head b"
      using 1(2) by (subst (asm) debian_text.simps, simp split: if_splits)+
    then show ?thesis using 1(1) True by fastforce
  next
    case False
    then show ?thesis using 1(2) by (subst (asm) debian_text.simps) simp
  qed
qed

lemma debian_digits_le:
  "debian_digits a b d = (a', b', d') \<Longrightarrow> length a' \<le> length a \<and> length b' \<le> length b \<and> (digit_head a \<and> digit_head b \<longrightarrow> length a' < length a)"
  by (induction a b d rule: debian_digits.induct) (fastforce simp: digit_head_def split: if_splits)+

lemma skip_zeros_le: "length (skip_zeros a) \<le> length a"
  by (simp add: skip_zeros_def length_dropWhile_le)

lemma skip_zeros_Nil [simp]: "skip_zeros [] = []"
  by (simp add: skip_zeros_def)

lemma debian_digits_Nil [simp]: "debian_digits a [] d = (a, [], d)" "debian_digits [] b d = ([], b, d)"
  by (cases a; simp)+

lemma debian_round_shorter:
  assumes "a \<noteq> [] \<or> b \<noteq> []" "debian_text a b = Inr (a1, b1)" "debian_digits (skip_zeros a1) (skip_zeros b1) 0 = (a2, b2, d)"
    "\<not> digit_head a2" "\<not> digit_head b2"
  shows "length a2 + length b2 < length a + length b"
proof -
  have le: "length a1 \<le> length a" "length b1 \<le> length b" and nt: "\<not> text_head a1" "\<not> text_head b1"
    using debian_text_le [OF assms(2)] by auto
  have le2: "length a2 \<le> length (skip_zeros a1)" "length b2 \<le> length (skip_zeros b1)"
    using debian_digits_le [OF assms(3)] by auto
  have sa: "length (skip_zeros x) < length x" if "x \<noteq> []" "\<not> digit_head (skip_zeros x)" "\<not> text_head x" for x
    using that by (cases x) (auto simp: skip_zeros_def digit_head_def text_head_def less_Suc_eq_le length_dropWhile_le split: if_splits)
  show ?thesis
  proof (cases "a1 = [] \<and> b1 = []")
    case True
    then show ?thesis using assms(1,3) by (cases a; cases b) auto
  next
    case False
    then consider "digit_head (skip_zeros a1)" "digit_head (skip_zeros b1)"
      | "a1 \<noteq> []" "\<not> digit_head (skip_zeros a1)" | "b1 \<noteq> []" "\<not> digit_head (skip_zeros b1)"
      | "a1 \<noteq> []" "digit_head (skip_zeros a1)" "b1 = []" | "b1 \<noteq> []" "digit_head (skip_zeros b1)" "a1 = []" by blast
    then show ?thesis
    proof cases
      case 1
      then show ?thesis using debian_digits_le [OF assms(3)] le skip_zeros_le [of a1] skip_zeros_le [of b1] by auto
    next
      case 2
      then show ?thesis using sa [of a1] nt le le2 skip_zeros_le [of b1] by linarith
    next
      case 3
      then show ?thesis using sa [of b1] nt le le2 skip_zeros_le [of a1] by linarith
    next
      case 4
      then have "a2 = skip_zeros a1" using assms(3) by simp
      then show ?thesis using 4 assms(4) by simp
    next
      case 5
      then have "b2 = skip_zeros b1" using assms(3) by simp
      then show ?thesis using 5 assms(5) by simp
    qed
  qed
qed

function debian_compare_part :: "string \<Rightarrow> string \<Rightarrow> int" where
  "debian_compare_part a b =
     (if a = [] \<and> b = [] then 0
      else case debian_text a b of Inl r \<Rightarrow> r
        | Inr (a1, b1) \<Rightarrow>
          (case debian_digits (skip_zeros a1) (skip_zeros b1) 0 of (a2, b2, first_diff) \<Rightarrow>
             if digit_head a2 then 1 else if digit_head b2 then -1
             else if first_diff \<noteq> 0 then first_diff else debian_compare_part a2 b2))"
  by pat_completeness auto
termination
  by (relation "measure (\<lambda>(a, b). length a + length b)") (auto intro: debian_round_shorter [OF _ _ sym])

declare debian_compare_part.simps [simp del]

subsection \<open>RPM\<close>

definition alnum_head :: "string \<Rightarrow> bool" where
  "alnum_head s = (case s of [] \<Rightarrow> False | c # _ \<Rightarrow> is_alnum c)"

definition tilde_head :: "string \<Rightarrow> bool" where
  "tilde_head s = (case s of [] \<Rightarrow> False | c # _ \<Rightarrow> c = CHR ''~'')"

definition skip_separators :: "string \<Rightarrow> string" where
  "skip_separators = dropWhile (\<lambda>c. \<not> is_alnum c)"

text \<open>\<open>run.lstrip("0") or "0"\<close>\<close>

definition stripped_digits :: "string \<Rightarrow> string" where
  "stripped_digits run = (let s = skip_zeros run in if s = [] then ''0'' else s)"

definition less_first :: "string \<Rightarrow> string \<Rightarrow> int" where
  "less_first x y = (if x < y then -1 else 1)"

function rpm_compare_part :: "string \<Rightarrow> string \<Rightarrow> int" where
  "rpm_compare_part a b =
     (if a = [] \<and> b = [] then 0
      else if tilde_head a \<and> tilde_head b then rpm_compare_part (tl a) (tl b)
      else if tilde_head a then -1
      else if tilde_head b then 1
      else let a1 = skip_separators a; b1 = skip_separators b in
        if a1 = [] \<or> b1 = [] then (if a1 = [] \<and> b1 = [] then 0 else if a1 \<noteq> [] then 1 else -1)
        else if digit_head a1
        then (if \<not> digit_head b1 then 1
              else let na = stripped_digits (takeWhile is_digit a1); nb = stripped_digits (takeWhile is_digit b1) in
                if length na \<noteq> length nb then (if length na < length nb then -1 else 1)
                else if na \<noteq> nb then less_first na nb
                else rpm_compare_part (dropWhile is_digit a1) (dropWhile is_digit b1))
        else if digit_head b1 then -1
        else let sa = takeWhile is_alpha a1; sb = takeWhile is_alpha b1 in
          if sa \<noteq> sb then less_first sa sb
          else rpm_compare_part (dropWhile is_alpha a1) (dropWhile is_alpha b1))"
  by pat_completeness auto
termination
proof (relation "measure (\<lambda>(a, b). length a + length b)", goal_cases)
  case (2 a b)
  then show ?case by (cases a; cases b) (auto simp: tilde_head_def)
next
  case (3 a b a1 b1 na nb)
  have "length (dropWhile is_digit a1) < length a1" using 3 by (intro dropWhile_shorter) (simp_all add: digit_head_hd)
  moreover have "length (dropWhile is_digit b1) \<le> length b1" by (rule length_dropWhile_le)
  moreover have "length a1 \<le> length a" "length b1 \<le> length b" using 3 by (simp_all add: skip_separators_def length_dropWhile_le)
  ultimately show ?case by simp
next
  case (4 a b a1 b1 sa sb)
  have "a1 \<noteq> []" "is_alnum (hd a1)" using 4 hd_dropWhile [of "\<lambda>c. \<not> is_alnum c" a] by (auto simp: skip_separators_def dropWhile_eq_Nil_conv)
  then have "length (dropWhile is_alpha a1) < length a1"
    using 4 by (intro dropWhile_shorter) (simp_all add: digit_head_hd is_alnum_def)
  moreover have "length (dropWhile is_alpha b1) \<le> length b1" by (rule length_dropWhile_le)
  moreover have "length a1 \<le> length a" "length b1 \<le> length b" using 4 by (simp_all add: skip_separators_def length_dropWhile_le)
  ultimately show ?case by simp
qed auto

declare rpm_compare_part.simps [simp del]

subsection \<open>Epoch, version, release\<close>

definition parse_evr :: "string \<Rightarrow> bool \<Rightarrow> version_key" where
  "parse_evr raw rpm =
     (let text = py_strip raw;
          (head, colon, tail) = partition_on (CHR '':'') text;
          (epoch, rest) = (if colon \<and> str_isdigit head then (int_of_digits head, tail) else (0, text));
          (upstream, dash, revision) = rpartition_on (CHR ''-'') rest
      in if dash then EvrVersion epoch upstream revision rpm else EvrVersion epoch rest [] rpm)"

fun evr_cmp :: "version_key \<Rightarrow> version_key \<Rightarrow> int" where
  "evr_cmp (EvrVersion e u r rpm) (EvrVersion e' u' r' rpm') =
     (if e \<noteq> e' then (if e < e' then -1 else 1)
      else let part = (if rpm then rpm_compare_part else debian_compare_part); c = part u u' in
        if c \<noteq> 0 then c else part r r')"
| "evr_cmp k k' = 0"

subsection \<open>Comparing keys\<close>

text \<open>
  \<open>key == key\<close> and \<open>key < key\<close>.  Tuples compare at the first place they differ; a tag against identifiers
  compares a text with a tuple or a sentinel; a tuple and a version object cannot be ordered.
\<close>

fun pre_less :: "pre_part \<Rightarrow> pre_part \<Rightarrow> py_error + bool" where
  "pre_less p PreNegInf = Inr False"
| "pre_less PreNegInf p = Inr True"
| "pre_less PreInf p = Inr False"
| "pre_less p PreInf = Inr True"
| "pre_less (PreTag s n) (PreTag s' n') = Inr ((s, n) < (s', n'))"
| "pre_less (PreIdents l) (PreIdents l') = Inr (l < l')"
| "pre_less (PreTag s n) (PreIdents l) =
     (case l of [] \<Rightarrow> Inr False | Inf # _ \<Rightarrow> Inr True | NegInf # _ \<Rightarrow> Inr False | At i # _ \<Rightarrow> Inl TypeError)"
| "pre_less (PreIdents l) (PreTag s n) =
     (case l of [] \<Rightarrow> Inr True | Inf # _ \<Rightarrow> Inr False | NegInf # _ \<Rightarrow> Inr True | At i # _ \<Rightarrow> Inl TypeError)"

fun key_eq :: "version_key \<Rightarrow> version_key \<Rightarrow> bool" where
  "key_eq (EvrVersion e u r rpm) (EvrVersion e' u' r' rpm') =
     (evr_cmp (EvrVersion e u r rpm) (EvrVersion e' u' r' rpm') = 0)"
| "key_eq k k' = (k = k')"

fun key_less :: "version_key \<Rightarrow> version_key \<Rightarrow> py_error + bool" where
  "key_less (Plain e rel pre post dev) (Plain e' rel' pre' post' dev') =
     (if e \<noteq> e' then Inr (e < e')
      else if rel \<noteq> rel' then Inr (rel < rel')
      else if pre \<noteq> pre' then pre_less pre pre'
      else Inr ((post, dev) < (post', dev')))"
| "key_less (EvrVersion e u r rpm) (EvrVersion e' u' r' rpm') =
     Inr (evr_cmp (EvrVersion e u r rpm) (EvrVersion e' u' r' rpm') < 0)"
| "key_less k k' = Inl TypeError"

definition version_key :: "string \<Rightarrow> ecosystem \<Rightarrow> version_key" where
  "version_key raw eco =
     (let text = py_strip raw in
      if text = [] then generic_key []
      else case eco of
          PYPI \<Rightarrow> pep440_key text
        | NPM \<Rightarrow> semver_key text | SEMVER \<Rightarrow> semver_key text | GO \<Rightarrow> semver_key text
        | NUGET \<Rightarrow> semver_key text | RUBYGEMS \<Rightarrow> semver_key text
        | MAVEN \<Rightarrow> maven_key text
        | DEBIAN \<Rightarrow> parse_evr text False
        | RPM \<Rightarrow> parse_evr text True
        | GENERIC \<Rightarrow> generic_key text)"

definition compare :: "string \<Rightarrow> string \<Rightarrow> ecosystem \<Rightarrow> int" where
  "compare a b eco =
     (let ka = version_key a eco; kb = version_key b eco in
      if key_eq ka kb then 0
      else case key_less ka kb of Inr lt \<Rightarrow> if lt then -1 else 1
        | Inl _ \<Rightarrow> let ga = generic_key a; gb = generic_key b in
            if key_eq ga gb then 0 else if key_less ga gb = Inr True then -1 else 1)"

section \<open>Three-way comparisons\<close>

text \<open>What the users of a comparison rely on: a total preorder on the values they call valid.\<close>

locale three_way =
  fixes valid :: "'a \<Rightarrow> bool" and cmp :: "'a \<Rightarrow> 'a \<Rightarrow> int"
  assumes cmp_range: "cmp x y \<in> {-1, 0, 1}"
    and cmp_refl: "valid x \<Longrightarrow> cmp x x = 0"
    and cmp_swap: "valid x \<Longrightarrow> valid y \<Longrightarrow> cmp y x = - cmp x y"
    and cmp_trans: "valid x \<Longrightarrow> valid y \<Longrightarrow> valid z \<Longrightarrow> cmp x y \<le> 0 \<Longrightarrow> cmp y z \<le> 0 \<Longrightarrow> cmp x z \<le> 0"
begin

lemma le_less_trans: "valid x \<Longrightarrow> valid y \<Longrightarrow> valid z \<Longrightarrow> cmp x y \<le> 0 \<Longrightarrow> cmp y z < 0 \<Longrightarrow> cmp x z < 0"
  using cmp_trans [of x y z] cmp_trans [of z x y] cmp_swap [of x z] cmp_swap [of y z] by linarith

lemma less_le_trans: "valid x \<Longrightarrow> valid y \<Longrightarrow> valid z \<Longrightarrow> cmp x y < 0 \<Longrightarrow> cmp y z \<le> 0 \<Longrightarrow> cmp x z < 0"
  using cmp_trans [of x y z] cmp_trans [of y z x] cmp_swap [of x z] cmp_swap [of y x] by linarith

lemma equal_trans: "valid x \<Longrightarrow> valid y \<Longrightarrow> valid z \<Longrightarrow> cmp x y = 0 \<Longrightarrow> cmp y z = 0 \<Longrightarrow> cmp x z = 0"
  using cmp_trans [of x y z] cmp_trans [of z y x] cmp_swap [of x y] cmp_swap [of y z] cmp_swap [of x z] by linarith

lemma equal_subst: "valid x \<Longrightarrow> valid y \<Longrightarrow> valid z \<Longrightarrow> cmp x y = 0 \<Longrightarrow> cmp x z = cmp y z"
proof -
  assume v: "valid x" "valid y" "valid z" and e: "cmp x y = 0"
  have "cmp y x = 0" using v e cmp_swap [of x y] by simp
  then have "cmp x z \<le> 0 \<longleftrightarrow> cmp y z \<le> 0" "cmp x z < 0 \<longleftrightarrow> cmp y z < 0"
    using v e cmp_trans [of x y z] cmp_trans [of y x z] le_less_trans [of x y z] le_less_trans [of y x z] by auto
  then show ?thesis using cmp_range [of x z] cmp_range [of y z] by auto
qed

end

definition sign_cmp :: "'a :: linorder \<Rightarrow> 'a \<Rightarrow> int" where
  "sign_cmp x y = (if x = y then 0 else if x < y then -1 else 1)"

lemma three_way_key: "three_way v (\<lambda>x y. sign_cmp (f x) (f y))"
  by unfold_locales (auto simp: sign_cmp_def split: if_splits)

text \<open>First one comparison, then another where the first says equal.\<close>

lemma three_way_then:
  assumes "three_way v c" "three_way v d"
  shows "three_way v (\<lambda>x y. if c x y \<noteq> 0 then c x y else d x y)"
proof -
  note c = three_way.cmp_range [OF assms(1)] three_way.cmp_refl [OF assms(1)] three_way.cmp_swap [OF assms(1)]
    three_way.cmp_trans [OF assms(1)] three_way.equal_trans [OF assms(1)] three_way.le_less_trans [OF assms(1)]
    three_way.less_le_trans [OF assms(1)]
  note d = three_way.cmp_range [OF assms(2)] three_way.cmp_refl [OF assms(2)] three_way.cmp_swap [OF assms(2)]
    three_way.cmp_trans [OF assms(2)]
  show ?thesis
  proof
    fix x y z assume v: "v x" "v y" "v z" and xy: "(if c x y \<noteq> 0 then c x y else d x y) \<le> 0"
      and yz: "(if c y z \<noteq> 0 then c y z else d y z) \<le> 0"
    have "c x y \<le> 0" "c y z \<le> 0" using xy yz by (auto split: if_splits)
    then consider "c x z < 0" | "c x z = 0" "c x y = 0" "c y z = 0"
      using c(4) [OF v] c(6) [OF v] c(7) [OF v] c(5) [OF v] by fastforce
    then show "(if c x z \<noteq> 0 then c x z else d x z) \<le> 0"
      using d(4) [OF v] xy yz by cases auto
  next
    fix x y show "(if c x y \<noteq> 0 then c x y else d x y) \<in> {-1, 0, 1}" using c(1) [of x y] d(1) [of x y] by auto
  next
    fix x assume "v x" then show "(if c x x \<noteq> 0 then c x x else d x x) = 0" using c(2) d(2) by simp
  next
    fix x y assume "v x" "v y"
    then show "(if c y x \<noteq> 0 then c y x else d y x) = - (if c x y \<noteq> 0 then c x y else d x y)"
      using c(3) [of x y] d(3) [of x y] by simp
  qed
qed

lemma three_way_on:
  assumes "three_way v c" and w: "\<And>x. w x \<Longrightarrow> v (f x)"
  shows "three_way w (\<lambda>x y. c (f x) (f y))"
proof
  note c = three_way.cmp_range [OF assms(1)] three_way.cmp_refl [OF assms(1)] three_way.cmp_swap [OF assms(1)] three_way.cmp_trans [OF assms(1)]
  show "c (f x) (f y) \<in> {-1, 0, 1}" for x y by (rule c(1))
  show "w x \<Longrightarrow> c (f x) (f x) = 0" for x by (rule c(2) [OF w])
  show "w x \<Longrightarrow> w y \<Longrightarrow> c (f y) (f x) = - c (f x) (f y)" for x y by (rule c(3) [OF w w])
  show "w x \<Longrightarrow> w y \<Longrightarrow> w z \<Longrightarrow> c (f x) (f y) \<le> 0 \<Longrightarrow> c (f y) (f z) \<le> 0 \<Longrightarrow> c (f x) (f z) \<le> 0" for x y z
    by (rule c(4) [OF w w w])
qed

lemma three_way_cong:
  assumes "three_way v c" and r: "\<And>x y. d x y \<in> {-1, 0, 1}" and e: "\<And>x y. v x \<Longrightarrow> v y \<Longrightarrow> d x y = c x y"
  shows "three_way v d"
proof
  note c = three_way.cmp_refl [OF assms(1)] three_way.cmp_swap [OF assms(1)] three_way.cmp_trans [OF assms(1)]
  show "d x y \<in> {-1, 0, 1}" for x y by (rule r)
  show "v x \<Longrightarrow> d x x = 0" for x using c(1) [of x] e [of x x] by simp
  show "v x \<Longrightarrow> v y \<Longrightarrow> d y x = - d x y" for x y using c(2) [of x y] e [of x y] e [of y x] by simp
  show "v x \<Longrightarrow> v y \<Longrightarrow> v z \<Longrightarrow> d x y \<le> 0 \<Longrightarrow> d y z \<le> 0 \<Longrightarrow> d x z \<le> 0" for x y z
    using c(3) [of x y z] e [of x y] e [of y z] e [of x z] by simp
qed

subsection \<open>Sequences that end in zeros\<close>

text \<open>The order of the Debian parts: number by number, a sequence that ends going on with zeros.\<close>

fun pad_cmp :: "int list \<Rightarrow> int list \<Rightarrow> int" where
  "pad_cmp [] [] = 0"
| "pad_cmp (x # xs) [] = (if x < 0 then -1 else if 0 < x then 1 else pad_cmp xs [])"
| "pad_cmp [] (y # ys) = (if 0 < y then -1 else if y < 0 then 1 else pad_cmp [] ys)"
| "pad_cmp (x # xs) (y # ys) = (if x < y then -1 else if y < x then 1 else pad_cmp xs ys)"

definition head0 :: "int list \<Rightarrow> int" where "head0 xs = (case xs of [] \<Rightarrow> 0 | x # _ \<Rightarrow> x)"

lemma pad_cmp_step: "pad_cmp xs ys =
    (if xs = [] \<and> ys = [] then 0 else if head0 xs < head0 ys then -1 else if head0 ys < head0 xs then 1 else pad_cmp (tl xs) (tl ys))"
  by (cases xs; cases ys) (auto simp: head0_def)

lemma pad_cmp_range: "pad_cmp xs ys \<in> {-1, 0, 1}"
  by (induction xs ys rule: pad_cmp.induct) auto

lemma pad_cmp_refl: "pad_cmp xs xs = 0"
  by (induction xs) auto

lemma pad_cmp_swap: "pad_cmp ys xs = - pad_cmp xs ys"
  by (induction xs ys rule: pad_cmp.induct) auto

lemma pad_cmp_trans: "pad_cmp xs ys \<le> 0 \<Longrightarrow> pad_cmp ys zs \<le> 0 \<Longrightarrow> pad_cmp xs zs \<le> 0"
proof (induction "length xs + length ys + length zs" arbitrary: xs ys zs rule: less_induct)
  case less
  show ?case
  proof (cases "xs = [] \<and> ys = [] \<and> zs = []")
    case False
    have le: "head0 xs \<le> head0 ys" "head0 ys \<le> head0 zs"
      using less.prems pad_cmp_step [of xs ys] pad_cmp_step [of ys zs] by (auto simp: head0_def split: if_splits)
    show ?thesis
    proof (cases "head0 xs < head0 zs")
      case True
      then show ?thesis using pad_cmp_step [of xs zs] by auto
    next
      case eq: False
      then have h: "head0 xs = head0 ys" "head0 ys = head0 zs" using le by auto
      have "pad_cmp (tl xs) (tl ys) \<le> 0" "pad_cmp (tl ys) (tl zs) \<le> 0"
        using less.prems h pad_cmp_step [of xs ys] pad_cmp_step [of ys zs] by (auto split: if_splits)
      moreover have "length (tl xs) + length (tl ys) + length (tl zs) < length xs + length ys + length zs"
        using False by (cases xs; cases ys; cases zs) auto
      ultimately have "pad_cmp (tl xs) (tl zs) \<le> 0" using less.hyps by blast
      then show ?thesis using h pad_cmp_step [of xs zs] by auto
    qed
  qed simp
qed

lemma pad_cmp_append: "length xs = length ys \<Longrightarrow> pad_cmp (xs @ us) (ys @ vs) = (if xs = ys then pad_cmp us vs else pad_cmp xs ys)"
  by (induction xs ys rule: list_induct2) auto

lemma pad_cmp_same_length: "length xs = length ys \<Longrightarrow> pad_cmp xs ys = 0 \<longleftrightarrow> xs = ys"
  by (induction xs ys rule: list_induct2) auto

interpretation padded: three_way "\<lambda>xs. True" pad_cmp
proof unfold_locales
  fix xs ys zs :: "int list"
  show "pad_cmp xs ys \<in> {-1, 0, 1}" by (rule pad_cmp_range)
  show "pad_cmp xs xs = 0" by (rule pad_cmp_refl)
  show "pad_cmp ys xs = - pad_cmp xs ys" by (rule pad_cmp_swap)
  show "pad_cmp xs ys \<le> 0 \<Longrightarrow> pad_cmp ys zs \<le> 0 \<Longrightarrow> pad_cmp xs zs \<le> 0" by (rule pad_cmp_trans)
qed

subsection \<open>Debian parts as sequences\<close>

definition text_run :: "string \<Rightarrow> string" where "text_run = takeWhile (\<lambda>c. \<not> is_digit c)"

definition after_text :: "string \<Rightarrow> string" where "after_text = dropWhile (\<lambda>c. \<not> is_digit c)"

definition digit_run :: "string \<Rightarrow> string" where "digit_run = takeWhile is_digit"

definition after_digits :: "string \<Rightarrow> string" where "after_digits = dropWhile is_digit"

definition next_block :: "string \<Rightarrow> string" where
  "next_block s = after_digits (skip_zeros (after_text s))"

definition block_code :: "string \<Rightarrow> int list" where
  "block_code s = (let ds = digit_run (skip_zeros (after_text s)) in
     map debian_order (text_run s) @ 0 # int (length ds) # map (\<lambda>c. int (ordc c)) ds)"

lemma next_block_shorter: "s \<noteq> [] \<Longrightarrow> length (next_block s) < length s"
proof (cases "after_text s = s")
  case True
  assume s: "s \<noteq> []"
  then have d: "is_digit (hd s)" using True hd_dropWhile [of "\<lambda>c. \<not> is_digit c" s] by (simp add: after_text_def)
  show ?thesis
  proof (cases "hd s = CHR ''0''")
    case True
    then have "length (skip_zeros s) < length s" using s by (auto simp: skip_zeros_def intro: dropWhile_shorter)
    then show ?thesis using length_dropWhile_le [of is_digit "skip_zeros s"]
      by (simp add: next_block_def after_digits_def \<open>after_text s = s\<close>)
  next
    case False
    then have "skip_zeros s = s" using s by (cases s) (simp_all add: skip_zeros_def)
    then show ?thesis using dropWhile_shorter [OF s, of is_digit] d
      by (simp add: next_block_def after_digits_def \<open>after_text s = s\<close>)
  qed
next
  case False
  then have "length (after_text s) < length s"
    by (cases s) (auto simp: after_text_def less_Suc_eq_le length_dropWhile_le split: if_splits)
  then show ?thesis using length_dropWhile_le [of is_digit "skip_zeros (after_text s)"] skip_zeros_le [of "after_text s"]
    by (simp add: next_block_def after_digits_def)
qed

function debian_code :: "string \<Rightarrow> int list" where
  "debian_code s = (if s = [] then [] else block_code s @ debian_code (next_block s))"
  by pat_completeness auto
termination by (relation "measure length") (simp_all add: next_block_shorter)

declare debian_code.simps [simp del]

lemma debian_order_text: "\<not> is_digit c \<Longrightarrow> debian_order c \<noteq> 0"
  by (auto simp: debian_order_def is_alpha_def is_lower_def is_upper_def)

lemma order_head_0: "order_head s = 0 \<longleftrightarrow> \<not> text_head s"
proof (cases s)
  case (Cons c t)
  have "is_digit c \<Longrightarrow> debian_order c = 0" by (auto simp: debian_order_def is_digit_def ordc_def)
  then show ?thesis using debian_order_text [of c] Cons by (auto simp: order_head_def text_head_def)
qed (simp add: order_head_def text_head_def)

lemma text_head_cons: "text_head s \<Longrightarrow> \<exists>x t. s = x # t \<and> \<not> is_digit x"
  by (cases s) (auto simp: text_head_def)

lemma no_run: "[] = takeWhile P s \<Longrightarrow> dropWhile P s = s"
  by (cases s) (auto split: if_splits)

lemma order_head_code: "head0 (map debian_order (text_run s) @ 0 # u) = order_head s"
  by (cases s) (auto simp: head0_def text_run_def order_head_def debian_order_def is_digit_def ordc_def)

lemma debian_text_Inl:
  "debian_text a b = Inl r \<Longrightarrow>
     pad_cmp (map debian_order (text_run a) @ 0 # u) (map debian_order (text_run b) @ 0 # v) = r"
proof (induction a b rule: debian_text.induct)
  case (1 a b)
  then have h: "text_head a \<or> text_head b" by (subst (asm) (2) debian_text.simps) (simp split: if_splits)
  show ?case
  proof (cases "order_head a = order_head b")
    case False
    then have "r = (if order_head a < order_head b then -1 else 1)"
      using 1(2) h by (subst (asm) debian_text.simps) simp
    then show ?thesis using False order_head_code [of a u] order_head_code [of b v]
      by (subst pad_cmp_step) auto
  next
    case True
    then obtain x a' y b' where ab: "a = x # a'" "b = y # b'" "\<not> is_digit x" "\<not> is_digit y"
      using h order_head_0 [of a] order_head_0 [of b] text_head_cons by metis
    moreover have "debian_text a' b' = Inl r"
      using 1(2) h True ab by (subst (asm) debian_text.simps) simp
    ultimately show ?thesis using 1(1) h True by (simp add: text_run_def order_head_def)
  qed
qed

lemma debian_text_Inr:
  "debian_text a b = Inr (a', b') \<Longrightarrow>
     map debian_order (text_run a) = map debian_order (text_run b) \<and> a' = after_text a \<and> b' = after_text b"
proof (induction a b rule: debian_text.induct)
  case (1 a b)
  show ?case
  proof (cases "text_head a \<or> text_head b")
    case False
    then have "text_run a = []" "text_run b = []" "after_text a = a" "after_text b = b"
      by (cases a; cases b; simp add: text_head_def text_run_def after_text_def)+
    then show ?thesis using 1(2) False by (subst (asm) debian_text.simps) simp
  next
    case True
    then have eq: "order_head a = order_head b" using 1(2) by (subst (asm) debian_text.simps) (simp split: if_splits)
    then obtain x s y t where ab: "a = x # s" "b = y # t" "\<not> is_digit x" "\<not> is_digit y"
      using True order_head_0 [of a] order_head_0 [of b] text_head_cons by metis
    moreover have "debian_text s t = Inr (a', b')"
      using 1(2) True eq ab by (subst (asm) debian_text.simps) simp
    ultimately show ?thesis using 1(1) True eq by (simp add: text_run_def after_text_def order_head_def)
  qed
qed

lemma debian_digits_equal:
  "length (digit_run x) = length (digit_run y) \<Longrightarrow>
     debian_digits x y d = (after_digits x, after_digits y,
       if d \<noteq> 0 then d else if digit_run x = digit_run y then 0
       else pad_cmp (map (\<lambda>c. int (ordc c)) (digit_run x)) (map (\<lambda>c. int (ordc c)) (digit_run y)))"
  by (induction x y d rule: debian_digits.induct)
    (auto simp: digit_run_def after_digits_def ordc_eq_iff no_run split: if_splits)

lemma debian_digits_longer:
  "length (digit_run y) < length (digit_run x) \<Longrightarrow> digit_head (fst (debian_digits x y d))"
  by (induction x y d rule: debian_digits.induct) (auto simp: digit_run_def digit_head_def split: if_splits list.splits)

lemma debian_digits_shorter:
  "length (digit_run x) < length (digit_run y) \<Longrightarrow>
     \<not> digit_head (fst (debian_digits x y d)) \<and> digit_head (fst (snd (debian_digits x y d)))"
  by (induction x y d rule: debian_digits.induct) (auto simp: digit_run_def digit_head_def split: if_splits list.splits)

lemma block_code_Nil [simp]: "block_code [] = [0, 0]"
  by (simp add: block_code_def text_run_def after_text_def digit_run_def)

lemma debian_code_unfold:
  "pad_cmp (debian_code a) (debian_code b) =
     (if a = [] \<and> b = [] then 0
      else pad_cmp (block_code a @ debian_code (next_block a)) (block_code b @ debian_code (next_block b)))"
proof -
  have nil: "debian_code [] = []" "next_block [] = []"
    by (simp_all add: debian_code.simps next_block_def after_digits_def after_text_def)
  have z: "pad_cmp [0, 0] ys = pad_cmp [] ys" "pad_cmp ys [0, 0] = pad_cmp ys []" for ys
    by (cases ys; cases "tl ys"; auto)+
  show ?thesis
    by (cases "a = []"; cases "b = []") (simp_all add: nil z debian_code.simps [of a] debian_code.simps [of b])
qed

lemma debian_compare_code: "debian_compare_part a b = pad_cmp (debian_code a) (debian_code b)"
proof (induction a b rule: debian_compare_part.induct)
  case (1 a b)
  show ?case
  proof (cases "a = [] \<and> b = []")
    case True
    then show ?thesis by (simp add: debian_compare_part.simps debian_code.simps)
  next
    case ne: False
    let ?x = "skip_zeros (after_text a)" and ?y = "skip_zeros (after_text b)"
    have code: "pad_cmp (debian_code a) (debian_code b) =
        pad_cmp (map debian_order (text_run a) @ 0 # int (length (digit_run ?x)) # map (\<lambda>c. int (ordc c)) (digit_run ?x) @ debian_code (next_block a))
          (map debian_order (text_run b) @ 0 # int (length (digit_run ?y)) # map (\<lambda>c. int (ordc c)) (digit_run ?y) @ debian_code (next_block b))"
      by (simp only: debian_code_unfold ne if_False) (simp add: block_code_def Let_def)
    show ?thesis
    proof (cases "debian_text a b")
      case (Inl r)
      then have "debian_compare_part a b = r" using ne Inl by (subst debian_compare_part.simps) auto
      then show ?thesis using debian_text_Inl [OF Inl] code by simp
    next
      case (Inr p)
      obtain a1 b1 where p: "p = (a1, b1)" by fastforce
      note t = debian_text_Inr [OF Inr [unfolded p]]
      have rounds: "debian_compare_part a b =
          (case debian_digits ?x ?y 0 of (a2, b2, d) \<Rightarrow>
             if digit_head a2 then 1 else if digit_head b2 then -1 else if d \<noteq> 0 then d else debian_compare_part a2 b2)"
        using ne Inr p t by (subst debian_compare_part.simps) auto
      have rest: "pad_cmp (debian_code a) (debian_code b) =
          pad_cmp (int (length (digit_run ?x)) # map (\<lambda>c. int (ordc c)) (digit_run ?x) @ debian_code (next_block a))
            (int (length (digit_run ?y)) # map (\<lambda>c. int (ordc c)) (digit_run ?y) @ debian_code (next_block b))"
        using t by (simp add: code pad_cmp_append)
      consider "length (digit_run ?x) > length (digit_run ?y)" | "length (digit_run ?x) < length (digit_run ?y)"
        | "length (digit_run ?x) = length (digit_run ?y)" by linarith
      then show ?thesis
      proof cases
        case 1
        then show ?thesis using rounds rest debian_digits_longer [of ?y ?x 0] by (simp add: case_prod_beta)
      next
        case 2
        then show ?thesis using rounds rest debian_digits_shorter [of ?x ?y 0] by (simp add: case_prod_beta)
      next
        case 3
        note d = debian_digits_equal [OF 3, of 0]
        have nh: "\<not> digit_head (after_digits s)" for s
          using hd_dropWhile [of is_digit s] by (auto simp: digit_head_hd after_digits_def)
        have inj: "map (\<lambda>c. int (ordc c)) u = map (\<lambda>c. int (ordc c)) v \<longleftrightarrow> u = v" for u v
          by (auto intro: map_injective simp: inj_def ordc_eq_iff)
        show ?thesis
        proof (cases "digit_run ?x = digit_run ?y")
          case True
          have "debian_compare_part (next_block a) (next_block b) = pad_cmp (debian_code (next_block a)) (debian_code (next_block b))"
            using 1(1) ne Inr p t d nh True by (simp add: next_block_def)
          then show ?thesis using rounds rest d nh True by (simp add: next_block_def pad_cmp_append)
        next
          case False
          let ?m = "map (\<lambda>c. int (ordc c))"
          have "pad_cmp (?m (digit_run ?x)) (?m (digit_run ?y)) \<noteq> 0"
            using False 3 inj pad_cmp_same_length [of "?m (digit_run ?x)" "?m (digit_run ?y)"] by simp
          then show ?thesis using rounds rest d nh False 3 inj by (simp add: pad_cmp_append)
        qed
      qed
    qed
  qed
qed

subsection \<open>RPM parts as tokens\<close>

text \<open>Each token is a tuple: a tilde, the end, a word, a number as its length and digits.\<close>

type_synonym rpm_token = "int \<times> int \<times> string"

function rpm_tokens :: "string \<Rightarrow> rpm_token list" where
  "rpm_tokens s =
     (if s = [] then [(0, 0, [])]
      else if tilde_head s then (-1, 0, []) # rpm_tokens (tl s)
      else let t = skip_separators s in
        if t = [] then [(0, 0, [])]
        else if digit_head t
        then (let n = stripped_digits (takeWhile is_digit t) in (2, int (length n), n) # rpm_tokens (dropWhile is_digit t))
        else (1, 0, takeWhile is_alpha t) # rpm_tokens (dropWhile is_alpha t))"
  by pat_completeness auto
termination
proof (relation "measure length", goal_cases)
  case (3 s t n)
  then have "length (dropWhile is_digit t) < length t" by (intro dropWhile_shorter) (simp_all add: digit_head_hd)
  moreover have "length t \<le> length s" using 3 by (simp add: skip_separators_def length_dropWhile_le)
  ultimately show ?case by simp
next
  case (4 s t)
  have "is_alnum (hd t)" using 4 hd_dropWhile [of "\<lambda>c. \<not> is_alnum c" s] by (auto simp: skip_separators_def)
  then have "length (dropWhile is_alpha t) < length t"
    using 4 by (intro dropWhile_shorter) (simp_all add: digit_head_hd is_alnum_def)
  moreover have "length t \<le> length s" using 4 by (simp add: skip_separators_def length_dropWhile_le)
  ultimately show ?case by simp
qed auto

declare rpm_tokens.simps [simp del]

lemma rpm_tokens_not_Nil [simp]: "rpm_tokens s \<noteq> []"
  by (subst rpm_tokens.simps) (simp add: Let_def)

lemma sign_cmp_Cons [simp]: "sign_cmp (x # xs) (y # ys) = (if x = y then sign_cmp xs ys else sign_cmp x y)"
  by (auto simp: sign_cmp_def)

lemma sign_cmp_self [simp]: "sign_cmp x x = 0"
  by (simp add: sign_cmp_def)

lemma rpm_tokens_end: "\<not> tilde_head s \<Longrightarrow> skip_separators s = [] \<Longrightarrow> rpm_tokens s = [(0, 0, [])]"
  by (simp add: rpm_tokens.simps [of s])

lemma rpm_tokens_tilde: "tilde_head s \<Longrightarrow> rpm_tokens s = (-1, 0, []) # rpm_tokens (tl s)"
  by (subst rpm_tokens.simps) (auto simp: tilde_head_def)

lemma rpm_tokens_part:
  "\<not> tilde_head s \<Longrightarrow> skip_separators s \<noteq> [] \<Longrightarrow> rpm_tokens s =
     (let t = skip_separators s in
      if digit_head t then (let n = stripped_digits (takeWhile is_digit t) in (2, int (length n), n) # rpm_tokens (dropWhile is_digit t))
      else (1, 0, takeWhile is_alpha t) # rpm_tokens (dropWhile is_alpha t))"
  by (simp add: rpm_tokens.simps [of s] Let_def) (auto simp: skip_separators_def)

lemma rpm_first_token:
  "\<not> tilde_head s \<Longrightarrow> (-1, 0, []) < hd (rpm_tokens s)"
  "\<not> tilde_head s \<Longrightarrow> skip_separators s \<noteq> [] \<Longrightarrow> (0, 0, []) < hd (rpm_tokens s)"
  by (cases "skip_separators s = []"; simp add: rpm_tokens_end rpm_tokens_part Let_def)+

lemma sign_cmp_first:
  assumes "xs \<noteq> []" "t < hd xs"
  shows "sign_cmp (t # ys) xs = -1" "sign_cmp xs (t # ys) = 1"
  using assms by (cases xs; auto simp: sign_cmp_def)+

lemma rpm_compare_code: "rpm_compare_part a b = sign_cmp (rpm_tokens a) (rpm_tokens b)"
proof (induction a b rule: rpm_compare_part.induct)
  case (1 a b)
  let ?a = "skip_separators a" and ?b = "skip_separators b"
  have nil: "skip_separators [] = []" "\<not> tilde_head []" by (simp_all add: skip_separators_def tilde_head_def)
  note c = rpm_compare_part.simps [of a b]
  consider "a = [] \<and> b = []" | "tilde_head a" "tilde_head b" | "tilde_head a" "\<not> tilde_head b" | "\<not> tilde_head a" "tilde_head b"
    | "\<not> (a = [] \<and> b = [])" "\<not> tilde_head a" "\<not> tilde_head b" by blast
  then show ?case
  proof cases
    case 1
    then show ?thesis by (subst rpm_compare_part.simps) simp
  next
    case 2
    then have "\<not> (a = [] \<and> b = [])" using nil by auto
    then show ?thesis using 2 "1.IH"(1) by (simp add: c rpm_tokens_tilde)
  next
    case 3
    then have "rpm_compare_part a b = -1" using nil by (auto simp: c)
    then show ?thesis using 3 sign_cmp_first(1) [OF _ rpm_first_token(1), of b] by (simp add: rpm_tokens_tilde)
  next
    case 4
    then have "rpm_compare_part a b = 1" using nil by (auto simp: c)
    then show ?thesis using 4 sign_cmp_first(2) [OF _ rpm_first_token(1), of a] by (simp add: rpm_tokens_tilde)
  next
    case 5
    consider "?a = []" "?b = []" | "?a \<noteq> []" "?b = []" | "?a = []" "?b \<noteq> []" | "?a \<noteq> []" "?b \<noteq> []" by blast
    then show ?thesis
    proof cases
      case 1
      then show ?thesis using 5 by (simp add: c Let_def rpm_tokens_end)
    next
      case 2
      then have "rpm_compare_part a b = 1" using 5 by (simp add: c Let_def)
      then show ?thesis using 2 5 sign_cmp_first(2) [OF _ rpm_first_token(2), of a] by (simp add: rpm_tokens_end)
    next
      case 3
      then have "rpm_compare_part a b = -1" using 5 by (simp add: c Let_def)
      then show ?thesis using 3 5 sign_cmp_first(1) [OF _ rpm_first_token(2), of b] by (simp add: rpm_tokens_end)
    next
      case 4
      have ne: "\<not> (a = [] \<and> b = [])" "\<not> (?a = [] \<or> ?b = [])" using 4 5 by simp_all
      let ?na = "stripped_digits (takeWhile is_digit ?a)" and ?nb = "stripped_digits (takeWhile is_digit ?b)"
      let ?sa = "takeWhile is_alpha ?a" and ?sb = "takeWhile is_alpha ?b"
      note tok = rpm_tokens_part [OF 5(2) 4(1)] rpm_tokens_part [OF 5(3) 4(2)]
      consider "digit_head ?a" "digit_head ?b" | "digit_head ?a \<noteq> digit_head ?b" | "\<not> digit_head ?a" "\<not> digit_head ?b" by blast
      then show ?thesis
      proof cases
        case 1
        have "rpm_compare_part a b = (if length ?na \<noteq> length ?nb then (if length ?na < length ?nb then -1 else 1)
            else if ?na \<noteq> ?nb then less_first ?na ?nb
            else rpm_compare_part (dropWhile is_digit ?a) (dropWhile is_digit ?b))"
          using ne 5 1 by (simp only: c ne if_False if_True simp_thms Let_def)
        moreover have "?na = ?nb \<Longrightarrow> rpm_compare_part (dropWhile is_digit ?a) (dropWhile is_digit ?b) =
            sign_cmp (rpm_tokens (dropWhile is_digit ?a)) (rpm_tokens (dropWhile is_digit ?b))"
          using "1.IH"(2) [of ?a ?b ?na ?nb] ne 5 1 by simp
        ultimately show ?thesis using 1 by (simp add: tok Let_def less_first_def) (simp add: sign_cmp_def)
      next
        case 2
        then show ?thesis using ne 5 by (simp add: c tok Let_def) (auto simp: sign_cmp_def)
      next
        case 3
        have "rpm_compare_part a b = (if ?sa \<noteq> ?sb then less_first ?sa ?sb
            else rpm_compare_part (dropWhile is_alpha ?a) (dropWhile is_alpha ?b))"
          using ne 5 3 by (simp only: c ne if_False if_True simp_thms Let_def)
        moreover have "?sa = ?sb \<Longrightarrow> rpm_compare_part (dropWhile is_alpha ?a) (dropWhile is_alpha ?b) =
            sign_cmp (rpm_tokens (dropWhile is_alpha ?a)) (rpm_tokens (dropWhile is_alpha ?b))"
          using "1.IH"(3) [of ?a ?b ?sa ?sb] ne 5 3 by simp
        ultimately show ?thesis using 3 by (simp add: tok Let_def less_first_def) (simp add: sign_cmp_def)
      qed
    qed
  qed
qed

section \<open>Comparing versions\<close>

subsection \<open>Keys of one ecosystem\<close>

text \<open>The keys of PEP 440 and of the other tuple ecosystems; in neither can a tag meet identifiers.\<close>

fun pep_like :: "version_key \<Rightarrow> bool" where
  "pep_like (Plain e rel pre post dev) \<longleftrightarrow> (case pre of PreIdents l \<Rightarrow> rel = [] | _ \<Rightarrow> rel \<noteq> [])"
| "pep_like k = False"

fun ident_like :: "version_key \<Rightarrow> bool" where
  "ident_like (Plain e rel pre post dev) \<longleftrightarrow> (case pre of PreIdents l \<Rightarrow> True | _ \<Rightarrow> False)"
| "ident_like k = False"

fun pre_code :: "pre_part \<Rightarrow> int \<times> (string \<times> int) \<times> ident ext list" where
  "pre_code PreNegInf = (0, ([], 0), [])"
| "pre_code (PreTag s n) = (1, (s, n), [])"
| "pre_code (PreIdents l) = (2, ([], 0), l)"
| "pre_code PreInf = (3, ([], 0), [])"

fun plain_code :: "version_key \<Rightarrow> int \<times> int list \<times> (int \<times> (string \<times> int) \<times> ident ext list) \<times> int ext \<times> int ext" where
  "plain_code (Plain e rel pre post dev) = (e, rel, pre_code pre, post, dev)"
| "plain_code k = (0, [], pre_code PreInf, Inf, Inf)"

definition key_cmp :: "version_key \<Rightarrow> version_key \<Rightarrow> int" where
  "key_cmp k k' = (if key_eq k k' then 0 else if key_less k k' = Inr True then -1 else 1)"

lemma pre_code_eq: "pre_code p = pre_code q \<longleftrightarrow> p = q"
  by (cases p; cases q) auto

lemma pre_less_code:
  assumes "\<not> (\<exists>s n l. p = PreTag s n \<and> q = PreIdents l)" "\<not> (\<exists>s n l. q = PreTag s n \<and> p = PreIdents l)" "p \<noteq> q"
  shows "pre_less p q = Inr (pre_code p < pre_code q)"
  using assms by (cases p; cases q) auto

lemma key_code:
  assumes "pep_like k \<and> pep_like k' \<or> ident_like k \<and> ident_like k'"
  shows "key_eq k k' \<longleftrightarrow> plain_code k = plain_code k'" "\<exists>b. key_less k k' = Inr b" "key_cmp k k' = sign_cmp (plain_code k) (plain_code k')"
proof -
  obtain e rel pre post dev where k: "k = Plain e rel pre post dev" using assms by (cases k) auto
  obtain e' rel' pre' post' dev' where k': "k' = Plain e' rel' pre' post' dev'" using assms by (cases k') auto
  have p: "pre_less pre pre' = Inr (pre_code pre < pre_code pre')" if "rel = rel'" "pre \<noteq> pre'"
    using assms that by (intro pre_less_code) (auto simp: k k' split: pre_part.splits)
  show eq: "key_eq k k' \<longleftrightarrow> plain_code k = plain_code k'" by (simp add: k k' pre_code_eq)
  show "\<exists>b. key_less k k' = Inr b" using p by (simp add: k k')
  have "key_less k k' = Inr (plain_code k < plain_code k')" if "plain_code k \<noteq> plain_code k'"
    using that p by (cases "e = e'"; cases "rel = rel'"; cases "pre = pre'") (auto simp: k k' pre_code_eq le_less)
  then show "key_cmp k k' = sign_cmp (plain_code k) (plain_code k')" by (simp add: key_cmp_def eq sign_cmp_def)
qed

lemma release_of_not_Nil: "release_of s \<noteq> []"
proof -
  have "xs \<noteq> [] \<Longrightarrow> drop_zeros xs \<noteq> []" for xs
  proof (induction xs rule: drop_zeros.induct)
    case (1 xs)
    show ?case
    proof (cases "length xs > 1 \<and> last xs = 0")
      case True
      then have "butlast xs \<noteq> []" by (cases xs) (auto split: if_splits)
      then show ?thesis using 1 True by (simp add: drop_zeros.simps [of xs])
    next
      case False
      then show ?thesis using 1(2) by (subst drop_zeros.simps) auto
    qed
  qed
  then show ?thesis by (simp add: release_of_def)
qed

lemma generic_like: "pep_like (generic_key raw)" "ident_like (generic_key raw)"
  by (simp_all add: generic_key_def Let_def)

lemma pep440_like: "pep_like (pep440_key raw)"
  by (simp add: pep440_key_def generic_like release_of_not_Nil Let_def split: option.split)

lemma semver_like: "ident_like (semver_key raw)"
  by (simp add: semver_key_def generic_like Let_def split: option.split)

lemma maven_like: "ident_like (maven_key raw)"
  by (simp add: maven_key_def Let_def)

definition nonblank :: "string \<Rightarrow> bool" where "nonblank v \<longleftrightarrow> py_strip v \<noteq> []"

lemma key_cmp_compare: "\<exists>r. key_less (version_key a eco) (version_key b eco) = Inr r \<Longrightarrow>
    compare a b eco = key_cmp (version_key a eco) (version_key b eco)"
  by (auto simp: compare_def key_cmp_def Let_def)

lemma compare_plain:
  assumes "eco \<noteq> DEBIAN" "eco \<noteq> RPM"
  shows "compare a b eco = sign_cmp (plain_code (version_key a eco)) (plain_code (version_key b eco))"
proof -
  have "pep_like (version_key v PYPI)" "eco \<noteq> PYPI \<Longrightarrow> ident_like (version_key v eco)" for v
    using assms by (cases eco; simp add: version_key_def generic_like pep440_like semver_like maven_like Let_def)+
  then have l: "pep_like (version_key a eco) \<and> pep_like (version_key b eco) \<or> ident_like (version_key a eco) \<and> ident_like (version_key b eco)"
    by (cases "eco = PYPI") auto
  show ?thesis using key_cmp_compare [OF key_code(2) [OF l]] key_code(3) [OF l] by simp
qed

subsection \<open>Epoch, version, release\<close>

lemma debian_three_way: "three_way (\<lambda>x. True) debian_compare_part"
proof -
  have "debian_compare_part = (\<lambda>a b. pad_cmp (debian_code a) (debian_code b))" by (intro ext) (rule debian_compare_code)
  then show ?thesis using three_way_on [OF padded.three_way_axioms, of "\<lambda>x. True" debian_code] by simp
qed

lemma rpm_three_way: "three_way (\<lambda>x. True) rpm_compare_part"
proof -
  have "rpm_compare_part = (\<lambda>a b. sign_cmp (rpm_tokens a) (rpm_tokens b))" by (intro ext) (rule rpm_compare_code)
  then show ?thesis using three_way_key [of "\<lambda>x. True" rpm_tokens] by simp
qed

fun evr_parts :: "version_key \<Rightarrow> int \<times> string \<times> string" where
  "evr_parts (EvrVersion e u r rpm) = (e, u, r)"
| "evr_parts k = (0, [], [])"

definition evr_with :: "bool \<Rightarrow> version_key \<Rightarrow> bool" where
  "evr_with rpm k \<longleftrightarrow> (\<exists>e u r. k = EvrVersion e u r rpm)"

lemma evr_cmp_three_way: "three_way (evr_with rpm) evr_cmp"
proof -
  let ?part = "if rpm then rpm_compare_part else debian_compare_part"
  let ?c = "\<lambda>x y. sign_cmp (fst (evr_parts x)) (fst (evr_parts y))"
  let ?u = "\<lambda>x y. ?part (fst (snd (evr_parts x))) (fst (snd (evr_parts y)))"
  let ?r = "\<lambda>x y. ?part (snd (snd (evr_parts x))) (snd (snd (evr_parts y)))"
  have part: "three_way (\<lambda>x. True) ?part" by (simp add: debian_three_way rpm_three_way)
  have lex: "three_way (evr_with rpm) (\<lambda>x y. if ?c x y \<noteq> 0 then ?c x y else if ?u x y \<noteq> 0 then ?u x y else ?r x y)"
    by (rule three_way_then [OF three_way_key three_way_then [OF three_way_on [OF part] three_way_on [OF part]]]) simp_all
  have range: "?part u v \<in> {-1, 0, 1}" for u v using three_way.cmp_range [OF part] .
  show ?thesis
  proof (rule three_way_cong [OF lex])
    fix x y
    have m: "(if b then rpm_compare_part else debian_compare_part) u v \<in> {-1, 0, 1}" for b u v
      using three_way.cmp_range [OF debian_three_way] three_way.cmp_range [OF rpm_three_way] by simp
    show "evr_cmp x y \<in> {-1, 0, 1}"
    proof (cases "(x, y)" rule: evr_cmp.cases)
      case (1 e u r b e' u' r' b')
      then show ?thesis using m [of b u u'] m [of b r r'] by (simp only: prod.inject evr_cmp.simps Let_def) auto
    qed simp_all
    show "evr_with rpm x \<Longrightarrow> evr_with rpm y \<Longrightarrow>
        evr_cmp x y = (if ?c x y \<noteq> 0 then ?c x y else if ?u x y \<noteq> 0 then ?u x y else ?r x y)"
      by (auto simp: evr_with_def sign_cmp_def Let_def)
  qed
qed

lemma parse_evr_with: "evr_with rpm (parse_evr raw rpm)"
  by (simp add: evr_with_def parse_evr_def Let_def split: prod.split)

lemma compare_evr:
  assumes "eco = DEBIAN \<and> \<not> rpm \<or> eco = RPM \<and> rpm" "nonblank a" "nonblank b"
  shows "compare a b eco = evr_cmp (parse_evr (py_strip a) rpm) (parse_evr (py_strip b) rpm)"
proof -
  have k: "version_key v eco = parse_evr (py_strip v) rpm" if "nonblank v" for v
    using assms(1) that by (auto simp: version_key_def nonblank_def Let_def)
  obtain e u r where ka: "parse_evr (py_strip a) rpm = EvrVersion e u r rpm" using parse_evr_with by (metis evr_with_def)
  obtain e' u' r' where kb: "parse_evr (py_strip b) rpm = EvrVersion e' u' r' rpm" using parse_evr_with by (metis evr_with_def)
  have range: "evr_cmp (EvrVersion e u r rpm) (EvrVersion e' u' r' rpm) \<in> {-1, 0, 1}"
    using three_way.cmp_range [OF evr_cmp_three_way] by blast
  have "compare a b eco = (let c = evr_cmp (EvrVersion e u r rpm) (EvrVersion e' u' r' rpm) in if c = 0 then 0 else if c < 0 then -1 else 1)"
    using assms(2,3) by (simp only: compare_def k ka kb key_eq.simps key_less.simps Let_def sum.case)
  then show ?thesis using range by (auto simp: ka kb Let_def simp del: evr_cmp.simps)
qed

lemma compare_three_way: "three_way nonblank (\<lambda>a b. compare a b eco)"
proof (cases "eco = DEBIAN \<or> eco = RPM")
  case False
  then show ?thesis using three_way_key [of nonblank "\<lambda>v. plain_code (version_key v eco)"] by (simp add: compare_plain)
next
  case True
  let ?rpm = "eco = RPM"
  have evr: "three_way nonblank (\<lambda>a b. evr_cmp (parse_evr (py_strip a) ?rpm) (parse_evr (py_strip b) ?rpm))"
    by (rule three_way_on [OF evr_cmp_three_way]) (rule parse_evr_with)
  show ?thesis
  proof (rule three_way_cong [OF evr])
    show "compare a b eco \<in> {-1, 0, 1}" for a b by (auto simp: compare_def Let_def split: sum.split)
    show "nonblank a \<Longrightarrow> nonblank b \<Longrightarrow> compare a b eco = evr_cmp (parse_evr (py_strip a) ?rpm) (parse_evr (py_strip b) ?rpm)" for a b
      using True by (intro compare_evr) auto
  qed
qed

interpretation versions: three_way nonblank "\<lambda>a b. compare a b eco" for eco
  by (rule compare_three_way)

text \<open>C17: within one ecosystem, comparing non-blank versions is a total preorder: every version equals itself,
  swapping the operands negates the verdict, and at-most is transitive; Debian and RPM strings included,
  whose comparison walks both strings at once.\<close>

theorem version_order:
  assumes "nonblank a" "nonblank b" "nonblank c"
  shows "compare a a eco = 0 \<and> compare b a eco = - compare a b eco \<and> compare a b eco \<in> {-1, 0, 1} \<and>
    (compare a b eco \<le> 0 \<and> compare b c eco \<le> 0 \<longrightarrow> compare a c eco \<le> 0) \<and>
    (compare a b eco < 0 \<and> compare b c eco \<le> 0 \<longrightarrow> compare a c eco < 0)"
  using assms versions.cmp_refl versions.cmp_swap versions.cmp_range versions.cmp_trans [of a b c eco]
    versions.less_le_trans [of a b c eco] by blast

lemma demo_versions: "nonblank ''1.0~rc1-1''" "nonblank ''1.0-1''" "nonblank ''1:0.9''"
  by code_simp+

lemma demo_compare: "compare ''1.0~rc1-1'' ''1.0-1'' DEBIAN = -1" "compare ''1.0-1'' ''1:0.9'' DEBIAN = -1"
  by code_simp+

lemma version_order_witness: "compare ''1.0~rc1-1'' ''1:0.9'' DEBIAN < 0"
  using version_order [OF demo_versions(1-3), of DEBIAN] demo_compare by auto

text \<open>With a blank version Debian and RPM fall back to the generic order and cycles appear.\<close>

lemma blank_version_cycle:
  "compare ''~a'' ''1'' DEBIAN < 0 \<and> compare ''1'' [] DEBIAN < 0 \<and> compare [] ''~a'' DEBIAN < 0"
  by code_simp

text \<open>After a separator a tilde is skipped with it, so the pre-release sorts after the release.\<close>

lemma rpm_tilde_after_separator: "compare ''1.0~rc1'' ''1.0'' RPM = -1 \<and> compare ''1.0.~rc1'' ''1.0'' RPM = 1"
  by code_simp

end
