(* ===== verification/VersionRange.thy ===== *)
theory VersionRange
  imports Versioning
begin

text \<open>
  \<open>guardian_core/versioning.py\<close>, second half: OSV event ranges, constraint expressions and the question whether
  a version is affected by one advisory entry.  Advisory data is JSON; \<open>str()\<close> of a value is \<open>py_str\<close>.
\<close>

subsection \<open>Event ranges\<close>

datatype event_kind = Introduced | Fixed | LastAffected | Limit

text \<open>The first of the four kinds an event names, with its text; an event that is no object is skipped.\<close>

definition event_of :: "jval \<Rightarrow> (event_kind \<times> string) option" where
  "event_of ev = (case ev of
     JObj d \<Rightarrow> map_option (\<lambda>(k, name). (k, py_str (jget d name)))
       (find (\<lambda>(k, name). dict_get d name \<noteq> None)
         [(Introduced, ''introduced''), (Fixed, ''fixed''), (LastAffected, ''last_affected''), (Limit, ''limit'')])
   | _ \<Rightarrow> None)"

definition from_start :: "event_kind \<times> string \<Rightarrow> bool" where
  "from_start e \<longleftrightarrow> fst e = Introduced \<and> snd e \<in> {''0'', []}"

text \<open>\<open>None\<close> stands for the sentinel below every version.\<close>

definition event_points :: "jval list \<Rightarrow> ecosystem \<Rightarrow> (version_key option \<times> event_kind) list" where
  "event_points events eco =
     map (\<lambda>e. (if from_start e then None else Some (version_key (snd e) eco), fst e)) (List.map_filter event_of events)"

definition sortable :: "(version_key option \<times> event_kind) list \<Rightarrow> (version_key option \<times> event_kind) list" where
  "sortable = sort_key (\<lambda>p. if fst p = None then -1 else 0 :: int)"

definition point_le :: "version_key \<Rightarrow> version_key option \<Rightarrow> bool" where
  "point_le vkey p = (case p of None \<Rightarrow> True | Some k \<Rightarrow> (case key_less vkey k of Inr b \<Rightarrow> \<not> b | Inl _ \<Rightarrow> False))"

definition point_lt :: "version_key \<Rightarrow> version_key option \<Rightarrow> bool" where
  "point_lt vkey p = (case p of None \<Rightarrow> True | Some k \<Rightarrow> (case key_less k vkey of Inr b \<Rightarrow> b | Inl _ \<Rightarrow> False))"

definition event_step :: "version_key \<Rightarrow> version_key option \<times> event_kind \<Rightarrow> bool \<Rightarrow> bool" where
  "event_step vkey p affected = (case p of (key, kind) \<Rightarrow>
     if kind = Introduced \<and> point_le vkey key then True
     else if kind \<in> {Fixed, Limit} \<and> point_le vkey key then False
     else if kind = LastAffected \<and> point_lt vkey key \<and> \<not> point_le vkey key then False
     else affected)"

definition last_affected_step :: "version_key \<Rightarrow> version_key option \<times> event_kind \<Rightarrow> bool \<Rightarrow> bool" where
  "last_affected_step vkey p affected = (case p of (key, kind) \<Rightarrow>
     if kind = LastAffected \<and> key \<noteq> None \<and> point_lt vkey key then False else affected)"

definition in_event_range :: "string \<Rightarrow> jval list \<Rightarrow> ecosystem \<Rightarrow> bool" where
  "in_event_range version events eco =
     (let points = event_points events eco; vkey = version_key version eco; ordered = sortable points in
      if points = [] then False
      else fold (last_affected_step vkey) ordered (fold (event_step vkey) ordered False))"

subsection \<open>Constraints\<close>

definition CONSTRAINT :: re where
  "CONSTRAINT = cats [Begin_text, spaces,
     opt (Group ''op'' (ors (map lit [''>='', ''<='', ''=='', ''!='', ''>'', ''<'', ''~>'', ''^'', ''='']))), spaces,
     Group ''ver'' (plus (Cls (\<lambda>c. \<not> is_space c \<and> c \<noteq> CHR '',''))), spaces, End_text]"

definition BOUND :: re where "BOUND = cats [Begin_text, opt (one_of ''vV''), digit]"

text \<open>The ceiling of a compatible-release clause: the significant part of the bound, raised by one.\<close>

definition ceiling_of_bound :: "string \<Rightarrow> string \<Rightarrow> string option" where
  "ceiling_of_bound op bound =
     (let parts = re_findall (plus digit) bound;
          idx = (if op = ''^'' then 0 else length parts - 2)
      in if parts = [] then None
         else Some (join_with ''.'' (take idx parts @ [str_int (int_of_digits (parts ! idx) + 1)])))"

definition clause_op :: "captures \<Rightarrow> string" where "clause_op g = group_or g ''op'' ''==''"

definition clause_holds :: "string \<Rightarrow> ecosystem \<Rightarrow> string \<Rightarrow> bool" where
  "clause_holds version eco clause =
     (case re_match CONSTRAINT clause of None \<Rightarrow> False
      | Some g \<Rightarrow>
        let op = clause_op g; bound = group_or g ''ver'' [] in
        if re_match BOUND bound = None then False
        else let result = compare version bound eco in
          if op \<in> {''=='', ''=''} then result = 0
          else if op = ''!='' then result \<noteq> 0
          else if op = ''>'' then result > 0
          else if op = ''>='' then result \<ge> 0
          else if op = ''<'' then result < 0
          else if op = ''<='' then result \<le> 0
          else if result < 0 then False
          else (case ceiling_of_bound op bound of Some c \<Rightarrow> compare version c eco < 0 | None \<Rightarrow> True))"

definition clauses_of :: "string \<Rightarrow> string list" where
  "clauses_of constraint = filter (\<lambda>c. py_strip c \<noteq> []) (split_on (CHR '','') constraint)"

definition satisfies_constraint :: "string \<Rightarrow> string \<Rightarrow> ecosystem \<Rightarrow> bool" where
  "satisfies_constraint version constraint eco =
     (clauses_of constraint \<noteq> [] \<and> list_all (clause_holds version eco) (clauses_of constraint))"

subsection \<open>Advisory entries\<close>

definition range_hits :: "string \<Rightarrow> ecosystem \<Rightarrow> jval \<Rightarrow> bool" where
  "range_hits version eco rng = (case rng of
     JObj d \<Rightarrow>
       (case jget d ''events'' of JList events \<Rightarrow> events \<noteq> [] \<and> in_event_range version events eco | _ \<Rightarrow> False) \<or>
       (let constraint = jor (jget d ''constraint'') (jget d ''range'') in
        truthy constraint \<and> satisfies_constraint version (py_str constraint) eco)
   | _ \<Rightarrow> False)"

definition version_affected :: "jobj \<Rightarrow> string \<Rightarrow> ecosystem option \<Rightarrow> bool" where
  "version_affected entry version0 ecosystem =
     (let eco = (case ecosystem of Some e \<Rightarrow> e | None \<Rightarrow> normalize_ecosystem (jget entry ''ecosystem''));
          version = py_strip version0;
          ranges = (case jget entry ''ranges'' of JList rs \<Rightarrow> rs | _ \<Rightarrow> []);
          versions = (case jget entry ''versions'' of JList vs \<Rightarrow> vs | _ \<Rightarrow> [])
      in if version = [] then False
         else if list_ex (range_hits version eco) ranges then True
         else if ranges \<noteq> [] \<and> \<not> truthy (jget entry ''versions'') \<and> \<not> truthy (jget entry ''version'') then False
         else if versions \<noteq> [] then list_ex (\<lambda>v. compare version (py_str v) eco = 0) versions
         else if truthy (jget entry ''version'') then compare version (py_str (jget entry ''version'')) eco = 0
         else if truthy (jget entry ''constraint'') then satisfies_constraint version (py_str (jget entry ''constraint'')) eco
         else True)"

section \<open>Facts\<close>

subsection \<open>Constraints are intervals\<close>

lemma nonblank_iff: "nonblank s \<longleftrightarrow> (\<exists>c\<in>set s. \<not> is_space c)"
proof -
  have "(\<forall>c\<in>set (dropWhile P s). P c) \<longleftrightarrow> (\<forall>c\<in>set s. P c)" for P by (induction s) auto
  then have "dropWhile is_space (rev (dropWhile is_space s)) = [] \<longleftrightarrow> (\<forall>c\<in>set s. is_space c)"
    by (simp add: dropWhile_eq_Nil_conv)
  then show ?thesis by (auto simp: nonblank_def py_strip_def strip_by_def lstrip_by_def rstrip_by_def)
qed

lemma digit_not_space: "is_digit c \<Longrightarrow> \<not> is_space c"
  by (simp add: is_digit_def is_space_def)

lemma BOUND_nonblank: "re_match BOUND s \<noteq> None \<Longrightarrow> nonblank s"
proof -
  assume m: "re_match BOUND s \<noteq> None"
  obtain c where "c \<in> set s" "is_digit c"
    using m by (cases s; cases "tl s") (auto simp: re_match_def match_at_def BOUND_def opt_def one_of_def digit_def split: if_splits)
  then show ?thesis using digit_not_space by (auto simp: nonblank_iff)
qed

lemma join_last: "c \<in> set x \<Longrightarrow> c \<in> set (join_with sep (xs @ [x]))"
  by (induction xs) (auto simp: join_with_Cons)

lemma ceiling_nonblank: "ceiling_of_bound op bound = Some c \<Longrightarrow> nonblank c"
proof -
  assume "ceiling_of_bound op bound = Some c"
  then have "\<exists>xs n. c = join_with ''.'' (xs @ [str_int (int_of_digits n + 1)])"
    unfolding ceiling_of_bound_def Let_def by (metis option.distinct(1) option.inject)
  then obtain xs n where c: "c = join_with ''.'' (xs @ [str_int (int_of_digits n + 1)])" by blast
  have "\<exists>x\<in>set (str_int i). \<not> is_space x" for i
  proof -
    have d: "str_isdigit (str_digits \<bar>i\<bar>)" by (rule str_digits_isdigit) simp
    then obtain x where "x \<in> set (str_digits \<bar>i\<bar>)" "is_digit x" by (cases "str_digits \<bar>i\<bar>") (auto simp: str_isdigit_def)
    then show ?thesis using digit_not_space by (cases "i < 0") (auto simp: str_int_def)
  qed
  then obtain x where "x \<in> set (str_int (int_of_digits n + 1))" "\<not> is_space x" by blast
  then show ?thesis using join_last [of x _ "''.''" xs] by (auto simp: nonblank_iff c)
qed

text \<open>No clause of the constraint is an exclusion.\<close>

definition no_exclusion :: "string \<Rightarrow> bool" where
  "no_exclusion constraint \<longleftrightarrow> list_all (\<lambda>c. \<forall>g. re_match CONSTRAINT c = Some g \<longrightarrow> clause_op g \<noteq> ''!='') (clauses_of constraint)"

lemma clause_convex:
  assumes n: "nonblank u" "nonblank v" "nonblank w" and le: "compare u v eco \<le> 0" "compare v w eco \<le> 0"
    and c: "clause_holds u eco c" "clause_holds w eco c" and ex: "\<forall>g. re_match CONSTRAINT c = Some g \<longrightarrow> clause_op g \<noteq> ''!=''"
  shows "clause_holds v eco c"
proof -
  obtain g where g: "re_match CONSTRAINT c = Some g" using c(1) by (auto simp: clause_holds_def split: option.splits)
  let ?op = "clause_op g" and ?b = "group_or g ''ver'' []"
  have b: "re_match BOUND ?b \<noteq> None" using c(1) by (auto simp: clause_holds_def g Let_def split: if_splits)
  then have nb: "nonblank ?b" by (rule BOUND_nonblank)
  have ne: "?op \<noteq> ''!=''" using ex g by blast
  have up: "compare v ?b eco \<ge> 0" if "compare u ?b eco \<ge> 0"
    using versions.less_le_trans [OF n(2) nb n(1), of eco] versions.cmp_swap [OF n(1,2), of eco]
      versions.le_less_trans [OF n(1,2) nb, of eco] that le(1) by linarith
  have up': "compare v ?b eco > 0" if "compare u ?b eco > 0"
    using versions.cmp_trans [OF n(1,2) nb, of eco] that le(1) by linarith
  have down: "compare v x eco \<le> 0" if "compare w x eco \<le> 0" "nonblank x" for x
    using versions.cmp_trans [OF n(2,3) that(2)] that(1) le(2) by blast
  have down': "compare v x eco < 0" if "compare w x eco < 0" "nonblank x" for x
    using versions.le_less_trans [OF n(2,3) that(2)] that(1) le(2) by blast
  have e: "compare v ?b eco = 0" if "compare u ?b eco = 0" "compare w ?b eco = 0"
    using up down [of ?b] that nb by fastforce
  have cl: "compare v x eco < 0" if "ceiling_of_bound ?op ?b = Some x" "compare w x eco < 0" for x
    using down' [OF that(2) ceiling_nonblank [OF that(1)]] .
  show ?thesis
    using c g b ne up up' down [OF _ nb] down' [OF _ nb] e cl
    by (auto simp add: clause_holds_def Let_def split: if_splits option.splits)
qed

text \<open>A constraint without exclusions describes an interval: a version between two that satisfy it satisfies
  it too, whatever the ecosystem, compatible-release clauses included.\<close>

theorem constraint_is_interval:
  assumes "nonblank u" "nonblank v" "nonblank w" "compare u v eco \<le> 0" "compare v w eco \<le> 0"
    "satisfies_constraint u constraint eco" "satisfies_constraint w constraint eco" "no_exclusion constraint"
  shows "satisfies_constraint v constraint eco"
  using assms(6-8) clause_convex [OF assms(1-5)]
  by (auto simp: satisfies_constraint_def list_all_iff no_exclusion_def)

lemma demo_interval:
  "nonblank ''1.0.0''" "nonblank ''1.3.0-rc1''" "nonblank ''1.4.1''" "compare ''1.0.0'' ''1.3.0-rc1'' NPM = -1"
  "compare ''1.3.0-rc1'' ''1.4.1'' NPM = -1" "satisfies_constraint ''1.0.0'' ''>=1.0, <1.4.2'' NPM"
  "satisfies_constraint ''1.4.1'' ''>=1.0, <1.4.2'' NPM"
  by code_simp+

lemma demo_no_exclusion: "no_exclusion ''>=1.0, <1.4.2''"
proof -
  have "clauses_of ''>=1.0, <1.4.2'' = [''>=1.0'', '' <1.4.2'']" by code_simp
  moreover have "map_option clause_op (re_match CONSTRAINT ''>=1.0'') = Some ''>=''"
    "map_option clause_op (re_match CONSTRAINT '' <1.4.2'') = Some ''<''" by code_simp+
  ultimately show ?thesis by (auto simp: no_exclusion_def)
qed

lemma constraint_is_interval_witness: "satisfies_constraint ''1.3.0-rc1'' ''>=1.0, <1.4.2'' NPM"
  using constraint_is_interval [of "''1.0.0''" "''1.3.0-rc1''" "''1.4.1''" NPM "''>=1.0, <1.4.2''"] demo_interval demo_no_exclusion by simp

text \<open>A caret bound below 1.0 lets every 0.x release through, breaking ones included.\<close>

lemma caret_below_one: "satisfies_constraint ''0.9.0'' ''^0.2.3'' NPM"
  by code_simp

subsection \<open>Event streams\<close>

text \<open>The order the events of a published range have: nothing but the first comes from the start, versions rise.\<close>

definition precedes :: "ecosystem \<Rightarrow> event_kind \<times> string \<Rightarrow> event_kind \<times> string \<Rightarrow> bool" where
  "precedes eco e f \<longleftrightarrow> \<not> from_start f \<and> (from_start e \<or> compare (snd e) (snd f) eco < 0)"

definition at_or_below :: "ecosystem \<Rightarrow> string \<Rightarrow> event_kind \<times> string \<Rightarrow> bool" where
  "at_or_below eco v e \<longleftrightarrow> from_start e \<or> compare (snd e) v eco \<le> 0"

definition events_ok :: "(event_kind \<times> string) list \<Rightarrow> bool" where
  "events_ok es \<longleftrightarrow> list_all (\<lambda>e. from_start e \<or> nonblank (snd e)) es"

text \<open>The rule the docstring states: the version is affected when the latest event that applies to it is an introduction.
  Introductions, fixes and limits apply from their version on, a last affected one to everything after its version.\<close>

definition applies_to :: "ecosystem \<Rightarrow> string \<Rightarrow> event_kind \<times> string \<Rightarrow> bool" where
  "applies_to eco v e \<longleftrightarrow> (if fst e = LastAffected then compare v (snd e) eco > 0 else at_or_below eco v e)"

definition osv_affected :: "ecosystem \<Rightarrow> string \<Rightarrow> (event_kind \<times> string) list \<Rightarrow> bool" where
  "osv_affected eco v es \<longleftrightarrow> (let ps = filter (applies_to eco v) es in ps \<noteq> [] \<and> fst (last ps) = Introduced)"

definition introduces_again :: "(event_kind \<times> string) list \<Rightarrow> bool" where
  "introduces_again es \<longleftrightarrow> \<not> sorted_wrt (\<lambda>e f. \<not> (fst e = LastAffected \<and> fst f = Introduced)) es"

lemma key_less_compare:
  assumes "nonblank a" "nonblank b"
  shows "key_less (version_key a eco) (version_key b eco) = Inr (compare a b eco < 0)"
proof -
  have "\<exists>r. key_less (version_key a eco) (version_key b eco) = Inr r"
  proof (cases "eco = DEBIAN \<or> eco = RPM")
    case True
    then have "version_key v eco = parse_evr (py_strip v) (eco = RPM)" if "nonblank v" for v
      using that by (auto simp: version_key_def nonblank_def Let_def)
    then show ?thesis using assms parse_evr_with by (metis evr_with_def key_less.simps(2))
  next
    case False
    then have "pep_like (version_key v PYPI)" "eco \<noteq> PYPI \<Longrightarrow> ident_like (version_key v eco)" for v
      by (cases eco; simp add: version_key_def generic_like pep440_like semver_like maven_like Let_def)+
    then show ?thesis by (cases "eco = PYPI") (auto intro: key_code(2))
  qed
  then obtain r where r: "key_less (version_key a eco) (version_key b eco) = Inr r" ..
  have c: "compare a b eco = key_cmp (version_key a eco) (version_key b eco)" using r by (auto intro: key_cmp_compare)
  have "key_eq (version_key a eco) (version_key b eco) \<Longrightarrow> \<not> r"
    using r by (cases "(version_key a eco, version_key b eco)" rule: key_less.cases) auto
  then show ?thesis using r c by (auto simp: key_cmp_def)
qed

text \<open>One event's step, on the versions.\<close>

lemma point_le_event:
  assumes "nonblank v" "from_start e \<or> nonblank (snd e)"
  shows "point_le (version_key v eco) (if from_start e then None else Some (version_key (snd e) eco)) \<longleftrightarrow> at_or_below eco v e"
  using assms key_less_compare [of v "snd e" eco] versions.cmp_swap [of v "snd e" eco]
  by (auto simp: point_le_def at_or_below_def)

lemma point_lt_event:
  assumes "nonblank v" "nonblank l"
  shows "point_lt (version_key v eco) (Some (version_key l eco)) \<longleftrightarrow> compare l v eco < 0"
  using key_less_compare [OF assms(2,1)] by (simp add: point_lt_def)

definition event_point :: "ecosystem \<Rightarrow> event_kind \<times> string \<Rightarrow> version_key option \<times> event_kind" where
  "event_point eco e = (if from_start e then None else Some (version_key (snd e) eco), fst e)"

lemma event_step_event:
  assumes "nonblank v" "from_start e \<or> nonblank (snd e)"
  shows "event_step (version_key v eco) (event_point eco e) b =
    (if fst e \<noteq> LastAffected \<and> at_or_below eco v e then fst e = Introduced else b)"
proof (cases "fst e = LastAffected")
  case True
  then have e: "\<not> from_start e" "nonblank (snd e)" using assms(2) by (auto simp: from_start_def)
  have "compare (snd e) v eco < 0 \<Longrightarrow> at_or_below eco v e" by (simp add: at_or_below_def)
  then show ?thesis
    using True e point_lt_event [OF assms(1) e(2), of eco] point_le_event [OF assms, of eco]
    by (auto simp add: event_step_def event_point_def)
next
  case False
  then show ?thesis using point_le_event [OF assms, of eco]
    by (cases "fst e") (auto simp: event_step_def event_point_def)
qed

lemma last_affected_event:
  assumes "nonblank v" "from_start e \<or> nonblank (snd e)"
  shows "last_affected_step (version_key v eco) (event_point eco e) b \<longleftrightarrow> b \<and> (fst e = LastAffected \<longrightarrow> compare v (snd e) eco \<le> 0)"
proof (cases "fst e = LastAffected")
  case True
  then have e: "\<not> from_start e" "nonblank (snd e)" using assms(2) by (auto simp: from_start_def)
  then show ?thesis
    using True point_lt_event [OF assms(1) e(2), of eco] versions.cmp_swap [OF assms(1) e(2), of eco]
    by (auto simp: last_affected_step_def event_point_def)
qed (simp add: last_affected_step_def event_point_def)

lemma fold_last_affected:
  assumes "nonblank v" "events_ok es"
  shows "fold (last_affected_step (version_key v eco)) (map (event_point eco) es) b \<longleftrightarrow>
    b \<and> list_all (\<lambda>l. fst l = LastAffected \<longrightarrow> compare v (snd l) eco \<le> 0) es"
  using assms(2) by (induction es arbitrary: b) (auto simp: events_ok_def last_affected_event [OF assms(1)])

text \<open>The first loop keeps what the last event at or below the version says, last affected ones set aside.\<close>

lemma fold_events:
  assumes "nonblank v" "events_ok es"
  shows "fold (event_step (version_key v eco)) (map (event_point eco) es) False \<longleftrightarrow>
    (let ps = filter (\<lambda>e. fst e \<noteq> LastAffected \<and> at_or_below eco v e) es in ps \<noteq> [] \<and> fst (last ps) = Introduced)"
  using assms(2)
proof (induction es rule: rev_induct)
  case (snoc e es)
  have ok: "from_start e \<or> nonblank (snd e)" "events_ok es" using snoc.prems by (simp_all add: events_ok_def)
  show ?case using snoc.IH [OF ok(2)] by (simp add: event_step_event [OF assms(1) ok(1)] Let_def)
qed simp

lemma sortable_in_order: "sorted_wrt (precedes eco) es \<Longrightarrow> sortable (map (event_point eco) es) = map (event_point eco) es"
proof -
  assume ord: "sorted_wrt (precedes eco) es"
  have "sorted (map (\<lambda>p. if fst p = None then -1 else 0 :: int) (map (event_point eco) es))"
    using ord by (induction es) (auto simp: event_point_def precedes_def)
  then show ?thesis by (simp add: sortable_def sort_key_id_if_sorted)
qed

text \<open>What the evaluator computes: the rule, and then no version past any last affected one.\<close>

lemma in_event_range_computes:
  assumes "nonblank version" "events_ok es" "es = List.map_filter event_of events" "sorted_wrt (precedes eco) es"
  shows "in_event_range version events eco \<longleftrightarrow>
    osv_affected eco version es \<and> list_all (\<lambda>l. fst l = LastAffected \<longrightarrow> compare version (snd l) eco \<le> 0) es"
proof -
  have p: "event_points events eco = map (event_point eco) es" by (simp add: event_points_def event_point_def assms(3))
  have "in_event_range version events eco \<longleftrightarrow>
      fold (event_step (version_key version eco)) (map (event_point eco) es) False \<and>
      list_all (\<lambda>l. fst l = LastAffected \<longrightarrow> compare version (snd l) eco \<le> 0) es"
    using fold_last_affected [OF assms(1,2)]
    by (auto simp: in_event_range_def p Let_def sortable_in_order [OF assms(4)])
  moreover have "filter (\<lambda>e. fst e \<noteq> LastAffected \<and> at_or_below eco version e) es = filter (applies_to eco version) es"
    if "list_all (\<lambda>l. fst l = LastAffected \<longrightarrow> compare version (snd l) eco \<le> 0) es"
    using that by (intro filter_cong) (auto simp: applies_to_def list_all_iff)
  ultimately show ?thesis by (auto simp: fold_events [OF assms(1,2)] osv_affected_def)
qed

text \<open>A version past a last affected one is affected only by an introduction that comes after it.\<close>

lemma past_last_affected:
  assumes "\<not> introduces_again es" "l \<in> set es" "fst l = LastAffected" "applies_to eco v l"
  shows "\<not> osv_affected eco v es"
proof -
  obtain xs ys where es: "es = xs @ l # ys" using split_list [OF assms(2)] by blast
  have after: "fst f \<noteq> Introduced" if "f \<in> set (l # ys)" for f
    using assms(1,3) that by (auto simp: introduces_again_def es sorted_wrt_append)
  have f: "filter (applies_to eco v) es = filter (applies_to eco v) xs @ l # filter (applies_to eco v) ys"
    using assms(4) by (simp add: es)
  have "last (l # filter (applies_to eco v) ys) \<in> set (l # ys)" using last_in_set [of "l # filter (applies_to eco v) ys"] by fastforce
  then show ?thesis using after by (simp add: osv_affected_def f Let_def)
qed

text \<open>C18: For an event stream whose versions rise and that introduces nothing again after a last affected version, the evaluation follows the rule
  of its docstring: the version is affected exactly when the latest event that applies to it is an introduction.\<close>

theorem event_range_meaning:
  assumes "nonblank version" "events_ok (List.map_filter event_of events)"
    "sorted_wrt (precedes eco) (List.map_filter event_of events)" "\<not> introduces_again (List.map_filter event_of events)"
  shows "in_event_range version events eco \<longleftrightarrow> osv_affected eco version (List.map_filter event_of events)"
proof -
  let ?es = "List.map_filter event_of events"
  have "compare version (snd l) eco \<le> 0" if "osv_affected eco version ?es" "l \<in> set ?es" "fst l = LastAffected" for l
    using past_last_affected [OF assms(4) that(2,3), of eco version] that by (force simp: applies_to_def)
  then show ?thesis using in_event_range_computes [OF assms(1,2) refl assms(3)] by (auto simp: list_all_iff)
qed

definition demo_events :: "jval list" where
  "demo_events = [JObj [(''introduced'', JStr ''0'')], JObj [(''fixed'', JStr ''1.4.2'')], JObj [(''introduced'', JStr ''2.0'')],
     JObj [(''last_affected'', JStr ''2.3'')]]"

lemma demo_event_stream:
  "List.map_filter event_of demo_events = [(Introduced, ''0''), (Fixed, ''1.4.2''), (Introduced, ''2.0''), (LastAffected, ''2.3'')]"
  by code_simp

lemma demo_events_ok: "events_ok (List.map_filter event_of demo_events)"
  "sorted_wrt (precedes PYPI) (List.map_filter event_of demo_events)" "\<not> introduces_again (List.map_filter event_of demo_events)"
  "nonblank ''1.4.1''"
  by code_simp+

lemma event_range_meaning_witness:
  "in_event_range ''1.4.1'' demo_events PYPI \<longleftrightarrow> osv_affected PYPI ''1.4.1'' (List.map_filter event_of demo_events)"
  using event_range_meaning demo_events_ok by blast

text \<open>An introduction after a last affected version is never seen: every later version is past the last affected one.\<close>

lemma second_introduction_missed:
  "in_event_range ''2.1'' [JObj [(''introduced'', JStr ''1.0'')], JObj [(''last_affected'', JStr ''1.5'')], JObj [(''introduced'', JStr ''2.0'')]] PYPI = False \<and>
   osv_affected PYPI ''2.1'' [(Introduced, ''1.0''), (LastAffected, ''1.5''), (Introduced, ''2.0'')]"
  by code_simp

text \<open>Events out of order are not brought in order: a fixed release is reported as affected.\<close>

lemma unsorted_events_misjudged:
  "in_event_range ''3.0'' [JObj [(''fixed'', JStr ''2.0'')], JObj [(''introduced'', JStr ''1.0'')]] PYPI \<and>
   \<not> in_event_range ''3.0'' [JObj [(''introduced'', JStr ''1.0'')], JObj [(''fixed'', JStr ''2.0'')]] PYPI"
  by code_simp

end
