(* ===== verification/VulnIntel.thy ===== *)
theory VulnIntel
  imports PyValue
begin

text \<open>
  \<open>guardian_scanner/intel.py\<close>: ingestion of advisory feeds into the knowledge base with a watermark per source,
  and the enrichment of its rows.  Rows are records, tables are lists in table order; the session of a worker
  does not flush before a query, so a row added earlier in a batch is not found by a lookup until the commit,
  which is where the unique index on the identifier is checked.  \<open>datetime\<close>s are microseconds.
\<close>

subsection \<open>Rows\<close>

record vuln_row =
  vr_external_id :: string
  vr_source :: string
  vr_summary :: string
  vr_details :: string
  vr_cwe_ids :: "string list"
  vr_cvss_vector :: "string option"
  vr_cvss_base :: "rat option"
  vr_epss_score :: "rat option"
  vr_kev :: bool
  vr_affected :: "jval list"
  vr_cpe_configurations :: "jval list"
  vr_severity :: "string option"
  vr_exploit_maturity :: "string option"
  vr_ransomware :: bool
  vr_references :: "jval list"
  vr_published_at :: "int option"
  vr_modified_at :: "int option"

record normalized_vuln =
  nv_external_id :: string
  nv_source :: string
  nv_summary :: string
  nv_details :: string
  nv_cwe_ids :: "string list"
  nv_cvss_base :: "rat option"
  nv_cvss_vector :: "string option"
  nv_epss_score :: "rat option"
  nv_kev :: bool
  nv_severity :: "string option"
  nv_affected :: "jval list"
  nv_cpe_configurations :: "jval list"
  nv_references :: "jval list"
  nv_published_at :: "int option"
  nv_modified_at :: "int option"

subsection \<open>Merging one record\<close>

definition normalize_entry :: "jobj \<Rightarrow> jobj" where
  "normalize_entry entry =
     (let package = py_str (jor (jget entry ''package'') (JStr []));
          ecosystem = py_str (jor (jget entry ''ecosystem'') (JStr []));
          row = dict_set ''ecosystem'' (JStr (py_lower ecosystem)) (dict_set ''package'' (JStr (py_lower package)) entry);
          row = (if package \<noteq> py_lower package then dict_set ''package_display'' (JStr package) row else row)
      in if ecosystem \<noteq> py_lower ecosystem then dict_set ''ecosystem_display'' (JStr ecosystem) row else row)"

definition normalize_affected :: "jval list \<Rightarrow> jval list" where
  "normalize_affected affected = List.map_filter (\<lambda>e. case e of JObj d \<Rightarrow> Some (JObj (normalize_entry d)) | _ \<Rightarrow> None) affected"

definition new_vulnerability :: "normalized_vuln \<Rightarrow> vuln_row" where
  "new_vulnerability r = \<lparr>vr_external_id = nv_external_id r, vr_source = nv_source r, vr_summary = nv_summary r,
     vr_details = nv_details r, vr_cwe_ids = nv_cwe_ids r, vr_cvss_vector = nv_cvss_vector r, vr_cvss_base = nv_cvss_base r,
     vr_epss_score = None, vr_kev = False, vr_affected = normalize_affected (nv_affected r),
     vr_cpe_configurations = nv_cpe_configurations r, vr_severity = nv_severity r, vr_exploit_maturity = None,
     vr_ransomware = False, vr_references = nv_references r, vr_published_at = nv_published_at r, vr_modified_at = nv_modified_at r\<rparr>"

text \<open>\<open>set_if\<close>: the value the field has afterwards and whether it changed; \<open>blank\<close> tells what counts as absent.\<close>

definition set_if :: "('a \<Rightarrow> bool) \<Rightarrow> bool \<Rightarrow> 'a \<Rightarrow> 'a \<Rightarrow> 'a \<times> bool" where
  "set_if blank overwrite current value =
     (if blank value then (current, False)
      else if (blank current \<or> overwrite) \<and> current \<noteq> value then (value, True) else (current, False))"

definition blank_list :: "'a list \<Rightarrow> bool" where "blank_list xs \<longleftrightarrow> xs = []"

definition blank_text :: "string option \<Rightarrow> bool" where "blank_text x \<longleftrightarrow> x = None \<or> x = Some []"

definition blank_opt :: "'a option \<Rightarrow> bool" where "blank_opt x \<longleftrightarrow> x = None"

definition merge_vulnerability :: "vuln_row \<Rightarrow> normalized_vuln \<Rightarrow> vuln_row \<times> bool" where
  "merge_vulnerability row r =
     (let nvd = (nv_source r = ''nvd'');
          (summary, c1) = set_if blank_list False (vr_summary row) (nv_summary r);
          (details, c2) = set_if blank_list False (vr_details row) (nv_details r);
          (cwes, c3) = set_if blank_list False (vr_cwe_ids row) (nv_cwe_ids r);
          (vector, c4) = set_if blank_text nvd (vr_cvss_vector row) (nv_cvss_vector r);
          (base, c5) = set_if blank_opt nvd (vr_cvss_base row) (nv_cvss_base r);
          (severity, c6) = set_if blank_text nvd (vr_severity row) (nv_severity r);
          (affected, c7) = set_if blank_list (nv_source r = ''osv'') (vr_affected row) (normalize_affected (nv_affected r));
          (cpes, c8) = set_if blank_list nvd (vr_cpe_configurations row) (nv_cpe_configurations r);
          (refs, c9) = set_if blank_list False (vr_references row) (nv_references r);
          (published, c10) = set_if blank_opt False (vr_published_at row) (nv_published_at r);
          c11 = (nv_modified_at r \<noteq> None \<and> vr_modified_at row \<noteq> nv_modified_at r)
      in (row\<lparr>vr_summary := summary, vr_details := details, vr_cwe_ids := cwes, vr_cvss_vector := vector, vr_cvss_base := base,
              vr_severity := severity, vr_affected := affected, vr_cpe_configurations := cpes, vr_references := refs,
              vr_published_at := published, vr_modified_at := (if c11 then nv_modified_at r else vr_modified_at row)\<rparr>,
          c1 \<or> c2 \<or> c3 \<or> c4 \<or> c5 \<or> c6 \<or> c7 \<or> c8 \<or> c9 \<or> c10 \<or> c11))"

subsection \<open>A batch\<close>

text \<open>
  The rows of the table, changed in place, the rows added, and the counts; a record that raises stops the batch.
  \<open>fault\<close> says which records raise and with what message.
\<close>

record batch =
  bt_rows :: "vuln_row list"
  bt_added :: "vuln_row list"
  bt_created :: int
  bt_updated :: int

definition put_vuln :: "vuln_row \<Rightarrow> vuln_row list \<Rightarrow> vuln_row list" where
  "put_vuln v rows = map (\<lambda>x. if vr_external_id x = vr_external_id v then v else x) rows"

definition upsert_one :: "normalized_vuln \<Rightarrow> batch \<Rightarrow> batch" where
  "upsert_one r b =
     (if nv_external_id r = [] then b
      else case find (\<lambda>v. vr_external_id v = nv_external_id r) (bt_rows b) of
          None \<Rightarrow> b\<lparr>bt_added := bt_added b @ [new_vulnerability r], bt_created := bt_created b + 1\<rparr>
        | Some v \<Rightarrow> (let (v', changed) = merge_vulnerability v r in
            b\<lparr>bt_rows := put_vuln v' (bt_rows b), bt_updated := bt_updated b + (if changed then 1 else 0)\<rparr>))"

fun upsert_vulnerabilities :: "(normalized_vuln \<Rightarrow> string option) \<Rightarrow> normalized_vuln list \<Rightarrow> batch \<Rightarrow> batch \<times> string option" where
  "upsert_vulnerabilities fault [] b = (b, None)"
| "upsert_vulnerabilities fault (r # rs) b =
     (case fault r of Some e \<Rightarrow> (b, Some e) | None \<Rightarrow> upsert_vulnerabilities fault rs (upsert_one r b))"

subsection \<open>Watermarks\<close>

definition FIRST_SYNC_LOOKBACK_DAYS :: int where "FIRST_SYNC_LOOKBACK_DAYS = 730"

definition OVERLAP_MINUTES :: int where "OVERLAP_MINUTES = 30"

record feed_state =
  fs_source :: string
  fs_watermark :: "int option"
  fs_last_success_at :: "int option"
  fs_last_attempt_at :: "int option"
  fs_last_error :: "string option"
  fs_consecutive_failures :: int
  fs_records_ingested :: int

record feed_sync =
  sy_source :: string
  sy_status :: string
  sy_items_ingested :: int
  sy_items_created :: int
  sy_started_at :: int
  sy_finished_at :: "int option"
  sy_cursor :: "int option"
  sy_error :: "string option"

record intel_db =
  id_vulns :: "vuln_row list"
  id_states :: "feed_state list"
  id_syncs :: "feed_sync list"

definition state_of :: "string \<Rightarrow> intel_db \<Rightarrow> feed_state" where
  "state_of source db = (case find (\<lambda>s. fs_source s = source) (id_states db) of Some s \<Rightarrow> s
     | None \<Rightarrow> \<lparr>fs_source = source, fs_watermark = None, fs_last_success_at = None, fs_last_attempt_at = None,
                fs_last_error = None, fs_consecutive_failures = 0, fs_records_ingested = 0\<rparr>)"

definition put_state :: "feed_state \<Rightarrow> feed_state list \<Rightarrow> feed_state list" where
  "put_state s ss = (if list_ex (\<lambda>x. fs_source x = fs_source s) ss
     then map (\<lambda>x. if fs_source x = fs_source s then s else x) ss else ss @ [s])"

definition window_for :: "feed_state \<Rightarrow> int \<Rightarrow> int \<times> int" where
  "window_for state now = (case fs_watermark state of
     None \<Rightarrow> (now - days_us FIRST_SYNC_LOOKBACK_DAYS, now)
   | Some w \<Rightarrow> (w - minutes OVERLAP_MINUTES, now))"

subsection \<open>One source, one run\<close>

datatype db_error = UniqueViolation

datatype sync_result = SyncCompleted nat int int | SyncFailed string int

text \<open>The state and the log row after a failure.\<close>

definition record_failure :: "int \<Rightarrow> string \<Rightarrow> feed_state \<Rightarrow> feed_sync \<Rightarrow> feed_state \<times> feed_sync" where
  "record_failure finished error state sync =
     (state\<lparr>fs_last_error := Some (take 2000 error), fs_consecutive_failures := fs_consecutive_failures state + 1\<rparr>,
      sync\<lparr>sy_status := ''failed'', sy_error := Some (take 2000 error), sy_finished_at := Some finished\<rparr>)"

text \<open>
  The transaction commits when no identifier occurs twice; otherwise all of it, the failure record included, is
  rolled back and the exception leaves the task.
\<close>

definition commit_vulns :: "batch \<Rightarrow> db_error + vuln_row list" where
  "commit_vulns b = (let rows = bt_rows b @ bt_added b in
     if distinct (map vr_external_id rows) then Inr rows else Inl UniqueViolation)"

definition run_source ::
    "string \<Rightarrow> (int \<Rightarrow> int \<Rightarrow> string + normalized_vuln list) \<Rightarrow> (normalized_vuln \<Rightarrow> string option) \<Rightarrow> int \<Rightarrow> int \<Rightarrow> intel_db \<Rightarrow>
     db_error + (intel_db \<times> sync_result)" where
  "run_source source fetch fault now finished db =
     (let state0 = state_of source db; (since, until) = window_for state0 now;
          sync = \<lparr>sy_source = source, sy_status = ''running'', sy_items_ingested = 0, sy_items_created = 0, sy_started_at = now,
                  sy_finished_at = None, sy_cursor = Some since, sy_error = None\<rparr>;
          state = state0\<lparr>fs_last_attempt_at := Some now\<rparr>;
          fail = (\<lambda>e rows. let (st, sy) = record_failure finished e state sync in
             (db\<lparr>id_vulns := rows, id_states := put_state st (id_states db), id_syncs := id_syncs db @ [sy]\<rparr>,
              SyncFailed (take 300 e) (fs_consecutive_failures st)))
      in if list_ex (\<lambda>x. sy_source x = source \<and> sy_cursor x = Some since) (id_syncs db) then Inl UniqueViolation
         else case fetch since until of
             Inl e \<Rightarrow> Inr (fail e (id_vulns db))
           | Inr records \<Rightarrow>
               (let (b, err) = upsert_vulnerabilities fault records \<lparr>bt_rows = id_vulns db, bt_added = [], bt_created = 0, bt_updated = 0\<rparr>
                in bind_r (commit_vulns b) (\<lambda>rows. case err of
                     Some e \<Rightarrow> Inr (fail (''ingest failed: '' @ e) rows)
                   | None \<Rightarrow>
                      (let items = bt_created b + bt_updated b;
                           st = state\<lparr>fs_watermark := Some until, fs_last_success_at := Some now, fs_last_error := None,
                                  fs_consecutive_failures := 0, fs_records_ingested := fs_records_ingested state + items\<rparr>;
                           sy = sync\<lparr>sy_status := ''completed'', sy_items_ingested := items, sy_items_created := bt_created b,
                                  sy_finished_at := Some finished\<rparr>
                       in Inr (db\<lparr>id_vulns := rows, id_states := put_state st (id_states db), id_syncs := id_syncs db @ [sy]\<rparr>,
                               SyncCompleted (length records) (bt_created b) (bt_updated b))))))"

subsection \<open>Enrichment\<close>

definition MATURITY_ORDER :: "string list" where
  "MATURITY_ORDER = [''unproven'', ''poc'', ''functional'', ''high'']"

fun index_in :: "string list \<Rightarrow> string \<Rightarrow> nat option" where
  "index_in [] x = None"
| "index_in (y # ys) x = (if x = y then Some 0 else map_option Suc (index_in ys x))"

definition maturity_rank :: "string \<Rightarrow> nat" where
  "maturity_rank m = (case index_in MATURITY_ORDER m of Some i \<Rightarrow> i | None \<Rightarrow> 0)"

definition rank_maturity :: "string option \<Rightarrow> nat" where
  "rank_maturity m = maturity_rank (case m of Some s \<Rightarrow> if s = [] then ''unproven'' else s | None \<Rightarrow> ''unproven'')"

definition strongest :: "string list \<Rightarrow> string" where
  "strongest ms = foldl (\<lambda>best m. if maturity_rank m > maturity_rank best then m else best) ''unproven'' ms"

text \<open>An empty catalogue is refused; \<open>None\<close> is that \<open>FeedError\<close>.  Otherwise the rows and how many changed.\<close>

definition enrich_row :: "(vuln_row \<Rightarrow> vuln_row \<times> bool) \<Rightarrow> vuln_row list \<Rightarrow> vuln_row list \<times> int" where
  "enrich_row f rows = (map (fst \<circ> f) rows, sum_list (map (\<lambda>v. if snd (f v) then 1 else 0) rows))"

definition apply_kev :: "string list \<Rightarrow> vuln_row list \<Rightarrow> (vuln_row list \<times> int) option" where
  "apply_kev ids rows = (if ids = [] then None else Some (enrich_row (\<lambda>v.
     if vr_external_id v \<in> set ids \<and> \<not> vr_kev v then (v\<lparr>vr_kev := True\<rparr>, True) else (v, False)) rows))"

definition kev_row :: "bool \<Rightarrow> vuln_row \<Rightarrow> vuln_row \<times> bool" where
  "kev_row ransomware v =
     (let promote = ransomware \<and> rank_maturity (vr_exploit_maturity v) < rank_maturity (Some ''high'')
      in (v\<lparr>vr_kev := True, vr_ransomware := vr_ransomware v \<or> ransomware,
            vr_exploit_maturity := (if promote then Some ''high'' else vr_exploit_maturity v)\<rparr>,
          \<not> vr_kev v \<or> ransomware \<and> \<not> vr_ransomware v \<or> promote))"

text \<open>\<open>{record.cve_id: record}\<close>: the last record of an identifier counts.\<close>

definition apply_kev_records :: "(string \<times> bool) list \<Rightarrow> vuln_row list \<Rightarrow> (vuln_row list \<times> int) option" where
  "apply_kev_records records rows = (if records = [] then None else Some (enrich_row (\<lambda>v.
     case map_of (rev records) (vr_external_id v) of Some r \<Rightarrow> kev_row r v | None \<Rightarrow> (v, False)) rows))"

definition apply_epss :: "(string \<times> rat) list \<Rightarrow> vuln_row list \<Rightarrow> (vuln_row list \<times> int) option" where
  "apply_epss scores rows = (if scores = [] then None else Some (enrich_row (\<lambda>v.
     case map_of (rev scores) (vr_external_id v) of
       Some s \<Rightarrow> if (case vr_epss_score v of None \<Rightarrow> True | Some x \<Rightarrow> \<bar>fl (x - s)\<bar> > fl (1 / 1000000000))
                 then (v\<lparr>vr_epss_score := Some s\<rparr>, True) else (v, False)
     | None \<Rightarrow> (v, False)) rows))"

record exploit_row =
  xr_cve_id :: string
  xr_source :: string
  xr_external_id :: string
  xr_title :: string
  xr_reference_url :: "string option"
  xr_maturity :: string
  xr_verified :: bool

definition same_exploit :: "exploit_row \<Rightarrow> exploit_row \<Rightarrow> bool" where
  "same_exploit x y \<longleftrightarrow> xr_source x = xr_source y \<and> xr_external_id x = xr_external_id y \<and> xr_cve_id x = xr_cve_id y"

definition upsert_exploit ::
    "exploit_row \<Rightarrow> exploit_row list \<times> exploit_row list \<times> int \<times> int \<Rightarrow> exploit_row list \<times> exploit_row list \<times> int \<times> int" where
  "upsert_exploit r acc = (case acc of (rows, added, created, updated) \<Rightarrow>
     if xr_cve_id r = [] \<or> xr_external_id r = [] then acc
     else case find (same_exploit r) rows of
         None \<Rightarrow> (rows, added @ [r], created + 1, updated)
       | Some x \<Rightarrow>
          if xr_maturity x \<noteq> xr_maturity r \<or> xr_verified x \<noteq> xr_verified r \<or> xr_title x \<noteq> xr_title r
          then let x' = x\<lparr>xr_maturity := xr_maturity r, xr_verified := xr_verified r, xr_title := xr_title r,
                          xr_reference_url := (if blank_text (xr_reference_url r) then xr_reference_url x else xr_reference_url r)\<rparr>
               in (map (\<lambda>y. if same_exploit r y then x' else y) rows, added, created, updated + 1)
          else acc)"

definition upsert_exploits :: "exploit_row list \<Rightarrow> exploit_row list \<Rightarrow> exploit_row list \<times> exploit_row list \<times> int \<times> int" where
  "upsert_exploits records rows = fold upsert_exploit records (rows, [], 0, 0)"

definition propagate_exploit_maturity :: "string list \<Rightarrow> exploit_row list \<Rightarrow> vuln_row list \<Rightarrow> vuln_row list \<times> int" where
  "propagate_exploit_maturity cve_ids exploits rows =
     (let considered = (if cve_ids = [] then exploits else filter (\<lambda>x. xr_cve_id x \<in> set cve_ids) exploits)
      in enrich_row (\<lambda>v.
        let ms = map xr_maturity (filter (\<lambda>x. xr_cve_id x = vr_external_id v) considered); best = strongest ms in
        if ms \<noteq> [] \<and> maturity_rank best > rank_maturity (vr_exploit_maturity v)
        then (v\<lparr>vr_exploit_maturity := Some best\<rparr>, True) else (v, False)) rows)"

subsection \<open>Merging keeps what a stronger source filled\<close>

lemma set_if_cases:
  "fst (set_if blank ov c v) = c \<and> \<not> snd (set_if blank ov c v) \<or>
   fst (set_if blank ov c v) = v \<and> snd (set_if blank ov c v) \<and> \<not> blank v \<and> c \<noteq> v \<and> (blank c \<or> ov)"
  by (simp add: set_if_def)

lemma set_if_changed: "snd (set_if blank ov c v) \<longleftrightarrow> fst (set_if blank ov c v) \<noteq> c"
  using set_if_cases [of blank ov c v] by auto

lemma merge_fields:
  "vr_external_id (fst (merge_vulnerability v r)) = vr_external_id v"
  "vr_source (fst (merge_vulnerability v r)) = vr_source v"
  "vr_kev (fst (merge_vulnerability v r)) = vr_kev v"
  "vr_ransomware (fst (merge_vulnerability v r)) = vr_ransomware v"
  "vr_epss_score (fst (merge_vulnerability v r)) = vr_epss_score v"
  "vr_exploit_maturity (fst (merge_vulnerability v r)) = vr_exploit_maturity v"
  "vr_summary (fst (merge_vulnerability v r)) = fst (set_if blank_list False (vr_summary v) (nv_summary r))"
  "vr_details (fst (merge_vulnerability v r)) = fst (set_if blank_list False (vr_details v) (nv_details r))"
  "vr_cwe_ids (fst (merge_vulnerability v r)) = fst (set_if blank_list False (vr_cwe_ids v) (nv_cwe_ids r))"
  "vr_cvss_vector (fst (merge_vulnerability v r)) =
     fst (set_if blank_text (nv_source r = ''nvd'') (vr_cvss_vector v) (nv_cvss_vector r))"
  "vr_cvss_base (fst (merge_vulnerability v r)) = fst (set_if blank_opt (nv_source r = ''nvd'') (vr_cvss_base v) (nv_cvss_base r))"
  "vr_severity (fst (merge_vulnerability v r)) = fst (set_if blank_text (nv_source r = ''nvd'') (vr_severity v) (nv_severity r))"
  "vr_affected (fst (merge_vulnerability v r)) =
     fst (set_if blank_list (nv_source r = ''osv'') (vr_affected v) (normalize_affected (nv_affected r)))"
  "vr_cpe_configurations (fst (merge_vulnerability v r)) =
     fst (set_if blank_list (nv_source r = ''nvd'') (vr_cpe_configurations v) (nv_cpe_configurations r))"
  "vr_references (fst (merge_vulnerability v r)) = fst (set_if blank_list False (vr_references v) (nv_references r))"
  "vr_published_at (fst (merge_vulnerability v r)) = fst (set_if blank_opt False (vr_published_at v) (nv_published_at r))"
  "vr_modified_at (fst (merge_vulnerability v r)) =
     (if nv_modified_at r \<noteq> None then nv_modified_at r else vr_modified_at v)"
  by (simp_all add: merge_vulnerability_def case_prod_beta Let_def)

lemma row_eq_iff:
  fixes a b :: vuln_row
  shows "a = b \<longleftrightarrow> vr_external_id a = vr_external_id b \<and> vr_source a = vr_source b \<and> vr_summary a = vr_summary b \<and>
     vr_details a = vr_details b \<and> vr_cwe_ids a = vr_cwe_ids b \<and> vr_cvss_vector a = vr_cvss_vector b \<and>
     vr_cvss_base a = vr_cvss_base b \<and> vr_epss_score a = vr_epss_score b \<and> vr_kev a = vr_kev b \<and>
     vr_affected a = vr_affected b \<and> vr_cpe_configurations a = vr_cpe_configurations b \<and> vr_severity a = vr_severity b \<and>
     vr_exploit_maturity a = vr_exploit_maturity b \<and> vr_ransomware a = vr_ransomware b \<and> vr_references a = vr_references b \<and>
     vr_published_at a = vr_published_at b \<and> vr_modified_at a = vr_modified_at b"
  by (cases a; cases b) auto

lemma merge_changed: "snd (merge_vulnerability v r) \<longleftrightarrow> fst (merge_vulnerability v r) \<noteq> v"
proof -
  have "snd (merge_vulnerability v r) \<longleftrightarrow>
      fst (set_if blank_list False (vr_summary v) (nv_summary r)) \<noteq> vr_summary v \<or>
      fst (set_if blank_list False (vr_details v) (nv_details r)) \<noteq> vr_details v \<or>
      fst (set_if blank_list False (vr_cwe_ids v) (nv_cwe_ids r)) \<noteq> vr_cwe_ids v \<or>
      fst (set_if blank_text (nv_source r = ''nvd'') (vr_cvss_vector v) (nv_cvss_vector r)) \<noteq> vr_cvss_vector v \<or>
      fst (set_if blank_opt (nv_source r = ''nvd'') (vr_cvss_base v) (nv_cvss_base r)) \<noteq> vr_cvss_base v \<or>
      fst (set_if blank_text (nv_source r = ''nvd'') (vr_severity v) (nv_severity r)) \<noteq> vr_severity v \<or>
      fst (set_if blank_list (nv_source r = ''osv'') (vr_affected v) (normalize_affected (nv_affected r))) \<noteq> vr_affected v \<or>
      fst (set_if blank_list (nv_source r = ''nvd'') (vr_cpe_configurations v) (nv_cpe_configurations r)) \<noteq> vr_cpe_configurations v \<or>
      fst (set_if blank_list False (vr_references v) (nv_references r)) \<noteq> vr_references v \<or>
      fst (set_if blank_opt False (vr_published_at v) (nv_published_at r)) \<noteq> vr_published_at v \<or>
      (nv_modified_at r \<noteq> None \<and> vr_modified_at v \<noteq> nv_modified_at r)"
    unfolding set_if_changed [symmetric] by (simp add: merge_vulnerability_def case_prod_beta Let_def)
  moreover have "(nv_modified_at r \<noteq> None \<and> vr_modified_at v \<noteq> nv_modified_at r) \<longleftrightarrow>
      (if nv_modified_at r \<noteq> None then nv_modified_at r else vr_modified_at v) \<noteq> vr_modified_at v" by auto
  ultimately show ?thesis unfolding row_eq_iff [of "fst (merge_vulnerability v r)"] merge_fields by metis
qed

text \<open>A feed record never blanks a field of an advisory that is filled, never touches its identity or its exploitation
  data, and, unless it comes from NVD, never changes a CVSS vector, base score, severity or CPE list that is already
  there; the row counts as updated exactly when it differs afterwards.
\<close>

theorem merge_respects_authority:
  "let v' = fst (merge_vulnerability v r) in
     vr_external_id v' = vr_external_id v \<and> vr_kev v' = vr_kev v \<and> vr_ransomware v' = vr_ransomware v \<and>
     vr_exploit_maturity v' = vr_exploit_maturity v \<and> vr_epss_score v' = vr_epss_score v \<and>
     (nv_source r \<noteq> ''nvd'' \<longrightarrow>
       (vr_cvss_base v \<noteq> None \<longrightarrow> vr_cvss_base v' = vr_cvss_base v) \<and>
       (\<not> blank_text (vr_cvss_vector v) \<longrightarrow> vr_cvss_vector v' = vr_cvss_vector v) \<and>
       (\<not> blank_text (vr_severity v) \<longrightarrow> vr_severity v' = vr_severity v) \<and>
       (vr_cpe_configurations v \<noteq> [] \<longrightarrow> vr_cpe_configurations v' = vr_cpe_configurations v)) \<and>
     (vr_summary v \<noteq> [] \<longrightarrow> vr_summary v' \<noteq> []) \<and> (vr_cvss_base v \<noteq> None \<longrightarrow> vr_cvss_base v' \<noteq> None) \<and>
     (\<not> blank_text (vr_severity v) \<longrightarrow> \<not> blank_text (vr_severity v')) \<and> (vr_affected v \<noteq> [] \<longrightarrow> vr_affected v' \<noteq> []) \<and>
     (vr_cpe_configurations v \<noteq> [] \<longrightarrow> vr_cpe_configurations v' \<noteq> []) \<and>
     (snd (merge_vulnerability v r) \<longleftrightarrow> v' \<noteq> v)"
  unfolding Let_def merge_changed merge_fields
  by (auto simp: set_if_def blank_opt_def blank_list_def)

definition sample_vuln :: "string \<Rightarrow> string \<Rightarrow> normalized_vuln" where
  "sample_vuln ident source = \<lparr>nv_external_id = ident, nv_source = source, nv_summary = source, nv_details = [],
     nv_cwe_ids = [], nv_cvss_base = (if source = ''nvd'' then Some (49 / 5) else Some 5), nv_cvss_vector = None,
     nv_epss_score = None, nv_kev = False, nv_severity = Some (if source = ''nvd'' then ''critical'' else ''medium''), nv_affected = [], nv_cpe_configurations = [],
     nv_references = [], nv_published_at = None, nv_modified_at = None\<rparr>"

lemma merge_respects_authority_witness:
  "vr_cvss_base (fst (merge_vulnerability (new_vulnerability (sample_vuln ''CVE-1'' ''nvd'')) (sample_vuln ''CVE-1'' ''osv''))) = Some (49 / 5)"
  using merge_respects_authority [of "new_vulnerability (sample_vuln ''CVE-1'' ''nvd'')" "sample_vuln ''CVE-1'' ''osv''"]
  by (simp add: Let_def new_vulnerability_def sample_vuln_def)

definition filled_alike :: "('a \<Rightarrow> bool) \<Rightarrow> 'a \<Rightarrow> 'a \<Rightarrow> bool" where
  "filled_alike blank x y \<longleftrightarrow> x = y \<or> blank x \<and> blank y"

lemma set_if_order:
  "filled_alike blank (fst (set_if blank False strong weak)) (fst (set_if blank True weak strong))"
  by (auto simp: set_if_def filled_alike_def)

text \<open>Which of NVD and another feed is synced first makes no difference to the CVSS data and the CPE list of an advisory,
  and which of OSV and another feed makes none to its package list.
\<close>

theorem authority_is_schedule_independent:
  assumes "nv_source n = ''nvd''" "nv_source g \<noteq> ''nvd''"
  shows "let first = fst (merge_vulnerability (new_vulnerability n) g); last = fst (merge_vulnerability (new_vulnerability g) n) in
     vr_cvss_base first = vr_cvss_base last \<and> filled_alike blank_text (vr_cvss_vector first) (vr_cvss_vector last) \<and>
     filled_alike blank_text (vr_severity first) (vr_severity last) \<and>
     vr_cpe_configurations first = vr_cpe_configurations last \<and>
     (nv_source g = ''osv'' \<longrightarrow> vr_affected first = vr_affected last)"
  using assms set_if_order [of blank_opt "nv_cvss_base n" "nv_cvss_base g"]
    set_if_order [of blank_text "nv_cvss_vector n" "nv_cvss_vector g"]
    set_if_order [of blank_text "nv_severity n" "nv_severity g"]
    set_if_order [of blank_list "nv_cpe_configurations n" "nv_cpe_configurations g"]
    set_if_order [of blank_list "normalize_affected (nv_affected g)" "normalize_affected (nv_affected n)"]
  unfolding Let_def merge_fields
  by (auto simp: new_vulnerability_def filled_alike_def blank_opt_def blank_list_def)

lemma authority_is_schedule_independent_witness:
  "vr_cvss_base (fst (merge_vulnerability (new_vulnerability (sample_vuln ''CVE-1'' ''osv'')) (sample_vuln ''CVE-1'' ''nvd''))) = Some (49 / 5)"
proof -
  have "vr_cvss_base (fst (merge_vulnerability (new_vulnerability (sample_vuln ''CVE-1'' ''nvd'')) (sample_vuln ''CVE-1'' ''osv''))) =
      vr_cvss_base (fst (merge_vulnerability (new_vulnerability (sample_vuln ''CVE-1'' ''osv'')) (sample_vuln ''CVE-1'' ''nvd'')))"
    using authority_is_schedule_independent [of "sample_vuln ''CVE-1'' ''nvd''" "sample_vuln ''CVE-1'' ''osv''"]
    by (simp add: Let_def sample_vuln_def)
  then show ?thesis by (simp add: merge_fields set_if_def blank_opt_def new_vulnerability_def sample_vuln_def)
qed

text \<open>The summary, though, is the one of the feed that ran first.\<close>

lemma summary_depends_on_schedule:
  "vr_summary (fst (merge_vulnerability (new_vulnerability (sample_vuln ''CVE-1'' ''nvd'')) (sample_vuln ''CVE-1'' ''osv''))) = ''nvd''"
  "vr_summary (fst (merge_vulnerability (new_vulnerability (sample_vuln ''CVE-1'' ''osv'')) (sample_vuln ''CVE-1'' ''nvd''))) = ''osv''"
  by (simp_all add: merge_fields set_if_def blank_list_def new_vulnerability_def sample_vuln_def)

subsection \<open>Runs one after another\<close>

text \<open>
  A run that raises leaves the database as it was.  \<open>ingested\<close> lists the windows of the completed runs of one source.
\<close>

record run =
  rn_source :: string
  rn_fetch :: "int \<Rightarrow> int \<Rightarrow> string + normalized_vuln list"
  rn_fault :: "normalized_vuln \<Rightarrow> string option"
  rn_now :: int
  rn_finished :: int

definition attempt :: "run \<Rightarrow> intel_db \<Rightarrow> db_error + (intel_db \<times> sync_result)" where
  "attempt r = run_source (rn_source r) (rn_fetch r) (rn_fault r) (rn_now r) (rn_finished r)"

definition after_run :: "run \<Rightarrow> intel_db \<Rightarrow> intel_db" where
  "after_run r db = (case attempt r db of Inl _ \<Rightarrow> db | Inr (db', _) \<Rightarrow> db')"

definition run_completed :: "run \<Rightarrow> intel_db \<Rightarrow> bool" where
  "run_completed r db \<longleftrightarrow> (case attempt r db of Inr (_, SyncCompleted _ _ _) \<Rightarrow> True | _ \<Rightarrow> False)"

fun ingested :: "string \<Rightarrow> run list \<Rightarrow> intel_db \<Rightarrow> (int \<times> int) list" where
  "ingested s [] db = []"
| "ingested s (r # rs) db =
     (if rn_source r = s \<and> run_completed r db then [window_for (state_of s db) (rn_now r)] else []) @ ingested s rs (after_run r db)"

definition after_runs :: "run list \<Rightarrow> intel_db \<Rightarrow> intel_db" where
  "after_runs rs db = fold after_run rs db"

lemma find_replace_same:
  "list_ex (\<lambda>x. fs_source x = fs_source st) ss \<Longrightarrow>
     find (\<lambda>x. fs_source x = fs_source st) (map (\<lambda>x. if fs_source x = fs_source st then st else x) ss) = Some st"
  by (induction ss) auto

lemma find_replace_other:
  "fs_source st \<noteq> s \<Longrightarrow>
     find (\<lambda>x. fs_source x = s) (map (\<lambda>x. if fs_source x = fs_source st then st else x) ss) = find (\<lambda>x. fs_source x = s) ss"
  by (induction ss) auto

lemma find_append_new:
  "\<not> list_ex (\<lambda>x. fs_source x = fs_source st) ss \<Longrightarrow>
     find (\<lambda>x. fs_source x = s) (ss @ [st]) = (if fs_source st = s then Some st else find (\<lambda>x. fs_source x = s) ss)"
  by (induction ss) auto

lemma find_put_state:
  "find (\<lambda>x. fs_source x = s) (put_state st ss) =
     (if fs_source st = s then Some st else find (\<lambda>x. fs_source x = s) ss)"
  using find_replace_same [of st ss] find_replace_other [of st s ss] find_append_new [of st ss s]
  unfolding put_state_def by auto

lemma fs_source_state_of [simp]: "fs_source (state_of s db) = s"
  unfolding state_of_def by (auto split: option.splits dest!: find_SomeD)

lemma state_of_put:
  assumes "id_states db' = put_state st (id_states db)" "fs_source st = s'"
  shows "state_of s db' = (if s = s' then st else state_of s db)"
  using assms unfolding state_of_def by (simp add: find_put_state)

text \<open>What one run does to the database, by outcome.\<close>

lemma run_source_cases:
  assumes "attempt r db = Inr (db', res)"
  obtains (completed) records b rows st where
      "rn_fetch r (fst (window_for (state_of (rn_source r) db) (rn_now r))) (rn_now r) = Inr records"
      "upsert_vulnerabilities (rn_fault r) records \<lparr>bt_rows = id_vulns db, bt_added = [], bt_created = 0, bt_updated = 0\<rparr> = (b, None)"
      "commit_vulns b = Inr rows" "id_vulns db' = rows" "res = SyncCompleted (length records) (bt_created b) (bt_updated b)"
      "id_states db' = put_state st (id_states db)" "fs_source st = rn_source r" "fs_watermark st = Some (rn_now r)"
      "fs_consecutive_failures st = 0"
  | (failed) e n st where "res = SyncFailed e n" "id_states db' = put_state st (id_states db)" "fs_source st = rn_source r"
      "fs_watermark st = fs_watermark (state_of (rn_source r) db)"
      "list_ex (\<lambda>x. sy_source x = rn_source r \<and> sy_cursor x = Some (fst (window_for (state_of (rn_source r) db) (rn_now r))))
         (id_syncs db')"
proof -
  define w where "w = window_for (state_of (rn_source r) db) (rn_now r)"
  have until: "snd w = rn_now r" by (simp add: w_def window_for_def split: option.splits)
  obtain since where w: "w = (since, rn_now r)" using until by (cases w) simp
  note run = assms [unfolded attempt_def run_source_def Let_def w_def [symmetric] w prod.case]
  show ?thesis
  proof (cases "rn_fetch r since (rn_now r)")
    case (Inl e)
    show ?thesis
      using run unfolding Inl by - (rule failed [where st = "fst (record_failure (rn_finished r) e ((state_of (rn_source r) db)\<lparr>fs_last_attempt_at := Some (rn_now r)\<rparr>) undefined)"], auto simp: record_failure_def w_def [symmetric] w split: if_splits)
  next
    case (Inr records)
    obtain b err where up: "upsert_vulnerabilities (rn_fault r) records
        \<lparr>bt_rows = id_vulns db, bt_added = [], bt_created = 0, bt_updated = 0\<rparr> = (b, err)" by fastforce
    obtain rows where rows: "commit_vulns b = Inr rows"
      using run by (cases "commit_vulns b") (auto simp: Inr up split: if_splits)
    show ?thesis
    proof (cases err)
      case None
      show ?thesis
        by (rule completed [of records b rows])
          (use run rows up in \<open>auto simp: Inr None w_def [symmetric] w split: if_splits\<close>)
    next
      case (Some e)
      show ?thesis
        using run rows
        by - (rule failed [where st = "fst (record_failure (rn_finished r) (''ingest failed: '' @ e) ((state_of (rn_source r) db)\<lparr>fs_last_attempt_at := Some (rn_now r)\<rparr>) undefined)"],
            auto simp: Inr up Some record_failure_def w_def [symmetric] w split: if_splits)
    qed
  qed
qed

lemma watermark_step:
  "fs_watermark (state_of s (after_run r db)) =
     (if rn_source r = s \<and> run_completed r db then Some (rn_now r) else fs_watermark (state_of s db))"
proof (cases "attempt r db")
  case (Inl e)
  then show ?thesis by (simp add: after_run_def run_completed_def)
next
  case (Inr p)
  obtain db' res where p: "p = (db', res)" by fastforce
  from Inr [unfolded p] show ?thesis
    by (cases rule: run_source_cases)
      (auto simp: after_run_def run_completed_def Inr p state_of_put split: sync_result.splits)
qed

text \<open>\<open>covered ws a w\<close>: every instant from \<open>a\<close> to \<open>w\<close> lies in one of the windows.\<close>

definition covered_by :: "(int \<times> int) list \<Rightarrow> int \<Rightarrow> int \<Rightarrow> bool" where
  "covered_by ws a w \<longleftrightarrow> (\<forall>t. a \<le> t \<and> t \<le> w \<longrightarrow> (\<exists>p \<in> set ws. fst p \<le> t \<and> t \<le> snd p))"

lemma covered_extend:
  assumes "covered_by ws a w" "b \<le> w"
  shows "covered_by (ws @ [(b, c)]) a c"
  unfolding covered_by_def
proof (intro allI impI)
  fix t assume t: "a \<le> t \<and> t \<le> c"
  show "\<exists>p \<in> set (ws @ [(b, c)]). fst p \<le> t \<and> t \<le> snd p"
  proof (cases "t \<le> w")
    case True
    then show ?thesis using assms(1) t unfolding covered_by_def by fastforce
  next
    case False
    then show ?thesis using assms(2) t by fastforce
  qed
qed

lemma window_overlaps: "fs_watermark st = Some w \<Longrightarrow> fst (window_for st now) \<le> w \<and> snd (window_for st now) = now"
  by (simp add: window_for_def OVERLAP_MINUTES_def minutes_def seconds_def)

lemma watermark_covered:
  assumes "fs_watermark (state_of s db) = Some w0" "covered_by ws a w0"
  shows "\<exists>w. fs_watermark (state_of s (after_runs rs db)) = Some w \<and> covered_by (ws @ ingested s rs db) a w"
  using assms
proof (induction rs arbitrary: db ws w0)
  case Nil
  then show ?case by (simp add: after_runs_def)
next
  case (Cons r rs)
  show ?case
  proof (cases "rn_source r = s \<and> run_completed r db")
    case True
    obtain b where b: "window_for (state_of s db) (rn_now r) = (b, rn_now r)" "b \<le> w0"
      using window_overlaps [OF Cons.prems(1), of "rn_now r"] by (metis prod.collapse)
    have "fs_watermark (state_of s (after_run r db)) = Some (rn_now r)" using True by (simp add: watermark_step)
    from Cons.IH [OF this covered_extend [OF Cons.prems(2) b(2)]]
    show ?thesis using True b by (simp add: after_runs_def)
  next
    case False
    have "fs_watermark (state_of s (after_run r db)) = Some w0"
      using False Cons.prems(1) by (auto simp: watermark_step)
    from Cons.IH [OF this Cons.prems(2)] show ?thesis using False by (auto simp: after_runs_def)
  qed
qed

lemma first_window:
  assumes "fs_watermark (state_of s db) = None"
  shows "ingested s rs db = [] \<and> fs_watermark (state_of s (after_runs rs db)) = None \<or>
     (\<exists>w. ingested s rs db \<noteq> [] \<and> fs_watermark (state_of s (after_runs rs db)) = Some w \<and>
        covered_by (ingested s rs db) (fst (hd (ingested s rs db))) w)"
  using assms
proof (induction rs arbitrary: db)
  case Nil
  then show ?case by (simp add: after_runs_def)
next
  case (Cons r rs)
  show ?case
  proof (cases "rn_source r = s \<and> run_completed r db")
    case True
    define p where "p = window_for (state_of s db) (rn_now r)"
    have p: "snd p = rn_now r" by (simp add: p_def window_for_def split: option.splits)
    have wm: "fs_watermark (state_of s (after_run r db)) = Some (rn_now r)" using True by (simp add: watermark_step)
    have cov: "covered_by [p] (fst p) (rn_now r)" using p by (auto simp: covered_by_def)
    from watermark_covered [OF wm cov, of rs] show ?thesis
      using True by (auto simp: after_runs_def p_def [symmetric])
  next
    case False
    have "fs_watermark (state_of s (after_run r db)) = None" using False Cons.prems by (auto simp: watermark_step)
    from Cons.IH [OF this] show ?thesis using False by (auto simp: after_runs_def)
  qed
qed

lemma first_window_length:
  assumes "fs_watermark (state_of s db) = None" "ingested s rs db \<noteq> []"
  shows "fst (hd (ingested s rs db)) = snd (hd (ingested s rs db)) - days_us 730"
  using assms
proof (induction rs arbitrary: db)
  case (Cons r rs)
  show ?case
  proof (cases "rn_source r = s \<and> run_completed r db")
    case True
    then show ?thesis using Cons.prems(1) by (simp add: window_for_def FIRST_SYNC_LOOKBACK_DAYS_def)
  next
    case False
    then have "fs_watermark (state_of s (after_run r db)) = None" "ingested s rs (after_run r db) \<noteq> []"
      using Cons.prems by (auto simp: watermark_step)
    from Cons.IH [OF this] show ?thesis using False by auto
  qed
qed simp

text \<open>C19: No window of a feed is skipped.  Whatever runs of whatever feeds happen in whatever order, failing, raising or
  completing: a feed that had a watermark keeps one, and every instant after the old and up to the new one lies in the window of a
  run of it that completed in between.  A feed that had none has one exactly when a run of it has completed, and then every instant from
  730 days before that first run up to the watermark lies in the window of a completed run.
\<close>

theorem no_window_is_skipped:
  "case fs_watermark (state_of s db) of
     Some w0 \<Rightarrow> (\<exists>w. fs_watermark (state_of s (after_runs rs db)) = Some w \<and> covered_by (ingested s rs db) (w0 + 1) w)
   | None \<Rightarrow> (case fs_watermark (state_of s (after_runs rs db)) of
         None \<Rightarrow> ingested s rs db = []
       | Some w \<Rightarrow> ingested s rs db \<noteq> [] \<and> fst (hd (ingested s rs db)) = snd (hd (ingested s rs db)) - days_us 730 \<and>
           covered_by (ingested s rs db) (fst (hd (ingested s rs db))) w)"
proof (cases "fs_watermark (state_of s db)")
  case None
  then show ?thesis using first_window [OF None, of rs] first_window_length [OF None, of rs] by (auto split: option.split)
next
  case (Some w0)
  have "covered_by [(w0, w0)] w0 w0" by (simp add: covered_by_def)
  from watermark_covered [OF Some this, of rs] obtain w where
    w: "fs_watermark (state_of s (after_runs rs db)) = Some w" "covered_by ([(w0, w0)] @ ingested s rs db) w0 w" by blast
  have "covered_by (ingested s rs db) (w0 + 1) w" unfolding covered_by_def
  proof (intro allI impI)
    fix t assume t: "w0 + 1 \<le> t \<and> t \<le> w"
    then have "w0 \<le> t \<and> t \<le> w" by simp
    then have "\<exists>p \<in> set ([(w0, w0)] @ ingested s rs db). fst p \<le> t \<and> t \<le> snd p" using w(2) unfolding covered_by_def by blast
    then show "\<exists>p \<in> set (ingested s rs db). fst p \<le> t \<and> t \<le> snd p" using t by auto
  qed
  then show ?thesis using Some w(1) by simp
qed

definition empty_db :: intel_db where "empty_db = \<lparr>id_vulns = [], id_states = [], id_syncs = []\<rparr>"

definition good_run :: "int \<Rightarrow> run" where
  "good_run now = \<lparr>rn_source = ''nvd'', rn_fetch = (\<lambda>_ _. Inr [sample_vuln ''CVE-1'' ''nvd'']), rn_fault = (\<lambda>_. None),
     rn_now = now, rn_finished = now\<rparr>"

definition bad_run :: "int \<Rightarrow> run" where
  "bad_run now = (good_run now)\<lparr>rn_fetch := (\<lambda>_ _. Inl ''timeout'')\<rparr>"

text \<open>
  A feed that fails once after a success never runs again: the window of every later run starts at the same instant, so
  its log row has the cursor of the failed one, which the unique constraint of the table refuses.
\<close>

definition blocked :: "string \<Rightarrow> intel_db \<Rightarrow> bool" where
  "blocked s db \<longleftrightarrow> (\<exists>w. fs_watermark (state_of s db) = Some w \<and>
     list_ex (\<lambda>x. sy_source x = s \<and> sy_cursor x = Some (w - minutes OVERLAP_MINUTES)) (id_syncs db))"

lemma blocked_raises: "blocked (rn_source r) db \<Longrightarrow> attempt r db = Inl UniqueViolation"
  by (auto simp: blocked_def attempt_def run_source_def Let_def window_for_def)

lemma syncs_grow: "list_ex P (id_syncs db) \<Longrightarrow> list_ex P (id_syncs (after_run r db))"
  unfolding after_run_def attempt_def run_source_def Let_def bind_r_def
  by (auto split: sum.splits if_splits prod.splits option.splits)

lemma blocked_step: "blocked s db \<Longrightarrow> blocked s (after_run r db)"
proof -
  assume b: "blocked s db"
  have "\<not> (rn_source r = s \<and> run_completed r db)"
    using b by (auto simp: run_completed_def blocked_raises)
  then have "fs_watermark (state_of s (after_run r db)) = fs_watermark (state_of s db)" by (auto simp: watermark_step)
  then show ?thesis using b syncs_grow unfolding blocked_def by metis
qed

lemma failed_feed_is_blocked:
  assumes "attempt r db = Inr (db', SyncFailed e n)" "fs_watermark (state_of (rn_source r) db) \<noteq> None"
    and "rn_source r' = rn_source r"
  shows "attempt r' (after_runs rs db') = Inl UniqueViolation"
proof -
  from assms(2) have "blocked (rn_source r) db'"
    by (cases rule: run_source_cases [OF assms(1)])
      (auto simp: blocked_def state_of_put window_for_def split: option.splits)
  then have "blocked (rn_source r) (after_runs rs db')"
    unfolding after_runs_def by (induction rs arbitrary: db') (auto simp: blocked_step)
  then show ?thesis using blocked_raises assms(3) by metis
qed

lemma failed_feed_stays_blocked:
  "map (\<lambda>db. map_sum id (\<lambda>_. ()) (attempt (good_run 99) db))
     [after_runs [good_run 7] empty_db, after_runs [good_run 7, bad_run 9] empty_db] = [Inr (), Inl UniqueViolation]"
  by code_simp

subsection \<open>The knowledge base only learns\<close>

definition row_le :: "vuln_row \<Rightarrow> vuln_row \<Rightarrow> bool" where
  "row_le a b \<longleftrightarrow> vr_external_id a = vr_external_id b \<and> (vr_kev a \<longrightarrow> vr_kev b) \<and> (vr_ransomware a \<longrightarrow> vr_ransomware b) \<and>
     rank_maturity (vr_exploit_maturity a) \<le> rank_maturity (vr_exploit_maturity b) \<and>
     (vr_epss_score a \<noteq> None \<longrightarrow> vr_epss_score b \<noteq> None)"

definition rows_le :: "vuln_row list \<Rightarrow> vuln_row list \<Rightarrow> bool" where
  "rows_le rows rows' \<longleftrightarrow> list_all2 row_le rows (take (length rows) rows')"

definition kb_inv :: "vuln_row list \<Rightarrow> bool" where
  "kb_inv rows \<longleftrightarrow> distinct (map vr_external_id rows) \<and>
     (\<forall>v \<in> set rows. vr_ransomware v \<longrightarrow> rank_maturity (vr_exploit_maturity v) = 3)"

inductive kb_step :: "vuln_row list \<Rightarrow> vuln_row list \<Rightarrow> bool" where
  kb_kev: "apply_kev ids rows = Some (rows', n) \<Longrightarrow> kb_step rows rows'"
| kb_kev_records: "apply_kev_records records rows = Some (rows', n) \<Longrightarrow> kb_step rows rows'"
| kb_epss: "apply_epss scores rows = Some (rows', n) \<Longrightarrow> kb_step rows rows'"
| kb_exploits: "propagate_exploit_maturity ids exploits rows = (rows', n) \<Longrightarrow> kb_step rows rows'"
| kb_upsert: "upsert_vulnerabilities fault records \<lparr>bt_rows = rows, bt_added = [], bt_created = 0, bt_updated = 0\<rparr> = (b, err) \<Longrightarrow>
     commit_vulns b = Inr rows' \<Longrightarrow> kb_step rows rows'"

lemma index_in_bound: "index_in ys x = Some i \<Longrightarrow> i < length ys"
  by (induction ys arbitrary: i) (auto split: if_splits)

lemma maturity_rank_le: "maturity_rank m \<le> 3"
  using index_in_bound [of MATURITY_ORDER m] by (auto simp: maturity_rank_def MATURITY_ORDER_def split: option.splits)

lemma rank_maturity_le: "rank_maturity m \<le> 3"
  by (simp add: rank_maturity_def maturity_rank_le)

lemma rank_high [simp]: "rank_maturity (Some ''high'') = 3" "maturity_rank ''unproven'' = 0"
  by code_simp+

lemma rank_Some: "rank_maturity (Some m) = maturity_rank m"
proof (cases "m = []")
  case True
  have "maturity_rank [] = 0" by code_simp
  then show ?thesis using True by (simp add: rank_maturity_def)
qed (simp add: rank_maturity_def)

definition row_ok :: "vuln_row \<Rightarrow> bool" where
  "row_ok v \<longleftrightarrow> (vr_ransomware v \<longrightarrow> rank_maturity (vr_exploit_maturity v) = 3)"

text \<open>Each enrichment, row by row.\<close>

lemma row_le_refl [simp]: "row_le v v" by (simp add: row_le_def)

lemma row_le_trans: "row_le a b \<Longrightarrow> row_le b c \<Longrightarrow> row_le a c"
  by (auto simp: row_le_def)

lemma rows_trans: "list_all2 row_le xs ys \<Longrightarrow> list_all2 row_le ys zs \<Longrightarrow> list_all2 row_le xs zs"
  using row_le_trans by (rule list_all2_trans)

lemma row_le_kev: "row_le v (v\<lparr>vr_kev := True\<rparr>)" by (simp add: row_le_def)

lemma row_le_epss: "row_le v (v\<lparr>vr_epss_score := Some x\<rparr>)" by (simp add: row_le_def)

lemma row_le_kev_row: "row_le v (fst (kev_row r v))"
  using rank_maturity_le [of "vr_exploit_maturity v"] by (simp add: kev_row_def Let_def row_le_def)

lemma row_ok_kev_row: "row_ok v \<Longrightarrow> row_ok (fst (kev_row r v))"
  using rank_maturity_le [of "vr_exploit_maturity v"] by (auto simp: kev_row_def Let_def row_ok_def)

lemma row_promoted:
  "row_le v (fst (if b \<and> maturity_rank best > rank_maturity (vr_exploit_maturity v)
      then (v\<lparr>vr_exploit_maturity := Some best\<rparr>, True) else (v, False))) \<and>
   (row_ok v \<longrightarrow> row_ok (fst (if b \<and> maturity_rank best > rank_maturity (vr_exploit_maturity v)
      then (v\<lparr>vr_exploit_maturity := Some best\<rparr>, True) else (v, False))))"
  using maturity_rank_le [of best] by (auto simp: row_ok_def rank_Some row_le_def)

lemma merge_row_le: "row_le v (fst (merge_vulnerability v r))"
  by (simp add: row_le_def merge_fields)

lemma merge_row_ok: "row_ok v \<Longrightarrow> row_ok (fst (merge_vulnerability v r))"
  by (simp add: row_ok_def merge_fields)

lemma enrich_rows:
  assumes "\<And>v. row_le v (fst (f v)) \<and> (row_ok v \<longrightarrow> row_ok (fst (f v)))" "enrich_row f rows = (rows', n)"
  shows "rows_le rows rows' \<and> (kb_inv rows \<longrightarrow> kb_inv rows')"
proof -
  have rows': "rows' = map (fst \<circ> f) rows" using assms(2) by (simp add: enrich_row_def)
  have ids: "map vr_external_id rows' = map vr_external_id rows"
    using assms(1) unfolding rows' by (simp add: row_le_def)
  have "rows_le rows rows'" using assms(1) unfolding rows_le_def rows' by (simp add: list_all2_map2 list_all2_same)
  moreover have "kb_inv rows \<longrightarrow> kb_inv rows'"
    using assms(1) unfolding kb_inv_def ids by (auto simp: rows' row_ok_def)
  ultimately show ?thesis by simp
qed

definition batch_inv :: "vuln_row list \<Rightarrow> batch \<Rightarrow> bool" where
  "batch_inv rows b \<longleftrightarrow> list_all2 row_le rows (bt_rows b) \<and> list_all row_ok (bt_rows b) \<and> list_all row_ok (bt_added b)"

lemma put_vuln_le:
  assumes "distinct (map vr_external_id rows)" "v \<in> set rows" "row_le v v'"
  shows "list_all2 row_le rows (put_vuln v' rows)"
proof -
  have "row_le x (if vr_external_id x = vr_external_id v' then v' else x)" if "x \<in> set rows" for x
  proof (cases "vr_external_id x = vr_external_id v'")
    case True
    then have "vr_external_id x = vr_external_id v" using assms(3) by (simp add: row_le_def)
    then have "x = v" using assms(1,2) that by (simp add: distinct_map inj_on_def)
    then show ?thesis using assms(3) True by simp
  qed simp
  then show ?thesis by (simp add: put_vuln_def list_all2_map2 list_all2_same)
qed

lemma row_le_ids: "list_all2 row_le xs ys \<Longrightarrow> map vr_external_id ys = map vr_external_id xs"
  by (induction rule: list_all2_induct) (auto simp: row_le_def)

lemma upsert_one_inv:
  assumes "batch_inv rows b" "distinct (map vr_external_id rows)"
  shows "batch_inv rows (upsert_one r b)"
proof (cases "nv_external_id r = [] \<or> find (\<lambda>v. vr_external_id v = nv_external_id r) (bt_rows b) = None")
  case True
  then show ?thesis
    using assms(1) by (auto simp: batch_inv_def upsert_one_def new_vulnerability_def row_ok_def)
next
  case False
  then obtain v where v: "find (\<lambda>v. vr_external_id v = nv_external_id r) (bt_rows b) = Some v" by auto
  note mem = find_SomeD [OF v]
  have rows: "list_all2 row_le rows (bt_rows b)" using assms(1) by (simp add: batch_inv_def)
  have "distinct (map vr_external_id (bt_rows b))" using assms(2) row_le_ids [OF rows] by simp
  from rows_trans [OF rows put_vuln_le [OF this conjunct1 [OF mem] merge_row_le [of v r]]]
  have "list_all2 row_le rows (put_vuln (fst (merge_vulnerability v r)) (bt_rows b))" .
  moreover have "list_all row_ok (put_vuln (fst (merge_vulnerability v r)) (bt_rows b))"
    using assms(1) mem by (auto simp: put_vuln_def batch_inv_def list_all_iff merge_row_ok)
  ultimately show ?thesis
    using assms(1) False v by (simp add: batch_inv_def upsert_one_def case_prod_beta)
qed

lemma upsert_inv:
  "batch_inv rows b \<Longrightarrow> distinct (map vr_external_id rows) \<Longrightarrow> batch_inv rows (fst (upsert_vulnerabilities fault rs b))"
  by (induction fault rs b rule: upsert_vulnerabilities.induct) (auto simp: upsert_one_inv split: option.splits)

lemma kb_step_learns:
  assumes "kb_step rows rows'" "kb_inv rows"
  shows "rows_le rows rows' \<and> kb_inv rows'"
  using assms
proof cases
  case (kb_kev ids n)
  then have "enrich_row (\<lambda>v. if vr_external_id v \<in> set ids \<and> \<not> vr_kev v then (v\<lparr>vr_kev := True\<rparr>, True) else (v, False)) rows = (rows', n)"
    by (auto simp: apply_kev_def split: if_splits)
  from enrich_rows [OF _ this] show ?thesis using assms(2) by (auto simp: row_le_kev row_ok_def)
next
  case (kb_kev_records records n)
  then have "enrich_row (\<lambda>v. case map_of (rev records) (vr_external_id v) of Some r \<Rightarrow> kev_row r v | None \<Rightarrow> (v, False)) rows = (rows', n)"
    by (auto simp: apply_kev_records_def split: if_splits)
  from enrich_rows [OF _ this] show ?thesis using assms(2) by (auto simp: row_le_kev_row row_ok_kev_row split: option.splits)
next
  case (kb_epss scores n)
  then have "enrich_row (\<lambda>v. case map_of (rev scores) (vr_external_id v) of
       Some s \<Rightarrow> if (case vr_epss_score v of None \<Rightarrow> True | Some x \<Rightarrow> \<bar>fl (x - s)\<bar> > fl (1 / 1000000000))
                 then (v\<lparr>vr_epss_score := Some s\<rparr>, True) else (v, False)
     | None \<Rightarrow> (v, False)) rows = (rows', n)"
    by (auto simp: apply_epss_def split: if_splits)
  from enrich_rows [OF _ this] show ?thesis using assms(2) by (auto simp: row_le_epss row_ok_def split: option.splits)
next
  case (kb_exploits ids exploits n)
  from enrich_rows [OF row_promoted kb_exploits [unfolded propagate_exploit_maturity_def Let_def]] assms(2)
  show ?thesis by blast
next
  case (kb_upsert fault records b err)
  have inv: "batch_inv rows b"
    using upsert_inv [of rows "\<lparr>bt_rows = rows, bt_added = [], bt_created = 0, bt_updated = 0\<rparr>" fault records] kb_upsert assms(2)
    by (auto simp: batch_inv_def kb_inv_def list_all2_same list_all_iff row_ok_def)
  have rows': "rows' = bt_rows b @ bt_added b" "distinct (map vr_external_id rows')"
    using kb_upsert by (auto simp: commit_vulns_def Let_def split: if_splits)
  have len: "length (bt_rows b) = length rows" using inv by (auto simp: batch_inv_def dest: list_all2_lengthD)
  show ?thesis using inv rows' unfolding rows_le_def kb_inv_def
    by (auto simp: batch_inv_def len list_all_iff row_ok_def)
qed

text \<open>C20: Whatever sequence of syncs and enrichments runs over the knowledge base, identifiers stay unique, no advisory is
  lost, one known to be exploited or used by ransomware stays so, exploit maturity never falls, an EPSS score is never
  dropped, and an advisory used by ransomware has the highest maturity.
\<close>

theorem knowledge_base_only_learns:
  assumes "kb_step\<^sup>*\<^sup>* rows rows'" "kb_inv rows"
  shows "kb_inv rows' \<and> rows_le rows rows'"
  using assms
proof (induction rule: rtranclp_induct)
  case base
  then show ?case by (simp add: rows_le_def list_all2_same)
next
  case (step ys zs)
  have learned: "rows_le ys zs" "kb_inv zs" using kb_step_learns step by blast+
  have le: "list_all2 row_le rows (take (length rows) ys)" "list_all2 row_le ys (take (length ys) zs)"
    using step learned by (simp_all add: rows_le_def)
  have "length rows \<le> length ys" using list_all2_lengthD [OF le(1)] by simp
  then have "list_all2 row_le (take (length rows) ys) (take (length rows) zs)"
    using list_all2_takeI [OF le(2), of "length rows"] by (simp add: min_def)
  then show ?case using learned rows_trans [OF le(1)] by (simp add: rows_le_def)
qed

lemma knowledge_base_only_learns_witness:
  "kb_inv [fst (kev_row True (new_vulnerability (sample_vuln ''CVE-1'' ''nvd'')))]"
proof -
  have "kb_step [new_vulnerability (sample_vuln ''CVE-1'' ''nvd'')] [fst (kev_row True (new_vulnerability (sample_vuln ''CVE-1'' ''nvd'')))]"
    by (rule kb_kev_records [where records = "[(''CVE-1'', True)]" and n = 1]) code_simp
  moreover have "kb_inv [new_vulnerability (sample_vuln ''CVE-1'' ''nvd'')]" by code_simp
  ultimately show ?thesis using knowledge_base_only_learns by blast
qed

subsection \<open>A completed run\<close>

definition batch_ids :: "batch \<Rightarrow> string list" where
  "batch_ids b = map vr_external_id (bt_rows b @ bt_added b)"

lemma upsert_one_ids:
  "set (batch_ids (upsert_one r b)) = set (batch_ids b) \<union> (if nv_external_id r = [] then {} else {nv_external_id r})"
proof (cases "find (\<lambda>v. vr_external_id v = nv_external_id r) (bt_rows b)")
  case None
  then show ?thesis by (auto simp: upsert_one_def batch_ids_def new_vulnerability_def)
next
  case (Some v)
  have same: "map vr_external_id (put_vuln (fst (merge_vulnerability v r)) (bt_rows b)) = map vr_external_id (bt_rows b)"
    by (simp add: put_vuln_def merge_fields)
  then have "batch_ids (upsert_one r b) = batch_ids b"
    using Some by (simp add: upsert_one_def batch_ids_def case_prod_beta)
  moreover have "nv_external_id r \<in> set (batch_ids b)" using find_SomeD [OF Some] by (force simp: batch_ids_def)
  ultimately show ?thesis by auto
qed

lemma upsert_ids:
  "upsert_vulnerabilities fault records b = (b', None) \<Longrightarrow>
     set (batch_ids b') = set (batch_ids b) \<union> {i. i \<noteq> [] \<and> i \<in> nv_external_id ` set records}"
proof (induction fault records b rule: upsert_vulnerabilities.induct)
  case (2 fault r rs b)
  then have "set (batch_ids b') = set (batch_ids (upsert_one r b)) \<union> {i. i \<noteq> [] \<and> i \<in> nv_external_id ` set rs}"
    by (simp split: option.splits)
  then show ?case unfolding upsert_one_ids by auto
qed simp

text \<open>C21: A run that completes has put every record of the feed that has an identifier into the knowledge base, has lost no
  advisory, keeps identifiers unique, resets the failure count and moves the watermark to the end of its window; a run
  that fails leaves the watermark where it was.
\<close>

theorem run_outcome:
  "case attempt r db of
     Inl _ \<Rightarrow> after_run r db = db
   | Inr (db', SyncCompleted seen created updated) \<Rightarrow>
       (\<exists>records. rn_fetch r (fst (window_for (state_of (rn_source r) db) (rn_now r))) (rn_now r) = Inr records \<and> seen = length records \<and>
          set (map vr_external_id (id_vulns db')) =
            set (map vr_external_id (id_vulns db)) \<union> {i. i \<noteq> [] \<and> i \<in> nv_external_id ` set records}) \<and>
       distinct (map vr_external_id (id_vulns db')) \<and>
       fs_watermark (state_of (rn_source r) db') = Some (rn_now r) \<and> fs_consecutive_failures (state_of (rn_source r) db') = 0
   | Inr (db', SyncFailed _ _) \<Rightarrow> fs_watermark (state_of (rn_source r) db') = fs_watermark (state_of (rn_source r) db)"
proof (cases "attempt r db")
  case (Inl e)
  then show ?thesis by (simp add: after_run_def)
next
  case (Inr p)
  obtain db' res where p: "p = (db', res)" by fastforce
  from Inr [unfolded p] show ?thesis
  proof (cases rule: run_source_cases)
    case (completed records b rows st)
    have rows: "rows = bt_rows b @ bt_added b" "distinct (map vr_external_id rows)"
      using completed(3) by (auto simp: commit_vulns_def Let_def split: if_splits)
    have "set (map vr_external_id rows) = set (map vr_external_id (id_vulns db)) \<union> {i. i \<noteq> [] \<and> i \<in> nv_external_id ` set records}"
      using upsert_ids [OF completed(2)] by (simp add: batch_ids_def rows(1))
    then show ?thesis using completed rows(2) by (simp add: Inr p state_of_put)
  next
    case (failed e n st)
    then show ?thesis by (simp add: Inr p state_of_put)
  qed
qed

text \<open>
  Two records of one batch with the same new identifier: the lookup of the second does not see the first, the unique index
  refuses the commit, and nothing of the run stays, its failure record included.
\<close>

lemma duplicate_in_batch_rolls_back:
  "map_sum id (\<lambda>_. ()) (attempt ((good_run 7)\<lparr>rn_fetch := (\<lambda>_ _. Inr [sample_vuln ''CVE-1'' ''nvd'', sample_vuln ''CVE-1'' ''nvd''])\<rparr>) empty_db)
     = Inl UniqueViolation"
  by code_simp

end
