(* ===== verification/Cvss.thy ===== *)
theory Cvss
  imports Binary64
begin

text \<open>
  \<open>guardian_core/cvss.py\<close>: the CVSS v3 base score of a vector, in binary64 arithmetic operation by operation.  Raising a
  float to the power 15 is the C library's, an argument of the definitions (\<open>pw\<close>); every other operation is \<open>fl\<close> of
  the exact one.
\<close>

subsection \<open>Metrics\<close>

definition AV_WEIGHT :: "(string \<times> rat) list" where
  "AV_WEIGHT = [(''N'', fl (17 / 20)), (''A'', fl (31 / 50)), (''L'', fl (11 / 20)), (''P'', fl (1 / 5))]"

definition AC_WEIGHT :: "(string \<times> rat) list" where
  "AC_WEIGHT = [(''L'', fl (77 / 100)), (''H'', fl (11 / 25))]"

definition PR_UNCHANGED :: "(string \<times> rat) list" where
  "PR_UNCHANGED = [(''N'', fl (17 / 20)), (''L'', fl (31 / 50)), (''H'', fl (27 / 100))]"

definition PR_CHANGED :: "(string \<times> rat) list" where
  "PR_CHANGED = [(''N'', fl (17 / 20)), (''L'', fl (17 / 25)), (''H'', fl (1 / 2))]"

definition UI_WEIGHT :: "(string \<times> rat) list" where
  "UI_WEIGHT = [(''N'', fl (17 / 20)), (''R'', fl (31 / 50))]"

definition CIA_WEIGHT :: "(string \<times> rat) list" where
  "CIA_WEIGHT = [(''H'', fl (14 / 25)), (''L'', fl (11 / 50)), (''N'', 0)]"

definition metric_part :: "string \<Rightarrow> (string, string) odict \<Rightarrow> (string, string) odict" where
  "metric_part part metrics = (case partition_on CHR '':'' part of (key, sep, value) \<Rightarrow>
     if sep \<and> key \<noteq> [] \<and> value \<noteq> [] then dict_set (py_upper key) (py_upper value) metrics else metrics)"

definition parse_vector :: "string \<Rightarrow> (string, string) odict" where
  "parse_vector vector = fold metric_part (split_on CHR ''/'' (py_strip vector)) []"

subsection \<open>Score\<close>

definition roundup :: "rat \<Rightarrow> rat" where
  "roundup value = (let integer = rhe (fl (value * 100000)) in
     if integer mod 10000 = 0 then fl (of_int integer / 100000)
     else fl (of_int (\<lfloor>fl (of_int integer / 10000)\<rfloor> + 1) / 10))"

text \<open>The weights of a vector: whether the scope changes, and \<open>av, ac, pr, ui, conf, integ, avail\<close>.\<close>

record weights =
  changed :: bool
  w_av :: rat
  w_ac :: rat
  w_pr :: rat
  w_ui :: rat
  w_conf :: rat
  w_integ :: rat
  w_avail :: rat

definition metric_weight :: "(string \<times> rat) list \<Rightarrow> (string, string) odict \<Rightarrow> string \<Rightarrow> rat option" where
  "metric_weight table metrics key = Option.bind (dict_get metrics key) (dict_get table)"

definition required_metrics :: "string list" where
  "required_metrics = [''AV'', ''AC'', ''PR'', ''UI'', ''S'', ''C'', ''I'', ''A'']"

definition weights_of :: "(string, string) odict \<Rightarrow> weights option" where
  "weights_of metrics =
     (let version = dict_getdef metrics ''CVSS'' []; scope_changed = (dict_get metrics ''S'' = Some ''C'') in
      if version \<noteq> [] \<and> \<not> startswith version ''3'' then None
      else if \<not> list_all (\<lambda>k. dict_get metrics k \<noteq> None) required_metrics then None
      else case (metric_weight AV_WEIGHT metrics ''AV'', metric_weight AC_WEIGHT metrics ''AC'',
                 metric_weight (if scope_changed then PR_CHANGED else PR_UNCHANGED) metrics ''PR'',
                 metric_weight UI_WEIGHT metrics ''UI'', metric_weight CIA_WEIGHT metrics ''C'',
                 metric_weight CIA_WEIGHT metrics ''I'', metric_weight CIA_WEIGHT metrics ''A'') of
          (Some av, Some ac, Some pr, Some ui, Some c, Some i, Some a) \<Rightarrow>
            Some \<lparr>changed = scope_changed, w_av = av, w_ac = ac, w_pr = pr, w_ui = ui, w_conf = c, w_integ = i, w_avail = a\<rparr>
        | _ \<Rightarrow> None)"

definition impact_sub_score :: "weights \<Rightarrow> rat" where
  "impact_sub_score w = fl (1 - fl (fl (fl (1 - w_conf w) * fl (1 - w_integ w)) * fl (1 - w_avail w)))"

definition impact_of :: "(rat \<Rightarrow> nat \<Rightarrow> rat) \<Rightarrow> weights \<Rightarrow> rat" where
  "impact_of pw w = (let iss = impact_sub_score w in
     if changed w
     then fl (fl (fl (188 / 25) * fl (iss - fl (29 / 1000))) - fl (fl (13 / 4) * pw (fl (iss - fl (1 / 50))) 15))
     else fl (fl (321 / 50) * iss))"

definition exploitability :: "weights \<Rightarrow> rat" where
  "exploitability w = fl (fl (fl (fl (fl (411 / 50) * w_av w) * w_ac w) * w_pr w) * w_ui w)"

definition score_of_weights :: "(rat \<Rightarrow> nat \<Rightarrow> rat) \<Rightarrow> weights \<Rightarrow> rat" where
  "score_of_weights pw w =
     (let impact = impact_of pw w; combined = fl (impact + exploitability w) in
      if impact \<le> 0 then 0
      else roundup (min (if changed w then fl (combined * fl (27 / 25)) else combined) 10))"

definition base_score :: "(rat \<Rightarrow> nat \<Rightarrow> rat) \<Rightarrow> string \<Rightarrow> rat option" where
  "base_score pw vector = map_option (score_of_weights pw) (weights_of (parse_vector vector))"

definition BANDS :: "(rat \<times> string) list" where
  "BANDS = [(9, ''critical''), (7, ''high''), (4, ''medium''), (fl (1 / 10), ''low'')]"

definition severity_label :: "rat option \<Rightarrow> string option" where
  "severity_label score = (case score of None \<Rightarrow> None
     | Some s \<Rightarrow> Some (case find (\<lambda>p. s \<ge> fst p) BANDS of Some p \<Rightarrow> snd p | None \<Rightarrow> ''none''))"

section \<open>Facts\<close>

subsection \<open>Rounding up to a tenth\<close>

lemma floor_fl_div:
  assumes "0 \<le> n" "n \<le> 1000000"
  shows "\<lfloor>fl (of_int n / 10000)\<rfloor> = n div 10000"
proof -
  define q where "q = n div 10000"
  define r where "r = n mod 10000"
  have n: "n = 10000 * q + r" and r: "0 \<le> r" "r < 10000" by (simp_all add: q_def r_def)
  have q: "0 \<le> q" "q \<le> 100" using assms by (simp_all add: q_def) 
  have "(0::rat) \<le> of_int n" "(of_int n::rat) \<le> of_int 1000000" using assms unfolding of_int_le_iff by simp_all
  then have x: "(0::rat) \<le> of_int n / 10000" "(of_int n::rat) / 10000 < pow2 7" by (simp_all add: pow2_def)
  have err: "\<bar>fl (of_int n / 10000) - of_int n / 10000\<bar> \<le> pow2 (7 - 53)"
    by (rule fl_error [OF x]) simp
  have "(pow2 (7 - 53) :: rat) < 1 / 10000" by (simp add: pow2_def)
  moreover have "(of_int n :: rat) / 10000 = of_int q + of_int r / 10000" by (simp add: n field_simps)
  moreover have "(of_int r :: rat) \<le> 9999" using r(2) of_int_le_iff [of r 9999, where 'a = rat] by simp
  ultimately have "fl (of_int n / 10000) < of_int q + 1" using err by (simp add: abs_le_iff field_simps)
  moreover have "of_int q \<le> fl (of_int n / 10000)"
    using q r by (intro fl_ge_int) (simp_all add: n field_simps)
  ultimately show ?thesis unfolding q_def [symmetric] by (simp add: floor_eq_iff)
qed

definition tenths :: "rat \<Rightarrow> int" where
  "tenths x = (rhe (fl (x * 100000)) + 9999) div 10000"

lemma roundup_tenths:
  assumes "0 \<le> x" "x \<le> 10"
  shows "roundup x = fl (of_int (tenths x) / 10) \<and> 0 \<le> tenths x \<and> tenths x \<le> 100"
proof -
  define n where "n = rhe (fl (x * 100000))"
  have "x * 100000 \<le> of_int 1000000" using assms(2) by simp
  then have "fl (x * 100000) \<le> of_int 1000000" by (rule fl_le_int) simp
  then have "n \<le> 1000000" unfolding n_def by (rule rhe_le)
  moreover have "0 \<le> n" unfolding n_def using assms(1) by (intro rhe_nonneg fl_nonneg) simp
  ultimately have n: "0 \<le> n" "n \<le> 1000000" by simp_all
  show ?thesis
  proof (cases "n mod 10000 = 0")
    case True
    then obtain k where k: "n = 10000 * k" by fastforce
    have "(of_int (10000 * k) :: rat) / 100000 = of_int k / 10" by simp
    then show ?thesis using True n k by (simp add: roundup_def tenths_def n_def [symmetric])
  next
    case False
    then have r: "0 < n mod 10000" "n mod 10000 < 10000"
      using pos_mod_bound [of 10000 n] pos_mod_sign [of 10000 n] by linarith+
    have "n + 9999 = (n mod 10000 + 9999) + n div 10000 * 10000" using mod_mult_div_eq [of n 10000] by linarith
    then have "(n + 9999) div 10000 = n div 10000 + (n mod 10000 + 9999) div 10000" by (metis div_mult_self1 zero_neq_numeral add.commute)
    moreover have "(n mod 10000 + 9999) div 10000 = 1" using r by (intro int_div_pos_eq [where r = "n mod 10000 - 1"]) simp_all
    ultimately have "(n + 9999) div 10000 = n div 10000 + 1" by simp
    then show ?thesis
      using False n by (simp add: roundup_def tenths_def n_def [symmetric] floor_fl_div Let_def)
  qed
qed

lemma tenths_mono: "x \<le> y \<Longrightarrow> tenths x \<le> tenths y"
  unfolding tenths_def by (intro zdiv_mono1 add_right_mono rhe_mono fl_mono) simp_all

lemma roundup_mono: "0 \<le> x \<Longrightarrow> x \<le> y \<Longrightarrow> y \<le> 10 \<Longrightarrow> roundup x \<le> roundup y"
  using roundup_tenths [of x] roundup_tenths [of y] tenths_mono [of x y] by (auto intro!: fl_mono)
subsection \<open>Scores\<close>

lemma table_nonneg: "list_all (\<lambda>p. 0 \<le> snd p \<and> snd p \<le> (1::rat)) table \<Longrightarrow> metric_weight table m k = Some w \<Longrightarrow> 0 \<le> w \<and> w \<le> 1"
  by (cases "dict_get m k") (fastforce simp: metric_weight_def list_all_iff dest: map_of_SomeD)+

lemma tables_in_unit:
  "list_all (\<lambda>p. 0 \<le> snd p \<and> snd p \<le> 1) AV_WEIGHT" "list_all (\<lambda>p. 0 \<le> snd p \<and> snd p \<le> 1) AC_WEIGHT"
  "list_all (\<lambda>p. 0 \<le> snd p \<and> snd p \<le> 1) PR_CHANGED" "list_all (\<lambda>p. 0 \<le> snd p \<and> snd p \<le> 1) PR_UNCHANGED"
  "list_all (\<lambda>p. 0 \<le> snd p \<and> snd p \<le> 1) UI_WEIGHT" "list_all (\<lambda>p. 0 \<le> snd p \<and> snd p \<le> 1) CIA_WEIGHT"
  by (simp_all add: AV_WEIGHT_def AC_WEIGHT_def PR_CHANGED_def PR_UNCHANGED_def UI_WEIGHT_def CIA_WEIGHT_def fl_nonneg fl_le_1)

definition in_unit :: "weights \<Rightarrow> bool" where
  "in_unit w \<longleftrightarrow> list_all (\<lambda>x. 0 \<le> x \<and> x \<le> 1) [w_av w, w_ac w, w_pr w, w_ui w, w_conf w, w_integ w, w_avail w]"

lemma weights_in_unit: "weights_of m = Some w \<Longrightarrow> in_unit w"
  by (auto simp: weights_of_def Let_def in_unit_def split: if_splits option.splits prod.splits
      dest!: table_nonneg [OF tables_in_unit(1)] table_nonneg [OF tables_in_unit(2)] table_nonneg [OF tables_in_unit(3)]
        table_nonneg [OF tables_in_unit(4)] table_nonneg [OF tables_in_unit(5)] table_nonneg [OF tables_in_unit(6)])

lemma fl_times_mono: "0 \<le> a \<Longrightarrow> a \<le> b \<Longrightarrow> 0 \<le> c \<Longrightarrow> c \<le> d \<Longrightarrow> fl (a * c) \<le> fl (b * d)"
  by (intro fl_mono mult_mono) auto

lemma fl_times_nonneg: "0 \<le> a \<Longrightarrow> 0 \<le> c \<Longrightarrow> 0 \<le> fl (a * c)"
  by (intro fl_nonneg) simp

lemma exploitability_nonneg: "in_unit w \<Longrightarrow> 0 \<le> exploitability w"
  unfolding exploitability_def in_unit_def by (intro fl_times_nonneg fl_nonneg) simp_all

lemma score_of_weights_tenths:
  assumes "in_unit w"
  shows "\<exists>n. 0 \<le> n \<and> n \<le> 100 \<and> score_of_weights pw w = fl (of_int n / 10)"
proof (cases "impact_of pw w \<le> 0")
  case True
  then show ?thesis by (intro exI [of _ 0]) (simp add: score_of_weights_def)
next
  case False
  define c where "c = fl (impact_of pw w + exploitability w)"
  have c: "0 \<le> c" using False exploitability_nonneg [OF assms] by (auto simp: c_def intro!: fl_nonneg)
  define x where "x = min (if changed w then fl (c * fl (27 / 25)) else c) 10"
  have "0 \<le> x" "x \<le> 10" using c by (auto simp: x_def intro!: fl_nonneg mult_nonneg_nonneg)
  moreover have "score_of_weights pw w = roundup x" using False by (simp add: score_of_weights_def Let_def c_def x_def)
  ultimately show ?thesis using roundup_tenths by metis
qed

definition band_of_tenths :: "int \<Rightarrow> string" where
  "band_of_tenths n = (if n \<ge> 90 then ''critical'' else if n \<ge> 70 then ''high'' else if n \<ge> 40 then ''medium''
     else if n \<ge> 1 then ''low'' else ''none'')"

lemma fl_tenth_less:
  assumes "1 \<le> k" "k \<le> 100"
  shows "fl (of_int (k - 1) / 10) < fl (of_int k / 10)"
proof -
  have k: "(1 :: rat) \<le> of_int k" "(of_int k :: rat) \<le> 100"
    using assms of_int_le_iff [of 1 k, where 'a = rat] of_int_le_iff [of k 100, where 'a = rat] by simp_all
  have "\<bar>fl (of_int (k - 1) / 10) - of_int (k - 1) / 10\<bar> \<le> pow2 (7 - 53)" "\<bar>fl (of_int k / 10) - of_int k / 10\<bar> \<le> pow2 (7 - 53)"
    using k by (intro fl_error; simp add: pow2_def)+
  moreover have "(pow2 (7 - 53) :: rat) \<le> 1 / 1000" by (simp add: pow2_def)
  ultimately show ?thesis by (simp add: abs_le_iff diff_divide_distrib)
qed

lemma fl_tenth_ge: "0 \<le> k \<Longrightarrow> fl (of_int (k - 1) / 10) < fl (of_int k / 10) \<Longrightarrow> fl (of_int k / 10) \<le> fl (of_int n / 10) \<longleftrightarrow> k \<le> n"
proof
  assume lt: "fl (of_int (k - 1) / 10) < fl (of_int k / (10 :: rat))" and le: "fl (of_int k / 10) \<le> fl (of_int n / (10 :: rat))"
  show "k \<le> n"
  proof (rule ccontr)
    assume "\<not> k \<le> n"
    then have "(of_int n :: rat) \<le> of_int (k - 1)" unfolding of_int_le_iff by simp
    then have "fl (of_int n / 10) \<le> fl (of_int (k - 1) / (10 :: rat))" by (intro fl_mono divide_right_mono) simp_all
    with lt le show False by simp
  qed
next
  assume "k \<le> n"
  then show "fl (of_int k / 10) \<le> fl (of_int n / (10 :: rat))" by (intro fl_mono divide_right_mono) simp_all
qed

lemma band_thresholds:
  "(9 :: rat) \<le> fl (of_int n / 10) \<longleftrightarrow> 90 \<le> n" "(7 :: rat) \<le> fl (of_int n / 10) \<longleftrightarrow> 70 \<le> n"
  "(4 :: rat) \<le> fl (of_int n / 10) \<longleftrightarrow> 40 \<le> n" "fl (1 / 10) \<le> fl (of_int n / 10) \<longleftrightarrow> 1 \<le> n"
proof -
  have f: "fl (of_int 90 / 10) = 9" "fl (of_int 70 / 10) = 7" "fl (of_int 40 / 10) = 4"
    using fl_of_int [of 9] fl_of_int [of 7] fl_of_int [of 4] by simp_all
  have lt: "fl (of_int (90 - 1) / 10) < fl (of_int 90 / 10)" "fl (of_int (70 - 1) / 10) < fl (of_int 70 / 10)"
    "fl (of_int (40 - 1) / 10) < fl (of_int 40 / 10)" "fl (of_int (1 - 1) / 10) < fl (of_int 1 / 10)"
    by (rule fl_tenth_less; simp)+
  show "(9 :: rat) \<le> fl (of_int n / 10) \<longleftrightarrow> 90 \<le> n" using fl_tenth_ge [OF _ lt(1), of n] unfolding f by simp
  show "(7 :: rat) \<le> fl (of_int n / 10) \<longleftrightarrow> 70 \<le> n" using fl_tenth_ge [OF _ lt(2), of n] unfolding f by simp
  show "(4 :: rat) \<le> fl (of_int n / 10) \<longleftrightarrow> 40 \<le> n" using fl_tenth_ge [OF _ lt(3), of n] unfolding f by simp
  show "fl (1 / 10) \<le> fl (of_int n / 10) \<longleftrightarrow> 1 \<le> n" using fl_tenth_ge [OF _ lt(4), of n] by simp
qed

lemma label_of_tenths: "severity_label (Some (fl (of_int n / 10))) = Some (band_of_tenths n)"
  by (simp add: severity_label_def BANDS_def band_of_tenths_def band_thresholds)

text \<open>C22: A base score, when there is one, is the float nearest to a whole number of tenths between 0.0 and 10.0, and its
  qualitative band is the one of the specification: none at 0.0, low to 3.9, medium to 6.9, high to 8.9, critical above.
\<close>

theorem base_score_tenths:
  assumes "base_score pw vector = Some s"
  shows "\<exists>n. 0 \<le> n \<and> n \<le> 100 \<and> s = fl (of_int n / 10) \<and> severity_label (Some s) = Some (band_of_tenths n)"
proof -
  obtain w where w: "weights_of (parse_vector vector) = Some w" "s = score_of_weights pw w"
    using assms by (auto simp: base_score_def)
  from score_of_weights_tenths [OF weights_in_unit [OF w(1)], of pw] show ?thesis
    by (auto simp: w(2) label_of_tenths)
qed

definition worst_vector :: string where "worst_vector = ''CVSS:3.1/AV:N/AC:L/PR:N/UI:N/S:U/C:H/I:H/A:H''"

lemma parse_worst:
  "parse_vector worst_vector = [(''CVSS'', ''3.1''), (''AV'', ''N''), (''AC'', ''L''), (''PR'', ''N''), (''UI'', ''N''), (''S'', ''U''),
     (''C'', ''H''), (''I'', ''H''), (''A'', ''H'')]"
  by code_simp

lemmas metric_tables = AV_WEIGHT_def AC_WEIGHT_def PR_CHANGED_def PR_UNCHANGED_def UI_WEIGHT_def CIA_WEIGHT_def
  metric_weight_def weights_of_def required_metrics_def dict_getdef_def startswith_def

lemma weights_worst:
  "weights_of (parse_vector worst_vector) = Some \<lparr>changed = False, w_av = fl (17 / 20), w_ac = fl (77 / 100), w_pr = fl (17 / 20),
     w_ui = fl (17 / 20), w_conf = fl (14 / 25), w_integ = fl (14 / 25), w_avail = fl (14 / 25)\<rparr>"
  unfolding parse_worst by (simp add: metric_tables)

lemma base_score_tenths_witness:
  "\<exists>n s. 0 \<le> n \<and> n \<le> 100 \<and> base_score (\<lambda>x n. fl (x ^ n)) worst_vector = Some s \<and> s = fl (of_int n / 10) \<and>
     severity_label (Some s) = Some (band_of_tenths n)"
proof -
  have "base_score (\<lambda>x n. fl (x ^ n)) worst_vector = Some (the (base_score (\<lambda>x n. fl (x ^ n)) worst_vector))"
    by (simp add: base_score_def weights_worst)
  with base_score_tenths [OF this] show ?thesis by blast
qed

definition at_least_as_bad :: "weights \<Rightarrow> weights \<Rightarrow> bool" where
  "at_least_as_bad w w' \<longleftrightarrow> w_av w \<le> w_av w' \<and> w_ac w \<le> w_ac w' \<and> w_pr w \<le> w_pr w' \<and> w_ui w \<le> w_ui w' \<and>
     w_conf w \<le> w_conf w' \<and> w_integ w \<le> w_integ w' \<and> w_avail w \<le> w_avail w'"

lemma exploitability_mono:
  "in_unit w \<Longrightarrow> at_least_as_bad w w' \<Longrightarrow> exploitability w \<le> exploitability w'"
  unfolding exploitability_def in_unit_def at_least_as_bad_def
  by (intro fl_times_mono fl_times_nonneg fl_nonneg) simp_all

lemma impact_sub_score_mono:
  assumes "in_unit w" "in_unit w'" "at_least_as_bad w w'"
  shows "impact_sub_score w \<le> impact_sub_score w'"
proof -
  have "fl (fl (fl (1 - w_conf w') * fl (1 - w_integ w')) * fl (1 - w_avail w')) \<le>
      fl (fl (fl (1 - w_conf w) * fl (1 - w_integ w)) * fl (1 - w_avail w))"
    using assms unfolding in_unit_def at_least_as_bad_def by (intro fl_times_mono fl_times_nonneg fl_nonneg fl_mono) simp_all
  then show ?thesis unfolding impact_sub_score_def by (intro fl_mono) simp
qed

lemma score_mono:
  assumes "in_unit w" "in_unit w'" "at_least_as_bad w w'" "\<not> changed w" "\<not> changed w'"
  shows "score_of_weights pw w \<le> score_of_weights pw w'"
proof -
  have imp: "impact_of pw w \<le> impact_of pw w'"
    using impact_sub_score_mono [OF assms(1-3)] fl_nonneg [of "321 / 50"] assms(4,5)
    by (auto simp: impact_of_def Let_def intro!: fl_mono mult_left_mono)
  have exp: "exploitability w \<le> exploitability w'" using exploitability_mono assms by blast
  show ?thesis
  proof (cases "impact_of pw w \<le> 0")
    case True
    obtain n :: int where "0 \<le> n" "score_of_weights pw w' = fl (of_int n / 10)"
      using score_of_weights_tenths [OF assms(2)] by blast
    then have "0 \<le> score_of_weights pw w'" by (simp add: fl_nonneg)
    then show ?thesis using True by (simp add: score_of_weights_def)
  next
    case False
    define x where "x = min (fl (impact_of pw w + exploitability w)) 10"
    define y where "y = min (fl (impact_of pw w' + exploitability w')) 10"
    have "fl (impact_of pw w + exploitability w) \<le> fl (impact_of pw w' + exploitability w')"
      using imp exp by (intro fl_mono add_mono)
    then have "x \<le> y" "y \<le> 10" by (auto simp: x_def y_def)
    moreover have "0 \<le> x" using False exploitability_nonneg [OF assms(1)] by (auto simp: x_def intro!: fl_nonneg)
    ultimately have "roundup x \<le> roundup y" using roundup_mono by blast
    then show ?thesis using False imp assms(4,5) by (simp add: score_of_weights_def x_def y_def Let_def)
  qed
qed

text \<open>With the scope unchanged, a vector that is at least as bad in every metric never scores lower.
\<close>

theorem worse_vector_scores_no_lower:
  assumes "weights_of (parse_vector v) = Some w" "weights_of (parse_vector v') = Some w'"
    and "\<not> changed w" "\<not> changed w'" "at_least_as_bad w w'"
    and "base_score pw v = Some s" "base_score pw v' = Some s'"
  shows "s \<le> s'"
  using assms score_mono [OF weights_in_unit [OF assms(1)] weights_in_unit [OF assms(2)]] by (auto simp: base_score_def)

definition mild_vector :: string where "mild_vector = ''AV:L/AC:H/PR:L/UI:R/S:U/C:L/I:N/A:N''"

lemma parse_mild:
  "parse_vector mild_vector = [(''AV'', ''L''), (''AC'', ''H''), (''PR'', ''L''), (''UI'', ''R''), (''S'', ''U''),
     (''C'', ''L''), (''I'', ''N''), (''A'', ''N'')]"
  by code_simp

lemma weights_mild:
  "weights_of (parse_vector mild_vector) = Some \<lparr>changed = False, w_av = fl (11 / 20), w_ac = fl (11 / 25), w_pr = fl (31 / 50),
     w_ui = fl (31 / 50), w_conf = fl (11 / 50), w_integ = 0, w_avail = 0\<rparr>"
  unfolding parse_mild by (simp add: metric_tables)

lemma worse_vector_scores_no_lower_witness:
  "the (base_score (\<lambda>x n. fl (x ^ n)) mild_vector) \<le> the (base_score (\<lambda>x n. fl (x ^ n)) worst_vector)"
  by (rule worse_vector_scores_no_lower [OF weights_mild weights_worst])
    (auto simp: at_least_as_bad_def base_score_def weights_mild weights_worst intro!: fl_mono fl_nonneg)

end
