(* ===== verification/VulnMatch.thy ===== *)
theory VulnMatch
  imports VersionRange VulnIntel Cvss Enums
begin

text \<open>
  \<open>guardian_scanner/vuln_match.py\<close> and \<open>cpe_match.py\<close>: the advisories that apply to a dependency or to a running
  service.  The knowledge base is a list of rows; a query to OSV is an argument that answers records or fails.
\<close>

subsection \<open>Matches\<close>

record vuln_match =
  vm_external_id :: string
  vm_summary :: string
  vm_severity :: severity
  vm_cvss_base :: "rat option"
  vm_epss_score :: "rat option"
  vm_kev :: bool
  vm_malicious :: bool
  vm_exploit_maturity :: "string option"
  vm_ransomware :: bool
  vm_cwe_ids :: "string list"
  vm_references :: "jval list"

definition severity_from_cvss :: "rat option \<Rightarrow> severity" where
  "severity_from_cvss cvss = (case cvss of None \<Rightarrow> SevMedium
     | Some c \<Rightarrow> if c \<ge> 9 then SevCritical else if c \<ge> 7 then SevHigh else if c \<ge> 4 then SevMedium else SevLow)"

definition is_malicious :: "string \<Rightarrow> bool" where
  "is_malicious external_id \<longleftrightarrow> external_id \<noteq> [] \<and> startswith (py_upper external_id) ''MAL-''"

subsection \<open>The knowledge base\<close>

text \<open>JSONB containment: some element of the array is an object with these two members.\<close>

definition names_both :: "string \<Rightarrow> string \<Rightarrow> string \<Rightarrow> string \<Rightarrow> jval \<Rightarrow> bool" where
  "names_both k1 v1 k2 v2 e = (case e of JObj d \<Rightarrow> dict_get d k1 = Some (JStr v1) \<and> dict_get d k2 = Some (JStr v2) | _ \<Rightarrow> False)"

definition lower_member :: "jobj \<Rightarrow> string \<Rightarrow> string" where
  "lower_member d k = (case dict_get d k of Some (JStr s) \<Rightarrow> py_lower s | _ \<Rightarrow> [])"

definition affected_here :: "string \<Rightarrow> string \<Rightarrow> string \<Rightarrow> jval \<Rightarrow> bool" where
  "affected_here name_l eco_l version e = (case e of
     JObj d \<Rightarrow> lower_member d ''package'' = name_l \<and> lower_member d ''ecosystem'' = eco_l \<and> version_affected d version None
   | _ \<Rightarrow> False)"

definition kb_vuln_match :: "vuln_row \<Rightarrow> vuln_match" where
  "kb_vuln_match v = \<lparr>vm_external_id = vr_external_id v, vm_summary = vr_summary v, vm_severity = severity_from_cvss (map_option fl (vr_cvss_base v)),
     vm_cvss_base = map_option fl (vr_cvss_base v), vm_epss_score = map_option fl (vr_epss_score v), vm_kev = vr_kev v,
     vm_malicious = is_malicious (vr_external_id v),
     vm_exploit_maturity = vr_exploit_maturity v, vm_ransomware = vr_ransomware v, vm_cwe_ids = vr_cwe_ids v,
     vm_references = vr_references v\<rparr>"

definition kb_match :: "vuln_row list \<Rightarrow> string \<Rightarrow> string \<Rightarrow> string \<Rightarrow> vuln_match list" where
  "kb_match rows name version ecosystem =
     (let name_l = py_lower name; eco_l = py_lower ecosystem;
          candidates = filter (\<lambda>v. list_ex (names_both ''package'' name_l ''ecosystem'' eco_l) (vr_affected v)) rows
      in map kb_vuln_match (filter (\<lambda>v. list_ex (affected_here name_l eco_l version) (vr_affected v)) candidates))"

subsection \<open>A live feed\<close>

definition osv_vuln_match :: "(rat \<Rightarrow> nat \<Rightarrow> rat) \<Rightarrow> normalized_vuln \<Rightarrow> vuln_match" where
  "osv_vuln_match pw nv =
     (let base = (case nv_cvss_base nv of Some b \<Rightarrow> Some b
                  | None \<Rightarrow> base_score pw (case nv_cvss_vector nv of Some v \<Rightarrow> v | None \<Rightarrow> []))
      in \<lparr>vm_external_id = nv_external_id nv, vm_summary = (if nv_summary nv \<noteq> [] then nv_summary nv else take 300 (nv_details nv)),
          vm_severity = severity_from_cvss base, vm_cvss_base = base, vm_epss_score = nv_epss_score nv, vm_kev = nv_kev nv,
          vm_malicious = is_malicious (nv_external_id nv), vm_exploit_maturity = None, vm_ransomware = False,
          vm_cwe_ids = nv_cwe_ids nv, vm_references = nv_references nv\<rparr>)"

definition osv_match ::
    "(rat \<Rightarrow> nat \<Rightarrow> rat) \<Rightarrow> (string \<Rightarrow> string \<Rightarrow> string \<Rightarrow> string + normalized_vuln list) \<Rightarrow> string \<Rightarrow> string \<Rightarrow> string \<Rightarrow> vuln_match list" where
  "osv_match pw query name version ecosystem =
     (case query name version ecosystem of Inl _ \<Rightarrow> [] | Inr found \<Rightarrow> map (osv_vuln_match pw) found)"

subsection \<open>Several sources\<close>

definition stronger_maturity :: "string option \<Rightarrow> string option \<Rightarrow> string option" where
  "stronger_maturity a b = (case a of None \<Rightarrow> b | Some x \<Rightarrow> (case b of None \<Rightarrow> a
     | Some y \<Rightarrow> if maturity_rank x \<ge> maturity_rank y then a else b))"

definition first_some :: "'a option \<Rightarrow> 'a option \<Rightarrow> 'a option" where
  "first_some a b = (if a \<noteq> None then a else b)"

definition hashable :: "jval \<Rightarrow> bool" where
  "hashable v = (case v of JObj _ \<Rightarrow> False | JList _ \<Rightarrow> False | _ \<Rightarrow> True)"

text \<open>\<open>list(dict.fromkeys(xs))\<close>.\<close>

definition from_keys :: "'a list \<Rightarrow> 'a list" where
  "from_keys xs = fold (\<lambda>x acc. if x \<in> set acc then acc else acc @ [x]) xs []"

definition merge_match :: "vuln_match \<Rightarrow> vuln_match \<Rightarrow> py_error + vuln_match" where
  "merge_match a b =
     (let cvss = (case (vm_cvss_base a, vm_cvss_base b) of (Some x, Some y) \<Rightarrow> Some (max x y) | (x, y) \<Rightarrow> first_some x y)
      in if \<not> list_all hashable (vm_references a @ vm_references b) then Inl TypeError
         else Inr \<lparr>vm_external_id = vm_external_id a, vm_summary = (if vm_summary a \<noteq> [] then vm_summary a else vm_summary b),
                vm_severity = (if cvss \<noteq> None then severity_from_cvss cvss else vm_severity a), vm_cvss_base = cvss,
                vm_epss_score = first_some (vm_epss_score a) (vm_epss_score b), vm_kev = (vm_kev a \<or> vm_kev b),
                vm_malicious = (vm_malicious a \<or> vm_malicious b),
                vm_exploit_maturity = stronger_maturity (vm_exploit_maturity a) (vm_exploit_maturity b),
                vm_ransomware = (vm_ransomware a \<or> vm_ransomware b),
                vm_cwe_ids = sorted_list_of_set (set (vm_cwe_ids a) \<union> set (vm_cwe_ids b)),
                vm_references = from_keys (vm_references a @ vm_references b)\<rparr>)"

definition merge_found :: "vuln_match \<Rightarrow> (string, vuln_match) odict \<Rightarrow> py_error + (string, vuln_match) odict" where
  "merge_found found merged =
     (let key = py_upper (vm_external_id found) in
      if key = [] then Inr merged
      else case dict_get merged key of
          None \<Rightarrow> Inr (dict_set key found merged)
        | Some existing \<Rightarrow> bind_r (merge_match existing found) (\<lambda>m. Inr (dict_set key m merged)))"

fun merge_all :: "vuln_match list \<Rightarrow> (string, vuln_match) odict \<Rightarrow> py_error + (string, vuln_match) odict" where
  "merge_all [] merged = Inr merged"
| "merge_all (f # fs) merged = bind_r (merge_found f merged) (merge_all fs)"

definition composite_match :: "(string \<Rightarrow> string \<Rightarrow> string \<Rightarrow> vuln_match list) list \<Rightarrow> string \<Rightarrow> string \<Rightarrow> string \<Rightarrow> py_error + vuln_match list" where
  "composite_match matchers name version ecosystem =
     map_sum id (map snd) (merge_all (concat (map (\<lambda>m. m name version ecosystem) matchers)) [])"

subsection \<open>Services\<close>

definition MAX_CANDIDATES :: nat where "MAX_CANDIDATES = 500"

record service_identity =
  si_vendor :: string
  si_product :: string
  si_version :: string

definition identified :: "service_identity \<Rightarrow> bool" where
  "identified i \<longleftrightarrow> si_vendor i \<noteq> [] \<and> si_product i \<noteq> []"

definition parse_cpe :: "string \<Rightarrow> service_identity option" where
  "parse_cpe cpe =
     (let parts = split_on CHR '':'' cpe in
      if length parts < 6 \<or> parts ! 0 \<noteq> ''cpe'' \<or> parts ! 1 \<noteq> ''2.3'' then None
      else Some \<lparr>si_vendor = py_lower (parts ! 3), si_product = py_lower (parts ! 4),
                 si_version = (if parts ! 5 \<in> {''*'', ''-'', []} then [] else parts ! 5)\<rparr>)"

definition exact_version :: "jobj \<Rightarrow> string option" where
  "exact_version row = (let exact = py_str (jor (jget row ''version'') (JStr [])) in
     if exact \<noteq> [] \<and> exact \<notin> {''*'', ''-''} then Some exact else None)"

definition cpe_bounds :: "(string \<times> (int \<Rightarrow> bool)) list" where
  "cpe_bounds = [(''version_start_including'', \<lambda>c. c < 0), (''version_start_excluding'', \<lambda>c. c \<le> 0),
                 (''version_end_including'', \<lambda>c. c > 0), (''version_end_excluding'', \<lambda>c. c \<ge> 0)]"

definition cpe_applies :: "jobj \<Rightarrow> string \<Rightarrow> bool" where
  "cpe_applies row version = (case exact_version row of
     Some exact \<Rightarrow> version \<noteq> [] \<and> compare version exact GENERIC = 0
   | None \<Rightarrow>
       if version = [] then False
       else if list_ex (\<lambda>(k, outside). truthy (jget row k) \<and> outside (compare version (py_str (jget row k)) GENERIC)) cpe_bounds then False
       else list_ex (\<lambda>(k, _). truthy (jget row k)) cpe_bounds)"

definition unbounded :: "jobj \<Rightarrow> bool" where
  "unbounded row = (case exact_version row of Some _ \<Rightarrow> False | None \<Rightarrow> \<not> list_ex (\<lambda>(k, _). truthy (jget row k)) cpe_bounds)"

definition published_severity :: "rat option \<Rightarrow> string option \<Rightarrow> severity" where
  "published_severity cvss published =
     (case Option.bind (if blank_text published then None else published) (\<lambda>p. enum_of severity_value severity_members (py_lower p)) of
        Some s \<Rightarrow> s | None \<Rightarrow> severity_from_cvss cvss)"

definition cpe_vuln_match :: "(rat \<Rightarrow> nat \<Rightarrow> rat) \<Rightarrow> vuln_row \<Rightarrow> vuln_match" where
  "cpe_vuln_match pw v =
     (let cvss = (case vr_cvss_base v of Some b \<Rightarrow> Some (fl b)
                  | None \<Rightarrow> base_score pw (case vr_cvss_vector v of Some x \<Rightarrow> x | None \<Rightarrow> []))
      in \<lparr>vm_external_id = vr_external_id v, vm_summary = (if vr_summary v \<noteq> [] then vr_summary v else take 300 (vr_details v)),
          vm_severity = published_severity cvss (vr_severity v), vm_cvss_base = cvss, vm_epss_score = map_option fl (vr_epss_score v),
          vm_kev = vr_kev v, vm_malicious = False, vm_exploit_maturity = vr_exploit_maturity v, vm_ransomware = vr_ransomware v,
          vm_cwe_ids = vr_cwe_ids v, vm_references = vr_references v\<rparr>)"

definition member_text :: "jobj \<Rightarrow> string \<Rightarrow> string" where
  "member_text d k = (case dict_get d k of Some v \<Rightarrow> py_lower (py_str v) | None \<Rightarrow> [])"

definition cpe_row_hits :: "service_identity \<Rightarrow> jval \<Rightarrow> bool" where
  "cpe_row_hits i e = (case e of
     JObj d \<Rightarrow> member_text d ''vendor'' = si_vendor i \<and> member_text d ''product'' = si_product i \<and> cpe_applies d (si_version i)
   | _ \<Rightarrow> False)"

definition match_identity :: "(rat \<Rightarrow> nat \<Rightarrow> rat) \<Rightarrow> vuln_row list \<Rightarrow> service_identity \<Rightarrow> vuln_match list" where
  "match_identity pw rows i =
     (if \<not> identified i then []
      else let candidates = take MAX_CANDIDATES
                 (filter (\<lambda>v. list_ex (names_both ''vendor'' (si_vendor i) ''product'' (si_product i)) (vr_cpe_configurations v)) rows);
               hits = filter (\<lambda>v. list_ex (cpe_row_hits i) (vr_cpe_configurations v)) candidates
           in sort_key (\<lambda>m. (- (case vm_cvss_base m of Some c \<Rightarrow> c | None \<Rightarrow> 0), vm_external_id m)) (map (cpe_vuln_match pw) hits))"

definition match_cpe :: "(rat \<Rightarrow> nat \<Rightarrow> rat) \<Rightarrow> vuln_row list \<Rightarrow> string \<Rightarrow> vuln_match list" where
  "match_cpe pw rows cpe = (case parse_cpe cpe of Some i \<Rightarrow> match_identity pw rows i | None \<Rightarrow> [])"

definition cpe_match :: "(rat \<Rightarrow> nat \<Rightarrow> rat) \<Rightarrow> vuln_row list \<Rightarrow> string \<Rightarrow> string \<Rightarrow> string \<Rightarrow> vuln_match list" where
  "cpe_match pw rows name version ecosystem =
     match_identity pw rows \<lparr>si_vendor = py_lower ecosystem, si_product = py_lower name, si_version = version\<rparr>"

section \<open>Facts\<close>

subsection \<open>An ingested advisory is found\<close>

text \<open>What ingestion stores: objects whose package and ecosystem are lower-case strings.\<close>

definition stored_entry :: "jval \<Rightarrow> bool" where
  "stored_entry e \<longleftrightarrow> (\<exists>d p c. e = JObj d \<and> dict_get d ''package'' = Some (JStr (py_lower p)) \<and>
     dict_get d ''ecosystem'' = Some (JStr (py_lower c)))"

lemma normalize_entry_get:
  "dict_get (normalize_entry d) k =
     (if k = ''package'' then Some (JStr (py_lower (py_str (jor (jget d ''package'') (JStr [])))))
      else if k = ''ecosystem'' then Some (JStr (py_lower (py_str (jor (jget d ''ecosystem'') (JStr [])))))
      else if k = ''package_display'' \<or> k = ''ecosystem_display'' then dict_get (normalize_entry d) k else dict_get d k)"
  by (simp add: normalize_entry_def Let_def)

lemma normalize_affected_stored: "list_all stored_entry (normalize_affected affected)"
  by (auto simp: list_all_iff normalize_affected_def map_filter_def stored_entry_def normalize_entry_get split: jval.splits)

lemma merge_keeps_stored:
  "list_all stored_entry (vr_affected v) \<Longrightarrow> list_all stored_entry (vr_affected (fst (merge_vulnerability v r)))"
  using normalize_affected_stored [of "nv_affected r"] by (simp add: merge_fields set_if_def)

text \<open>Over stored entries the containment query of the matcher loses nothing.\<close>

lemma stored_prefilter:
  assumes "stored_entry e" "affected_here (py_lower name) (py_lower eco) version e"
  shows "names_both ''package'' (py_lower name) ''ecosystem'' (py_lower eco) e"
  using assms by (auto simp: stored_entry_def affected_here_def names_both_def lower_member_def)

text \<open>Over a knowledge base filled by ingestion, the query that narrows the candidates loses no advisory: the matches for a
  dependency are exactly the advisories with an entry for that package and ecosystem, whatever the capitalisation asked
  with, whose versions include the one asked for.
\<close>

theorem kb_match_is_exact:
  assumes "list_all (\<lambda>v. list_all stored_entry (vr_affected v)) rows"
  shows "kb_match rows name version eco =
     map kb_vuln_match (filter (\<lambda>v. list_ex (affected_here (py_lower name) (py_lower eco) version) (vr_affected v)) rows)"
proof -
  have "list_ex (names_both ''package'' (py_lower name) ''ecosystem'' (py_lower eco)) (vr_affected v)"
    if "v \<in> set rows" "list_ex (affected_here (py_lower name) (py_lower eco) version) (vr_affected v)" for v
    using assms that stored_prefilter unfolding list_ex_iff list_all_iff by blast
  then show ?thesis unfolding kb_match_def Let_def by (auto simp: filter_filter intro!: arg_cong [where f = "map kb_vuln_match"] filter_cong)
qed

definition sample_affected :: jobj where
  "sample_affected = [(''package'', JStr ''PyYAML''), (''ecosystem'', JStr ''PyPI''), (''versions'', JList [JStr ''5.3''])]"

definition sample_advisory :: normalized_vuln where
  "sample_advisory = (sample_vuln ''CVE-2'' ''osv'')\<lparr>nv_affected := [JObj sample_affected]\<rparr>"

lemma kb_match_is_exact_witness: "kb_match [new_vulnerability sample_advisory] ''pyyaml'' ''5.4'' ''PyPI'' = []"
proof -
  have "list_all (\<lambda>v. list_all stored_entry (vr_affected v)) [new_vulnerability sample_advisory]"
    by (simp add: new_vulnerability_def normalize_affected_stored)
  from kb_match_is_exact [OF this, of "''pyyaml''" "''5.4''" "''PyPI''"] show ?thesis by code_simp
qed

lemma normalize_ecosystem_lower: "normalize_ecosystem (JStr (py_lower s)) = normalize_ecosystem (JStr s)"
proof -
  have strip: "py_lower (py_strip (py_lower s)) = py_lower (py_strip s)"
  proof -
    have sp: "is_space (to_lower c) = is_space c" for c by (auto simp: is_space_def to_lower_def is_upper_def ordc_def)
    have dw: "dropWhile is_space (map to_lower t) = map to_lower (dropWhile is_space t)" for t
      by (induction t) (simp_all add: sp)
    show ?thesis by (simp add: py_lower_def py_strip_def strip_by_def lstrip_by_def rstrip_by_def dw rev_map)
  qed
  show ?thesis by (simp add: normalize_ecosystem_def strip)
qed

lemma jget_cong: "dict_get d k = dict_get d' k \<Longrightarrow> jget d k = jget d' k"
  by (simp add: jget_def dict_getdef_def)

lemma normalize_entry_same_versions:
  assumes "dict_get d ''ecosystem'' = Some (JStr e)"
  shows "version_affected (normalize_entry d) version None = version_affected d version None"
proof -
  have eco: "jget (normalize_entry d) ''ecosystem'' = JStr (py_lower e)"
    using assms by (simp add: jget_def normalize_entry_get dict_getdef_def jor_def)
  have e: "jget d ''ecosystem'' = JStr e" using assms by (simp add: jget_def dict_getdef_def)
  have same: "jget (normalize_entry d) ''ranges'' = jget d ''ranges''" "jget (normalize_entry d) ''versions'' = jget d ''versions''"
    "jget (normalize_entry d) ''version'' = jget d ''version''" "jget (normalize_entry d) ''constraint'' = jget d ''constraint''"
    by (intro jget_cong; simp add: normalize_entry_get)+
  show ?thesis unfolding version_affected_def option.case eco e normalize_ecosystem_lower same ..
qed

lemma published_entry_matches:
  assumes "JObj d \<in> set affected"
    and "dict_get d ''package'' = Some (JStr package)" and "dict_get d ''ecosystem'' = Some (JStr ecosystem)"
    and "py_lower name = py_lower package" and "py_lower eco = py_lower ecosystem" and "version_affected d version None"
    and "v \<in> set rows" and "vr_affected v = normalize_affected affected"
  shows "kb_vuln_match v \<in> set (kb_match rows name version eco)"
proof -
  have in_stored: "JObj (normalize_entry d) \<in> set (vr_affected v)"
    using assms(1,8) by (force simp: normalize_affected_def map_filter_def)
  have p: "dict_get (normalize_entry d) ''package'' = Some (JStr (py_lower name))"
    and c: "dict_get (normalize_entry d) ''ecosystem'' = Some (JStr (py_lower eco))"
    using assms(2-5) by (auto simp: normalize_entry_get jget_def dict_getdef_def jor_def)
  have "affected_here (py_lower name) (py_lower eco) version (JObj (normalize_entry d))"
    using p c assms(6) normalize_entry_same_versions [OF assms(3)] by (simp add: affected_here_def lower_member_def)
  moreover have "names_both ''package'' (py_lower name) ''ecosystem'' (py_lower eco) (JObj (normalize_entry d))"
    using p c by (simp add: names_both_def)
  ultimately show ?thesis
    using in_stored assms(7) unfolding kb_match_def Let_def by (auto simp: list_ex_iff)
qed

text \<open>The row of a record holds its package list.\<close>

definition holds_packages :: "normalized_vuln \<Rightarrow> vuln_row list \<Rightarrow> bool" where
  "holds_packages r rows \<longleftrightarrow> (\<exists>v \<in> set rows. vr_external_id v = nv_external_id r \<and> vr_affected v = normalize_affected (nv_affected r))"

text \<open>The record may fill the package list of its row: OSV owns the list, another feed fills an empty one.\<close>

definition may_fill :: "normalized_vuln \<Rightarrow> vuln_row list \<Rightarrow> bool" where
  "may_fill r rows \<longleftrightarrow> (\<forall>v \<in> set rows. vr_external_id v = nv_external_id r \<longrightarrow>
     nv_source r = ''osv'' \<or> vr_affected v \<in> {[], normalize_affected (nv_affected r)})"

lemma merge_fills:
  assumes "normalize_affected (nv_affected r) \<noteq> []" "nv_source r = ''osv'' \<or> vr_affected v \<in> {[], normalize_affected (nv_affected r)}"
  shows "vr_affected (fst (merge_vulnerability v r)) = normalize_affected (nv_affected r)"
  using assms by (auto simp: merge_fields set_if_def blank_list_def)

lemma upsert_one_packages:
  assumes "normalize_affected (nv_affected r) \<noteq> []" "nv_external_id r \<noteq> []" "may_fill r (bt_rows b)"
    and "nv_external_id r' = nv_external_id r \<Longrightarrow> r' = r"
  shows "may_fill r (bt_rows (upsert_one r' b))"
    and "holds_packages r (bt_rows b @ bt_added b) \<or> r' = r \<Longrightarrow> holds_packages r (bt_rows (upsert_one r' b) @ bt_added (upsert_one r' b))"
proof -
  have found: "find (\<lambda>v. vr_external_id v = nv_external_id r') (bt_rows b) = Some v \<Longrightarrow> vr_external_id v = nv_external_id r' \<and> v \<in> set (bt_rows b)" for v
    using find_SomeD by fastforce
  have fills: "vr_affected (fst (merge_vulnerability v r)) = normalize_affected (nv_affected r)"
    if "v \<in> set (bt_rows b)" "vr_external_id v = nv_external_id r" for v
    using merge_fills [OF assms(1)] assms(3) that by (auto simp: may_fill_def)
  show "may_fill r (bt_rows (upsert_one r' b))"
  proof (cases "nv_external_id r' = [] \<or> find (\<lambda>v. vr_external_id v = nv_external_id r') (bt_rows b) = None")
    case True
    then have "bt_rows (upsert_one r' b) = bt_rows b" by (auto simp: upsert_one_def)
    then show ?thesis using assms(3) by simp
  next
    case False
    then obtain v where v: "find (\<lambda>v. vr_external_id v = nv_external_id r') (bt_rows b) = Some v" by auto
    then have "bt_rows (upsert_one r' b) = put_vuln (fst (merge_vulnerability v r')) (bt_rows b)"
      using False by (simp add: upsert_one_def case_prod_beta)
    then have "x \<in> set (bt_rows b) \<or> x = fst (merge_vulnerability v r')" if "x \<in> set (bt_rows (upsert_one r' b))" for x
      using that by (auto simp: put_vuln_def split: if_splits)
    moreover have "vr_external_id (fst (merge_vulnerability v r')) = nv_external_id r'" using found [OF v] by (simp add: merge_fields(1))
    ultimately show ?thesis using assms(3,4) fills found [OF v] unfolding may_fill_def by (metis insertCI)
  qed
  show "holds_packages r (bt_rows (upsert_one r' b) @ bt_added (upsert_one r' b))" if "holds_packages r (bt_rows b @ bt_added b) \<or> r' = r"
  proof (cases "find (\<lambda>v. vr_external_id v = nv_external_id r') (bt_rows b)")
    case None
    then show ?thesis using that assms(2) by (auto simp: upsert_one_def holds_packages_def new_vulnerability_def)
  next
    case (Some v)
    then have v: "vr_external_id v = nv_external_id r'" "v \<in> set (bt_rows b)" using found by blast+
    show ?thesis
    proof (cases "r' = r")
      case True
      then have "fst (merge_vulnerability v r) \<in> set (bt_rows (upsert_one r' b))"
        using Some v assms(2) by (auto simp: upsert_one_def put_vuln_def case_prod_beta merge_fields(1) intro!: image_eqI [of _ _ v])
      moreover have "vr_external_id (fst (merge_vulnerability v r)) = nv_external_id r"
        "vr_affected (fst (merge_vulnerability v r)) = normalize_affected (nv_affected r)"
        using fills v True by (simp_all add: merge_fields(1))
      ultimately show ?thesis using True unfolding holds_packages_def by auto
    next
      case False
      then have "nv_external_id r' \<noteq> nv_external_id r" using assms(4) by blast
      then show ?thesis using that False Some v
        by (fastforce simp: upsert_one_def holds_packages_def put_vuln_def case_prod_beta merge_fields(1))
    qed
  qed
qed

lemma upsert_packages:
  assumes "normalize_affected (nv_affected r) \<noteq> []" "nv_external_id r \<noteq> []"
  shows "upsert_vulnerabilities fault records b = (b', None) \<Longrightarrow> may_fill r (bt_rows b) \<Longrightarrow>
    \<forall>r' \<in> set records. nv_external_id r' = nv_external_id r \<longrightarrow> r' = r \<Longrightarrow>
    holds_packages r (bt_rows b @ bt_added b) \<or> r \<in> set records \<Longrightarrow> holds_packages r (bt_rows b' @ bt_added b')"
proof (induction fault records b rule: upsert_vulnerabilities.induct)
  case (2 fault r' rs b)
  have rest: "upsert_vulnerabilities fault rs (upsert_one r' b) = (b', None)" and nofault: "fault r' = None"
    using "2.prems"(1) by (auto split: option.splits)
  note step = upsert_one_packages [OF assms "2.prems"(2), of r']
  show ?case
    using "2.IH" [OF nofault rest] step "2.prems"(3,4) by fastforce
qed simp

text \<open>C23: An advisory that a feed publishes for a package is found by the dependency scan.  When a run of a feed completes, every record it
  fetched with an identifier of its own in the batch, and that is new to the knowledge base, comes from OSV or meets an empty package list, is
  afterwards matched with every dependency of the published name and ecosystem, in any capitalisation of either, at a version the published
  entry covers.
\<close>

theorem ingested_advisory_is_found:
  assumes "attempt run db = Inr (db', SyncCompleted n created updated)"
    and "rn_fetch run (fst (window_for (state_of (rn_source run) db) (rn_now run))) (rn_now run) = Inr records"
    and "r \<in> set records" and "nv_external_id r \<noteq> []"
    and "\<forall>r' \<in> set records. nv_external_id r' = nv_external_id r \<longrightarrow> r' = r"
    and "nv_source r = ''osv'' \<or> (\<forall>v \<in> set (id_vulns db). vr_external_id v = nv_external_id r \<longrightarrow> vr_affected v = [])"
    and "JObj d \<in> set (nv_affected r)"
    and "dict_get d ''package'' = Some (JStr package)" and "dict_get d ''ecosystem'' = Some (JStr ecosystem)"
    and "py_lower name = py_lower package" and "py_lower eco = py_lower ecosystem"
    and "version_affected d version None"
  shows "\<exists>m \<in> set (kb_match (id_vulns db') name version eco). vm_external_id m = nv_external_id r"
  using assms(1)
proof (cases rule: run_source_cases)
  case (completed records' b rows st)
  have same: "records' = records" using completed(1) assms(2) by simp
  have "JObj (normalize_entry d) \<in> set (normalize_affected (nv_affected r))"
    using assms(7) by (force simp: normalize_affected_def map_filter_def)
  then have filled: "normalize_affected (nv_affected r) \<noteq> []" by auto
  have "holds_packages r (bt_rows b @ bt_added b)"
    by (rule upsert_packages [OF filled assms(4) completed(2)]) (use assms(3,5,6) same in \<open>auto simp: may_fill_def\<close>)
  moreover have "rows = bt_rows b @ bt_added b" using completed(3) by (simp add: commit_vulns_def Let_def split: if_splits)
  ultimately obtain v where v: "v \<in> set rows" "vr_external_id v = nv_external_id r" "vr_affected v = normalize_affected (nv_affected r)"
    unfolding holds_packages_def by blast
  have "kb_vuln_match v \<in> set (kb_match (id_vulns db') name version eco)"
    unfolding completed(4) by (rule published_entry_matches [OF assms(7-12) v(1,3)])
  then show ?thesis using v(2) by (intro bexI [of _ "kb_vuln_match v"]) (simp_all add: kb_vuln_match_def)
qed simp

definition advisory_run :: run where
  "advisory_run = \<lparr>rn_source = ''osv'', rn_fetch = (\<lambda>_ _. Inr [sample_advisory]), rn_fault = (\<lambda>_. None), rn_now = 7, rn_finished = 8\<rparr>"

lemma ingested_advisory_is_found_witness:
  "\<exists>m \<in> set (kb_match (id_vulns (fst (projr (attempt advisory_run empty_db)))) ''pyyaml'' ''5.3'' ''pypi''). vm_external_id m = nv_external_id sample_advisory"
proof -
  have "run_completed advisory_run empty_db" by code_simp
  then obtain db' n c u where run: "attempt advisory_run empty_db = Inr (db', SyncCompleted n c u)"
    by (auto simp: run_completed_def split: sum.splits) (metis sync_result.exhaust sync_result.simps(6))
  have "\<exists>m \<in> set (kb_match (id_vulns db') ''pyyaml'' ''5.3'' ''pypi''). vm_external_id m = nv_external_id sample_advisory"
  proof (rule ingested_advisory_is_found [OF run, where d = sample_affected and package = "''PyYAML''" and ecosystem = "''PyPI''"])
    show "JObj sample_affected \<in> set (nv_affected sample_advisory)" by (simp add: sample_advisory_def)
    show "version_affected sample_affected ''5.3'' None" by code_simp
    show "py_lower ''pyyaml'' = py_lower ''PyYAML''" "py_lower ''pypi'' = py_lower ''PyPI''" by code_simp+
    show "rn_fetch advisory_run (fst (window_for (state_of (rn_source advisory_run) empty_db) (rn_now advisory_run))) (rn_now advisory_run) =
      Inr [sample_advisory]" by (simp add: advisory_run_def)
  qed (simp_all add: sample_affected_def sample_advisory_def sample_vuln_def empty_db_def)
  then show ?thesis by (simp add: run)
qed

subsection \<open>Merging loses nothing\<close>

definition match_key :: "vuln_match \<Rightarrow> string" where
  "match_key m = py_upper (vm_external_id m)"

definition cvss_at_least :: "rat option \<Rightarrow> rat option \<Rightarrow> bool" where
  "cvss_at_least a b \<longleftrightarrow> (case b of None \<Rightarrow> True | Some y \<Rightarrow> (case a of None \<Rightarrow> False | Some x \<Rightarrow> y \<le> x))"

definition maturity_of :: "vuln_match \<Rightarrow> nat" where
  "maturity_of m = (case vm_exploit_maturity m of None \<Rightarrow> 0 | Some x \<Rightarrow> maturity_rank x)"

text \<open>\<open>summarises fs m\<close>: \<open>m\<close> carries everything the matches \<open>fs\<close> of one advisory carry, and nothing else.\<close>

definition summarises :: "vuln_match list \<Rightarrow> vuln_match \<Rightarrow> bool" where
  "summarises fs m \<longleftrightarrow> fs \<noteq> [] \<and> list_all (\<lambda>f. match_key f = match_key m) fs \<and>
     (vm_kev m \<longleftrightarrow> list_ex vm_kev fs) \<and> (vm_ransomware m \<longleftrightarrow> list_ex vm_ransomware fs) \<and>
     (vm_malicious m \<longleftrightarrow> list_ex vm_malicious fs) \<and>
     set (vm_cwe_ids m) = \<Union> (set (map (set \<circ> vm_cwe_ids) fs)) \<and>
     set (vm_references m) = \<Union> (set (map (set \<circ> vm_references) fs)) \<and>
     list_all (\<lambda>f. cvss_at_least (vm_cvss_base m) (vm_cvss_base f)) fs \<and> list_ex (\<lambda>f. vm_cvss_base f = vm_cvss_base m) fs \<and>
     list_all (\<lambda>f. maturity_of f \<le> maturity_of m) fs"

lemma set_from_keys: "set (from_keys xs) = set xs"
proof -
  have "set (fold (\<lambda>x acc. if x \<in> set acc then acc else acc @ [x]) xs acc) = set acc \<union> set xs" for acc
    by (induction xs arbitrary: acc) auto
  then show ?thesis by (simp add: from_keys_def)
qed

lemma summarises_single: "summarises [f] f"
  by (simp add: summarises_def cvss_at_least_def split: option.splits)

lemma cvss_at_least_trans: "cvss_at_least a b \<Longrightarrow> cvss_at_least b c \<Longrightarrow> cvss_at_least a c"
  by (auto simp: cvss_at_least_def split: option.splits)

lemma merge_match_fields:
  assumes "merge_match a b = Inr m" "match_key b = match_key a"
  shows "match_key m = match_key a" "vm_kev m \<longleftrightarrow> vm_kev a \<or> vm_kev b" "vm_ransomware m \<longleftrightarrow> vm_ransomware a \<or> vm_ransomware b"
    "vm_malicious m \<longleftrightarrow> vm_malicious a \<or> vm_malicious b" "set (vm_cwe_ids m) = set (vm_cwe_ids a) \<union> set (vm_cwe_ids b)"
    "set (vm_references m) = set (vm_references a) \<union> set (vm_references b)"
    "cvss_at_least (vm_cvss_base m) (vm_cvss_base a)" "cvss_at_least (vm_cvss_base m) (vm_cvss_base b)"
    "vm_cvss_base m = vm_cvss_base a \<or> vm_cvss_base m = vm_cvss_base b"
    "maturity_of a \<le> maturity_of m" "maturity_of b \<le> maturity_of m"
proof -
  have m: "vm_external_id m = vm_external_id a" "vm_kev m \<longleftrightarrow> vm_kev a \<or> vm_kev b" "vm_ransomware m \<longleftrightarrow> vm_ransomware a \<or> vm_ransomware b"
    "vm_malicious m \<longleftrightarrow> vm_malicious a \<or> vm_malicious b"
    "vm_cwe_ids m = sorted_list_of_set (set (vm_cwe_ids a) \<union> set (vm_cwe_ids b))"
    "vm_references m = from_keys (vm_references a @ vm_references b)"
    "vm_exploit_maturity m = stronger_maturity (vm_exploit_maturity a) (vm_exploit_maturity b)"
    and base: "vm_cvss_base m = (case (vm_cvss_base a, vm_cvss_base b) of (Some x, Some y) \<Rightarrow> Some (max x y) | (x, y) \<Rightarrow> first_some x y)"
    using assms(1) by (auto simp: merge_match_def Let_def split: if_splits)
  show "match_key m = match_key a" "vm_kev m \<longleftrightarrow> vm_kev a \<or> vm_kev b" "vm_ransomware m \<longleftrightarrow> vm_ransomware a \<or> vm_ransomware b"
    "vm_malicious m \<longleftrightarrow> vm_malicious a \<or> vm_malicious b" "set (vm_cwe_ids m) = set (vm_cwe_ids a) \<union> set (vm_cwe_ids b)"
    "set (vm_references m) = set (vm_references a) \<union> set (vm_references b)"
    by (simp_all add: m match_key_def set_from_keys)
  show "cvss_at_least (vm_cvss_base m) (vm_cvss_base a)" "cvss_at_least (vm_cvss_base m) (vm_cvss_base b)"
    "vm_cvss_base m = vm_cvss_base a \<or> vm_cvss_base m = vm_cvss_base b"
    unfolding base by (cases "vm_cvss_base a"; cases "vm_cvss_base b"; simp add: cvss_at_least_def first_some_def max_def)+
  show "maturity_of a \<le> maturity_of m" "maturity_of b \<le> maturity_of m"
    by (cases "vm_exploit_maturity a"; cases "vm_exploit_maturity b"; simp add: maturity_of_def m(7) stronger_maturity_def)+
qed

lemma summarises_merge:
  assumes "summarises fs a" "merge_match a b = Inr m" "match_key b = match_key a"
  shows "summarises (fs @ [b]) m"
proof -
  note m = merge_match_fields [OF assms(2,3)]
  have "list_all (\<lambda>f. cvss_at_least (vm_cvss_base m) (vm_cvss_base f)) fs"
    using assms(1) cvss_at_least_trans [OF m(7)] by (auto simp: summarises_def list_all_iff)
  moreover have "list_all (\<lambda>f. maturity_of f \<le> maturity_of m) fs"
    using assms(1) m(10) by (force simp: summarises_def list_all_iff)
  moreover have "list_ex (\<lambda>f. vm_cvss_base f = vm_cvss_base m) (fs @ [b])"
    using assms(1) m(9) by (auto simp: summarises_def list_ex_iff)
  ultimately show ?thesis
    using assms(1,3) m(1-6,8,11) by (simp add: summarises_def) blast
qed

text \<open>The matches so far, and the dictionary made of them.\<close>

definition keyed :: "vuln_match list \<Rightarrow> string \<Rightarrow> vuln_match list" where
  "keyed fs k = filter (\<lambda>f. match_key f = k) fs"

definition at_key :: "vuln_match list \<Rightarrow> string \<Rightarrow> vuln_match option \<Rightarrow> bool" where
  "at_key fs k v \<longleftrightarrow> (case v of None \<Rightarrow> keyed fs k = [] | Some m \<Rightarrow> match_key m = k \<and> summarises (keyed fs k) m)"

definition merged_ok :: "vuln_match list \<Rightarrow> (string, vuln_match) odict \<Rightarrow> bool" where
  "merged_ok fs d \<longleftrightarrow> distinct (map fst d) \<and> [] \<notin> fst ` set d \<and> (\<forall>k. k \<noteq> [] \<longrightarrow> at_key fs k (dict_get d k))"

lemma keyed_snoc: "keyed (fs @ [f]) k = keyed fs k @ (if match_key f = k then [f] else [])"
  by (simp add: keyed_def)

lemma at_key_other: "match_key f \<noteq> k \<Longrightarrow> at_key (fs @ [f]) k v = at_key fs k v"
  by (cases v) (simp_all add: at_key_def keyed_snoc)

lemma at_key_new: "at_key fs (match_key f) None \<Longrightarrow> at_key (fs @ [f]) (match_key f) (Some f)"
  by (simp add: at_key_def keyed_snoc summarises_single)

lemma at_key_merge:
  "at_key fs (match_key f) (Some a) \<Longrightarrow> merge_match a f = Inr m \<Longrightarrow> at_key (fs @ [f]) (match_key f) (Some m)"
  using summarises_merge [of _ a f m] merge_match_fields(1) [of a f m] by (simp add: at_key_def keyed_snoc)

lemma merged_ok_set:
  assumes "merged_ok fs d" "match_key f \<noteq> []" "at_key (fs @ [f]) (match_key f) (Some m)"
  shows "merged_ok (fs @ [f]) (dict_set (match_key f) m d)"
proof -
  have "at_key (fs @ [f]) k (dict_get (dict_set (match_key f) m d) k)" if "k \<noteq> []" for k
    using assms that by (cases "k = match_key f") (simp_all add: merged_ok_def at_key_other del: map_of_eq_None_iff)
  then show ?thesis using assms(1,2) by (simp add: merged_ok_def distinct_dict_set dict_keys_set)
qed

lemma merge_found_ok:
  assumes "merged_ok fs d" "merge_found f d = Inr d'"
  shows "merged_ok (fs @ [f]) d'"
proof (cases "match_key f = []")
  case True
  then have "d' = d" using assms(2) by (simp add: merge_found_def match_key_def)
  moreover have "at_key (fs @ [f]) k v = at_key fs k v" if "k \<noteq> []" for k v
    using that True by (intro at_key_other) simp
  ultimately show ?thesis using assms(1) by (simp add: merged_ok_def)
next
  case False
  have at: "at_key fs (match_key f) (dict_get d (match_key f))" using assms(1) False by (simp add: merged_ok_def)
  show ?thesis
  proof (cases "dict_get d (match_key f)")
    case None
    have "d' = dict_set (match_key f) f d"
      using assms(2) None False unfolding merge_found_def match_key_def [symmetric] Let_def by simp
    then show ?thesis using merged_ok_set [OF assms(1) False at_key_new] at None by simp
  next
    case (Some a)
    obtain m where "merge_match a f = Inr m" "d' = dict_set (match_key f) m d"
      using assms(2) Some False unfolding merge_found_def match_key_def [symmetric] Let_def by auto
    then show ?thesis using merged_ok_set [OF assms(1) False at_key_merge] at Some by simp
  qed
qed

lemma merge_all_ok:
  "merge_all gs d = Inr d' \<Longrightarrow> merged_ok fs d \<Longrightarrow> merged_ok (fs @ gs) d'"
proof (induction gs d arbitrary: fs rule: merge_all.induct)
  case (2 g gs d)
  then obtain d1 where d1: "merge_found g d = Inr d1" "merge_all gs d1 = Inr d'" by auto
  from 2(1) [OF d1(2) merge_found_ok [OF 2(3) d1(1)]] show ?case by simp
qed simp

text \<open>Asking several sources loses nothing: there is one match per advisory identifier, letter case aside, and it is known
  to be exploited, used by ransomware or malicious exactly when some source says so, carries the weaknesses and references
  of all of them, the highest base score and an exploit maturity no source exceeds.
\<close>

theorem composite_match_summarises:
  assumes "composite_match matchers name version eco = Inr ms"
  shows "distinct (map match_key ms) \<and>
     (let found = concat (map (\<lambda>m. m name version eco) matchers) in
      set (map match_key ms) = set (map match_key found) - {[]} \<and>
      (\<forall>m \<in> set ms. summarises (keyed found (match_key m)) m))"
proof -
  define found where "found = concat (map (\<lambda>m. m name version eco) matchers)"
  obtain d where d: "merge_all found [] = Inr d" "ms = map snd d"
    using assms by (cases "merge_all found []") (auto simp: composite_match_def found_def)
  have "at_key [] k None" for k by (simp add: at_key_def keyed_def)
  then have ok: "merged_ok found d" using merge_all_ok [OF d(1), of "[]"] by (simp add: merged_ok_def)
  have dist: "distinct (map fst d)" "[] \<notin> fst ` set d" using ok by (simp_all add: merged_ok_def)
  have at: "k \<noteq> [] \<Longrightarrow> at_key found k (dict_get d k)" for k using ok by (simp add: merged_ok_def)
  have entry: "match_key m = k \<and> summarises (keyed found k) m" if "(k, m) \<in> set d" for k m
  proof -
    have "dict_get d k = Some m" "k \<noteq> []" using that dist by force+
    then show ?thesis using at [of k] by (simp add: at_key_def)
  qed
  have keys: "map match_key ms = map fst d" using entry unfolding d(2) by (auto intro!: map_cong)
  have mem: "k \<in> fst ` set d \<longleftrightarrow> k \<in> match_key ` set found" if "k \<noteq> []" for k
  proof -
    have "k \<in> fst ` set d \<longleftrightarrow> dict_get d k \<noteq> None" by (simp add: map_of_eq_None_iff)
    also have "\<dots> \<longleftrightarrow> keyed found k \<noteq> []"
      using at [OF that] by (cases "dict_get d k") (simp_all add: at_key_def summarises_def del: map_of_eq_None_iff)
    finally show ?thesis by (auto simp: keyed_def filter_empty_conv)
  qed
  have "k \<in> fst ` set d \<longleftrightarrow> k \<in> match_key ` set found - {[]}" for k
    using mem [of k] dist(2) by (cases "k = []") simp_all
  then have "set (map match_key ms) = set (map match_key found) - {[]}"
    unfolding keys set_map by (rule set_eqI)
  moreover have "summarises (keyed found (match_key m)) m" if "m \<in> set ms" for m
    using entry that by (auto simp: d(2))
  ultimately show ?thesis using dist(1) unfolding Let_def found_def [symmetric] keys by blast
qed

definition two_sources :: "(string \<Rightarrow> string \<Rightarrow> string \<Rightarrow> vuln_match list) list" where
  "two_sources = [\<lambda>_ _ _. [(kb_vuln_match (new_vulnerability sample_advisory))\<lparr>vm_kev := True, vm_cvss_base := Some 5\<rparr>],
     \<lambda>_ _ _. [(kb_vuln_match (new_vulnerability sample_advisory))\<lparr>vm_external_id := ''cve-2'', vm_cvss_base := Some 7\<rparr>]]"

lemma composite_match_summarises_witness:
  "\<exists>m. composite_match two_sources ''a'' ''1'' ''npm'' = Inr [m] \<and> vm_kev m \<and> vm_cvss_base m = Some 7 \<and> summarises (concat (map (\<lambda>f. f ''a'' ''1'' ''npm'') two_sources)) m"
proof -
  have up: "py_upper ''CVE-2'' = ''CVE-2''" "py_upper ''cve-2'' = ''CVE-2''" by code_simp+
  define a where "a = (kb_vuln_match (new_vulnerability sample_advisory))\<lparr>vm_kev := True, vm_cvss_base := Some 5\<rparr>"
  define b where "b = (kb_vuln_match (new_vulnerability sample_advisory))\<lparr>vm_external_id := ''cve-2'', vm_cvss_base := Some 7\<rparr>"
  have key: "py_upper (vm_external_id a) = ''CVE-2''" "py_upper (vm_external_id b) = ''CVE-2''"
    by (simp_all add: a_def b_def kb_vuln_match_def new_vulnerability_def sample_advisory_def sample_vuln_def up)
  have refs: "vm_references a = []" "vm_references b = []"
    by (simp_all add: a_def b_def kb_vuln_match_def new_vulnerability_def sample_advisory_def sample_vuln_def)
  obtain m where m: "merge_match a b = Inr m" by (auto simp: merge_match_def refs Let_def)
  have both: "concat (map (\<lambda>f. f ''a'' ''1'' ''npm'') two_sources) = [a, b]"
    by (simp add: two_sources_def a_def b_def)
  have c: "composite_match two_sources ''a'' ''1'' ''npm'' = Inr [m]"
    unfolding composite_match_def both by (simp add: merge_found_def key m)
  have "vm_kev m \<and> vm_cvss_base m = Some 7" 
  proof -
    have "vm_kev a" "vm_cvss_base a = Some 5" "vm_cvss_base b = Some 7" by (simp_all add: a_def b_def)
    then show ?thesis using m by (auto simp: merge_match_def refs Let_def)
  qed
  moreover have "match_key m = ''CVE-2''" using m key by (auto simp: match_key_def merge_match_def refs Let_def)
  moreover have "keyed [a, b] ''CVE-2'' = [a, b]" by (simp add: keyed_def match_key_def key)
  ultimately show ?thesis using composite_match_summarises [OF c] c unfolding both by (simp add: Let_def)
qed

text \<open>Two sources without a score keep the first one's severity, however severe the other's is.\<close>

lemma merged_severity_ignores_second:
  "vm_cvss_base a = None \<Longrightarrow> vm_cvss_base b = None \<Longrightarrow> merge_match a b = Inr m \<Longrightarrow> vm_severity m = vm_severity a"
  by (auto simp: merge_match_def Let_def first_some_def split: if_splits)

subsection \<open>Service versions\<close>

interpretation generic_order: three_way "\<lambda>_. True" "\<lambda>a b. compare a b GENERIC"
  using three_way_key [of "\<lambda>_. True" "\<lambda>v. plain_code (version_key v GENERIC)"] by (simp add: compare_plain)

lemma cpe_applies_bounds:
  "exact_version row = None \<Longrightarrow> cpe_applies row version \<longleftrightarrow> version \<noteq> [] \<and> \<not> unbounded row \<and>
     (truthy (jget row ''version_start_including'') \<longrightarrow> compare version (py_str (jget row ''version_start_including'')) GENERIC \<ge> 0) \<and>
     (truthy (jget row ''version_start_excluding'') \<longrightarrow> compare version (py_str (jget row ''version_start_excluding'')) GENERIC > 0) \<and>
     (truthy (jget row ''version_end_including'') \<longrightarrow> compare version (py_str (jget row ''version_end_including'')) GENERIC \<le> 0) \<and>
     (truthy (jget row ''version_end_excluding'') \<longrightarrow> compare version (py_str (jget row ''version_end_excluding'')) GENERIC < 0)"
  by (auto simp: cpe_applies_def unbounded_def cpe_bounds_def not_less not_le)

lemma compare_between:
  assumes "compare a b GENERIC \<le> 0" "compare b c GENERIC \<le> 0"
  shows "compare a x GENERIC \<ge> 0 \<Longrightarrow> compare b x GENERIC \<ge> 0" "compare a x GENERIC > 0 \<Longrightarrow> compare b x GENERIC > 0"
    "compare c x GENERIC \<le> 0 \<Longrightarrow> compare b x GENERIC \<le> 0" "compare c x GENERIC < 0 \<Longrightarrow> compare b x GENERIC < 0"
proof -
  note swap = generic_order.cmp_swap [OF TrueI TrueI] and trans = generic_order.cmp_trans [OF TrueI TrueI TrueI]
  note strict = generic_order.less_le_trans [OF TrueI TrueI TrueI] generic_order.le_less_trans [OF TrueI TrueI TrueI]
  show "compare a x GENERIC \<ge> 0 \<Longrightarrow> compare b x GENERIC \<ge> 0"
    using trans [of x a b] assms(1) swap [of x a] swap [of x b] by linarith
  show "compare a x GENERIC > 0 \<Longrightarrow> compare b x GENERIC > 0"
    using strict(1) [of x a b] assms(1) swap [of x a] swap [of x b] by linarith
  show "compare c x GENERIC \<le> 0 \<Longrightarrow> compare b x GENERIC \<le> 0" using trans [of b c x] assms(2) by blast
  show "compare c x GENERIC < 0 \<Longrightarrow> compare b x GENERIC < 0" using strict(2) [of b c x] assms(2) by blast
qed

text \<open>An applicability row covers an interval of versions: between two releases it applies to, it applies to every release.
\<close>

theorem cpe_row_is_interval:
  assumes "compare a b GENERIC \<le> 0" "compare b c GENERIC \<le> 0" "b \<noteq> []"
    and "cpe_applies row a" "cpe_applies row c"
  shows "cpe_applies row b"
proof (cases "exact_version row")
  case None
  show ?thesis
    using assms(3-5) compare_between [OF assms(1,2)] unfolding cpe_applies_bounds [OF None] by blast
next
  case (Some exact)
  then have "compare a exact GENERIC = 0" "compare c exact GENERIC = 0" using assms(4,5) by (simp_all add: cpe_applies_def)
  then have "compare b exact GENERIC = 0"
    using compare_between(1,3) [OF assms(1,2), of exact] by simp
  then show ?thesis using Some assms(3) by (simp add: cpe_applies_def)
qed

definition sample_cpe_row :: jobj where
  "sample_cpe_row = [(''vendor'', JStr ''openbsd''), (''product'', JStr ''openssh''), (''version'', JStr ''*''),
     (''version_end_excluding'', JStr ''9.3.2'')]"

lemma cpe_row_is_interval_witness: "cpe_applies sample_cpe_row ''8.9p1''"
  by (rule cpe_row_is_interval [of "''8.0''" "''8.9p1''" "''9.1''"]) code_simp+

lemma sorted_map_fst: "sorted (xs :: ('a :: linorder \<times> 'b :: linorder) list) \<Longrightarrow> sorted (map fst xs)"
  by (induction xs) (auto simp: less_eq_prod_def)

lemma applies_needs_version: "\<not> cpe_applies row []"
  by (simp add: cpe_applies_def split: option.splits)

lemma sorted_by_score:
  "sorted (map (\<lambda>m. - (case vm_cvss_base m of Some c \<Rightarrow> c | None \<Rightarrow> 0))
     (sort_key (\<lambda>m. (- (case vm_cvss_base m of Some c \<Rightarrow> c | None \<Rightarrow> 0), vm_external_id m)) ms))"
proof -
  have "sorted (map fst (map (\<lambda>m. (- (case vm_cvss_base m of Some c \<Rightarrow> c | None \<Rightarrow> 0), vm_external_id m))
      (sort_key (\<lambda>m. (- (case vm_cvss_base m of Some c \<Rightarrow> c | None \<Rightarrow> 0), vm_external_id m)) ms)))"
    by (rule sorted_map_fst) (rule sorted_sort_key)
  then show ?thesis by (simp add: comp_def)
qed

text \<open>A service whose product or release is unknown matches no advisory at all, and every match of an identified service
  comes from a row naming its vendor and product that applies to its version; matches are ordered by falling score.
\<close>

theorem service_matches_are_justified:
  "(si_vendor i = [] \<or> si_product i = [] \<or> si_version i = [] \<longrightarrow> match_identity pw rows i = []) \<and>
   (\<forall>m \<in> set (match_identity pw rows i). \<exists>v d. v \<in> set rows \<and> m = cpe_vuln_match pw v \<and> JObj d \<in> set (vr_cpe_configurations v) \<and>
      member_text d ''vendor'' = si_vendor i \<and> member_text d ''product'' = si_product i \<and> cpe_applies d (si_version i)) \<and>
   sorted (map (\<lambda>m. - (case vm_cvss_base m of Some c \<Rightarrow> c | None \<Rightarrow> 0)) (match_identity pw rows i))"
proof (intro conjI impI ballI)
  assume "si_vendor i = [] \<or> si_product i = [] \<or> si_version i = []"
  moreover have "si_version i = [] \<Longrightarrow> \<not> cpe_row_hits i e" for e
    by (simp add: cpe_row_hits_def applies_needs_version split: jval.splits)
  then have "si_version i = [] \<Longrightarrow> \<not> list_ex (cpe_row_hits i) es" for es by (simp add: list_ex_iff)
  ultimately show "match_identity pw rows i = []"
    by (auto simp: match_identity_def identified_def Let_def)
next
  fix m assume "m \<in> set (match_identity pw rows i)"
  then obtain v where v: "v \<in> set rows" "m = cpe_vuln_match pw v" "list_ex (cpe_row_hits i) (vr_cpe_configurations v)"
    by (auto simp: match_identity_def Let_def split: if_splits dest!: in_set_takeD)
  then obtain e where e: "e \<in> set (vr_cpe_configurations v)" "cpe_row_hits i e" by (auto simp: list_ex_iff)
  obtain d where "e = JObj d" using e(2) by (cases e) (auto simp: cpe_row_hits_def)
  then show "\<exists>v d. v \<in> set rows \<and> m = cpe_vuln_match pw v \<and> JObj d \<in> set (vr_cpe_configurations v) \<and>
      member_text d ''vendor'' = si_vendor i \<and> member_text d ''product'' = si_product i \<and> cpe_applies d (si_version i)"
    using v(1,2) e by (auto simp: cpe_row_hits_def)
next
  show "sorted (map (\<lambda>m. - (case vm_cvss_base m of Some c \<Rightarrow> c | None \<Rightarrow> 0)) (match_identity pw rows i))"
    unfolding match_identity_def Let_def using sorted_by_score by auto
qed

lemma service_matches_are_justified_witness:
  "match_identity (\<lambda>x _. x) [new_vulnerability sample_advisory] \<lparr>si_vendor = ''openbsd'', si_product = ''openssh'', si_version = []\<rparr> = [] \<and>
   (let row = JObj [(''vendor'', JStr ''openbsd''), (''product'', JStr ''openssh''), (''version_end_excluding'', JStr ''9.8'')];
        v = (new_vulnerability sample_advisory)\<lparr>vr_cpe_configurations := [row]\<rparr>
    in length (match_identity (\<lambda>x _. x) [v] \<lparr>si_vendor = ''openbsd'', si_product = ''openssh'', si_version = ''9.6''\<rparr>) = 1)"
  (is "_ \<and> ?hit")
proof
  show "match_identity (\<lambda>x _. x) [new_vulnerability sample_advisory] \<lparr>si_vendor = ''openbsd'', si_product = ''openssh'', si_version = []\<rparr> = []"
    using service_matches_are_justified [of "\<lparr>si_vendor = ''openbsd'', si_product = ''openssh'', si_version = []\<rparr>" "\<lambda>x _. x"
      "[new_vulnerability sample_advisory]"] by simp
  have "cpe_row_hits \<lparr>si_vendor = ''openbsd'', si_product = ''openssh'', si_version = ''9.6''\<rparr>
     (JObj [(''vendor'', JStr ''openbsd''), (''product'', JStr ''openssh''), (''version_end_excluding'', JStr ''9.8'')])" by code_simp
  then show ?hit by (simp add: match_identity_def identified_def names_both_def MAX_CANDIDATES_def)
qed

text \<open>
  A row without any bound applies to no version, although the comment on it says that it covers every release.
\<close>

lemma unbounded_row_never_applies: "unbounded row \<Longrightarrow> \<not> cpe_applies row version"
  by (auto simp: unbounded_def cpe_applies_def split: option.splits)

end
