(* ===== verification/Typosquat.thy ===== *)
theory Typosquat
  imports PyRegex
begin

text \<open>
  \<open>guardian_scanner/typosquat.py\<close>: near-misses of popular package names, by optimal string alignment distance computed
  row by row.
\<close>

subsection \<open>Popular names\<close>

definition POPULAR_LIST_VERSION :: string where "POPULAR_LIST_VERSION = ''2026.09.1''"

definition POPULAR_NPM :: "string list" where
  "POPULAR_NPM =
    [''react'', ''react-dom'', ''lodash'', ''axios'', ''express'', ''chalk'', ''commander'', ''debug'', ''next'',
     ''webpack'', ''typescript'', ''vue'', ''moment'', ''request'', ''async'', ''bluebird'', ''underscore'',
     ''jquery'', ''babel-core'', ''eslint'', ''prettier'', ''dotenv'', ''uuid'', ''classnames'', ''redux'',
     ''rxjs'', ''socket.io'', ''mongoose'', ''jsonwebtoken'', ''bcrypt'', ''node-fetch'', ''cross-env'',
     ''colors'', ''yargs'', ''inquirer'', ''glob'', ''semver'', ''ws'', ''cheerio'', ''nodemon'', ''body-parser'',
     ''cors'', ''passport'', ''winston'', ''mocha'', ''jest'', ''chai'', ''sinon'', ''ramda'', ''fastify'']"

definition POPULAR_PYPI :: "string list" where
  "POPULAR_PYPI =
    [''requests'', ''urllib3'', ''setuptools'', ''certifi'', ''idna'', ''charset-normalizer'', ''numpy'',
     ''pyyaml'', ''six'', ''python-dateutil'', ''cryptography'', ''boto3'', ''botocore'', ''click'', ''jinja2'',
     ''flask'', ''django'', ''fastapi'', ''pydantic'', ''sqlalchemy'', ''pytest'', ''pandas'', ''scipy'',
     ''pillow'', ''wheel'', ''packaging'', ''attrs'', ''colorama'', ''tqdm'', ''beautifulsoup4'', ''lxml'',
     ''aiohttp'', ''httpx'', ''starlette'', ''uvicorn'', ''celery'', ''redis'', ''psycopg2'', ''pymongo'',
     ''matplotlib'', ''scikit-learn'', ''torch'', ''tensorflow'', ''openai'', ''typing-extensions'',
     ''markupsafe'', ''werkzeug'', ''pyjwt'', ''cffi'', ''protobuf'', ''grpcio'']"

datatype registry = RegNpm | RegPypi

definition popular_of :: "registry \<Rightarrow> string list" where
  "popular_of r = (case r of RegNpm \<Rightarrow> POPULAR_NPM | RegPypi \<Rightarrow> POPULAR_PYPI)"

definition ECOSYSTEM_ALIAS :: "(string \<times> registry) list" where
  "ECOSYSTEM_ALIAS = [(''npm'', RegNpm), (''node'', RegNpm), (''pypi'', RegPypi), (''python'', RegPypi)]"

definition PEP503 :: re where "PEP503 = plus (one_of ''-_.'')"

definition canonical :: "string \<Rightarrow> registry \<Rightarrow> string" where
  "canonical name eco =
     (let n = py_lower (py_strip name) in case eco of
        RegPypi \<Rightarrow> re_sub PEP503 (\<lambda>_ _. ''-'') n
      | RegNpm \<Rightarrow> if startswith n ''@'' \<and> CHR ''/'' \<in> set n then snd (snd (partition_on CHR ''/'' n)) else n)"

subsection \<open>Distance\<close>

text \<open>One row of the table: \<open>cur\<close> starts as \<open>i\<close> and zeros and is filled from the left.\<close>

definition osa_cell :: "string \<Rightarrow> string \<Rightarrow> nat \<Rightarrow> nat list \<Rightarrow> nat list \<Rightarrow> nat \<Rightarrow> nat list \<Rightarrow> nat list" where
  "osa_cell a b i prev2 prev j cur =
     (let cost = (if a ! (i - 1) = b ! (j - 1) then 0 else 1);
          cur = cur[j := min (min (cur ! (j - 1) + 1) (prev ! j + 1)) (prev ! (j - 1) + cost)]
      in if i > 1 \<and> j > 1 \<and> a ! (i - 1) = b ! (j - 2) \<and> a ! (i - 2) = b ! (j - 1)
         then cur[j := min (cur ! j) (prev2 ! (j - 2) + 1)] else cur)"

definition osa_row :: "string \<Rightarrow> string \<Rightarrow> nat \<Rightarrow> nat list \<times> nat list \<Rightarrow> nat list \<times> nat list" where
  "osa_row a b i rows = (case rows of (prev2, prev) \<Rightarrow>
     (prev, fold (osa_cell a b i prev2 prev) [1..<Suc (length b)] (i # replicate (length b) 0)))"

definition damerau_levenshtein :: "string \<Rightarrow> string \<Rightarrow> nat" where
  "damerau_levenshtein a b =
     (if length a = 0 then length b else if length b = 0 then length a
      else snd (fold (osa_row a b) [1..<Suc (length a)] ([], [0..<Suc (length b)])) ! length b)"

subsection \<open>Nearest popular name\<close>

definition max_distance :: "string \<Rightarrow> nat" where
  "max_distance popular = (if length popular \<le> 6 then 1 else 2)"

record typosquat_match =
  tm_popular :: string
  tm_distance :: nat
  tm_list_version :: string

definition better_match :: "string \<Rightarrow> registry \<Rightarrow> string \<Rightarrow> typosquat_match option \<Rightarrow> typosquat_match option" where
  "better_match canon eco original best =
     (let pcanon = canonical original eco; distance = damerau_levenshtein canon pcanon in
      if 1 \<le> distance \<and> distance \<le> max_distance pcanon \<and> (case best of None \<Rightarrow> True | Some m \<Rightarrow> distance < tm_distance m)
      then Some \<lparr>tm_popular = original, tm_distance = distance, tm_list_version = POPULAR_LIST_VERSION\<rparr> else best)"

definition nearest_popular :: "string \<Rightarrow> string \<Rightarrow> typosquat_match option" where
  "nearest_popular name ecosystem = (case dict_get ECOSYSTEM_ALIAS (py_lower ecosystem) of
     None \<Rightarrow> None
   | Some eco \<Rightarrow>
      (let canon = canonical name eco in
       if length canon < 4 then None
       else if canon \<in> set (map (\<lambda>p. canonical p eco) (popular_of eco)) then None
       else fold (better_match canon eco) (popular_of eco) None))"

section \<open>Facts\<close>

subsection \<open>The table computes the distance\<close>

text \<open>The distance by recursion on the last characters: the words are read from their ends.\<close>

fun osa :: "'a list \<Rightarrow> 'a list \<Rightarrow> nat" where
  "osa [] ys = length ys"
| "osa (x # xs) [] = Suc (length xs)"
| "osa (x # xs) (y # ys) =
     (let d = min (min (osa (x # xs) ys + 1) (osa xs (y # ys) + 1)) (osa xs ys + (if x = y then 0 else 1)) in
      case (xs, ys) of (x' # xs', y' # ys') \<Rightarrow> if x = y' \<and> x' = y then min d (osa xs' ys' + 1) else d | _ \<Rightarrow> d)"

definition prefix_dist :: "string \<Rightarrow> string \<Rightarrow> nat \<Rightarrow> nat \<Rightarrow> nat" where
  "prefix_dist a b i j = osa (rev (take i a)) (rev (take j b))"

lemma rev_take_Suc: "i < length a \<Longrightarrow> rev (take (Suc i) a) = a ! i # rev (take i a)"
  by (simp add: take_Suc_conv_app_nth)

lemma prefix_dist_0 [simp]: "j \<le> length b \<Longrightarrow> prefix_dist a b 0 j = j"
  by (simp add: prefix_dist_def)

lemma prefix_dist_i0: "i \<le> length a \<Longrightarrow> prefix_dist a b i 0 = i"
  by (cases i) (simp_all add: prefix_dist_def rev_take_Suc)

lemma osa_single:
  "osa (x # xs) [y] = min (min (osa (x # xs) [] + 1) (osa xs [y] + 1)) (osa xs [] + (if x = y then 0 else 1))"
  by (cases xs) (simp_all add: Let_def)

lemma prefix_dist_Suc:
  assumes "i < length a" "j < length b"
  shows "prefix_dist a b (Suc i) (Suc j) =
     (let d = min (min (prefix_dist a b (Suc i) j + 1) (prefix_dist a b i (Suc j) + 1))
                (prefix_dist a b i j + (if a ! i = b ! j then 0 else 1)) in
      if 0 < i \<and> 0 < j \<and> a ! i = b ! (j - 1) \<and> a ! (i - 1) = b ! j
      then min d (prefix_dist a b (i - 1) (j - 1) + 1) else d)"
proof (cases i)
  case 0
  then show ?thesis using assms by (simp add: prefix_dist_def rev_take_Suc Let_def)
next
  case (Suc i')
  show ?thesis
  proof (cases j)
    case 0
    have b: "rev (take (Suc 0) b) = [b ! 0]" "rev (take 0 b) = []" using assms(2) 0 by (simp_all add: take_Suc_conv_app_nth)
    have "\<not> 0 < j" using 0 by simp
    then show ?thesis
      unfolding prefix_dist_def 0 rev_take_Suc [OF assms(1)] b osa_single Let_def by (simp only: simp_thms if_False)
  next
    case (Suc j')
    have a: "rev (take (Suc i) a) = a ! i # a ! i' # rev (take i' a)" "rev (take i a) = a ! i' # rev (take i' a)"
      using assms(1) \<open>i = Suc i'\<close> by (simp_all add: rev_take_Suc)
    have b: "rev (take (Suc j) b) = b ! j # b ! j' # rev (take j' b)" "rev (take j b) = b ! j' # rev (take j' b)"
      using assms(2) Suc by (simp_all add: rev_take_Suc)
    have i: "i - 1 = i'" "0 < i" "j - 1 = j'" "0 < j" using Suc \<open>i = Suc i'\<close> by simp_all
    show ?thesis unfolding prefix_dist_def a b i osa.simps Let_def list.case prod.case by (simp only: i simp_thms if_True)
  qed
qed

definition dist_row :: "string \<Rightarrow> string \<Rightarrow> nat \<Rightarrow> nat list" where
  "dist_row a b i = map (prefix_dist a b i) [0..<Suc (length b)]"

lemma dist_row_nth: "j \<le> length b \<Longrightarrow> dist_row a b i ! j = prefix_dist a b i j"
  by (simp add: dist_row_def del: upt_Suc)

text \<open>A row filled up to \<open>j\<close>.\<close>

definition filled :: "string \<Rightarrow> string \<Rightarrow> nat \<Rightarrow> nat \<Rightarrow> nat list \<Rightarrow> bool" where
  "filled a b i j cur \<longleftrightarrow> length cur = Suc (length b) \<and> (\<forall>k \<le> j. cur ! k = prefix_dist a b i k)"

lemma osa_cell_filled:
  assumes "filled a b (Suc i) j cur" "i < length a" "j < length b"
    and "0 < i \<longrightarrow> prev2 = dist_row a b (i - 1)"
  shows "filled a b (Suc i) (Suc j) (osa_cell a b (Suc i) prev2 (dist_row a b i) (Suc j) cur)"
proof -
  have len: "length cur = Suc (length b)" and cur: "cur ! k = prefix_dist a b (Suc i) k" if "k \<le> j" for k
    using assms(1) that by (auto simp: filled_def)
  let ?d = "min (min (cur ! j + 1) (dist_row a b i ! Suc j + 1)) (dist_row a b i ! j + (if a ! i = b ! j then 0 else 1))"
  let ?swap = "0 < i \<and> 0 < j \<and> a ! i = b ! (j - 1) \<and> a ! (i - 1) = b ! j"
  let ?v = "if ?swap then min ?d (prev2 ! (j - 1) + 1) else ?d"
  have cell: "osa_cell a b (Suc i) prev2 (dist_row a b i) (Suc j) cur = cur[Suc j := ?v]"
    using len [of j] assms(3) by (auto simp: osa_cell_def Let_def numeral_2_eq_2)
  have "?v = prefix_dist a b (Suc i) (Suc j)"
    using assms(2-4) cur [of j] unfolding prefix_dist_Suc [OF assms(2,3)]
    by (auto simp: Let_def dist_row_nth)
  then show ?thesis unfolding cell filled_def using len [of j] cur assms(3) by (auto simp: nth_list_update le_Suc_eq)
qed

lemma osa_row_fills:
  assumes "i < length a" "0 < i \<longrightarrow> prev2 = dist_row a b (i - 1)" "j \<le> length b"
  shows "filled a b (Suc i) j (fold (osa_cell a b (Suc i) prev2 (dist_row a b i)) [1..<Suc j] (Suc i # replicate (length b) 0))"
  using assms(3)
proof (induction j)
  case 0
  then show ?case using assms(1) by (simp add: filled_def prefix_dist_i0)
next
  case (Suc j)
  then show ?case using osa_cell_filled [OF _ assms(1) _ assms(2)] by simp
qed

lemma osa_row_step:
  assumes "i < length a" "0 < i \<longrightarrow> prev2 = dist_row a b (i - 1)"
  shows "osa_row a b (Suc i) (prev2, dist_row a b i) = (dist_row a b i, dist_row a b (Suc i))"
proof -
  let ?cur = "fold (osa_cell a b (Suc i) prev2 (dist_row a b i)) [1..<Suc (length b)] (Suc i # replicate (length b) 0)"
  have f: "filled a b (Suc i) (length b) ?cur" using osa_row_fills [OF assms] by simp
  have "?cur = dist_row a b (Suc i)"
  proof (rule nth_equalityI)
    show "length ?cur = length (dist_row a b (Suc i))" using f by (simp add: filled_def dist_row_def)
    show "?cur ! k = dist_row a b (Suc i) ! k" if "k < length ?cur" for k
    proof -
      have "k \<le> length b" using f that by (simp add: filled_def)
      then show ?thesis using f dist_row_nth [of k b a "Suc i"] unfolding filled_def by simp
    qed
  qed
  then show ?thesis by (simp add: osa_row_def)
qed

lemma osa_rows:
  "i \<le> length a \<Longrightarrow> \<exists>p. fold (osa_row a b) [1..<Suc i] ([], [0..<Suc (length b)]) = (p, dist_row a b i) \<and>
     (0 < i \<longrightarrow> p = dist_row a b (i - 1))"
proof (induction i)
  case 0
  have "map (prefix_dist a b 0) [0..<Suc (length b)] = map id [0..<Suc (length b)]" by (intro map_cong) auto
  then show ?case by (simp add: dist_row_def del: upt_Suc)
next
  case (Suc i)
  then obtain p where p: "fold (osa_row a b) [1..<Suc i] ([], [0..<Suc (length b)]) = (p, dist_row a b i)"
      "0 < i \<longrightarrow> p = dist_row a b (i - 1)" by auto
  have "fold (osa_row a b) [1..<Suc (Suc i)] ([], [0..<Suc (length b)]) = osa_row a b (Suc i) (p, dist_row a b i)"
    using p(1) by (simp del: upt_Suc add: upt_Suc_append)
  then show ?case using osa_row_step [OF _ p(2)] Suc.prems by simp
qed

lemma osa_Nil_right: "osa xs [] = length xs"
  by (cases xs) simp_all

lemma osa_table: "damerau_levenshtein a b = osa (rev a) (rev b)"
proof (cases "a = [] \<or> b = []")
  case True
  then show ?thesis by (auto simp: damerau_levenshtein_def osa_Nil_right)
next
  case False
  obtain p where "fold (osa_row a b) [1..<Suc (length a)] ([], [0..<Suc (length b)]) = (p, dist_row a b (length a))"
    using osa_rows [of "length a" a b] by auto
  then show ?thesis
    using False dist_row_nth [of "length b" b a "length a"]
    by (simp add: damerau_levenshtein_def prefix_dist_def del: upt_Suc)
qed

text \<open>The two-row table computes the optimal string alignment distance: insertions, deletions, substitutions and swaps of
  neighbours, each pair of positions edited once.
\<close>

theorem table_is_distance: "damerau_levenshtein a b = osa (rev a) (rev b)"
  by (rule osa_table)

subsection \<open>The distance is one\<close>

definition swap_end :: "'a list \<Rightarrow> 'a list \<Rightarrow> 'a \<Rightarrow> 'a \<Rightarrow> nat option" where
  "swap_end xs ys x y = (case (xs, ys) of (x' # xs', y' # ys') \<Rightarrow> if x = y' \<and> x' = y then Some (osa xs' ys') else None | _ \<Rightarrow> None)"

lemma osa_Cons:
  "osa (x # xs) (y # ys) =
     (let d = min (min (osa (x # xs) ys + 1) (osa xs (y # ys) + 1)) (osa xs ys + (if x = y then 0 else 1)) in
      case swap_end xs ys x y of None \<Rightarrow> d | Some e \<Rightarrow> min d (e + 1))"
  unfolding osa.simps(3) Let_def swap_end_def by (cases xs; cases ys) (simp_all del: osa.simps)

lemma min_zero: "min (d :: nat) (e + 1) = 0 \<longleftrightarrow> d = 0" "min (e + 1) (d :: nat) = 0 \<longleftrightarrow> d = 0"
  by (auto simp: min_def)

lemma osa_zero: "osa xs ys = 0 \<longleftrightarrow> xs = ys"
proof (induction xs ys rule: osa.induct)
  case (3 x xs y ys)
  have "osa (x # xs) (y # ys) = 0 \<longleftrightarrow> osa xs ys + (if x = y then 0 else 1) = 0"
    unfolding osa_Cons Let_def by (cases "swap_end xs ys x y") (simp_all only: option.case min_zero min.assoc)
  then show ?case using 3(3) by (simp del: osa.simps)
qed auto

lemma swap_end_sym:
  assumes "\<And>x' xs' y' ys'. xs = x' # xs' \<Longrightarrow> ys = y' # ys' \<Longrightarrow> osa xs' ys' = osa ys' xs'"
  shows "swap_end xs ys x y = swap_end ys xs y x"
  using assms by (auto simp: swap_end_def split: list.splits)

lemma osa_sym: "osa xs ys = osa ys xs"
proof (induction "length xs + length ys" arbitrary: xs ys rule: less_induct)
  case less
  show ?case
  proof (cases "xs = [] \<or> ys = []")
    case True
    then show ?thesis by (auto simp: osa_Nil_right)
  next
    case False
    obtain x xs' y ys' where xs: "xs = x # xs'" "ys = y # ys'" using False by (auto simp: neq_Nil_conv)
    have ih: "osa us vs = osa vs us" if "length us + length vs < length xs + length ys" for us vs :: "'a list" using less that by blast
    have swap: "swap_end xs' ys' x y = swap_end ys' xs' y x" by (rule swap_end_sym) (simp add: ih xs)
    have 1: "osa (x # xs') ys' = osa ys' (x # xs')" and 2: "osa xs' (y # ys') = osa (y # ys') xs'" and 3: "osa xs' ys' = osa ys' xs'"
      by (rule ih; simp add: xs)+
    have comm: "min (min p q) r = min (min q p) r" for p q r :: nat by (simp add: min.commute)
    have cost: "(if x = y then 0 else 1 :: nat) = (if y = x then 0 else 1)" by simp
    show ?thesis
      unfolding xs osa_Cons [of x xs' y ys'] osa_Cons [of y ys' x xs'] swap 1 2 3 Let_def cost
      unfolding comm [of "osa ys' (x # xs') + 1"] by (rule refl)
  qed
qed

text \<open>The distance is nothing exactly between equal words, and does not depend on which of the two is the typed one.
\<close>

theorem distance_is_symmetric:
  "(damerau_levenshtein a b = 0 \<longleftrightarrow> a = b) \<and> damerau_levenshtein a b = damerau_levenshtein b a"
  unfolding osa_table osa_zero using osa_sym [of "rev a" "rev b"] by simp

subsection \<open>The nearest popular name\<close>

definition name_distance :: "string \<Rightarrow> registry \<Rightarrow> string \<Rightarrow> nat" where
  "name_distance canon eco p = osa (rev canon) (rev (canonical p eco))"

definition is_near_miss :: "string \<Rightarrow> registry \<Rightarrow> string \<Rightarrow> bool" where
  "is_near_miss canon eco p \<longleftrightarrow> 1 \<le> name_distance canon eco p \<and> name_distance canon eco p \<le> max_distance (canonical p eco)"

text \<open>The best of the names seen so far: the first among the nearest.\<close>

definition best_ok :: "string \<Rightarrow> registry \<Rightarrow> string list \<Rightarrow> typosquat_match option \<Rightarrow> bool" where
  "best_ok canon eco seen best \<longleftrightarrow> (case best of
     None \<Rightarrow> \<not> list_ex (is_near_miss canon eco) seen
   | Some m \<Rightarrow> tm_distance m = name_distance canon eco (tm_popular m) \<and> is_near_miss canon eco (tm_popular m) \<and>
       tm_list_version m = POPULAR_LIST_VERSION \<and>
       (\<exists>us vs. seen = us @ tm_popular m # vs \<and>
          list_all (\<lambda>p. is_near_miss canon eco p \<longrightarrow> tm_distance m < name_distance canon eco p) us \<and>
          list_all (\<lambda>p. is_near_miss canon eco p \<longrightarrow> tm_distance m \<le> name_distance canon eco p) vs))"

lemma best_okI:
  assumes "tm_distance m = name_distance canon eco (tm_popular m)" "is_near_miss canon eco (tm_popular m)"
    "tm_list_version m = POPULAR_LIST_VERSION" "seen = us @ tm_popular m # vs"
    "list_all (\<lambda>p. is_near_miss canon eco p \<longrightarrow> tm_distance m < name_distance canon eco p) us"
    "list_all (\<lambda>p. is_near_miss canon eco p \<longrightarrow> tm_distance m \<le> name_distance canon eco p) vs"
  shows "best_ok canon eco seen (Some m)"
  unfolding best_ok_def option.case using assms by blast

lemma better_match_ok:
  assumes "best_ok canon eco seen best"
  shows "best_ok canon eco (seen @ [p]) (better_match canon eco p best)"
proof -
  have d: "damerau_levenshtein canon (canonical p eco) = name_distance canon eco p"
    by (simp add: osa_table name_distance_def)
  define new where "new = \<lparr>tm_popular = p, tm_distance = name_distance canon eco p, tm_list_version = POPULAR_LIST_VERSION\<rparr>"
  have step: "better_match canon eco p best =
      (if is_near_miss canon eco p \<and> (case best of None \<Rightarrow> True | Some m \<Rightarrow> name_distance canon eco p < tm_distance m) then Some new else best)"
    unfolding better_match_def Let_def d is_near_miss_def new_def by (simp only: conj_assoc)
  show ?thesis
  proof (cases best)
    case None
    have new: "best_ok canon eco (seen @ [p]) (Some new)" if "is_near_miss canon eco p"
    proof -
      have "list_all (\<lambda>q. is_near_miss canon eco q \<longrightarrow> tm_distance new < name_distance canon eco q) seen"
        using assms None by (simp add: best_ok_def list_ex_iff list_all_iff)
      moreover have "seen @ [p] = seen @ tm_popular new # []" by (simp add: new_def)
      ultimately show ?thesis using that by (intro best_okI [of _ _ _ _ seen "[]"]) (simp_all add: new_def)
    qed
    show ?thesis
    proof (cases "is_near_miss canon eco p")
      case True
      then show ?thesis using new unfolding step unfolding None by simp
    next
      case False
      then show ?thesis using assms unfolding step unfolding None by (simp add: best_ok_def)
    qed
  next
    case (Some m)
    obtain us vs where m: "tm_distance m = name_distance canon eco (tm_popular m)" "is_near_miss canon eco (tm_popular m)"
        "tm_list_version m = POPULAR_LIST_VERSION" and seen: "seen = us @ tm_popular m # vs"
      and us: "list_all (\<lambda>p. is_near_miss canon eco p \<longrightarrow> tm_distance m < name_distance canon eco p) us"
      and vs: "list_all (\<lambda>p. is_near_miss canon eco p \<longrightarrow> tm_distance m \<le> name_distance canon eco p) vs"
      using assms by (auto simp: best_ok_def Some)
    show ?thesis
    proof (cases "is_near_miss canon eco p \<and> name_distance canon eco p < tm_distance m")
      case True
      have "list_all (\<lambda>q. is_near_miss canon eco q \<longrightarrow> name_distance canon eco p < name_distance canon eco q) seen"
        using us vs True m(1) unfolding seen by (fastforce simp: list_all_iff)
      then have "best_ok canon eco (seen @ [p]) (Some new)"
        using True by (intro best_okI [of _ _ _ _ seen "[]"]) (simp_all add: new_def list_all_iff)
      then show ?thesis using True unfolding step unfolding Some by simp
    next
      case False
      have "list_all (\<lambda>q. is_near_miss canon eco q \<longrightarrow> tm_distance m \<le> name_distance canon eco q) (vs @ [p])"
        using vs False by auto
      then have "best_ok canon eco (seen @ [p]) (Some m)"
        using m us seen by (intro best_okI [of _ _ _ _ us "vs @ [p]"]) simp_all
      then show ?thesis using False unfolding step unfolding Some by auto
    qed
  qed
qed

lemma best_ok_fold:
  "best_ok canon eco seen best \<Longrightarrow> best_ok canon eco (seen @ ps) (fold (better_match canon eco) ps best)"
proof (induction ps arbitrary: seen best)
  case (Cons p ps)
  from Cons.IH [OF better_match_ok [OF Cons.prems, of p]] show ?case by simp
qed simp

text \<open>A name is reported as a near miss exactly when it has at least four characters, is not itself popular and some
  popular name is within the threshold of its length; the name reported is the first of the nearest ones, with its
  distance.
\<close>

theorem typosquat_is_nearest:
  assumes "dict_get ECOSYSTEM_ALIAS (py_lower ecosystem) = Some eco"
  shows "(nearest_popular name ecosystem \<noteq> None \<longleftrightarrow>
      4 \<le> length (canonical name eco) \<and> canonical name eco \<notin> (\<lambda>p. canonical p eco) ` set (popular_of eco) \<and>
      (\<exists>p \<in> set (popular_of eco). is_near_miss (canonical name eco) eco p)) \<and>
    (case nearest_popular name ecosystem of None \<Rightarrow> True | Some m \<Rightarrow>
      best_ok (canonical name eco) eco (popular_of eco) (Some m))"
proof -
  let ?canon = "canonical name eco"
  let ?best = "fold (better_match ?canon eco) (popular_of eco) None"
  have ok: "best_ok ?canon eco (popular_of eco) ?best"
    using best_ok_fold [of ?canon eco "[]" None "popular_of eco"] by (simp add: best_ok_def)
  have eq: "nearest_popular name ecosystem = (if length ?canon < 4 then None
      else if ?canon \<in> (\<lambda>p. canonical p eco) ` set (popular_of eco) then None else ?best)"
    using assms by (simp add: nearest_popular_def Let_def)
  have "?best \<noteq> None \<longleftrightarrow> (\<exists>p \<in> set (popular_of eco). is_near_miss ?canon eco p)"
  proof (cases ?best)
    case None
    then show ?thesis using ok by (simp add: best_ok_def list_ex_iff)
  next
    case (Some m)
    then have "is_near_miss ?canon eco (tm_popular m) \<and> tm_popular m \<in> set (popular_of eco)"
      using ok by (force simp: best_ok_def)
    then show ?thesis using Some by blast
  qed
  moreover have "case ?best of None \<Rightarrow> True | Some m \<Rightarrow> best_ok ?canon eco (popular_of eco) (Some m)"
    using ok by (cases ?best) simp_all
  ultimately show ?thesis unfolding eq by (auto simp: not_less)
qed

lemma typosquat_is_nearest_witness: "nearest_popular ''Loadsh'' ''node'' \<noteq> None"
proof -
  have eco: "dict_get ECOSYSTEM_ALIAS (py_lower ''node'') = Some RegNpm" by code_simp
  have len: "4 \<le> length (canonical ''Loadsh'' RegNpm)" by code_simp
  have own: "list_all (\<lambda>p. canonical p RegNpm \<noteq> canonical ''Loadsh'' RegNpm) (popular_of RegNpm)" by code_simp
  have near: "is_near_miss (canonical ''Loadsh'' RegNpm) RegNpm ''lodash''"
    unfolding is_near_miss_def name_distance_def osa_table [symmetric] by code_simp
  have lodash: "''lodash'' \<in> set (popular_of RegNpm)" by (simp add: popular_of_def POPULAR_NPM_def)
  have "canonical ''Loadsh'' RegNpm \<notin> (\<lambda>p. canonical p RegNpm) ` set (popular_of RegNpm)"
    using own unfolding list_all_iff by - (rule notI, erule imageE, drule bspec, assumption, erule notE, erule sym)
  then have "4 \<le> length (canonical ''Loadsh'' RegNpm) \<and>
      canonical ''Loadsh'' RegNpm \<notin> (\<lambda>p. canonical p RegNpm) ` set (popular_of RegNpm) \<and>
      (\<exists>p \<in> set (popular_of RegNpm). is_near_miss (canonical ''Loadsh'' RegNpm) RegNpm p)"
    using len near lodash by (intro conjI bexI)
  then show ?thesis by (rule iffD2 [OF conjunct1 [OF typosquat_is_nearest [OF eco, of "''Loadsh''"]]])
qed

end
