(* ===== verification/Correlation.thy ===== *)
theory Correlation
  imports PyValue Enums "HOL-Library.Multiset"
begin

text \<open>
  \<open>guardian_scanner/correlation.py\<close>: the rules that join findings of several engines, and the task that stores the groups.
  Titles, descriptions and rationales are constructors with the values the code formats into them.  The digest of a
  fingerprint is an argument.  The set of CVE identifiers of a finding is iterated in the order of the list it is made of.
\<close>

subsection \<open>Findings and groups\<close>

text \<open>The columns of a finding this module reads.\<close>

record corr_finding =
  cf_id :: string
  cf_tenant :: string
  cf_customer :: string
  cf_asset :: string
  cf_category :: string
  cf_status :: string
  cf_severity :: string
  cf_risk_score :: "int option"
  cf_cve_ids :: "jval list"
  cf_cwe_id :: "string option"
  cf_location :: jobj
  cf_evidence :: jval
  cf_secret_id :: "string option"
  cf_pointer :: "nat option"

datatype edge_reason = SameIdentity | SameRedaction | SamePosition | SameCve | CrossSide string string | SameSide string string

record member_edge =
  ed_source :: string
  ed_dest :: string
  ed_reason :: edge_reason
  ed_confidence :: correlation_confidence

datatype group_text = SecretText nat string | CveText nat string | ShippedText string | InjectionText string | ExposedText

datatype group_rationale = GroupedBy string nat | TakenFromStrongest severity | StrongestMember severity int
  | EscalatedTo severity int group_text

record group =
  gr_rule :: string
  gr_kind :: string
  gr_text :: group_text
  gr_members :: "string list"
  gr_primary :: string
  gr_severity :: severity
  gr_risk_score :: int
  gr_confidence :: correlation_confidence
  gr_rationale :: "group_rationale list"
  gr_customer :: string
  gr_ordered :: "string list"
  gr_edges :: "member_edge list"

definition MAX_FINDINGS :: nat where "MAX_FINDINGS = 20000"

definition MAX_GROUP_SIZE :: nat where "MAX_GROUP_SIZE = 200"

definition SEVERITY_ORDER :: "severity list" where
  "SEVERITY_ORDER = [SevInfo, SevLow, SevMedium, SevHigh, SevCritical]"

definition INJECTION_CWES :: "string set" where
  "INJECTION_CWES = {''CWE-89'', ''CWE-79'', ''CWE-78'', ''CWE-95'', ''CWE-22'', ''CWE-918'', ''CWE-1336''}"

definition SECRET_ENGINES :: "string set" where "SECRET_ENGINES = {''secrets'', ''sast'', ''container'', ''iac''}"

definition DEPENDENCY_ENGINES :: "string set" where "DEPENDENCY_ENGINES = {''sca'', ''container''}"

definition DYNAMIC_ENGINES :: "string set" where "DYNAMIC_ENGINES = {''dast'', ''api'', ''web_checks''}"

subsection \<open>Helpers of the rules\<close>

text \<open>A table filled by \<open>d[k].append(v)\<close>, keys in order of first use.\<close>

definition group_by :: "('k \<times> 'v) list \<Rightarrow> ('k, 'v list) odict" where
  "group_by ps = fold (\<lambda>(k, v) d. dict_append k v d) ps []"

definition severity_of :: "string \<Rightarrow> severity" where
  "severity_of v = (case enum_of severity_value severity_members v of Some s \<Rightarrow> s | None \<Rightarrow> SevInfo)"

definition escalate :: "severity \<Rightarrow> nat \<Rightarrow> severity" where
  "escalate s steps = SEVERITY_ORDER ! min (length SEVERITY_ORDER - 1) (severity_rank s + steps)"

definition engine_of :: "corr_finding \<Rightarrow> string" where
  "engine_of f =
     (case jget (cf_location f) ''engine'' of
        JStr (c # e) \<Rightarrow> c # e
      | _ \<Rightarrow>
        (let rule = py_str (jor (jget (cf_location f) ''rule'') (JStr [])) in
         if startswith rule ''taint-'' \<or> startswith rule ''py-'' \<or> startswith rule ''js-'' then ''sast''
         else if startswith rule ''web-check-'' then ''web_checks''
         else if startswith rule ''image-'' then ''container''
         else if startswith rule ''iac-'' then ''iac''
         else if startswith rule ''service-cve-'' then ''service_cve''
         else dict_getdef [(''secret'', ''secrets''), (''vuln-dep'', ''sca''), (''vuln-service'', ''service_cve'')]
                (cf_category f) (cf_category f)))"

text \<open>\<open>location.get("engine") or _engine_of(finding)\<close>, an engine that is no string being none of the known ones.\<close>

definition located_engine :: "corr_finding \<Rightarrow> string" where
  "located_engine f = (let e = jget (cf_location f) ''engine'' in
     if truthy e then (case e of JStr s \<Rightarrow> s | _ \<Rightarrow> []) else engine_of f)"

datatype basis = ByIdentity | ByValue | ByPosition

definition shown_value :: "jval \<Rightarrow> string option" where
  "shown_value v = (case v of JStr s \<Rightarrow> if py_strip s \<noteq> [] \<and> s \<noteq> ''<redacted>'' then Some (take 120 (py_strip s)) else None | _ \<Rightarrow> None)"

definition secret_identity :: "corr_finding \<Rightarrow> (string \<times> basis \<times> string) option" where
  "secret_identity f =
     (case cf_secret_id f of
        Some (c # s) \<Rightarrow> Some (''identity:'' @ c # s, ByIdentity, [])
      | _ \<Rightarrow>
        (let evidence = as_obj (cf_evidence f); detail = as_obj (jget evidence ''detail'');
             values = List.map_filter shown_value
               (concat (map (\<lambda>src. map (jget src) [''redacted'', ''redacted_excerpt'', ''excerpt'', ''match'']) [evidence, detail]));
             path = jget (cf_location f) ''path''; line = jget (cf_location f) ''line''; rule = jget (cf_location f) ''rule''
         in case values of
              snippet # _ \<Rightarrow> Some (''value:'' @ snippet, ByValue, snippet)
            | [] \<Rightarrow> if truthy path \<and> truthy line
                then Some (''position:'' @ py_str path @ '':'' @ py_str line @ (if truthy rule then '':'' @ py_str rule else []), ByPosition, [])
                else None))"

definition cves_of :: "corr_finding \<Rightarrow> string list" where
  "cves_of f = remdups (List.map_filter (\<lambda>c. case c of JStr s \<Rightarrow> if startswith s ''CVE-'' then Some s else None | _ \<Rightarrow> None) (cf_cve_ids f))"

definition risk_of :: "corr_finding \<Rightarrow> int" where
  "risk_of f = (case cf_risk_score f of Some r \<Rightarrow> r | None \<Rightarrow> 0)"

definition primary_key :: "corr_finding \<Rightarrow> int \<times> nat \<times> string" where
  "primary_key f = (risk_of f, severity_rank (severity_of (cf_severity f)), cf_id f)"

text \<open>Python's \<open>max\<close> with a key: the first of the greatest.  Every caller has members.\<close>

definition primary_of :: "corr_finding list \<Rightarrow> corr_finding" where
  "primary_of ms = fold (\<lambda>f best. if primary_key best < primary_key f then f else best) (tl ms) (hd ms)"

definition presentation_order :: "string \<Rightarrow> string list \<Rightarrow> string list" where
  "presentation_order primary members = primary # sort (filter (\<lambda>m. m \<noteq> primary) members)"

definition star_edges :: "string \<Rightarrow> string list \<Rightarrow> edge_reason \<Rightarrow> correlation_confidence \<Rightarrow> member_edge list" where
  "star_edges primary members reason confidence =
     map (\<lambda>m. \<lparr>ed_source = primary, ed_dest = m, ed_reason = reason, ed_confidence = confidence\<rparr>) (filter (\<lambda>m. m \<noteq> primary) members)"

definition bipartite_edges ::
    "string \<Rightarrow> string list \<Rightarrow> string set \<Rightarrow> edge_reason \<times> correlation_confidence \<Rightarrow> edge_reason \<times> correlation_confidence \<Rightarrow> member_edge list" where
  "bipartite_edges primary members one_side cross same =
     map (\<lambda>m. let (reason, confidence) = (if (m \<in> one_side) \<noteq> (primary \<in> one_side) then cross else same) in
            \<lparr>ed_source = primary, ed_dest = m, ed_reason = reason, ed_confidence = confidence\<rparr>)
       (filter (\<lambda>m. m \<noteq> primary) members)"

definition duplicate_group ::
    "string \<Rightarrow> group_text \<Rightarrow> corr_finding list \<Rightarrow> string \<Rightarrow> correlation_confidence \<Rightarrow> edge_reason \<Rightarrow> group" where
  "duplicate_group rule text members customer confidence reason =
     (let primary = primary_of members; severity = severity_of (cf_severity primary);
          ids = take MAX_GROUP_SIZE (map cf_id members)
      in \<lparr>gr_rule = rule, gr_kind = ''duplicate'', gr_text = text, gr_members = ids, gr_primary = cf_id primary,
          gr_severity = severity, gr_risk_score = risk_of primary, gr_confidence = confidence,
          gr_rationale = [GroupedBy rule (length members), TakenFromStrongest severity], gr_customer = customer,
          gr_ordered = presentation_order (cf_id primary) ids, gr_edges = star_edges (cf_id primary) ids reason confidence\<rparr>)"

definition escalated :: "corr_finding list \<Rightarrow> int \<Rightarrow> group_text \<Rightarrow> severity \<times> int \<times> group_rationale list" where
  "escalated members steps reason =
     (let primary = primary_of members; base = severity_of (cf_severity primary); severity = escalate base (nat steps) in
      (severity, min 100 (risk_of primary + 5 * steps), [StrongestMember base (risk_of primary), EscalatedTo severity (5 * steps) reason]))"

text \<open>The common shape of the three rules that join two sides.\<close>

definition two_sided_group ::
    "string \<Rightarrow> string \<Rightarrow> group_text \<Rightarrow> correlation_confidence \<Rightarrow> string \<Rightarrow> string \<Rightarrow> corr_finding list \<Rightarrow> corr_finding list \<Rightarrow> group" where
  "two_sided_group rule kind text confidence key customer side1 side2 =
     (let members = side1 @ side2; (severity, score, why) = escalated members 1 text;
          ids = take MAX_GROUP_SIZE (map cf_id members); primary = cf_id (primary_of members)
      in \<lparr>gr_rule = rule, gr_kind = kind, gr_text = text, gr_members = ids, gr_primary = primary, gr_severity = severity,
          gr_risk_score = score, gr_confidence = confidence, gr_rationale = why, gr_customer = customer,
          gr_ordered = presentation_order primary ids,
          gr_edges = bipartite_edges primary ids (cf_id ` set side1) (CrossSide rule key, confidence) (SameSide rule key, ConfPotential)\<rparr>)"

subsection \<open>The rules\<close>

definition secret_reported :: "corr_finding \<Rightarrow> ((string \<times> string) \<times> corr_finding \<times> basis \<times> string) list" where
  "secret_reported f =
     (if cf_category f \<notin> {''secret'', ''insecure-code'', ''container-misconfig''} then []
      else if located_engine f \<notin> SECRET_ENGINES then []
      else case secret_identity f of Some (bucket, b, display) \<Rightarrow> [((cf_customer f, bucket), f, b, display)] | None \<Rightarrow> [])"

definition secret_edge_reason :: "basis \<Rightarrow> edge_reason" where
  "secret_edge_reason b = (case b of ByIdentity \<Rightarrow> SameIdentity | ByValue \<Rightarrow> SameRedaction | ByPosition \<Rightarrow> SamePosition)"

definition group_same_secret :: "corr_finding list \<Rightarrow> group list" where
  "group_same_secret findings =
     map (\<lambda>((customer, _), found).
            let b = fst (snd (hd found)) in
            duplicate_group ''same-secret'' (SecretText (length found) (take 40 (snd (snd (hd found))))) (map fst found) customer
              (if b = ByIdentity then ConfConfirmed else ConfStrongEvidence) (secret_edge_reason b))
       (filter (\<lambda>(_, found). \<not> length found < 2) (group_by (concat (map secret_reported findings))))"

definition group_same_cve_on_asset :: "corr_finding list \<Rightarrow> group list" where
  "group_same_cve_on_asset findings =
     map (\<lambda>((_, cve), members).
            duplicate_group ''same-cve-on-asset'' (CveText (length members) cve) members (cf_customer (hd members)) ConfStrongEvidence SameCve)
       (filter (\<lambda>(_, members). \<not> length members < 2)
         (group_by (concat (map (\<lambda>f. map (\<lambda>cve. ((cf_asset f, cve), f)) (cves_of f)) findings))))"

datatype side = Shipped | Running

definition cve_side :: "corr_finding \<Rightarrow> side option" where
  "cve_side f =
     (if cf_category f = ''vuln-service'' then Some Running
      else if engine_of f \<in> DEPENDENCY_ENGINES \<and> cf_category f = ''vuln-dep'' then Some Shipped else None)"

definition on_side :: "'s \<Rightarrow> ('s \<times> 'a) list \<Rightarrow> 'a list" where
  "on_side s xs = map snd (filter (\<lambda>x. fst x = s) xs)"

definition group_shipped_and_running :: "corr_finding list \<Rightarrow> group list" where
  "group_shipped_and_running findings =
     map (\<lambda>((customer, cve), sides).
            two_sided_group ''shipped-and-running'' ''chain'' (ShippedText cve) ConfPotential cve customer
              (on_side Shipped sides) (on_side Running sides))
       (filter (\<lambda>(_, sides). on_side Shipped sides \<noteq> [] \<and> on_side Running sides \<noteq> [])
         (group_by (concat (map (\<lambda>f. case cve_side f of
              Some s \<Rightarrow> map (\<lambda>cve. ((cf_customer f, cve), (s, f))) (cves_of f) | None \<Rightarrow> []) findings))))"

definition injection_found :: "(string \<Rightarrow> bool) \<Rightarrow> corr_finding \<Rightarrow> ((string \<times> string) \<times> corr_finding) list" where
  "injection_found by_engine f = (case cf_cwe_id f of
     Some cwe \<Rightarrow> if cwe \<in> INJECTION_CWES \<and> by_engine (engine_of f) then [((cf_customer f, cwe), f)] else [] | None \<Rightarrow> [])"

definition group_injection_corroborated :: "corr_finding list \<Rightarrow> group list" where
  "group_injection_corroborated findings =
     (let static = group_by (concat (map (injection_found (\<lambda>e. e = ''sast'')) findings));
          dynamic = group_by (concat (map (injection_found (\<lambda>e. e \<noteq> ''sast'' \<and> e \<in> DYNAMIC_ENGINES)) findings))
      in map (\<lambda>((customer, cwe), members).
            two_sided_group ''injection-corroborated'' ''corroboration'' (InjectionText cwe) ConfStrongEvidence cwe customer
              members (dict_getdef dynamic (customer, cwe) []))
        (filter (\<lambda>(key, _). dict_getdef dynamic key [] \<noteq> []) static))"

definition is_exposure :: "corr_finding \<Rightarrow> bool" where
  "is_exposure f = (case jget (cf_location f) ''rule'' of
     JStr r \<Rightarrow> startswith r ''web-check-git'' \<or> startswith r ''web-check-env'' | _ \<Rightarrow> False)"

definition group_exposed_repository_secret :: "corr_finding list \<Rightarrow> group list" where
  "group_exposed_repository_secret findings =
     (let exposures = group_by (map (\<lambda>f. (cf_customer f, f)) (filter is_exposure findings));
          secrets = group_by (map (\<lambda>f. (cf_customer f, f)) (filter (\<lambda>f. \<not> is_exposure f \<and> engine_of f = ''secrets'') findings))
      in map (\<lambda>(customer, members).
            two_sided_group ''exposed-repository-secret'' ''chain'' ExposedText ConfPotential [] customer
              members (dict_getdef secrets customer []))
        (filter (\<lambda>(customer, _). dict_getdef secrets customer [] \<noteq> []) exposures))"

definition correlate :: "corr_finding list \<Rightarrow> group list" where
  "correlate findings = concat (map (\<lambda>rule. rule findings)
     [group_same_secret, group_same_cve_on_asset, group_shipped_and_running, group_injection_corroborated,
      group_exposed_repository_secret])"

definition group_fingerprint :: "(string \<Rightarrow> string) \<Rightarrow> group \<Rightarrow> string" where
  "group_fingerprint sha g = take 32 (sha (gr_rule g @ ''|'' @ join_with ''|'' (sort (gr_members g))))"

subsection \<open>Storing the groups\<close>

text \<open>
  The tables, with the member rows added but not yet written: the session does not flush before a query, so only a flush or
  the commit makes them visible and checks their key; \<open>cd_stored\<close> holds the pointers of the findings as last flushed.  New
  groups are numbered.
\<close>

record correlation_row =
  co_id :: nat
  co_tenant :: string
  co_customer :: string
  co_rule :: string
  co_fingerprint :: string
  co_text :: group_text
  co_kind :: string
  co_severity :: string
  co_risk_score :: int
  co_confidence :: string
  co_rationale :: "group_rationale list"
  co_member_count :: nat

record member_row =
  me_correlation :: nat
  me_finding :: string
  me_tenant :: string
  me_role :: string
  me_ordinal :: nat
  me_edge_source :: "string option"
  me_edge_reason :: "edge_reason option"
  me_edge_confidence :: "string option"

record corr_db =
  cd_findings :: "corr_finding list"
  cd_groups :: "correlation_row list"
  cd_members :: "member_row list"
  cd_pending :: "member_row list"
  cd_stored :: "nat option list"
  cd_next :: nat

datatype store_error = MemberConflict | ForeignKeyViolation

definition member_key :: "member_row \<Rightarrow> nat \<times> string" where
  "member_key m = (me_correlation m, me_finding m)"

definition flush_members :: "corr_db \<Rightarrow> store_error + corr_db" where
  "flush_members db = (if distinct (map member_key (cd_members db @ cd_pending db))
     then Inr (db\<lparr>cd_members := cd_members db @ cd_pending db, cd_pending := [], cd_stored := map cf_pointer (cd_findings db)\<rparr>)
     else Inl MemberConflict)"

definition new_correlation :: "string \<Rightarrow> string \<Rightarrow> group \<Rightarrow> nat \<Rightarrow> correlation_row" where
  "new_correlation tenant fp g n = \<lparr>co_id = n, co_tenant = tenant, co_customer = gr_customer g, co_rule = gr_rule g,
     co_fingerprint = fp, co_text = gr_text g, co_kind = gr_kind g, co_severity = severity_value (gr_severity g),
     co_risk_score = gr_risk_score g, co_confidence = correlation_confidence_value (gr_confidence g),
     co_rationale = gr_rationale g, co_member_count = length (gr_members g)\<rparr>"

definition refresh_correlation :: "group \<Rightarrow> correlation_row \<Rightarrow> correlation_row" where
  "refresh_correlation g c = c\<lparr>co_severity := severity_value (gr_severity g), co_risk_score := gr_risk_score g,
     co_confidence := correlation_confidence_value (gr_confidence g), co_rationale := gr_rationale g,
     co_member_count := length (gr_members g)\<rparr>"

definition last_edge :: "group \<Rightarrow> string \<Rightarrow> member_edge option" where
  "last_edge g fid = find (\<lambda>e. ed_dest e = fid) (rev (gr_edges g))"

fun position_in :: "'a list \<Rightarrow> 'a \<Rightarrow> nat option" where
  "position_in [] x = None"
| "position_in (y # ys) x = (case position_in ys x of Some i \<Rightarrow> Some (Suc i) | None \<Rightarrow> if y = x then Some 0 else None)"

definition member_of :: "string \<Rightarrow> group \<Rightarrow> nat \<Rightarrow> string \<Rightarrow> member_row" where
  "member_of tenant g gid fid =
     (let edge = last_edge g fid in
      \<lparr>me_correlation = gid, me_finding = fid, me_tenant = tenant,
       me_role = (if fid = gr_primary g then ''primary'' else if gr_kind g = ''duplicate'' then ''duplicate'' else ''corroborating''),
       me_ordinal = (case position_in (gr_ordered g) fid of Some i \<Rightarrow> i | None \<Rightarrow> 0),
       me_edge_source = map_option ed_source edge, me_edge_reason = map_option ed_reason edge,
       me_edge_confidence = map_option (\<lambda>e. correlation_confidence_value (ed_confidence e)) edge\<rparr>)"

text \<open>\<open>visible\<close>: the findings whose member row of this group a query returned.\<close>

definition store_member :: "string \<Rightarrow> group \<Rightarrow> nat \<Rightarrow> string set \<Rightarrow> string \<Rightarrow> corr_db \<Rightarrow> corr_db" where
  "store_member tenant g gid visible fid db =
     (let row = member_of tenant g gid fid;
          db = (if fid \<in> visible
                then db\<lparr>cd_members := map (\<lambda>m. if member_key m = (gid, fid)
                       then row\<lparr>me_tenant := me_tenant m\<rparr> else m) (cd_members db)\<rparr>
                else db\<lparr>cd_pending := cd_pending db @ [row]\<rparr>)
      in db\<lparr>cd_findings := map (\<lambda>f. if cf_id f = fid then f\<lparr>cf_pointer := Some gid\<rparr> else f) (cd_findings db)\<rparr>)"

definition persist :: "(string \<Rightarrow> string) \<Rightarrow> string \<Rightarrow> group \<Rightarrow> corr_db \<Rightarrow> store_error + corr_db \<times> bool \<times> nat" where
  "persist sha tenant g db =
     (let fp = group_fingerprint sha g in
      bind_r (case find (\<lambda>c. co_tenant c = tenant \<and> co_fingerprint c = fp) (cd_groups db) of
          None \<Rightarrow> bind_r (flush_members (db\<lparr>cd_groups := cd_groups db @ [new_correlation tenant fp g (cd_next db)], cd_next := Suc (cd_next db)\<rparr>))
                    (\<lambda>db'. Inr (db', True, cd_next db))
        | Some c \<Rightarrow> Inr (db\<lparr>cd_groups := map (\<lambda>x. if co_id x = co_id c then refresh_correlation g x else x) (cd_groups db)\<rparr>, False, co_id c))
      (\<lambda>(db1, created, gid).
         let visible = me_finding ` set (filter (\<lambda>m. me_correlation m = gid) (cd_members db1))
         in Inr (fold (store_member tenant g gid visible) (gr_members g) db1, created, gid)))"

fun persist_all :: "(string \<Rightarrow> string) \<Rightarrow> string \<Rightarrow> group list \<Rightarrow> corr_db \<Rightarrow> store_error + corr_db \<times> (bool \<times> nat) list" where
  "persist_all sha tenant [] db = Inr (db, [])"
| "persist_all sha tenant (g # gs) db =
     bind_r (persist sha tenant g db) (\<lambda>(db1, created, gid).
     bind_r (persist_all sha tenant gs db1) (\<lambda>(db2, outcome). Inr (db2, (created, gid) # outcome)))"

definition finding_in_scope :: "string \<Rightarrow> string option \<Rightarrow> corr_finding \<Rightarrow> bool" where
  "finding_in_scope tenant customer f \<longleftrightarrow> cf_tenant f = tenant \<and> (case customer of None \<Rightarrow> True | Some c \<Rightarrow> cf_customer f = c)"

definition group_in_scope :: "string \<Rightarrow> string option \<Rightarrow> correlation_row \<Rightarrow> bool" where
  "group_in_scope tenant customer g \<longleftrightarrow> co_tenant g = tenant \<and> (case customer of None \<Rightarrow> True | Some c \<Rightarrow> co_customer g = c)"

definition stale_pointer :: "string \<Rightarrow> string option \<Rightarrow> nat list \<Rightarrow> corr_finding \<Rightarrow> bool" where
  "stale_pointer tenant customer current f \<longleftrightarrow> finding_in_scope tenant customer f \<and>
     (case cf_pointer f of None \<Rightarrow> False | Some i \<Rightarrow> i \<notin> set current)"

definition stale_group :: "string \<Rightarrow> string option \<Rightarrow> nat list \<Rightarrow> correlation_row \<Rightarrow> bool" where
  "stale_group tenant customer current g \<longleftrightarrow> group_in_scope tenant customer g \<and> co_id g \<notin> set current"

text \<open>The session does not flush on its own, so the statements see the pointers as last flushed; those are what the count of
  cleared pointers counts.  Pointers are cleared before the groups go, with their member rows; a pointer left to a removed group,
  stored or still to be written, is refused.\<close>

definition reconcile_groups :: "string \<Rightarrow> string option \<Rightarrow> nat list \<Rightarrow> corr_db \<Rightarrow> store_error + corr_db \<times> nat \<times> nat" where
  "reconcile_groups tenant customer current db =
     (let stored = map (\<lambda>(f, p). f\<lparr>cf_pointer := p\<rparr>) (zip (cd_findings db) (cd_stored db));
          cleared = filter (stale_pointer tenant customer current) stored;
          clear = map (\<lambda>f. if stale_pointer tenant customer current f then f\<lparr>cf_pointer := None\<rparr> else f);
          removed = filter (stale_group tenant customer current) (cd_groups db);
          gone = co_id ` set removed
      in if list_ex (\<lambda>f. case cf_pointer f of Some i \<Rightarrow> i \<in> gone | None \<Rightarrow> False) (clear stored @ clear (cd_findings db))
         then Inl ForeignKeyViolation
         else Inr (db\<lparr>cd_findings := clear (cd_findings db), cd_stored := map cf_pointer (clear stored),
                      cd_groups := filter (\<lambda>g. \<not> stale_group tenant customer current g) (cd_groups db),
                      cd_members := filter (\<lambda>m. me_correlation m \<notin> gone) (cd_members db)\<rparr>, length cleared, length removed))"

record corr_stats =
  cs_findings :: nat
  cs_groups :: nat
  cs_created :: nat
  cs_updated :: nat
  cs_members :: nat
  cs_pointers_cleared :: nat
  cs_groups_removed :: nat

definition open_findings :: "string \<Rightarrow> string option \<Rightarrow> corr_db \<Rightarrow> corr_finding list" where
  "open_findings tenant customer db = take MAX_FINDINGS
     (filter (\<lambda>f. finding_in_scope tenant customer f \<and> cf_status f \<in> {''open'', ''triaged'', ''confirmed''}) (cd_findings db))"

definition correlate_tenant :: "(string \<Rightarrow> string) \<Rightarrow> string \<Rightarrow> string option \<Rightarrow> corr_db \<Rightarrow> store_error + corr_db \<times> corr_stats" where
  "correlate_tenant sha tenant customer db =
     (let findings = open_findings tenant customer db; groups = correlate findings in
      bind_r (persist_all sha tenant groups db) (\<lambda>(db1, outcome).
      bind_r (reconcile_groups tenant customer (map snd outcome) db1) (\<lambda>(db2, cleared, removed).
      bind_r (flush_members db2) (\<lambda>db3.
        Inr (db3, \<lparr>cs_findings = length findings, cs_groups = length groups,
               cs_created = length (filter fst outcome), cs_updated = length (filter (\<lambda>r. \<not> fst r) outcome),
               cs_members = sum_list (map (\<lambda>g. length (gr_members g)) groups),
               cs_pointers_cleared = cleared, cs_groups_removed = removed\<rparr>)))))"

section \<open>Facts\<close>

subsection \<open>Tables by key\<close>

definition at_key_list :: "'k \<Rightarrow> ('k \<times> 'v) list \<Rightarrow> 'v list" where
  "at_key_list k ps = map snd (filter (\<lambda>p. fst p = k) ps)"

lemma group_by_snoc: "group_by (ps @ [(k, v)]) = dict_append k v (group_by ps)"
  by (simp add: group_by_def)

lemma group_by_getdef: "dict_getdef (group_by ps) k [] = at_key_list k ps"
proof (induction ps rule: rev_induct)
  case Nil
  then show ?case by (simp add: group_by_def at_key_list_def dict_getdef_def)
next
  case (snoc p ps)
  obtain k' v where p: "p = (k', v)" by fastforce
  then show ?case using snoc by (auto simp: group_by_snoc dict_getdef_append at_key_list_def)
qed

lemma group_by_keys: "fst ` set (group_by ps) = fst ` set ps \<and> distinct (map fst (group_by ps))"
proof (induction ps rule: rev_induct)
  case (snoc p ps)
  obtain k' v where p: "p = (k', v)" by fastforce
  then show ?case using snoc by (simp add: group_by_snoc dict_append_def dict_keys_set distinct_dict_set)
qed (simp add: group_by_def)

lemma group_by_entry:
  assumes "(k, vs) \<in> set (group_by ps)"
  shows "vs = at_key_list k ps" "vs \<noteq> []"
proof -
  have "dict_get (group_by ps) k = Some vs" using assms group_by_keys [of ps] by (intro dict_get_mem) auto
  then show vs: "vs = at_key_list k ps" using group_by_getdef [of ps k] by (simp add: dict_getdef_def)
  have "k \<in> fst ` set ps" using assms group_by_keys [of ps] by force
  then show "vs \<noteq> []" unfolding vs at_key_list_def by (auto simp: filter_empty_conv)
qed

lemma at_key_list_mem: "v \<in> set (at_key_list k ps) \<longleftrightarrow> (k, v) \<in> set ps"
  by (force simp: at_key_list_def)

subsection \<open>The strongest member\<close>

lemma primary_fold:
  "fold (\<lambda>f best. if primary_key best < primary_key f then f else best) fs b \<in> insert b (set fs) \<and>
   (\<forall>f \<in> insert b (set fs). primary_key f \<le> primary_key (fold (\<lambda>f best. if primary_key best < primary_key f then f else best) fs b))"
proof (induction fs arbitrary: b)
  case (Cons f fs)
  from Cons [of "if primary_key b < primary_key f then f else b"] show ?case
    by (auto split: if_splits intro: order_trans [OF less_imp_le] order_trans [OF _ leI] dest: leI)
qed simp

lemma primary_in: "ms \<noteq> [] \<Longrightarrow> primary_of ms \<in> set ms"
  using primary_fold [of "tl ms" "hd ms"] by (cases ms) (simp_all add: primary_of_def)

lemma primary_max: "f \<in> set ms \<Longrightarrow> primary_key f \<le> primary_key (primary_of ms)"
  using primary_fold [of "tl ms" "hd ms"] by (cases ms) (auto simp: primary_of_def)

subsection \<open>What a group is made of\<close>

text \<open>A group of kind \<open>duplicate\<close> or of two sides, over the members \<open>ms\<close>.\<close>

definition one_step_above :: "severity \<Rightarrow> severity" where
  "one_step_above s = (case s of SevInfo \<Rightarrow> SevLow | SevLow \<Rightarrow> SevMedium | SevMedium \<Rightarrow> SevHigh | _ \<Rightarrow> SevCritical)"

lemma escalate_one: "escalate s (nat 1) = one_step_above s"
  by (cases s) (simp_all add: escalate_def SEVERITY_ORDER_def one_step_above_def)

definition well_formed_group :: "group \<Rightarrow> corr_finding list \<Rightarrow> bool" where
  "well_formed_group g ms \<longleftrightarrow> 2 \<le> length ms \<and> gr_members g = take MAX_GROUP_SIZE (map cf_id ms) \<and>
     gr_primary g = cf_id (primary_of ms) \<and> gr_ordered g = presentation_order (gr_primary g) (gr_members g) \<and>
     map ed_dest (gr_edges g) = filter (\<lambda>m. m \<noteq> gr_primary g) (gr_members g) \<and>
     list_all (\<lambda>e. ed_source e = gr_primary g) (gr_edges g) \<and>
     (if gr_kind g = ''duplicate''
      then gr_severity g = severity_of (cf_severity (primary_of ms)) \<and> gr_risk_score g = risk_of (primary_of ms)
      else gr_severity g = one_step_above (severity_of (cf_severity (primary_of ms))) \<and>
        gr_risk_score g = min 100 (risk_of (primary_of ms) + 5))"

lemma duplicate_well_formed:
  "2 \<le> length ms \<Longrightarrow> well_formed_group (duplicate_group rule text ms customer conf reason) ms"
  by (simp add: well_formed_group_def duplicate_group_def star_edges_def Let_def list_all_iff comp_def)

lemma two_sided_well_formed:
  assumes "xs \<noteq> []" "ys \<noteq> []" "kind \<noteq> ''duplicate''"
  shows "well_formed_group (two_sided_group rule kind text conf key customer xs ys) (xs @ ys)"
proof -
  have "2 \<le> length xs + length ys" using assms(1,2) by (cases xs; cases ys) simp_all
  then show ?thesis
    using assms(3)
    by (simp add: well_formed_group_def two_sided_group_def escalated_def escalate_one [simplified] bipartite_edges_def Let_def
        list_all_iff comp_def case_prod_beta) auto
qed

text \<open>The evidence each rule rests on.\<close>

definition secret_evidence :: "group \<Rightarrow> corr_finding list \<Rightarrow> bool" where
  "secret_evidence g ms \<longleftrightarrow> gr_rule g = ''same-secret'' \<and> gr_kind g = ''duplicate'' \<and> (\<forall>f \<in> set ms. cf_customer f = gr_customer g) \<and>
     (\<exists>bucket b. (\<forall>f \<in> set ms. \<exists>b' d. secret_identity f = Some (bucket, b', d)) \<and> (\<exists>f \<in> set ms. \<exists>d. secret_identity f = Some (bucket, b, d)) \<and>
        gr_confidence g = (if b = ByIdentity then ConfConfirmed else ConfStrongEvidence))"

definition cve_evidence :: "group \<Rightarrow> corr_finding list \<Rightarrow> bool" where
  "cve_evidence g ms \<longleftrightarrow> gr_rule g = ''same-cve-on-asset'' \<and> gr_kind g = ''duplicate'' \<and> gr_confidence g = ConfStrongEvidence \<and>
     (\<exists>cve asset. \<forall>f \<in> set ms. cf_asset f = asset \<and> cve \<in> set (cves_of f))"

definition chain_evidence :: "group \<Rightarrow> corr_finding list \<Rightarrow> bool" where
  "chain_evidence g ms \<longleftrightarrow> gr_rule g = ''shipped-and-running'' \<and> gr_kind g = ''chain'' \<and> gr_confidence g = ConfPotential \<and>
     (\<forall>f \<in> set ms. cf_customer f = gr_customer g) \<and>
     (\<exists>cve. (\<forall>f \<in> set ms. cve \<in> set (cves_of f)) \<and> (\<exists>f \<in> set ms. cve_side f = Some Shipped) \<and> (\<exists>f \<in> set ms. cve_side f = Some Running))"

definition injection_evidence :: "group \<Rightarrow> corr_finding list \<Rightarrow> bool" where
  "injection_evidence g ms \<longleftrightarrow> gr_rule g = ''injection-corroborated'' \<and> gr_kind g = ''corroboration'' \<and>
     gr_confidence g = ConfStrongEvidence \<and> (\<forall>f \<in> set ms. cf_customer f = gr_customer g) \<and>
     (\<exists>cwe. (\<forall>f \<in> set ms. cf_cwe_id f = Some cwe) \<and> (\<exists>f \<in> set ms. engine_of f = ''sast'') \<and> (\<exists>f \<in> set ms. engine_of f \<in> DYNAMIC_ENGINES))"

definition exposure_evidence :: "group \<Rightarrow> corr_finding list \<Rightarrow> bool" where
  "exposure_evidence g ms \<longleftrightarrow> gr_rule g = ''exposed-repository-secret'' \<and> gr_kind g = ''chain'' \<and> gr_confidence g = ConfPotential \<and>
     (\<forall>f \<in> set ms. cf_customer f = gr_customer g) \<and> (\<exists>f \<in> set ms. is_exposure f) \<and> (\<exists>f \<in> set ms. engine_of f = ''secrets'')"

definition evidence :: "group \<Rightarrow> corr_finding list \<Rightarrow> bool" where
  "evidence g ms \<longleftrightarrow> secret_evidence g ms \<or> cve_evidence g ms \<or> chain_evidence g ms \<or> injection_evidence g ms \<or> exposure_evidence g ms"

definition confirmed_edges_ok :: "group \<Rightarrow> bool" where
  "confirmed_edges_ok g \<longleftrightarrow> (\<forall>e \<in> set (gr_edges g). ed_confidence e = ConfConfirmed \<longrightarrow> gr_confidence g = ConfConfirmed)"

definition formed_from :: "corr_finding list \<Rightarrow> group \<Rightarrow> corr_finding list \<Rightarrow> bool" where
  "formed_from fs g ms \<longleftrightarrow> set ms \<subseteq> set fs \<and> well_formed_group g ms \<and> evidence g ms \<and> confirmed_edges_ok g \<and>
     (distinct (map cf_id fs) \<longrightarrow> distinct (map cf_id ms))"

lemma formed_fromI:
  "set ms \<subseteq> set fs \<Longrightarrow> well_formed_group g ms \<Longrightarrow> evidence g ms \<Longrightarrow> confirmed_edges_ok g \<Longrightarrow>
     (distinct (map cf_id fs) \<Longrightarrow> distinct (map cf_id ms)) \<Longrightarrow> formed_from fs g ms"
  by (simp add: formed_from_def)

lemma two_sided_fields [simp]:
  "gr_rule (two_sided_group rule kind text conf key customer xs ys) = rule"
  "gr_kind (two_sided_group rule kind text conf key customer xs ys) = kind"
  "gr_confidence (two_sided_group rule kind text conf key customer xs ys) = conf"
  "gr_customer (two_sided_group rule kind text conf key customer xs ys) = customer"
  by (simp_all add: two_sided_group_def escalated_def Let_def)

lemma duplicate_fields [simp]:
  "gr_rule (duplicate_group rule text ms customer conf reason) = rule"
  "gr_kind (duplicate_group rule text ms customer conf reason) = ''duplicate''"
  "gr_confidence (duplicate_group rule text ms customer conf reason) = conf"
  "gr_customer (duplicate_group rule text ms customer conf reason) = customer"
  by (simp_all add: duplicate_group_def Let_def)

lemma duplicate_edges_ok: "confirmed_edges_ok (duplicate_group rule text ms customer conf reason)"
  by (auto simp: confirmed_edges_ok_def duplicate_group_def Let_def star_edges_def)

lemma two_sided_edges_ok: "conf \<noteq> ConfConfirmed \<Longrightarrow> confirmed_edges_ok (two_sided_group rule kind text conf key customer xs ys)"
  by (auto simp: confirmed_edges_ok_def two_sided_group_def escalated_def Let_def bipartite_edges_def split: if_splits)

subsection \<open>Every rule forms such groups\<close>

lemma at_key_concat:
  assumes "\<And>f. f \<in> set fs \<Longrightarrow> map sel (at_key_list k (h f)) = (if P f then [f] else [])"
  shows "map sel (at_key_list k (concat (map h fs))) = filter P fs"
  using assms by (induction fs) (simp_all add: at_key_list_def)

lemma distinct_filter_ids: "distinct (map cf_id fs) \<Longrightarrow> distinct (map cf_id (filter P fs))"
  by (induction fs) auto

lemma distinct_two_sides:
  assumes "distinct (map cf_id fs)" "\<And>f. f \<in> set fs \<Longrightarrow> \<not> (P f \<and> Q f)"
  shows "distinct (map cf_id (filter P fs @ filter Q fs))"
proof -
  have "inj_on cf_id (set fs)" using assms(1) by (simp add: distinct_map)
  then have "cf_id ` set (filter P fs) \<inter> cf_id ` set (filter Q fs) = {}"
    using assms(2) by (auto dest: inj_onD)
  then show ?thesis using distinct_filter_ids [OF assms(1)] by (simp add: set_map del: set_filter)
qed

definition in_secret_bucket :: "string \<times> string \<Rightarrow> corr_finding \<Rightarrow> bool" where
  "in_secret_bucket k f \<longleftrightarrow> at_key_list k (secret_reported f) \<noteq> []"

lemma secret_reported_one:
  "map fst (at_key_list k (secret_reported f)) = (if in_secret_bucket k f then [f] else [])"
  by (auto simp: in_secret_bucket_def secret_reported_def at_key_list_def split: option.splits)

lemma secret_reported_mem:
  "(k, f', b, d) \<in> set (secret_reported f) \<Longrightarrow> f' = f \<and> fst k = cf_customer f \<and> secret_identity f = Some (snd k, b, d)"
  by (auto simp: secret_reported_def split: if_splits option.splits)

lemma same_secret_formed:
  assumes "g \<in> set (group_same_secret fs)"
  shows "\<exists>ms. formed_from fs g ms"
proof -
  obtain k found where k: "(k, found) \<in> set (group_by (concat (map secret_reported fs)))" "2 \<le> length found"
    and g: "g = duplicate_group ''same-secret'' (SecretText (length found) (take 40 (snd (snd (hd found))))) (map fst found) (fst k)
        (if fst (snd (hd found)) = ByIdentity then ConfConfirmed else ConfStrongEvidence) (secret_edge_reason (fst (snd (hd found))))"
    using assms by (auto simp: group_same_secret_def Let_def not_less)
  note entry = group_by_entry [OF k(1)]
  have mem: "\<exists>f \<in> set fs. (k, p) \<in> set (secret_reported f)" if "p \<in> set found" for p
    using that unfolding entry(1) at_key_list_mem by auto
  have ids: "f \<in> set fs \<and> cf_customer f = fst k \<and> secret_identity f = Some (snd k, b, d)" if "(f, b, d) \<in> set found" for f b d
    using mem [OF that] by (auto dest: secret_reported_mem)
  have ms: "map fst found = filter (in_secret_bucket k) fs"
    unfolding entry(1) by (rule at_key_concat) (rule secret_reported_one)
  obtain f0 b0 d0 where hd: "hd found = (f0, b0, d0)" "(f0, b0, d0) \<in> set found" using entry(2) by (metis hd_in_set prod_cases3)
  have "\<forall>f \<in> set (map fst found). \<exists>b' d. secret_identity f = Some (snd k, b', d)" using ids by fastforce
  moreover have "\<exists>f \<in> set (map fst found). \<exists>d. secret_identity f = Some (snd k, b0, d)" using ids [OF hd(2)] hd(2) by force
  moreover have "\<forall>f \<in> set (map fst found). cf_customer f = gr_customer g" using ids unfolding g duplicate_fields by fastforce
  moreover have "gr_confidence g = (if b0 = ByIdentity then ConfConfirmed else ConfStrongEvidence)" by (simp add: g hd(1))
  moreover have "gr_rule g = ''same-secret''" "gr_kind g = ''duplicate''" by (simp_all add: g)
  ultimately have "secret_evidence g (map fst found)"
    unfolding secret_evidence_def by (intro conjI exI [of _ "snd k"] exI [of _ b0])
  then have "evidence g (map fst found)" by (simp add: evidence_def)
  moreover have "well_formed_group g (map fst found)" unfolding g using k(2) by (intro duplicate_well_formed) simp
  moreover have "confirmed_edges_ok g" unfolding g by (rule duplicate_edges_ok)
  ultimately have "formed_from fs g (map fst found)" unfolding ms by (intro formed_fromI distinct_filter_ids) auto
  then show ?thesis ..
qed

lemma cves_distinct: "distinct (cves_of f)" by (simp add: cves_of_def)

lemma at_key_cves:
  "at_key_list (a, cve) (map (\<lambda>c. ((b, c), v)) (cves_of f)) = (if a = b \<and> cve \<in> set (cves_of f) then [v] else [])"
proof -
  have "at_key_list (a, cve) (map (\<lambda>c. ((b, c), v)) cs) = (if a = b \<and> cve \<in> set cs then [v] else [])" if "distinct cs" for cs
    using that by (induction cs) (auto simp: at_key_list_def)
  then show ?thesis using cves_distinct by blast
qed

lemma same_cve_formed:
  assumes "g \<in> set (group_same_cve_on_asset fs)"
  shows "\<exists>ms. formed_from fs g ms"
proof -
  let ?h = "\<lambda>f. map (\<lambda>cve. ((cf_asset f, cve), f)) (cves_of f)"
  obtain a cve ms where k: "((a, cve), ms) \<in> set (group_by (concat (map ?h fs)))" "2 \<le> length ms"
    and g: "g = duplicate_group ''same-cve-on-asset'' (CveText (length ms) cve) ms (cf_customer (hd ms)) ConfStrongEvidence SameCve"
    using assms by (auto simp: group_same_cve_on_asset_def not_less)
  have "map id (at_key_list (a, cve) (concat (map ?h fs))) = filter (\<lambda>f. a = cf_asset f \<and> cve \<in> set (cves_of f)) fs"
    by (rule at_key_concat) (simp add: at_key_cves)
  then have ms: "ms = filter (\<lambda>f. a = cf_asset f \<and> cve \<in> set (cves_of f)) fs" using group_by_entry(1) [OF k(1)] by simp
  have "\<forall>f \<in> set ms. cf_asset f = a \<and> cve \<in> set (cves_of f)" by (auto simp: ms)
  then have "cve_evidence g ms" unfolding cve_evidence_def by (intro conjI exI [of _ cve] exI [of _ a]) (simp_all add: g)
  then have "evidence g ms" by (simp add: evidence_def)
  moreover have "well_formed_group g ms" unfolding g using k(2) by (rule duplicate_well_formed)
  moreover have "confirmed_edges_ok g" unfolding g by (rule duplicate_edges_ok)
  ultimately have "formed_from fs g ms" by (intro formed_fromI) (auto simp: ms distinct_filter_ids)
  then show ?thesis ..
qed

lemma shipped_formed:
  assumes "g \<in> set (group_shipped_and_running fs)"
  shows "\<exists>ms. formed_from fs g ms"
proof -
  let ?h = "\<lambda>f. case cve_side f of Some s \<Rightarrow> map (\<lambda>cve. ((cf_customer f, cve), (s, f))) (cves_of f) | None \<Rightarrow> []"
  obtain c cve sides where k: "((c, cve), sides) \<in> set (group_by (concat (map ?h fs)))"
    and ne: "on_side Shipped sides \<noteq> []" "on_side Running sides \<noteq> []"
    and g: "g = two_sided_group ''shipped-and-running'' ''chain'' (ShippedText cve) ConfPotential cve c
        (on_side Shipped sides) (on_side Running sides)"
    using assms by (auto simp: group_shipped_and_running_def)
  let ?P = "\<lambda>s f. cve_side f = Some s \<and> c = cf_customer f \<and> cve \<in> set (cves_of f)"
  have side: "on_side s sides = filter (?P s) fs" for s
  proof -
    have "on_side s (at_key_list (c, cve) (concat (map ?h fs))) = filter (?P s) fs"
    proof (induction fs)
      case (Cons f fs)
      have "on_side s (at_key_list (c, cve) (?h f)) = (if ?P s f then [f] else [])"
        by (cases "cve_side f") (auto simp: at_key_cves on_side_def at_key_list_def [of _ "[]"])
      then show ?case using Cons by (simp add: at_key_list_def on_side_def)
    qed (simp add: at_key_list_def on_side_def)
    then show ?thesis using group_by_entry(1) [OF k] by simp
  qed
  let ?ms = "on_side Shipped sides @ on_side Running sides"
  obtain f1 f2 where f: "f1 \<in> set (filter (?P Shipped) fs)" "f2 \<in> set (filter (?P Running) fs)"
    using hd_in_set [OF ne(1)] hd_in_set [OF ne(2)] that unfolding side by blast
  have "chain_evidence g ?ms"
    unfolding chain_evidence_def g side using f by (intro conjI exI [of _ cve] bexI [of _ f1] bexI [of _ f2]) auto
  then have "evidence g ?ms" by (simp add: evidence_def)
  moreover have "well_formed_group g ?ms" unfolding g using ne by (intro two_sided_well_formed) simp_all
  moreover have "confirmed_edges_ok g" unfolding g by (rule two_sided_edges_ok) simp
  moreover have "distinct (map cf_id fs) \<Longrightarrow> distinct (map cf_id ?ms)" unfolding side by (rule distinct_two_sides) auto
  ultimately have "formed_from fs g ?ms" by (intro formed_fromI) (auto simp: side)
  then show ?thesis ..
qed

lemma injection_one:
  "at_key_list (c, cwe) (injection_found e f) =
     (if cf_cwe_id f = Some cwe \<and> cwe \<in> INJECTION_CWES \<and> e (engine_of f) \<and> c = cf_customer f then [f] else [])"
  by (auto simp: injection_found_def at_key_list_def split: option.splits)

lemma injection_formed:
  assumes "g \<in> set (group_injection_corroborated fs)"
  shows "\<exists>ms. formed_from fs g ms"
proof -
  let ?st = "\<lambda>e. e = ''sast''" and ?dy = "\<lambda>e. e \<noteq> ''sast'' \<and> e \<in> DYNAMIC_ENGINES"
  let ?of = "\<lambda>e. concat (map (injection_found e) fs)"
  obtain c cwe xs where k: "((c, cwe), xs) \<in> set (group_by (?of ?st))" and ne: "dict_getdef (group_by (?of ?dy)) (c, cwe) [] \<noteq> []"
    and g: "g = two_sided_group ''injection-corroborated'' ''corroboration'' (InjectionText cwe) ConfStrongEvidence cwe c xs
        (dict_getdef (group_by (?of ?dy)) (c, cwe) [])"
    using assms by (auto simp: group_injection_corroborated_def Let_def)
  let ?P = "\<lambda>e f. cf_cwe_id f = Some cwe \<and> cwe \<in> INJECTION_CWES \<and> e (engine_of f) \<and> c = cf_customer f"
  have sel: "at_key_list (c, cwe) (?of e) = filter (?P e) fs" for e
    using at_key_concat [of fs id "(c, cwe)" "injection_found e" "?P e"] by (simp add: injection_one)
  have xs: "xs = filter (?P ?st) fs" using group_by_entry(1) [OF k] sel by simp
  have ys: "dict_getdef (group_by (?of ?dy)) (c, cwe) [] = filter (?P ?dy) fs" unfolding group_by_getdef by (rule sel)
  let ?ms = "filter (?P ?st) fs @ filter (?P ?dy) fs"
  have ne2: "filter (?P ?st) fs \<noteq> []" "filter (?P ?dy) fs \<noteq> []" using group_by_entry(2) [OF k] ne unfolding xs ys by simp_all
  obtain f1 f2 where f: "f1 \<in> set (filter (?P ?st) fs)" "f2 \<in> set (filter (?P ?dy) fs)"
    using hd_in_set [OF ne2(1)] hd_in_set [OF ne2(2)] that by blast
  have f12: "engine_of f1 = ''sast''" "engine_of f2 \<in> DYNAMIC_ENGINES" "f1 \<in> set ?ms" "f2 \<in> set ?ms" using f by auto
  have ex: "\<exists>f \<in> set ?ms. engine_of f = ''sast''" "\<exists>f \<in> set ?ms. engine_of f \<in> DYNAMIC_ENGINES" using f12 by blast+
  have all: "\<forall>f \<in> set ?ms. cf_customer f = c" "\<forall>f \<in> set ?ms. cf_cwe_id f = Some cwe" by auto
  have "injection_evidence g ?ms"
    unfolding injection_evidence_def g two_sided_fields using ex all by (intro conjI exI [of _ cwe] refl)
  then have "evidence g ?ms" by (simp add: evidence_def)
  moreover have "well_formed_group g ?ms" unfolding g xs ys using ne2 by (intro two_sided_well_formed) simp_all
  moreover have "confirmed_edges_ok g" unfolding g by (rule two_sided_edges_ok) simp
  moreover have "distinct (map cf_id fs) \<Longrightarrow> distinct (map cf_id ?ms)" by (rule distinct_two_sides) auto
  ultimately have "formed_from fs g ?ms" by (intro formed_fromI) auto
  then show ?thesis ..
qed

lemma exposed_formed:
  assumes "g \<in> set (group_exposed_repository_secret fs)"
  shows "\<exists>ms. formed_from fs g ms"
proof -
  let ?of = "\<lambda>P. map (\<lambda>f. (cf_customer f, f)) (filter P fs)" and ?se = "\<lambda>f. \<not> is_exposure f \<and> engine_of f = ''secrets''"
  obtain c xs where k: "(c, xs) \<in> set (group_by (?of is_exposure))" and ne: "dict_getdef (group_by (?of ?se)) c [] \<noteq> []"
    and g: "g = two_sided_group ''exposed-repository-secret'' ''chain'' ExposedText ConfPotential [] c xs
        (dict_getdef (group_by (?of ?se)) c [])"
    using assms by (auto simp: group_exposed_repository_secret_def Let_def)
  have sel: "at_key_list c (?of P) = filter (\<lambda>f. P f \<and> cf_customer f = c) fs" for P
    by (induction fs) (auto simp: at_key_list_def)
  have xs: "xs = filter (\<lambda>f. is_exposure f \<and> cf_customer f = c) fs" using group_by_entry(1) [OF k] sel by simp
  have ys: "dict_getdef (group_by (?of ?se)) c [] = filter (\<lambda>f. ?se f \<and> cf_customer f = c) fs" unfolding group_by_getdef by (rule sel)
  let ?ms = "filter (\<lambda>f. is_exposure f \<and> cf_customer f = c) fs @ filter (\<lambda>f. ?se f \<and> cf_customer f = c) fs"
  have ne2: "filter (\<lambda>f. is_exposure f \<and> cf_customer f = c) fs \<noteq> []" "filter (\<lambda>f. ?se f \<and> cf_customer f = c) fs \<noteq> []"
    using group_by_entry(2) [OF k] ne unfolding xs ys by simp_all
  obtain f1 f2 where f: "f1 \<in> set (filter (\<lambda>f. is_exposure f \<and> cf_customer f = c) fs)" "f2 \<in> set (filter (\<lambda>f. ?se f \<and> cf_customer f = c) fs)"
    using hd_in_set [OF ne2(1)] hd_in_set [OF ne2(2)] that by blast
  have f12: "is_exposure f1" "engine_of f2 = ''secrets''" "f1 \<in> set ?ms" "f2 \<in> set ?ms" using f by auto
  have ex: "\<exists>f \<in> set ?ms. is_exposure f" "\<exists>f \<in> set ?ms. engine_of f = ''secrets''" using f12 by blast+
  have all: "\<forall>f \<in> set ?ms. cf_customer f = c" by auto
  have "exposure_evidence g ?ms"
    unfolding exposure_evidence_def g two_sided_fields using ex all by (intro conjI refl)
  then have "evidence g ?ms" by (simp add: evidence_def)
  moreover have "well_formed_group g ?ms" unfolding g xs ys using ne2 by (intro two_sided_well_formed) simp_all
  moreover have "confirmed_edges_ok g" unfolding g by (rule two_sided_edges_ok) simp
  moreover have "distinct (map cf_id fs) \<Longrightarrow> distinct (map cf_id ?ms)" by (rule distinct_two_sides) auto
  ultimately have "formed_from fs g ?ms" by (intro formed_fromI) auto
  then show ?thesis ..
qed

lemma correlate_formed: "g \<in> set (correlate fs) \<Longrightarrow> \<exists>ms. formed_from fs g ms"
  using same_secret_formed same_cve_formed shipped_formed injection_formed exposed_formed by (auto simp: correlate_def)

subsection \<open>Properties of the rules\<close>

text \<open>C25: Every group rests on evidence its rule names: at least two of the findings given, all carrying the key of the rule
  (the secret, the CVE and asset, or the weakness) and, except for one CVE on one asset, one customer; both sides of a
  two-sided rule are present; the primary is a member of the greatest risk, severity and identifier; a duplicate keeps its
  severity and risk, the others go one step and five points (at most 100) above it.\<close>

theorem groups_are_evidenced:
  assumes "g \<in> set (correlate fs)"
  shows "\<exists>ms. set ms \<subseteq> set fs \<and> well_formed_group g ms \<and> evidence g ms \<and>
     primary_of ms \<in> set ms \<and> (\<forall>f \<in> set ms. primary_key f \<le> primary_key (primary_of ms))"
proof -
  obtain ms where ms: "formed_from fs g ms" using correlate_formed [OF assms] ..
  then have "ms \<noteq> []" by (auto simp: formed_from_def well_formed_group_def)
  then show ?thesis using ms primary_in primary_max by (auto simp: formed_from_def)
qed

definition sample_corr_finding :: "string \<Rightarrow> string \<Rightarrow> string \<Rightarrow> string option \<Rightarrow> corr_finding" where
  "sample_corr_finding row_ident category engine secret = \<lparr>cf_id = row_ident, cf_tenant = ''t'', cf_customer = ''c'', cf_asset = ''a'',
     cf_category = category, cf_status = ''open'', cf_severity = ''high'', cf_risk_score = Some 70,
     cf_cve_ids = (if secret = None then [JStr ''CVE-1'', JStr ''CVE-2''] else []), cf_cwe_id = None,
     cf_location = [(''engine'', JStr engine)], cf_evidence = JNull, cf_secret_id = secret, cf_pointer = None\<rparr>"

definition two_secrets :: "corr_finding list" where
  "two_secrets = [sample_corr_finding ''f1'' ''secret'' ''secrets'' (Some ''hmac''), sample_corr_finding ''f2'' ''insecure-code'' ''sast'' (Some ''hmac'')]"

lemma two_secrets_group:
  "map (\<lambda>g. (gr_members g, gr_primary g, gr_confidence g, gr_kind g, gr_customer g)) (correlate two_secrets)
     = [([''f1'', ''f2''], ''f2'', ConfConfirmed, ''duplicate'', ''c'')]"
  by code_simp

lemma groups_are_evidenced_witness:
  "\<exists>ms. set ms \<subseteq> set two_secrets \<and> well_formed_group (hd (correlate two_secrets)) ms \<and> evidence (hd (correlate two_secrets)) ms"
proof -
  have "correlate two_secrets \<noteq> []" using two_secrets_group by auto
  then have "hd (correlate two_secrets) \<in> set (correlate two_secrets)" by (rule hd_in_set)
  from groups_are_evidenced [OF this] show ?thesis by blast
qed

lemma identity_bucket:
  assumes "secret_identity f = Some (bucket, ByIdentity, d)" "secret_identity f' = Some (bucket, b', d')"
  shows "\<exists>s. s \<noteq> [] \<and> cf_secret_id f = Some s \<and> cf_secret_id f' = Some s"
proof -
  have id: "\<exists>c s. cf_secret_id f = Some (c # s) \<and> bucket = ''identity:'' @ c # s"
    using assms(1) by (auto simp: secret_identity_def Let_def split: option.splits list.splits if_splits)
  then obtain c s where s: "cf_secret_id f = Some (c # s)" "bucket = ''identity:'' @ c # s" by blast
  have "cf_secret_id f' = Some (c # s)"
    using assms(2) s(2) by (auto simp: secret_identity_def Let_def split: option.splits list.splits if_splits)
  then show ?thesis using s(1) by blast
qed

text \<open>C26: A group or an edge is called confirmed only when all its findings, the primary included, belong to one customer and
  carry the same keyed identity of one secret.\<close>

theorem confirmed_means_one_secret:
  assumes "g \<in> set (correlate fs)"
    and "gr_confidence g = ConfConfirmed \<or> (\<exists>e \<in> set (gr_edges g). ed_confidence e = ConfConfirmed)"
  shows "\<exists>s. s \<noteq> [] \<and> (\<forall>fid \<in> set (gr_primary g # gr_members g).
     \<exists>f \<in> set fs. cf_id f = fid \<and> cf_customer f = gr_customer g \<and> cf_secret_id f = Some s)"
proof -
  obtain ms where ms: "formed_from fs g ms" using correlate_formed [OF assms(1)] ..
  have sub: "set ms \<subseteq> set fs" and wf: "well_formed_group g ms" and ev: "evidence g ms" and edges: "confirmed_edges_ok g"
    using ms by (simp_all add: formed_from_def)
  have conf: "gr_confidence g = ConfConfirmed" using assms(2) edges by (auto simp: confirmed_edges_ok_def)
  then have "secret_evidence g ms"
    using ev by (auto simp: evidence_def cve_evidence_def chain_evidence_def injection_evidence_def exposure_evidence_def)
  then obtain bucket bs f0 d0 where all: "\<forall>f \<in> set ms. \<exists>b' d. secret_identity f = Some (bucket, b', d)"
      "\<forall>f \<in> set ms. cf_customer f = gr_customer g" and f0: "f0 \<in> set ms" "secret_identity f0 = Some (bucket, bs, d0)"
      and cf: "gr_confidence g = (if bs = ByIdentity then ConfConfirmed else ConfStrongEvidence)"
    unfolding secret_evidence_def by blast
  have "bs = ByIdentity" using cf conf by (auto split: if_splits)
  then have b: "\<And>f. f \<in> set ms \<Longrightarrow> \<exists>b' d. secret_identity f = Some (bucket, b', d)"
      "f0 \<in> set ms" "secret_identity f0 = Some (bucket, ByIdentity, d0)" and c: "\<And>f. f \<in> set ms \<Longrightarrow> cf_customer f = gr_customer g"
    using all f0 by auto
  obtain s where s: "s \<noteq> []" "cf_secret_id f0 = Some s" using identity_bucket [OF b(3,3)] by blast
  have all: "cf_secret_id f = Some s \<and> cf_customer f = gr_customer g \<and> f \<in> set fs" if f: "f \<in> set ms" for f
  proof -
    obtain b' d where "secret_identity f = Some (bucket, b', d)" using b(1) [OF f] by blast
    from identity_bucket [OF b(3) this] show ?thesis using s(2) c [OF f] sub f by auto
  qed
  have "ms \<noteq> []" using wf by (auto simp: well_formed_group_def)
  then have prim: "primary_of ms \<in> set ms" by (rule primary_in)
  have "fid \<in> cf_id ` set ms" if "fid \<in> set (gr_primary g # gr_members g)" for fid
    using that wf prim by (auto simp: well_formed_group_def dest!: in_set_takeD)
  then show ?thesis using all s(1) by (intro exI [of _ s]) blast
qed

lemma confirmed_means_one_secret_witness:
  "\<exists>s. s \<noteq> [] \<and> (\<forall>fid \<in> {''f1'', ''f2''}. \<exists>f \<in> set two_secrets. cf_id f = fid \<and> cf_customer f = ''c'' \<and> cf_secret_id f = Some s)"
proof -
  obtain g where g: "correlate two_secrets = [g]" "gr_members g = [''f1'', ''f2'']" "gr_confidence g = ConfConfirmed"
      "gr_customer g = ''c''" using two_secrets_group by auto
  then have "g \<in> set (correlate two_secrets)" by simp
  from confirmed_means_one_secret [OF this] g show ?thesis by auto
qed

lemma primary_key_id: "primary_key a = primary_key b \<Longrightarrow> cf_id a = cf_id b"
  by (simp add: primary_key_def)

text \<open>Which finding is the primary of a group and the order its members are shown in do not depend on the order of the
  findings.\<close>

theorem presentation_is_order_independent:
  assumes "mset ms = mset ms'" "ms \<noteq> []"
  shows "cf_id (primary_of ms) = cf_id (primary_of ms') \<and>
     presentation_order (cf_id (primary_of ms)) (map cf_id ms) = presentation_order (cf_id (primary_of ms')) (map cf_id ms')"
proof -
  have sets: "set ms = set ms'" using assms(1) by (rule mset_eq_setD)
  have "ms' \<noteq> []" using assms by auto
  then have "primary_of ms \<in> set ms'" "primary_of ms' \<in> set ms" using primary_in assms(2) sets by auto
  then have "primary_key (primary_of ms) = primary_key (primary_of ms')"
    using primary_max [of "primary_of ms" ms'] primary_max [of "primary_of ms'" ms] by simp
  then have same: "cf_id (primary_of ms) = cf_id (primary_of ms')" by (rule primary_key_id)
  have "mset (map cf_id ms) = mset (map cf_id ms')" using assms(1) by simp
  then have "mset (filter P (map cf_id ms)) = mset (filter P (map cf_id ms'))" for P unfolding mset_filter by simp
  then have "sort (filter P (map cf_id ms)) = sort (filter P (map cf_id ms'))" for P
    by (intro properties_for_sort) simp_all
  then show ?thesis using same by (simp add: presentation_order_def)
qed

lemma presentation_is_order_independent_witness:
  "cf_id (primary_of two_secrets) = cf_id (primary_of (rev two_secrets))"
  using presentation_is_order_independent [of two_secrets "rev two_secrets"] by (simp add: two_secrets_def)

text \<open>Two findings that share two CVE identifiers make two groups with one fingerprint, since it names only the rule and the
  members.  The second one finds the row of the first but not its unwritten members, adds them again, and the whole run is
  rolled back.\<close>

definition two_cves :: "corr_finding list" where
  "two_cves = [sample_corr_finding ''f1'' ''vuln-dep'' ''sca'' None, sample_corr_finding ''f2'' ''vuln-dep'' ''container'' None]"

lemma shared_cves_roll_back:
  "map_sum id (\<lambda>_. ()) (correlate_tenant (\<lambda>s. s) ''t'' None
     \<lparr>cd_findings = two_cves, cd_groups = [], cd_members = [], cd_pending = [], cd_stored = [None, None], cd_next = 0\<rparr>) = Inl MemberConflict"
  by code_simp

subsection \<open>The stored groups are exactly the computed ones\<close>

definition row_ident :: "correlation_row \<Rightarrow> nat \<times> string \<times> string" where
  "row_ident c = (co_id c, co_tenant c, co_fingerprint c)"

definition row_idents :: "corr_db \<Rightarrow> (nat \<times> string \<times> string) list" where
  "row_idents db = map row_ident (cd_groups db)"

definition store_ok :: "corr_db \<Rightarrow> bool" where
  "store_ok db \<longleftrightarrow> distinct (map fst (row_idents db)) \<and> distinct (map snd (row_idents db)) \<and> (\<forall>x \<in> set (row_idents db). fst x < cd_next db) \<and>
     (\<forall>m \<in> set (cd_members db @ cd_pending db). me_correlation m \<in> fst ` set (row_idents db)) \<and>
     (\<forall>f \<in> set (cd_findings db). \<forall>i. cf_pointer f = Some i \<longrightarrow> i \<in> fst ` set (row_idents db))"

definition without_pointer :: "corr_finding \<Rightarrow> corr_finding" where
  "without_pointer f = f\<lparr>cf_pointer := None\<rparr>"

definition other_tenants :: "string \<Rightarrow> corr_db \<Rightarrow> correlation_row list" where
  "other_tenants tenant db = filter (\<lambda>c. co_tenant c \<noteq> tenant) (cd_groups db)"

text \<open>Storing members touches no group, adds rows of this group only and moves pointers to it.\<close>

definition members_stored :: "nat \<Rightarrow> corr_db \<Rightarrow> corr_db \<Rightarrow> bool" where
  "members_stored gid db db' \<longleftrightarrow> cd_groups db' = cd_groups db \<and> cd_next db' = cd_next db \<and>
     map without_pointer (cd_findings db') = map without_pointer (cd_findings db) \<and>
     (\<forall>m \<in> set (cd_members db' @ cd_pending db'). me_correlation m = gid \<or> (\<exists>m' \<in> set (cd_members db @ cd_pending db). me_correlation m = me_correlation m')) \<and>
     me_correlation ` set (cd_pending db') \<subseteq> insert gid (me_correlation ` set (cd_pending db)) \<and>
     (\<forall>f \<in> set (cd_findings db'). cf_pointer f = Some gid \<or> (\<exists>f' \<in> set (cd_findings db). cf_pointer f = cf_pointer f'))"

lemma store_member_stored: "members_stored gid db (store_member tenant g gid visible fid db)"
  by (auto simp: members_stored_def store_member_def member_of_def Let_def without_pointer_def)

lemma members_stored_trans:
  assumes "members_stored gid a b" "members_stored gid b c"
  shows "members_stored gid a c"
proof -
  have "me_correlation m = gid \<or> (\<exists>m' \<in> set (cd_members a @ cd_pending a). me_correlation m = me_correlation m')"
    if "m \<in> set (cd_members c @ cd_pending c)" for m
    using assms that unfolding members_stored_def by metis
  moreover have "cf_pointer f = Some gid \<or> (\<exists>f' \<in> set (cd_findings a). cf_pointer f = cf_pointer f')"
    if "f \<in> set (cd_findings c)" for f
    using assms that unfolding members_stored_def by metis
  moreover have "me_correlation ` set (cd_pending c) \<subseteq> insert gid (me_correlation ` set (cd_pending a))"
    using assms unfolding members_stored_def by blast
  ultimately show ?thesis using assms unfolding members_stored_def by simp
qed

lemma fold_store_member: "members_stored gid db (fold (store_member tenant g gid visible) fids db)"
proof (induction fids arbitrary: db)
  case Nil
  then show ?case by (auto simp: members_stored_def)
next
  case (Cons fid fids)
  have "members_stored gid (store_member tenant g gid visible fid db) (fold (store_member tenant g gid visible) fids (store_member tenant g gid visible fid db))"
    by (rule Cons.IH)
  then show ?case using members_stored_trans [OF store_member_stored] by (simp only: fold_simps)
qed

lemma store_ok_members:
  assumes "members_stored gid db db'" "store_ok db" "gid \<in> fst ` set (row_idents db)"
  shows "store_ok db'"
proof -
  have same: "row_idents db' = row_idents db" "cd_next db' = cd_next db" using assms(1) by (simp_all add: members_stored_def row_idents_def)
  have "me_correlation m \<in> fst ` set (row_idents db)" if "m \<in> set (cd_members db' @ cd_pending db')" for m
    using assms that unfolding members_stored_def store_ok_def by metis
  moreover have "i \<in> fst ` set (row_idents db)" if "f \<in> set (cd_findings db')" "cf_pointer f = Some i" for f i
    using assms that unfolding members_stored_def store_ok_def by (metis option.inject)
  ultimately show ?thesis using assms(2) unfolding store_ok_def same by blast
qed

text \<open>What persisting one group does: the group is there afterwards, under its fingerprint.\<close>

definition persisted :: "(string \<Rightarrow> string) \<Rightarrow> string \<Rightarrow> group list \<Rightarrow> corr_db \<Rightarrow> corr_db \<Rightarrow> nat set \<Rightarrow> bool" where
  "persisted sha tenant gs db db' gids \<longleftrightarrow> store_ok db' \<and> set (row_idents db) \<subseteq> set (row_idents db') \<and>
     (\<forall>g \<in> set gs. \<exists>i \<in> gids. (i, tenant, group_fingerprint sha g) \<in> set (row_idents db')) \<and>
     (\<forall>i \<in> gids. \<exists>g \<in> set gs. (i, tenant, group_fingerprint sha g) \<in> set (row_idents db')) \<and>
     me_correlation ` set (cd_pending db') \<subseteq> gids \<union> me_correlation ` set (cd_pending db) \<and>
     map without_pointer (cd_findings db') = map without_pointer (cd_findings db) \<and>
     other_tenants tenant db' = other_tenants tenant db"

lemma flush_fields:
  "flush_members db = Inr db' \<Longrightarrow> cd_groups db' = cd_groups db \<and> cd_next db' = cd_next db \<and> cd_findings db' = cd_findings db \<and>
     cd_members db' = cd_members db @ cd_pending db \<and> cd_pending db' = [] \<and> distinct (map member_key (cd_members db'))"
  by (auto simp: flush_members_def split: if_splits)

lemma store_ok_flush: "flush_members db = Inr db' \<Longrightarrow> store_ok db \<Longrightarrow> store_ok db'"
  using flush_fields [of db db'] by (simp add: store_ok_def row_idents_def)

lemma persist_created:
  assumes "persist sha tenant g db = Inr (db', True, gid)" "store_ok db"
    and "find (\<lambda>c. co_tenant c = tenant \<and> co_fingerprint c = group_fingerprint sha g) (cd_groups db) = None"
  shows "persisted sha tenant [g] db db' {gid}"
proof -
  let ?fp = "group_fingerprint sha g"
  let ?new = "db\<lparr>cd_groups := cd_groups db @ [new_correlation tenant ?fp g (cd_next db)], cd_next := Suc (cd_next db)\<rparr>"
  obtain db1 where fl: "flush_members ?new = Inr db1" and gid: "gid = cd_next db"
    and db': "db' = fold (store_member tenant g gid (me_finding ` set (filter (\<lambda>m. me_correlation m = gid) (cd_members db1)))) (gr_members g) db1"
    using assms(1,3) by (auto simp: persist_def Let_def)
  have id_new: "row_ident (new_correlation tenant ?fp g (cd_next db)) = (cd_next db, tenant, ?fp)"
    "co_tenant (new_correlation tenant ?fp g (cd_next db)) = tenant" by (simp_all add: row_ident_def new_correlation_def)
  have new: "row_idents ?new = row_idents db @ [(cd_next db, tenant, ?fp)]" by (simp add: row_idents_def id_new)
  have "(tenant, ?fp) \<notin> set (map snd (row_idents db))" using assms(3) by (auto simp: row_idents_def row_ident_def find_None_iff)
  moreover have "cd_next db \<notin> fst ` set (row_idents db)" using assms(2) by (auto simp: store_ok_def)
  moreover have "x \<in> set (row_idents db) \<Longrightarrow> fst x < Suc (cd_next db)" for x using assms(2) by (auto simp: store_ok_def less_Suc_eq)
  ultimately have "store_ok ?new" using assms(2) unfolding store_ok_def new by auto
  then have ok1: "store_ok db1" by (rule store_ok_flush [OF fl])
  note fields = flush_fields [OF fl]
  have ids1: "row_idents db1 = row_idents db @ [(gid, tenant, ?fp)]" using fields new by (simp add: row_idents_def gid)
  note ms = fold_store_member [of gid db1 tenant g "me_finding ` set (filter (\<lambda>m. me_correlation m = gid) (cd_members db1))" "gr_members g", folded db']
  have "store_ok db'" by (rule store_ok_members [OF ms ok1]) (simp add: ids1)
  moreover have "row_idents db' = row_idents db1" "map without_pointer (cd_findings db') = map without_pointer (cd_findings db)"
    "me_correlation ` set (cd_pending db') \<subseteq> {gid}"
    using ms fields by (simp_all add: members_stored_def row_idents_def)
  moreover have "other_tenants tenant db' = other_tenants tenant db"
    using ms fields by (simp add: members_stored_def other_tenants_def id_new)
  ultimately show ?thesis unfolding persisted_def by (auto simp: ids1)
qed

lemma persist_updated:
  assumes "persist sha tenant g db = Inr (db', cr, gid)" "store_ok db"
    and "find (\<lambda>c. co_tenant c = tenant \<and> co_fingerprint c = group_fingerprint sha g) (cd_groups db) = Some c"
  shows "persisted sha tenant [g] db db' {gid}"
proof -
  let ?fp = "group_fingerprint sha g"
  have c: "c \<in> set (cd_groups db)" "co_tenant c = tenant" "co_fingerprint c = ?fp" using find_SomeD [OF assms(3)] by auto
  let ?db1 = "db\<lparr>cd_groups := map (\<lambda>x. if co_id x = co_id c then refresh_correlation g x else x) (cd_groups db)\<rparr>"
  have gid: "gid = co_id c"
    and db': "db' = fold (store_member tenant g gid (me_finding ` set (filter (\<lambda>m. me_correlation m = gid) (cd_members ?db1)))) (gr_members g) ?db1"
    using assms(1,3) by (auto simp: persist_def Let_def)
  have keep: "row_ident (refresh_correlation g x) = row_ident x" "co_tenant (refresh_correlation g x) = co_tenant x" for x
    by (simp_all add: row_ident_def refresh_correlation_def)
  have ids1: "row_idents ?db1 = row_idents db" by (simp add: row_idents_def keep)
  have ok1: "store_ok ?db1" using assms(2) unfolding store_ok_def ids1 by simp
  have mem: "(gid, tenant, ?fp) \<in> set (row_idents db)" using c by (auto simp: row_idents_def row_ident_def gid)
  have same: "x = c" if "x \<in> set (cd_groups db)" "co_id x = co_id c" for x
  proof -
    have "map fst (row_idents db) = map co_id (cd_groups db)" by (simp add: row_idents_def row_ident_def)
    then have "distinct (map co_id (cd_groups db))" using assms(2) by (metis store_ok_def)
    then show ?thesis using that c(1) by (simp add: distinct_map inj_on_def)
  qed
  have "filter (\<lambda>c. co_tenant c \<noteq> tenant) (map (\<lambda>x. if co_id x = co_id c then refresh_correlation g x else x) xs)
      = filter (\<lambda>c. co_tenant c \<noteq> tenant) xs" if "set xs \<subseteq> set (cd_groups db)" for xs
    using that same c(2) by (induction xs) (auto simp: keep)
  then have others: "other_tenants tenant ?db1 = other_tenants tenant db" by (simp add: other_tenants_def)
  note ms = fold_store_member [of gid ?db1 tenant g "me_finding ` set (filter (\<lambda>m. me_correlation m = gid) (cd_members ?db1))" "gr_members g", folded db']
  have "store_ok db'" by (rule store_ok_members [OF ms ok1]) (use mem in \<open>force simp: ids1\<close>)
  moreover have "row_idents db' = row_idents db" "map without_pointer (cd_findings db') = map without_pointer (cd_findings db)"
    "other_tenants tenant db' = other_tenants tenant db" "me_correlation ` set (cd_pending db') \<subseteq> {gid} \<union> me_correlation ` set (cd_pending db)"
    using ms others ids1 by (simp_all add: members_stored_def row_idents_def other_tenants_def)
  ultimately show ?thesis using mem unfolding persisted_def by auto
qed

lemma persist_one:
  assumes "persist sha tenant g db = Inr (db', cr, gid)" "store_ok db"
  shows "persisted sha tenant [g] db db' {gid}"
proof (cases "find (\<lambda>c. co_tenant c = tenant \<and> co_fingerprint c = group_fingerprint sha g) (cd_groups db)")
  case None
  then have cr using assms(1) by (auto simp: persist_def Let_def)
  then show ?thesis using persist_created [OF _ assms(2) None] assms(1) by simp
next
  case (Some c)
  then show ?thesis using persist_updated [OF assms] by blast
qed

lemma persist_all_persisted:
  "persist_all sha tenant gs db = Inr (db', outcome) \<Longrightarrow> store_ok db \<Longrightarrow> persisted sha tenant gs db db' (snd ` set outcome)"
proof (induction gs arbitrary: db outcome)
  case Nil
  then show ?case by (simp add: persisted_def)
next
  case (Cons g gs)
  obtain db1 cr gid outs where p: "persist sha tenant g db = Inr (db1, cr, gid)"
      "persist_all sha tenant gs db1 = Inr (db', outs)" "outcome = (cr, gid) # outs"
    using Cons.prems(1) by (auto split: prod.splits)
  have one: "persisted sha tenant [g] db db1 {gid}" using persist_one [OF p(1) Cons.prems(2)] .
  then have rest: "persisted sha tenant gs db1 db' (snd ` set outs)" using Cons.IH [OF p(2)] by (simp add: persisted_def)
  have "(gid, tenant, group_fingerprint sha g) \<in> set (row_idents db')" using one rest by (auto simp: persisted_def)
  moreover have "me_correlation ` set (cd_pending db') \<subseteq> insert gid (snd ` set outs) \<union> me_correlation ` set (cd_pending db)"
    using one rest unfolding persisted_def by blast
  ultimately show ?case using one rest unfolding persisted_def p(3) by auto
qed

definition bookkeeping_exact :: "(string \<Rightarrow> string) \<Rightarrow> string \<Rightarrow> string option \<Rightarrow> group list \<Rightarrow> corr_db \<Rightarrow> bool" where
  "bookkeeping_exact sha tenant customer gs db \<longleftrightarrow>
     (\<forall>g \<in> set gs. \<exists>c \<in> set (cd_groups db). co_tenant c = tenant \<and> co_fingerprint c = group_fingerprint sha g) \<and>
     (\<forall>c \<in> set (cd_groups db). group_in_scope tenant customer c \<longrightarrow> co_fingerprint c \<in> group_fingerprint sha ` set gs) \<and>
     (\<forall>f \<in> set (cd_findings db). finding_in_scope tenant customer f \<longrightarrow>
        (case cf_pointer f of None \<Rightarrow> True
         | Some i \<Rightarrow> \<exists>c \<in> set (cd_groups db). co_id c = i \<and> co_tenant c = tenant \<and> co_fingerprint c \<in> group_fingerprint sha ` set gs))"

lemma finding_in_scope_pointer [simp]: "finding_in_scope tenant customer (f\<lparr>cf_pointer := p\<rparr>) = finding_in_scope tenant customer f"
  by (simp add: finding_in_scope_def split: option.splits)

lemma row_idents_mem: "(i, t, fp) \<in> set (row_idents db) \<longleftrightarrow> (\<exists>c \<in> set (cd_groups db). co_id c = i \<and> co_tenant c = t \<and> co_fingerprint c = fp)"
  by (auto simp: row_idents_def row_ident_def)

lemma row_idents_filter:
  assumes "cd_groups db' = filter P (cd_groups db)"
  shows "x \<in> set (row_idents db') \<longleftrightarrow> (\<exists>c \<in> set (cd_groups db). P c \<and> x = row_ident c)"
    and "distinct (map f (row_idents db)) \<Longrightarrow> distinct (map f (row_idents db'))"
  using distinct_map_filter [of "f \<circ> row_ident" "cd_groups db" P] by (auto simp: row_idents_def assms)

lemma reconcile_fields:
  assumes "reconcile_groups tenant customer current db = Inr (db', n, k)"
  shows "cd_groups db' = filter (\<lambda>g. \<not> stale_group tenant customer current g) (cd_groups db)" "cd_next db' = cd_next db"
    "cd_members db' = filter (\<lambda>m. me_correlation m \<notin> co_id ` set (filter (stale_group tenant customer current) (cd_groups db))) (cd_members db)" "cd_pending db' = cd_pending db"
    "cd_findings db' = map (\<lambda>f. if stale_pointer tenant customer current f then f\<lparr>cf_pointer := None\<rparr> else f) (cd_findings db)"
    "f \<in> set (cd_findings db') \<Longrightarrow> cf_pointer f = Some i \<Longrightarrow> i \<notin> co_id ` set (filter (stale_group tenant customer current) (cd_groups db))"
proof -
  let ?clear = "map (\<lambda>f. if stale_pointer tenant customer current f then f\<lparr>cf_pointer := None\<rparr> else f)"
  let ?gone = "co_id ` set (filter (stale_group tenant customer current) (cd_groups db))"
  have fields: "cd_groups db' = filter (\<lambda>g. \<not> stale_group tenant customer current g) (cd_groups db) \<and> cd_next db' = cd_next db \<and>
      cd_members db' = filter (\<lambda>m. me_correlation m \<notin> ?gone) (cd_members db) \<and> cd_pending db' = cd_pending db \<and>
      cd_findings db' = ?clear (cd_findings db)"
    and unused: "\<not> list_ex (\<lambda>f. case cf_pointer f of Some i \<Rightarrow> i \<in> ?gone | None \<Rightarrow> False) (?clear (cd_findings db))"
    using assms by (auto simp: reconcile_groups_def Let_def split: if_split_asm)
  show "cd_groups db' = filter (\<lambda>g. \<not> stale_group tenant customer current g) (cd_groups db)" "cd_next db' = cd_next db"
    "cd_members db' = filter (\<lambda>m. me_correlation m \<notin> ?gone) (cd_members db)" "cd_pending db' = cd_pending db"
    "cd_findings db' = ?clear (cd_findings db)" using fields by simp_all
  assume "f \<in> set (cd_findings db')" "cf_pointer f = Some i"
  then have "f \<in> set (?clear (cd_findings db))" using fields by (simp only:)
  then have "\<not> (case cf_pointer f of Some i \<Rightarrow> i \<in> ?gone | None \<Rightarrow> False)" using unused unfolding list_ex_iff by blast
  then show "i \<notin> ?gone" using \<open>cf_pointer f = Some i\<close> by simp
qed

lemma store_ok_reconcile:
  assumes "reconcile_groups tenant customer current db = Inr (db', n, k)" "store_ok db" "set (map me_correlation (cd_pending db)) \<subseteq> set current"
  shows "store_ok db'"
proof -
  note fields = reconcile_fields [OF assms(1)]
  note ids = row_idents_filter [OF fields(1)]
  let ?gone = "co_id ` set (filter (stale_group tenant customer current) (cd_groups db))"
  have kept: "i \<in> fst ` set (row_idents db')" if "i \<in> fst ` set (row_idents db)" "i \<notin> ?gone" for i
  proof -
    have "i \<in> co_id ` set (cd_groups db)" using that(1) by (simp add: row_idents_def row_ident_def image_image)
    then obtain c where c: "c \<in> set (cd_groups db)" "i = co_id c" by blast
    then have "row_ident c \<in> set (row_idents db')" using that(2) unfolding ids(1) by auto
    then show ?thesis using c(2) by (force simp: row_ident_def image_iff)
  qed
  have "me_correlation m \<in> fst ` set (row_idents db')" if "m \<in> set (cd_members db' @ cd_pending db')" for m
  proof (rule kept)
    show "me_correlation m \<in> fst ` set (row_idents db)" using that assms(2) fields(3,4) by (auto simp: store_ok_def)
    show "me_correlation m \<notin> ?gone" using that assms(3) fields(3,4) by (auto simp: stale_group_def)
  qed
  moreover have "i \<in> fst ` set (row_idents db')" if f: "f \<in> set (cd_findings db')" "cf_pointer f = Some i" for f i
  proof (rule kept)
    show "i \<notin> ?gone" by (rule fields(6) [OF f])
    obtain f0 where "f0 \<in> set (cd_findings db)" "cf_pointer f0 = Some i" using f unfolding fields(5) by (auto split: if_splits)
    then show "i \<in> fst ` set (row_idents db)" using assms(2) by (auto simp: store_ok_def)
  qed
  moreover have "fst x < cd_next db'" if "x \<in> set (row_idents db')" for x
    using that assms(2) unfolding ids(1) fields(2) by (auto simp: store_ok_def row_idents_def)
  moreover have "distinct (map fst (row_idents db'))" "distinct (map snd (row_idents db'))"
    using assms(2) by (auto simp: store_ok_def intro: ids(2))
  ultimately show ?thesis unfolding store_ok_def by blast
qed

lemma reconcile_exact:
  assumes "reconcile_groups tenant customer current db1 = Inr (db', n, k)" "store_ok db1"
    and p: "persisted sha tenant gs db db1 (set current)"
  shows "bookkeeping_exact sha tenant customer gs db'"
proof -
  note fields = reconcile_fields [OF assms(1)]
  have uniq: "c = c'" if "c \<in> set (cd_groups db1)" "c' \<in> set (cd_groups db1)" "co_id c = co_id c'" for c c'
  proof -
    have "map fst (row_idents db1) = map co_id (cd_groups db1)" by (simp add: row_idents_def row_ident_def)
    then have "distinct (map co_id (cd_groups db1))" using assms(2) by (metis store_ok_def)
    then show ?thesis using that by (simp add: distinct_map inj_on_def)
  qed
  have named: "\<exists>c \<in> set (cd_groups db1). co_id c = i \<and> co_tenant c = tenant \<and> co_fingerprint c \<in> group_fingerprint sha ` set gs"
    if "i \<in> set current" for i
    using that p unfolding persisted_def row_idents_mem by blast
  have kept: "c \<in> set (cd_groups db')" if "c \<in> set (cd_groups db1)" "co_id c \<in> set current" for c
    using that fields(1) by (simp add: stale_group_def)
  have "\<exists>c \<in> set (cd_groups db'). co_tenant c = tenant \<and> co_fingerprint c = group_fingerprint sha g" if "g \<in> set gs" for g
    using that p kept unfolding persisted_def row_idents_mem by metis
  moreover have "co_fingerprint c \<in> group_fingerprint sha ` set gs" if "c \<in> set (cd_groups db')" "group_in_scope tenant customer c" for c
  proof -
    have c: "c \<in> set (cd_groups db1)" "co_id c \<in> set current" using that fields(1) by (auto simp: stale_group_def)
    show ?thesis using named [OF c(2)] uniq [OF _ c(1)] by blast
  qed
  moreover have "\<exists>c \<in> set (cd_groups db'). co_id c = i \<and> co_tenant c = tenant \<and> co_fingerprint c \<in> group_fingerprint sha ` set gs"
    if "f \<in> set (cd_findings db')" "finding_in_scope tenant customer f" "cf_pointer f = Some i" for f i
  proof -
    have "i \<in> set current" using that unfolding fields(5) by (auto simp: stale_pointer_def split: if_splits)
    then show ?thesis using named kept by blast
  qed
  ultimately show ?thesis unfolding bookkeeping_exact_def by (simp split: option.split)
qed

lemma without_pointer_cleared: "map without_pointer (map (\<lambda>f. if P f then f\<lparr>cf_pointer := None\<rparr> else f) fs) = map without_pointer fs"
  by (simp add: without_pointer_def)

text \<open>C24: A run of the correlation task that returns leaves the stored groups of its scope exactly those computed from the open
  findings, each stored once with at most one row per member; the pointers of the findings in scope name only such groups, no
  finding changes otherwise, and the groups of other tenants are not touched.\<close>

theorem correlation_bookkeeping:
  assumes "correlate_tenant sha tenant customer db = Inr (db', st)" "store_ok db" "cd_pending db = []"
  shows "store_ok db' \<and> cd_pending db' = [] \<and> distinct (map member_key (cd_members db')) \<and>
     bookkeeping_exact sha tenant customer (correlate (open_findings tenant customer db)) db' \<and>
     map without_pointer (cd_findings db') = map without_pointer (cd_findings db) \<and> other_tenants tenant db' = other_tenants tenant db"
proof -
  let ?gs = "correlate (open_findings tenant customer db)"
  obtain db1 outcome n k db2 where run: "persist_all sha tenant ?gs db = Inr (db1, outcome)"
      "reconcile_groups tenant customer (map snd outcome) db1 = Inr (db2, n, k)" "flush_members db2 = Inr db'"
    using assms(1) by (auto simp: correlate_tenant_def Let_def bind_r_Inr)
  have p: "persisted sha tenant ?gs db db1 (set (map snd outcome))" using persist_all_persisted [OF run(1) assms(2)] by simp
  then have ok1: "store_ok db1" and pend: "set (map me_correlation (cd_pending db1)) \<subseteq> set (map snd outcome)"
    using assms(3) by (simp_all add: persisted_def)
  note fields = reconcile_fields [OF run(2)] and flushed = flush_fields [OF run(3)]
  have "store_ok db'" by (rule store_ok_flush [OF run(3) store_ok_reconcile [OF run(2) ok1 pend]])
  moreover have "bookkeeping_exact sha tenant customer ?gs db'"
    using reconcile_exact [OF run(2) ok1 p] flushed unfolding bookkeeping_exact_def by (simp only:)
  moreover have "map without_pointer (cd_findings db') = map without_pointer (cd_findings db)"
    using p flushed fields(5) without_pointer_cleared unfolding persisted_def by (simp only:)
  moreover have "other_tenants tenant db2 = other_tenants tenant db1"
    unfolding other_tenants_def fields(1) by (auto simp: stale_group_def group_in_scope_def intro: filter_cong)
  moreover have "other_tenants tenant db' = other_tenants tenant db2" using flushed by (simp only: other_tenants_def)
  moreover have "other_tenants tenant db1 = other_tenants tenant db" using p unfolding persisted_def by (elim conjE)
  moreover have "cd_pending db' = [] \<and> distinct (map member_key (cd_members db'))" using flushed by (intro conjI; elim conjE)
  ultimately show ?thesis by (simp only:)
qed

lemma correlation_bookkeeping_witness:
  "\<exists>db' st. correlate_tenant (\<lambda>s. s) ''t'' None
       \<lparr>cd_findings = two_secrets, cd_groups = [], cd_members = [], cd_pending = [], cd_stored = [None, None], cd_next = 0\<rparr> = Inr (db', st) \<and>
     store_ok db' \<and> bookkeeping_exact (\<lambda>s. s) ''t'' None (correlate two_secrets) db'"
proof -
  let ?db = "\<lparr>cd_findings = two_secrets, cd_groups = [], cd_members = [], cd_pending = [], cd_stored = [None, None], cd_next = 0\<rparr>"
  have "isl (correlate_tenant (\<lambda>s. s) ''t'' None ?db) = False" by code_simp
  then obtain db' st where run: "correlate_tenant (\<lambda>s. s) ''t'' None ?db = Inr (db', st)"
    by (cases "correlate_tenant (\<lambda>s. s) ''t'' None ?db") auto
  have ok: "store_ok ?db" by (simp add: store_ok_def row_idents_def two_secrets_def sample_corr_finding_def)
  have "open_findings ''t'' None ?db = two_secrets"
    by (simp add: open_findings_def finding_in_scope_def two_secrets_def sample_corr_finding_def MAX_FINDINGS_def)
  then show ?thesis using correlation_bookkeeping [OF run ok] run by auto
qed

end
