(* ===== verification/Ownership.thy ===== *)
theory Ownership
  imports Authorization PyRegex
begin

text \<open>
  \<open>guardian_core/ownership.py\<close>, the worker's \<open>ownership.py\<close> and the routes \<open>verifications.py\<close> and \<open>authorizations.py\<close>:
  how a customer proves control of a domain, and which authorizations come of it.  Random tokens and new identifiers are
  arguments; DNS and HTTP are the fields of a \<open>world\<close>, whose answers may be exceptions.  Message texts are constructors.
  The last sections follow a permission from the published proof to the scan gate of \<open>Authorization\<close>.
\<close>

subsection \<open>Domains and challenges\<close>

definition TOKEN_PREFIX :: string where "TOKEN_PREFIX = ''guardian-site-verification''"

definition DNS_LABEL :: string where "DNS_LABEL = ''_guardian-challenge''"

definition HTTP_PATH :: string where "HTTP_PATH = ''/.well-known/guardian-verification.txt''"

definition DEFAULT_VALIDITY_DAYS :: int where "DEFAULT_VALIDITY_DAYS = 365"

definition MAX_CHECKS :: nat where "MAX_CHECKS = 50"

datatype own_error =
    InvalidDomain string | UnknownVerificationMethod string | NoCreator | BadVerificationId | IntegrityError
  | CustomerNotFound | AssetNotFound | VerificationNotFound | AuthorizationNotFound | InvalidBody
  | NothingNamed | NotVerified "string list"

text \<open>
  \<open>_DOMAIN_RE\<close> label by label: the dot is in no label, so the only way to match is at every dot.  Its \<open>$\<close> also matches
  before a line break that ends the text.
\<close>

definition label_char :: "char \<Rightarrow> bool" where
  "label_char c \<longleftrightarrow> is_lower c \<or> is_digit c \<or> c = CHR ''-''"

definition domain_label :: "string \<Rightarrow> bool" where
  "domain_label l \<longleftrightarrow> l \<noteq> [] \<and> length l \<le> 63 \<and> list_all label_char l \<and> hd l \<noteq> CHR ''-'' \<and> last l \<noteq> CHR ''-''"

definition domain_matches :: "string \<Rightarrow> bool" where
  "domain_matches s =
     (let t = (if endswith s [CHR 0x0A] then butlast s else s); ls = split_on (CHR ''.'') t
      in 2 \<le> length ls \<and> list_all domain_label ls)"

definition scheme_prefix :: re where
  "scheme_prefix = cats [Begin_text, plus (Cls is_lower), lit ''://'']"

definition normalize_domain :: "string \<Rightarrow> own_error + string" where
  "normalize_domain value =
     (let text = py_lower (py_strip value);
          text = re_sub scheme_prefix (\<lambda>m g. []) text;
          text = hd (split_on (CHR ''?'') (hd (split_on (CHR ''/'') text)));
          text = last (split_on (CHR ''@'') text);
          text = hd (split_on (CHR '':'') text);
          text = strip_dots text
      in if text = [] \<or> 253 < length text \<or> \<not> domain_matches text then Inl (InvalidDomain value) else Inr text)"

text \<open>\<open>new_token\<close>, given the random part.\<close>

definition new_token :: "string \<Rightarrow> string" where
  "new_token random = TOKEN_PREFIX @ ''='' @ random"

definition dns_record_name :: "string \<Rightarrow> own_error + string" where
  "dns_record_name domain = map_sum id (\<lambda>d. DNS_LABEL @ ''.'' @ d) (normalize_domain domain)"

definition http_challenge_url :: "string \<Rightarrow> own_error + string" where
  "http_challenge_url domain = map_sum id (\<lambda>d. ''https://'' @ d @ HTTP_PATH) (normalize_domain domain)"

datatype challenge_instructions = PublishTxt string string | ServeFile string string

definition instructions :: "string \<Rightarrow> string \<Rightarrow> string \<Rightarrow> own_error + challenge_instructions" where
  "instructions domain method token =
     bind_r (normalize_domain domain) (\<lambda>domain.
       if method = ''dns_txt'' then map_sum id (\<lambda>name. PublishTxt name token) (dns_record_name domain)
       else if method = ''http_file'' then map_sum id (\<lambda>url. ServeFile url token) (http_challenge_url domain)
       else Inl (UnknownVerificationMethod method))"

subsection \<open>What counts as proof\<close>

datatype check_reason =
    TxtMissing | TxtEmpty | TxtPublished | TxtOthers nat
  | Redirected string | HttpStatus int | FileEmpty | FileExact | FileWithToken | FileOther
  | FetchRefused string | FetchFailed | MethodUnknown string

record check_result =
  cr_verified :: bool
  cr_reason :: check_reason
  cr_observed :: "string list"

definition txt_value :: "string \<Rightarrow> string" where
  "txt_value r = strip_by (\<lambda>c. c = CHR 0x22) (py_strip r)"

definition evaluate_dns :: "string \<Rightarrow> string list option \<Rightarrow> check_result" where
  "evaluate_dns token records =
     (case records of
        None \<Rightarrow> \<lparr>cr_verified = False, cr_reason = TxtMissing, cr_observed = []\<rparr>
      | Some rs \<Rightarrow>
        let values = map txt_value (filter (\<lambda>r. py_strip r \<noteq> []) rs) in
        if values = [] then \<lparr>cr_verified = False, cr_reason = TxtEmpty, cr_observed = []\<rparr>
        else if token \<in> set values then \<lparr>cr_verified = True, cr_reason = TxtPublished, cr_observed = take 10 values\<rparr>
        else \<lparr>cr_verified = False, cr_reason = TxtOthers (length values), cr_observed = take 10 values\<rparr>)"

definition strip_slashes :: "string \<Rightarrow> string" where
  "strip_slashes = rstrip_by (\<lambda>c. c = CHR ''/'')"

definition evaluate_http :: "string \<Rightarrow> int \<Rightarrow> string \<Rightarrow> string \<Rightarrow> string \<Rightarrow> check_result" where
  "evaluate_http token status body final_url expected_url =
     (let result = (\<lambda>v r obs. \<lparr>cr_verified = v, cr_reason = r, cr_observed = obs\<rparr>) in
      if strip_slashes final_url \<noteq> strip_slashes expected_url then result False (Redirected (take 120 final_url)) []
      else if status \<noteq> 200 then result False (HttpStatus status) []
      else let content = py_strip body in
        if content = [] then result False FileEmpty []
        else if content = token then result True FileExact []
        else if length content \<le> length token + 8 \<and> contains_sub token content then result True FileWithToken []
        else result False FileOther [take 120 content])"

datatype check_failure = LookupRaised string | BadDomain own_error

datatype check_note = ChallengeExpired | GaveUp | CheckRaised check_failure | NotProven check_reason

text \<open>\<open>authorizes\<close> of \<open>guardian_core/ownership.py\<close>.\<close>

definition domain_covers :: "string \<Rightarrow> string \<Rightarrow> bool" where
  "domain_covers verified_domain target =
     (case (normalize_domain verified_domain, normalize_domain target) of
        (Inr verified, Inr candidate) \<Rightarrow> candidate = verified \<or> endswith candidate (''.'' @ verified)
      | _ \<Rightarrow> False)"

subsection \<open>Rows\<close>

record verification =
  dv_id :: uuid
  dv_tenant_id :: uuid
  dv_customer_id :: uuid
  dv_domain :: string
  dv_method :: string
  dv_token :: string
  dv_status :: string
  dv_attempts :: nat
  dv_last_checked_at :: "int option"
  dv_last_error :: "check_note option"
  dv_verified_at :: "int option"
  dv_expires_at :: int
  dv_authorization_id :: "uuid option"
  dv_created_by :: "uuid option"

text \<open>An authorization row with the two columns the scan gate does not read.\<close>

record granted = authorization_row +
  gr_scope :: string
  gr_authorized_by :: uuid

record own_db =
  od_customers :: "(uuid \<times> uuid) list"
  od_assets :: "asset_ref list"
  od_verifications :: "verification list"
  od_authorizations :: "granted list"

definition auth_rows :: "own_db \<Rightarrow> authorization_row list" where
  "auth_rows db = map authorization_row.truncate (od_authorizations db)"

definition get_verification :: "own_db \<Rightarrow> uuid \<Rightarrow> verification option" where
  "get_verification db i = find (\<lambda>v. dv_id v = i) (od_verifications db)"

definition put_verification :: "verification \<Rightarrow> own_db \<Rightarrow> own_db" where
  "put_verification v db = db\<lparr>od_verifications := map (\<lambda>r. if dv_id r = dv_id v then v else r) (od_verifications db)\<rparr>"

definition add_authorization :: "granted \<Rightarrow> own_db \<Rightarrow> own_error + own_db" where
  "add_authorization a db =
     (if ar_id a \<in> ar_id ` set (od_authorizations db) then Inl IntegrityError
      else Inr (db\<lparr>od_authorizations := od_authorizations db @ [a]\<rparr>))"

definition domain_target :: "string \<Rightarrow> jval" where
  "domain_target d = JObj [(''type'', JStr ''domain''), (''value'', JStr d)]"

subsection \<open>The worker\<close>

text \<open>What the network answers: TXT records or an exception, whether a name resolves to public addresses only, and the status,
  location header and body of a request or an exception.\<close>

record world =
  wd_txt :: "string \<Rightarrow> string + string list option"
  wd_public :: "string \<Rightarrow> bool"
  wd_get :: "string \<Rightarrow> string + int \<times> string \<times> string"

definition MAX_BODY_CHARS :: nat where "MAX_BODY_CHARS = 4096"

definition raised :: "own_error + 'a \<Rightarrow> check_failure + 'a" where
  "raised r = map_sum BadDomain id r"

definition fetch_challenge :: "world \<Rightarrow> string \<Rightarrow> check_failure + int \<times> string \<times> string" where
  "fetch_challenge w domain =
     bind_r (raised (http_challenge_url domain)) (\<lambda>url.
       if \<not> wd_public w domain then Inr (0, [], ''refused: '' @ domain @ '' does not resolve to a public address'')
       else case wd_get w url of
           Inl e \<Rightarrow> Inl (LookupRaised e)
         | Inr (status, location, body) \<Rightarrow>
             if 300 \<le> status \<and> status < 400 then Inr (status, [], location) else Inr (status, take MAX_BODY_CHARS body, url))"

definition check :: "world \<Rightarrow> verification \<Rightarrow> check_failure + check_result" where
  "check w v =
     (let no = (\<lambda>r. Inr \<lparr>cr_verified = False, cr_reason = r, cr_observed = []\<rparr>) in
      if dv_method v = ''dns_txt''
      then bind_r (raised (dns_record_name (dv_domain v))) (\<lambda>name.
           case wd_txt w name of Inl e \<Rightarrow> Inl (LookupRaised e) | Inr records \<Rightarrow> Inr (evaluate_dns (dv_token v) records))
      else if dv_method v = ''http_file''
      then bind_r (fetch_challenge w (dv_domain v)) (\<lambda>(status, body, final_url).
           if status = 0 then no (if final_url \<noteq> [] then FetchRefused final_url else FetchFailed)
           else bind_r (raised (http_challenge_url (dv_domain v))) (\<lambda>url.
                Inr (evaluate_http (dv_token v) status body final_url url)))
      else no (MethodUnknown (dv_method v)))"

text \<open>\<open>_grant\<close>; the column \<open>authorized_by\<close> is not nullable.\<close>

definition grant_proved :: "uuid \<Rightarrow> verification \<Rightarrow> int \<Rightarrow> own_db \<Rightarrow> own_error + own_db" where
  "grant_proved aid v now db =
     (case dv_created_by v of
        None \<Rightarrow> Inl IntegrityError
      | Some by \<Rightarrow> add_authorization
          \<lparr>ar_id = aid, ar_tenant_id = dv_tenant_id v, ar_customer_id = dv_customer_id v, ar_method = ''ownership_verified'',
           ar_asset_id = None, ar_targets = [domain_target (dv_domain v)], ar_valid_from = Some (Aware now),
           ar_valid_until = Some (Aware (dv_expires_at v)), ar_revoked_at = None,
           gr_scope = ''Ownership of '' @ dv_domain v @ '' proved by '' @ dv_method v, gr_authorized_by = by\<rparr> db)"

datatype check_outcome =
    OutUnknown | OutVerified string "uuid option" | OutExpired string | OutFailed | OutPending check_note

definition check_domain_verification :: "world \<Rightarrow> int \<Rightarrow> uuid \<Rightarrow> string \<Rightarrow> own_db \<Rightarrow> own_error + own_db \<times> check_outcome" where
  "check_domain_verification w now aid verification_id db =
     (case parse_uuid verification_id of None \<Rightarrow> Inl BadVerificationId | Some vid \<Rightarrow>
      case get_verification db vid of None \<Rightarrow> Inr (db, OutUnknown) | Some v \<Rightarrow>
      if dv_status v = ''verified'' then Inr (db, OutVerified (dv_domain v) None)
      else if dv_expires_at v \<le> now
      then Inr (put_verification (v\<lparr>dv_status := ''expired'', dv_last_error := Some ChallengeExpired\<rparr>) db, OutExpired (dv_domain v))
      else if dv_attempts v \<ge> MAX_CHECKS
      then Inr (put_verification (v\<lparr>dv_status := ''failed'', dv_last_error := Some GaveUp\<rparr>) db, OutFailed)
      else let v = v\<lparr>dv_attempts := Suc (dv_attempts v), dv_last_checked_at := Some now\<rparr>;
               pending = (\<lambda>note. Inr (put_verification (v\<lparr>dv_last_error := Some note\<rparr>) db, OutPending note)) in
        (case check w v of
           Inl e \<Rightarrow> pending (CheckRaised e)
         | Inr result \<Rightarrow>
           if \<not> cr_verified result then pending (NotProven (cr_reason result))
           else bind_r (grant_proved aid v now db) (\<lambda>db.
                Inr (put_verification (v\<lparr>dv_status := ''verified'', dv_verified_at := Some now, dv_last_error := None,
                                          dv_authorization_id := Some aid\<rparr>) db,
                     OutVerified (dv_domain v) (Some aid)))))"

definition create_verification ::
    "uuid \<Rightarrow> uuid \<Rightarrow> string \<Rightarrow> string \<Rightarrow> uuid option \<Rightarrow> int \<Rightarrow> string \<Rightarrow> uuid \<Rightarrow> int \<Rightarrow> own_db \<Rightarrow> own_error + own_db \<times> verification" where
  "create_verification tenant customer domain method created_by validity_days random vid now db =
     (if method \<notin> {''dns_txt'', ''http_file''} then Inl (UnknownVerificationMethod method)
      else if created_by = None then Inl NoCreator
      else bind_r (normalize_domain domain) (\<lambda>normalized.
        let v = \<lparr>dv_id = vid, dv_tenant_id = tenant, dv_customer_id = customer, dv_domain = normalized, dv_method = method,
                 dv_token = new_token random, dv_status = ''pending'', dv_attempts = 0, dv_last_checked_at = None,
                 dv_last_error = None, dv_verified_at = None, dv_expires_at = now + days_us validity_days,
                 dv_authorization_id = None, dv_created_by = created_by\<rparr>
        in if vid \<in> dv_id ` set (od_verifications db) \<or> dv_token v \<in> dv_token ` set (od_verifications db) then Inl IntegrityError
           else Inr (db\<lparr>od_verifications := od_verifications db @ [v]\<rparr>, v)))"

subsection \<open>The routes\<close>

definition known_customer :: "uuid \<Rightarrow> uuid \<Rightarrow> own_db \<Rightarrow> bool" where
  "known_customer tenant customer db \<longleftrightarrow> map_of (od_customers db) customer = Some tenant"

definition route_create_verification ::
    "uuid \<Rightarrow> uuid \<Rightarrow> uuid \<Rightarrow> string \<Rightarrow> string \<Rightarrow> string \<Rightarrow> uuid \<Rightarrow> int \<Rightarrow> own_db \<Rightarrow> own_error + own_db \<times> verification" where
  "route_create_verification tenant user customer domain method random vid now db =
     (if length domain < 3 \<or> 253 < length domain \<or> method \<notin> {''dns_txt'', ''http_file''} then Inl InvalidBody
      else if \<not> known_customer tenant customer db then Inl CustomerNotFound
      else bind_r (normalize_domain domain) (\<lambda>domain.
           create_verification tenant customer domain method (Some user) DEFAULT_VALIDITY_DAYS random vid now db))"

text \<open>The answer says whether the check task was sent.\<close>

definition request_check :: "uuid \<Rightarrow> uuid \<Rightarrow> own_db \<Rightarrow> own_error + bool" where
  "request_check tenant vid db =
     (case get_verification db vid of None \<Rightarrow> Inl VerificationNotFound
      | Some v \<Rightarrow> if dv_tenant_id v \<noteq> tenant then Inl VerificationNotFound else Inr (dv_status v \<noteq> ''verified''))"

definition revoke_row :: "uuid \<Rightarrow> int \<Rightarrow> own_db \<Rightarrow> own_db" where
  "revoke_row aid now db =
     db\<lparr>od_authorizations := map (\<lambda>a. if ar_id a = aid \<and> ar_revoked_at a = None then a\<lparr>ar_revoked_at := Some (Aware now)\<rparr> else a)
          (od_authorizations db)\<rparr>"

definition revoke_verification :: "uuid \<Rightarrow> uuid \<Rightarrow> int \<Rightarrow> own_db \<Rightarrow> own_error + own_db" where
  "revoke_verification tenant vid now db =
     (case get_verification db vid of None \<Rightarrow> Inl VerificationNotFound
      | Some v \<Rightarrow>
        if dv_tenant_id v \<noteq> tenant then Inl VerificationNotFound
        else let db = put_verification (v\<lparr>dv_status := ''revoked''\<rparr>) db
             in Inr (case dv_authorization_id v of Some aid \<Rightarrow> revoke_row aid now db | None \<Rightarrow> db))"

record auth_body =
  ab_customer_id :: uuid
  ab_method :: string
  ab_scope :: string
  ab_asset_id :: "uuid option"
  ab_domains :: "string list"
  ab_validity_days :: int

definition body_ok :: "auth_body \<Rightarrow> bool" where
  "body_ok b \<longleftrightarrow> ab_method b \<in> {''written_consent'', ''active_recon''} \<and> 3 \<le> length (ab_scope b) \<and> length (ab_scope b) \<le> 200 \<and>
     length (ab_domains b) \<le> 50 \<and> 1 \<le> ab_validity_days b \<and> ab_validity_days b \<le> 365"

definition verified_domains :: "uuid \<Rightarrow> uuid \<Rightarrow> int \<Rightarrow> own_db \<Rightarrow> string set" where
  "verified_domains tenant customer now db =
     (\<lambda>v. py_lower (dv_domain v)) ` {v \<in> set (take 500 (filter (\<lambda>v. dv_tenant_id v = tenant \<and> dv_customer_id v = customer \<and>
          dv_status v = ''verified'') (od_verifications db))). dv_expires_at v > now}"

definition proved_name :: "string set \<Rightarrow> string \<Rightarrow> bool" where
  "proved_name verified t \<longleftrightarrow> (\<exists>d \<in> verified. t = d \<or> endswith t (''.'' @ d))"

fun normalize_all :: "string list \<Rightarrow> own_error + string list" where
  "normalize_all [] = Inr []"
| "normalize_all (d # ds) = bind_r (normalize_domain d) (\<lambda>n. map_sum id ((#) n) (normalize_all ds))"

definition create_authorization :: "uuid \<Rightarrow> uuid \<Rightarrow> auth_body \<Rightarrow> uuid \<Rightarrow> int \<Rightarrow> own_db \<Rightarrow> own_error + own_db" where
  "create_authorization tenant user b aid now db =
     (if \<not> body_ok b then Inl InvalidBody
      else if \<not> known_customer tenant (ab_customer_id b) db then Inl CustomerNotFound
      else if (case ab_asset_id b of None \<Rightarrow> False
               | Some i \<Rightarrow> (case find (\<lambda>s. as_id s = i) (od_assets db) of None \<Rightarrow> True | Some s \<Rightarrow> as_tenant_id s \<noteq> tenant))
      then Inl AssetNotFound
      else bind_r (normalize_all (ab_domains b)) (\<lambda>values.
        if ab_asset_id b = None \<and> values = [] then Inl NothingNamed
        else let verified = verified_domains tenant (ab_customer_id b) now db;
                 unproved = filter (\<lambda>t. \<not> proved_name verified t) values in
          if ab_method b = ''active_recon'' \<and> (unproved \<noteq> [] \<or> values = []) then Inl (NotVerified unproved)
          else add_authorization
            \<lparr>ar_id = aid, ar_tenant_id = tenant, ar_customer_id = ab_customer_id b, ar_method = ab_method b,
             ar_asset_id = ab_asset_id b, ar_targets = map domain_target values, ar_valid_from = Some (Aware now),
             ar_valid_until = Some (Aware (now + days_us (ab_validity_days b))), ar_revoked_at = None,
             gr_scope = ab_scope b, gr_authorized_by = user\<rparr> db))"

definition revoke_authorization :: "uuid \<Rightarrow> uuid \<Rightarrow> int \<Rightarrow> own_db \<Rightarrow> own_error + own_db" where
  "revoke_authorization tenant aid now db =
     (case find (\<lambda>a. ar_id a = aid) (od_authorizations db) of None \<Rightarrow> Inl AuthorizationNotFound
      | Some a \<Rightarrow> if ar_tenant_id a \<noteq> tenant then Inl AuthorizationNotFound else Inr (revoke_row aid now db))"

datatype auth_state = StateRevoked | StateExpired | StatePending | StateActive

definition auth_state_of :: "granted \<Rightarrow> int \<Rightarrow> auth_state" where
  "auth_state_of a now =
     (if ar_revoked_at a \<noteq> None then StateRevoked
      else if (case ar_valid_until a of Some v \<Rightarrow> aware v \<le> now | None \<Rightarrow> False) then StateExpired
      else if (case ar_valid_from a of Some v \<Rightarrow> aware v > now | None \<Rightarrow> False) then StatePending
      else StateActive)"

subsection \<open>Normal names\<close>

definition normal_name :: "string \<Rightarrow> bool" where
  "normal_name n \<longleftrightarrow> n \<noteq> [] \<and> py_lower n = n \<and> strip_dots n = n \<and> domain_matches n"

lemma split_on_covers: "x \<in> set s \<Longrightarrow> x = c \<or> (\<exists>p \<in> set (split_on c s). x \<in> set p)"
proof (induction s)
  case (Cons y s)
  then show ?case by (cases "split_on c s") auto
qed simp

lemma domain_chars:
  assumes "domain_matches s" "x \<in> set s"
  shows "label_char x \<or> x = CHR ''.'' \<or> x = CHR 0x0A"
proof -
  define t where "t = (if endswith s [CHR 0x0A] then butlast s else s)"
  have ls: "list_all domain_label (split_on (CHR ''.'') t)" using assms(1) by (simp add: domain_matches_def t_def Let_def)
  have "x \<in> set t \<or> x = CHR 0x0A" using assms(2) by (auto simp: t_def endswith_iff)
  then show ?thesis
  proof
    assume "x \<in> set t"
    from split_on_covers [OF this, of "CHR ''.''"] ls show ?thesis
      by (auto simp: list_all_iff domain_label_def)
  qed simp
qed

lemma label_char_lower: "label_char c \<Longrightarrow> to_lower c = c"
  by (auto simp: label_char_def to_lower_def is_lower_def is_digit_def is_upper_def ordc_def)

lemma domain_matches_lower: "domain_matches s \<Longrightarrow> py_lower s = s"
  unfolding py_lower_def
proof (rule map_idI)
  fix x assume "domain_matches s" "x \<in> set s"
  from domain_chars [OF this] show "to_lower x = x"
    by (auto simp: label_char_lower) (simp_all add: to_lower_def is_upper_def ordc_def)
qed

lemma normalize_domain_normal: "normalize_domain v = Inr n \<Longrightarrow> normal_name n"
  by (auto simp: normalize_domain_def Let_def normal_name_def domain_matches_lower split: if_splits)

lemma normalize_all_normal: "normalize_all ds = Inr ns \<Longrightarrow> n \<in> set ns \<Longrightarrow> normal_name n"
proof (induction ds arbitrary: ns)
  case (Cons d ds)
  then show ?case by (cases "normalize_all ds") (auto simp: bind_r_Inr dest: normalize_domain_normal)
qed simp

lemma domain_target_matches:
  assumes "py_lower n = n" "strip_dots n = n" "n \<noteq> []"
  shows "entry_matches host [(''type'', JStr ''domain''), (''value'', JStr n)] \<longleftrightarrow> in_zone n host"
proof -
  have d: "py_lower ''domain'' = ''domain''" by code_simp
  show ?thesis using assms by (auto simp: entry_matches_def entry_text_def d in_zone_iff Let_def)
qed

lemma in_zone_trans: "in_zone a b \<Longrightarrow> in_zone b c \<Longrightarrow> in_zone a c"
  unfolding in_zone_def by (rule endswith_trans)

lemma in_zone_refl [simp]: "in_zone z z"
  by (simp add: in_zone_def)

lemma proved_name_zone: "proved_name V t \<longleftrightarrow> (\<exists>d \<in> V. in_zone d t)"
  by (auto simp: proved_name_def in_zone_iff)

subsection \<open>Runs\<close>

text \<open>What has to be seen in the network for a challenge to be met.\<close>

definition shows_token :: "world \<Rightarrow> verification \<Rightarrow> string \<Rightarrow> bool" where
  "shows_token w v d \<longleftrightarrow>
     (\<exists>rs. wd_txt w (DNS_LABEL @ ''.'' @ d) = Inr (Some rs) \<and> dv_token v \<in> txt_value ` set rs) \<or>
     (\<exists>location body. wd_get w (''https://'' @ d @ HTTP_PATH) = Inr (200, location, body) \<and> wd_public w (dv_domain v) \<and>
        contains_sub (dv_token v) (py_strip (take MAX_BODY_CHARS body)) \<and>
        length (py_strip (take MAX_BODY_CHARS body)) \<le> length (dv_token v) + 8)"

definition proofs_seen :: "world \<Rightarrow> own_db \<Rightarrow> (uuid \<times> uuid \<times> string) set" where
  "proofs_seen w db = {(dv_tenant_id v, dv_customer_id v, dv_domain v) | v.
     v \<in> set (od_verifications db) \<and> (\<exists>d. normalize_domain (dv_domain v) = Inr d \<and> shows_token w v d)}"

text \<open>Requests and checks in any order, with the proofs that were in the network when a check ran.\<close>

inductive own_run :: "own_db \<Rightarrow> (uuid \<times> uuid \<times> string) set \<Rightarrow> bool" where
  own_start: "od_verifications db = [] \<Longrightarrow> od_authorizations db = [] \<Longrightarrow> own_run db {}"
| own_issue: "own_run db P \<Longrightarrow> route_create_verification tenant user customer domain method random vid now db = Inr (db', v) \<Longrightarrow> own_run db' P"
| own_check: "own_run db P \<Longrightarrow> check_domain_verification w now aid i db = Inr (db', out) \<Longrightarrow> own_run db' (P \<union> proofs_seen w db)"
| own_revoke: "own_run db P \<Longrightarrow> revoke_verification tenant vid now db = Inr db' \<Longrightarrow> own_run db' P"
| own_record: "own_run db P \<Longrightarrow> create_authorization tenant user b aid now db = Inr db' \<Longrightarrow> own_run db' P"
| own_withdraw: "own_run db P \<Longrightarrow> revoke_authorization tenant aid now db = Inr db' \<Longrightarrow> own_run db' P"

lemma contains_sub_refl: "contains_sub s s"
  by (cases s) (auto simp: startswith_iff)

lemma check_verified:
  assumes "check w v = Inr r" "cr_verified r"
  shows "\<exists>d. normalize_domain (dv_domain v) = Inr d \<and> shows_token w v d"
proof -
  obtain d where d: "normalize_domain (dv_domain v) = Inr d"
    using assms by (cases "normalize_domain (dv_domain v)")
      (auto simp: check_def Let_def bind_r_def raised_def dns_record_name_def http_challenge_url_def fetch_challenge_def split: if_splits)
  have "shows_token w v d"
  proof (cases "dv_method v = ''dns_txt''")
    case True
    then show ?thesis using assms d
      by (auto simp: check_def Let_def bind_r_def raised_def dns_record_name_def evaluate_dns_def shows_token_def
          split: sum.splits option.splits if_splits)
  next
    case False
    then show ?thesis using assms d
      by (auto simp: check_def Let_def bind_r_def raised_def http_challenge_url_def fetch_challenge_def evaluate_http_def
          shows_token_def contains_sub_refl split: sum.splits option.splits if_splits prod.splits)
  qed
  with d show ?thesis by blast
qed

subsection \<open>The invariant of a run\<close>

definition target_proved :: "(uuid \<times> uuid \<times> string) set \<Rightarrow> granted \<Rightarrow> jval \<Rightarrow> bool" where
  "target_proved P a e \<longleftrightarrow> (\<exists>n d. e = domain_target n \<and> normal_name n \<and> (ar_tenant_id a, ar_customer_id a, d) \<in> P \<and> in_zone d n)"

definition auth_proved :: "(uuid \<times> uuid \<times> string) set \<Rightarrow> granted \<Rightarrow> bool" where
  "auth_proved P a \<longleftrightarrow> (ar_method a \<in> NETWORK_METHODS \<longrightarrow> ar_targets a \<noteq> [] \<and> (\<forall>e \<in> set (ar_targets a). target_proved P a e)) \<and>
     (ar_method a = ''ownership_verified'' \<longrightarrow> ar_asset_id a = None)"

definition standing_proof :: "verification list \<Rightarrow> granted \<Rightarrow> bool" where
  "standing_proof vs a \<longleftrightarrow> (\<exists>v \<in> set vs. dv_status v = ''verified'' \<and> dv_authorization_id v = Some (ar_id a) \<and>
     dv_tenant_id v = ar_tenant_id a \<and> dv_customer_id v = ar_customer_id a \<and> ar_targets a = [domain_target (dv_domain v)] \<and>
     ar_valid_until a = Some (Aware (dv_expires_at v)))"

definition live_proved :: "verification list \<Rightarrow> granted \<Rightarrow> bool" where
  "live_proved vs a \<longleftrightarrow> (ar_method a = ''ownership_verified'' \<and> ar_revoked_at a = None \<longrightarrow> standing_proof vs a)"

definition verification_ok :: "(uuid \<times> uuid \<times> string) set \<Rightarrow> verification \<Rightarrow> bool" where
  "verification_ok P v \<longleftrightarrow> normal_name (dv_domain v) \<and> dv_attempts v \<le> MAX_CHECKS \<and>
     (dv_status v = ''verified'' \<longrightarrow> (dv_tenant_id v, dv_customer_id v, dv_domain v) \<in> P)"

definition own_inv :: "own_db \<Rightarrow> (uuid \<times> uuid \<times> string) set \<Rightarrow> bool" where
  "own_inv db P \<longleftrightarrow> distinct (map dv_id (od_verifications db)) \<and> (\<forall>v \<in> set (od_verifications db). verification_ok P v) \<and>
     (\<forall>a \<in> set (od_authorizations db). auth_proved P a \<and> live_proved (od_verifications db) a)"

lemma proved_mono: "P \<subseteq> Q \<Longrightarrow> auth_proved P a \<Longrightarrow> auth_proved Q a"
  by (fastforce simp: auth_proved_def target_proved_def)

lemma verification_ok_mono: "P \<subseteq> Q \<Longrightarrow> verification_ok P v \<Longrightarrow> verification_ok Q v"
  by (auto simp: verification_ok_def)

lemma own_inv_mono: "own_inv db P \<Longrightarrow> P \<subseteq> Q \<Longrightarrow> own_inv db Q"
  unfolding own_inv_def by (blast intro: proved_mono verification_ok_mono)

text \<open>Replacing one verification that was not verified keeps the proofs the permissions stand on.\<close>

lemma put_ids: "map dv_id (od_verifications (put_verification v db)) = map dv_id (od_verifications db)"
  by (auto simp: put_verification_def comp_def intro: map_idI)

lemma put_mem:
  assumes "u \<in> set (od_verifications (put_verification v db))"
  shows "u = v \<or> u \<in> set (od_verifications db)"
  using assms by (auto simp: put_verification_def split: if_splits)

lemma get_verification_Some:
  "get_verification db i = Some v \<Longrightarrow> v \<in> set (od_verifications db) \<and> dv_id v = i"
  by (auto simp: get_verification_def dest: find_SomeD)

lemma put_keeps_standing:
  assumes "standing_proof (od_verifications db) a" "v0 \<in> set (od_verifications db)" "dv_id v = dv_id v0"
    and "distinct (map dv_id (od_verifications db))" "dv_status v0 \<noteq> ''verified'' \<or> dv_authorization_id v0 \<noteq> Some (ar_id a)"
  shows "standing_proof (od_verifications (put_verification v db)) a"
proof -
  obtain u where u: "u \<in> set (od_verifications db)" "dv_status u = ''verified''" "dv_authorization_id u = Some (ar_id a)"
      "dv_tenant_id u = ar_tenant_id a" "dv_customer_id u = ar_customer_id a" "ar_targets a = [domain_target (dv_domain u)]"
      "ar_valid_until a = Some (Aware (dv_expires_at u))"
    using assms(1) by (auto simp: standing_proof_def)
  have "dv_id u \<noteq> dv_id v"
  proof
    assume "dv_id u = dv_id v"
    then have "u = v0" using assms(2-4) u(1) by (simp add: distinct_map inj_on_def)
    then show False using u assms(5) by simp
  qed
  then have "u \<in> set (od_verifications (put_verification v db))" using u(1) by (force simp: put_verification_def)
  then show ?thesis using u unfolding standing_proof_def by blast
qed

lemma put_inv:
  assumes "own_inv db P" "v0 \<in> set (od_verifications db)" "dv_id v = dv_id v0" "verification_ok P v"
    and "\<And>a. a \<in> set (od_authorizations db) \<Longrightarrow> ar_method a = ''ownership_verified'' \<Longrightarrow> ar_revoked_at a = None \<Longrightarrow>
      dv_status v0 \<noteq> ''verified'' \<or> dv_authorization_id v0 \<noteq> Some (ar_id a)"
  shows "own_inv (put_verification v db) P"
  unfolding own_inv_def
proof (intro conjI ballI)
  show "distinct (map dv_id (od_verifications (put_verification v db)))" using assms(1) by (simp add: put_ids own_inv_def)
  fix u assume "u \<in> set (od_verifications (put_verification v db))"
  then show "verification_ok P u" using put_mem assms(1,4) by (auto simp: own_inv_def)
next
  fix a assume "a \<in> set (od_authorizations (put_verification v db))"
  then have a: "a \<in> set (od_authorizations db)" by (simp add: put_verification_def)
  then show "auth_proved P a" using assms(1) by (simp add: own_inv_def)
  show "live_proved (od_verifications (put_verification v db)) a"
    using put_keeps_standing [OF _ assms(2,3)] assms(1) assms(5) [OF a] a by (auto simp: live_proved_def own_inv_def)
qed

text \<open>Every operation keeps the invariant.\<close>

lemma add_authorization_inv:
  assumes "add_authorization a db = Inr db'" "own_inv db P" "auth_proved P a" "live_proved (od_verifications db) a"
  shows "own_inv db' P"
  using assms by (auto simp: add_authorization_def own_inv_def split: if_splits)

lemma issue_inv:
  assumes "route_create_verification tenant user customer domain method random vid now db = Inr (db', v)" "own_inv db P"
  shows "own_inv db' P"
proof -
  have db': "db' = db\<lparr>od_verifications := od_verifications db @ [v]\<rparr>" and v: "dv_status v = ''pending''" "dv_attempts v = 0"
      "dv_id v \<notin> dv_id ` set (od_verifications db)" "\<exists>d. normalize_domain d = Inr (dv_domain v)"
    using assms(1) by (auto simp: route_create_verification_def create_verification_def bind_r_Inr Let_def split: if_splits)
  have "verification_ok P v" using v normalize_domain_normal by (auto simp: verification_ok_def MAX_CHECKS_def)
  moreover have "live_proved (od_verifications db @ [v]) a" if "live_proved (od_verifications db) a" for a
    using that by (auto simp: live_proved_def standing_proof_def)
  ultimately show ?thesis using assms(2) v(3) by (auto simp: own_inv_def db')
qed

lemma revoke_row_mem:
  "a \<in> set (od_authorizations (revoke_row aid now db)) \<Longrightarrow> \<exists>b \<in> set (od_authorizations db). ar_method a = ar_method b \<and>
     ar_tenant_id a = ar_tenant_id b \<and> ar_customer_id a = ar_customer_id b \<and> ar_targets a = ar_targets b \<and> ar_asset_id a = ar_asset_id b \<and>
     ar_id a = ar_id b \<and> ar_valid_until a = ar_valid_until b \<and>
     (ar_revoked_at a = None \<longrightarrow> ar_revoked_at b = None \<and> ar_id b \<noteq> aid)"
  by (auto simp: revoke_row_def split: if_splits)

lemma revoke_row_inv: "own_inv db P \<Longrightarrow> own_inv (revoke_row aid now db) P"
  unfolding own_inv_def
proof (elim conjE, intro conjI ballI)
  fix a assume inv: "\<forall>a \<in> set (od_authorizations db). auth_proved P a \<and> live_proved (od_verifications db) a"
    and "a \<in> set (od_authorizations (revoke_row aid now db))"
  then obtain b where "b \<in> set (od_authorizations db)" "ar_method a = ar_method b" "ar_tenant_id a = ar_tenant_id b"
      "ar_customer_id a = ar_customer_id b" "ar_targets a = ar_targets b" "ar_asset_id a = ar_asset_id b" "ar_id a = ar_id b"
      "ar_valid_until a = ar_valid_until b" "ar_revoked_at a = None \<longrightarrow> ar_revoked_at b = None" using revoke_row_mem by metis
  with inv show "auth_proved P a" "live_proved (od_verifications (revoke_row aid now db)) a"
    by (auto simp: auth_proved_def target_proved_def live_proved_def standing_proof_def revoke_row_def)
qed (simp_all add: revoke_row_def)

lemma revoke_inv:
  assumes "revoke_verification tenant vid now db = Inr db'" "own_inv db P"
  shows "own_inv db' P"
proof -
  obtain v where get: "get_verification db vid = Some v"
    and db': "db' = (case dv_authorization_id v of Some aid \<Rightarrow> revoke_row aid now (put_verification (v\<lparr>dv_status := ''revoked''\<rparr>) db)
        | None \<Rightarrow> put_verification (v\<lparr>dv_status := ''revoked''\<rparr>) db)"
    using assms(1) by (auto simp: revoke_verification_def Let_def split: option.splits if_splits)
  have v: "v \<in> set (od_verifications db)" using get_verification_Some [OF get] by simp
  let ?w = "v\<lparr>dv_status := ''revoked''\<rparr>"
  have ok: "verification_ok P ?w" using assms(2) v by (auto simp: own_inv_def verification_ok_def)
  show ?thesis
  proof (cases "dv_authorization_id v")
    case None
    then show ?thesis using put_inv [OF assms(2) v _ ok] db' by simp
  next
    case (Some aid)
    let ?r = "revoke_row aid now db"
    have sw: "revoke_row aid now (put_verification ?w db) = put_verification ?w ?r"
      by (simp add: revoke_row_def put_verification_def)
    have vs: "od_verifications ?r = od_verifications db" by (simp add: revoke_row_def)
    have "own_inv (put_verification ?w ?r) P"
    proof (rule put_inv [OF revoke_row_inv [OF assms(2)] _ _ ok])
      show "v \<in> set (od_verifications ?r)" "dv_id ?w = dv_id v" using v by (simp_all add: vs)
      fix a assume "a \<in> set (od_authorizations ?r)" "ar_revoked_at a = None"
      then have "ar_id a \<noteq> aid" using revoke_row_mem by metis
      then show "dv_status v \<noteq> ''verified'' \<or> dv_authorization_id v \<noteq> Some (ar_id a)" using Some by auto
    qed
    then show ?thesis using Some db' sw by simp
  qed
qed

text \<open>A check leaves the tables alone, writes down why there is no proof, or grants.\<close>

definition counted :: "int \<Rightarrow> verification \<Rightarrow> verification" where
  "counted now v = v\<lparr>dv_attempts := Suc (dv_attempts v), dv_last_checked_at := Some now\<rparr>"

definition unproved_update :: "verification \<Rightarrow> verification \<Rightarrow> bool" where
  "unproved_update v v1 \<longleftrightarrow> dv_id v1 = dv_id v \<and> dv_domain v1 = dv_domain v \<and> dv_status v1 \<noteq> ''verified'' \<and>
     dv_attempts v1 \<le> max (dv_attempts v) MAX_CHECKS"

definition proved_update :: "int \<Rightarrow> uuid \<Rightarrow> verification \<Rightarrow> verification" where
  "proved_update now aid v = (counted now v)\<lparr>dv_status := ''verified'', dv_verified_at := Some now, dv_last_error := None,
     dv_authorization_id := Some aid\<rparr>"

lemma check_cases:
  assumes "check_domain_verification w now aid i db = Inr (db', out)"
  obtains "db' = db" "\<forall>d a. out \<noteq> OutVerified d (Some a)"
    | v v1 where "v \<in> set (od_verifications db)" "dv_status v \<noteq> ''verified''" "unproved_update v v1" "db' = put_verification v1 db"
        "\<forall>d a. out \<noteq> OutVerified d (Some a)"
    | v r db1 where "v \<in> set (od_verifications db)" "dv_status v \<noteq> ''verified''" "dv_attempts v < MAX_CHECKS"
        "check w (counted now v) = Inr r" "cr_verified r" "grant_proved aid (counted now v) now db = Inr db1"
        "db' = put_verification (proved_update now aid v) db1" "out = OutVerified (dv_domain v) (Some aid)"
proof -
  note def = check_domain_verification_def
  obtain vid where vid: "parse_uuid i = Some vid" using assms by (auto simp: def split: option.splits)
  show thesis
  proof (cases "get_verification db vid")
    case None
    then show thesis using assms vid that(1) by (simp add: def)
  next
    case (Some v)
    note v = get_verification_Some [OF Some]
    note run = assms [unfolded def, simplified vid Some option.case]
    consider "dv_status v = ''verified''" | (late) "dv_status v \<noteq> ''verified''" "dv_expires_at v \<le> now \<or> MAX_CHECKS \<le> dv_attempts v"
      | (look) "dv_status v \<noteq> ''verified''" "\<not> dv_expires_at v \<le> now" "dv_attempts v < MAX_CHECKS" by linarith
    then show thesis
    proof cases
      case 1
      then show thesis using run that(1) by auto
    next
      case late
      show thesis
      proof (cases "dv_expires_at v \<le> now")
        case True
        show thesis by (rule that(2) [of v "v\<lparr>dv_status := ''expired'', dv_last_error := Some ChallengeExpired\<rparr>"])
            (use late True run v in \<open>auto simp: unproved_update_def\<close>)
      next
        case False
        show thesis by (rule that(2) [of v "v\<lparr>dv_status := ''failed'', dv_last_error := Some GaveUp\<rparr>"])
            (use late False run v in \<open>auto simp: unproved_update_def\<close>)
      qed
    next
      case look
      have un: "unproved_update v ((counted now v)\<lparr>dv_last_error := Some n\<rparr>)" for n
        using look by (simp add: unproved_update_def counted_def)
      note run2 = run [unfolded if_not_P [OF look(1)] if_not_P [OF look(2)], folded counted_def]
      show thesis
      proof (cases "check w (counted now v)")
        case (Inl e)
        show thesis by (rule that(2) [OF _ look(1) un]) (use look run2 v Inl in \<open>auto simp: Let_def\<close>)
      next
        case (Inr r)
        show thesis
        proof (cases "cr_verified r")
          case True
          then obtain db1 where "grant_proved aid (counted now v) now db = Inr db1" "db' = put_verification (proved_update now aid v) db1"
            "out = OutVerified (dv_domain v) (Some aid)"
            using look run2 Inr by (auto simp: Let_def bind_r_Inr proved_update_def counted_def)
          then show thesis using that(3) [OF _ look(1,3) Inr True] v by blast
        next
          case False
          show thesis by (rule that(2) [OF _ look(1) un]) (use look run2 v Inr False in \<open>auto simp: Let_def\<close>)
        qed
      qed
    qed
  qed
qed

lemma grant_row:
  assumes "grant_proved aid (counted now v) now db = Inr db1"
  obtains a where "db1 = db\<lparr>od_authorizations := od_authorizations db @ [a]\<rparr>" "ar_id a = aid" "ar_id a \<notin> ar_id ` set (od_authorizations db)"
    "ar_method a = ''ownership_verified''" "ar_tenant_id a = dv_tenant_id v" "ar_customer_id a = dv_customer_id v" "ar_asset_id a = None"
    "ar_targets a = [domain_target (dv_domain v)]" "ar_valid_until a = Some (Aware (dv_expires_at v))"
    "ar_valid_from a = Some (Aware now)" "ar_revoked_at a = None"
  using assms by (auto simp: grant_proved_def add_authorization_def counted_def split: option.splits if_splits)

lemma check_inv:
  assumes "check_domain_verification w now aid i db = Inr (db', out)" "own_inv db P"
  shows "own_inv db' (P \<union> proofs_seen w db)"
  using assms(1)
proof (cases rule: check_cases)
  case 1
  then show ?thesis using own_inv_mono [OF assms(2)] by simp
next
  case (2 v v1)
  have Q: "own_inv db (P \<union> proofs_seen w db)" by (rule own_inv_mono [OF assms(2)]) simp
  then have "verification_ok (P \<union> proofs_seen w db) v1" using 2 by (auto simp: own_inv_def verification_ok_def unproved_update_def)
  then show ?thesis using put_inv [OF Q 2(1)] 2 by (simp add: unproved_update_def)
next
  case (3 v r db1)
  let ?Q = "P \<union> proofs_seen w db" and ?v1 = "proved_update now aid v"
  have Q: "own_inv db ?Q" by (rule own_inv_mono [OF assms(2)]) simp
  have v1: "dv_id ?v1 = dv_id v" "dv_domain ?v1 = dv_domain v" "dv_tenant_id ?v1 = dv_tenant_id v" "dv_customer_id ?v1 = dv_customer_id v"
      "dv_status ?v1 = ''verified''" "dv_attempts ?v1 = Suc (dv_attempts v)" "dv_authorization_id ?v1 = Some aid"
      "dv_expires_at ?v1 = dv_expires_at v" by (simp_all add: proved_update_def counted_def)
  have seen: "(dv_tenant_id v, dv_customer_id v, dv_domain v) \<in> ?Q"
    using check_verified [OF 3(4,5)] 3(1) by (auto simp: proofs_seen_def shows_token_def counted_def)
  have normal: "normal_name (dv_domain v)" using assms(2) 3(1) by (simp add: own_inv_def verification_ok_def)
  obtain a where a: "db1 = db\<lparr>od_authorizations := od_authorizations db @ [a]\<rparr>" "ar_id a = aid" "ar_id a \<notin> ar_id ` set (od_authorizations db)"
      "ar_method a = ''ownership_verified''" "ar_tenant_id a = dv_tenant_id v" "ar_customer_id a = dv_customer_id v" "ar_asset_id a = None"
      "ar_targets a = [domain_target (dv_domain v)]" "ar_valid_until a = Some (Aware (dv_expires_at v))"
    using grant_row [OF 3(6)] by blast
  have ok: "verification_ok ?Q ?v1" using 3(3) seen normal by (simp add: verification_ok_def v1)
  have old: "own_inv (put_verification ?v1 db) ?Q" by (rule put_inv [OF Q 3(1) _ ok]) (simp_all add: v1 3(2))
  have "od_authorizations (put_verification ?v1 db1) = od_authorizations (put_verification ?v1 db) @ [a]"
    "od_verifications (put_verification ?v1 db1) = od_verifications (put_verification ?v1 db)"
    by (simp_all add: put_verification_def a(1))
  moreover have "target_proved ?Q a (domain_target (dv_domain v))"
    unfolding target_proved_def a(5,6) using seen normal in_zone_refl by blast
  then have "auth_proved ?Q a" by (simp add: auth_proved_def a(4,7,8))
  moreover have "?v1 \<in> set (od_verifications (put_verification ?v1 db))" using 3(1) v1(1) by (force simp: put_verification_def)
  then have "standing_proof (od_verifications (put_verification ?v1 db)) a" unfolding standing_proof_def using a v1 by (intro bexI) auto
  ultimately show ?thesis using old 3(7) by (simp add: own_inv_def live_proved_def)
qed

lemma verified_domains_mem:
  "d \<in> verified_domains tenant customer now db \<Longrightarrow> \<exists>v \<in> set (od_verifications db). dv_tenant_id v = tenant \<and>
     dv_customer_id v = customer \<and> dv_status v = ''verified'' \<and> d = py_lower (dv_domain v)"
  by (auto simp: verified_domains_def dest!: in_set_takeD)

lemma recorded_inv:
  assumes "create_authorization tenant user b aid now db = Inr db'" "own_inv db P"
  shows "own_inv db' P"
proof -
  obtain ns a where ns: "normalize_all (ab_domains b) = Inr ns"
    and a: "add_authorization a db = Inr db'" "ar_method a = ab_method b" "ar_targets a = map domain_target ns" "ar_tenant_id a = tenant"
      "ar_customer_id a = ab_customer_id b" "ab_method b \<in> {''written_consent'', ''active_recon''}"
    and proved: "ab_method b = ''active_recon'' \<Longrightarrow> ns \<noteq> [] \<and>
        (\<forall>t \<in> set ns. proved_name (verified_domains tenant (ab_customer_id b) now db) t)"
    using assms(1) by (auto simp: create_authorization_def bind_r_Inr Let_def body_ok_def filter_empty_conv split: if_splits)
  have target: "target_proved P a (domain_target t)" if t: "t \<in> set ns" and m: "ab_method b = ''active_recon''" for t
  proof -
    obtain d where "d \<in> verified_domains tenant (ab_customer_id b) now db" "in_zone d t"
      using proved [OF m] t unfolding proved_name_zone by blast
    moreover from this(1) obtain v where "v \<in> set (od_verifications db)" "dv_tenant_id v = tenant" "dv_customer_id v = ab_customer_id b"
        "dv_status v = ''verified''" "d = py_lower (dv_domain v)" using verified_domains_mem by blast
    ultimately have "(tenant, ab_customer_id b, d) \<in> P" using assms(2) by (auto simp: own_inv_def verification_ok_def normal_name_def)
    then show ?thesis unfolding target_proved_def a(4,5) using \<open>in_zone d t\<close> normalize_all_normal [OF ns t] by blast
  qed
  have "auth_proved P a" using target proved a(2,3,6) by (auto simp: auth_proved_def NETWORK_METHODS_def)
  moreover have "live_proved (od_verifications db) a" using a(2,6) by (auto simp: live_proved_def)
  ultimately show ?thesis using add_authorization_inv [OF a(1) assms(2)] by blast
qed

lemma withdrawn_inv: "revoke_authorization tenant aid now db = Inr db' \<Longrightarrow> own_inv db P \<Longrightarrow> own_inv db' P"
  by (auto simp: revoke_authorization_def revoke_row_inv split: option.splits if_splits)

lemma own_run_inv: "own_run db P \<Longrightarrow> own_inv db P"
proof (induction rule: own_run.induct)
  case (own_start db)
  then show ?case by (simp add: own_inv_def)
qed (blast intro: issue_inv check_inv revoke_inv recorded_inv withdrawn_inv)+

subsection \<open>From proof to scan\<close>

text \<open>C28: A standing proof is behind every live ownership permission.  After any sequence of requests and checks, an
  authorization by verified ownership that is not revoked belongs to a verification that is in status verified, names it,
  has the same tenant, customer, domain and end, and whose token was seen in the network; it names no asset.\<close>

theorem ownership_has_standing_proof:
  assumes "own_run db P" "a \<in> set (od_authorizations db)" "ar_method a = ''ownership_verified''" "ar_revoked_at a = None"
  shows "ar_asset_id a = None \<and> (\<exists>v \<in> set (od_verifications db). dv_status v = ''verified'' \<and> dv_authorization_id v = Some (ar_id a) \<and>
     dv_tenant_id v = ar_tenant_id a \<and> dv_customer_id v = ar_customer_id a \<and> ar_targets a = [domain_target (dv_domain v)] \<and>
     ar_valid_until a = Some (Aware (dv_expires_at v)) \<and> (dv_tenant_id v, dv_customer_id v, dv_domain v) \<in> P)"
proof -
  have inv: "own_inv db P" by (rule own_run_inv [OF assms(1)])
  then have "live_proved (od_verifications db) a" "ar_asset_id a = None"
    using assms(2,3) by (simp_all add: own_inv_def auth_proved_def)
  then show ?thesis using inv assms(3,4) unfolding own_inv_def live_proved_def standing_proof_def verification_ok_def by blast
qed

lemma scan_gate_row:
  assumes "scan_authorized rows asset engine now = Inr dec" "ad_allowed dec"
  shows "\<exists>r \<in> set rows. ar_tenant_id r = as_tenant_id asset \<and> ar_customer_id r = as_customer_id asset \<and>
     ar_method r \<in> (if as_kind asset \<in> NETWORK_ASSET_KINDS then NETWORK_METHODS else ARTIFACT_METHODS) \<and>
     covers (view_of r) (Some (str_uuid (as_id asset))) (or_empty (as_identifier asset))"
proof -
  obtain r where r: "r \<in> set (take 200 (filter (\<lambda>r. ar_tenant_id r = as_tenant_id asset \<and> ar_customer_id r = as_customer_id asset) rows))"
    and auth: "authorizes (view_of r) (Some (str_uuid (as_id asset))) (or_empty (as_identifier asset)) (as_kind asset \<in> NETWORK_ASSET_KINDS) now = Inr True"
    using decide_allowed [OF assms(1) [unfolded scan_authorized_def] assms(2)] by auto
  have "av_method (view_of r) = ar_method r" by (simp add: view_of_def)
  with authorizes_covers [OF auth] have "ar_method r \<in> (if as_kind asset \<in> NETWORK_ASSET_KINDS then NETWORK_METHODS else ARTIFACT_METHODS)"
    "covers (view_of r) (Some (str_uuid (as_id asset))) (or_empty (as_identifier asset))" by simp_all
  then show ?thesis using in_set_takeD [OF r] by (intro bexI [of _ r]) auto
qed

text \<open>C27: A network scan is let through on proof.  After any sequence of requests and checks, when the scan gate authorizes an
  asset reached over the network, some authorization of its tenant and customer either names that asset or the host of the
  asset's identifier lies in the zone of a domain whose challenge was seen in the network for that tenant and customer;
  in the first case the customer had some domain proved.\<close>

theorem network_scan_rests_on_proof:
  assumes "own_run db P" "scan_authorized (auth_rows db) asset engine now = Inr dec" "ad_allowed dec" "as_kind asset \<in> NETWORK_ASSET_KINDS"
  shows "\<exists>d. (as_tenant_id asset, as_customer_id asset, d) \<in> P \<and>
     ((\<exists>h. host_of (or_empty (as_identifier asset)) = Inr h \<and> in_zone d (strip_dots (py_lower h))) \<or>
      (\<exists>a \<in> set (od_authorizations db). ar_tenant_id a = as_tenant_id asset \<and> ar_customer_id a = as_customer_id asset \<and>
         ar_method a = ''active_recon'' \<and> ar_asset_id a \<noteq> None \<and>
         map_option str_uuid (ar_asset_id a) = Some (str_uuid (as_id asset))))"
proof -
  obtain r where r: "r \<in> set (auth_rows db)" "ar_tenant_id r = as_tenant_id asset" "ar_customer_id r = as_customer_id asset"
      "ar_method r \<in> NETWORK_METHODS" "covers (view_of r) (Some (str_uuid (as_id asset))) (or_empty (as_identifier asset))"
    using scan_gate_row [OF assms(2,3)] assms(4) by auto
  obtain a where a: "a \<in> set (od_authorizations db)" "r = authorization_row.truncate a" using r(1) by (auto simp: auth_rows_def)
  have fields: "ar_tenant_id a = as_tenant_id asset" "ar_customer_id a = as_customer_id asset" "ar_method a = ar_method r"
      "ar_asset_id a = ar_asset_id r" "ar_targets a = ar_targets r" using r(2,3) a(2) by (simp_all add: authorization_row.defs)
  have proved: "auth_proved P a" using own_run_inv [OF assms(1)] a(1) by (simp add: own_inv_def)
  consider (asset) "same_asset (view_of r) (Some (str_uuid (as_id asset)))"
    | (target) h e where "host_of (or_empty (as_identifier asset)) = Inr h" "JObj e \<in> set (ar_targets r)"
        "entry_matches (strip_dots (py_lower h)) e"
    using r(5) by (auto simp: covers_def view_of_def)
  then show ?thesis
  proof cases
    case asset
    then have same: "map_option str_uuid (ar_asset_id a) = Some (str_uuid (as_id asset))" "ar_asset_id a \<noteq> None"
      using fields by (auto simp: same_asset_def view_of_def split: option.splits)
    moreover have "ar_method a = ''active_recon''" using proved same(2) fields(3) r(4) by (auto simp: auth_proved_def NETWORK_METHODS_def)
    moreover obtain e where "target_proved P a e" using proved fields(3) r(4) by (fastforce simp: auth_proved_def neq_Nil_conv)
    then obtain d where "(as_tenant_id asset, as_customer_id asset, d) \<in> P" using fields by (auto simp: target_proved_def)
    ultimately show ?thesis using a(1) fields by blast
  next
    case target
    have "target_proved P a (JObj e)" using proved target(2) fields r(4) by (auto simp: auth_proved_def)
    then obtain n d where n: "JObj e = domain_target n" "normal_name n" "(as_tenant_id asset, as_customer_id asset, d) \<in> P" "in_zone d n"
      using fields by (auto simp: target_proved_def)
    have "in_zone n (strip_dots (py_lower h))" using target(3) n(1,2) domain_target_matches
      by (simp add: domain_target_def normal_name_def)
    then show ?thesis using target(1) n(3) in_zone_trans [OF n(4)] by blast
  qed
qed

text \<open>A met challenge opens its zone.  When a check answers that a domain is verified, then from that moment until the
  verification ends every asset of its tenant and customer whose host lies in the zone of the domain is authorized,
  provided the customer has at most 200 authorization rows.\<close>

theorem proof_opens_zone:
  assumes "own_run db P" "check_domain_verification w now aid i db = Inr (db', OutVerified d (Some aid))"
  shows "\<exists>v \<in> set (od_verifications db). dv_domain v = d \<and>
     (\<forall>asset engine t h. as_tenant_id asset = dv_tenant_id v \<and> as_customer_id asset = dv_customer_id v \<and>
        host_of (or_empty (as_identifier asset)) = Inr h \<and> in_zone d (strip_dots (py_lower h)) \<and> now \<le> t \<and> t \<le> dv_expires_at v \<and>
        length (filter (\<lambda>r. ar_tenant_id r = as_tenant_id asset \<and> ar_customer_id r = as_customer_id asset) (auth_rows db')) \<le> 200
        \<longrightarrow> (\<exists>dec. scan_authorized (auth_rows db') asset engine t = Inr dec \<and> ad_allowed dec))"
  using assms(2)
proof (cases rule: check_cases)
  case (3 v r db1)
  have normal: "normal_name d" using own_run_inv [OF assms(1)] 3(1,8) by (auto simp: own_inv_def verification_ok_def)
  obtain a where db1: "db1 = db\<lparr>od_authorizations := od_authorizations db @ [a]\<rparr>" and a: "ar_id a = aid" "ar_method a = ''ownership_verified''" "ar_tenant_id a = dv_tenant_id v"
      "ar_customer_id a = dv_customer_id v" "ar_targets a = [domain_target d]" "ar_valid_from a = Some (Aware now)"
      "ar_valid_until a = Some (Aware (dv_expires_at v))" "ar_revoked_at a = None"
    using grant_row [OF 3(6)] 3(8) by (metis check_outcome.inject(1))
  let ?r = "authorization_row.truncate a"
  have r: "?r \<in> set (auth_rows db')" by (simp add: 3(7) db1 auth_rows_def put_verification_def)
  have open_zone: "\<exists>dec. scan_authorized (auth_rows db') asset engine t = Inr dec \<and> ad_allowed dec"
    if h: "as_tenant_id asset = dv_tenant_id v" "as_customer_id asset = dv_customer_id v" "host_of (or_empty (as_identifier asset)) = Inr h"
      "in_zone d (strip_dots (py_lower h))" "now \<le> t" "t \<le> dv_expires_at v"
      "length (filter (\<lambda>r. ar_tenant_id r = as_tenant_id asset \<and> ar_customer_id r = as_customer_id asset) (auth_rows db')) \<le> 200"
    for asset engine t h
  proof -
    let ?rows = "filter (\<lambda>r. ar_tenant_id r = as_tenant_id asset \<and> ar_customer_id r = as_customer_id asset) (auth_rows db')"
    have "?r \<in> set ?rows" using r a h by (simp add: authorization_row.defs)
    then have mem: "view_of ?r \<in> set (map view_of (take 200 ?rows))" using h(7) by simp
    have "strip_dots (py_lower h) \<noteq> []"
    proof
      assume "strip_dots (py_lower h) = []"
      then have "in_zone d []" using h(4) by simp
      then show False using normal by (auto simp: in_zone_iff normal_name_def endswith_iff)
    qed
    then have "target_matches [domain_target d] h"
      using h(4) normal domain_target_matches by (simp add: target_matches_entry domain_target_def normal_name_def)
    then have ok: "authorizes (view_of ?r) (Some (str_uuid (as_id asset))) (or_empty (as_identifier asset)) net t = Inr True" for net
      using a h(3,5,6) by (simp add: authorizes_def auth_active_def view_of_def authorization_row.defs NETWORK_METHODS_def ARTIFACT_METHODS_def)
    obtain a' where "first_authorizing (map view_of (take 200 ?rows)) (Some (str_uuid (as_id asset))) (or_empty (as_identifier asset))
        (as_kind asset \<in> NETWORK_ASSET_KINDS) t = Inr (Some a')"
      using first_authorizing_exists [OF mem ok h(3)] by blast
    then show ?thesis by (simp add: scan_authorized_def authz_decide_def Let_def)
  qed
  show ?thesis
    by (rule bexI [of _ v]) (use open_zone 3(1,8) in auto)
qed auto

subsection \<open>A customer\<close>

definition demo_world :: world where
  "demo_world = \<lparr>wd_txt = (\<lambda>n. if n = ''_guardian-challenge.example.com'' then Inr (Some [''v=spf1 -all'', ''guardian-site-verification=r'']) else Inr None),
     wd_public = (\<lambda>d. True), wd_get = (\<lambda>u. Inl ''ConnectError'')\<rparr>"

definition web_asset :: "uuid \<Rightarrow> string \<Rightarrow> asset_ref" where
  "web_asset i ident = \<lparr>as_id = i, as_tenant_id = 1, as_customer_id = 2, as_kind = ''web'', as_identifier = Some ident\<rparr>"

definition demo_start :: own_db where
  "demo_start = \<lparr>od_customers = [(2, 1)], od_assets = [web_asset 7 ''https://app.example.com/'', web_asset 8 ''https://victim.test/''],
     od_verifications = [], od_authorizations = []\<rparr>"

definition demo_issued :: own_db where
  "demo_issued = fst (projr (route_create_verification 1 3 2 ''https://Example.com/'' ''dns_txt'' ''r'' 4 0 demo_start))"

definition demo_proved :: own_db where
  "demo_proved = fst (projr (check_domain_verification demo_world 10 5 (str_uuid 4) demo_issued))"

definition demo_body :: auth_body where
  "demo_body = \<lparr>ab_customer_id = 2, ab_method = ''active_recon'', ab_scope = ''pentest'', ab_asset_id = Some 8, ab_domains = [''example.com''],
     ab_validity_days = 90\<rparr>"

definition demo_recon :: own_db where
  "demo_recon = projr (create_authorization 1 3 demo_body 6 20 demo_proved)"

definition demo_revoked :: own_db where
  "demo_revoked = projr (revoke_verification 1 4 30 demo_recon)"

definition may_scan :: "own_db \<Rightarrow> asset_ref \<Rightarrow> int \<Rightarrow> bool" where
  "may_scan db asset now = (case scan_authorized (auth_rows db) asset ''dast'' now of Inr d \<Rightarrow> ad_allowed d | Inl e \<Rightarrow> False)"

lemma demo_steps:
  "\<not> isl (route_create_verification 1 3 2 ''https://Example.com/'' ''dns_txt'' ''r'' 4 0 demo_start)"
  "\<not> isl (check_domain_verification demo_world 10 5 (str_uuid 4) demo_issued)"
  "\<not> isl (create_authorization 1 3 demo_body 6 20 demo_proved)"
  "\<not> isl (revoke_verification 1 4 30 demo_recon)"
  by code_simp+

lemma demo_scans:
  "may_scan demo_proved (web_asset 7 ''https://app.example.com/'') 15" "\<not> may_scan demo_proved (web_asset 8 ''https://victim.test/'') 15"
  by code_simp+

text \<open>
  A recording for active testing checks its list of domains only: with one verified domain listed it also names any asset of
  the tenant, and the gate then lets a network scan of that asset through although its host was never verified.
\<close>

lemma unverified_asset_is_scanned: "may_scan demo_recon (web_asset 8 ''https://victim.test/'') 25"
  by code_simp

text \<open>Withdrawing a verification revokes the permission it granted, not those recorded on the strength of it.\<close>

lemma recorded_permission_outlives_proof:
  "map dv_status (od_verifications demo_revoked) = [''revoked''] \<and> map (\<lambda>a. (ar_method a, ar_revoked_at a \<noteq> None)) (od_authorizations demo_revoked)
     = [(''ownership_verified'', True), (''active_recon'', False)] \<and> may_scan demo_revoked (web_asset 7 ''https://app.example.com/'') 35"
  by code_simp

text \<open>A withdrawn verification is checked like a pending one and grants again while the record is still published.\<close>

lemma revoked_verification_grants_again:
  "(case check_domain_verification demo_world 40 9 (str_uuid 4) demo_revoked of
      Inr (db, out) \<Rightarrow> map dv_status (od_verifications db) = [''verified''] \<and> length (od_authorizations db) = 3 | Inl e \<Rightarrow> False)"
  by code_simp

text \<open>A line break before the path survives, since \<open>$\<close> matches in front of it: the result is no name and not what it normalizes to.\<close>

lemma normal_form_with_line_break:
  "normalize_domain (''example.com'' @ [CHR 0x0A] @ ''/x'') = Inr (''example.com'' @ [CHR 0x0A])"
  "normalize_domain (''example.com'' @ [CHR 0x0A]) = Inr ''example.com''"
  by code_simp+

subsection \<open>The customer's permissions\<close>

lemma demo_own_run:
  "own_run demo_issued {}" "own_run demo_proved ({} \<union> proofs_seen demo_world demo_issued)"
  "own_run demo_recon ({} \<union> proofs_seen demo_world demo_issued)"
proof -
  have "own_run demo_start {}" by (rule own_start) (simp_all add: demo_start_def)
  moreover have "route_create_verification 1 3 2 ''https://Example.com/'' ''dns_txt'' ''r'' 4 0 demo_start =
      Inr (demo_issued, snd (projr (route_create_verification 1 3 2 ''https://Example.com/'' ''dns_txt'' ''r'' 4 0 demo_start)))"
    using demo_steps(1) by (simp add: demo_issued_def sum.collapse)
  ultimately show issued: "own_run demo_issued {}" by (rule own_issue)
  have "check_domain_verification demo_world 10 5 (str_uuid 4) demo_issued =
      Inr (demo_proved, snd (projr (check_domain_verification demo_world 10 5 (str_uuid 4) demo_issued)))"
    using demo_steps(2) by (simp add: demo_proved_def sum.collapse)
  then show proved: "own_run demo_proved ({} \<union> proofs_seen demo_world demo_issued)" by (rule own_check [OF issued])
  have "create_authorization 1 3 demo_body 6 20 demo_proved = Inr demo_recon"
    using demo_steps(3) by (simp add: demo_recon_def)
  then show "own_run demo_recon ({} \<union> proofs_seen demo_world demo_issued)" by (rule own_record [OF proved])
qed

lemma demo_proved_row:
  "map (\<lambda>a. (ar_id a, ar_method a, ar_revoked_at a)) (od_authorizations demo_proved) = [(5, ''ownership_verified'', None)]"
  by code_simp

lemma ownership_has_standing_proof_witness:
  "\<exists>a \<in> set (od_authorizations demo_proved). \<exists>v \<in> set (od_verifications demo_proved). dv_status v = ''verified'' \<and> dv_authorization_id v = Some (ar_id a)"
proof -
  obtain a where a: "a \<in> set (od_authorizations demo_proved)" "ar_method a = ''ownership_verified''" "ar_revoked_at a = None"
    using demo_proved_row by (cases "od_authorizations demo_proved") auto
  from ownership_has_standing_proof [OF demo_own_run(2) a] a(1) show ?thesis by blast
qed

lemma network_scan_rests_on_proof_witness: "\<exists>d. (1, 2, d) \<in> proofs_seen demo_world demo_issued"
proof -
  let ?asset = "web_asset 7 ''https://app.example.com/''"
  obtain dec where "scan_authorized (auth_rows demo_proved) ?asset ''dast'' 15 = Inr dec" "ad_allowed dec"
    using demo_scans(1) by (auto simp: may_scan_def split: sum.splits)
  from network_scan_rests_on_proof [OF demo_own_run(2) this] show ?thesis
    by (auto simp: web_asset_def NETWORK_ASSET_KINDS_def)
qed

lemma proof_opens_zone_witness: "may_scan demo_proved (web_asset 9 ''https://b.a.example.com/'') 20"
proof -
  let ?asset = "web_asset 9 ''https://b.a.example.com/''"
  have check: "check_domain_verification demo_world 10 5 (str_uuid 4) demo_issued = Inr (demo_proved, OutVerified ''example.com'' (Some 5))"
  proof -
    have "snd (projr (check_domain_verification demo_world 10 5 (str_uuid 4) demo_issued)) = OutVerified ''example.com'' (Some 5)" by code_simp
    then show ?thesis using demo_steps(2) by (metis demo_proved_def prod.collapse sum.collapse(2))
  qed
  have v: "map (\<lambda>v. (dv_tenant_id v, dv_customer_id v, dv_expires_at v)) (od_verifications demo_issued) = [(1, 2, days_us 365)]" by code_simp
  have host: "host_of (or_empty (as_identifier ?asset)) = Inr ''b.a.example.com''" by code_simp
  have zone: "in_zone ''example.com'' (strip_dots (py_lower ''b.a.example.com''))" by code_simp
  have few: "length (auth_rows demo_proved) = 1" by code_simp
  have bound: "length (filter Q (auth_rows demo_proved)) \<le> 200" for Q
    using few length_filter_le [of Q "auth_rows demo_proved"] by linarith
  have "20 \<le> days_us 365" by (simp add: days_us_def seconds_def)
  then have "\<exists>dec. scan_authorized (auth_rows demo_proved) ?asset ''dast'' 20 = Inr dec \<and> ad_allowed dec"
    using proof_opens_zone [OF demo_own_run(1) check] v host zone bound by (auto simp: web_asset_def)
  then show ?thesis by (auto simp: may_scan_def)
qed

end
