(* ===== verification/Redaction.thy ===== *)
theory Redaction
  imports PyRegex PyValue
begin

text \<open>
  \<open>guardian_core/redaction.py\<close>: masking what has the shape of a credential in a text, and in a JSON value whatever stands
  under a key that names one.  The patterns run on the matcher of \<open>PyRegex\<close>.  In the pattern for private keys the end of
  the text is the alternative to an end line at every position of a lazy repetition; that is an end line somewhere, and the
  whole rest if there is none.
\<close>

definition MASK :: string where "MASK = ''[redacted]''"

definition digit_upper :: re where "digit_upper = Cls (\<lambda>c. is_digit c \<or> is_upper c)"

definition letter_digit :: re where "letter_digit = Cls is_alnum"

definition letter_digit_or :: "string \<Rightarrow> re" where "letter_digit_or s = Cls (\<lambda>c. is_alnum c \<or> c \<in> set s)"

definition any_char :: re where "any_char = Cls (\<lambda>c. True)"

definition private_key :: re where
  "private_key = cats [lit ''-----BEGIN '',
     opt (ors [lit ''RSA '', lit ''EC '', lit ''DSA '', lit ''OPENSSH '', lit ''PGP '', lit ''ENCRYPTED '']), lit ''PRIVATE KEY-----'',
     Or (cats [Lazy any_char, lit ''-----END '', Star (Cls (\<lambda>c. is_upper c \<or> c = CHR '' '')), lit ''PRIVATE KEY-----'']) (Star any_char)]"

definition aws_access_key_id :: re where
  "aws_access_key_id = cats [Word_edge, ors [lit ''AKIA'', lit ''ASIA'', lit ''ABIA'', lit ''ACCA''], times 16 digit_upper, Word_edge]"

definition github_token :: re where
  "github_token = cats [Word_edge, lit ''gh'', one_of ''pousr'', lit ''_'', at_least 20 letter_digit, Word_edge]"

definition slack_token :: re where
  "slack_token = cats [Word_edge, lit ''xox'', one_of ''baprs'', lit ''-'', at_least 10 (letter_digit_or ''-''), Word_edge]"

definition stripe_key :: re where
  "stripe_key = cats [Word_edge, one_of ''rs'', lit ''k_'', ors [lit ''live'', lit ''test''], lit ''_'', at_least 16 letter_digit, Word_edge]"

definition google_api_key :: re where
  "google_api_key = cats [Word_edge, lit ''AIza'', times 35 (letter_digit_or ''_-''), Word_edge]"

definition npm_token :: re where
  "npm_token = cats [Word_edge, lit ''npm_'', times 36 letter_digit, Word_edge]"

definition pypi_token :: re where
  "pypi_token = cats [Word_edge, lit ''pypi-AgEIcHlwaS5vcmc'', at_least 16 (letter_digit_or ''_-''), Word_edge]"

definition jwt :: re where
  "jwt = (let seg = at_least 8 (letter_digit_or ''_-'')
     in cats [Word_edge, lit ''eyJ'', seg, lit ''.'', seg, lit ''.'', seg, Word_edge])"

definition url_credentials :: re where
  "url_credentials = cats [Behind ''://'', between 1 64 (Cls (\<lambda>c. \<not> is_space c \<and> c \<notin> set ''/:@'')), lit '':'',
     between 1 128 (Cls (\<lambda>c. \<not> is_space c \<and> c \<notin> set ''/@'')), Ahead (lit ''@'')]"

definition quote_chars :: string where "quote_chars = [CHR 0x22, CHR 0x27]"

definition assigned_secret :: re where
  "assigned_secret = cats [
     Star (cats [plus letter_digit, one_of ''_.-'']),
     ors [lit_i ''password'', lit_i ''passwd'', lit_i ''pwd'', lit_i ''secret'', cats [lit_i ''api'', opt (one_of ''_-''), lit_i ''key''],
          lit_i ''apikey'', cats [lit_i ''access'', opt (one_of ''_-''), lit_i ''token''],
          cats [lit_i ''auth'', opt (one_of ''_-''), lit_i ''token''], cats [lit_i ''client'', opt (one_of ''_-''), lit_i ''secret''],
          cats [lit_i ''private'', opt (one_of ''_-''), lit_i ''key'']],
     Word_edge, Star (Cls is_space), one_of '':='', Star (Cls is_space), opt (one_of quote_chars),
     Group ''value'' (at_least 6 (Cls (\<lambda>c. \<not> is_space c \<and> c \<notin> set quote_chars \<and> c \<notin> set ''<>,;'')))]"

definition CREDENTIAL_PATTERNS :: "(string \<times> re) list" where
  "CREDENTIAL_PATTERNS = [(''private_key'', private_key), (''aws_access_key_id'', aws_access_key_id), (''github_token'', github_token),
     (''slack_token'', slack_token), (''stripe_key'', stripe_key), (''google_api_key'', google_api_key), (''npm_token'', npm_token),
     (''pypi_token'', pypi_token), (''jwt'', jwt), (''url_credentials'', url_credentials), (''assigned_secret'', assigned_secret)]"

definition SENSITIVE_KEYS :: "string set" where
  "SENSITIVE_KEYS = {''password'', ''passwd'', ''pwd'', ''secret'', ''api_key'', ''apikey'', ''token'', ''access_token'', ''auth_token'',
     ''refresh_token'', ''client_secret'', ''private_key'', ''credential'', ''credentials'', ''authorization'', ''session_key'', ''secret_key''}"

definition already_masked :: "string \<Rightarrow> bool" where
  "already_masked s \<longleftrightarrow> re_search (ors [cats [Begin_text, opt (one_of ''<[''), lit ''redacted''], at_least 4 (lit ''*''),
     cats [Word_edge, lit ''REDACTED'', Word_edge]]) s \<noteq> None"

text \<open>The value is the last thing the pattern takes, so what stands before it is the match without its end.\<close>

definition mask_assigned :: "string \<Rightarrow> captures \<Rightarrow> string" where
  "mask_assigned m g = take (length m - length (the (g ''value''))) m @ MASK"

definition scrub_step :: "string \<times> re \<Rightarrow> string \<times> string list \<Rightarrow> string \<times> string list" where
  "scrub_step np st =
     (if re_search (snd np) (fst st) = None then st
      else (re_sub (snd np) (if fst np = ''assigned_secret'' then mask_assigned else (\<lambda>m g. MASK)) (fst st), snd st @ [fst np]))"

definition scrub_text :: "string \<Rightarrow> string \<times> string list" where
  "scrub_text s = (if s = [] then (s, []) else fold scrub_step CREDENTIAL_PATTERNS (s, []))"

fun scrub :: "string option \<Rightarrow> jval \<Rightarrow> jval \<times> string list" where
  "scrub k (JObj d) =
     (let r = map (\<lambda>(key, item). (key, scrub (Some (py_lower key)) item)) d
      in (JObj (map (\<lambda>(key, x). (key, fst x)) r), concat (map (\<lambda>(key, x). snd x) r)))"
| "scrub k (JList xs) = (let r = map (scrub k) xs in (JList (map fst r), concat (map snd r)))"
| "scrub k (JStr s) =
     (if (case k of Some key \<Rightarrow> key \<in> SENSITIVE_KEYS | None \<Rightarrow> False) \<and> s \<noteq> [] \<and> \<not> already_masked s
      then (JStr MASK, [''key:'' @ the k]) else map_prod JStr id (scrub_text s))"
| "scrub k v = (v, [])"

subsection \<open>Nothing is masked silently\<close>

text \<open>A value without anything to mask, and the form of a value, its texts forgotten.\<close>

definition clean_text :: "string \<Rightarrow> bool" where
  "clean_text s \<longleftrightarrow> s = [] \<or> (\<forall>(n, r) \<in> set CREDENTIAL_PATTERNS. re_search r s = None)"

definition names_secret :: "string option \<Rightarrow> bool" where
  "names_secret k \<longleftrightarrow> (\<exists>key \<in> SENSITIVE_KEYS. k = Some key)"

fun clean :: "string option \<Rightarrow> jval \<Rightarrow> bool" where
  "clean k (JObj d) = (\<forall>(key, item) \<in> set d. clean (Some (py_lower key)) item)"
| "clean k (JList xs) = (\<forall>x \<in> set xs. clean k x)"
| "clean k (JStr s) = ((names_secret k \<longrightarrow> s = [] \<or> already_masked s) \<and> clean_text s)"
| "clean k v = True"

fun shape :: "jval \<Rightarrow> jval" where
  "shape (JObj d) = JObj (map (\<lambda>(key, item). (key, shape item)) d)"
| "shape (JList xs) = JList (map shape xs)"
| "shape (JStr s) = JStr []"
| "shape v = v"

lemma scrub_steps_quiet:
  "snd (fold scrub_step ps (s, hs)) = hs \<longleftrightarrow> (\<forall>(n, r) \<in> set ps. re_search r s = None)"
  "(\<forall>(n, r) \<in> set ps. re_search r s = None) \<Longrightarrow> fold scrub_step ps (s, hs) = (s, hs)"
proof -
  have longer: "length hs \<le> length (snd (fold scrub_step ps (s, hs)))" for ps s hs
  proof (induction ps arbitrary: s hs)
    case (Cons p ps)
    then show ?case using Cons [of "snd (scrub_step p (s, hs))" "fst (scrub_step p (s, hs))"]
      by (auto simp: scrub_step_def split: if_splits)
  qed simp
  show quiet: "fold scrub_step ps (s, hs) = (s, hs)" if "\<forall>(n, r) \<in> set ps. re_search r s = None"
    using that by (induction ps) (auto simp: scrub_step_def)
  have "\<forall>(n, r) \<in> set ps. re_search r s = None" if "snd (fold scrub_step ps (s, hs)) = hs"
    using that
  proof (induction ps)
    case (Cons p ps)
    show ?case
    proof (cases "re_search (snd p) s = None")
      case True
      then have "scrub_step p (s, hs) = (s, hs)" by (simp add: scrub_step_def)
      then show ?thesis using Cons True by auto
    next
      case False
      then have "length (snd (scrub_step p (s, hs))) = Suc (length hs)" by (simp add: scrub_step_def)
      then have "Suc (length hs) \<le> length (snd (fold scrub_step (p # ps) (s, hs)))"
        using longer [of "snd (scrub_step p (s, hs))" ps "fst (scrub_step p (s, hs))"] by (simp del: scrub_step_def)
      then show ?thesis using Cons.prems by simp
    qed
  qed simp
  then show "snd (fold scrub_step ps (s, hs)) = hs \<longleftrightarrow> (\<forall>(n, r) \<in> set ps. re_search r s = None)" using quiet by auto
qed

lemma scrub_text_quiet:
  "snd (scrub_text s) = [] \<longleftrightarrow> clean_text s" "clean_text s \<Longrightarrow> fst (scrub_text s) = s"
  by (auto simp: scrub_text_def clean_text_def scrub_steps_quiet)

lemma names_secret_case: "(case k of Some key \<Rightarrow> key \<in> SENSITIVE_KEYS | None \<Rightarrow> False) = names_secret k"
  by (auto simp: names_secret_def split: option.splits)

lemma scrub_str:
  "scrub k (JStr s) = (if names_secret k \<and> s \<noteq> [] \<and> \<not> already_masked s then (JStr MASK, [''key:'' @ the k]) else map_prod JStr id (scrub_text s))"
  by (simp add: names_secret_case)

declare scrub.simps(3) [simp del] scrub_str [simp]

lemma scrub_str_quiet: "snd (scrub k (JStr s)) = [] \<longleftrightarrow> clean k (JStr s)"
  by (cases "names_secret k \<and> s \<noteq> [] \<and> \<not> already_masked s") (auto simp: scrub_text_quiet)

lemma scrub_quiet: "snd (scrub k v) = [] \<longleftrightarrow> clean k v"
proof (induction k v rule: scrub.induct)
  case (3 k s)
  show ?case by (rule scrub_str_quiet)
qed (fastforce simp: Let_def)+

lemma scrub_unchanged: "clean k v \<Longrightarrow> fst (scrub k v) = v"
  by (induction k v rule: scrub.induct) (auto simp: Let_def scrub_text_quiet intro!: map_idI)

lemma scrub_shape: "shape (fst (scrub k v)) = shape v"
  by (induction k v rule: scrub.induct) (auto simp: Let_def)

subsection \<open>Every match is masked\<close>

text \<open>The least number of characters a pattern takes.\<close>

primrec least_length :: "re \<Rightarrow> nat" where
  "least_length Eps = 0"
| "least_length (Cls P) = 1"
| "least_length (Cat r s) = least_length r + least_length s"
| "least_length (Or r s) = min (least_length r) (least_length s)"
| "least_length (Star r) = 0"
| "least_length (Lazy r) = 0"
| "least_length (Group n r) = least_length r"
| "least_length Begin_text = 0"
| "least_length End_text = 0"
| "least_length Word_edge = 0"
| "least_length (Behind s) = 0"
| "least_length (Ahead r) = 0"

lemma forward_length: "forward p q \<Longrightarrow> length (snd q) \<le> length (snd p)"
  by (auto simp: forward_def)

lemma rmatch_least: "(q, d) \<in> set (rmatch r p c) \<Longrightarrow> length (snd q) + least_length r \<le> length (snd p)"
proof (induction r arbitrary: p c q d)
  case (Cat r s)
  then obtain q' d' where "(q', d') \<in> set (rmatch r p c)" "(q, d) \<in> set (rmatch s q' d')" by auto
  then show ?case using Cat.IH(1) [of q' d' p c] Cat.IH(2) [of q d q' d'] by simp
next
  case (Or r s)
  then consider "(q, d) \<in> set (rmatch r p c)" | "(q, d) \<in> set (rmatch s p c)" by auto
  then show ?case using Or.IH(1) [of q d p c] Or.IH(2) [of q d p c] by cases auto
next
  case (Star r)
  then show ?case using forward_length [OF rmatch_forward [OF Star.prems]] by simp
next
  case (Lazy r)
  then show ?case using forward_length [OF rmatch_forward [OF Lazy.prems]] by simp
next
  case (Group n r)
  then obtain d' where "(q, d') \<in> set (rmatch r p c)" by auto
  then show ?case using Group.IH by simp
qed (auto split: list.splits if_splits)

lemma match_shorter: "match_at r p = Some (q, c) \<Longrightarrow> 0 < least_length r \<Longrightarrow> length (snd q) < length (snd p)"
  using rmatch_least [of q c r p no_groups] by (auto simp: match_at_def split: list.splits)

text \<open>Replacing every match, from a position on: where the pattern matches, the match is replaced and the rest is treated from its
  end on; a character at which no match starts is kept.  The last argument counts the matches.\<close>

inductive replaces :: "re \<Rightarrow> (string \<Rightarrow> captures \<Rightarrow> string) \<Rightarrow> position \<Rightarrow> string \<Rightarrow> nat \<Rightarrow> bool" for r f where
  at_end: "replaces r f (b, []) [] 0"
| kept: "match_at r (b, x # s) = None \<Longrightarrow> replaces r f (x # b, s) out n \<Longrightarrow> replaces r f (b, x # s) (x # out) n"
| masked: "match_at r p = Some (q, c) \<Longrightarrow> replaces r f q out n \<Longrightarrow> replaces r f p (f (taken p q) c @ out) (Suc n)"

lemma scan_replaces:
  assumes "0 < least_length r"
  shows "length (snd p) \<le> n \<Longrightarrow>
    \<exists>k. replaces r f p (concat (map (\<lambda>t. case t of Inl c \<Rightarrow> [c] | Inr (m, g) \<Rightarrow> f m g) (scan r n p))) k"
proof (induction n arbitrary: p)
  case 0
  then show ?case by (cases p) (auto intro: replaces.at_end)
next
  case (Suc n)
  obtain b s where p: "p = (b, s)" by (cases p)
  show ?case
  proof (cases s)
    case Nil
    then show ?thesis using p replaces.at_end by auto
  next
    case (Cons x s')
    show ?thesis
    proof (cases "match_at r p")
      case None
      have "length (snd (x # b, s')) \<le> n" using Suc.prems p Cons by simp
      from Suc.IH [OF this] show ?thesis using None p Cons by (auto intro: replaces.kept)
    next
      case (Some m)
      obtain q c where m: "m = (q, c)" by (cases m)
      have short: "length (snd q) < length (snd p)" using match_shorter [OF _ assms] Some m by blast
      then have "length (snd q) \<le> n" using Suc.prems by simp
      from Suc.IH [OF this] obtain k where
        "replaces r f q (concat (map (\<lambda>t. case t of Inl c \<Rightarrow> [c] | Inr (m, g) \<Rightarrow> f m g) (scan r n q))) k" by blast
      from replaces.masked [OF Some [unfolded m] this] show ?thesis using Some m short p Cons by auto
    qed
  qed
qed

lemma replaces_search:
  assumes "0 < least_length r"
  shows "replaces r f p out n \<Longrightarrow> n = 0 \<longleftrightarrow> search_from r (fst p) (snd p) = None"
proof (induction rule: replaces.induct)
  case (at_end b)
  then show ?case using match_shorter [OF _ assms, of "(b, [])"] by (cases "match_at r (b, [])") auto
next
  case (masked p q c out n)
  then show ?case by (cases p; cases "snd p") auto
qed auto

lemma unmatched_kept: "search_from r b s = None \<Longrightarrow> length s \<le> n \<Longrightarrow> scan r n (b, s) = map Inl s"
proof (induction n arbitrary: b s)
  case (Suc n)
  then show ?case by (cases s) (auto split: option.splits)
qed simp

lemma no_match_kept: "search_from r [] s = None \<Longrightarrow> re_sub r f s = s"
  using unmatched_kept [of r "[]" s "length s"] by (simp add: re_sub_def re_scan_def comp_def)

definition mask_for :: "string \<Rightarrow> string \<Rightarrow> captures \<Rightarrow> string" where
  "mask_for n = (if n = ''assigned_secret'' then mask_assigned else (\<lambda>m g. MASK))"

lemma scrub_step_replaces:
  assumes "0 < least_length r"
  shows "\<exists>k. replaces r (mask_for n) ([], s) (fst (scrub_step (n, r) (s, hs))) k \<and> snd (scrub_step (n, r) (s, hs)) = hs @ (if k = 0 then [] else [n])"
proof -
  obtain k where k: "replaces r (mask_for n) ([], s) (re_sub r (mask_for n) s) k"
    using scan_replaces [OF assms, where p = "([], s)" and n = "length s" and f = "mask_for n"] by (auto simp: re_sub_def re_scan_def)
  note found = replaces_search [OF assms k]
  show ?thesis
  proof (cases "re_search r s = None")
    case True
    then have "search_from r [] s = None" by (simp add: re_search_def)
    then have "re_sub r (mask_for n) s = s \<and> k = 0" using found k no_match_kept [of r s "mask_for n"] by simp
    then show ?thesis using True k by (intro exI [of _ 0]) (simp add: scrub_step_def)
  next
    case False
    then have "k \<noteq> 0" using found by (auto simp: re_search_def)
    moreover have "scrub_step (n, r) (s, hs) = (re_sub r (mask_for n) s, hs @ [n])" using False by (simp add: scrub_step_def mask_for_def)
    ultimately show ?thesis using k by (intro exI [of _ k]) simp
  qed
qed

text \<open>One pattern after the other, and the names of those that matched.\<close>

fun masked_by :: "(string \<times> re) list \<Rightarrow> string \<Rightarrow> string \<Rightarrow> string list \<Rightarrow> bool" where
  "masked_by [] s s' hs \<longleftrightarrow> s' = s \<and> hs = []"
| "masked_by ((n, r) # ps) s s' hs \<longleftrightarrow>
     (\<exists>t k hs'. replaces r (mask_for n) ([], s) t k \<and> masked_by ps t s' hs' \<and> hs = (if k = 0 then hs' else n # hs'))"

lemma scrub_steps_masked:
  "list_all (\<lambda>p. 0 < least_length (snd p)) ps \<Longrightarrow>
    \<exists>hs'. masked_by ps s (fst (fold scrub_step ps (s, hs))) hs' \<and> snd (fold scrub_step ps (s, hs)) = hs @ hs'"
proof (induction ps arbitrary: s hs)
  case (Cons p ps)
  obtain n r where p: "p = (n, r)" by (cases p)
  obtain t hs1 where st: "scrub_step (n, r) (s, hs) = (t, hs1)" by fastforce
  obtain k where k: "replaces r (mask_for n) ([], s) t k" "hs1 = hs @ (if k = 0 then [] else [n])"
    using scrub_step_replaces [of r n s hs] Cons.prems st p by auto
  obtain hs' where "masked_by ps t (fst (fold scrub_step ps (t, hs1))) hs'" "snd (fold scrub_step ps (t, hs1)) = hs1 @ hs'"
    using Cons.IH [of t hs1] Cons.prems by auto
  then have "masked_by ((n, r) # ps) s (fst (fold scrub_step ps (t, hs1))) (if k = 0 then hs' else n # hs')"
    unfolding masked_by.simps by (intro exI [of _ t] exI [of _ k] exI [of _ hs']) (simp add: k(1))
  moreover have "snd (fold scrub_step ps (t, hs1)) = hs @ (if k = 0 then hs' else n # hs')"
    using \<open>snd (fold scrub_step ps (t, hs1)) = hs1 @ hs'\<close> k(2) by simp
  ultimately have "masked_by ((n, r) # ps) s (fst (fold scrub_step ps (t, hs1))) (if k = 0 then hs' else n # hs') \<and>
      snd (fold scrub_step ps (t, hs1)) = hs @ (if k = 0 then hs' else n # hs')" by simp
  then show ?case using st p by auto
qed simp

lemma patterns_take_text: "list_all (\<lambda>p. 0 < least_length (snd p)) CREDENTIAL_PATTERNS"
  by code_simp

lemma scrub_text_masked: "masked_by CREDENTIAL_PATTERNS s (fst (scrub_text s)) (snd (scrub_text s))"
proof (cases "s = []")
  case True
  have "masked_by ps [] [] []" for ps
    by (induction ps) (auto intro!: exI [of _ "[]"] exI [of _ 0] intro: replaces.at_end)
  then show ?thesis using True by (simp add: scrub_text_def)
next
  case False
  then show ?thesis using scrub_steps_masked [OF patterns_take_text, of s "[]"] by (auto simp: scrub_text_def)
qed

text \<open>The texts of a value with the keys they stand under, and what becomes of one.\<close>

fun leaves :: "string option \<Rightarrow> jval \<Rightarrow> (string option \<times> string) list" where
  "leaves k (JObj d) = concat (map (\<lambda>(key, item). leaves (Some (py_lower key)) item) d)"
| "leaves k (JList xs) = concat (map (leaves k) xs)"
| "leaves k (JStr s) = [(k, s)]"
| "leaves k v = []"

definition leaf_scrubbed :: "string option \<Rightarrow> string \<Rightarrow> string \<Rightarrow> string list \<Rightarrow> bool" where
  "leaf_scrubbed k s s' hs \<longleftrightarrow>
     (if names_secret k \<and> s \<noteq> [] \<and> \<not> already_masked s then s' = MASK \<and> hs = [''key:'' @ the k] else masked_by CREDENTIAL_PATTERNS s s' hs)"

text \<open>\<open>scrubbed\<close> compares texts, place by place, and collects what was reported.\<close>

inductive scrubbed :: "(string option \<times> string) list \<Rightarrow> (string option \<times> string) list \<Rightarrow> string list \<Rightarrow> bool" where
  none: "scrubbed [] [] []"
| leaf: "leaf_scrubbed k s s' hs \<Longrightarrow> scrubbed ls ls' hs' \<Longrightarrow> scrubbed ((k, s) # ls) ((k, s') # ls') (hs @ hs')"

lemma scrubbed_append: "scrubbed a a' hs \<Longrightarrow> scrubbed b b' hs' \<Longrightarrow> scrubbed (a @ b) (a' @ b') (hs @ hs')"
  by (induction rule: scrubbed.induct) (auto intro: scrubbed.leaf)

lemma scrubbed_concat:
  "(\<And>x. x \<in> set xs \<Longrightarrow> scrubbed (f x) (g x) (h x)) \<Longrightarrow> scrubbed (concat (map f xs)) (concat (map g xs)) (concat (map h xs))"
  by (induction xs) (auto intro: scrubbed.none scrubbed_append)

lemma scrub_leaves: "scrubbed (leaves k v) (leaves k (fst (scrub k v))) (snd (scrub k v))"
proof (induction k v rule: scrub.induct)
  case (1 k d)
  have "scrubbed (concat (map (\<lambda>p. leaves (Some (py_lower (fst p))) (snd p)) d))
     (concat (map (\<lambda>p. leaves (Some (py_lower (fst p))) (fst (scrub (Some (py_lower (fst p))) (snd p)))) d))
     (concat (map (\<lambda>p. snd (scrub (Some (py_lower (fst p))) (snd p))) d))"
    by (rule scrubbed_concat) (use 1 in fastforce)
  then show ?case by (simp add: Let_def case_prod_unfold comp_def)
next
  case (2 k xs)
  have "scrubbed (concat (map (leaves k) xs)) (concat (map (\<lambda>x. leaves k (fst (scrub k x))) xs)) (concat (map (\<lambda>x. snd (scrub k x)) xs))"
    by (rule scrubbed_concat) (use 2 in blast)
  then show ?case by (simp add: Let_def comp_def)
next
  case (3 k s)
  have "leaf_scrubbed k s (if names_secret k \<and> s \<noteq> [] \<and> \<not> already_masked s then MASK else fst (scrub_text s))
      (if names_secret k \<and> s \<noteq> [] \<and> \<not> already_masked s then [''key:'' @ the k] else snd (scrub_text s))"
    using scrub_text_masked by (simp add: leaf_scrubbed_def)
  from scrubbed.leaf [OF this scrubbed.none] show ?case by (auto split: if_splits)
qed (auto intro: scrubbed.none)

text \<open>C29: Redaction masks every match and is never silent.  Scrubbing keeps keys, lists and everything that is no text.  Of a text
  under a key that names a secret, unless it is empty or carries a mark of earlier masking, only the mask is left and the key is reported.  In every other text
  the credential patterns are applied one after the other: each replaces every match it has by the mask (an assignment keeps what stands before its
  value), keeps all characters between the matches, and is reported exactly if it has one.  Nothing is reported exactly when no text is of the first kind and no
  pattern matches in any text, and then the value is returned unchanged.\<close>

theorem scrub_masks_and_reports:
  "shape (fst (scrub k v)) = shape v \<and>
   scrubbed (leaves k v) (leaves k (fst (scrub k v))) (snd (scrub k v)) \<and>
   (snd (scrub k v) = [] \<longleftrightarrow> clean k v) \<and> (clean k v \<longleftrightarrow> scrub k v = (v, []))"
proof (intro conjI)
  show "shape (fst (scrub k v)) = shape v" by (rule scrub_shape)
  show "scrubbed (leaves k v) (leaves k (fst (scrub k v))) (snd (scrub k v))" by (rule scrub_leaves)
  show quiet: "snd (scrub k v) = [] \<longleftrightarrow> clean k v" by (rule scrub_quiet)
  show "clean k v \<longleftrightarrow> scrub k v = (v, [])" using quiet scrub_unchanged [of k v] by (metis prod.collapse snd_conv)
qed

subsection \<open>The identity of a secret\<close>

text \<open>\<open>guardian_core/secret_identity.py\<close>; the keyed digest is an argument.\<close>

definition IDENTITY_DOMAIN :: string where
  "IDENTITY_DOMAIN = ''guardian.secret-correlation-identity.v1'' @ [CHR 0x00]"

definition secret_correlation_identity :: "(string \<Rightarrow> string \<Rightarrow> string) \<Rightarrow> string \<Rightarrow> string \<Rightarrow> string option" where
  "secret_correlation_identity hmac raw key =
     (if key = [] then None
      else let stripped = strip_by (\<lambda>c. c \<in> set quote_chars) raw in
        if stripped = [] then None else Some (hmac key (IDENTITY_DOMAIN @ stripped)))"

end
