(* ===== verification/EvidenceChain.thy ===== *)
theory EvidenceChain
  imports Redaction PyJson ToolPolicy "HOL-Library.Multiset"
begin

text \<open>
  \<open>guardian_scanner/tools/evidence.py\<close>: what tools report becomes a chain of items, each holding the digest of its content
  and of the item before it.  SHA-256 is an argument.  Items of one transaction carry its start time, as the column default
  \<open>now()\<close> gives it; identifiers are arguments.  \<open>json.loads\<close> of a text that \<open>json.dumps\<close> wrote with sorted keys is the value
  with its keys in that order (\<open>in_key_order\<close>).
\<close>

subsection \<open>Content\<close>

definition EVIDENCE_KEYS :: "string list" where
  "EVIDENCE_KEYS = [''secret'', ''credential'', ''password'', ''passwd'', ''token'', ''api_key'', ''apikey'', ''private_key'',
     ''authorization'', ''cookie'', ''session'']"

definition sensitive_name :: "string \<Rightarrow> bool" where
  "sensitive_name k \<longleftrightarrow> list_ex (\<lambda>s. contains_sub s (py_lower k)) EVIDENCE_KEYS"

fun drop_sensitive :: "jval \<Rightarrow> jval" where
  "drop_sensitive (JObj d) = JObj (map (\<lambda>(k, v). (k, drop_sensitive v)) (filter (\<lambda>(k, v). \<not> sensitive_name k) d))"
| "drop_sensitive (JList xs) = JList (map drop_sensitive xs)"
| "drop_sensitive v = v"

fun in_key_order :: "jval \<Rightarrow> jval" where
  "in_key_order (JObj d) = JObj (sort_key fst (map (\<lambda>(k, v). (k, in_key_order v)) d))"
| "in_key_order (JList xs) = JList (map in_key_order xs)"
| "in_key_order v = v"

definition canonical_evidence :: "raw_evidence \<Rightarrow> jval \<times> string list" where
  "canonical_evidence e =
     (let wire = evidence_to_wire e;
          wire = dict_set ''data'' (drop_sensitive (jor (jget wire ''data'') (JObj []))) wire;
          wire = dict_set ''provenance'' (drop_sensitive (jor (jget wire ''provenance'') (JObj []))) wire
      in scrub None (JObj wire))"

subsection \<open>Items\<close>

record evidence_item =
  ei_id :: uuid
  ei_tenant_id :: uuid
  ei_kind :: string
  ei_summary :: string
  ei_detail :: jval
  ei_sha :: string
  ei_prev :: "string option"
  ei_created_by :: "uuid option"
  ei_created_at :: int

definition link_hash :: "(string \<Rightarrow> string) \<Rightarrow> string option \<Rightarrow> string \<Rightarrow> string" where
  "link_hash sha prev canonical = sha ((case prev of Some p \<Rightarrow> p | None \<Rightarrow> []) @ canonical)"

text \<open>The key evidence is ordered by.  Times are texts, as the field declares; of times that are neither all texts nor all
  missing, some two cannot be compared.\<close>

definition order_key :: "raw_evidence \<Rightarrow> string \<times> string \<times> string \<times> string" where
  "order_key e = ((case re_occurred_at e of JStr s \<Rightarrow> s | _ \<Rightarrow> []), re_execution_id e, re_target e, re_kind e)"

definition in_evidence_order :: "raw_evidence list \<Rightarrow> py_error + raw_evidence list" where
  "in_evidence_order es =
     (if 2 \<le> length es \<and> \<not> list_all (\<lambda>e. un_str (re_occurred_at e) \<noteq> None) es \<and> \<not> list_all (\<lambda>e. re_occurred_at e = JNull) es then Inl TypeError else Inr (sort_key order_key es))"

definition latest_hash :: "uuid \<Rightarrow> evidence_item list \<Rightarrow> string option" where
  "latest_hash tenant rows =
     (case sort_key (\<lambda>r. (ei_created_at r, ei_id r)) (filter (\<lambda>r. ei_tenant_id r = tenant) rows) of
        [] \<Rightarrow> None | rs \<Rightarrow> Some (ei_sha (last rs)))"

definition evidence_row ::
    "(string \<Rightarrow> string) \<Rightarrow> uuid \<Rightarrow> uuid option \<Rightarrow> int \<Rightarrow> string option \<Rightarrow> uuid \<Rightarrow> raw_evidence \<Rightarrow> evidence_item" where
  "evidence_row sha tenant by now prev i e =
     (let detail = in_key_order (fst (canonical_evidence e)) in
      \<lparr>ei_id = i, ei_tenant_id = tenant, ei_kind = (if take 30 (re_kind e) = [] then ''tool'' else take 30 (re_kind e)),
       ei_summary = take 300 (re_tool e @ '':'' @ re_target e), ei_detail = detail,
       ei_sha = link_hash sha prev (json_dumps (fst (canonical_evidence e))), ei_prev = prev, ei_created_by = by, ei_created_at = now\<rparr>)"

fun chain_rows ::
    "(string \<Rightarrow> string) \<Rightarrow> uuid \<Rightarrow> uuid option \<Rightarrow> int \<Rightarrow> string option \<Rightarrow> (uuid \<times> raw_evidence) list \<Rightarrow> evidence_item list" where
  "chain_rows sha tenant by now prev [] = []"
| "chain_rows sha tenant by now prev ((i, e) # es) =
     (let r = evidence_row sha tenant by now prev i e in r # chain_rows sha tenant by now (Some (ei_sha r)) es)"

text \<open>The identifiers given are used in order.\<close>

definition persist_evidence_chain ::
    "(string \<Rightarrow> string) \<Rightarrow> uuid \<Rightarrow> uuid option \<Rightarrow> int \<Rightarrow> uuid list \<Rightarrow> raw_evidence list \<Rightarrow> evidence_item list \<Rightarrow>
     py_error + evidence_item list \<times> uuid list" where
  "persist_evidence_chain sha tenant by now new_ids es rows =
     bind_r (in_evidence_order es) (\<lambda>es.
       let new = chain_rows sha tenant by now (latest_hash tenant rows) (zip new_ids es)
       in Inr (rows @ new, map ei_id new))"

subsection \<open>Verification\<close>

function walk_chain :: "(string \<Rightarrow> string) \<Rightarrow> evidence_item list \<Rightarrow> nat \<Rightarrow> string option \<Rightarrow> bool" where
  "walk_chain sha rows seen prev =
     (case filter (\<lambda>r. ei_prev r = prev) rows of
        [] \<Rightarrow> seen = length rows
      | [item] \<Rightarrow>
          if ei_sha item \<noteq> link_hash sha prev (json_dumps (ei_detail item)) then False
          else if length rows < Suc seen then False
          else walk_chain sha rows (Suc seen) (Some (ei_sha item))
      | _ \<Rightarrow> False)"
  by pat_completeness auto
termination
  by (relation "measure (\<lambda>(sha, rows, seen, prev). Suc (length rows) - seen)") auto

declare walk_chain.simps [simp del]

definition verify_chain :: "(string \<Rightarrow> string) \<Rightarrow> uuid \<Rightarrow> evidence_item list \<Rightarrow> bool" where
  "verify_chain sha tenant rows =
     (let rows = filter (\<lambda>r. ei_tenant_id r = tenant) rows in rows = [] \<or> walk_chain sha rows 0 None)"

subsection \<open>Chains\<close>

text \<open>What a verified table is: its items can be put in one row in which each names the digest of the one before.\<close>

fun linked :: "(string \<Rightarrow> string) \<Rightarrow> string option \<Rightarrow> evidence_item list \<Rightarrow> bool" where
  "linked sha p [] = True"
| "linked sha p (x # xs) = (ei_prev x = p \<and> ei_sha x = link_hash sha p (json_dumps (ei_detail x)) \<and> linked sha (Some (ei_sha x)) xs)"

definition end_hash :: "string option \<Rightarrow> evidence_item list \<Rightarrow> string option" where
  "end_hash p xs = (if xs = [] then p else Some (ei_sha (last xs)))"

lemma end_hash_simps [simp]: "end_hash p [] = p" "end_hash p (x # xs) = end_hash (Some (ei_sha x)) xs"
  "end_hash p (xs @ [x]) = Some (ei_sha x)" by (simp_all add: end_hash_def)

lemma linked_append: "linked sha p (xs @ ys) \<longleftrightarrow> linked sha p xs \<and> linked sha (end_hash p xs) ys"
  by (induction xs arbitrary: p) auto

text \<open>Two prefixes of a row without repeated digests that end in the same digest are the same.\<close>

lemma same_end:
  assumes "distinct (map ei_sha zs)" "zs = as @ bs" "zs = xs @ ys" "end_hash None as = end_hash None xs"
  shows "as = xs"
proof (cases "as = []")
  case True
  then show ?thesis using assms(4) by (cases "xs = []") (auto simp: end_hash_def)
next
  case False
  then have ne: "as \<noteq> []" "xs \<noteq> []" using assms(4) by (auto simp: end_hash_def split: if_splits)
  have at: "ei_sha (last us) = map ei_sha zs ! (length us - 1)" "length us - 1 < length zs"
    if u: "us \<noteq> []" "zs = us @ vs" for us vs
    using u by (auto simp: last_conv_nth nth_append) (cases us, auto)
  have "map ei_sha zs ! (length as - 1) = map ei_sha zs ! (length xs - 1)"
    using assms(4) ne unfolding at(1) [OF ne(1) assms(2), symmetric] at(1) [OF ne(2) assms(3), symmetric] by (simp add: end_hash_def)
  then have "length as - 1 = length xs - 1"
    using nth_eq_iff_index_eq [OF assms(1), of "length as - 1" "length xs - 1"] at(2) [OF ne(1) assms(2)] at(2) [OF ne(2) assms(3)]
    by (simp only: length_map)
  moreover have "0 < length as" "0 < length xs" using ne by simp_all
  ultimately have "length as = length xs" by linarith
  then show ?thesis using assms(2,3) by simp
qed

lemma next_link:
  assumes "linked sha None zs" "distinct (map ei_sha zs)" "zs = xs @ ys" "r \<in> set zs" "ei_prev r = end_hash None xs"
  shows "\<exists>ys'. ys = r # ys'"
proof -
  obtain as bs where s: "zs = as @ r # bs" using split_list [OF assms(4)] by blast
  then have "ei_prev r = end_hash None as" using assms(1) unfolding s by (simp add: linked_append)
  then have "end_hash None as = end_hash None xs" using assms(5) by (rule subst)
  then have same: "as = xs" by (rule same_end [OF assms(2) s assms(3)])
  have "xs @ ys = as @ r # bs" by (rule trans [OF assms(3) [symmetric] s])
  then have "ys = r # bs" unfolding same by (rule same_append_eq [THEN iffD1])
  then show ?thesis by (rule exI)
qed

lemma distinct_singleton: "distinct l \<Longrightarrow> set l = {y} \<Longrightarrow> l = [y]"
proof -
  assume l: "distinct l" "set l = {y}"
  then have "length l = 1" using distinct_card [of l] by simp
  then obtain x where "l = [x]" by (cases l) auto
  then show "l = [y]" using l(2) by simp
qed

lemma same_items:
  assumes "mset zs = mset rows"
  shows "set rows = set zs" "length rows = length zs" "distinct (map f rows) = distinct (map f zs)"
proof -
  show "set rows = set zs" using mset_eq_setD [OF assms] by simp
  show "length rows = length zs" using mset_eq_length [OF assms] by simp
  have "mset (map f rows) = mset (map f zs)" using assms by simp
  then show "distinct (map f rows) = distinct (map f zs)" by (rule mset_eq_imp_distinct_iff)
qed

lemma link_walk_complete:
  "linked sha None (xs @ ys) \<Longrightarrow> mset (xs @ ys) = mset rows \<Longrightarrow> distinct (map ei_sha rows) \<Longrightarrow> walk_chain sha rows (length xs) (end_hash None xs)"
proof (induction ys arbitrary: xs)
  case Nil
  have sets: "set rows = set xs" "length rows = length xs" "distinct (map ei_sha xs)"
    using same_items(1,2) [OF Nil(2)] same_items(3) [OF Nil(2), of ei_sha] Nil(3) by simp_all
  have "\<not> (r \<in> set xs \<and> ei_prev r = end_hash None xs)" for r
    using next_link [of sha xs xs "[]" r] Nil(1) sets(3) by auto
  then have "filter (\<lambda>r. ei_prev r = end_hash None xs) rows = []" using sets(1) by (auto simp: filter_empty_conv)
  then show ?case by (subst walk_chain.simps) (simp add: sets(2))
next
  case (Cons y ys)
  let ?zs = "xs @ y # ys"
  have sets: "set rows = set ?zs" "length rows = length ?zs" "distinct (map ei_sha ?zs)"
    using same_items(1,2) [OF Cons(3)] same_items(3) [OF Cons(3), of ei_sha] Cons(4) by blast+
  have y: "ei_prev y = end_hash None xs" "ei_sha y = link_hash sha (end_hash None xs) (json_dumps (ei_detail y))"
    using Cons(2) by (auto simp: linked_append)
  have "r = y" if "r \<in> set rows" "ei_prev r = end_hash None xs" for r
    using next_link [OF Cons(2) sets(3) refl, of r] that sets(1) by auto
  then have "set (filter (\<lambda>r. ei_prev r = end_hash None xs) rows) = {y}" using y(1) sets(1) by auto
  moreover have "distinct rows" using Cons(4) by (auto simp: distinct_map)
  ultimately have only: "filter (\<lambda>r. ei_prev r = end_hash None xs) rows = [y]" by (intro distinct_singleton) auto
  have "walk_chain sha rows (length (xs @ [y])) (end_hash None (xs @ [y]))" by (rule Cons(1)) (use Cons(2-4) in simp_all)
  then show ?case using y(2) sets(2) by (subst walk_chain.simps) (simp add: only)
qed

lemma link_walk_sound:
  "walk_chain sha rows seen prev \<Longrightarrow> \<exists>ys. linked sha prev ys \<and> set ys \<subseteq> set rows \<and> seen + length ys = length rows"
proof (induction sha rows seen prev rule: walk_chain.induct)
  case (1 sha rows seen prev)
  show ?case
  proof (cases "filter (\<lambda>r. ei_prev r = prev) rows")
    case Nil
    then show ?thesis using 1(2) by (subst (asm) walk_chain.simps) (auto intro: exI [of _ "[]"])
  next
    case (Cons y rest)
    have "rest = []" using 1(2) Cons by (subst (asm) walk_chain.simps) (auto split: list.splits)
    with Cons have only: "filter (\<lambda>r. ei_prev r = prev) rows = [y]" by simp
    then have y: "y \<in> set rows" "ei_prev y = prev" using filter_eq_ConsD [OF only] by auto
    have run: "ei_sha y = link_hash sha prev (json_dumps (ei_detail y))" "\<not> length rows < Suc seen"
        "walk_chain sha rows (Suc seen) (Some (ei_sha y))"
      using 1(2) only by (subst (asm) walk_chain.simps; auto split: if_splits)+
    obtain ys where "linked sha (Some (ei_sha y)) ys" "set ys \<subseteq> set rows" "Suc seen + length ys = length rows"
      using 1(1) [OF only refl] run by auto
    then show ?thesis using y run(1) by (intro exI [of _ "y # ys"]) auto
  qed
qed

lemma linked_distinct:
  "linked sha None xs \<Longrightarrow> inj_on ei_sha (set xs) \<Longrightarrow> distinct xs"
proof (induction xs rule: rev_induct)
  case (snoc x xs)
  then have d: "distinct xs" and l: "linked sha None xs" "ei_prev x = end_hash None xs" by (auto simp: linked_append)
  have "x \<notin> set xs"
  proof
    assume "x \<in> set xs"
    moreover have "distinct (map ei_sha xs)" using d snoc.prems(2) by (simp add: distinct_map inj_on_def)
    ultimately show False using next_link [OF l(1) _ _ _ l(2), of "[]"] by simp
  qed
  then show ?case using d by simp
qed simp

lemma mset_of_distinct_subset: "distinct ys \<Longrightarrow> set ys \<subseteq> set rows \<Longrightarrow> length ys = length rows \<Longrightarrow> mset ys = mset rows"
  by (metis card_length card_subset_eq distinct_card card_distinct finite_set le_antisym set_eq_iff_mset_eq_distinct card_mono)

lemma verify_chain_iff:
  assumes "distinct (map ei_sha (filter (\<lambda>r. ei_tenant_id r = tenant) rows))"
  shows "verify_chain sha tenant rows \<longleftrightarrow>
     (\<exists>xs. mset xs = mset (filter (\<lambda>r. ei_tenant_id r = tenant) rows) \<and> linked sha None xs)"
proof -
  let ?T = "filter (\<lambda>r. ei_tenant_id r = tenant) rows"
  show ?thesis
  proof
    assume v: "verify_chain sha tenant rows"
    show "\<exists>xs. mset xs = mset ?T \<and> linked sha None xs"
    proof (cases "?T = []")
      case True
      then show ?thesis by (intro exI [of _ "[]"]) simp
    next
      case False
      then have "walk_chain sha ?T 0 None" using v by (auto simp: verify_chain_def Let_def)
      then obtain ys where ys: "linked sha None ys" "set ys \<subseteq> set ?T" "length ys = length ?T" using link_walk_sound by fastforce
      have "inj_on ei_sha (set ys)" using assms ys(2) by (auto simp: distinct_map intro: inj_on_subset)
      then have "mset ys = mset ?T" using mset_of_distinct_subset [OF linked_distinct [OF ys(1)] ys(2,3)] by simp
      then show ?thesis using ys(1) by blast
    qed
  next
    assume "\<exists>xs. mset xs = mset ?T \<and> linked sha None xs"
    then obtain xs where "mset ([] @ xs) = mset ?T" "linked sha None ([] @ xs)" by auto
    then have "walk_chain sha ?T 0 None" using link_walk_complete [of sha "[]" xs ?T] assms by simp
    then show "verify_chain sha tenant rows" by (simp add: verify_chain_def)
  qed
qed

subsection \<open>Appending\<close>

lemma sort_by_key_again: "sort_key fst (sort_key fst xs) = sort_key fst xs"
  by (simp add: sort_key_id_if_sorted)

lemma json_dumps_obj_sorted:
  "map snd (sort_key fst (map (\<lambda>(k, v). (k, g k v)) (sort_key fst d))) = map snd (sort_key fst (map (\<lambda>(k, v). (k, g k v)) d))"
proof -
  have "sort_key fst (map (\<lambda>(k, v). (k, g k v)) xs) = map (\<lambda>(k, v). (k, g k v)) (sort_key fst xs)" for xs
  proof (induction xs)
    case (Cons x xs)
    have ins: "insort_key fst (case y of (k, v) \<Rightarrow> (k, g k v)) (map (\<lambda>(k, v). (k, g k v)) ys) =
        map (\<lambda>(k, v). (k, g k v)) (insort_key fst y ys)" for y ys
      by (induction ys) (auto split: prod.splits)
    show ?case using Cons ins by simp
  qed simp
  then show ?thesis by (simp add: sort_by_key_again)
qed

lemma dumps_in_key_order: "json_dumps (in_key_order v) = json_dumps v"
proof (induction v rule: in_key_order.induct)
  case (1 d)
  have each: "map (\<lambda>(k, v). (k, json_str k @ '':'' @ json_dumps v)) (map (\<lambda>(k, v). (k, in_key_order v)) d)
      = map (\<lambda>(k, v). (k, json_str k @ '':'' @ json_dumps v)) d" using 1 by auto
  show ?case
    unfolding in_key_order.simps json_dumps.simps json_dumps_obj_sorted [of "\<lambda>k v. json_str k @ '':'' @ json_dumps v"] each by (rule refl)
next
  case (2 xs)
  then have "map json_dumps (map in_key_order xs) = map json_dumps xs" by simp
  then show ?case by (simp only: in_key_order.simps json_dumps.simps)
qed simp_all

lemma evidence_row_fields:
  "ei_tenant_id (evidence_row sha tenant by now prev i e) = tenant" "ei_prev (evidence_row sha tenant by now prev i e) = prev"
  "ei_sha (evidence_row sha tenant by now prev i e) = link_hash sha prev (json_dumps (ei_detail (evidence_row sha tenant by now prev i e)))"
  by (simp_all add: evidence_row_def Let_def dumps_in_key_order)

lemma chain_rows_linked: "linked sha p (chain_rows sha tenant by now p es)"
  by (induction es arbitrary: p) (auto simp: Let_def evidence_row_fields)

lemma chain_rows_tenant: "r \<in> set (chain_rows sha tenant by now p es) \<Longrightarrow> ei_tenant_id r = tenant"
  by (induction es arbitrary: p) (auto simp: Let_def evidence_row_fields)

lemma chain_rows_head: "es \<noteq> [] \<Longrightarrow> \<exists>r rs. chain_rows sha tenant by now p es = r # rs \<and> ei_prev r = p"
  by (cases es) (auto simp: Let_def evidence_row_fields)

lemma latest_hash_None: "latest_hash tenant rows = None \<longleftrightarrow> filter (\<lambda>r. ei_tenant_id r = tenant) rows = []"
proof -
  have "sort_key f xs = [] \<longleftrightarrow> xs = []" for f :: "evidence_item \<Rightarrow> int \<times> uuid" and xs
    by (metis length_0_conv length_sort)
  then show ?thesis by (auto simp: latest_hash_def split: list.splits)
qed

lemma latest_hash_Some:
  "latest_hash tenant rows = Some h \<Longrightarrow> \<exists>r \<in> set (filter (\<lambda>r. ei_tenant_id r = tenant) rows). ei_sha r = h"
proof -
  assume h: "latest_hash tenant rows = Some h"
  let ?s = "sort_key (\<lambda>r. (ei_created_at r, ei_id r)) (filter (\<lambda>r. ei_tenant_id r = tenant) rows)"
  from h have "?s \<noteq> []" "h = ei_sha (last ?s)" by (auto simp: latest_hash_def split: list.splits)
  then show ?thesis by (metis last_in_set set_sort)
qed

text \<open>C31: Appending keeps the chain exactly when it continues at the end.  Let the items of a tenant verify, and let new
  evidence be persisted without two items getting the same digest.  Then the items verify afterwards exactly when no
  item stood behind the one whose digest the new ones continue, the one with the latest time and, among those, the greatest
  identifier.\<close>

theorem persisted_chain_verifies:
  assumes "persist_evidence_chain sha tenant by now new_ids es rows = Inr (rows', out)" "es \<noteq> []" "new_ids \<noteq> []"
    and "verify_chain sha tenant rows" "distinct (map ei_sha (filter (\<lambda>r. ei_tenant_id r = tenant) rows'))"
  shows "verify_chain sha tenant rows' \<longleftrightarrow>
     (\<forall>r \<in> set rows. ei_tenant_id r = tenant \<longrightarrow> ei_prev r \<noteq> latest_hash tenant rows)"
proof -
  let ?T = "filter (\<lambda>r. ei_tenant_id r = tenant)"
  obtain es' where es': "es' \<noteq> []" and rows': "rows' = rows @ chain_rows sha tenant by now (latest_hash tenant rows) es'"
  proof -
    have "sort_key order_key es \<noteq> []" using assms(2) by (metis length_0_conv length_sort)
    then have "zip new_ids (sort_key order_key es) \<noteq> []" using assms(3) by (cases new_ids; cases "sort_key order_key es") auto
    moreover have "rows' = rows @ chain_rows sha tenant by now (latest_hash tenant rows) (zip new_ids (sort_key order_key es))"
      using assms(1) by (auto simp: persist_evidence_chain_def in_evidence_order_def bind_r_Inr Let_def split: if_splits)
    ultimately show thesis by (rule that)
  qed
  define new where "new = chain_rows sha tenant by now (latest_hash tenant rows) es'"
  have T': "?T rows' = ?T rows @ new" using chain_rows_tenant by (fastforce simp: rows' new_def filter_id_conv)
  then have d: "distinct (map ei_sha (?T rows))" "distinct (map ei_sha (?T rows @ new))" using assms(5) by simp_all
  obtain xs where xs: "mset xs = mset (?T rows)" "linked sha None xs" using assms(4) verify_chain_iff [OF d(1)] by blast
  have same: "set (?T rows) = set xs" "distinct (map ei_sha xs)"
    using same_items(1) [OF xs(1)] same_items(3) [OF xs(1), of ei_sha] d(1) by auto
  obtain r0 rs where head: "new = r0 # rs" "ei_prev r0 = latest_hash tenant rows" using chain_rows_head [OF es'] unfolding new_def by blast
  show ?thesis
  proof
    assume end_free: "\<forall>r \<in> set rows. ei_tenant_id r = tenant \<longrightarrow> ei_prev r \<noteq> latest_hash tenant rows"
    have "end_hash None xs = latest_hash tenant rows"
    proof (cases "latest_hash tenant rows")
      case None
      then have "xs = []" using xs(1) by (simp add: latest_hash_None)
      then show ?thesis using None by simp
    next
      case (Some h)
      obtain r where r: "r \<in> set xs" "ei_sha r = h" using latest_hash_Some [OF Some] same(1) by blast
      obtain as bs where s: "xs = as @ r # bs" using split_list [OF r(1)] by blast
      have "bs = []"
      proof (rule ccontr)
        assume "bs \<noteq> []"
        then obtain y ys where y: "bs = y # ys" by (cases bs) auto
        then have "ei_prev y = Some h" using xs(2) r(2) unfolding s by (simp add: linked_append)
        moreover have "y \<in> set (?T rows)" using s y same(1) by simp
        ultimately show False using end_free Some by simp
      qed
      then show ?thesis using Some r(2) s by simp
    qed
    then have "linked sha None (xs @ new)" using xs(2) chain_rows_linked by (simp add: linked_append new_def)
    moreover have "mset (xs @ new) = mset (?T rows')" using xs(1) T' by simp
    ultimately show "verify_chain sha tenant rows'" using verify_chain_iff [OF assms(5)] by blast
  next
    assume "verify_chain sha tenant rows'"
    then obtain zs where zs: "mset zs = mset (?T rows')" "linked sha None zs" using verify_chain_iff [OF assms(5)] by blast
    have zset: "set zs = set (?T rows) \<union> set new" "distinct (map ei_sha zs)"
      using same_items(1) [OF zs(1)] same_items(3) [OF zs(1), of ei_sha] assms(5) T' by auto
    show "\<forall>r \<in> set rows. ei_tenant_id r = tenant \<longrightarrow> ei_prev r \<noteq> latest_hash tenant rows"
    proof (intro ballI impI notI)
      fix r assume r: "r \<in> set rows" "ei_tenant_id r = tenant" "ei_prev r = latest_hash tenant rows"
      have "r \<in> set zs" "r0 \<in> set zs" using r zset(1) head(1) by auto
      then obtain as bs where s: "zs = as @ r # bs" using split_list by metis
      then have "ei_prev r = end_hash None as" using zs(2) by (simp add: linked_append)
      then have "ei_prev r0 = end_hash None as" using r(3) head(2) by simp
      from next_link [OF zs(2) zset(2) s \<open>r0 \<in> set zs\<close> this] have "r = r0" by simp
      moreover have "ei_sha r0 \<notin> ei_sha ` set (?T rows)" using d(2) head(1) by auto
      ultimately show False using r by force
    qed
  qed
qed

text \<open>An append the theorem applies to, and why appends break the chain: the items of one run share their time, so when the
  first of them has the greater identifier, the next run continues the first item a second time.\<close>

definition demo_evidence :: "string \<Rightarrow> raw_evidence" where
  "demo_evidence t = \<lparr>re_tool = ''w'', re_execution_id = ''x'', re_target = t, re_kind = ''k'', re_data = [], re_provenance = [],
     re_confidence = JInt 90, re_occurred_at = JStr ''2026''\<rparr>"

definition demo_sha :: "string \<Rightarrow> string" where "demo_sha t = map (\<lambda>c. if c = CHR 0x7B then CHR ''x'' else c) (CHR ''h'' # t)"

definition demo_link :: evidence_item where
  "demo_link = \<lparr>ei_id = 9, ei_tenant_id = 7, ei_kind = ''k'', ei_summary = ''w:a'', ei_detail = JObj [], ei_sha = demo_sha (json_dumps (JObj [])),
     ei_prev = None, ei_created_by = None, ei_created_at = 1\<rparr>"

lemma demo_link_simps: "ei_tenant_id demo_link = 7" "ei_prev demo_link = None" "ei_sha demo_link = demo_sha (json_dumps (JObj []))"
  "ei_detail demo_link = JObj []"
  by (simp_all add: demo_link_def)

lemma demo_latest: "latest_hash 7 [demo_link] = Some (ei_sha demo_link)" by (simp add: latest_hash_def demo_link_simps)

lemma persisted_chain_verifies_witness:
  "\<exists>rows' out. persist_evidence_chain demo_sha 7 None 2 [5] [demo_evidence ''b''] [demo_link] = Inr (rows', out) \<and>
     length rows' = 2 \<and> verify_chain demo_sha 7 rows'"
proof -
  let ?r = "evidence_row demo_sha 7 None 2 (Some (ei_sha demo_link)) 5 (demo_evidence ''b'')"
  have p: "persist_evidence_chain demo_sha 7 None 2 [5] [demo_evidence ''b''] [demo_link] = Inr ([demo_link, ?r], [5])"
    by (simp add: persist_evidence_chain_def in_evidence_order_def demo_latest bind_r_Inr Let_def) (simp add: evidence_row_def Let_def)
  have v: "verify_chain demo_sha 7 [demo_link]"
    by (subst verify_chain_iff) (auto simp: demo_link_simps link_hash_def intro!: exI [of _ "[demo_link]"])
  have "length (ei_sha ?r) \<noteq> length (ei_sha demo_link)" by (simp add: evidence_row_fields link_hash_def demo_sha_def)
  then have "ei_sha ?r \<noteq> ei_sha demo_link" by metis
  then have "distinct (map ei_sha (filter (\<lambda>r. ei_tenant_id r = 7) [demo_link, ?r]))" by (auto simp: demo_link_simps evidence_row_fields)
  then have "verify_chain demo_sha 7 [demo_link, ?r]"
    using persisted_chain_verifies [OF p _ _ v] by (simp add: demo_latest demo_link_simps)
  then show ?thesis using p by auto
qed

lemma next_run_forks_the_chain:
  assumes "persist_evidence_chain sha tenant by now [i1, i2] [e1, e2] [] = Inr (rows, out)" "i2 < i1"
    and "persist_evidence_chain sha tenant by' later [i3] [e3] rows = Inr (rows', out')"
  shows "verify_chain sha tenant rows \<or> \<not> distinct (map ei_sha rows)" "\<not> verify_chain sha tenant rows'"
proof -
  obtain a b where "sort_key order_key [e1, e2] = [a, b]"
    by (metis (no_types) length_Cons length_sort list.size(3) length_0_conv length_Suc_conv)
  moreover have start: "latest_hash tenant [] = None" by (simp add: latest_hash_def)
  ultimately have rows: "rows = chain_rows sha tenant by now None [(i1, a), (i2, b)]"
    using assms(1) by (auto simp: persist_evidence_chain_def in_evidence_order_def bind_r_Inr Let_def start simp del: chain_rows.simps sort_key_simps split: if_splits)
  have ids: "ei_id (evidence_row sha tenant by now p i e) = i" "ei_created_at (evidence_row sha tenant by now p i e) = now" for p i e
    by (simp_all add: evidence_row_def Let_def)
  define r1 where "r1 = evidence_row sha tenant by now None i1 a"
  define r2 where "r2 = evidence_row sha tenant by now (Some (ei_sha r1)) i2 b"
  have two: "rows = [r1, r2]" by (simp add: rows r1_def r2_def Let_def)
  have f: "ei_tenant_id r1 = tenant" "ei_tenant_id r2 = tenant" "ei_prev r1 = None" "ei_prev r2 = Some (ei_sha r1)"
      "ei_sha r1 = link_hash sha None (json_dumps (ei_detail r1))" "ei_id r1 = i1" "ei_id r2 = i2" "ei_created_at r1 = now" "ei_created_at r2 = now"
    by (simp_all add: r1_def r2_def evidence_row_fields(1,2) ids) (rule evidence_row_fields(3))
  have "latest_hash tenant rows = Some (ei_sha r1)" using assms(2) by (simp add: latest_hash_def two f)
  then obtain r3 where r3: "rows' = [r1, r2, r3]" "ei_tenant_id r3 = tenant" "ei_prev r3 = Some (ei_sha r1)"
    using assms(3) by (auto simp: persist_evidence_chain_def in_evidence_order_def bind_r_Inr Let_def two evidence_row_fields split: if_splits)
  show "\<not> verify_chain sha tenant rows'"
    by (simp add: verify_chain_def r3 f walk_chain.simps [of _ _ 0]) (subst walk_chain.simps, simp add: f r3)
  have "linked sha None rows" unfolding rows by (rule chain_rows_linked)
  moreover have "filter (\<lambda>r. ei_tenant_id r = tenant) rows = rows" by (simp add: two f)
  ultimately show "verify_chain sha tenant rows \<or> \<not> distinct (map ei_sha rows)" using verify_chain_iff [of tenant rows sha] by auto
qed

subsection \<open>Tampering\<close>

text \<open>An item as it is hashed.\<close>

definition hashed :: "evidence_item \<Rightarrow> string option \<times> string \<times> string" where
  "hashed r = (ei_prev r, ei_sha r, json_dumps (ei_detail r))"

definition hashed_text :: "evidence_item \<Rightarrow> string" where
  "hashed_text r = (case ei_prev r of Some p \<Rightarrow> p | None \<Rightarrow> []) @ json_dumps (ei_detail r)"

definition chain_end :: "uuid \<Rightarrow> evidence_item list \<Rightarrow> evidence_item \<Rightarrow> bool" where
  "chain_end tenant rows r \<longleftrightarrow> r \<in> set rows \<and> ei_tenant_id r = tenant \<and>
     (\<forall>r' \<in> set rows. ei_tenant_id r' = tenant \<longrightarrow> ei_prev r' \<noteq> Some (ei_sha r))"

lemma before_brace:
  "CHR 0x7B \<notin> set p \<Longrightarrow> CHR 0x7B \<notin> set q \<Longrightarrow> p @ CHR 0x7B # u = q @ CHR 0x7B # v \<Longrightarrow> p = q \<and> u = v"
proof (induction p arbitrary: q)
  case Nil then show ?case by (cases q) auto
next
  case (Cons c p) then show ?case by (cases q) auto
qed

lemma last_is_end:
  assumes "mset xs = mset (filter (\<lambda>r. ei_tenant_id r = tenant) rows)" "linked sha None xs" "chain_end tenant rows r"
  shows "\<exists>as. xs = as @ [r]"
proof -
  have "r \<in> set xs" using assms(1,3) mset_eq_setD [OF assms(1)] by (auto simp: chain_end_def)
  then obtain as bs where s: "xs = as @ r # bs" using split_list by metis
  have "bs = []"
  proof (rule ccontr)
    assume "bs \<noteq> []"
    then obtain y ys where y: "bs = y # ys" by (cases bs) auto
    then have "ei_prev y = Some (ei_sha r)" using assms(2) unfolding s by (simp add: linked_append)
    moreover have "y \<in> set (filter (\<lambda>r. ei_tenant_id r = tenant) rows)" using mset_eq_setD [OF assms(1)] s y by auto
    ultimately show False using assms(3) by (auto simp: chain_end_def)
  qed
  then show ?thesis using s by auto
qed

lemma linked_hash_text: "linked sha p (as @ [r]) \<Longrightarrow> ei_sha r = sha (hashed_text r) \<and> ei_prev r = end_hash p as"
  by (simp add: linked_append hashed_text_def link_hash_def)

lemma linked_determined:
  assumes digest: "\<And>t. sha t \<noteq> [] \<and> CHR 0x7B \<notin> set (sha t)"
  shows "linked sha None xs \<Longrightarrow> linked sha None ys \<Longrightarrow> end_hash None xs = end_hash None ys \<Longrightarrow>
    (\<And>r. r \<in> set xs \<union> set ys \<Longrightarrow> \<exists>d. ei_detail r = JObj d) \<Longrightarrow> inj_on sha (hashed_text ` (set xs \<union> set ys)) \<Longrightarrow>
    map hashed xs = map hashed ys"
proof (induction xs arbitrary: ys rule: rev_induct)
  case Nil
  then show ?case by (simp add: end_hash_def split: if_splits)
next
  case (snoc x xs)
  then obtain y ys' where ys: "ys = ys' @ [y]" by (cases ys rule: rev_cases) (auto simp: end_hash_def)
  have hx: "ei_sha x = sha (hashed_text x)" "ei_prev x = end_hash None xs" using linked_hash_text [OF snoc.prems(1)] by auto
  have hy: "ei_sha y = sha (hashed_text y)" "ei_prev y = end_hash None ys'" using linked_hash_text [of sha None ys' y] snoc.prems(2) ys by auto
  have same: "ei_sha x = ei_sha y" using snoc.prems(3) ys by simp
  have lx: "linked sha None xs" and ly: "linked sha None ys'" using snoc.prems(1,2) ys by (simp_all add: linked_append)
  have texts: "hashed_text x = hashed_text y"
    using inj_onD [OF snoc.prems(5), of "hashed_text x" "hashed_text y"] same hx(1) hy(1) ys by simp
  obtain d e where de: "ei_detail x = JObj d" "ei_detail y = JObj e" using snoc.prems(4) ys by fastforce
  have dig: "end_hash None zs = None \<or> (\<exists>t. end_hash None zs = Some (sha t))" if l: "linked sha None zs" for zs
    using l by (cases zs rule: rev_cases) (auto simp: linked_append link_hash_def)
  have free: "CHR 0x7B \<notin> set (case end_hash None zs of Some p \<Rightarrow> p | None \<Rightarrow> [])" if l: "linked sha None zs" for zs
    using dig [OF l] digest by auto
  obtain u v where uv: "json_dumps (ei_detail x) = CHR 0x7B # u" "json_dumps (ei_detail y) = CHR 0x7B # v" by (simp add: de)
  have "(case end_hash None xs of Some p \<Rightarrow> p | None \<Rightarrow> []) @ CHR 0x7B # u =
      (case end_hash None ys' of Some p \<Rightarrow> p | None \<Rightarrow> []) @ CHR 0x7B # v"
    using texts unfolding hashed_text_def hx(2) hy(2) uv .
  from before_brace [OF free [OF lx] free [OF ly] this]
  have prev_text: "(case end_hash None xs of Some p \<Rightarrow> p | None \<Rightarrow> []) = (case end_hash None ys' of Some p \<Rightarrow> p | None \<Rightarrow> [])"
    and dumps: "json_dumps (ei_detail x) = json_dumps (ei_detail y)" unfolding uv by auto
  have ne: "sha t \<noteq> []" "[] \<noteq> sha t" for t using digest [of t] by auto
  have prev: "end_hash None xs = end_hash None ys'"
    using prev_text dig [OF lx] dig [OF ly] by (auto simp: ne)
  have "map hashed xs = map hashed ys'"
  proof (rule snoc.IH [OF lx ly prev])
    show "\<exists>d. ei_detail r = JObj d" if r: "r \<in> set xs \<union> set ys'" for r using snoc.prems(4) [of r] r ys by auto
    show "inj_on sha (hashed_text ` (set xs \<union> set ys'))" using snoc.prems(5) by (rule inj_on_subset) (auto simp: ys)
  qed
  moreover have "hashed x = hashed y" using prev dumps same hx(2) hy(2) by (simp add: hashed_def)
  ultimately show ?case using ys by simp
qed

text \<open>C30: The last digest fixes the whole chain.  Let two tables both verify for a tenant, each with an item no other continues,
  and let these two items have the same digest; SHA-256 gives hexadecimal digests and does not collide on the texts hashed.
  Then the two tables hold the same items: the same contents, in the same positions of the chain.  Whoever keeps the last
  digest notices every change, removal or insertion before it.\<close>

theorem last_digest_fixes_the_chain:
  assumes "verify_chain sha tenant rows1" "verify_chain sha tenant rows2"
    and "chain_end tenant rows1 e1" "chain_end tenant rows2 e2" "ei_sha e1 = ei_sha e2"
    and "distinct (map ei_sha (filter (\<lambda>r. ei_tenant_id r = tenant) rows1))" "distinct (map ei_sha (filter (\<lambda>r. ei_tenant_id r = tenant) rows2))"
    and "\<And>t. sha t \<noteq> [] \<and> CHR 0x7B \<notin> set (sha t)" "inj_on sha (hashed_text ` (set rows1 \<union> set rows2))"
    and "\<And>r. r \<in> set rows1 \<union> set rows2 \<Longrightarrow> \<exists>d. ei_detail r = JObj d"
  shows "mset (map hashed (filter (\<lambda>r. ei_tenant_id r = tenant) rows1)) = mset (map hashed (filter (\<lambda>r. ei_tenant_id r = tenant) rows2))"
proof -
  let ?T = "filter (\<lambda>r. ei_tenant_id r = tenant)"
  obtain xs where xs: "mset xs = mset (?T rows1)" "linked sha None xs" using assms(1) verify_chain_iff [OF assms(6)] by blast
  obtain ys where ys: "mset ys = mset (?T rows2)" "linked sha None ys" using assms(2) verify_chain_iff [OF assms(7)] by blast
  have "end_hash None xs = end_hash None ys"
    using last_is_end [OF xs assms(3)] last_is_end [OF ys assms(4)] assms(5) by (auto simp: end_hash_def)
  moreover have sub: "set xs \<union> set ys \<subseteq> set rows1 \<union> set rows2" using mset_eq_setD [OF xs(1)] mset_eq_setD [OF ys(1)] by auto
  ultimately have "map hashed xs = map hashed ys"
    using assms(10) by (intro linked_determined [OF assms(8) xs(2) ys(2)] inj_on_subset [OF assms(9)] image_mono) blast+
  then show ?thesis using xs(1) ys(1) by (metis mset_map)
qed

lemma last_digest_fixes_the_chain_witness:
  "mset (map hashed (filter (\<lambda>r. ei_tenant_id r = 7) [demo_link])) = mset (map hashed (filter (\<lambda>r. ei_tenant_id r = 7) [demo_link\<lparr>ei_id := 4\<rparr>]))"
proof (rule last_digest_fixes_the_chain [where sha = demo_sha and ?e1.0 = demo_link and ?e2.0 = "demo_link\<lparr>ei_id := 4\<rparr>"])
  have "linked demo_sha None [demo_link]" "linked demo_sha None [demo_link\<lparr>ei_id := 4\<rparr>]" by (simp_all add: demo_link_simps link_hash_def)
  then show "verify_chain demo_sha 7 [demo_link]" "verify_chain demo_sha 7 [demo_link\<lparr>ei_id := 4\<rparr>]"
    by (subst verify_chain_iff; force simp: demo_link_simps)+
qed (auto simp: chain_end_def demo_link_simps demo_sha_def hashed_text_def)

end
