(* ===== verification/JobSigning.thy ===== *)
theory JobSigning
  imports PyJson Binary64
begin

text \<open>
  \<open>guardian_common/job_signing.py\<close> and \<open>replay.py\<close>: the control plane signs the jobs it dispatches, the execution plane
  takes a job only with a valid signature, in time and once.  Ed25519, base64 and the ISO form of instants are arguments
  (\<open>sign_env\<close>), as is the shared store; the store in the process is modelled.
\<close>

subsection \<open>Reserving a nonce\<close>

definition LOCAL_MAX :: nat where "LOCAL_MAX = 20000"

definition KEY_PREFIX :: string where "KEY_PREFIX = ''guardian:jobnonce:''"

text \<open>The store of a process: when each nonce is free again.\<close>

definition sweep_local :: "int \<Rightarrow> (string, int) odict \<Rightarrow> (string, int) odict" where
  "sweep_local now seen = (if LOCAL_MAX < length seen then filter (\<lambda>(k, v). \<not> v \<le> now) seen else seen)"

definition reserve_local :: "string \<Rightarrow> int \<Rightarrow> int \<Rightarrow> (string, int) odict \<Rightarrow> bool \<times> (string, int) odict" where
  "reserve_local nonce ttl now seen =
     (let seen = sweep_local now seen
      in case dict_get seen nonce of
           Some prior \<Rightarrow> if now < prior then (False, seen) else (True, dict_set nonce (now + seconds ttl) seen)
         | None \<Rightarrow> (True, dict_set nonce (now + seconds ttl) seen))"

text \<open>The shared store answers whether it set the key, or fails.  \<open>None\<close> is \<open>ReplayStoreUnavailable\<close>.\<close>

definition reserve_nonce ::
    "bool \<Rightarrow> (string \<Rightarrow> int \<Rightarrow> int \<Rightarrow> 's \<Rightarrow> bool option \<times> 's) \<Rightarrow> string \<Rightarrow> int \<Rightarrow> int \<Rightarrow> 's \<times> (string, int) odict \<Rightarrow>
     bool option \<times> 's \<times> (string, int) odict" where
  "reserve_nonce dev redis nonce ttl_seconds now st =
     (let ttl = max 1 ttl_seconds
      in case redis (KEY_PREFIX @ nonce) ttl now (fst st) of
           (Some b, s) \<Rightarrow> (Some b, s, snd st)
         | (None, s) \<Rightarrow> if dev then let r = reserve_local nonce ttl now (snd st) in (Some (fst r), s, snd r) else (None, s, snd st))"

subsection \<open>Signing and verifying\<close>

record sign_env =
  sv_b64e :: "string \<Rightarrow> string"
  sv_b64d :: "string \<Rightarrow> string option"
  sv_public_of :: "string \<Rightarrow> string"
  sv_sign :: "string \<Rightarrow> string \<Rightarrow> string"
  sv_verify :: "string \<Rightarrow> string \<Rightarrow> string \<Rightarrow> bool"
  sv_iso :: "int \<Rightarrow> string"
  sv_from_iso :: "string \<Rightarrow> py_datetime option"
  sv_dev_seed :: string
  sv_private_setting :: string
  sv_public_setting :: string
  sv_dev :: bool

datatype job_refusal =
    MalformedEnvelope | BadTimestamps | ExpiredJob | IssuedInFuture | NoPrivateKey | NoPublicKey | BadSignature
  | ReplayStoreUnavailable | ReplayedNonce | MalformedJob

datatype job_error = JobVerificationError job_refusal | Raised py_error

definition DEFAULT_TTL_SECONDS :: int where "DEFAULT_TTL_SECONDS = 300"

definition MAX_FUTURE_SKEW :: int where "MAX_FUTURE_SKEW = 60"

definition key_bytes :: "sign_env \<Rightarrow> string \<Rightarrow> job_error + string" where
  "key_bytes env raw =
     (case sv_b64d env raw of None \<Rightarrow> Inl (Raised ValueError) | Some k \<Rightarrow> if length k = 32 then Inr k else Inl (Raised ValueError))"

definition signing_key :: "sign_env \<Rightarrow> job_error + string" where
  "signing_key env =
     (if sv_private_setting env \<noteq> [] then key_bytes env (sv_private_setting env)
      else if sv_dev env then Inr (sv_dev_seed env) else Inl (JobVerificationError NoPrivateKey))"

definition checking_key :: "sign_env \<Rightarrow> job_error + string" where
  "checking_key env =
     (if sv_public_setting env \<noteq> [] then key_bytes env (sv_public_setting env)
      else if sv_dev env then Inr (sv_public_of env (sv_dev_seed env)) else Inl (JobVerificationError NoPublicKey))"

definition canonical_job :: "jval \<Rightarrow> string \<Rightarrow> string \<Rightarrow> string \<Rightarrow> string" where
  "canonical_job job issued expires nonce =
     json_dumps (JObj [(''job'', job), (''issued_at'', JStr issued), (''expires_at'', JStr expires), (''nonce'', JStr nonce)])"

text \<open>The envelope; the nonce is drawn at random.\<close>

definition sign_job :: "sign_env \<Rightarrow> int \<Rightarrow> string \<Rightarrow> int \<Rightarrow> jobj \<Rightarrow> job_error + jobj" where
  "sign_job env now nonce ttl job_wire =
     (let issued = sv_iso env now; expires = sv_iso env (now + seconds ttl)
      in bind_r (signing_key env) (\<lambda>k.
           Inr [(''job'', JObj job_wire), (''issued_at'', JStr issued), (''expires_at'', JStr expires), (''nonce'', JStr nonce),
                (''sig'', JStr (sv_b64e env (sv_sign env k (canonical_job (JObj job_wire) issued expires nonce))))]))"

record envelope =
  ev_job :: jval
  ev_issued_at :: string
  ev_expires_at :: string
  ev_nonce :: string
  ev_signature :: string

definition open_envelope :: "sign_env \<Rightarrow> jval \<Rightarrow> job_error + envelope" where
  "open_envelope env msg =
     (case msg of
        JObj d \<Rightarrow>
          (case (dict_get d ''job'', dict_get d ''issued_at'', dict_get d ''expires_at'', dict_get d ''nonce'',
                 Option.bind (dict_get d ''sig'') (\<lambda>v. case v of JStr s \<Rightarrow> sv_b64d env s | _ \<Rightarrow> None)) of
             (Some job, Some issued, Some expires, Some nonce, Some sig) \<Rightarrow>
               Inr \<lparr>ev_job = job, ev_issued_at = py_str issued, ev_expires_at = py_str expires, ev_nonce = py_str nonce, ev_signature = sig\<rparr>
           | _ \<Rightarrow> Inl (JobVerificationError MalformedEnvelope))
      | _ \<Rightarrow> Inl (JobVerificationError MalformedEnvelope))"

text \<open>An instant as \<open>timestamp()\<close> gives it, and how long a nonce is kept.\<close>

definition timestamp :: "int \<Rightarrow> rat" where "timestamp t = fl (of_int t / 1000000)"

definition nonce_ttl :: "int \<Rightarrow> int \<Rightarrow> int" where
  "nonce_ttl expires now = (let left = fl (timestamp expires - timestamp now) in if 1 < left then \<lfloor>left\<rfloor> else 1)"

text \<open>A time without a zone cannot be compared with the clock.\<close>

definition check_times :: "sign_env \<Rightarrow> envelope \<Rightarrow> int \<Rightarrow> job_error + int" where
  "check_times env e now =
     (case (sv_from_iso env (ev_expires_at e), sv_from_iso env (ev_issued_at e)) of
        (Some expires, Some issued) \<Rightarrow>
          (case expires of
             Naive _ \<Rightarrow> Inl (Raised TypeError)
           | Aware ex \<Rightarrow>
               if ex < now then Inl (JobVerificationError ExpiredJob)
               else case issued of
                   Naive _ \<Rightarrow> Inl (Raised TypeError)
                 | Aware iss \<Rightarrow> if now + seconds MAX_FUTURE_SKEW < iss then Inl (JobVerificationError IssuedInFuture) else Inr ex)
      | _ \<Rightarrow> Inl (JobVerificationError BadTimestamps))"

definition check_signature :: "sign_env \<Rightarrow> envelope \<Rightarrow> job_error + unit" where
  "check_signature env e =
     bind_r (checking_key env) (\<lambda>k.
       if sv_verify env k (ev_signature e) (canonical_job (ev_job e) (ev_issued_at e) (ev_expires_at e) (ev_nonce e)) then Inr ()
       else Inl (JobVerificationError BadSignature))"

text \<open>The clock is read once for the times and again when the nonce is reserved.\<close>

definition verify_job ::
    "sign_env \<Rightarrow> (string \<Rightarrow> int \<Rightarrow> int \<Rightarrow> 's \<Rightarrow> bool option \<times> 's) \<Rightarrow> jval \<Rightarrow> int \<Rightarrow> int \<Rightarrow> 's \<Rightarrow> (job_error + jobj) \<times> 's" where
  "verify_job env reserve msg now now' st =
     (case bind_r (open_envelope env msg) (\<lambda>e. bind_r (check_times env e now) (\<lambda>ex. bind_r (check_signature env e) (\<lambda>_. Inr (e, ex)))) of
        Inl err \<Rightarrow> (Inl err, st)
      | Inr (e, ex) \<Rightarrow>
          (case reserve (ev_nonce e) (nonce_ttl ex now) now' st of
             (None, st') \<Rightarrow> (Inl (JobVerificationError ReplayStoreUnavailable), st')
           | (Some fresh, st') \<Rightarrow>
               (if \<not> fresh then Inl (JobVerificationError ReplayedNonce)
                else case ev_job e of JObj d \<Rightarrow> Inr d | _ \<Rightarrow> Inl (JobVerificationError MalformedJob), st')))"

subsection \<open>A store that grants a nonce once\<close>

fun verify_all ::
    "sign_env \<Rightarrow> (string \<Rightarrow> int \<Rightarrow> int \<Rightarrow> 's \<Rightarrow> bool option \<times> 's) \<Rightarrow> (jval \<times> int \<times> int) list \<Rightarrow> 's \<Rightarrow> 's" where
  "verify_all env reserve [] st = st"
| "verify_all env reserve ((m, now, now') # as) st = verify_all env reserve as (snd (verify_job env reserve m now now' st))"

lemma verify_job_cases:
  "snd (verify_job env reserve m now now' st) = st \<or> (\<exists>n ttl. snd (verify_job env reserve m now now' st) = snd (reserve n ttl now' st))"
  by (auto simp: verify_job_def split: sum.splits prod.splits option.splits) (metis snd_conv)+

lemma verify_job_accepts:
  assumes "verify_job env reserve m now now' st = (Inr job, st')"
  obtains e ex where "open_envelope env m = Inr e" "check_times env e now = Inr ex" "check_signature env e = Inr ()"
    "reserve (ev_nonce e) (nonce_ttl ex now) now' st = (Some True, st')" "ev_job e = JObj job"
  using assms by (auto simp: verify_job_def split: sum.splits prod.splits option.splits if_splits jval.splits)

locale nonce_store =
  fixes reserve :: "string \<Rightarrow> int \<Rightarrow> int \<Rightarrow> 's \<Rightarrow> bool option \<times> 's" and held :: "'s \<Rightarrow> string \<Rightarrow> int \<Rightarrow> bool"
  assumes refuses: "held s n now \<Longrightarrow> fst (reserve n ttl now s) \<noteq> Some True"
    and takes: "fst (reserve n ttl now s) = Some True \<Longrightarrow> now \<le> t \<Longrightarrow> t < now + seconds ttl \<Longrightarrow> held (snd (reserve n ttl now s)) n t"
    and keeps: "held s n t \<Longrightarrow> now \<le> t \<Longrightarrow> held (snd (reserve n' ttl now s)) n t"
begin

lemma held_run:
  "held st n t \<Longrightarrow> (\<And>m now now'. (m, now, now') \<in> set as \<Longrightarrow> now' \<le> t) \<Longrightarrow> held (verify_all env reserve as st) n t"
proof (induction as arbitrary: st)
  case (Cons a as)
  obtain m now now' where a: "a = (m, now, now')" by (cases a)
  have "now' \<le> t" using Cons.prems(2) by (auto simp: a)
  then have "held (snd (verify_job env reserve m now now' st)) n t"
    using verify_job_cases [of env reserve m now now' st] keeps [OF Cons.prems(1)] Cons.prems(1) by auto
  then show ?case using Cons.IH Cons.prems(2) by (auto simp: a)
qed simp

lemma accepted_apart:
  assumes first: "verify_job env reserve m now now' st = (Inr job, st1)" "open_envelope env m = Inr e" "check_times env e now = Inr ex"
    and between: "\<And>m now now'. (m, now, now') \<in> set as \<Longrightarrow> now' \<le> later'"
    and second: "verify_job env reserve m2 later later' (verify_all env reserve as st1) = (Inr job2, st2)"
      "open_envelope env m2 = Inr e2" "ev_nonce e2 = ev_nonce e" "now' \<le> later'"
  shows "now' + seconds (nonce_ttl ex now) \<le> later'"
proof (rule ccontr)
  assume early: "\<not> now' + seconds (nonce_ttl ex now) \<le> later'"
  have granted: "reserve (ev_nonce e) (nonce_ttl ex now) now' st = (Some True, st1)"
    using verify_job_accepts [OF first(1)] first(2,3) by (metis sum.inject(2))
  then have "held st1 (ev_nonce e) later'" using takes [of "ev_nonce e" _ now' st later'] early second(4) by (metis fst_conv linorder_not_le snd_conv)
  then have "held (verify_all env reserve as st1) (ev_nonce e) later'" using between by (rule held_run)
  moreover obtain ttl where "fst (reserve (ev_nonce e) ttl later' (verify_all env reserve as st1)) = Some True"
    using verify_job_accepts [OF second(1)] second(2,3) by (metis fst_conv sum.inject(2))
  ultimately show False using refuses by blast
qed

end

definition local_held :: "(string, int) odict \<Rightarrow> string \<Rightarrow> int \<Rightarrow> bool" where
  "local_held seen n t \<longleftrightarrow> (\<exists>v. dict_get seen n = Some v \<and> t < v)"

definition reserve_here :: "string \<Rightarrow> int \<Rightarrow> int \<Rightarrow> (string, int) odict \<Rightarrow> bool option \<times> (string, int) odict" where
  "reserve_here nonce ttl now seen = map_prod Some id (reserve_local nonce ttl now seen)"

lemma map_of_filter_kept: "dict_get d n = Some v \<Longrightarrow> P (n, v) \<Longrightarrow> dict_get (filter P d) n = Some v"
  by (induction d) (auto split: if_splits)

lemma local_swept: "local_held seen n t \<Longrightarrow> now \<le> t \<Longrightarrow> local_held (sweep_local now seen) n t"
proof -
  assume "local_held seen n t" "now \<le> t"
  then obtain v where v: "dict_get seen n = Some v" "t < v" "now < v" by (auto simp: local_held_def)
  then have "dict_get (filter (\<lambda>(k, v). \<not> v \<le> now) seen) n = Some v" by (intro map_of_filter_kept) auto
  then show ?thesis using v by (auto simp: sweep_local_def local_held_def)
qed

interpretation local_store: nonce_store reserve_here local_held
proof unfold_locales
  fix s n now ttl
  assume "local_held s n now"
  from local_swept [OF this order_refl] show "fst (reserve_here n ttl now s) \<noteq> Some True"
    by (auto simp: reserve_here_def reserve_local_def local_held_def Let_def split: option.splits)
next
  fix s n now ttl t
  assume "fst (reserve_here n ttl now s) = Some True" "now \<le> t" "t < now + seconds ttl"
  then show "local_held (snd (reserve_here n ttl now s)) n t"
    by (auto simp: reserve_here_def reserve_local_def local_held_def Let_def split: option.splits if_splits)
next
  fix s n now ttl t n'
  assume "local_held s n t" "now \<le> t"
  from local_swept [OF this] this show "local_held (snd (reserve_here n' ttl now s)) n t"
    by (auto simp: reserve_here_def reserve_local_def local_held_def Let_def split: option.splits if_splits)
qed

text \<open>In production the shared store alone decides.\<close>

lemma reserve_nonce_production:
  "fst (reserve_nonce False redis n ttl now st) = fst (redis (KEY_PREFIX @ n) (max 1 ttl) now (fst st))"
  "fst (snd (reserve_nonce False redis n ttl now st)) = snd (redis (KEY_PREFIX @ n) (max 1 ttl) now (fst st))"
  by (simp_all add: reserve_nonce_def Let_def split: prod.splits option.splits)

lemma production_store:
  assumes "nonce_store redis held"
  shows "nonce_store (reserve_nonce False redis) (\<lambda>st n t. held (fst st) (KEY_PREFIX @ n) t)"
proof (rule nonce_store.intro)
  fix s :: "'a \<times> (string, int) odict" and n now ttl t
  show "held (fst s) (KEY_PREFIX @ n) now \<Longrightarrow> fst (reserve_nonce False redis n ttl now s) \<noteq> Some True"
    by (simp add: reserve_nonce_production nonce_store.refuses [OF assms])
  show "held (fst (snd (reserve_nonce False redis n ttl now s))) (KEY_PREFIX @ n) t"
    if "fst (reserve_nonce False redis n ttl now s) = Some True" "now \<le> t" "t < now + seconds ttl"
    using that by (simp add: reserve_nonce_production) (rule nonce_store.takes [OF assms], auto simp: seconds_def)
next
  fix s :: "'a \<times> (string, int) odict" and n now ttl t n'
  show "held (fst s) (KEY_PREFIX @ n) t \<Longrightarrow> now \<le> t \<Longrightarrow> held (fst (snd (reserve_nonce False redis n' ttl now s))) (KEY_PREFIX @ n) t"
    by (simp add: reserve_nonce_production nonce_store.keeps [OF assms])
qed

lemma timestamp_near: "0 \<le> t \<Longrightarrow> t < 10 ^ 16 \<Longrightarrow> \<bar>timestamp t - of_int t / 1000000\<bar> \<le> 1 / 2 ^ 19"
proof -
  assume t: "0 \<le> t" "t < 10 ^ 16"
  have "(of_int t :: rat) < of_int (10 ^ 16)" using t(2) by (simp only: of_int_less_iff)
  then have "of_int t / 1000000 < pow2 34" by (simp add: pow2_def field_simps)
  then have "\<bar>timestamp t - of_int t / 1000000\<bar> \<le> pow2 (34 - 53)" unfolding timestamp_def using t(1) by (intro fl_error) auto
  then show ?thesis by (simp add: pow2_def)
qed

lemma near_diff: "\<bar>p - a\<bar> \<le> 1 / 2 ^ 19 \<Longrightarrow> \<bar>q - b\<bar> \<le> 1 / 2 ^ 19 \<Longrightarrow> \<bar>p - q - (a - b)\<bar> \<le> 1 / 2 ^ 18" for p q a b :: rat
  unfolding abs_le_iff by simp

lemma near_sum: "\<bar>p - a\<bar> \<le> u \<Longrightarrow> \<bar>a - b\<bar> \<le> v \<Longrightarrow> b - p \<le> u + v" for p a b u v :: rat
  by linarith

lemma nonce_ttl_long:
  assumes "0 \<le> now" "now \<le> ex" "ex < 10 ^ 16"
  shows "ex < now + seconds (nonce_ttl ex now) + seconds 1 + 10"
proof -
  let ?d = "timestamp ex - timestamp now" and ?x = "of_int (ex - now) / 1000000 :: rat"
  have near: "\<bar>?d - ?x\<bar> \<le> 1 / 2 ^ 18"
    using near_diff [OF timestamp_near [of ex] timestamp_near [of now]] assms by (simp add: diff_divide_distrib)
  have mono: "0 \<le> ?d" unfolding timestamp_def using fl_mono [of "of_int now / 1000000" "of_int ex / 1000000"] assms(2) by (simp add: divide_right_mono)
  have "?x < 10 ^ 10" 
  proof -
    have "(of_int (ex - now) :: rat) < of_int (10 ^ 16)" using assms by (simp only: of_int_less_iff)
    then show ?thesis by (simp add: field_simps)
  qed
  moreover have "?d - ?x \<le> 1 / 2 ^ 18" using near by (rule abs_le_D1)
  ultimately have "?d < 10 ^ 10 + 1 / 2 ^ 18" by linarith
  then have "?d < pow2 34" by (simp add: pow2_def)
  then have "\<bar>fl ?d - ?d\<bar> \<le> pow2 (34 - 53)" using mono by (intro fl_error) auto
  from near_sum [OF this near] have "?x - fl ?d \<le> pow2 (34 - 53) + 1 / 2 ^ 18" .
  moreover have "pow2 (34 - 53) + 1 / 2 ^ 18 \<le> (6 / 1000000 :: rat)" by (simp add: pow2_def)
  ultimately have left: "?x \<le> fl ?d + 6 / 1000000" by linarith
  have "fl ?d < of_int (nonce_ttl ex now) + 1"
    using floor_correct [of "fl ?d"] by (cases "1 < fl ?d") (simp_all add: nonce_ttl_def Let_def)
  then have "?x < of_int (nonce_ttl ex now) + 1 + 6 / 1000000" using left by linarith
  then have "(of_int (ex - now) :: rat) < of_int (seconds (nonce_ttl ex now) + seconds 1 + 6)" by (simp add: seconds_def field_simps)
  then show ?thesis unfolding of_int_less_iff by simp
qed

text \<open>C33: An envelope that was accepted is refused until its last second.  In production, with a shared store that keeps a nonce for
  the time it was asked to, let an envelope be accepted, and any envelopes be presented later; when one with the same
  nonce is accepted again, the first envelope expires at most one second (and ten microseconds, by floating point) after that.\<close>

theorem accepted_again_only_at_the_end:
  assumes "nonce_store redis held" "verify_job env (reserve_nonce False redis) m now now' st = (Inr job, st1)"
    and "\<And>m now now'. (m, now, now') \<in> set as \<Longrightarrow> now' \<le> later'" "now' \<le> later'"
    and "verify_job env (reserve_nonce False redis) m2 later later' (verify_all env (reserve_nonce False redis) as st1) = (Inr job2, st2)"
    and "open_envelope env m = Inr e" "open_envelope env m2 = Inr e2" "ev_nonce e2 = ev_nonce e"
    and "sv_from_iso env (ev_expires_at e) = Some (Aware ex)" "0 \<le> now" "now \<le> now'" "ex < 10 ^ 16"
  shows "ex < later' + seconds 1 + 10"
proof -
  have times: "check_times env e now = Inr ex" "now \<le> ex"
  proof -
    obtain ex' where t: "check_times env e now = Inr ex'" using verify_job_accepts [OF assms(2)] assms(6) by (metis sum.inject(2))
    then have "ex' = ex \<and> now \<le> ex" using assms(9) by (simp add: check_times_def split: option.splits py_datetime.splits if_splits)
    then show "check_times env e now = Inr ex" "now \<le> ex" using t by simp_all
  qed
  have "now' + seconds (nonce_ttl ex now) \<le> later'"
    by (rule nonce_store.accepted_apart [OF production_store [OF assms(1)] assms(2,6) times(1) assms(3,5,7,8,4)])
  then show ?thesis using nonce_ttl_long [OF assms(10) times(2) assms(12)] assms(11) by linarith
qed

text \<open>C32: An accepted job was signed by the control plane, for now.  When the key only verifies texts that were signed, a job is
  accepted only if its content, its times and its nonce were signed together, it has not expired and it was
  issued at most a minute ahead of the clock.  A job that fails any of these takes no nonce.\<close>

theorem accepted_job_was_signed:
  assumes "checking_key env = Inr k" "\<And>sig text. sv_verify env k sig text \<Longrightarrow> text \<in> signed_texts"
  shows "case verify_job env reserve m now now' st of
      (Inr job, st') \<Rightarrow> \<exists>issued expires nonce iss ex. canonical_job (JObj job) issued expires nonce \<in> signed_texts \<and>
        sv_from_iso env expires = Some (Aware ex) \<and> now \<le> ex \<and>
        sv_from_iso env issued = Some (Aware iss) \<and> iss \<le> now + seconds 60 \<and> reserve nonce (nonce_ttl ex now) now' st = (Some True, st')
    | (Inl err, st') \<Rightarrow> err \<in> JobVerificationError ` {ReplayStoreUnavailable, ReplayedNonce, MalformedJob} \<or> st' = st"
proof (cases "verify_job env reserve m now now' st")
  case (Pair r st')
  show ?thesis
  proof (cases r)
    case (Inl err)
    then show ?thesis using Pair by (auto simp: verify_job_def split: sum.splits prod.splits option.splits if_splits jval.splits)
  next
    case (Inr job)
    then obtain e ex where e: "check_times env e now = Inr ex" "check_signature env e = Inr ()"
        "reserve (ev_nonce e) (nonce_ttl ex now) now' st = (Some True, st')" "ev_job e = JObj job"
      using verify_job_accepts Pair by metis
    have "canonical_job (JObj job) (ev_issued_at e) (ev_expires_at e) (ev_nonce e) \<in> signed_texts"
      using e(2,4) assms by (auto simp: check_signature_def split: if_splits)
    moreover have "\<exists>iss. sv_from_iso env (ev_expires_at e) = Some (Aware ex) \<and> now \<le> ex \<and>
        sv_from_iso env (ev_issued_at e) = Some (Aware iss) \<and> iss \<le> now + seconds 60"
      using e(1) by (auto simp: check_times_def MAX_FUTURE_SKEW_def split: option.splits py_datetime.splits if_splits)
    ultimately show ?thesis unfolding Pair Inr prod.case sum.case using e(3) by blast
  qed
qed

text \<open>The two planes: what one signs the other can check.\<close>

definition key_pair :: "sign_env \<Rightarrow> sign_env \<Rightarrow> bool" where
  "key_pair s c \<longleftrightarrow> (\<forall>x. sv_b64d c (sv_b64e s x) = Some x) \<and> (\<forall>t. sv_from_iso c (sv_iso s t) = Some (Aware t)) \<and>
     (\<forall>k. signing_key s = Inr k \<longrightarrow> (\<exists>k'. checking_key c = Inr k' \<and> (\<forall>text. sv_verify c k' (sv_sign s k text) text)))"

lemma open_signed:
  assumes "\<forall>x. sv_b64d c (sv_b64e s x) = Some x" "sign_job s t nonce ttl w = Inr d"
  shows "\<exists>k. signing_key s = Inr k \<and> open_envelope c (JObj d) =
     Inr \<lparr>ev_job = JObj w, ev_issued_at = sv_iso s t, ev_expires_at = sv_iso s (t + seconds ttl), ev_nonce = nonce,
          ev_signature = sv_sign s k (canonical_job (JObj w) (sv_iso s t) (sv_iso s (t + seconds ttl)) nonce)\<rparr>"
  using assms by (auto simp: sign_job_def open_envelope_def Let_def)

lemma verify_signed:
  assumes "key_pair s c" "sign_job s t nonce ttl w = Inr d" "t \<le> now + seconds 60" "now \<le> t + seconds ttl"
    and "reserve nonce (nonce_ttl (t + seconds ttl) now) now' st = (Some True, st')"
  shows "verify_job c reserve (JObj d) now now' st = (Inr w, st')"
proof -
  obtain k where k: "signing_key s = Inr k" and e: "open_envelope c (JObj d) =
     Inr \<lparr>ev_job = JObj w, ev_issued_at = sv_iso s t, ev_expires_at = sv_iso s (t + seconds ttl), ev_nonce = nonce,
          ev_signature = sv_sign s k (canonical_job (JObj w) (sv_iso s t) (sv_iso s (t + seconds ttl)) nonce)\<rparr>" (is "_ = Inr ?e")
    using open_signed [OF _ assms(2)] assms(1) unfolding key_pair_def by blast
  have "check_times c ?e now = Inr (t + seconds ttl)" using assms(1,3,4) by (simp add: check_times_def MAX_FUTURE_SKEW_def key_pair_def)
  moreover have "check_signature c ?e = Inr ()" using assms(1) k by (auto simp: check_signature_def key_pair_def)
  ultimately show ?thesis using e assms(5) by (auto simp: verify_job_def split: prod.splits option.splits)
qed

text \<open>What the control plane signs, the execution plane accepts.  Let the two planes hold the two keys of a pair.  Then a signed
  job, presented after it was issued or up to a minute before and not after it expires, with a nonce the store grants, is
  accepted and is the job that was signed.\<close>

theorem signed_job_is_accepted:
  assumes "key_pair s c" "sign_job s t nonce ttl w = Inr d" "t \<le> now + seconds 60" "now \<le> t + seconds ttl"
    and "fst (reserve nonce (nonce_ttl (t + seconds ttl) now) now' st) = Some True"
  shows "fst (verify_job c reserve (JObj d) now now' st) = Inr w"
proof -
  obtain st' where "reserve nonce (nonce_ttl (t + seconds ttl) now) now' st = (Some True, st')" using assms(5) by (metis prod.collapse)
  from verify_signed [where reserve = reserve, OF assms(1-4) this] show ?thesis by simp
qed

subsection \<open>An envelope taken twice\<close>

definition demo_signing :: sign_env where
  "demo_signing = \<lparr>sv_b64e = id, sv_b64d = Some, sv_public_of = id, sv_sign = (@), sv_verify = (\<lambda>k s m. s = k @ m),
     sv_iso = (\<lambda>t. if t = 0 then ''a'' else if t = 300000000 then ''b'' else str_int t),
     sv_from_iso = (\<lambda>s. if s = ''a'' then Some (Aware 0) else if s = ''b'' then Some (Aware 300000000) else map_option Aware (py_int s)),
     sv_dev_seed = ''k'', sv_private_setting = [], sv_public_setting = [], sv_dev = True\<rparr>"

definition demo_job_wire :: jobj where "demo_job_wire = [(''tool_key'', JStr ''nmap'')]"

definition demo_signed :: jval where
  "demo_signed = JObj [(''job'', JObj demo_job_wire), (''issued_at'', JStr ''a''), (''expires_at'', JStr ''b''), (''nonce'', JStr ''n''),
     (''sig'', JStr (CHR ''k'' # canonical_job (JObj demo_job_wire) ''a'' ''b'' ''n''))]"

lemma sign_demo: "sign_job demo_signing 0 ''n'' 300 demo_job_wire = Inr (case demo_signed of JObj d \<Rightarrow> d)"
  by (simp add: sign_job_def demo_signing_def demo_signed_def signing_key_def Let_def seconds_def)

lemma demo_ttl: "nonce_ttl 300000000 500000 = 299"
proof -
  have "timestamp 300000000 = 300" using fl_of_int [of 300] by (simp add: timestamp_def)
  moreover have "timestamp 500000 = 1 / 2" using fl_half_int [of 0] by (simp add: timestamp_def del: divide_eq_eq_numeral1 eq_divide_eq_numeral1)
  moreover have "fl (300 - 1 / 2) = 300 - 1 / 2" using fl_half_int [of 299] by simp
  ultimately have "fl (timestamp 300000000 - timestamp 500000) = 300 - 1 / 2" by (simp only:)
  then have "fl (timestamp 300000000 - timestamp 500000) = 599 / 2" by simp
  then show ?thesis by (simp add: nonce_ttl_def Let_def floor_eq_iff)
qed

definition demo_opened :: envelope where
  "demo_opened = \<lparr>ev_job = JObj demo_job_wire, ev_issued_at = ''a'', ev_expires_at = ''b'', ev_nonce = ''n'',
     ev_signature = CHR ''k'' # canonical_job (JObj demo_job_wire) ''a'' ''b'' ''n''\<rparr>"

lemma demo_envelope:
  "open_envelope demo_signing demo_signed = Inr demo_opened"
  "now \<le> 300000000 \<Longrightarrow> - 60000000 \<le> now \<Longrightarrow> check_times demo_signing demo_opened now = Inr 300000000"
  "check_signature demo_signing demo_opened = Inr ()"
  by (simp_all add: open_envelope_def demo_signed_def demo_opened_def check_times_def check_signature_def demo_signing_def
      MAX_FUTURE_SKEW_def seconds_def checking_key_def)

lemma demo_verify:
  "now \<le> 300000000 \<Longrightarrow> - 60000000 \<le> now \<Longrightarrow> reserve ''n'' (nonce_ttl 300000000 now) now' st = (Some True, st') \<Longrightarrow>
   verify_job demo_signing reserve demo_signed now now' st = (Inr demo_job_wire, st')"
  using demo_envelope by (simp add: verify_job_def demo_opened_def)

abbreviation demo_store :: "string \<Rightarrow> int \<Rightarrow> int \<Rightarrow> (string, int) odict \<times> (string, int) odict \<Rightarrow> bool option \<times> (string, int) odict \<times> (string, int) odict" where
  "demo_store \<equiv> reserve_nonce False reserve_here"

lemma demo_reserve:
  "demo_store ''n'' 299 500000 ([], []) = (Some True, [(KEY_PREFIX @ ''n'', 299500000)], [])"
  "299500000 \<le> t \<Longrightarrow> fst (demo_store ''n'' ttl t ([(KEY_PREFIX @ ''n'', 299500000)], [])) = Some True"
  by (simp_all add: reserve_nonce_def reserve_here_def reserve_local_def sweep_local_def LOCAL_MAX_def Let_def seconds_def)

text \<open>The nonce is kept for whole seconds, so the last fraction of a second admits the same envelope again.\<close>

lemma envelope_accepted_twice:
  "\<exists>st. verify_job demo_signing demo_store demo_signed 500000 500000 ([], []) = (Inr demo_job_wire, st) \<and>
        fst (verify_job demo_signing demo_store demo_signed 299700000 299700000 st) = Inr demo_job_wire"
proof -
  have one: "verify_job demo_signing demo_store demo_signed 500000 500000 ([], []) = (Inr demo_job_wire, [(KEY_PREFIX @ ''n'', 299500000)], [])"
    by (rule demo_verify) (simp_all add: demo_ttl demo_reserve(1))
  have "fst (demo_store ''n'' (nonce_ttl 300000000 299700000) 299700000 ([(KEY_PREFIX @ ''n'', 299500000)], [])) = Some True"
    by (rule demo_reserve(2)) simp
  then obtain st' where "demo_store ''n'' (nonce_ttl 300000000 299700000) 299700000 ([(KEY_PREFIX @ ''n'', 299500000)], []) = (Some True, st')"
    by (cases "demo_store ''n'' (nonce_ttl 300000000 299700000) 299700000 ([(KEY_PREFIX @ ''n'', 299500000)], [])") simp
  then have "verify_job demo_signing demo_store demo_signed 299700000 299700000 ([(KEY_PREFIX @ ''n'', 299500000)], []) = (Inr demo_job_wire, st')"
    by (intro demo_verify) simp_all
  then show ?thesis using one by auto
qed

lemma accepted_again_only_at_the_end_witness:
  "\<exists>st st2. verify_job demo_signing demo_store demo_signed 500000 500000 ([], []) = (Inr demo_job_wire, st) \<and>
     verify_job demo_signing demo_store demo_signed 299700000 299700000 st = (Inr demo_job_wire, st2) \<and>
     (300000000 :: int) < 299700000 + seconds 1 + 10"
proof -
  obtain st where st: "verify_job demo_signing demo_store demo_signed 500000 500000 ([], []) = (Inr demo_job_wire, st)"
      "fst (verify_job demo_signing demo_store demo_signed 299700000 299700000 st) = Inr demo_job_wire"
    using envelope_accepted_twice by blast
  then obtain st2 where two: "verify_job demo_signing demo_store demo_signed 299700000 299700000 st = (Inr demo_job_wire, st2)"
    by (metis prod.collapse)
  have "(300000000 :: int) < 299700000 + seconds 1 + 10"
    by (rule accepted_again_only_at_the_end [OF local_store.nonce_store_axioms st(1), of "[]" 299700000 demo_signed 299700000 demo_job_wire st2 demo_opened demo_opened])
       (simp_all add: two demo_envelope, simp_all add: demo_opened_def demo_signing_def)
  then show ?thesis using st(1) two by blast
qed

text \<open>A key that verifies one text only.\<close>

definition demo_text :: string where "demo_text = canonical_job (JObj demo_job_wire) ''a'' ''b'' ''n''"

lemma accepted_job_was_signed_witness:
  "\<exists>issued expires nonce. canonical_job (JObj demo_job_wire) issued expires nonce \<in> {demo_text}"
proof -
  let ?env = "demo_signing\<lparr>sv_verify := (\<lambda>k s m. s = k @ m \<and> m = demo_text)\<rparr>"
  have k: "checking_key ?env = Inr ''k''" by (simp add: checking_key_def demo_signing_def)
  have "open_envelope ?env demo_signed = Inr demo_opened" "check_times ?env demo_opened 500000 = Inr 300000000" "check_signature ?env demo_opened = Inr ()"
    by (simp_all add: open_envelope_def demo_signed_def demo_opened_def check_times_def check_signature_def demo_signing_def
        MAX_FUTURE_SKEW_def seconds_def checking_key_def demo_text_def)
  then have "fst (verify_job ?env demo_store demo_signed 500000 500000 ([], [])) = Inr demo_job_wire"
    by (simp add: verify_job_def) (simp add: demo_opened_def demo_ttl demo_reserve(1))
  then show ?thesis
    using accepted_job_was_signed [OF k, where signed_texts = "{demo_text}" and reserve = demo_store and m = demo_signed and now = 500000
        and now' = 500000 and st = "([], [])"]
    by (cases "verify_job ?env demo_store demo_signed 500000 500000 ([], [])") auto
qed

definition unary :: "int \<Rightarrow> string" where
  "unary t = (if t < 0 then replicate (nat (- t)) (CHR ''-'') else replicate (nat t) (CHR ''+''))"

definition of_unary :: "string \<Rightarrow> int" where
  "of_unary s = (if \<exists>c \<in> set s. c = CHR ''-'' then - int (length s) else int (length s))"

lemma of_unary_unary: "of_unary (unary t) = t" by (auto simp: of_unary_def unary_def)

definition unary_signing :: sign_env where
  "unary_signing = demo_signing\<lparr>sv_iso := unary, sv_from_iso := (\<lambda>s. Some (Aware (of_unary s)))\<rparr>"

lemma unary_signing_simps: "sv_b64e unary_signing = id" "sv_b64d unary_signing = Some" "sv_iso unary_signing = unary"
  "sv_from_iso unary_signing = (\<lambda>s. Some (Aware (of_unary s)))" "sv_verify unary_signing k s t = (s = k @ t)"
  "sv_sign unary_signing k t = k @ t" "sv_public_of unary_signing k = k" "signing_key unary_signing = Inr ''k''" "checking_key unary_signing = Inr ''k''"
  by (simp_all add: unary_signing_def demo_signing_def signing_key_def checking_key_def)

lemma signed_job_is_accepted_witness:
  "\<exists>d. sign_job unary_signing 0 ''n'' 300 demo_job_wire = Inr d \<and>
       fst (verify_job unary_signing demo_store (JObj d) 500000 500000 ([], [])) = Inr demo_job_wire"
proof -
  obtain d where d: "sign_job unary_signing 0 ''n'' 300 demo_job_wire = Inr d" by (simp add: sign_job_def unary_signing_simps Let_def)
  have "key_pair unary_signing unary_signing" by (simp add: key_pair_def unary_signing_simps of_unary_unary)
  from signed_job_is_accepted [OF this d, of 500000 demo_store 500000 "([], [])"]
  have "fst (verify_job unary_signing demo_store (JObj d) 500000 500000 ([], [])) = Inr demo_job_wire"
    by (simp add: seconds_def demo_ttl demo_reserve(1))
  then show ?thesis using d by blast
qed

end
