(* ===== verification/Canonical.thy ===== *)
theory Canonical
  imports PyNet PyValue Enums
begin

text \<open>
  \<open>guardian_core/canonicalize.py\<close>, the identity key of a node, and what binds an asset to a host:
  \<open>_asset_host\<close> of \<open>guardian_scanner/discovery/enricher.py\<close>.  Host names are ASCII, which the IDNA codec leaves as they are.
\<close>

definition canon_host :: "string \<Rightarrow> string" where
  "canon_host host =
     (let h = py_lower (rstrip_by (\<lambda>c. c = CHR ''.'') (py_strip host))
      in if startswith h ''*.'' then drop 2 h else h)"

definition canon_ip :: "string \<Rightarrow> string" where
  "canon_ip raw = (case parse_ip (py_strip raw) of Some a \<Rightarrow> str_ip a | None \<Rightarrow> py_lower (py_strip raw))"

fun str_network :: "ip_network \<Rightarrow> string" where
  "str_network (Net4 n p) = str_ip4 n @ ''/'' @ str_int (int p)"
| "str_network (Net6 n p) = str_ip6 n @ ''/'' @ str_int (int p)"

definition canon_netblock :: "string \<Rightarrow> string" where
  "canon_netblock raw = (case parse_network (py_strip raw) of Some n \<Rightarrow> str_network n | None \<Rightarrow> py_lower (py_strip raw))"

definition canon_service :: "string \<Rightarrow> string" where
  "canon_service raw =
     (let s = py_strip raw; (host, sep, port) = rpartition_on (CHR '':'') s
      in if \<not> sep \<or> \<not> str_isdigit port then canon_host s
         else let host = strip_by (\<lambda>c. c \<in> set ''[]'') host;
                  host_c = (case parse_ip host of Some a \<Rightarrow> str_ip a | None \<Rightarrow> canon_host host)
              in host_c @ '':'' @ str_int (int_of_digits port))"

definition canonical_key :: "string \<Rightarrow> string \<Rightarrow> string" where
  "canonical_key nt raw =
     (if nt = node_type_value NodeDomain \<or> nt = node_type_value NodeSubdomain then canon_host raw
      else if nt = node_type_value NodeIpAddress then canon_ip raw
      else if nt = node_type_value NodeNetblock then canon_netblock raw
      else if nt = node_type_value NodeService then canon_service raw
      else if nt = node_type_value NodeCloudResource then py_strip raw
      else py_lower (py_strip raw))"

definition HOST_ASSET_KINDS :: "string list" where "HOST_ASSET_KINDS = [''web'', ''api'']"

text \<open>The host of an asset; a malformed URL raises.\<close>

definition asset_host :: "string \<Rightarrow> string option \<Rightarrow> py_error + string option" where
  "asset_host kind identifier =
     (if kind \<notin> set HOST_ASSET_KINDS then Inr None
      else case urlparse (case identifier of Some s \<Rightarrow> s | None \<Rightarrow> []) of
          None \<Rightarrow> Inl ValueError
        | Some u \<Rightarrow> (case url_hostname u of
              None \<Rightarrow> Inr None
            | Some h \<Rightarrow> if h = [] \<or> parse_ip h \<noteq> None then Inr None
                else Inr (Some (canonical_key (node_type_value NodeSubdomain) h))))"

subsection \<open>Canonical hosts\<close>

text \<open>A name that is its own key.\<close>

definition canon_form :: "string \<Rightarrow> bool" where
  "canon_form h \<longleftrightarrow> py_strip h = h \<and> py_lower h = h \<and> \<not> endswith h ''.'' \<and> \<not> startswith h ''*.''"

lemma rstrip_dots: "x \<noteq> [] \<Longrightarrow> \<not> P (last x) \<Longrightarrow> list_all P d \<Longrightarrow> rstrip_by P (x @ d) = x"
proof (induction d rule: rev_induct)
  case Nil
  then show ?case by (cases x rule: rev_cases) (auto simp: rstrip_by_snoc)
next
  case (snoc c d)
  then have "rstrip_by P ((x @ d) @ [c]) = rstrip_by P (x @ d)" by (subst rstrip_by_snoc) simp
  then show ?case using snoc by simp
qed

lemma strip_around:
  assumes "list_all P a" "list_all P b" "x \<noteq> []" "\<not> P (hd x)" "\<not> P (last x)"
  shows "strip_by P (a @ x @ b) = x"
proof -
  have "dropWhile P (a @ x @ b) = x @ b" using assms by (cases x) (auto simp: dropWhile_append list_all_iff dropWhile_append2)
  then show ?thesis using rstrip_dots [OF assms(3,5,2)] by (simp add: strip_by_def lstrip_by_def)
qed

lemma lower_same: "is_space (to_lower c) = is_space c" "to_lower c = CHR ''.'' \<longleftrightarrow> c = CHR ''.''"
proof -
  have "to_lower c = (if is_upper c then char_of (ordc c + 32) else c)" by (simp add: to_lower_def)
  moreover have dot: "ordc (CHR ''.'') = 46" by code_simp
  have "is_upper c \<Longrightarrow> \<not> is_space c \<and> \<not> is_space (char_of (ordc c + 32)) \<and> c \<noteq> CHR ''.'' \<and> char_of (ordc c + 32) \<noteq> CHR ''.''"
    by (auto simp: is_upper_def is_space_def ordc_char_of ordc_eq_iff [symmetric] dot)
  ultimately show "is_space (to_lower c) = is_space c" "to_lower c = CHR ''.'' \<longleftrightarrow> c = CHR ''.''" by (auto split: if_splits)
qed

lemma strip_ends: "py_strip h = h \<Longrightarrow> h \<noteq> [] \<Longrightarrow> \<not> is_space (hd h) \<and> \<not> is_space (last h)"
proof
  assume h: "py_strip h = h" "h \<noteq> []"
  show "\<not> is_space (hd h)"
  proof
    assume "is_space (hd h)"
    then have "length (py_strip h) < length h"
      using h(2) length_strip_by [of is_space "tl h"] by (cases h) (auto simp: py_strip_def strip_by_def lstrip_by_def)
    then show False using h(1) by simp
  qed
  show "\<not> is_space (last h)"
  proof
    assume sp: "is_space (last h)"
    have "dropWhile is_space h = h" using \<open>\<not> is_space (hd h)\<close> h(2) by (cases h) auto
    moreover have "rstrip_by is_space h \<noteq> h"
    proof -
      obtain xs c where x: "h = xs @ [c]" using h(2) by (cases h rule: rev_cases) auto
      then have "rstrip_by is_space h = rstrip_by is_space xs" using sp by (simp add: rstrip_by_snoc)
      moreover have "length (rstrip_by is_space xs) \<le> length xs" by (metis length_dropWhile_le length_rev rstrip_by_def)
      ultimately show ?thesis using x by auto
    qed
    ultimately show False using h(1) by (simp add: py_strip_def strip_by_def lstrip_by_def)
  qed
qed

text \<open>Every spelling of a host has the same key.  Upper case, white space around the name, trailing dots and a leading wildcard
  are forgotten, and the key of a host written in its canonical form is that form.\<close>

theorem spellings_share_a_key:
  assumes "canon_form h" "h \<noteq> []" "py_lower x = h" "list_all is_space a" "list_all is_space b" "star \<in> {[], ''*.''}"
    and "nt \<in> {node_type_value NodeDomain, node_type_value NodeSubdomain}"
  shows "canonical_key nt (a @ star @ x @ replicate n (CHR ''.'') @ b) = h"
proof -
  let ?m = "star @ x @ replicate n (CHR ''.'')"
  have x: "x \<noteq> []" "h = map to_lower x" using assms(2,3) by (auto simp: py_lower_def)
  have ends: "\<not> is_space (hd x)" "\<not> is_space (last x)" "last x \<noteq> CHR ''.''"
  proof -
    have "\<not> is_space (hd h)" "\<not> is_space (last h)" using strip_ends assms(1,2) by (auto simp: canon_form_def)
    then show "\<not> is_space (hd x)" "\<not> is_space (last x)" using x by (simp_all add: hd_map last_map lower_same)
    have "last h \<noteq> CHR ''.''" using assms(1,2) by (auto simp: canon_form_def endswith_iff dest: append_butlast_last_id [symmetric])
    then show "last x \<noteq> CHR ''.''" using x by (simp add: last_map lower_same)
  qed
  have sp: "\<not> is_space (CHR ''*'')" "\<not> is_space (CHR ''.'')" by code_simp+
  have "py_strip (a @ ?m @ b) = ?m"
    unfolding py_strip_def
  proof (rule strip_around [OF assms(4,5)])
    show "?m \<noteq> []" using x by simp
    show "\<not> is_space (hd ?m)" using assms(6) sp ends(1) x(1) by auto
    show "\<not> is_space (last ?m)" using sp ends(2) x(1) by (cases n) (auto simp: last_append)
  qed
  moreover have "rstrip_by (\<lambda>c. c = CHR ''.'') ?m = star @ x"
    using rstrip_dots [of "star @ x" "\<lambda>c. c = CHR ''.''" "replicate n (CHR ''.'')"] x(1) ends(3) by (simp add: list_all_iff)
  moreover have "py_lower (star @ x) = star @ h"
  proof -
    have "py_lower star = star" using assms(6) by (elim insertE emptyE) (simp, simp only:, code_simp)
    then show ?thesis using assms(3) by (simp add: py_lower_append)
  qed
  ultimately have "canon_host (a @ ?m @ b) = (if startswith (star @ h) ''*.'' then drop 2 (star @ h) else star @ h)"
    by (simp add: canon_host_def Let_def)
  also have "\<dots> = h" using assms(1,6) by (auto simp: canon_form_def startswith_def)
  finally show ?thesis using assms(7) by (auto simp: canonical_key_def)
qed

lemma spellings_share_a_key_witness:
  "canonical_key ''subdomain'' '' *.API.Example.com.. '' = ''api.example.com''"
proof -
  have "canon_form ''api.example.com''" by code_simp
  from spellings_share_a_key [OF this, of "''API.Example.com''" "'' ''" "'' ''" "''*.''" "''subdomain''" 2]
  show ?thesis by (simp add: numeral_2_eq_2) code_simp
qed

text \<open>The key of a key can be another key, and an address with leading zeros keeps them.\<close>

lemma key_of_key_differs:
  "canonical_key ''domain'' (canonical_key ''domain'' ''*.*.example.com'') \<noteq> canonical_key ''domain'' ''*.*.example.com''"
  by code_simp

lemma zeros_kept: "canonical_key ''ip_address'' ''01.2.3.004'' = ''01.2.3.004'' \<and> canonical_key ''ip_address'' ''1.2.3.4'' = ''1.2.3.4''"
  by code_simp

end
