(* ===== verification/ToolDispatch.thy ===== *)
theory ToolDispatch
  imports Governance Authorization Findings EvidenceChain JobSigning Canonical
begin

text \<open>
  \<open>guardian_scanner/tools/tasks.py\<close>, \<open>execution.py\<close> and \<open>binding.py\<close>: the control plane decides on a tool run, signs and
  seals the job, the execution plane verifies, opens and runs it, and the control plane keeps what came back.  The providers, the
  seal of the broker and the promotion of certificate data into the asset graph are arguments.
\<close>

subsection \<open>Providers and tables\<close>

datatype tool_backend = UidNft | InprocSandbox

record tool_provider =
  tv_capabilities :: tool_capabilities
  tv_version :: string
  tv_external :: bool
  tv_validate :: "tool_job \<Rightarrow> py_error option"
  tv_execute :: "tool_backend \<Rightarrow> tool_job \<Rightarrow> py_error + raw_evidence list"
  tv_normalize :: "raw_evidence \<Rightarrow> raw_finding option"

record rail_env =
  rl_tools :: "string \<Rightarrow> tool_provider option"
  rl_seal :: "jval \<Rightarrow> string"
  rl_unseal :: "string \<Rightarrow> jval option"
  rl_signer :: sign_env
  rl_checker :: sign_env
  rl_sha :: "string \<Rightarrow> string"
  rl_owner_direct_recon :: bool

datatype owner_refusal = FeatureDisabled | NotOwner

datatype rail_note =
    CapabilityDecision governance_result "string option"
  | OwnerDirectDenied owner_refusal
  | JobDecision policy_decision "string list"
  | ArtifactDecision bool string "policy_reason list" bool

record rail_audit =
  ra_tenant :: uuid
  ra_actor :: "uuid option"
  ra_tool :: string
  ra_note :: rail_note

record rail_asset = asset_ref +
  as_exposure :: string

record tool_scan =
  ts_id :: uuid
  ts_tenant_id :: uuid
  ts_customer_id :: uuid
  ts_asset_id :: uuid
  ts_requested :: string
  ts_basis :: string
  ts_run_id :: uuid
  ts_engine :: string
  ts_version :: string

record rail_db =
  rd_gov :: gov_db
  rd_metadata :: "(string \<times> jobj) list"
  rd_authorizations :: "authorization_row list"
  rd_assets :: "rail_asset list"
  rd_criticality :: "(uuid \<times> string) list"
  rd_evidence :: "evidence_item list"
  rd_scans :: "tool_scan list"
  rd_findings :: "finding list"
  rd_audit :: "rail_audit list"
  rd_enrich :: "string list"

subsection \<open>Sealing\<close>

definition ARTIFACT_MAX_BYTES :: nat where "ARTIFACT_MAX_BYTES = 2 * 1024 * 1024"

definition SEALED_SETTING_KEYS :: "string list" where
  "SEALED_SETTING_KEYS = [''artifact_b64'', ''snapshot'', ''xml'', ''ct'']"

definition seal_settings :: "rail_env \<Rightarrow> jobj \<Rightarrow> jobj" where
  "seal_settings env settings =
     (let sealed = map (\<lambda>k. (k, JStr (rl_seal env (jget settings k)))) (filter (\<lambda>k. dict_get settings k \<noteq> None) SEALED_SETTING_KEYS);
          out = filter (\<lambda>(k, v). k \<notin> set SEALED_SETTING_KEYS) settings
      in if sealed = [] then out else dict_set ''_sealed'' (JObj sealed) out)"

definition unseal :: "rail_env \<Rightarrow> jval \<Rightarrow> py_error + jval" where
  "unseal env token =
     (case token of JStr t \<Rightarrow> (case rl_unseal env t of Some v \<Rightarrow> Inr v | None \<Rightarrow> Inl ValueError) | _ \<Rightarrow> Inl AttributeError)"

fun open_sealed :: "rail_env \<Rightarrow> jobj \<Rightarrow> jobj \<Rightarrow> py_error + jobj" where
  "open_sealed env [] out = Inr out"
| "open_sealed env ((k, token) # rest) out = bind_r (unseal env token) (\<lambda>v. open_sealed env rest (dict_set k v out))"

definition unseal_settings :: "rail_env \<Rightarrow> jobj \<Rightarrow> py_error + jobj" where
  "unseal_settings env settings =
     (let out = filter (\<lambda>(k, v). k \<noteq> ''_sealed'') settings
      in case jget settings ''_sealed'' of JObj d \<Rightarrow> open_sealed env d out | _ \<Rightarrow> Inr out)"

definition seal_result :: "rail_env \<Rightarrow> raw_evidence list \<Rightarrow> jval" where
  "seal_result env es = JObj [(''_sealed_result'', JStr (rl_seal env (JList (map (\<lambda>e. JObj (evidence_to_wire e)) es))))]"

definition unseal_result :: "rail_env \<Rightarrow> jval \<Rightarrow> py_error + jval list" where
  "unseal_result env result =
     bind_r (case result of
         JObj d \<Rightarrow> (case dict_get d ''_sealed_result'' of Some t \<Rightarrow> unseal env t | None \<Rightarrow> if d = [] then Inr (JList []) else Inl TypeError)
       | JList xs \<Rightarrow> Inr (JList xs)
       | v \<Rightarrow> if truthy v then Inl TypeError else Inr (JList []))
       (\<lambda>v. case v of JList xs \<Rightarrow> Inr xs | _ \<Rightarrow> Inl TypeError)"

definition evidence_of_wires :: "jval list \<Rightarrow> py_error + raw_evidence list" where
  "evidence_of_wires ws =
     (case all_some (map (\<lambda>w. case w of JObj d \<Rightarrow> evidence_from_wire d | _ \<Rightarrow> None) ws) of Some es \<Rightarrow> Inr es | None \<Rightarrow> Inl KeyError)"

subsection \<open>The execution plane\<close>

definition get_backend :: "jval \<Rightarrow> tool_backend" where
  "get_backend name = (if name = JStr ''uid_nft'' then UidNft else InprocSandbox)"

definition execute_tool :: "tool_provider \<Rightarrow> tool_job \<Rightarrow> py_error + raw_evidence list" where
  "execute_tool pv job =
     (case tv_validate pv job of
        Some e \<Rightarrow> Inl e
      | None \<Rightarrow> tv_execute pv (get_backend (if tv_external pv then JStr ''uid_nft'' else jget (tj_settings job) ''_execution_backend'')) job)"

definition run_job :: "rail_env \<Rightarrow> jobj \<Rightarrow> py_error + jval" where
  "run_job env wire =
     (case job_from_wire wire of
        None \<Rightarrow> Inl KeyError
      | Some job \<Rightarrow>
          bind_r (unseal_settings env (tj_settings job)) (\<lambda>st.
            let job = job\<lparr>tj_settings := st\<rparr>
            in case rl_tools env (tj_tool_key job) of
                 None \<Rightarrow> Inr (JList [])
               | Some pv \<Rightarrow> bind_r (execute_tool pv job) (\<lambda>es. Inr (seal_result env es))))"

text \<open>A refused job is answered with an empty list.\<close>

definition run_tool ::
    "rail_env \<Rightarrow> (string \<Rightarrow> int \<Rightarrow> int \<Rightarrow> 's \<Rightarrow> bool option \<times> 's) \<Rightarrow> jval \<Rightarrow> int \<Rightarrow> int \<Rightarrow> 's \<Rightarrow> (py_error + jval) \<times> 's" where
  "run_tool env reserve msg now now' st =
     (case verify_job (rl_checker env) reserve msg now now' st of
        (Inl (JobVerificationError r), st') \<Rightarrow> (Inr (JList []), st')
      | (Inl (Raised e), st') \<Rightarrow> (Inl e, st')
      | (Inr wire, st') \<Rightarrow> (run_job env wire, st'))"

subsection \<open>What the control plane looks up\<close>

definition default_backend :: "string \<Rightarrow> jval" where
  "default_backend key = (if key = ''nmap'' then JStr ''uid_nft'' else JStr ''inproc'')"

definition execution_backend_for :: "rail_db \<Rightarrow> string \<Rightarrow> jval" where
  "execution_backend_for db key =
     (case dict_get (rd_metadata db) key of
        Some md \<Rightarrow> if truthy (jget md ''execution_backend'') then jget md ''execution_backend'' else default_backend key
      | None \<Rightarrow> default_backend key)"

definition is_tenant_owner :: "gov_db \<Rightarrow> uuid \<Rightarrow> uuid option \<Rightarrow> bool" where
  "is_tenant_owner db tenant actor =
     (case actor of None \<Rightarrow> False
      | Some u \<Rightarrow> (case find (\<lambda>m. tm_user_id m = u \<and> tm_tenant_id m = tenant) (memberships db) of
            Some m \<Rightarrow> tm_role m = staff_role_value StaffOwner | None \<Rightarrow> False))"

definition live_rows :: "rail_db \<Rightarrow> uuid \<Rightarrow> int \<Rightarrow> authorization_row list" where
  "live_rows db tenant now =
     filter (\<lambda>r. ar_tenant_id r = tenant \<and> ar_revoked_at r = None \<and>
        (case ar_valid_from r of Some v \<Rightarrow> aware v \<le> now | None \<Rightarrow> False) \<and>
        (case ar_valid_until r of Some v \<Rightarrow> now \<le> aware v | None \<Rightarrow> False)) (rd_authorizations db)"

text \<open>\<open>t.get("value")\<close> of every entry of every row.\<close>

fun target_values :: "jval list \<Rightarrow> py_error + jval list" where
  "target_values [] = Inr []"
| "target_values (JObj d # ts) = bind_r (target_values ts) (\<lambda>vs. Inr (jget d ''value'' # vs))"
| "target_values (_ # ts) = Inl AttributeError"

definition authorized_target_values :: "rail_db \<Rightarrow> uuid \<Rightarrow> int \<Rightarrow> py_error + string list" where
  "authorized_target_values db tenant now =
     bind_r (target_values (concat (map ar_targets (live_rows db tenant now)))) (\<lambda>vs. Inr (sorted_set (map py_str (filter truthy vs))))"

definition find_asset :: "rail_db \<Rightarrow> uuid \<Rightarrow> rail_asset option" where
  "find_asset db i = find (\<lambda>a. as_id a = i) (rd_assets db)"

definition authorized_asset :: "rail_db \<Rightarrow> uuid \<Rightarrow> uuid \<Rightarrow> int \<Rightarrow> rail_asset option" where
  "authorized_asset db tenant aid now =
     (case find_asset db aid of
        Some a \<Rightarrow> if as_tenant_id a = tenant \<and> list_ex (\<lambda>r. ar_asset_id r = Some aid) (live_rows db tenant now) then Some a else None
      | None \<Rightarrow> None)"

subsection \<open>The decision\<close>

record tool_request =
  tq_tenant :: string
  tq_tool :: string
  tq_targets :: "string list"
  tq_actor :: "string option"
  tq_human_approved :: bool
  tq_settings :: jobj
  tq_policy :: "tool_policy option"
  tq_campaign :: "string option"
  tq_approval :: "string option"
  tq_owner_direct :: bool
  tq_asset :: "string option"

datatype tool_outcome =
    UnknownTool
  | ForbiddenBy governance_result
  | ForbiddenOwnerDirect owner_refusal
  | DeniedBy policy_decision
  | ApprovalAlreadyConsumed int
  | ArtifactRejected string
  | ArtifactDenied "policy_reason list"
  | ToolCompleted string nat nat nat bool

record cleared_job =
  cj_scope :: effective_scope
  cj_backend :: jval
  cj_governance :: governance_result
  cj_decision :: policy_decision
  cj_basis :: string

definition add_audit :: "uuid \<Rightarrow> governance_result \<Rightarrow> string \<Rightarrow> rail_note \<Rightarrow> rail_db \<Rightarrow> rail_db" where
  "add_audit tenant gov tool note db =
     db\<lparr>rd_audit := rd_audit db @ [\<lparr>ra_tenant = tenant, ra_actor = gov_actor gov, ra_tool = tool, ra_note = note\<rparr>]\<rparr>"

text \<open>\<open>UPDATE \<dots> WHERE id = \<dots> AND consumed_at IS NULL\<close>; no row is the result \<open>None\<close>.\<close>

definition mark_consumed :: "uuid \<Rightarrow> int \<Rightarrow> approval \<Rightarrow> approval" where
  "mark_consumed aid now a = (if ap_id a = aid \<and> ap_consumed_at a = None then a\<lparr>ap_consumed_at := Some (Aware now)\<rparr> else a)"

definition consume_approval :: "uuid \<Rightarrow> int \<Rightarrow> gov_db \<Rightarrow> gov_db option" where
  "consume_approval aid now db =
     (if list_ex (\<lambda>a. ap_id a = aid \<and> ap_consumed_at a = None) (approvals db)
      then Some (db\<lparr>approvals := map (mark_consumed aid now) (approvals db)\<rparr>) else None)"

definition owner_direct_check :: "rail_env \<Rightarrow> tool_request \<Rightarrow> uuid \<Rightarrow> governance_result \<Rightarrow> gov_db \<Rightarrow> owner_refusal option" where
  "owner_direct_check env rq tenant gov db =
     (if \<not> tq_owner_direct rq then None
      else if \<not> rl_owner_direct_recon env then Some FeatureDisabled
      else if \<not> is_tenant_owner db tenant (gov_actor gov) then Some NotOwner else None)"

text \<open>What was read when the transaction decided may be older than what the last update finds: \<open>seen\<close> are the governance
  tables as they were read.\<close>

definition decide_tool_job ::
    "rail_env \<Rightarrow> tool_request \<Rightarrow> uuid \<Rightarrow> tool_capabilities \<Rightarrow> int \<Rightarrow> gov_db \<Rightarrow> rail_db \<Rightarrow>
     py_error + (tool_outcome + cleared_job) \<times> rail_db" where
  "decide_tool_job env rq tenant caps now seen db =
     (let tool = tq_tool rq;
          gov = evaluate_governance seen now tenant (tq_actor rq) caps (Some tool) (tq_campaign rq) (tq_approval rq);
          db = add_audit tenant gov tool (CapabilityDecision gov (tq_campaign rq)) db
      in if \<not> gov_allowed gov then Inr (Inl (ForbiddenBy gov), db)
         else case owner_direct_check env rq tenant gov seen of
             Some r \<Rightarrow> Inr (Inl (ForbiddenOwnerDirect r), add_audit tenant gov tool (OwnerDirectDenied r) db)
           | None \<Rightarrow>
               bind_r (authorized_target_values db tenant now) (\<lambda>values.
                 let basis = (if tq_owner_direct rq then authorization_basis_value BasisOwnerDirectRecon else authorization_basis_value BasisVerifiedOwnership);
                     authorized = (if tq_owner_direct rq then sorted_set (values @ tq_targets rq) else values);
                     scope = derive_effective_scope (tq_targets rq) authorized caps (tq_policy rq);
                     backend = execution_backend_for db tool;
                     decision = evaluate_tool_policy caps scope (tq_human_approved rq);
                     db = add_audit tenant gov tool (JobDecision decision (es_targets scope)) db;
                     cleared = \<lparr>cj_scope = scope, cj_backend = backend, cj_governance = gov, cj_decision = decision, cj_basis = basis\<rparr>
                 in if \<not> pd_allowed decision then Inr (Inl (DeniedBy decision), db)
                    else case gov_approval_id gov of
                        None \<Rightarrow> Inr (Inr cleared, db)
                      | Some aid \<Rightarrow>
                          (case consume_approval aid now (rd_gov db) of
                             None \<Rightarrow> Inr (Inl (ApprovalAlreadyConsumed (gov_required gov)), db)
                           | Some g \<Rightarrow> Inr (Inr cleared, db\<lparr>rd_gov := g\<rparr>))))"

subsection \<open>Binding evidence to assets\<close>

text \<open>Identifiers are drawn afresh for the rows made for a host: the scan, its run, its findings.\<close>

type_synonym fresh_ids = "string \<Rightarrow> nat \<Rightarrow> uuid"

definition criticality_of :: "rail_db \<Rightarrow> uuid \<Rightarrow> string" where
  "criticality_of db c = (case dict_get (rd_criticality db) c of Some s \<Rightarrow> s | None \<Rightarrow> ''medium'')"

fun findings_of :: "(string \<Rightarrow> string) \<Rightarrow> (nat \<Rightarrow> uuid) \<Rightarrow> nat \<Rightarrow> finding_context \<Rightarrow> raw_finding list \<Rightarrow> py_error + finding list" where
  "findings_of sha ids n c [] = Inr []"
| "findings_of sha ids n c (r # rs) = bind_r (to_finding sha (ids n) r c) (\<lambda>f. bind_r (findings_of sha ids (Suc n) c rs) (\<lambda>fs. Inr (f # fs)))"

definition tool_scan_of :: "uuid \<Rightarrow> string \<Rightarrow> tool_provider \<Rightarrow> string \<Rightarrow> rail_asset \<Rightarrow> (nat \<Rightarrow> uuid) \<Rightarrow> tool_scan" where
  "tool_scan_of tenant key pv basis a ids =
     \<lparr>ts_id = ids 0, ts_tenant_id = tenant, ts_customer_id = as_customer_id a, ts_asset_id = as_id a, ts_requested = key, ts_basis = basis,
      ts_run_id = ids 1, ts_engine = take 30 key, ts_version = tv_version pv\<rparr>"

definition record_tool_scan ::
    "rail_env \<Rightarrow> uuid \<Rightarrow> string \<Rightarrow> tool_provider \<Rightarrow> string \<Rightarrow> rail_asset \<Rightarrow> (nat \<Rightarrow> uuid) \<Rightarrow> raw_finding list \<Rightarrow> rail_db \<Rightarrow>
     py_error + rail_db" where
  "record_tool_scan env tenant key pv basis a ids raws db =
     (let crit = criticality_of db (as_customer_id a);
          c = \<lparr>fc_tenant_id = tenant, fc_customer_id = as_customer_id a, fc_scan_id = ids 0, fc_engine_run_id = ids 1, fc_asset_id = as_id a,
               fc_exposure = as_exposure a, fc_asset_criticality = crit, fc_business_impact = crit, fc_source = ''automated''\<rparr>
      in bind_r (findings_of (rl_sha env) ids 2 c raws) (\<lambda>fs.
           Inr (db\<lparr>rd_scans := rd_scans db @ [tool_scan_of tenant key pv basis a ids], rd_findings := rd_findings db @ fs\<rparr>)))"

definition resolve_asset :: "rail_db \<Rightarrow> uuid \<Rightarrow> string \<Rightarrow> py_error + rail_asset option" where
  "resolve_asset db tenant host =
     (if host = [] then Inr None
      else let want = canonical_key (node_type_value NodeSubdomain) host;
               rows = sort_key as_id (filter (\<lambda>a. as_tenant_id a = tenant \<and> as_kind a \<in> {''web'', ''api''}) (rd_assets db));
               hosts = map (\<lambda>a. asset_host (as_kind a) (as_identifier a)) rows
           in if Inl ValueError \<in> set hosts then Inl ValueError
              else case filter (\<lambda>(a, h). h = Inr (Some want)) (zip rows hosts) of [(a, h)] \<Rightarrow> Inr (Some a) | _ \<Rightarrow> Inr None)"

definition group_by_target :: "raw_evidence list \<Rightarrow> (string \<times> raw_evidence list) list" where
  "group_by_target es = map (\<lambda>h. (h, filter (\<lambda>e. re_target e = h) es)) (sorted_set (map re_target es))"

definition raws_of :: "tool_provider \<Rightarrow> raw_evidence list \<Rightarrow> raw_finding list" where
  "raws_of pv es = map the (filter (\<lambda>r. r \<noteq> None) (map (tv_normalize pv) es))"

text \<open>One host after the other: an asset, or none and then nothing; \<open>strict\<close> makes no scan without a finding.\<close>

fun bind_hosts ::
    "rail_env \<Rightarrow> (rail_db \<Rightarrow> string \<Rightarrow> py_error + rail_asset option) \<Rightarrow> bool \<Rightarrow> uuid \<Rightarrow> string \<Rightarrow> tool_provider \<Rightarrow> string \<Rightarrow> fresh_ids \<Rightarrow>
     (string \<times> raw_evidence list) list \<Rightarrow> rail_db \<Rightarrow> py_error + rail_db \<times> (string \<times> nat) list" where
  "bind_hosts env resolve strict tenant key pv basis ids [] db = Inr (db, [])"
| "bind_hosts env resolve strict tenant key pv basis ids ((host, es) # rest) db =
     bind_r (resolve db host) (\<lambda>found.
       case found of
         None \<Rightarrow> bind_hosts env resolve strict tenant key pv basis ids rest db
       | Some a \<Rightarrow>
           let raws = raws_of pv es
           in if strict \<and> raws = [] then bind_hosts env resolve strict tenant key pv basis ids rest db
              else bind_r (record_tool_scan env tenant key pv basis a (ids host) raws db) (\<lambda>db.
                bind_r (bind_hosts env resolve strict tenant key pv basis ids rest db) (\<lambda>(db, bound).
                  Inr (db, (str_uuid (as_customer_id a), length raws) # bound))))"

definition bind_and_derive_findings where
  "bind_and_derive_findings env strict tenant key ids es db =
     (case rl_tools env key of
        None \<Rightarrow> Inr (db, [])
      | Some pv \<Rightarrow> bind_hosts env (\<lambda>db h. resolve_asset db tenant h) strict tenant key pv
                     (authorization_basis_value BasisVerifiedOwnership) ids (group_by_target es) db)"

text \<open>The asset of the first live authorization that lists the address.\<close>

fun names_value :: "string \<Rightarrow> jval list \<Rightarrow> py_error + bool" where
  "names_value ip [] = Inr False"
| "names_value ip (JObj d # ts) = (if py_str (jget d ''value'') = ip then Inr True else names_value ip ts)"
| "names_value ip (_ # ts) = Inl AttributeError"

fun first_naming :: "rail_db \<Rightarrow> string \<Rightarrow> authorization_row list \<Rightarrow> py_error + rail_asset option" where
  "first_naming db ip [] = Inr None"
| "first_naming db ip (r # rs) =
     bind_r (names_value ip (ar_targets r)) (\<lambda>b. if b then Inr (find_asset db (the (ar_asset_id r))) else first_naming db ip rs)"

definition asset_for_target_ip :: "rail_db \<Rightarrow> uuid \<Rightarrow> string \<Rightarrow> int \<Rightarrow> py_error + rail_asset option" where
  "asset_for_target_ip db tenant ip now = first_naming db ip (filter (\<lambda>r. ar_asset_id r \<noteq> None) (live_rows db tenant now))"

definition nmap_services :: "raw_evidence list \<Rightarrow> raw_evidence list" where
  "nmap_services es = filter (\<lambda>e. re_kind e = ''nmap_service'') es"

definition bind_nmap_findings where
  "bind_nmap_findings env tenant key basis now ids es db =
     (case rl_tools env key of
        None \<Rightarrow> Inr (db, [])
      | Some pv \<Rightarrow> bind_hosts env (\<lambda>db ip. asset_for_target_ip db tenant ip now) True tenant key pv basis ids
                     (group_by_target (nmap_services es)) db)"

definition bind_owner_direct_recon where
  "bind_owner_direct_recon env tenant key basis asset_id ids es db =
     (case rl_tools env key of
        None \<Rightarrow> Inr (db, [])
      | Some pv \<Rightarrow>
          (case parse_uuid asset_id of
             None \<Rightarrow> Inl ValueError
           | Some i \<Rightarrow>
               (case find_asset db i of
                  None \<Rightarrow> Inr (db, [])
                | Some a \<Rightarrow>
                    let raws = raws_of pv (nmap_services es)
                    in if as_tenant_id a \<noteq> tenant \<or> raws = [] then Inr (db, [])
                       else bind_r (record_tool_scan env tenant key pv basis a (ids []) raws db) (\<lambda>db.
                         Inr (db, [(str_uuid (as_customer_id a), length raws)])))))"

subsection \<open>The two tasks\<close>

text \<open>The clock is read when the control plane decides, when it signs, when the execution plane verifies and reserves, and when the
  results are stored.\<close>

record rail_clock =
  rc_decide :: int
  rc_sign :: int
  rc_verify :: int
  rc_reserve :: int
  rc_store :: int

record rail_ids =
  ri_job :: string
  ri_nonce :: string
  ri_evidence :: "nat \<Rightarrow> uuid"
  ri_rows :: fresh_ids

text \<open>Sign, send, verify, run, and read what came back.\<close>

definition send_job ::
    "rail_env \<Rightarrow> (string \<Rightarrow> int \<Rightarrow> int \<Rightarrow> 's \<Rightarrow> bool option \<times> 's) \<Rightarrow> rail_clock \<Rightarrow> rail_ids \<Rightarrow> tool_job \<Rightarrow> 's \<Rightarrow>
     (job_error + raw_evidence list) \<times> 's" where
  "send_job env reserve t ids job st =
     (case sign_job (rl_signer env) (rc_sign t) (ri_nonce ids) DEFAULT_TTL_SECONDS (job_to_wire job) of
        Inl e \<Rightarrow> (Inl e, st)
      | Inr d \<Rightarrow>
          (case run_tool env reserve (JObj d) (rc_verify t) (rc_reserve t) st of
             (Inl e, st') \<Rightarrow> (Inl (Raised e), st')
           | (Inr result, st') \<Rightarrow>
               (case bind_r (unseal_result env result) evidence_of_wires of Inl e \<Rightarrow> (Inl (Raised e), st') | Inr es \<Rightarrow> (Inr es, st'))))"

definition store_evidence :: "rail_env \<Rightarrow> uuid \<Rightarrow> rail_clock \<Rightarrow> rail_ids \<Rightarrow> raw_evidence list \<Rightarrow> rail_db \<Rightarrow> py_error + rail_db" where
  "store_evidence env tenant t ids es db =
     bind_r (persist_evidence_chain (rl_sha env) tenant None (rc_store t) (map (ri_evidence ids) [0..<length es]) es (rd_evidence db))
       (\<lambda>(rows, _). Inr (db\<lparr>rd_evidence := rows\<rparr>))"

type_synonym keep_results = "rail_db \<Rightarrow> raw_evidence list \<Rightarrow> py_error + rail_db \<times> (string \<times> nat) list"

text \<open>\<open>bind_ct\<close> promotes certificate data into the asset graph.\<close>

definition binder_for :: "rail_env \<Rightarrow> keep_results \<Rightarrow> tool_request \<Rightarrow> cleared_job \<Rightarrow> uuid \<Rightarrow> rail_clock \<Rightarrow> rail_ids \<Rightarrow> keep_results" where
  "binder_for env bind_ct rq cj tenant t ids db es =
     (let key = tq_tool rq; asset = (case tq_asset rq of Some a \<Rightarrow> a | None \<Rightarrow> []) in
      if key = ''nmap'' \<and> tq_owner_direct rq \<and> asset \<noteq> [] then bind_owner_direct_recon env tenant key (cj_basis cj) asset (ri_rows ids) es db
      else if key = ''nmap'' then bind_nmap_findings env tenant key (cj_basis cj) (rc_store t) (ri_rows ids) es db
      else if key = ''dns_posture'' then bind_and_derive_findings env True tenant key (ri_rows ids) es db
      else if key = ''ct_surface'' then bind_ct db es
      else bind_and_derive_findings env False tenant key (ri_rows ids) es db)"

definition cleared_tool_job :: "rail_env \<Rightarrow> tool_request \<Rightarrow> cleared_job \<Rightarrow> rail_ids \<Rightarrow> tool_job" where
  "cleared_tool_job env rq cj ids =
     \<lparr>tj_tenant_id = tq_tenant rq, tj_job_id = ri_job ids, tj_tool_key = tq_tool rq, tj_scope = cj_scope cj,
      tj_settings = seal_settings env (dict_set ''_execution_backend'' (cj_backend cj) (tq_settings rq))\<rparr>"

text \<open>The first transaction is committed before the job is sent; an exception afterwards leaves its rows.\<close>

definition dispatch_tool_job ::
    "rail_env \<Rightarrow> keep_results \<Rightarrow> (string \<Rightarrow> int \<Rightarrow> int \<Rightarrow> 's \<Rightarrow> bool option \<times> 's) \<Rightarrow> tool_request \<Rightarrow> rail_clock \<Rightarrow> rail_ids \<Rightarrow> gov_db \<Rightarrow> rail_db \<Rightarrow> 's \<Rightarrow>
     (job_error + tool_outcome) \<times> rail_db \<times> 's" where
  "dispatch_tool_job env bind_ct reserve rq t ids seen db st =
     (case rl_tools env (tq_tool rq) of
        None \<Rightarrow> (Inr UnknownTool, db, st)
      | Some pv \<Rightarrow>
          (case parse_uuid (tq_tenant rq) of
             None \<Rightarrow> (Inl (Raised ValueError), db, st)
           | Some tenant \<Rightarrow>
               (case decide_tool_job env rq tenant (tv_capabilities pv) (rc_decide t) seen db of
                  Inl e \<Rightarrow> (Inl (Raised e), db, st)
                | Inr (Inl outcome, db1) \<Rightarrow> (Inr outcome, db1, st)
                | Inr (Inr cj, db1) \<Rightarrow>
                    (case send_job env reserve t ids (cleared_tool_job env rq cj ids) st of
                       (Inl e, st') \<Rightarrow> (Inl e, db1, st')
                     | (Inr es, st') \<Rightarrow>
                         (case bind_r (store_evidence env tenant t ids es db1) (\<lambda>db2. binder_for env bind_ct rq cj tenant t ids db2 es) of
                            Inl e \<Rightarrow> (Inl (Raised e), db1, st')
                          | Inr (db2, bound) \<Rightarrow>
                              (Inr (ToolCompleted (ri_job ids) (length es) (length bound) (sum_list (map snd bound))
                                      (pd_requires_human_approval (cj_decision cj))),
                               db2\<lparr>rd_enrich := rd_enrich db2 @ sorted_set (map fst bound)\<rparr>, st'))))))"

definition derive_artifact_findings ::
    "rail_env \<Rightarrow> uuid \<Rightarrow> string \<Rightarrow> uuid \<Rightarrow> fresh_ids \<Rightarrow> raw_evidence list \<Rightarrow> rail_db \<Rightarrow> py_error + rail_db \<times> nat" where
  "derive_artifact_findings env tenant key aid ids es db =
     (case (rl_tools env key, find_asset db aid) of
        (Some pv, Some a) \<Rightarrow>
          let raws = raws_of pv es
          in if raws = [] then Inr (db, 0)
             else bind_r (record_tool_scan env tenant key pv (authorization_basis_value BasisVerifiedOwnership) a (ids []) raws db)
                    (\<lambda>db. Inr (db, length raws))
      | _ \<Rightarrow> Inr (db, 0))"

record artifact_request =
  aq_tenant :: string
  aq_tool :: string
  aq_asset :: string
  aq_artifact :: string
  aq_actor :: "string option"
  aq_media_type :: "string option"
  aq_settings :: jobj
  aq_policy :: "tool_policy option"

text \<open>\<open>artifact_length\<close> is the length of the decoded base64 text, if it is one.\<close>

definition artifact_refusal :: "(string \<Rightarrow> nat option) \<Rightarrow> string \<Rightarrow> string option" where
  "artifact_refusal artifact_length b64 =
     (case artifact_length b64 of
        None \<Rightarrow> Some ''invalid_encoding''
      | Some n \<Rightarrow> if n = 0 then Some ''empty_artifact'' else if ARTIFACT_MAX_BYTES < n then Some ''artifact_exceeds_2mb'' else None)"

definition decide_artifact ::
    "artifact_request \<Rightarrow> uuid \<Rightarrow> uuid \<Rightarrow> governance_result \<Rightarrow> tool_capabilities \<Rightarrow> int \<Rightarrow> rail_db \<Rightarrow>
     (tool_outcome + effective_scope \<times> rail_asset) \<times> rail_db" where
  "decide_artifact rq tenant aid gov caps now db =
     (let found = authorized_asset db tenant aid now;
          anchored = (case found of Some a \<Rightarrow> [str_uuid (as_id a)] | None \<Rightarrow> []);
          scope = derive_effective_scope anchored anchored caps (aq_policy rq);
          decision = evaluate_tool_policy caps scope False;
          db = add_audit tenant gov (aq_tool rq)
                 (ArtifactDecision (pd_allowed decision \<and> found \<noteq> None) (aq_asset rq) (pd_reasons decision) (found \<noteq> None)) db
      in case found of
           None \<Rightarrow> (Inl (ArtifactDenied (pd_reasons decision)), db)
         | Some a \<Rightarrow> if \<not> pd_allowed decision then (Inl (ArtifactDenied (pd_reasons decision)), db) else (Inr (scope, a), db))"

definition dispatch_artifact_job ::
    "rail_env \<Rightarrow> (string \<Rightarrow> nat option) \<Rightarrow> (string \<Rightarrow> int \<Rightarrow> int \<Rightarrow> 's \<Rightarrow> bool option \<times> 's) \<Rightarrow> artifact_request \<Rightarrow> rail_clock \<Rightarrow> rail_ids \<Rightarrow>
     rail_db \<Rightarrow> 's \<Rightarrow> (job_error + tool_outcome) \<times> rail_db \<times> 's" where
  "dispatch_artifact_job env artifact_length reserve rq t ids db st =
     (case rl_tools env (aq_tool rq) of
        None \<Rightarrow> (Inr UnknownTool, db, st)
      | Some pv \<Rightarrow>
          (case parse_uuid (aq_tenant rq) of
             None \<Rightarrow> (Inl (Raised ValueError), db, st)
           | Some tenant \<Rightarrow>
               let gov = evaluate_governance (rd_gov db) (rc_decide t) tenant (aq_actor rq) (tv_capabilities pv) (Some (aq_tool rq)) None None;
                   db1 = add_audit tenant gov (aq_tool rq) (CapabilityDecision gov None) db
               in if \<not> gov_allowed gov then (Inr (ForbiddenBy gov), db1, st)
                  else case artifact_refusal artifact_length (aq_artifact rq) of
                      Some r \<Rightarrow> (Inr (ArtifactRejected r), db1, st)
                    | None \<Rightarrow>
                        (case parse_uuid (aq_asset rq) of
                           None \<Rightarrow> (Inl (Raised ValueError), db1, st)
                         | Some aid \<Rightarrow>
                             (case decide_artifact rq tenant aid gov (tv_capabilities pv) (rc_decide t) db1 of
                                (Inl outcome, db2) \<Rightarrow> (Inr outcome, db2, st)
                              | (Inr (scope, a), db2) \<Rightarrow>
                                  (let settings = dict_set ''media_type'' (tool_jval (aq_media_type rq)) (dict_set ''artifact_b64'' (JStr (aq_artifact rq)) (aq_settings rq));
                                       job = \<lparr>tj_tenant_id = aq_tenant rq, tj_job_id = ri_job ids, tj_tool_key = aq_tool rq, tj_scope = scope,
                                              tj_settings = seal_settings env settings\<rparr>
                                   in case send_job env reserve t ids job st of
                                        (Inl e, st') \<Rightarrow> (Inl e, db2, st')
                                      | (Inr es, st') \<Rightarrow>
                                          (case bind_r (store_evidence env tenant t ids es db2)
                                                  (\<lambda>db3. derive_artifact_findings env tenant (aq_tool rq) aid (ri_rows ids) es db3) of
                                             Inl e \<Rightarrow> (Inl (Raised e), db2, st')
                                           | Inr (db3, n) \<Rightarrow>
                                               (Inr (ToolCompleted (ri_job ids) (length es) 1 n False),
                                                if n = 0 then db3 else db3\<lparr>rd_enrich := rd_enrich db3 @ [str_uuid (as_customer_id a)]\<rparr>, st')))))))"

subsection \<open>Permission\<close>

lemma target_values_mem: "target_values ts = Inr vs \<Longrightarrow> v \<in> set vs \<Longrightarrow> \<exists>d. JObj d \<in> set ts \<and> v = jget d ''value''"
proof (induction ts arbitrary: vs rule: target_values.induct)
  case (2 d ts)
  then obtain vs' where vs: "target_values ts = Inr vs'" "vs = jget d ''value'' # vs'" by auto
  then show ?case using 2(1) [OF vs(1)] 2(3) by (metis list.set_intros set_ConsD)
qed simp_all

definition lists_target :: "authorization_row \<Rightarrow> string \<Rightarrow> bool" where
  "lists_target r v \<longleftrightarrow> (\<exists>d. JObj d \<in> set (ar_targets r) \<and> truthy (jget d ''value'') \<and> py_str (jget d ''value'') = v)"

lemma authorized_values_listed:
  "authorized_target_values db tenant now = Inr vs \<Longrightarrow> v \<in> set vs \<Longrightarrow> \<exists>r \<in> set (live_rows db tenant now). lists_target r v"
  by (fastforce simp: authorized_target_values_def lists_target_def dest: target_values_mem)

lemma mark_consumed_simps [simp]: "ap_id (mark_consumed aid now a) = ap_id a"
  "ap_consumed_at (mark_consumed aid now a) = (if ap_id a = aid \<and> ap_consumed_at a = None then Some (Aware now) else ap_consumed_at a)"
  by (simp_all add: mark_consumed_def)

definition spent :: "uuid \<Rightarrow> gov_db \<Rightarrow> bool" where
  "spent a g \<longleftrightarrow> (\<forall>p \<in> set (approvals g). ap_id p = a \<longrightarrow> ap_consumed_at p \<noteq> None)"

lemma consume_approval_Some:
  assumes "consume_approval aid now g = Some g'"
  shows "\<exists>p \<in> set (approvals g). ap_id p = aid \<and> ap_consumed_at p = None" "approvals g' = map (mark_consumed aid now) (approvals g)"
    "spent aid g'" "spent a g \<Longrightarrow> spent a g' \<and> aid \<noteq> a"
proof -
  show one: "\<exists>p \<in> set (approvals g). ap_id p = aid \<and> ap_consumed_at p = None"
    using assms by (simp add: consume_approval_def list_ex_iff split: if_splits)
  show map: "approvals g' = map (mark_consumed aid now) (approvals g)"
    using assms by (auto simp only: consume_approval_def option.inject split: if_splits) simp
  show "spent aid g'" by (simp add: spent_def map)
  show "spent a g \<Longrightarrow> spent a g' \<and> aid \<noteq> a" using one by (auto simp: spent_def map)
qed

lemma add_audit_tables [simp]: "rd_gov (add_audit t g k n db) = rd_gov db" "rd_authorizations (add_audit t g k n db) = rd_authorizations db"
  "rd_assets (add_audit t g k n db) = rd_assets db" "rd_metadata (add_audit t g k n db) = rd_metadata db"
  "rd_scans (add_audit t g k n db) = rd_scans db" "rd_findings (add_audit t g k n db) = rd_findings db" "rd_evidence (add_audit t g k n db) = rd_evidence db" "live_rows (add_audit t g k n db) = live_rows db"
  by (auto simp: add_audit_def live_rows_def fun_eq_iff)

lemma decide_tool_job_cleared:
  assumes "decide_tool_job env rq tenant caps now seen db = Inr (Inr cj, db')"
  obtains vs where
    "cj_governance cj = evaluate_governance seen now tenant (tq_actor rq) caps (Some (tq_tool rq)) (tq_campaign rq) (tq_approval rq)"
    "gov_allowed (cj_governance cj)" "owner_direct_check env rq tenant (cj_governance cj) seen = None"
    "authorized_target_values db tenant now = Inr vs"
    "cj_scope cj = derive_effective_scope (tq_targets rq) (if tq_owner_direct rq then sorted_set (vs @ tq_targets rq) else vs) caps (tq_policy rq)"
    "cj_decision cj = evaluate_tool_policy caps (cj_scope cj) (tq_human_approved rq)" "pd_allowed (cj_decision cj)"
    "gov_approval_id (cj_governance cj) = None \<and> rd_gov db' = rd_gov db \<or>
       (\<exists>aid. gov_approval_id (cj_governance cj) = Some aid \<and> consume_approval aid now (rd_gov db) = Some (rd_gov db'))"
proof -
  have vals: "authorized_target_values (add_audit t g k n db) = authorized_target_values db" for t g k n
    by (simp add: authorized_target_values_def fun_eq_iff)
  show thesis
    using assms that unfolding decide_tool_job_def Let_def
    by (auto simp: vals split: if_splits option.splits)
qed

text \<open>C34: A job is only sent inside its permission.  When the control plane clears a job, governance allowed the actor; every target is
  listed by a live authorization of the tenant or was asked for by the owner of the tenant with owner-direct runs enabled; a tool that needs an
  authorization has a target and the policy holds; and from level three on there is a covering campaign and a covering
  approval, which was not consumed before and is consumed now.\<close>

theorem cleared_job_is_permitted:
  assumes "decide_tool_job env rq tenant caps now seen db = Inr (Inr cj, db')"
  shows "gov_allowed (evaluate_governance seen now tenant (tq_actor rq) caps (Some (tq_tool rq)) (tq_campaign rq) (tq_approval rq)) \<and>
    (\<forall>v \<in> set (es_targets (cj_scope cj)). (\<exists>r \<in> set (live_rows db tenant now). lists_target r v) \<or>
       tq_owner_direct rq \<and> rl_owner_direct_recon env \<and> is_tenant_owner seen tenant (gov_actor (cj_governance cj)) \<and> v \<in> set (tq_targets rq)) \<and>
    (tc_requires_authorization caps \<longrightarrow> es_targets (cj_scope cj) \<noteq> []) \<and> pd_allowed (cj_decision cj) \<and>
    (L3 \<le> level_num (derive_capability_level caps) \<longrightarrow>
       (\<exists>aid c p. tq_actor rq = Some aid \<and>
          campaign_covers seen tenant (tq_campaign rq) (parse_uuid aid) (level_num (derive_capability_level caps)) now c \<and>
          approval_covers seen tenant (level_num (derive_capability_level caps)) (Some (tq_tool rq)) (tq_campaign rq) (parse_uuid aid) now (ap_id p) p \<and>
          (\<exists>q \<in> set (approvals (rd_gov db)). ap_id q = ap_id p \<and> ap_consumed_at q = None) \<and>
          (\<forall>q \<in> set (approvals (rd_gov db')). ap_id q = ap_id p \<longrightarrow> ap_consumed_at q \<noteq> None)))"
proof -
  obtain vs where d: "cj_governance cj = evaluate_governance seen now tenant (tq_actor rq) caps (Some (tq_tool rq)) (tq_campaign rq) (tq_approval rq)"
      "gov_allowed (cj_governance cj)" "owner_direct_check env rq tenant (cj_governance cj) seen = None"
      "authorized_target_values db tenant now = Inr vs"
      "cj_scope cj = derive_effective_scope (tq_targets rq) (if tq_owner_direct rq then sorted_set (vs @ tq_targets rq) else vs) caps (tq_policy rq)"
      "cj_decision cj = evaluate_tool_policy caps (cj_scope cj) (tq_human_approved rq)" "pd_allowed (cj_decision cj)"
      "gov_approval_id (cj_governance cj) = None \<and> rd_gov db' = rd_gov db \<or>
         (\<exists>aid. gov_approval_id (cj_governance cj) = Some aid \<and> consume_approval aid now (rd_gov db) = Some (rd_gov db'))"
    by (rule decide_tool_job_cleared [OF assms])
  have targets: "(\<exists>r \<in> set (live_rows db tenant now). lists_target r v) \<or>
      tq_owner_direct rq \<and> rl_owner_direct_recon env \<and> is_tenant_owner seen tenant (gov_actor (cj_governance cj)) \<and> v \<in> set (tq_targets rq)"
    if v: "v \<in> set (es_targets (cj_scope cj))" for v
  proof -
    have "v \<in> set (if tq_owner_direct rq then sorted_set (vs @ tq_targets rq) else vs)"
      using v unfolding d(5) by (auto simp: derive_effective_scope_def Let_def)
    then have "v \<in> set vs \<or> tq_owner_direct rq \<and> v \<in> set (tq_targets rq)" by (auto split: if_splits)
    then show ?thesis using authorized_values_listed [OF d(4)] d(3) by (auto simp: owner_direct_check_def split: if_splits)
  qed
  have policy: "tc_requires_authorization caps \<longrightarrow> es_targets (cj_scope cj) \<noteq> []"
    using d(7) unfolding d(6) by (auto simp: evaluate_tool_policy_def Let_def)
  have sensitive: "\<exists>aid c p. tq_actor rq = Some aid \<and>
          campaign_covers seen tenant (tq_campaign rq) (parse_uuid aid) (level_num (derive_capability_level caps)) now c \<and>
          approval_covers seen tenant (level_num (derive_capability_level caps)) (Some (tq_tool rq)) (tq_campaign rq) (parse_uuid aid) now (ap_id p) p \<and>
          (\<exists>q \<in> set (approvals (rd_gov db)). ap_id q = ap_id p \<and> ap_consumed_at q = None) \<and>
          (\<forall>q \<in> set (approvals (rd_gov db')). ap_id q = ap_id p \<longrightarrow> ap_consumed_at q \<noteq> None)"
    if l3: "L3 \<le> level_num (derive_capability_level caps)"
  proof -
    obtain aid where aid: "tq_actor rq = Some aid"
      and c: "validate_campaign seen tenant (tq_campaign rq) (parse_uuid aid) (level_num (derive_capability_level caps)) now = None"
      and a: "\<exists>a. validate_approval seen tenant (tq_approval rq) (level_num (derive_capability_level caps)) (Some (tq_tool rq)) (tq_campaign rq)
           (parse_uuid aid) now = Inr a \<and> gov_approval_id (cj_governance cj) = Some a"
      by (rule evaluate_allowedE [OF d(2) [unfolded d(1)]]) (use l3 in \<open>auto simp: d(1)\<close>)
    then obtain i where i: "validate_approval seen tenant (tq_approval rq) (level_num (derive_capability_level caps)) (Some (tq_tool rq)) (tq_campaign rq)
           (parse_uuid aid) now = Inr i" "gov_approval_id (cj_governance cj) = Some i" by blast
    obtain p where p: "approval_covers seen tenant (level_num (derive_capability_level caps)) (Some (tq_tool rq)) (tq_campaign rq) (parse_uuid aid) now i p"
      using validate_approval_ok [OF i(1)] by blast
    then have id: "ap_id p = i" by (simp add: approval_covers_def)
    have "consume_approval i now (rd_gov db) = Some (rd_gov db')" using d(8) i(2) by simp
    from consume_approval_Some(1,3) [OF this]
    have "(\<exists>q \<in> set (approvals (rd_gov db)). ap_id q = ap_id p \<and> ap_consumed_at q = None) \<and>
        (\<forall>q \<in> set (approvals (rd_gov db')). ap_id q = ap_id p \<longrightarrow> ap_consumed_at q \<noteq> None)" unfolding id spent_def by blast
    moreover obtain c where "campaign_covers seen tenant (tq_campaign rq) (parse_uuid aid) (level_num (derive_capability_level caps)) now c"
      using validate_campaign_ok [OF c] by blast
    ultimately show ?thesis using aid p unfolding id [symmetric] by (intro exI [of _ aid] exI [of _ c] exI [of _ p] conjI) simp_all
  qed
  show ?thesis using d(1,2,7) targets policy sensitive by simp
qed

subsection \<open>An approval opens one job\<close>

text \<open>Decisions one after the other, each on governance tables read at any time.\<close>

fun decide_all :: "rail_env \<Rightarrow> (tool_request \<times> uuid \<times> tool_capabilities \<times> int \<times> gov_db) list \<Rightarrow> rail_db \<Rightarrow> cleared_job list" where
  "decide_all env [] db = []"
| "decide_all env ((rq, tenant, caps, now, seen) # rest) db =
     (case decide_tool_job env rq tenant caps now seen db of
        Inl e \<Rightarrow> decide_all env rest db
      | Inr (Inl out, db) \<Rightarrow> decide_all env rest db
      | Inr (Inr cj, db) \<Rightarrow> cj # decide_all env rest db)"

lemma decide_tool_job_refused: "decide_tool_job env rq tenant caps now seen db = Inr (Inl out, db') \<Longrightarrow> rd_gov db' = rd_gov db"
  unfolding decide_tool_job_def Let_def by (auto split: if_splits option.splits)

lemma cleared_step:
  "decide_tool_job env rq tenant caps now seen db = Inr (Inr cj, db') \<Longrightarrow>
   gov_approval_id (cj_governance cj) = None \<and> rd_gov db' = rd_gov db \<or>
   (\<exists>aid. gov_approval_id (cj_governance cj) = Some aid \<and> consume_approval aid now (rd_gov db) = Some (rd_gov db'))"
  by (rule decide_tool_job_cleared)

lemma decide_all_cases:
  obtains (other) db' where "rd_gov db' = rd_gov db" "decide_all env ((rq, tenant, caps, now, seen) # rest) db = decide_all env rest db'"
  | (cleared) cj db' where "decide_tool_job env rq tenant caps now seen db = Inr (Inr cj, db')"
      "decide_all env ((rq, tenant, caps, now, seen) # rest) db = cj # decide_all env rest db'"
proof (cases "decide_tool_job env rq tenant caps now seen db")
  case (Inl e)
  then show thesis using other [of db] by simp
next
  case (Inr r)
  obtain res db' where r: "r = (res, db')" by (cases r)
  show thesis
  proof (cases res)
    case (Inl o1)
    then show thesis using other [of db'] decide_tool_job_refused Inr r by simp
  next
    case (Inr cj)
    then show thesis using cleared [of cj db'] \<open>decide_tool_job env rq tenant caps now seen db = Inr r\<close> r by simp
  qed
qed

lemma spent_opens_none: "spent a (rd_gov db) \<Longrightarrow> filter (\<lambda>cj. gov_approval_id (cj_governance cj) = Some a) (decide_all env steps db) = []"
proof (induction steps arbitrary: db)
  case (Cons s steps)
  obtain rq tenant caps now seen where s: "s = (rq, tenant, caps, now, seen)" by (cases s)
  show ?case
  proof (cases rule: decide_all_cases [of db env rq tenant caps now seen steps])
    case (other db')
    then show ?thesis using Cons.IH [of db'] Cons.prems by (simp add: s del: decide_all.simps)
  next
    case (cleared cj db')
    have "spent a (rd_gov db') \<and> gov_approval_id (cj_governance cj) \<noteq> Some a"
      using cleared_step [OF cleared(1)]
    proof
      assume "\<exists>aid. gov_approval_id (cj_governance cj) = Some aid \<and> consume_approval aid now (rd_gov db) = Some (rd_gov db')"
      then obtain aid where aid: "gov_approval_id (cj_governance cj) = Some aid" "consume_approval aid now (rd_gov db) = Some (rd_gov db')" by blast
      from consume_approval_Some(4) [OF aid(2) Cons.prems] aid(1) show ?thesis by simp
    qed (use Cons.prems in simp)
    then show ?thesis using Cons.IH [of db'] cleared(2) by (simp add: s del: decide_all.simps)
  qed
qed simp

text \<open>C35: An approval opens one job.  However many requests arrive, and however old the governance tables each of them was decided on, at
  most one job is cleared by the same approval.\<close>

theorem approval_opens_one_job:
  "length (filter (\<lambda>cj. gov_approval_id (cj_governance cj) = Some a) (decide_all env steps db)) \<le> 1"
proof (induction steps arbitrary: db)
  case (Cons s steps)
  obtain rq tenant caps now seen where s: "s = (rq, tenant, caps, now, seen)" by (cases s)
  show ?case
  proof (cases rule: decide_all_cases [of db env rq tenant caps now seen steps])
    case (other db')
    then show ?thesis using Cons.IH [of db'] by (simp add: s del: decide_all.simps)
  next
    case (cleared cj db')
    show ?thesis
    proof (cases "gov_approval_id (cj_governance cj) = Some a")
      case True
      then have "spent a (rd_gov db')" using cleared_step [OF cleared(1)] consume_approval_Some(3) by force
      from spent_opens_none [OF this] show ?thesis using cleared(2) True by (simp add: s del: decide_all.simps)
    next
      case False
      then show ?thesis using Cons.IH [of db'] cleared(2) by (simp add: s del: decide_all.simps)
    qed
  qed
qed simp

subsection \<open>The way there and back\<close>

lemma dict_get_filter_key: "dict_get (filter (\<lambda>(k, v). P k) d) k = (if P k then dict_get d k else None)"
  by (induction d) auto

lemma open_sealed_map:
  "(\<And>k. k \<in> set ks \<Longrightarrow> rl_unseal env (rl_seal env (f k)) = Some (f k)) \<Longrightarrow>
   \<exists>out'. open_sealed env (map (\<lambda>k. (k, JStr (rl_seal env (f k)))) ks) out = Inr out' \<and>
     dict_get out' = (\<lambda>k. if k \<in> set ks then Some (f k) else dict_get out k)"
proof (induction ks arbitrary: out)
  case (Cons k ks)
  obtain out' where o: "open_sealed env (map (\<lambda>k. (k, JStr (rl_seal env (f k)))) ks) (dict_set k (f k) out) = Inr out'"
      "dict_get out' = (\<lambda>q. if q \<in> set ks then Some (f q) else dict_get (dict_set k (f k) out) q)"
    using Cons.IH [of "dict_set k (f k) out"] Cons.prems by auto
  then show ?case using Cons.prems [of k] by (auto simp: unseal_def fun_eq_iff)
qed (simp add: fun_eq_iff)

lemma unseal_seal_settings:
  assumes seal: "\<And>k. k \<in> set SEALED_SETTING_KEYS \<Longrightarrow> dict_get s k \<noteq> None \<Longrightarrow> rl_unseal env (rl_seal env (jget s k)) = Some (jget s k)"
    and plain: "dict_get s ''_sealed'' = None"
  shows "\<exists>s'. unseal_settings env (seal_settings env s) = Inr s' \<and> dict_get s' = dict_get s"
proof -
  let ?ks = "filter (\<lambda>k. dict_get s k \<noteq> None) SEALED_SETTING_KEYS"
  let ?out = "filter (\<lambda>(k, v). k \<notin> set SEALED_SETTING_KEYS) s"
  have out: "dict_get ?out = (\<lambda>k. if k \<in> set SEALED_SETTING_KEYS then None else dict_get s k)"
    using dict_get_filter_key [of "\<lambda>k. k \<notin> set SEALED_SETTING_KEYS" s] by (auto simp: fun_eq_iff)
  then have no_seal: "dict_get ?out ''_sealed'' = None" using plain by simp
  show ?thesis
  proof (cases "?ks = []")
    case True
    then have "dict_get ?out = dict_get s" unfolding out by (auto simp: fun_eq_iff filter_empty_conv)
    moreover have "dict_get (filter (\<lambda>(k, v). k \<noteq> ''_sealed'') ?out) = dict_get ?out"
      using no_seal dict_get_filter_key [of "\<lambda>k. k \<noteq> ''_sealed''" ?out] by (auto simp: fun_eq_iff)
    moreover have "seal_settings env s = ?out" using True by (simp add: seal_settings_def Let_def)
    moreover have "jget ?out ''_sealed'' = JNull" using no_seal by (simp add: jget_def)
    ultimately show ?thesis by (simp add: unseal_settings_def Let_def)
  next
    case False
    let ?sealed = "map (\<lambda>k. (k, JStr (rl_seal env (jget s k)))) ?ks"
    have st: "seal_settings env s = dict_set ''_sealed'' (JObj ?sealed) ?out" using False by (simp add: seal_settings_def Let_def)
    let ?out2 = "filter (\<lambda>(k, v). k \<noteq> ''_sealed'') (seal_settings env s)"
    have out2: "dict_get ?out2 = dict_get ?out"
      using no_seal dict_get_filter_key [of "\<lambda>k. k \<noteq> ''_sealed''" "seal_settings env s"] unfolding st by (auto simp: fun_eq_iff)
    obtain s' where s': "open_sealed env ?sealed ?out2 = Inr s'" "dict_get s' = (\<lambda>k. if k \<in> set ?ks then Some (jget s k) else dict_get ?out2 k)"
      using open_sealed_map [of ?ks env "jget s" ?out2] seal by auto
    have "jget (seal_settings env s) ''_sealed'' = JObj ?sealed" by (simp add: st jget_def)
    then have "unseal_settings env (seal_settings env s) = Inr s'" using s'(1) by (simp add: unseal_settings_def Let_def)
    moreover have "dict_get s' = dict_get s" unfolding s'(2) out2 out by (auto simp: fun_eq_iff jget_def)
    ultimately show ?thesis by blast
  qed
qed

lemma wires_back: "job_from_wire (job_to_wire j) = Some j" "evidence_from_wire (evidence_to_wire e) = Some e"
  using tool_wire_roundtrip by simp_all

lemma evidence_of_result:
  assumes seal: "rl_unseal env (rl_seal env (JList (map (\<lambda>e. JObj (evidence_to_wire e)) es))) = Some (JList (map (\<lambda>e. JObj (evidence_to_wire e)) es))"
  shows "bind_r (unseal_result env (seal_result env es)) evidence_of_wires = Inr es"
proof -
  have "all_some (map (\<lambda>w. case w of JObj d \<Rightarrow> evidence_from_wire d | _ \<Rightarrow> None) (map (\<lambda>e. JObj (evidence_to_wire e)) es)) = Some es"
    by (induction es) (simp_all add: wires_back)
  then show ?thesis by (simp add: unseal_result_def seal_result_def unseal_def seal evidence_of_wires_def)
qed

text \<open>C36: The rail adds nothing and loses nothing.  With matching keys, a seal that opens, a job that arrives in time and a nonce not
  used before, what the control plane gets back from the execution plane is what the provider returns when it is run on the
  job itself, with its settings in the clear and equal at every key.\<close>

theorem rail_is_transparent:
  assumes "key_pair (rl_signer env) (rl_checker env)" "signing_key (rl_signer env) = Inr k"
    and "\<And>k. k \<in> set SEALED_SETTING_KEYS \<Longrightarrow> dict_get s k \<noteq> None \<Longrightarrow> rl_unseal env (rl_seal env (jget s k)) = Some (jget s k)"
    and "\<And>s' es. execute_tool pv (job\<lparr>tj_settings := s'\<rparr>) = Inr es \<Longrightarrow> rl_unseal env (rl_seal env (JList (map (\<lambda>e. JObj (evidence_to_wire e)) es))) =
         Some (JList (map (\<lambda>e. JObj (evidence_to_wire e)) es))"
    and "dict_get s ''_sealed'' = None"
    and "rc_sign t \<le> rc_verify t + seconds 60" "rc_verify t \<le> rc_sign t + seconds DEFAULT_TTL_SECONDS"
    and "reserve (ri_nonce ids) (nonce_ttl (rc_sign t + seconds DEFAULT_TTL_SECONDS) (rc_verify t)) (rc_reserve t) st = (Some True, st')"
    and "rl_tools env (tj_tool_key job) = Some pv"
  shows "\<exists>s'. dict_get s' = dict_get s \<and>
    send_job env reserve t ids (job\<lparr>tj_settings := seal_settings env s\<rparr>) st =
      ((case execute_tool pv (job\<lparr>tj_settings := s'\<rparr>) of Inl e \<Rightarrow> Inl (Raised e) | Inr es \<Rightarrow> Inr es), st')"
proof -
  obtain s' where s': "unseal_settings env (seal_settings env s) = Inr s'" "dict_get s' = dict_get s"
    using unseal_seal_settings [OF assms(3,5)] by blast
  let ?wire = "job_to_wire (job\<lparr>tj_settings := seal_settings env s\<rparr>)"
  obtain d where d: "sign_job (rl_signer env) (rc_sign t) (ri_nonce ids) DEFAULT_TTL_SECONDS ?wire = Inr d"
    using assms(2) by (simp add: sign_job_def Let_def)
  have "verify_job (rl_checker env) reserve (JObj d) (rc_verify t) (rc_reserve t) st = (Inr ?wire, st')"
    by (rule verify_signed [where reserve = reserve, OF assms(1) d assms(6,7,8)])
  then have "run_tool env reserve (JObj d) (rc_verify t) (rc_reserve t) st = (run_job env ?wire, st')" by (simp add: run_tool_def)
  moreover have "run_job env ?wire = bind_r (execute_tool pv (job\<lparr>tj_settings := s'\<rparr>)) (\<lambda>es. Inr (seal_result env es))"
    by (simp add: run_job_def wires_back s'(1) assms(9) Let_def)
  ultimately have "send_job env reserve t ids (job\<lparr>tj_settings := seal_settings env s\<rparr>) st =
      ((case execute_tool pv (job\<lparr>tj_settings := s'\<rparr>) of Inl e \<Rightarrow> Inl (Raised e) | Inr es \<Rightarrow> Inr es), st')"
    using d by (cases "execute_tool pv (job\<lparr>tj_settings := s'\<rparr>)")
      (simp_all add: send_job_def evidence_of_result [OF assms(4)] del: bind_r_Inr)
  then show ?thesis using s'(2) by blast
qed

subsection \<open>Runs\<close>

text \<open>A pentester of tenant 1 asks for a credential test under the campaign and the approval of the governance example.\<close>

definition quiet_provider :: "tool_capabilities \<Rightarrow> tool_provider" where
  "quiet_provider caps = \<lparr>tv_capabilities = caps, tv_version = ''1'', tv_external = False, tv_validate = (\<lambda>j. None),
     tv_execute = (\<lambda>b j. Inr []), tv_normalize = (\<lambda>e. None)\<rparr>"

definition demo_rail :: "tool_capabilities \<Rightarrow> rail_env" where
  "demo_rail caps = \<lparr>rl_tools = (\<lambda>k. Some (quiet_provider caps)), rl_seal = (\<lambda>v. if v = JStr ''PCAP'' then ''1'' else ''2''), rl_unseal = (\<lambda>s. if s = ''1'' then Some (JStr ''PCAP'') else Some (JList [])),
     rl_signer = unary_signing, rl_checker = unary_signing, rl_sha = id, rl_owner_direct_recon = False\<rparr>"

definition demo_row :: "string \<Rightarrow> authorization_row" where
  "demo_row m = \<lparr>ar_id = 3, ar_tenant_id = 1, ar_customer_id = 2, ar_method = m, ar_asset_id = None,
     ar_targets = [JObj [(''kind'', JStr ''domain''), (''value'', JStr ''app.example.com'')]],
     ar_valid_from = Some (Aware 0), ar_valid_until = Some (Aware 99), ar_revoked_at = None\<rparr>"

definition demo_rail_db :: "string \<Rightarrow> rail_db" where
  "demo_rail_db m = \<lparr>rd_gov = demo_db, rd_metadata = [], rd_authorizations = [demo_row m], rd_assets = [], rd_criticality = [],
     rd_evidence = [], rd_scans = [], rd_findings = [], rd_audit = [], rd_enrich = []\<rparr>"

definition demo_request :: "string \<Rightarrow> tool_request" where
  "demo_request tool = \<lparr>tq_tenant = ''00000000-0000-0000-0000-000000000001'', tq_tool = tool, tq_targets = [], tq_actor = Some demo_id,
     tq_human_approved = True, tq_settings = [], tq_policy = None, tq_campaign = Some demo_id, tq_approval = Some demo_id,
     tq_owner_direct = False, tq_asset = None\<rparr>"

definition cleared_targets :: "py_error + (tool_outcome + cleared_job) \<times> rail_db \<Rightarrow> (string list \<times> bool) option" where
  "cleared_targets r = (case r of Inr (Inr cj, db) \<Rightarrow> Some (es_targets (cj_scope cj), es_network_allowed (cj_scope cj)) | _ \<Rightarrow> None)"

lemma demo_cleared:
  "cleared_targets (decide_tool_job (demo_rail (demo_caps ''credential'')) (demo_request ''hydra'') 1 (demo_caps ''credential'') 10 demo_db
     (demo_rail_db ''active_recon'')) = Some ([''app.example.com''], True)"
  by code_simp

lemma cleared_job_is_permitted_witness:
  "\<exists>cj db'. decide_tool_job (demo_rail (demo_caps ''credential'')) (demo_request ''hydra'') 1 (demo_caps ''credential'') 10 demo_db
       (demo_rail_db ''active_recon'') = Inr (Inr cj, db') \<and>
     es_targets (cj_scope cj) = [''app.example.com''] \<and> (\<exists>q \<in> set (approvals (rd_gov db')). ap_id q = 7 \<and> ap_consumed_at q \<noteq> None) \<and>
     (\<exists>p. approval_covers demo_db 1 3 (Some ''hydra'') (Some demo_id) (parse_uuid demo_id) 10 (ap_id p) p)"
proof -
  let ?run = "decide_tool_job (demo_rail (demo_caps ''credential'')) (demo_request ''hydra'') 1 (demo_caps ''credential'') 10 demo_db (demo_rail_db ''active_recon'')"
  obtain cj db' where run: "?run = Inr (Inr cj, db')" "es_targets (cj_scope cj) = [''app.example.com'']"
    using demo_cleared by (auto simp: cleared_targets_def split: sum.splits prod.splits)
  from cleared_job_is_permitted [OF run(1)] obtain aid p where
    aid: "tq_actor (demo_request ''hydra'') = Some aid"
    and p: "approval_covers demo_db 1 3 (Some ''hydra'') (Some demo_id) (parse_uuid aid) 10 (ap_id p) p"
    and q: "\<exists>q \<in> set (approvals demo_db). ap_id q = ap_id p \<and> ap_consumed_at q = None"
    and spent: "\<forall>q \<in> set (approvals (rd_gov db')). ap_id q = ap_id p \<longrightarrow> ap_consumed_at q \<noteq> None"
    by (auto simp: demo_level L3_def demo_request_def demo_rail_db_def)
  have seven: "ap_id p = 7" using q by (auto simp: demo_db_def)
  have "map ap_id (approvals (rd_gov db')) = [7]"
    using cleared_step [OF run(1)] by (auto simp: demo_rail_db_def demo_db_def dest!: consume_approval_Some(2))
  then obtain q where "q \<in> set (approvals (rd_gov db'))" "ap_id q = 7" by (cases "approvals (rd_gov db')") auto
  then have q7: "\<exists>q \<in> set (approvals (rd_gov db')). ap_id q = 7 \<and> ap_consumed_at q \<noteq> None" using spent seven by auto
  have "aid = demo_id" using aid by (simp add: demo_request_def)
  then have "\<exists>p. approval_covers demo_db 1 3 (Some ''hydra'') (Some demo_id) (parse_uuid demo_id) 10 (ap_id p) p" using p by auto
  with run q7 show ?thesis by (intro exI [of _ cj] exI [of _ db'] conjI)
qed

definition demo_clock :: rail_clock where
  "demo_clock = \<lparr>rc_decide = 10, rc_sign = 0, rc_verify = 500000, rc_reserve = 500000, rc_store = 600000\<rparr>"

definition demo_ids :: rail_ids where "demo_ids = \<lparr>ri_job = ''j'', ri_nonce = ''n'', ri_evidence = int, ri_rows = (\<lambda>h i. int i)\<rparr>"

definition demo_tool_job :: "string \<Rightarrow> tool_job" where
  "demo_tool_job tool = \<lparr>tj_tenant_id = ''1'', tj_job_id = ''j'', tj_tool_key = tool,
     tj_scope = derive_effective_scope [] [''app.example.com''] sample_caps None, tj_settings = []\<rparr>"

lemma unary_pair: "key_pair unary_signing unary_signing" by (simp add: key_pair_def unary_signing_simps of_unary_unary)

lemma rail_is_transparent_witness:
  "\<exists>s'. dict_get s' = dict_get [(''ct'', JStr ''PCAP''), (''depth'', JInt 2)] \<and>
     fst (send_job (demo_rail sample_caps) demo_store demo_clock demo_ids
       (demo_tool_job ''pcap''\<lparr>tj_settings := seal_settings (demo_rail sample_caps) [(''ct'', JStr ''PCAP''), (''depth'', JInt 2)]\<rparr>) ([], [])) = Inr []"
proof -
  let ?s = "[(''ct'', JStr ''PCAP''), (''depth'', JInt 2)]"
  have "\<exists>s'. dict_get s' = dict_get ?s \<and>
    send_job (demo_rail sample_caps) demo_store demo_clock demo_ids (demo_tool_job ''pcap''\<lparr>tj_settings := seal_settings (demo_rail sample_caps) ?s\<rparr>) ([], []) =
      ((case execute_tool (quiet_provider sample_caps) (demo_tool_job ''pcap''\<lparr>tj_settings := s'\<rparr>) of Inl e \<Rightarrow> Inl (Raised e) | Inr es \<Rightarrow> Inr es),
       ([(KEY_PREFIX @ ''n'', 299500000)], []))"
    by (rule rail_is_transparent [where k = "''k''"])
       (auto simp: demo_rail_def unary_pair unary_signing_simps demo_clock_def demo_ids_def DEFAULT_TTL_SECONDS_def seconds_def demo_ttl
         demo_reserve(1) execute_tool_def quiet_provider_def SEALED_SETTING_KEYS_def jget_def demo_tool_job_def)
  then show ?thesis by (auto simp: execute_tool_def quiet_provider_def)
qed

text \<open>A consent that anybody may record, and that permits no network activity, clears a tool that uses the network.\<close>

lemma consent_clears_network_tool:
  "''written_consent'' \<notin> NETWORK_METHODS \<and>
   cleared_targets (decide_tool_job (demo_rail (demo_caps ''recon'')) (demo_request ''httpx'') 1 (demo_caps ''recon'') 10 demo_db
     (demo_rail_db ''written_consent'')) = Some ([''app.example.com''], True)"
  by (rule conjI) (simp add: NETWORK_METHODS_def, code_simp)

text \<open>A job the execution plane refuses comes back as an empty result, which counts as a completed run without findings.\<close>

lemma refused_job_completes:
  assumes "decide_tool_job env rq tenant (tv_capabilities pv) (rc_decide t) seen db = Inr (Inr cj, db1)"
    and "rl_tools env (tq_tool rq) = Some pv" "parse_uuid (tq_tenant rq) = Some tenant" "signing_key (rl_signer env) = Inr k"
    and "\<And>d. fst (verify_job (rl_checker env) reserve (JObj d) (rc_verify t) (rc_reserve t) st) = Inl (JobVerificationError r)"
    and "tq_tool rq \<noteq> ''ct_surface''" "\<not> tq_owner_direct rq"
  shows "\<exists>b. fst (dispatch_tool_job env bind_ct reserve rq t ids seen db st) = Inr (ToolCompleted (ri_job ids) 0 0 0 b)"
proof -
  have run: "\<exists>st'. run_tool env reserve (JObj d) (rc_verify t) (rc_reserve t) st = (Inr (JList []), st')" for d
    using assms(5) [of d] by (cases "verify_job (rl_checker env) reserve (JObj d) (rc_verify t) (rc_reserve t) st") (simp add: run_tool_def)
  have empty: "bind_r (unseal_result env (JList [])) evidence_of_wires = Inr []" by (simp add: unseal_result_def evidence_of_wires_def)
  have sent: "\<exists>st'. send_job env reserve t ids job st = (Inr [], st')" for job
  proof -
    obtain d where d: "sign_job (rl_signer env) (rc_sign t) (ri_nonce ids) DEFAULT_TTL_SECONDS (job_to_wire job) = Inr d"
      using assms(4) by (simp add: sign_job_def Let_def)
    obtain st' where "run_tool env reserve (JObj d) (rc_verify t) (rc_reserve t) st = (Inr (JList []), st')" using run by blast
    then have "send_job env reserve t ids job st = (Inr [], st')" using d by (simp add: send_job_def empty del: bind_r_Inr)
    then show ?thesis by blast
  qed
  have "store_evidence env tenant t ids [] db1 = Inr db1"
    by (simp add: store_evidence_def persist_evidence_chain_def in_evidence_order_def bind_r_def)
  moreover have "binder_for env bind_ct rq cj tenant t ids db1 [] = Inr (db1, [])"
    using assms(6,7) by (simp add: binder_for_def Let_def bind_nmap_findings_def bind_and_derive_findings_def group_by_target_def
        nmap_services_def sorted_set_def split: option.splits)
  ultimately have kept: "bind_r (store_evidence env tenant t ids [] db1) (\<lambda>db2. binder_for env bind_ct rq cj tenant t ids db2 []) = Inr (db1, [])"
    by simp
  obtain st' where "send_job env reserve t ids (cleared_tool_job env rq cj ids) st = (Inr [], st')" using sent by blast
  then have "fst (dispatch_tool_job env bind_ct reserve rq t ids seen db st) =
      Inr (ToolCompleted (ri_job ids) 0 0 0 (pd_requires_human_approval (cj_decision cj)))"
    unfolding dispatch_tool_job_def assms(1-3) option.case sum.case prod.case by (simp add: kept assms(1) del: bind_r_Inr)
  then show ?thesis by blast
qed

subsection \<open>What a port scan leaves behind\<close>

lemma record_tool_scan_rows:
  assumes "record_tool_scan env tenant key pv basis a ids raws db = Inr db'"
  obtains fs where "db' = db\<lparr>rd_scans := rd_scans db @ [tool_scan_of tenant key pv basis a ids], rd_findings := rd_findings db @ fs\<rparr>"
    "list_all2 (\<lambda>raw f. \<exists>i c. to_finding (rl_sha env) i raw c = Inr f \<and> fc_tenant_id c = tenant \<and> fc_scan_id c = ids 0 \<and> fc_asset_id c = as_id a) raws fs"
proof -
  have fs: "findings_of sha i n c rs = Inr fs \<Longrightarrow> list_all2 (\<lambda>raw f. \<exists>i. to_finding sha i raw c = Inr f) rs fs" for sha i n c rs fs
    by (induction rs arbitrary: n fs) auto
  define c where "c = \<lparr>fc_tenant_id = tenant, fc_customer_id = as_customer_id a, fc_scan_id = ids 0, fc_engine_run_id = ids 1, fc_asset_id = as_id a,
    fc_exposure = as_exposure a, fc_asset_criticality = criticality_of db (as_customer_id a), fc_business_impact = criticality_of db (as_customer_id a),
    fc_source = ''automated''\<rparr>"
  have c: "fc_tenant_id c = tenant" "fc_scan_id c = ids 0" "fc_asset_id c = as_id a" by (simp_all add: c_def)
  obtain fs' where f: "findings_of (rl_sha env) ids 2 c raws = Inr fs'"
      "db' = db\<lparr>rd_scans := rd_scans db @ [tool_scan_of tenant key pv basis a ids], rd_findings := rd_findings db @ fs'\<rparr>"
    using assms unfolding record_tool_scan_def Let_def c_def [symmetric] by auto
  show thesis by (rule that [OF f(2)]) (rule list_all2_mono [OF fs [OF f(1)]], use c in blast)
qed

definition lists_address :: "authorization_row \<Rightarrow> string \<Rightarrow> bool" where
  "lists_address r ip \<longleftrightarrow> (\<exists>d. JObj d \<in> set (ar_targets r) \<and> py_str (jget d ''value'') = ip)"

lemma first_naming_names:
  "first_naming db ip rs = Inr (Some a) \<Longrightarrow> \<exists>r \<in> set rs. lists_address r ip \<and> find_asset db (the (ar_asset_id r)) = Some a"
proof (induction rs)
  case (Cons r rs)
  have "names_value ip ts = Inr True \<Longrightarrow> \<exists>d. JObj d \<in> set ts \<and> py_str (jget d ''value'') = ip" for ts
    by (induction ip ts rule: names_value.induct) (auto split: if_splits)
  then show ?case using Cons by (auto simp: lists_address_def split: if_splits)
qed simp

definition address_named :: "authorization_row list \<Rightarrow> rail_asset list \<Rightarrow> string \<Rightarrow> rail_asset \<Rightarrow> bool" where
  "address_named rows assets ip a \<longleftrightarrow> a \<in> set assets \<and> (\<exists>r \<in> set rows. ar_asset_id r = Some (as_id a) \<and> lists_address r ip)"

lemma asset_for_target_ip_named:
  assumes "asset_for_target_ip db tenant ip now = Inr (Some a)"
  shows "address_named (live_rows db tenant now) (rd_assets db) ip a"
proof -
  obtain r where r: "r \<in> set (filter (\<lambda>r. ar_asset_id r \<noteq> None) (live_rows db tenant now))" "lists_address r ip"
      "find_asset db (the (ar_asset_id r)) = Some a"
    using first_naming_names assms unfolding asset_for_target_ip_def by blast
  then have "a \<in> set (rd_assets db)" "as_id a = the (ar_asset_id r)" using find_SomeD [of _ "rd_assets db" a] by (auto simp: find_asset_def)
  then show ?thesis using r by (auto simp: address_named_def)
qed

text \<open>What the port scan reported of one address, and what is recorded for an address: a scan on an asset that an authorization
  lists the address for, with one finding for each report that says something about this address.\<close>

definition evidence_about :: "string \<Rightarrow> raw_evidence list \<Rightarrow> raw_evidence list" where
  "evidence_about h es = filter (\<lambda>e. re_target e = h) (nmap_services es)"

type_synonym scanned = "string \<times> rail_asset \<times> tool_scan \<times> finding list"

definition scanned_host ::
    "rail_env \<Rightarrow> rail_db \<Rightarrow> uuid \<Rightarrow> int \<Rightarrow> tool_provider \<Rightarrow> raw_evidence list \<Rightarrow> scanned \<Rightarrow> bool" where
  "scanned_host env db tenant now pv es g \<longleftrightarrow>
     (case g of (h, a, s, fs) \<Rightarrow>
        address_named (live_rows db tenant now) (rd_assets db) h a \<and>
        ts_tenant_id s = tenant \<and> ts_asset_id s = as_id a \<and> ts_customer_id s = as_customer_id a \<and>
        list_all2 (\<lambda>raw f. \<exists>i c. to_finding (rl_sha env) i raw c = Inr f \<and> fc_tenant_id c = tenant \<and> fc_scan_id c = ts_id s \<and> fc_asset_id c = as_id a)
          (raws_of pv (evidence_about h es)) fs)"

definition records_scans :: "scanned list \<Rightarrow> rail_db \<Rightarrow> rail_db \<Rightarrow> bool" where
  "records_scans gs db db' \<longleftrightarrow> rd_scans db' = rd_scans db @ map (\<lambda>(h, a, s, fs). s) gs \<and>
     rd_findings db' = rd_findings db @ concat (map (\<lambda>(h, a, s, fs). fs) gs)"

lemma bind_hosts_records:
  assumes same: "\<And>db1 h. rd_authorizations db1 = rd_authorizations db0 \<Longrightarrow> rd_assets db1 = rd_assets db0 \<Longrightarrow> resolve db1 h = resolve db0 h"
    and named: "\<And>h a. resolve db0 h = Inr (Some a) \<Longrightarrow> address_named (live_rows db0 tenant now) (rd_assets db0) h a"
  shows "bind_hosts env resolve True tenant key pv basis ids (map (\<lambda>h. (h, evidence_about h es)) hs) db = Inr (db', bound) \<Longrightarrow>
    rd_authorizations db = rd_authorizations db0 \<Longrightarrow> rd_assets db = rd_assets db0 \<Longrightarrow>
    \<exists>gs. records_scans gs db db' \<and> list_all (scanned_host env db0 tenant now pv es) gs \<and>
      map fst gs = filter (\<lambda>h. resolve db0 h \<noteq> Inr None \<and> raws_of pv (evidence_about h es) \<noteq> []) hs"
proof (induction hs arbitrary: db bound)
  case Nil
  then show ?case by (intro exI [of _ "[]"]) (simp add: records_scans_def)
next
  case (Cons h hs)
  let ?rest = "map (\<lambda>h. (h, evidence_about h es)) hs"
  have res: "resolve db h = resolve db0 h" by (rule same [OF Cons.prems(2,3)])
  obtain found where found: "resolve db0 h = Inr found" using Cons.prems(1) by (auto simp: res [symmetric])
  show ?case
  proof (cases "found = None \<or> raws_of pv (evidence_about h es) = []")
    case True
    then have "bind_hosts env resolve True tenant key pv basis ids ?rest db = Inr (db', bound)"
      using Cons.prems(1) found res by (cases found) simp_all
    from Cons.IH [OF this Cons.prems(2,3)] show ?thesis using True found by auto
  next
    case False
    then obtain a where a: "found = Some a" "raws_of pv (evidence_about h es) \<noteq> []" by auto
    obtain db1 bound1 where r: "record_tool_scan env tenant key pv basis a (ids h) (raws_of pv (evidence_about h es)) db = Inr db1"
      and rest: "bind_hosts env resolve True tenant key pv basis ids ?rest db1 = Inr (db', bound1)"
      using Cons.prems(1) unfolding list.map bind_hosts.simps res found bind_r_simps a(1) option.case Let_def by (auto simp: a(2))
    obtain fs where fs: "db1 = db\<lparr>rd_scans := rd_scans db @ [tool_scan_of tenant key pv basis a (ids h)], rd_findings := rd_findings db @ fs\<rparr>"
      "list_all2 (\<lambda>raw f. \<exists>i c. to_finding (rl_sha env) i raw c = Inr f \<and> fc_tenant_id c = tenant \<and> fc_scan_id c = ids h 0 \<and> fc_asset_id c = as_id a)
        (raws_of pv (evidence_about h es)) fs"
      using record_tool_scan_rows [OF r] by blast
    have "rd_authorizations db1 = rd_authorizations db0" "rd_assets db1 = rd_assets db0" using fs(1) Cons.prems(2,3) by simp_all
    from Cons.IH [OF rest this] obtain gs where gs: "records_scans gs db1 db'" "list_all (scanned_host env db0 tenant now pv es) gs"
      "map fst gs = filter (\<lambda>h. resolve db0 h \<noteq> Inr None \<and> raws_of pv (evidence_about h es) \<noteq> []) hs" by blast
    let ?g = "(h, a, tool_scan_of tenant key pv basis a (ids h), fs)"
    have "scanned_host env db0 tenant now pv es ?g"
      using named found a(1) fs(2) by (simp add: scanned_host_def tool_scan_of_def)
    moreover have "records_scans (?g # gs) db db'" using gs(1) fs(1) by (simp add: records_scans_def)
    moreover have "map fst (?g # gs) = filter (\<lambda>h. resolve db0 h \<noteq> Inr None \<and> raws_of pv (evidence_about h es) \<noteq> []) (h # hs)"
      using gs(3) found a by simp
    ultimately show ?thesis using gs(2) by (intro exI [of _ "?g # gs"]) simp
  qed
qed

lemma asset_for_target_ip_cong:
  "rd_authorizations db1 = rd_authorizations db \<Longrightarrow> rd_assets db1 = rd_assets db \<Longrightarrow> asset_for_target_ip db1 tenant h now = asset_for_target_ip db tenant h now"
proof -
  assume same: "rd_authorizations db1 = rd_authorizations db" "rd_assets db1 = rd_assets db"
  have "find_asset db1 = find_asset db" by (simp add: find_asset_def same fun_eq_iff)
  then have "first_naming db1 h rs = first_naming db h rs" for rs
    by (induction rs) (simp_all cong: if_cong)
  then show ?thesis by (simp add: asset_for_target_ip_def live_rows_def same)
qed

lemma bind_nmap_records:
  assumes "bind_nmap_findings env tenant key basis now ids es db = Inr (db', bound)" and "rl_tools env key = Some pv"
  shows "\<exists>gs. records_scans gs db db' \<and> list_all (scanned_host env db tenant now pv es) gs \<and>
    map fst gs = filter (\<lambda>h. asset_for_target_ip db tenant h now \<noteq> Inr None \<and> raws_of pv (evidence_about h es) \<noteq> [])
      (sorted_set (map re_target (nmap_services es)))"
proof -
  have groups: "group_by_target (nmap_services es) = map (\<lambda>h. (h, evidence_about h es)) (sorted_set (map re_target (nmap_services es)))"
    by (simp add: group_by_target_def evidence_about_def)
  note run = assms(1) [unfolded bind_nmap_findings_def assms(2) option.case groups]
  show ?thesis
    by (rule bind_hosts_records [where resolve = "\<lambda>db ip. asset_for_target_ip db tenant ip now", OF asset_for_target_ip_cong asset_for_target_ip_named run refl refl])
qed

lemma bind_hosts_evidence:
  "bind_hosts env resolve strict tenant key pv basis ids gs db = Inr (db', bound) \<Longrightarrow> rd_evidence db' = rd_evidence db"
proof (induction gs arbitrary: db bound)
  case (Cons g gs)
  obtain h es where g: "g = (h, es)" by (cases g)
  have kept: "record_tool_scan env tenant key pv basis a i raws db = Inr db1 \<Longrightarrow> rd_evidence db1 = rd_evidence db" for a i raws db1
    by (auto simp: record_tool_scan_def Let_def)
  obtain found where found: "resolve db h = Inr found" using Cons.prems by (auto simp: g)
  show ?case
  proof (cases "found = None \<or> strict \<and> raws_of pv es = []")
    case True
    then have "bind_hosts env resolve strict tenant key pv basis ids gs db = Inr (db', bound)"
      using Cons.prems found by (cases found) (simp_all add: g)
    then show ?thesis by (rule Cons.IH)
  next
    case False
    then obtain a where a: "found = Some a" "\<not> (strict \<and> raws_of pv es = [])" by auto
    obtain db1 bound1 where r: "record_tool_scan env tenant key pv basis a (ids h) (raws_of pv es) db = Inr db1"
      and rest: "bind_hosts env resolve strict tenant key pv basis ids gs db1 = Inr (db', bound1)"
      using Cons.prems unfolding g bind_hosts.simps found bind_r_simps a(1) option.case Let_def if_not_P [OF a(2)] by auto
    show ?thesis using Cons.IH [OF rest] kept [OF r] by simp
  qed
qed simp

text \<open>In the task: the evidence that is bound is the evidence appended to the chain, and nothing else is recorded.\<close>

lemma dispatched_port_scan:
  assumes "dispatch_tool_job env bind_ct reserve rq t ids seen db st = (res, db', st')" "tq_tool rq = ''nmap''" "\<not> tq_owner_direct rq"
    and "parse_uuid (tq_tenant rq) = Some tenant"
  shows "rd_scans db' = rd_scans db \<and> rd_findings db' = rd_findings db \<or>
    (\<exists>pv es gs used. persist_evidence_chain (rl_sha env) tenant None (rc_store t) (map (ri_evidence ids) [0..<length es]) es (rd_evidence db) =
        Inr (rd_evidence db', used) \<and>
      rl_tools env ''nmap'' = Some pv \<and> records_scans gs db db' \<and> list_all (scanned_host env db tenant (rc_store t) pv es) gs)"
proof -
  let ?same = "\<lambda>db1. rd_scans db1 = rd_scans db \<and> rd_findings db1 = rd_findings db \<and> rd_authorizations db1 = rd_authorizations db \<and>
    rd_assets db1 = rd_assets db \<and> rd_evidence db1 = rd_evidence db"
  have decided: "?same db1" if "decide_tool_job env rq tn caps now seen db = Inr (x, db1)" for tn caps now x db1
    using that unfolding decide_tool_job_def Let_def by (auto split: if_splits option.splits)
  show ?thesis
  proof (cases "rl_tools env ''nmap''")
    case None
    then show ?thesis using assms(1,2) by (simp add: dispatch_tool_job_def)
  next
    case (Some pv)
    note start = assms(1) [unfolded dispatch_tool_job_def assms(2,4) Some option.case]
    show ?thesis
    proof (cases "decide_tool_job env rq tenant (tv_capabilities pv) (rc_decide t) seen db")
      case (Inl e)
      then show ?thesis using start by simp
    next
      case (Inr r)
      obtain x db1 where r: "r = (x, db1)" by (cases r)
      note kept = decided [OF Inr [unfolded r]]
      note start1 = start [unfolded Inr r sum.case prod.case]
      show ?thesis
      proof (cases x)
        case (Inl o1)
        then show ?thesis using start1 kept by simp
      next
        case (Inr cj)
        note start2 = start1 [unfolded Inr sum.case prod.case]
        show ?thesis
        proof (cases "send_job env reserve t ids (cleared_tool_job env rq cj ids) st")
          case (Pair sent st1)
          show ?thesis
          proof (cases sent)
            case (Inl e)
            then show ?thesis using start2 Pair kept by simp
          next
            case (Inr es)
            let ?keep = "bind_r (store_evidence env tenant t ids es db1) (\<lambda>db2. binder_for env bind_ct rq cj tenant t ids db2 es)"
            note start3 = start2 [unfolded Pair Inr sum.case prod.case]
            show ?thesis
            proof (cases ?keep)
              case (Inl e)
              then show ?thesis using start3 kept by simp
            next
              case (Inr r2)
              obtain db2 bound where r2: "r2 = (db2, bound)" by (cases r2)
              have same: "rd_scans db' = rd_scans db2" "rd_findings db' = rd_findings db2" "rd_evidence db' = rd_evidence db2"
                using start3 unfolding Inr r2 by auto
              obtain db3 where db3: "store_evidence env tenant t ids es db1 = Inr db3"
                and b: "bind_nmap_findings env tenant ''nmap'' (cj_basis cj) (rc_store t) (ri_rows ids) es db3 = Inr (db2, bound)"
                using Inr r2 assms(2,3) by (auto simp: binder_for_def Let_def)
              obtain used where used: "persist_evidence_chain (rl_sha env) tenant None (rc_store t) (map (ri_evidence ids) [0..<length es]) es (rd_evidence db) =
                  Inr (rd_evidence db3, used)" and like: "rd_scans db3 = rd_scans db" "rd_findings db3 = rd_findings db"
                  "rd_authorizations db3 = rd_authorizations db" "rd_assets db3 = rd_assets db"
                using db3 kept by (auto simp: store_evidence_def)
              have "rd_evidence db2 = rd_evidence db3" using b Some by (auto simp: bind_nmap_findings_def bind_hosts_evidence)
              moreover obtain gs where "records_scans gs db3 db2" "list_all (scanned_host env db3 tenant (rc_store t) pv es) gs"
                using bind_nmap_records [OF b Some] by blast
              moreover have "scanned_host env db3 = scanned_host env db" by (simp add: scanned_host_def live_rows_def like fun_eq_iff)
              ultimately show ?thesis using used Some same like by (auto simp: records_scans_def)
            qed
          qed
        qed
      qed
    qed
  qed
qed








end
