(* ===== verification/Scheduling.thy ===== *)
theory Scheduling
  imports Authorization
begin

text \<open>
  \<open>guardian_scanner/scheduling.py\<close> and \<open>recovery.py\<close>: the sweep that turns due schedules into queued work, and the one that sends again
  what the broker lost.  The session is the tables as changed so far and whether a flush has failed in it, after which every
  use of it raises and the commit rolls back; what was sent to the broker stays sent.  Seeds given as a list of pairs are not considered.
\<close>

subsection \<open>Tables\<close>

record schedule =
  sd_id :: uuid
  sd_tenant_id :: uuid
  sd_customer_id :: "uuid option"
  sd_kind :: string
  sd_target_id :: "uuid option"
  sd_interval :: int
  sd_enabled :: bool
  sd_next_run_at :: int
  sd_last_run_at :: "int option"
  sd_last_status :: "string option"
  sd_failures :: nat
  sd_settings :: jobj

record queued_scan =
  qs_id :: uuid
  qs_tenant_id :: uuid
  qs_customer_id :: uuid
  qs_asset_id :: uuid
  qs_trigger :: string
  qs_status :: string
  qs_engines :: "jval list"
  qs_created_at :: py_datetime

record discovery_run =
  dn_id :: uuid
  dn_tenant_id :: uuid
  dn_customer_id :: "uuid option"
  dn_scope_id :: "uuid option"
  dn_status :: string
  dn_trigger :: string
  dn_seeds :: jobj

record requeue_note =
  rn_scan_id :: uuid
  rn_tenant_id :: uuid
  rn_customer_id :: uuid
  rn_waited :: int

record work_db =
  wd_schedules :: "schedule list"
  wd_assets :: "asset_ref list"
  wd_scopes :: "uuid list"
  wd_scans :: "queued_scan list"
  wd_runs :: "discovery_run list"
  wd_notes :: "requeue_note list"

type_synonym message = "string \<times> string"

record sweep_session =
  ss_db :: work_db
  ss_broken :: bool
  ss_sent :: "message list"

subsection \<open>The sweep over the schedules\<close>

definition MAX_SCHEDULE_FAILURES :: nat where "MAX_SCHEDULE_FAILURES = 5"

definition advance :: "schedule \<Rightarrow> int \<Rightarrow> int" where
  "advance s now = now + seconds (max 300 (sd_interval s))"

fun py_list_of :: "jval \<Rightarrow> py_error + jval list" where
  "py_list_of (JList xs) = Inr xs"
| "py_list_of (JObj d) = Inr (map (JStr \<circ> fst) d)"
| "py_list_of (JStr s) = Inr (map (\<lambda>c. JStr [c]) s)"
| "py_list_of _ = Inl TypeError"

definition engines_of :: "schedule \<Rightarrow> py_error + jval list" where
  "engines_of s = py_list_of (jor (jget (sd_settings s) ''engines'') (JList [JStr ''secrets'', JStr ''sast'', JStr ''sca'']))"

definition seeds_of :: "schedule \<Rightarrow> py_error + jobj" where
  "seeds_of s = (case jor (jget (sd_settings s) ''seeds'') (JObj []) of JObj d \<Rightarrow> Inr d | _ \<Rightarrow> Inl TypeError)"

text \<open>Whether the dispatch returned, and the session after it.\<close>

definition publish :: "(message \<Rightarrow> bool) \<Rightarrow> message \<Rightarrow> sweep_session \<Rightarrow> bool \<times> sweep_session" where
  "publish takes m ses = (if takes m then (True, ses\<lparr>ss_sent := ss_sent ses @ [m]\<rparr>) else (False, ses))"

definition dispatch_scan :: "(message \<Rightarrow> bool) \<Rightarrow> uuid \<Rightarrow> int \<Rightarrow> schedule \<Rightarrow> sweep_session \<Rightarrow> bool \<times> sweep_session" where
  "dispatch_scan takes new_id now s ses =
     (case sd_target_id s of
        None \<Rightarrow> (False, ses)
      | Some t \<Rightarrow>
          if ss_broken ses then (False, ses)
          else case find (\<lambda>a. as_id a = t) (wd_assets (ss_db ses)) of
              None \<Rightarrow> (False, ses)
            | Some a \<Rightarrow>
                if as_tenant_id a \<noteq> sd_tenant_id s then (False, ses)
                else case engines_of s of
                    Inl e \<Rightarrow> (False, ses)
                  | Inr es \<Rightarrow>
                      let row = \<lparr>qs_id = new_id, qs_tenant_id = sd_tenant_id s, qs_customer_id = as_customer_id a, qs_asset_id = as_id a,
                                 qs_trigger = ''schedule'', qs_status = ''queued'', qs_engines = es, qs_created_at = Aware now\<rparr>
                      in publish takes (''guardian.run_scan'', str_uuid new_id)
                           (ses\<lparr>ss_db := (ss_db ses)\<lparr>wd_scans := wd_scans (ss_db ses) @ [row]\<rparr>\<rparr>))"

text \<open>The scope of a run is a foreign key.\<close>

definition dispatch_discovery :: "(message \<Rightarrow> bool) \<Rightarrow> uuid \<Rightarrow> schedule \<Rightarrow> sweep_session \<Rightarrow> bool \<times> sweep_session" where
  "dispatch_discovery takes new_id s ses =
     (case seeds_of s of
        Inl e \<Rightarrow> (False, ses)
      | Inr seeds \<Rightarrow>
          if ss_broken ses then (False, ses)
          else if (case sd_target_id s of Some t \<Rightarrow> t \<notin> set (wd_scopes (ss_db ses)) | None \<Rightarrow> False) then (False, ses\<lparr>ss_broken := True\<rparr>)
          else let row = \<lparr>dn_id = new_id, dn_tenant_id = sd_tenant_id s, dn_customer_id = sd_customer_id s, dn_scope_id = sd_target_id s,
                          dn_status = ''queued'', dn_trigger = ''schedule'', dn_seeds = seeds\<rparr>
               in publish takes (''guardian.run_discovery'', str_uuid new_id)
                    (ses\<lparr>ss_db := (ss_db ses)\<lparr>wd_runs := wd_runs (ss_db ses) @ [row]\<rparr>\<rparr>))"

definition dispatch_schedule :: "(message \<Rightarrow> bool) \<Rightarrow> uuid \<Rightarrow> int \<Rightarrow> schedule \<Rightarrow> sweep_session \<Rightarrow> bool \<times> sweep_session" where
  "dispatch_schedule takes new_id now s ses =
     (if sd_kind s = ''scan'' then dispatch_scan takes new_id now s ses
      else if sd_kind s = ''discovery'' then dispatch_discovery takes new_id s ses
      else (False, ses))"

definition settle :: "bool \<Rightarrow> int \<Rightarrow> schedule \<Rightarrow> schedule" where
  "settle ok now s =
     (let s = s\<lparr>sd_next_run_at := advance s now, sd_last_run_at := Some now\<rparr>
      in if ok then s\<lparr>sd_last_status := Some ''queued'', sd_failures := 0\<rparr>
         else s\<lparr>sd_last_status := Some ''failed'', sd_failures := Suc (sd_failures s),
                sd_enabled := (sd_enabled s \<and> \<not> MAX_SCHEDULE_FAILURES \<le> Suc (sd_failures s))\<rparr>)"

definition put_schedule :: "schedule \<Rightarrow> sweep_session \<Rightarrow> sweep_session" where
  "put_schedule s ses =
     ses\<lparr>ss_db := (ss_db ses)\<lparr>wd_schedules := map (\<lambda>r. if sd_id r = sd_id s then s else r) (wd_schedules (ss_db ses))\<rparr>\<rparr>"

fun sweep_due :: "(message \<Rightarrow> bool) \<Rightarrow> (uuid \<times> schedule) list \<Rightarrow> int \<Rightarrow> sweep_session \<Rightarrow> sweep_session" where
  "sweep_due takes [] now ses = ses"
| "sweep_due takes ((new_id, s) # rest) now ses =
     (let r = dispatch_schedule takes new_id now s ses
      in sweep_due takes rest now (put_schedule (settle (fst r) now s) (snd r)))"

text \<open>The rows the query returns; rows another sweep holds are skipped.\<close>

definition due_schedules :: "nat \<Rightarrow> uuid set \<Rightarrow> int \<Rightarrow> work_db \<Rightarrow> schedule list" where
  "due_schedules limit locked now db =
     take limit (filter (\<lambda>s. sd_id s \<notin> locked) (sort_key sd_next_run_at (filter (\<lambda>s. sd_enabled s \<and> sd_next_run_at s \<le> now) (wd_schedules db))))"

text \<open>Whether the sweep returned, the tables after it and what was sent.\<close>

definition sweep_schedules ::
    "(message \<Rightarrow> bool) \<Rightarrow> (nat \<Rightarrow> uuid) \<Rightarrow> nat \<Rightarrow> uuid set \<Rightarrow> int \<Rightarrow> work_db \<Rightarrow> bool \<times> work_db \<times> message list" where
  "sweep_schedules takes ids limit locked now db =
     (let due = due_schedules limit locked now db;
          ses = sweep_due takes (zip (map ids [0..<length due]) due) now \<lparr>ss_db = db, ss_broken = False, ss_sent = []\<rparr>
      in if ss_broken ses then (False, db, ss_sent ses) else (True, ss_db ses, ss_sent ses))"

text \<open>A row that breaks a constraint of the table is refused: \<open>None\<close>.\<close>

definition upsert_schedule ::
    "uuid \<Rightarrow> int \<Rightarrow> uuid \<Rightarrow> string \<Rightarrow> int \<Rightarrow> uuid option \<Rightarrow> uuid option \<Rightarrow> jobj option \<Rightarrow> bool \<Rightarrow> work_db \<Rightarrow> work_db option" where
  "upsert_schedule new_id now tenant kind interval target customer settings enabled db =
     (if interval < 300 \<or> kind \<notin> {''scan'', ''discovery''} then None
      else case find (\<lambda>s. sd_tenant_id s = tenant \<and> sd_kind s = kind \<and> sd_target_id s = target) (wd_schedules db) of
          Some s \<Rightarrow>
            let s' = s\<lparr>sd_interval := interval, sd_enabled := enabled, sd_failures := 0,
                       sd_settings := (case settings of Some x \<Rightarrow> x | None \<Rightarrow> sd_settings s)\<rparr>
            in Some (db\<lparr>wd_schedules := map (\<lambda>r. if sd_id r = sd_id s then s' else r) (wd_schedules db)\<rparr>)
        | None \<Rightarrow>
            Some (db\<lparr>wd_schedules := wd_schedules db @
              [\<lparr>sd_id = new_id, sd_tenant_id = tenant, sd_customer_id = customer, sd_kind = kind, sd_target_id = target, sd_interval = interval,
                sd_enabled = enabled, sd_next_run_at = now, sd_last_run_at = None, sd_last_status = None, sd_failures = 0,
                sd_settings = (case settings of Some x \<Rightarrow> x | None \<Rightarrow> [])\<rparr>]\<rparr>))"

subsection \<open>What the broker holds\<close>

definition STRANDED_AFTER_SECONDS :: int where "STRANDED_AFTER_SECONDS = 2400"

definition MAX_STRANDED_CANDIDATES :: nat where "MAX_STRANDED_CANDIDATES = 200"

definition MAX_BROKER_MESSAGES :: nat where "MAX_BROKER_MESSAGES = 5000"

definition RECOVERABLE_TASKS :: "string list" where "RECOVERABLE_TASKS = [''guardian.run_scan'']"

text \<open>What the reads return, the texts as \<open>json.loads\<close> reads them; a text it refuses is \<open>None\<close>.\<close>

record broker_view =
  bv_depth :: nat
  bv_pending :: "jval option list"
  bv_unacked :: "jval option list"

text \<open>\<open>body\<close> decodes a message body, base64 over JSON.\<close>

definition scan_id_of :: "(string \<Rightarrow> jval option) \<Rightarrow> jval \<Rightarrow> py_error + string option" where
  "scan_id_of body msg =
     (case msg of
        JObj d \<Rightarrow>
          (case jor (jget d ''headers'') (JObj []) of
             JObj h \<Rightarrow>
               if jget h ''task'' \<notin> JStr ` set RECOVERABLE_TASKS then Inr None
               else (case dict_get d ''body'' of
                   Some (JStr b) \<Rightarrow>
                     (case body b of
                        Some (JStr (c # _)) \<Rightarrow> Inr (Some [c])
                      | Some (JList (args # _)) \<Rightarrow>
                          if \<not> truthy args then Inr None
                          else (case args of JList (a # _) \<Rightarrow> Inr (Some (py_str a)) | JStr (c # _) \<Rightarrow> Inr (Some [c]) | _ \<Rightarrow> Inl TypeError)
                      | _ \<Rightarrow> Inl ValueError)
                 | _ \<Rightarrow> Inl KeyError)
           | _ \<Rightarrow> Inl AttributeError)
      | _ \<Rightarrow> Inl AttributeError)"

fun scan_ids :: "(string \<Rightarrow> jval option) \<Rightarrow> jval option list \<Rightarrow> (string set) option" where
  "scan_ids body [] = Some {}"
| "scan_ids body (None # ms) = None"
| "scan_ids body (Some m # ms) =
     (case (scan_id_of body m, scan_ids body ms) of
        (Inr i, Some seen) \<Rightarrow> Some (case i of Some x \<Rightarrow> if x = [] then seen else insert x seen | None \<Rightarrow> seen)
      | _ \<Rightarrow> None)"

definition unacked_envelope :: "jval option \<Rightarrow> jval option" where
  "unacked_envelope raw = (case raw of Some (JList (e # _)) \<Rightarrow> Some e | v \<Rightarrow> v)"

definition visible_scan_ids :: "(string \<Rightarrow> jval option) \<Rightarrow> broker_view option \<Rightarrow> (string set) option" where
  "visible_scan_ids body broker =
     (case broker of
        None \<Rightarrow> None
      | Some b \<Rightarrow>
          if MAX_BROKER_MESSAGES < bv_depth b then None
          else case (scan_ids body (take (Suc MAX_BROKER_MESSAGES) (bv_pending b)), scan_ids body (map unacked_envelope (bv_unacked b))) of
              (Some p, Some u) \<Rightarrow> Some (p \<union> u)
            | _ \<Rightarrow> None)"

subsection \<open>The sweep over stranded scans\<close>

text \<open>The audit rows are committed before the first message is sent; a message the broker refuses ends the sweep.\<close>

definition stranded_scans :: "int \<Rightarrow> work_db \<Rightarrow> queued_scan list" where
  "stranded_scans now db =
     take MAX_STRANDED_CANDIDATES (sort_key (aware \<circ> qs_created_at)
       (filter (\<lambda>s. qs_status s = ''queued'' \<and> aware (qs_created_at s) \<le> now - seconds STRANDED_AFTER_SECONDS) (wd_scans db)))"

definition requeue_of :: "int \<Rightarrow> queued_scan \<Rightarrow> requeue_note" where
  "requeue_of now s = \<lparr>rn_scan_id = qs_id s, rn_tenant_id = qs_tenant_id s, rn_customer_id = qs_customer_id s,
     rn_waited = (now - aware (qs_created_at s)) div 1000000\<rparr>"

definition sweep_stranded_scans ::
    "(message \<Rightarrow> bool) \<Rightarrow> (string \<Rightarrow> jval option) \<Rightarrow> broker_view option \<Rightarrow> int \<Rightarrow> work_db \<Rightarrow> work_db \<times> message list" where
  "sweep_stranded_scans takes body broker now db =
     (let candidates = stranded_scans now db
      in if candidates = [] then (db, [])
         else case visible_scan_ids body broker of
             None \<Rightarrow> (db, [])
           | Some visible \<Rightarrow>
               let lost = filter (\<lambda>s. str_uuid (qs_id s) \<notin> visible) candidates
               in (db\<lparr>wd_notes := wd_notes db @ map (requeue_of now) lost\<rparr>, takeWhile takes (map (\<lambda>s. (''guardian.run_scan'', str_uuid (qs_id s))) lost)))"

subsection \<open>A sweep\<close>

lemma publish_cases: "publish takes m ses = (True, ses\<lparr>ss_sent := ss_sent ses @ [m]\<rparr>) \<or> publish takes m ses = (False, ses)"
  by (simp add: publish_def)

lemma publish_tables [simp]: "ss_db (snd (publish takes m ses)) = ss_db ses" "ss_broken (snd (publish takes m ses)) = ss_broken ses"
  by (simp_all add: publish_def)

text \<open>What a dispatch adds: at most one row and one message that names it.\<close>

definition names_row :: "message \<Rightarrow> queued_scan list \<Rightarrow> discovery_run list \<Rightarrow> bool" where
  "names_row m scans runs \<longleftrightarrow> (\<exists>r \<in> set scans. qs_status r = ''queued'' \<and> m = (''guardian.run_scan'', str_uuid (qs_id r))) \<or>
     (\<exists>r \<in> set runs. dn_status r = ''queued'' \<and> m = (''guardian.run_discovery'', str_uuid (dn_id r)))"

definition added :: "sweep_session \<Rightarrow> sweep_session \<Rightarrow> queued_scan list \<Rightarrow> discovery_run list \<Rightarrow> message list \<Rightarrow> bool" where
  "added ses ses' scans runs sent \<longleftrightarrow> wd_scans (ss_db ses') = wd_scans (ss_db ses) @ scans \<and> wd_runs (ss_db ses') = wd_runs (ss_db ses) @ runs \<and>
     ss_sent ses' = ss_sent ses @ sent \<and> wd_assets (ss_db ses') = wd_assets (ss_db ses) \<and> wd_scopes (ss_db ses') = wd_scopes (ss_db ses) \<and>
     (\<forall>m \<in> set sent. names_row m scans runs)"

lemma added_refl: "added ses ses [] [] []" by (simp add: added_def)

lemma dispatch_scan_added:
  "\<exists>scans runs sent. added ses (snd (dispatch_scan takes i now s ses)) scans runs sent \<and> length sent \<le> 1"
proof -
  have none: ?thesis if "snd (dispatch_scan takes i now s ses) = ses"
    using added_refl [of ses] that by (intro exI [of _ "[]"]) simp
  show ?thesis
  proof (cases "\<exists>t a es. sd_target_id s = Some t \<and> \<not> ss_broken ses \<and> find (\<lambda>a. as_id a = t) (wd_assets (ss_db ses)) = Some a \<and>
      as_tenant_id a = sd_tenant_id s \<and> engines_of s = Inr es")
    case False
    then have "snd (dispatch_scan takes i now s ses) = ses"
      by (simp add: dispatch_scan_def split: option.split sum.split) blast
    then show ?thesis by (rule none)
  next
    case True
    then obtain t a es where c: "sd_target_id s = Some t" "\<not> ss_broken ses" "find (\<lambda>a. as_id a = t) (wd_assets (ss_db ses)) = Some a"
      "as_tenant_id a = sd_tenant_id s" "engines_of s = Inr es" by blast
    define row where "row = \<lparr>qs_id = i, qs_tenant_id = sd_tenant_id s, qs_customer_id = as_customer_id a, qs_asset_id = as_id a,
                                 qs_trigger = ''schedule'', qs_status = ''queued'', qs_engines = es, qs_created_at = Aware now\<rparr>"
    define ses1 where "ses1 = ses\<lparr>ss_db := (ss_db ses)\<lparr>wd_scans := wd_scans (ss_db ses) @ [row]\<rparr>\<rparr>"
    have d: "dispatch_scan takes i now s ses = publish takes (''guardian.run_scan'', str_uuid i) ses1"
      using c by (simp add: dispatch_scan_def row_def ses1_def)
    have rows: "qs_status row = ''queued''" "qs_id row = i" by (simp_all add: row_def)
    have "added ses ses1 [row] [] []" "added ses (ses1\<lparr>ss_sent := ss_sent ses1 @ [(''guardian.run_scan'', str_uuid i)]\<rparr>) [row] [] [(''guardian.run_scan'', str_uuid i)]"
      by (simp_all add: added_def ses1_def names_row_def rows)
    then show ?thesis unfolding d using publish_cases [of takes "(''guardian.run_scan'', str_uuid i)" ses1]
      by (metis (no_types, lifting) One_nat_def le_SucI le_zero_eq length_Cons list.size(3) order_refl snd_conv)
  qed
qed

lemma dispatch_discovery_added:
  "\<exists>scans runs sent. added ses (snd (dispatch_discovery takes i s ses)) scans runs sent \<and> length sent \<le> 1"
proof -
  have none: ?thesis if "snd (dispatch_discovery takes i s ses) \<in> {ses, ses\<lparr>ss_broken := True\<rparr>}"
    using that by (intro exI [of _ "[]"]) (auto simp: added_def)
  show ?thesis
  proof (cases "\<exists>seeds. seeds_of s = Inr seeds \<and> \<not> ss_broken ses \<and> \<not> (case sd_target_id s of Some t \<Rightarrow> t \<notin> set (wd_scopes (ss_db ses)) | None \<Rightarrow> False)")
    case False
    then have "snd (dispatch_discovery takes i s ses) \<in> {ses, ses\<lparr>ss_broken := True\<rparr>}"
      by (cases "seeds_of s") (auto simp: dispatch_discovery_def)
    then show ?thesis by (rule none)
  next
    case True
    then obtain seeds where c: "seeds_of s = Inr seeds" "\<not> ss_broken ses"
      "\<not> (case sd_target_id s of Some t \<Rightarrow> t \<notin> set (wd_scopes (ss_db ses)) | None \<Rightarrow> False)" by blast
    define row where "row = \<lparr>dn_id = i, dn_tenant_id = sd_tenant_id s, dn_customer_id = sd_customer_id s, dn_scope_id = sd_target_id s,
                          dn_status = ''queued'', dn_trigger = ''schedule'', dn_seeds = seeds\<rparr>"
    define ses1 where "ses1 = ses\<lparr>ss_db := (ss_db ses)\<lparr>wd_runs := wd_runs (ss_db ses) @ [row]\<rparr>\<rparr>"
    have d: "dispatch_discovery takes i s ses = publish takes (''guardian.run_discovery'', str_uuid i) ses1"
      using c by (simp add: dispatch_discovery_def row_def ses1_def)
    have rows: "dn_status row = ''queued''" "dn_id row = i" by (simp_all add: row_def)
    have "added ses ses1 [] [row] []" "added ses (ses1\<lparr>ss_sent := ss_sent ses1 @ [(''guardian.run_discovery'', str_uuid i)]\<rparr>) [] [row] [(''guardian.run_discovery'', str_uuid i)]"
      by (simp_all add: added_def ses1_def names_row_def rows)
    then show ?thesis unfolding d using publish_cases [of takes "(''guardian.run_discovery'', str_uuid i)" ses1]
      by (metis (no_types, lifting) One_nat_def le_SucI le_zero_eq length_Cons list.size(3) order_refl snd_conv)
  qed
qed

lemma dispatch_added: "\<exists>scans runs sent. added ses (snd (dispatch_schedule takes i now s ses)) scans runs sent \<and> length sent \<le> 1"
  using dispatch_scan_added dispatch_discovery_added added_refl [of ses] unfolding dispatch_schedule_def
  by (cases "sd_kind s = ''scan''"; cases "sd_kind s = ''discovery''") (auto, metis le0 list.size(3))

lemma added_trans:
  "added a b s1 r1 m1 \<Longrightarrow> added b c s2 r2 m2 \<Longrightarrow> added a c (s1 @ s2) (r1 @ r2) (m1 @ m2)"
  by (auto simp: added_def names_row_def)

lemma put_schedule_added: "added a b s r m \<Longrightarrow> added a (put_schedule x b) s r m"
  by (simp add: added_def put_schedule_def)

lemma sweep_due_added:
  "\<exists>scans runs sent. added ses (sweep_due takes work now ses) scans runs sent \<and> length sent \<le> length work"
proof (induction work arbitrary: ses)
  case Nil
  show ?case using added_refl by (intro exI [of _ "[]"]) simp
next
  case (Cons w work)
  obtain i s where w: "w = (i, s)" by (cases w)
  let ?r = "dispatch_schedule takes i now s ses"
  let ?next = "put_schedule (settle (fst ?r) now s) (snd ?r)"
  obtain s1 r1 m1 where one: "added ses (snd ?r) s1 r1 m1" "length m1 \<le> 1" using dispatch_added by blast
  obtain s2 r2 m2 where two: "added ?next (sweep_due takes work now ?next) s2 r2 m2" "length m2 \<le> length work" using Cons.IH by blast
  have "added ses (sweep_due takes work now ?next) (s1 @ s2) (r1 @ r2) (m1 @ m2)"
    by (rule added_trans [OF put_schedule_added [OF one(1)] two(1)])
  moreover have "length (m1 @ m2) \<le> length (w # work)" using one(2) two(2) by simp
  ultimately show ?case by (intro exI [of _ "s1 @ s2"] exI [of _ "r1 @ r2"] exI [of _ "m1 @ m2"]) (simp add: w Let_def)
qed

lemma dispatch_keeps_schedules: "wd_schedules (ss_db (snd (dispatch_schedule takes i now s ses))) = wd_schedules (ss_db ses)"
  by (simp add: dispatch_schedule_def dispatch_scan_def dispatch_discovery_def Let_def split: option.split sum.split)

lemma settle_id [simp]: "sd_id (settle ok now s) = sd_id s"
  by (simp add: settle_def Let_def)

text \<open>A schedule after the sweep, given what the sweep has to do.\<close>

definition swept :: "int \<Rightarrow> schedule list \<Rightarrow> schedule \<Rightarrow> schedule \<Rightarrow> bool" where
  "swept now due r r' \<longleftrightarrow> (if r \<in> set due then \<exists>ok. r' = settle ok now r else r' = r)"

lemma sweep_due_schedules:
  "distinct (map sd_id (wd_schedules (ss_db ses))) \<Longrightarrow> distinct (map snd work) \<Longrightarrow> set (map snd work) \<subseteq> set (wd_schedules (ss_db ses)) \<Longrightarrow>
   list_all2 (swept now (map snd work)) (wd_schedules (ss_db ses)) (wd_schedules (ss_db (sweep_due takes work now ses)))"
proof (induction work arbitrary: ses)
  case Nil
  then show ?case by (simp add: swept_def list.rel_refl)
next
  case (Cons w work)
  obtain i s where w: "w = (i, s)" by (cases w)
  let ?r = "dispatch_schedule takes i now s ses"
  let ?s' = "settle (fst ?r) now s"
  let ?next = "put_schedule ?s' (snd ?r)"
  let ?before = "wd_schedules (ss_db ses)"
  have next_rows: "wd_schedules (ss_db ?next) = map (\<lambda>r. if sd_id r = sd_id s then ?s' else r) ?before"
    by (simp add: put_schedule_def dispatch_keeps_schedules)
  have same_id: "r = s" if "r \<in> set ?before" "sd_id r = sd_id s" for r
    using Cons.prems(1,3) that w by (auto simp: distinct_map inj_on_def)
  have ids: "map sd_id (wd_schedules (ss_db ?next)) = map sd_id ?before" unfolding next_rows by simp
  have others: "sd_id x \<noteq> sd_id s" if "x \<in> set (map snd work)" for x
    using Cons.prems(2,3) that same_id [of x] w by auto
  have "set (map snd work) \<subseteq> set (wd_schedules (ss_db ?next))"
  proof
    fix x assume x: "x \<in> set (map snd work)"
    then have "x \<in> set ?before" "sd_id x \<noteq> sd_id s" using Cons.prems(3) others by auto
    then show "x \<in> set (wd_schedules (ss_db ?next))" unfolding next_rows by (auto intro: rev_image_eqI)
  qed
  then have "list_all2 (swept now (map snd work)) (wd_schedules (ss_db ?next)) (wd_schedules (ss_db (sweep_due takes work now ?next)))"
    using Cons.IH [of ?next] Cons.prems(1,2) ids by simp
  then have ih: "list_all2 (\<lambda>r r'. swept now (map snd work) (if sd_id r = sd_id s then ?s' else r) r') ?before
      (wd_schedules (ss_db (sweep_due takes work now ?next)))"
    unfolding next_rows by (simp add: list_all2_map1)
  have "swept now (map snd (w # work)) r r'" if r: "r \<in> set ?before" and rel: "swept now (map snd work) (if sd_id r = sd_id s then ?s' else r) r'" for r r'
  proof (cases "sd_id r = sd_id s")
    case True
    have "?s' \<notin> set (map snd work)" using others by fastforce
    then show ?thesis using rel True same_id [OF r True] w by (auto simp: swept_def)
  next
    case False
    then show ?thesis using rel w by (auto simp: swept_def split: if_splits)
  qed
  then have "list_all2 (swept now (map snd (w # work))) ?before (wd_schedules (ss_db (sweep_due takes work now ?next)))"
    using ih by (auto simp: list_all2_conv_all_nth)
  then show ?case by (simp add: w Let_def)
qed

lemma due_schedules_rows:
  assumes "distinct (map sd_id (wd_schedules db))"
  shows "distinct (due_schedules limit locked now db)" and "set (due_schedules limit locked now db) \<subseteq> set (wd_schedules db)"
    and "s \<in> set (due_schedules limit locked now db) \<Longrightarrow> sd_enabled s \<and> sd_next_run_at s \<le> now"
proof -
  have "distinct (wd_schedules db)" using assms by (simp add: distinct_map)
  then show "distinct (due_schedules limit locked now db)" by (simp add: due_schedules_def distinct_take)
  show "set (due_schedules limit locked now db) \<subseteq> set (wd_schedules db)"
    unfolding due_schedules_def using set_take_subset by fastforce
  show "s \<in> set (due_schedules limit locked now db) \<Longrightarrow> sd_enabled s \<and> sd_next_run_at s \<le> now"
    unfolding due_schedules_def using set_take_subset by fastforce
qed

lemma map_snd_ids: "map snd (zip (map ids [0..<length due]) due) = due"
  by simp

lemma sweep_returned:
  assumes "distinct (map sd_id (wd_schedules db))" and "sweep_schedules takes ids limit locked now db = (True, db', sent)"
  shows "list_all2 (swept now (due_schedules limit locked now db)) (wd_schedules db) (wd_schedules db')"
    and "\<exists>scans runs. wd_scans db' = wd_scans db @ scans \<and> wd_runs db' = wd_runs db @ runs \<and> (\<forall>m \<in> set sent. names_row m scans runs)"
    and "length sent \<le> length (due_schedules limit locked now db)"
proof -
  let ?due = "due_schedules limit locked now db"
  let ?work = "zip (map ids [0..<length ?due]) ?due"
  let ?ses = "\<lparr>ss_db = db, ss_broken = False, ss_sent = []\<rparr>"
  have r: "db' = ss_db (sweep_due takes ?work now ?ses)" "sent = ss_sent (sweep_due takes ?work now ?ses)"
    using assms(2) by (auto simp: sweep_schedules_def Let_def split: if_splits)
  show "list_all2 (swept now ?due) (wd_schedules db) (wd_schedules db')"
    using sweep_due_schedules [of ?ses ?work now takes] assms(1) due_schedules_rows(1,2) [OF assms(1)] unfolding r map_snd_ids by simp
  obtain scans runs m where a: "added ?ses (sweep_due takes ?work now ?ses) scans runs m" "length m \<le> length ?work"
    using sweep_due_added by blast
  then show "\<exists>scans runs. wd_scans db' = wd_scans db @ scans \<and> wd_runs db' = wd_runs db @ runs \<and> (\<forall>m \<in> set sent. names_row m scans runs)"
    and "length sent \<le> length ?due" by (auto simp: added_def r)
qed

lemma settled_not_due: "now' < now + seconds 300 \<Longrightarrow> \<not> sd_next_run_at (settle ok now s) \<le> now'"
  by (simp add: settle_def Let_def advance_def seconds_def)

lemma sweep_keeps_ids: "distinct (map sd_id (wd_schedules db)) \<Longrightarrow> sweep_schedules takes ids limit locked now db = (True, db', sent) \<Longrightarrow>
  map sd_id (wd_schedules db') = map sd_id (wd_schedules db)"
  by (drule (1) sweep_returned(1)) (auto simp: list_all2_conv_all_nth swept_def intro!: nth_equalityI split: if_splits)

text \<open>C38: A schedule whose window was missed runs once: a sweep that returns sends at most one message for each schedule that was due,
every message names a queued row the sweep has added, each due schedule is settled and every other is left as it was, and until five minutes
have passed no later sweep finds due what this one has handled.\<close>

lemma missed_windows_run_once:
  assumes "distinct (map sd_id (wd_schedules db))" and "sweep_schedules takes ids limit locked now db = (True, db', sent)"
    and "now' < now + seconds 300"
  shows "length sent \<le> length (due_schedules limit locked now db) \<and>
    (\<exists>scans runs. wd_scans db' = wd_scans db @ scans \<and> wd_runs db' = wd_runs db @ runs \<and> (\<forall>m \<in> set sent. names_row m scans runs)) \<and>
    list_all2 (swept now (due_schedules limit locked now db)) (wd_schedules db) (wd_schedules db') \<and>
    sd_id ` set (due_schedules limit locked now db) \<inter> sd_id ` set (due_schedules limit' locked' now' db') = {}"
proof -
  note rows = sweep_returned(1) [OF assms(1,2)]
  have ids: "distinct (map sd_id (wd_schedules db'))" using sweep_keeps_ids [OF assms(1,2)] assms(1) by simp
  have False if s: "s \<in> set (due_schedules limit locked now db)" and t: "t \<in> set (due_schedules limit' locked' now' db')" and "sd_id s = sd_id t" for s t
  proof -
    have "s \<in> set (wd_schedules db)" "t \<in> set (wd_schedules db')"
      using subsetD [OF due_schedules_rows(2) [OF assms(1)] s] subsetD [OF due_schedules_rows(2) [OF ids] t] .
    then obtain i j where n: "i < length (wd_schedules db)" "wd_schedules db ! i = s" "j < length (wd_schedules db')" "wd_schedules db' ! j = t"
      by (auto simp: in_set_conv_nth)
    have len: "length (wd_schedules db') = length (wd_schedules db)" using rows by (simp add: list_all2_lengthD)
    have "map sd_id (wd_schedules db) ! i = map sd_id (wd_schedules db) ! j"
      using n len \<open>sd_id s = sd_id t\<close> sweep_keeps_ids [OF assms(1,2)] by (metis nth_map)
    then have "i = j" using nth_eq_iff_index_eq [OF assms(1), of i j] n(1,3) len by simp
    then have "swept now (due_schedules limit locked now db) s t" using rows n by (auto simp: list_all2_conv_all_nth)
    then obtain ok where "t = settle ok now s" using s by (auto simp: swept_def)
    moreover have "sd_next_run_at t \<le> now'" using due_schedules_rows(3) [OF ids t] by simp
    ultimately show False using settled_not_due [OF assms(3)] by blast
  qed
  then have "sd_id ` set (due_schedules limit locked now db) \<inter> sd_id ` set (due_schedules limit' locked' now' db') = {}" by blast
  then show ?thesis using sweep_returned [OF assms(1,2)] by blast
qed

subsection \<open>A scope that is gone\<close>

text \<open>The schedules of a discovery whose scope is not in the table: the insert breaks the session.\<close>

definition dangling :: "work_db \<Rightarrow> schedule \<Rightarrow> bool" where
  "dangling db s \<longleftrightarrow> sd_kind s = ''discovery'' \<and> (\<exists>d. seeds_of s = Inr d) \<and> (\<exists>t. sd_target_id s = Some t \<and> t \<notin> set (wd_scopes db))"

lemma dispatch_stays_broken: "ss_broken ses \<Longrightarrow> ss_broken (snd (dispatch_schedule takes i now s ses))"
  by (simp add: dispatch_schedule_def dispatch_scan_def dispatch_discovery_def Let_def split: option.split sum.split)

lemma put_schedule_session [simp]: "ss_broken (put_schedule s ses) = ss_broken ses" "wd_scopes (ss_db (put_schedule s ses)) = wd_scopes (ss_db ses)"
  by (simp_all add: put_schedule_def)

lemma dispatch_dangling: "dangling (ss_db ses) s \<Longrightarrow> ss_broken (snd (dispatch_schedule takes i now s ses))"
  by (cases "ss_broken ses") (auto simp: dangling_def dispatch_schedule_def dispatch_discovery_def)

lemma dispatch_keeps_scopes: "wd_scopes (ss_db (snd (dispatch_schedule takes i now s ses))) = wd_scopes (ss_db ses)"
  using dispatch_added [of ses takes i now s] by (auto simp: added_def)

lemma sweep_due_broken:
  "ss_broken ses \<or> (\<exists>s \<in> set (map snd work). dangling (ss_db ses) s) \<Longrightarrow> ss_broken (sweep_due takes work now ses)"
proof (induction work arbitrary: ses)
  case Nil
  then show ?case by simp
next
  case (Cons w work)
  obtain i s where w: "w = (i, s)" by (cases w)
  let ?r = "dispatch_schedule takes i now s ses"
  let ?next = "put_schedule (settle (fst ?r) now s) (snd ?r)"
  have "dangling (ss_db ?next) = dangling (ss_db ses)" by (simp add: dangling_def dispatch_keeps_scopes fun_eq_iff)
  then have "ss_broken ?next \<or> (\<exists>s \<in> set (map snd work). dangling (ss_db ?next) s)"
    using Cons.prems dispatch_stays_broken dispatch_dangling w by auto
  then show ?case using Cons.IH [of ?next] by (simp add: w Let_def)
qed

text \<open>One due discovery schedule whose scope is gone makes the whole sweep raise: no schedule is settled and no row is added,
however many schedules were served before it and whatever was sent for them.\<close>

lemma dangling_scope_stops_the_sweep:
  assumes "s \<in> set (due_schedules limit locked now db)" and "dangling db s"
  shows "fst (sweep_schedules takes ids limit locked now db) = False \<and> fst (snd (sweep_schedules takes ids limit locked now db)) = db"
proof -
  have "ss_broken (sweep_due takes (zip (map ids [0..<length (due_schedules limit locked now db)]) (due_schedules limit locked now db)) now
      \<lparr>ss_db = db, ss_broken = False, ss_sent = []\<rparr>)"
    by (rule sweep_due_broken) (use assms in \<open>auto simp: map_snd_ids simp del: set_map\<close>)
  then show ?thesis by (simp add: sweep_schedules_def Let_def)
qed

subsection \<open>Runs of sweeps and edits\<close>

inductive scheduled :: "work_db \<Rightarrow> bool" where
  start: "wd_schedules db = [] \<Longrightarrow> scheduled db"
| sweep: "scheduled db \<Longrightarrow> scheduled (fst (snd (sweep_schedules takes ids limit locked now db)))"
| upsert: "scheduled db \<Longrightarrow> new_id \<notin> sd_id ` set (wd_schedules db) \<Longrightarrow>
    upsert_schedule new_id now tenant kind interval target customer settings enabled db = Some db' \<Longrightarrow> scheduled db'"
| other: "scheduled db \<Longrightarrow> wd_schedules db' = wd_schedules db \<Longrightarrow> scheduled db'"

definition sane_schedule :: "schedule \<Rightarrow> bool" where
  "sane_schedule s \<longleftrightarrow> (sd_enabled s \<longrightarrow> sd_failures s < MAX_SCHEDULE_FAILURES) \<and> 300 \<le> sd_interval s \<and> sd_kind s \<in> {''scan'', ''discovery''}"

lemma settle_sane: "sane_schedule s \<Longrightarrow> sane_schedule (settle ok now s)"
  by (auto simp: sane_schedule_def settle_def Let_def MAX_SCHEDULE_FAILURES_def)

lemma upsert_cases:
  assumes "upsert_schedule new_id now tenant kind interval target customer settings enabled db = Some db'"
  obtains (old) s s' :: schedule where "sd_id s' = sd_id s" "sane_schedule s'"
      "wd_schedules db' = map (\<lambda>r. if sd_id r = sd_id s then s' else r) (wd_schedules db)"
    | (new) s :: schedule where "sd_id s = new_id" "sane_schedule s" "wd_schedules db' = wd_schedules db @ [s]"
proof (cases "find (\<lambda>s. sd_tenant_id s = tenant \<and> sd_kind s = kind \<and> sd_target_id s = target) (wd_schedules db)")
  case None
  then show ?thesis using assms
    by (intro new [of "\<lparr>sd_id = new_id, sd_tenant_id = tenant, sd_customer_id = customer, sd_kind = kind, sd_target_id = target, sd_interval = interval,
        sd_enabled = enabled, sd_next_run_at = now, sd_last_run_at = None, sd_last_status = None, sd_failures = 0,
        sd_settings = (case settings of Some x \<Rightarrow> x | None \<Rightarrow> [])\<rparr>"])
      (auto simp: upsert_schedule_def sane_schedule_def MAX_SCHEDULE_FAILURES_def split: if_splits)
next
  case (Some s)
  then have "sd_kind s = kind" by (auto simp: find_Some_iff)
  then show ?thesis using assms Some
    by (intro old [of "s\<lparr>sd_interval := interval, sd_enabled := enabled, sd_failures := 0,
        sd_settings := (case settings of Some x \<Rightarrow> x | None \<Rightarrow> sd_settings s)\<rparr>" s])
      (auto simp: upsert_schedule_def sane_schedule_def MAX_SCHEDULE_FAILURES_def Let_def split: if_splits)
qed

text \<open>C39: Whatever sweeps and edits happen, in whatever order and at whatever times, the rows of the schedules keep distinct identifiers, every
interval is at least five minutes, and a schedule that is still enabled has failed fewer than five times in a row.\<close>

lemma schedules_stay_sane:
  assumes "scheduled db"
  shows "distinct (map sd_id (wd_schedules db)) \<and> (\<forall>s \<in> set (wd_schedules db). sane_schedule s)"
  using assms
proof induction
  case (sweep db takes ids limit locked now)
  show ?case
  proof (cases "fst (sweep_schedules takes ids limit locked now db)")
    case False
    then show ?thesis using sweep.IH by (simp add: sweep_schedules_def Let_def split: if_splits)
  next
    case True
    then obtain db' sent where s: "sweep_schedules takes ids limit locked now db = (True, db', sent)"
      by (cases "sweep_schedules takes ids limit locked now db") auto
    have sane: "sane_schedule r'" if "sane_schedule r" "swept now due r r'" for r r' due
      using that settle_sane by (auto simp: swept_def split: if_splits)
    have rows: "list_all2 (swept now (due_schedules limit locked now db)) (wd_schedules db) (wd_schedules db')"
      using sweep_returned(1) [OF _ s] sweep.IH by blast
    have "\<forall>i < length (wd_schedules db). sane_schedule (wd_schedules db' ! i)"
      using list_all2_nthD [OF rows] sane sweep.IH nth_mem by blast
    moreover have ids: "map sd_id (wd_schedules db') = map sd_id (wd_schedules db)" using sweep_keeps_ids [OF _ s] sweep.IH by blast
    moreover have "length (wd_schedules db') = length (wd_schedules db)" using arg_cong [OF ids, of length] by simp
    ultimately show ?thesis using sweep.IH s by (simp add: all_set_conv_all_nth)
  qed
next
  case (upsert db new_id now tenant kind interval target customer settings enabled db')
  from upsert.hyps(3) show ?case
  proof (cases rule: upsert_cases)
    case (old s s')
    have ids: "map sd_id (wd_schedules db') = map sd_id (wd_schedules db)" using old(1) unfolding old(3) by simp
    show ?thesis unfolding ids using upsert.IH old(2) by (auto simp: old(3))
  next
    case (new s)
    then show ?thesis using upsert.IH upsert.hyps(2) by auto
  qed
qed simp_all

subsection \<open>What is sent again\<close>

lemma scan_ids_complete:
  "scan_ids body ms = Some seen \<Longrightarrow> Some m \<in> set ms \<Longrightarrow> scan_id_of body m = Inr (Some x) \<Longrightarrow> x \<noteq> [] \<Longrightarrow> x \<in> seen"
proof (induction ms arbitrary: seen rule: scan_ids.induct)
  case (3 body m' ms)
  then obtain i seen' where "scan_id_of body m' = Inr i" "scan_ids body ms = Some seen'"
    "seen = (case i of Some x \<Rightarrow> if x = [] then seen' else insert x seen' | None \<Rightarrow> seen')"
    by (auto split: sum.splits option.splits)
  then show ?case using 3 by (auto split: option.splits if_splits)
qed simp_all

lemma visible_cases:
  assumes "visible_scan_ids body broker = Some visible"
  obtains b p u where "broker = Some b" "bv_depth b \<le> MAX_BROKER_MESSAGES" "scan_ids body (take (Suc MAX_BROKER_MESSAGES) (bv_pending b)) = Some p"
    "scan_ids body (map unacked_envelope (bv_unacked b)) = Some u" "visible = p \<union> u"
  using assms by (auto simp: visible_scan_ids_def split: option.splits if_splits)

lemma hex_string_nonempty: "str_uuid u \<noteq> []" by (simp add: str_uuid_def Let_def)

definition holds_scan :: "(string \<Rightarrow> jval option) \<Rightarrow> broker_view \<Rightarrow> string \<Rightarrow> bool" where
  "holds_scan body b i \<longleftrightarrow>
     (\<exists>m \<in> set (bv_pending b) \<union> unacked_envelope ` set (bv_unacked b). \<exists>v. m = Some v \<and> scan_id_of body v = Inr (Some i))"

lemma visible_complete:
  assumes "visible_scan_ids body (Some b) = Some visible" and "length (bv_pending b) = bv_depth b" and "holds_scan body b i" and "i \<noteq> []"
  shows "i \<in> visible"
proof (rule visible_cases [OF assms(1)])
  fix b' p u assume v: "Some b = Some b'" "bv_depth b' \<le> MAX_BROKER_MESSAGES" "scan_ids body (take (Suc MAX_BROKER_MESSAGES) (bv_pending b')) = Some p"
    "scan_ids body (map unacked_envelope (bv_unacked b')) = Some u" "visible = p \<union> u"
  have "take (Suc MAX_BROKER_MESSAGES) (bv_pending b) = bv_pending b" using v(1,2) assms(2) by simp
  then show ?thesis using assms(3,4) v scan_ids_complete [of body "bv_pending b" p _ i] scan_ids_complete [of body "map unacked_envelope (bv_unacked b)" u _ i]
    by (auto simp: holds_scan_def)
qed

text \<open>C40: Recovery never sends a scan the broker still holds: every message it sends is for a scan that is still queued and has been for forty
minutes, that no message in the queue or delivered and unacknowledged names, and for which an audit row was written; with an unknown broker
nothing is sent and nothing is written.\<close>

lemma recovery_sends_only_lost_scans:
  assumes "m \<in> set (snd (sweep_stranded_scans takes body broker now db))" and "\<And>b. broker = Some b \<Longrightarrow> length (bv_pending b) = bv_depth b"
  shows "\<exists>b s. broker = Some b \<and> s \<in> set (wd_scans db) \<and> m = (''guardian.run_scan'', str_uuid (qs_id s)) \<and> qs_status s = ''queued'' \<and>
    aware (qs_created_at s) + seconds 2400 \<le> now \<and> \<not> holds_scan body b (str_uuid (qs_id s)) \<and>
    requeue_of now s \<in> set (wd_notes (fst (sweep_stranded_scans takes body broker now db)))"
proof -
  obtain visible where v: "stranded_scans now db \<noteq> []" "visible_scan_ids body broker = Some visible"
    using assms(1) by (auto simp: sweep_stranded_scans_def Let_def split: if_splits option.splits)
  then obtain s where s: "s \<in> set (stranded_scans now db)" "str_uuid (qs_id s) \<notin> visible" "m = (''guardian.run_scan'', str_uuid (qs_id s))"
    using assms(1) by (auto simp: sweep_stranded_scans_def Let_def dest!: set_takeWhileD)
  obtain b where b: "broker = Some b" using v(2) visible_cases by metis
  have "\<not> holds_scan body b (str_uuid (qs_id s))"
    using visible_complete [of body b visible] v(2) b assms(2) [OF b] s(2) hex_string_nonempty by blast
  moreover have "s \<in> set (wd_scans db)" "qs_status s = ''queued''" "aware (qs_created_at s) + seconds 2400 \<le> now"
    using s(1) by (auto simp: stranded_scans_def STRANDED_AFTER_SECONDS_def dest!: in_set_takeD)
  moreover have "requeue_of now s \<in> set (wd_notes (fst (sweep_stranded_scans takes body broker now db)))"
    using v s by (auto simp: sweep_stranded_scans_def Let_def)
  ultimately show ?thesis using b s(3) by blast
qed

text \<open>A lost scan is found: when the broker can be read and takes messages, every scan that has been queued for forty minutes and that the
broker holds nowhere is sent again, unless two hundred scans have waited at least as long.\<close>

lemma lost_scan_is_sent_again:
  assumes "s \<in> set (wd_scans db)" and "qs_status s = ''queued''" and "aware (qs_created_at s) + seconds 2400 \<le> now"
    and "visible_scan_ids body broker = Some visible" and "str_uuid (qs_id s) \<notin> visible" and "\<And>m. takes m"
    and "length (filter (\<lambda>r. qs_status r = ''queued'' \<and> aware (qs_created_at r) + seconds 2400 \<le> now) (wd_scans db)) \<le> 200"
  shows "(''guardian.run_scan'', str_uuid (qs_id s)) \<in> set (snd (sweep_stranded_scans takes body broker now db))"
proof -
  have same: "filter (\<lambda>r. qs_status r = ''queued'' \<and> aware (qs_created_at r) \<le> now - seconds STRANDED_AFTER_SECONDS) (wd_scans db) =
      filter (\<lambda>r. qs_status r = ''queued'' \<and> aware (qs_created_at r) + seconds 2400 \<le> now) (wd_scans db)"
    by (rule filter_cong) (auto simp: STRANDED_AFTER_SECONDS_def)
  have "s \<in> set (stranded_scans now db)"
    using assms(1,2,3,7) by (simp add: stranded_scans_def same MAX_STRANDED_CANDIDATES_def)
  moreover have taken: "takeWhile takes xs = xs" for xs :: "message list" by (simp add: assms(6))
  ultimately show ?thesis using assms(4,5) by (auto simp: sweep_stranded_scans_def Let_def taken)
qed

text \<open>Two schedules and a scan that waits: one of the schedules is for a scope that is gone.\<close>

definition hourly_scan :: schedule where
  "hourly_scan = \<lparr>sd_id = 1, sd_tenant_id = 7, sd_customer_id = None, sd_kind = ''scan'', sd_target_id = Some 5, sd_interval = 3600,
     sd_enabled = True, sd_next_run_at = 0, sd_last_run_at = None, sd_last_status = None, sd_failures = 0, sd_settings = []\<rparr>"

definition scope_gone :: schedule where
  "scope_gone = hourly_scan\<lparr>sd_id := 2, sd_kind := ''discovery'', sd_target_id := Some 9\<rparr>"

definition waiting_scan :: queued_scan where
  "waiting_scan = \<lparr>qs_id = 20, qs_tenant_id = 7, qs_customer_id = 8, qs_asset_id = 5, qs_trigger = ''manual'', qs_status = ''queued'',
     qs_engines = [], qs_created_at = Aware 0\<rparr>"

definition some_work :: "schedule list \<Rightarrow> work_db" where
  "some_work ss = \<lparr>wd_schedules = ss, wd_assets = [], wd_scopes = [], wd_scans = [waiting_scan], wd_runs = [], wd_notes = []\<rparr>"

lemma demo_rows:
  "due_schedules 200 {} 10 (some_work [hourly_scan, scope_gone]) = [hourly_scan, scope_gone]"
  "distinct (map sd_id (wd_schedules (some_work [hourly_scan, scope_gone])))"
  by (simp_all add: due_schedules_def some_work_def hourly_scan_def scope_gone_def insort_key_def)

lemma demo_dangling: "dangling (some_work [hourly_scan, scope_gone]) scope_gone"
  by (simp add: dangling_def some_work_def scope_gone_def hourly_scan_def seeds_of_def jget_def jor_def)

lemma missed_windows_run_once_witness:
  "sd_id ` set (due_schedules 200 {} 10 (some_work [hourly_scan])) \<inter>
   sd_id ` set (due_schedules 200 {} 20 (fst (snd (sweep_schedules (\<lambda>m. True) int 200 {} 10 (some_work [hourly_scan]))))) = {}"
proof -
  obtain ok db' sent where r: "sweep_schedules (\<lambda>m. True) int 200 {} 10 (some_work [hourly_scan]) = (ok, db', sent)"
    by (metis prod.collapse)
  moreover have "ok = fst (sweep_schedules (\<lambda>m. True) int 200 {} 10 (some_work [hourly_scan]))" by (simp add: r)
  moreover have "fst (sweep_schedules (\<lambda>m. True) int 200 {} 10 (some_work [hourly_scan]))" by code_simp
  ultimately show ?thesis
    using missed_windows_run_once [of "some_work [hourly_scan]" "\<lambda>m. True" int 200 "{}" 10 db' sent 20 200 "{}"]
    by (simp add: seconds_def some_work_def)
qed

lemma dangling_scope_stops_the_sweep_witness:
  "fst (sweep_schedules (\<lambda>m. True) int 200 {} 10 (some_work [hourly_scan, scope_gone])) = False"
  using dangling_scope_stops_the_sweep [of scope_gone 200 "{}" 10 "some_work [hourly_scan, scope_gone]"] demo_rows(1) demo_dangling by simp

lemma schedules_stay_sane_witness:
  "list_all sane_schedule (wd_schedules (fst (snd (sweep_schedules (\<lambda>m. True) int 200 {} 10
     (the (upsert_schedule 1 0 7 ''scan'' 3600 (Some 5) None None True (some_work [])))))))"
proof -
  have "scheduled (some_work [])" by (rule scheduled.start) (simp add: some_work_def)
  then have "scheduled (the (upsert_schedule 1 0 7 ''scan'' 3600 (Some 5) None None True (some_work [])))"
    by (rule scheduled.upsert [where new_id = 1 and now = 0 and tenant = 7 and kind = "''scan''" and interval = 3600 and target = "Some 5"
          and customer = None and settings = None and enabled = True]) (simp_all add: upsert_schedule_def some_work_def)
  then show ?thesis unfolding list_all_iff using schedules_stay_sane scheduled.sweep by blast
qed

definition empty_broker :: broker_view where
  "empty_broker = \<lparr>bv_depth = 0, bv_pending = [], bv_unacked = []\<rparr>"

lemma recovery_sends_only_lost_scans_witness:
  "\<exists>b s. Some empty_broker = Some b \<and> s \<in> set (wd_scans (some_work [])) \<and> \<not> holds_scan (\<lambda>t. None) b (str_uuid (qs_id s))"
  using recovery_sends_only_lost_scans [of "(''guardian.run_scan'', str_uuid 20)" "\<lambda>m. True" "\<lambda>t. None" "Some empty_broker" 3000000000 "some_work []"]
  by (force simp: sweep_stranded_scans_def stranded_scans_def visible_scan_ids_def empty_broker_def some_work_def waiting_scan_def
      STRANDED_AFTER_SECONDS_def MAX_STRANDED_CANDIDATES_def MAX_BROKER_MESSAGES_def seconds_def)

lemma lost_scan_is_sent_again_witness:
  "(''guardian.run_scan'', str_uuid 20) \<in> set (snd (sweep_stranded_scans (\<lambda>m. True) (\<lambda>t. None) (Some empty_broker) 3000000000 (some_work [])))"
  using lost_scan_is_sent_again [of waiting_scan "some_work []" 3000000000 "\<lambda>t. None" "Some empty_broker" "{}" "\<lambda>m. True"]
  by (simp add: visible_scan_ids_def empty_broker_def some_work_def waiting_scan_def MAX_BROKER_MESSAGES_def seconds_def)

end
