(* ===== verification/Spec2Isabelle.thy ===== *)
theory Spec2Isabelle
  imports Scoring GatePolicy ToolPolicy Governance AttackGraph AttackChains Remediation Retest Quota RateLimit SafeScan ScanRun Webhooks VulnMatch Typosquat Correlation Ownership ToolDispatch Scheduling
begin

text \<open>
  Guardian, a security platform, scans assets of its customers: engines report findings, findings get a
  score, are matched with advisories, correlated, chained into attack paths, tracked until fixed and handed to
  deployment gates and webhooks.  This development models the part of the program that decides: what may be
  touched and run, what a finding is worth, when it counts as fixed, what a tenant may consume, what is sent out.
  Paths below start at \<open>src/packages/core/src/guardian_core\<close> (core), \<open>src/workers/scanner/src/guardian_scanner\<close>
  (scanner), \<open>src/services/api/src/guardian_api\<close> (api) or \<open>src/packages/db/src/guardian_db\<close> (db).

  \<^bold>\<open>How the parts interact.\<close>  A customer proves control of a domain and records what may be scanned (Ownership).
  A scan request passes the tenant limits (Quota, RateLimit), a schedule makes one when it is due, and a scan the broker lost is sent
  again (Scheduling).  The worker claims the scan
  (ScanRun), asks for every engine whether the target is authorized (Authorization) and whether it may be scanned now
  (SafeScan), runs it, folds its reports into findings (Findings) scored by Scoring, and reconciles the earlier
  findings with what the engines saw (Retest), which closes or reopens fix items (Remediation).  Dependencies and
  services are matched (VulnMatch) with a knowledge base that the feeds fill (VulnIntel), by version order and ranges
  (Versioning, VersionRange), with scores computed from vectors (Cvss); package names are compared with popular ones
  (Typosquat).  Open findings are grouped (Correlation), chained (AttackChains), laid over the asset graph (AttackGraph),
  judged by a project's deployment policy (GatePolicy) and announced (Webhooks).  Security tools run only under a
  contract (ToolPolicy) and by permission of the control plane (Governance): it clears, signs (JobSigning) and sends a job to the execution plane
  (ToolDispatch), keeps what came back, stripped of credentials (Redaction), in a chain of digests (EvidenceChain), and binds
  it to the asset of the host (Canonical).

  \<^bold>\<open>Theories and sources.\<close>
  \<^item> Prelude, Binary64, PyValue, PyUuid, PyJson, PyNet, PyRegex: what the program uses of Python and its standard library:
    string methods, insertion-ordered dictionaries, floats, JSON values with truth and \<open>str\<close>, UUIDs, canonical JSON, addresses
    and URLs, regular expressions.
  \<^item> Enums: core \<open>enums.py\<close>, the closed vocabularies.
  \<^item> Scoring: core \<open>scoring.py\<close>, \<open>exposure.py\<close>.  Cvss: core \<open>cvss.py\<close>.
  \<^item> GatePolicy: core \<open>policy.py\<close>.
  \<^item> ToolPolicy: core \<open>tool.py\<close>, \<open>capability.py\<close>, \<open>rbac.py\<close>.  Governance: scanner \<open>tools/governance.py\<close> over the tables of
    db \<open>models/governance.py\<close>, \<open>tenancy.py\<close>, \<open>audit.py\<close>.  ToolDispatch: scanner \<open>tools/tasks.py\<close>, \<open>execution.py\<close>, \<open>binding.py\<close>.
    JobSigning: \<open>job_signing.py\<close> and \<open>replay.py\<close> of \<open>src/packages/common/src/guardian_common\<close>.  EvidenceChain: scanner
    \<open>tools/evidence.py\<close>.  Redaction: core \<open>redaction.py\<close>, \<open>secret_identity.py\<close>.  Canonical: core \<open>canonicalize.py\<close>.
  \<^item> GraphSearch, AttackGraph: core \<open>attack_graph.py\<close>.  AttackChains: core \<open>attack_paths.py\<close>.
  \<^item> Remediation: core and scanner \<open>remediation.py\<close> and the update route of api \<open>routes/remediation.py\<close>.
    Retest: scanner \<open>verification.py\<close>.
  \<^item> Quota: core \<open>quota.py\<close>, api \<open>pagination.py\<close>, part of api \<open>deps.py\<close>.  RateLimit: api \<open>ratelimit.py\<close>.
  \<^item> SafeScan: core \<open>safescan.py\<close> and the worker's query in front of it.  Authorization: core \<open>authorization.py\<close>, the gate of
    scanner \<open>tasks.py\<close> and scanner \<open>discovery/authorization.py\<close>.  Ownership: core and scanner \<open>ownership.py\<close>, api
    \<open>routes/verifications.py\<close> and \<open>routes/authorizations.py\<close>.
  \<^item> Findings: core \<open>findings.py\<close>, scanner \<open>normalize.py\<close>.  ScanRun: \<open>run_scan\<close> of scanner \<open>tasks.py\<close>, scanner \<open>registry.py\<close>.
  \<^item> Webhooks: core and scanner \<open>webhooks.py\<close>.  Scheduling: scanner \<open>scheduling.py\<close>, \<open>recovery.py\<close>.
  \<^item> Versioning, VersionRange: core \<open>versioning.py\<close>.  VulnIntel: scanner \<open>intel.py\<close>.  VulnMatch: scanner \<open>vuln_match.py\<close>,
    \<open>cpe_match.py\<close>.  Typosquat: scanner \<open>typosquat.py\<close>.  Correlation: scanner \<open>correlation.py\<close>.

  \<^bold>\<open>How code becomes definitions.\<close>  A definition has the name of the function, method or class it translates (a leading
  underscore dropped, a suffix or prefix added where a HOL name is in the way) and follows its branches, early returns and
  order of checks.  A dataclass or a table row is a record, with a prefix per record on the fields; an enumeration is a
  datatype with one constructor per member.  An exception is \<open>Inl\<close> of an error constructor and a result \<open>Inr\<close>, composed by
  \<open>bind_r\<close>.  A database session is a record of tables, each a list in table order: a query is \<open>filter\<close>, a lookup by key
  \<open>find\<close>, an unordered query returns table order, a unique constraint is checked where the code flushes or commits, and a
  rollback is an \<open>Inl\<close> result.  The sessions of the program do not flush before a query (\<open>autoflush=False\<close>); where that
  matters (VulnIntel, Correlation) rows that wait to be written are a table of their own.  A dictionary whose order the code
  observes is an association list with the insertion order (\<open>odict\<close>), a set whose order it cannot observe is a HOL set or a
  sorted list.  JSON is \<open>jval\<close>.  A \<open>float\<close> is a rational and every operation on it is followed by \<open>fl\<close>, rounding to nearest
  even in binary64; overflow and NaN do not occur in the ranges used.  Integers are unbounded, as in Python.  A \<open>datetime\<close> is a
  number of microseconds.  Text is ASCII where characters are classified or changed in case.  Formatted messages are
  constructors with the values they format.

  \<^bold>\<open>Parameters.\<close>  What is not under \<open>src\<close> is an argument: SHA-256 and HMAC-SHA256 digests, Ed25519 signatures, base64, the seal of the
  broker, Redis, the ISO text of an instant, the C library's power, the network, the OSV client.  So are the parts of the program that are not modelled
  but called: the engines of a scan and the tool providers (what they declare, and what running them returns or raises), the redaction of
  webhook payloads, the promotion of certificate data into the asset graph.
  Where a theorem needs more of one (no digest collision, monotone rounding), the hypothesis says so and its witness instantiates it.

  \<^bold>\<open>What the lemmas show.\<close>
  \<^item> Gates are sound: an authorized scan rests on a live authorization of the same tenant, customer and plane, and a network
    permission on a challenge that was seen published; no engine runs
    but behind both gates; a sensitive tool run has a campaign and an unconsumed approval, from L4 on of somebody else; a deployment passes exactly
    when nothing matches; a safe scan starts only when every control agrees.
  \<^item> Invariants over runs: one finding row per issue, the remediation life cycle, the webhook tables, a knowledge base that only
    learns, stored correlation groups that are exactly the computed ones.  The runs are sequences of arbitrary requests and tasks.
  \<^item> Refinement: the bounded depth-first chaining yields exactly the walks of the inductive \<open>attack_walk\<close>; the sliding-window limiter
    answers as a log that forgets nothing as long as its calls get the lock in the order of their clock readings, and stays within twice
    the skew of it when they do not; the two searches of the attack graph against reachability.
  \<^item> Redaction: every match of every credential pattern is masked and reported, everything else is kept.
  \<^item> Numbers: a risk score as an exact share of the room above its band's floor, CVSS scores as tenths in binary64, monotonicity.
  \<^item> Orders: comparison of versions as a total preorder in each ecosystem, ranges as intervals, edit distance as its recursive definition.
  \<^item> The tool rail: a cleared job is inside its permission, an approval opens one job, an accepted job was signed and is accepted again at most
    in its last second, the way to the execution plane and back changes nothing, the last digest of the evidence chain fixes all items before it.
  \<^item> Closing: only an engine that completed undegraded and did not report a finding resolves it; paging sees every row once.
  Lemmas on inputs that break what a comment or a name promises stand beside the operation they are about.

  \<^bold>\<open>Interfaces.\<close>  \<open>str_enum\<close> (Enums) is what the program relies on when it stores a member by its value; every vocabulary interprets
  it.  \<open>adjacency\<close> (GraphSearch) is what both searches need of a graph; the exposure and the attack relations interpret it.
  \<open>ageing\<close> (RateLimit) is the law by which old attempts leave a window; the limiter's clock interprets it.  \<open>three_way\<close>
  (Versioning) is a comparison returning a sign; padded segment lists, the versions of every ecosystem and the order that CPE rows
  use interpret it.  \<open>nonce_store\<close> (JobSigning) is a store that grants a nonce once; the store of a process interprets it, and the rule for
  production is shown to keep its laws.

  \<^bold>\<open>Bounds and fuel.\<close>  Depth, breadth and result limits of the searches are the code's own parameters, kept as such, and the results say
  when one was hit.  Loops are structural or have a \<open>termination\<close> proof by a measure.  The repetition of the regular expression
  matcher has the length of the remaining text as fuel, and \<open>star_run_fuel\<close> shows that more changes nothing, since every round
  consumes a character.  \<open>dec_pos\<close> in PyValue searches the decimal exponent of a float in the range binary64 has.

  \<^bold>\<open>Not modelled.\<close>  The scan engines themselves and what they parse (SAST, DAST, API, SCA manifests, containers, infrastructure and
  Kubernetes manifests, cloud, mobile, secrets), discovery providers, tool backends and the sandbox: they are bulk rule tables and
  protocol code, and the development takes their reports as given.  The download and parsing of feeds.  HTTP routing,
  authentication and sessions, settings, logging and metrics.  Report rendering, compliance mapping, the AI analyst.
  The web console, migrations, deployment files.  Concurrency beyond the row-level claims the code makes explicit: a transaction is one
  step (the limiter's clock, read before its lock, is the exception).  What a crash leaves behind in the middle of a step: a scan row
  left at \<open>running\<close> when the scan task dies outside the guard of an engine, the part of a feed record that was merged before the merge
  raised; a text longer than its column.  The 300 seconds the control plane waits for the result of a tool job.  The limit of 4300 digits in \<open>int()\<close> and Unicode beyond ASCII in case mapping.
\<close>

end
